(* ===== verification/Prelude.thy ===== *)
theory Prelude
  imports Main "HOL-Library.Word" "HOL-Library.AList"
begin

text \<open>
  Shared vocabulary of the development: the result type of the fallible operations, the machine
  integers and strings of the source, the decimal parsers of the Rust standard library that the
  source calls, the theorem collections, and the two interfaces (\<open>machine\<close> and
  \<open>evolving_machine\<close>) through which every stateful component lifts a one-step fact to runs.

  A Rust \<open>String\<close> is its UTF-8 byte sequence: \<open>string\<close> is a list of 8-bit characters, so
  \<open>length\<close> is \<open>str::len\<close>, and \<open>char_count\<close> counts the code points.
\<close>

named_theorems byte_simps \<open>evaluation of byte classes\<close>
named_theorems frame \<open>fields and providers that an operation leaves alone\<close>
named_theorems preserves \<open>operations keep the invariant of their component\<close>

section \<open>Results\<close>

type_synonym ('e, 'a) result = "'e + 'a"

abbreviation Ok :: "'a \<Rightarrow> ('e, 'a) result" where "Ok \<equiv> Inr"
abbreviation Err :: "'e \<Rightarrow> ('e, 'a) result" where "Err \<equiv> Inl"

definition is_ok :: "('e, 'a) result \<Rightarrow> bool" where
  "is_ok r = (case r of Err _ \<Rightarrow> False | Ok _ \<Rightarrow> True)"

definition is_err :: "('e, 'a) result \<Rightarrow> bool" where
  "is_err r = (\<not> is_ok r)"

text \<open>The \<open>?\<close> operator and \<open>Result::and_then\<close>.\<close>

fun and_then :: "('e, 'a) result \<Rightarrow> ('a \<Rightarrow> ('e, 'b) result) \<Rightarrow> ('e, 'b) result" where
  "and_then (Err e) f = Err e"
| "and_then (Ok x) f = f x"

fun map_err :: "('e \<Rightarrow> 'f) \<Rightarrow> ('e, 'a) result \<Rightarrow> ('f, 'a) result" where
  "map_err g (Err e) = Err (g e)"
| "map_err g (Ok x) = Ok x"

definition ok_or :: "'e \<Rightarrow> 'a option \<Rightarrow> ('e, 'a) result" where
  "ok_or e x = (case x of None \<Rightarrow> Err e | Some v \<Rightarrow> Ok v)"

definition require :: "bool \<Rightarrow> 'e \<Rightarrow> ('e, unit) result" where
  "require b e = (if b then Ok () else Err e)"

lemma is_ok_simps [simp]: "is_ok (Ok x)" "\<not> is_ok (Err e)" "is_err (Err e)" "\<not> is_err (Ok x)"
  by (simp_all add: is_ok_def is_err_def)

lemma is_okE: "is_ok r \<Longrightarrow> (\<And>x. r = Ok x \<Longrightarrow> P) \<Longrightarrow> P"
  by (cases r) auto

lemma is_ok_iff: "is_ok r \<longleftrightarrow> (\<exists>x. r = Ok x)"
  by (cases r) auto

lemma and_then_Ok_iff [simp]: "and_then r f = Ok y \<longleftrightarrow> (\<exists>x. r = Ok x \<and> f x = Ok y)"
  by (cases r) auto

lemma and_then_Err_iff:
  "and_then r f = Err e \<longleftrightarrow> r = Err e \<or> (\<exists>x. r = Ok x \<and> f x = Err e)"
  by (cases r) auto

text \<open>Decomposing a successful chain of fallible steps without splitting its branches.\<close>

lemma and_thenE: "and_then r f = Ok y \<Longrightarrow> (\<And>x. r = Ok x \<Longrightarrow> f x = Ok y \<Longrightarrow> P) \<Longrightarrow> P"
  by (cases r) auto

lemma guardE: "(if b then Err e else r) = Ok y \<Longrightarrow> (\<not> b \<Longrightarrow> r = Ok y \<Longrightarrow> P) \<Longrightarrow> P"
  by (cases b) auto

lemma pair_stepE: "(case p of (a, b) \<Rightarrow> f a b) = Ok y \<Longrightarrow> (\<And>a b. p = (a, b) \<Longrightarrow> f a b = Ok y \<Longrightarrow> P) \<Longrightarrow> P"
  by (cases p) auto

lemmas step_elims = and_thenE guardE pair_stepE

lemma map_err_Ok_iff [simp]: "map_err g r = Ok y \<longleftrightarrow> r = Ok y"
  by (cases r) auto

lemma map_err_Err_iff [simp]: "map_err g r = Err y \<longleftrightarrow> (\<exists>e. r = Err e \<and> y = g e)"
  by (cases r) auto

lemma ok_or_Ok_iff [simp]: "ok_or e x = Ok y \<longleftrightarrow> x = Some y"
  by (auto simp: ok_or_def split: option.splits)

lemma ok_or_Err_iff [simp]: "ok_or e x = Err y \<longleftrightarrow> x = None \<and> y = e"
  by (auto simp: ok_or_def split: option.splits)

lemma require_Ok_iff [simp]: "require b e = Ok u \<longleftrightarrow> b"
  by (simp add: require_def)

lemma require_Err_iff [simp]: "require b e = Err y \<longleftrightarrow> \<not> b \<and> y = e"
  by (auto simp: require_def)

section \<open>Machine integers\<close>

type_synonym u8 = "8 word"
type_synonym u16 = "16 word"
type_synonym u32 = "32 word"
type_synonym u64 = "64 word"

text \<open>\<open>usize\<close> is 64 bits wide on the target; a count is a \<open>nat\<close>, its saturation written out.\<close>

definition usize_max :: nat where
  "usize_max = 2 ^ 64 - 1"

definition usize_saturating_succ :: "nat \<Rightarrow> nat" where
  "usize_saturating_succ n = (if n < usize_max then Suc n else usize_max)"

definition checked_succ :: "'a::len word \<Rightarrow> 'a word option" where
  "checked_succ w = (if w = - 1 then None else Some (w + 1))"

lemma checked_succ_Some: "checked_succ w = Some v \<Longrightarrow> unat v = Suc (unat w)"
  by (auto simp: checked_succ_def unatSuc split: if_splits)
     (metis add.commute add.right_inverse unatSuc add_eq_0_iff)

section \<open>Bytes and strings\<close>

definition byte :: "char \<Rightarrow> nat" where
  "byte c = of_char c"

definition is_digit :: "char \<Rightarrow> bool" where
  "is_digit c \<longleftrightarrow> 48 \<le> byte c \<and> byte c \<le> 57"

definition is_lower :: "char \<Rightarrow> bool" where
  "is_lower c \<longleftrightarrow> 97 \<le> byte c \<and> byte c \<le> 122"

definition is_upper :: "char \<Rightarrow> bool" where
  "is_upper c \<longleftrightarrow> 65 \<le> byte c \<and> byte c \<le> 90"

definition is_alnum :: "char \<Rightarrow> bool" where
  "is_alnum c \<longleftrightarrow> is_digit c \<or> is_lower c \<or> is_upper c"

definition is_control :: "char \<Rightarrow> bool" where
  "is_control c \<longleftrightarrow> byte c < 32 \<or> byte c = 127"

text \<open>A UTF-8 continuation byte is \<open>10xxxxxx\<close>; every other byte starts a code point.\<close>

definition char_count :: "string \<Rightarrow> nat" where
  "char_count s = length (filter (\<lambda>c. \<not> (128 \<le> byte c \<and> byte c < 192)) s)"

definition lower :: "char \<Rightarrow> char" where
  "lower c = (if is_upper c then char_of (byte c + 32) else c)"

definition eq_ignore_case :: "string \<Rightarrow> string \<Rightarrow> bool" where
  "eq_ignore_case s t \<longleftrightarrow> map lower s = map lower t"

lemmas byte_class_defs =
  byte_def is_digit_def is_lower_def is_upper_def is_alnum_def is_control_def lower_def

lemma char_count_le_length: "char_count s \<le> length s"
  by (simp add: char_count_def)

lemma eq_ignore_case_refl [simp]: "eq_ignore_case s s"
  by (simp add: eq_ignore_case_def)

lemma eq_ignore_case_length: "eq_ignore_case s t \<Longrightarrow> length s = length t"
  by (metis eq_ignore_case_def length_map)

subsection \<open>Decimal numbers\<close>

definition dec_value :: "string \<Rightarrow> nat" where
  "dec_value s = foldl (\<lambda>n c. 10 * n + (byte c - 48)) 0 s"

text \<open>
  \<open>str::parse\<close> of an unsigned type: one leading \<open>+\<close> is accepted, at least one digit is
  required, and a value above the type's maximum is an error. A signed type accepts \<open>-\<close> too.
\<close>

definition parse_digits :: "nat \<Rightarrow> string \<Rightarrow> nat option" where
  "parse_digits mx s =
     (if s \<noteq> [] \<and> list_all is_digit s \<and> dec_value s \<le> mx then Some (dec_value s) else None)"

definition parse_unsigned :: "nat \<Rightarrow> string \<Rightarrow> nat option" where
  "parse_unsigned mx s =
     (case s of c # r \<Rightarrow> if c = CHR ''+'' then parse_digits mx r else parse_digits mx s
      | [] \<Rightarrow> None)"

definition parse_i64 :: "string \<Rightarrow> int option" where
  "parse_i64 s =
     (case s of
        [] \<Rightarrow> None
      | c # r \<Rightarrow>
          if c = CHR ''-'' then map_option (\<lambda>n. - int n) (parse_digits (2 ^ 63) r)
          else map_option int (parse_unsigned (2 ^ 63 - 1) s))"

lemma dec_value_Nil [simp]: "dec_value [] = 0"
  by (simp add: dec_value_def)

lemma dec_value_snoc: "dec_value (s @ [c]) = 10 * dec_value s + (byte c - 48)"
  by (simp add: dec_value_def)

lemma dec_value_bound: "list_all is_digit s \<Longrightarrow> dec_value s < 10 ^ length s"
proof (induction s rule: rev_induct)
  case Nil
  then show ?case by simp
next
  case (snoc c s)
  then have "dec_value s < 10 ^ length s" and "byte c - 48 \<le> 9"
    by (auto simp: is_digit_def)
  then show ?case by (simp add: dec_value_snoc)
qed

lemma parse_digits_Some:
  "parse_digits mx s = Some n \<Longrightarrow> n \<le> mx \<and> n = dec_value s \<and> s \<noteq> [] \<and> list_all is_digit s"
  by (auto simp: parse_digits_def split: if_splits)

lemma parse_unsigned_digits:
  "list_all is_digit s \<Longrightarrow> parse_unsigned mx s = parse_digits mx s"
  by (auto simp: parse_unsigned_def parse_digits_def is_digit_def byte_def split: list.splits)

lemma parse_i64_digits:
  "list_all is_digit s \<Longrightarrow> parse_i64 s = map_option int (parse_digits (2 ^ 63 - 1) s)"
  by (cases s) (auto simp: parse_i64_def parse_unsigned_digits is_digit_def byte_def,
      auto simp: parse_digits_def)

section \<open>Association lists as hash maps\<close>

text \<open>
  A \<open>HashMap\<close> whose length the code reads is an association list with distinct keys:
  \<open>AList.update\<close> replaces or adds, \<open>AList.delete\<close> removes, \<open>length\<close> is \<open>len\<close>.
\<close>

definition distinct_keys :: "('k \<times> 'v) list \<Rightarrow> bool" where
  "distinct_keys m \<longleftrightarrow> distinct (map fst m)"

lemma distinct_keys_Nil [simp]: "distinct_keys []"
  by (simp add: distinct_keys_def)

lemma distinct_keys_update [simp]: "distinct_keys m \<Longrightarrow> distinct_keys (AList.update k v m)"
  by (simp add: distinct_keys_def distinct_update)

lemma distinct_keys_delete [simp]: "distinct_keys m \<Longrightarrow> distinct_keys (AList.delete k m)"
  by (simp add: distinct_keys_def distinct_delete)

lemma length_update_eq:
  "length (AList.update k v m) = (if k \<in> fst ` set m then length m else Suc (length m))"
  by (induction m) auto

lemma length_delete_le: "length (AList.delete k m) \<le> length m"
  by (simp add: AList.delete_eq)

section \<open>Machines: invariants of runs\<close>

text \<open>
  The contract of a component: every operation keeps its invariant. A client that issues any
  sequence of operations then stays within the invariant.
\<close>

locale machine =
  fixes step :: "'s \<Rightarrow> 'c \<Rightarrow> 's"
    and inv :: "'s \<Rightarrow> bool"
  assumes step_inv: "inv s \<Longrightarrow> inv (step s c)"
begin

lemma run_inv: "inv s \<Longrightarrow> inv (foldl step s cs)"
  by (induction cs arbitrary: s) (auto intro: step_inv)

lemma run_every_prefix: "inv s \<Longrightarrow> inv (foldl step s (take n cs))"
  by (rule run_inv)

end

text \<open>
  A component that moreover only evolves along a preorder (counters grow, identifiers stay):
  the preorder holds between any two points of a run.
\<close>

locale evolving_machine = machine step inv
  for step :: "'s \<Rightarrow> 'c \<Rightarrow> 's" and inv :: "'s \<Rightarrow> bool" +
  fixes evolves :: "'s \<Rightarrow> 's \<Rightarrow> bool"
  assumes evolves_refl: "evolves s s"
    and evolves_trans: "evolves s t \<Longrightarrow> evolves t u \<Longrightarrow> evolves s u"
    and step_evolves: "inv s \<Longrightarrow> evolves s (step s c)"
begin

lemma run_evolves: "inv s \<Longrightarrow> evolves s (foldl step s cs)"
proof (induction cs arbitrary: s)
  case Nil
  show ?case by (simp add: evolves_refl)
next
  case (Cons c cs)
  have "evolves s (step s c)" and "inv (step s c)"
    using Cons.prems by (auto intro: step_evolves step_inv)
  then show ?case using Cons.IH [of "step s c"] by (auto intro: evolves_trans)
qed

lemma prefix_evolves:
  assumes "inv s" and "m \<le> n"
  shows "evolves (foldl step s (take m cs)) (foldl step s (take n cs))"
proof -
  have "take n cs = take m cs @ take (n - m) (drop m cs)"
    using \<open>m \<le> n\<close> by (metis le_add_diff_inverse take_add)
  then show ?thesis
    using run_evolves [OF run_inv [OF \<open>inv s\<close>, of "take m cs"], of "take (n - m) (drop m cs)"]
    by simp
qed

end

end
