(* ===== verification/Receipts.thy ===== *)
theory Receipts
  imports Prelude
begin

text \<open>
  The receipts that the destinations return (\<open>rust/src/domain/receipts.rs\<close>): their data, and the
  validity checks that gate their recording and their restoration from history.
\<close>

record encounter_metadata =
  boss_id :: u16
  pov_account :: string
  remaining_health_basis_points :: "u16 option"

record dps_report_result =
  permalink :: string
  encounter_name :: string
  report_boss_id :: u16
  mode :: string
  success :: bool

record wingman_upload_receipt =
  wingman_permalink :: string

datatype discord_outcome =
  NotRequested | DiscordSent | Partial | DiscordSkipped | DiscordFailed | DiscordAmbiguous

record discord_delivery_receipt =
  outcome :: discord_outcome
  sent :: u16
  skipped :: u16
  failed :: u16
  ambiguous :: u16

definition counts :: "discord_delivery_receipt \<Rightarrow> u16 list" where
  "counts r = [sent r, skipped r, failed r, ambiguous r]"

definition discord_total :: "discord_delivery_receipt \<Rightarrow> nat" where
  "discord_total r = sum_list (map unat (counts r))"

definition populated :: "discord_delivery_receipt \<Rightarrow> nat" where
  "populated r = length (filter (\<lambda>n. n \<noteq> 0) (counts r))"

definition is_valid_with_limit :: "discord_delivery_receipt \<Rightarrow> u16 \<Rightarrow> bool" where
  "is_valid_with_limit r maximum =
     (if discord_total r > unat maximum then False
      else case outcome r of
        NotRequested \<Rightarrow> discord_total r = 0
      | DiscordSent \<Rightarrow> sent r > 0 \<and> populated r = 1
      | Partial \<Rightarrow> populated r \<ge> 2
      | DiscordSkipped \<Rightarrow> skipped r > 0 \<and> populated r = 1
      | DiscordFailed \<Rightarrow> failed r > 0 \<and> populated r = 1
      | DiscordAmbiguous \<Rightarrow> ambiguous r > 0 \<and> populated r = 1)"

definition discord_is_valid :: "discord_delivery_receipt \<Rightarrow> bool" where
  "discord_is_valid r = is_valid_with_limit r 4"

record donbot_upload_receipt =
  upload_id :: "u64 option"
  fight_log_id :: "u64 option"
  discord_delivery :: discord_delivery_receipt
  guild_id :: "string option"

definition canonical_discord_id :: "string \<Rightarrow> bool" where
  "canonical_discord_id v \<longleftrightarrow>
     v \<noteq> [] \<and> length v \<le> 19 \<and> hd v \<noteq> CHR ''0'' \<and> list_all is_digit v \<and>
     (case parse_i64 v of Some n \<Rightarrow> n > 0 | None \<Rightarrow> False)"

definition donbot_is_valid :: "donbot_upload_receipt \<Rightarrow> bool" where
  "donbot_is_valid r \<longleftrightarrow>
     (case upload_id r of None \<Rightarrow> True | Some n \<Rightarrow> n \<noteq> 0) \<and>
     (case fight_log_id r of None \<Rightarrow> True | Some n \<Rightarrow> n > 0 \<and> unat n \<le> 2 ^ 63 - 1) \<and>
     discord_is_valid (discord_delivery r) \<and>
     (case guild_id r of None \<Rightarrow> True | Some g \<Rightarrow> canonical_discord_id g)"

datatype twitch_delivery_status =
  TwitchSent | AutoMod | BlockedTerm | Duplicate | RateLimited
| FollowersOnly | SlowMode | SubscribersOnly | Restricted | OtherDrop

record twitch_delivery_receipt =
  delivery_status :: twitch_delivery_status
  message_id :: "string option"

definition twitch_is_valid :: "twitch_delivery_receipt \<Rightarrow> bool" where
  "twitch_is_valid r =
     (case (delivery_status r, message_id r) of
        (TwitchSent, Some i) \<Rightarrow>
          i \<noteq> [] \<and> length i \<le> 256 \<and> list_all (\<lambda>c. 33 \<le> byte c \<and> byte c \<le> 126) i
      | (TwitchSent, None) \<Rightarrow> False
      | (_, i) \<Rightarrow> i = None)"

section \<open>What a valid receipt says\<close>

lemma populated_four:
  "populated r = (if sent r \<noteq> 0 then 1 else 0) + (if skipped r \<noteq> 0 then 1 else 0)
     + (if failed r \<noteq> 0 then 1 else 0) + (if ambiguous r \<noteq> 0 then 1 else 0)"
  by (simp add: populated_def counts_def)

lemma discord_total_four:
  "discord_total r = unat (sent r) + unat (skipped r) + unat (failed r) + unat (ambiguous r)"
  by (simp add: discord_total_def counts_def)

text \<open>The four counts are 16-bit, so the 32-bit sum of the code cannot wrap.\<close>

lemma discord_total_fits: "discord_total r < 2 ^ 32"
proof -
  have "unat (x :: u16) < 2 ^ 16" for x
    using unsigned_less [of x] by simp
  from this [of "sent r"] this [of "skipped r"] this [of "failed r"] this [of "ambiguous r"]
  show ?thesis by (simp add: discord_total_four)
qed

lemma populated_total: "populated r \<le> discord_total r"
proof -
  have "(if x \<noteq> 0 then 1 else 0) \<le> unat x" for x :: u16
    by (cases "x = 0") (auto simp: Suc_le_eq unat_gt_0)
  from this [of "sent r"] this [of "skipped r"] this [of "failed r"] this [of "ambiguous r"]
  show ?thesis unfolding populated_four discord_total_four by linarith
qed

lemma discord_valid_total: "is_valid_with_limit r m \<Longrightarrow> discord_total r \<le> unat m"
  by (auto simp: is_valid_with_limit_def split: if_splits)

lemma canonical_iff:
  "canonical_discord_id v \<longleftrightarrow>
     v \<noteq> [] \<and> hd v \<noteq> CHR ''0'' \<and> list_all is_digit v \<and> length v \<le> 19 \<and> 0 < dec_value v \<and>
     dec_value v < 2 ^ 63"
  by (auto simp: canonical_discord_id_def parse_i64_digits parse_digits_def
      split: option.splits if_splits)

end
