(* ===== verification/Upload_Job.thy ===== *)
theory Upload_Job
  imports Receipts
begin

text \<open>
  The upload job of \<open>rust/src/domain/upload_job.rs\<close>: the four destinations and their states, the
  identity of a log file, the job record, and one definition per operation of \<open>UploadJob\<close>.

  The array \<open>[ProviderStatus; 4]\<close> indexed by \<open>provider as usize\<close> is a total function on
  \<open>provider\<close>. Every operation of the source writes the job only after its last error return, so
  an operation is a function into \<open>job_error + upload_job\<close>: on \<open>Err\<close> the caller keeps the old job.
\<close>

section \<open>Destinations\<close>

datatype provider = DpsReport | Wingman | DonBot | Twitch

fun provider_index :: "provider \<Rightarrow> nat" where
  "provider_index DpsReport = 0"
| "provider_index Wingman = 1"
| "provider_index DonBot = 2"
| "provider_index Twitch = 3"

definition all_providers :: "provider list" where
  "all_providers = [DpsReport, Wingman, DonBot, Twitch]"

lemma provider_index_inject [simp]: "provider_index p = provider_index q \<longleftrightarrow> p = q"
  by (cases p; cases q) auto

lemma provider_index_less: "provider_index p < 4"
  by (cases p) auto

lemma set_all_providers [simp]: "set all_providers = UNIV"
  by (auto simp: all_providers_def intro: provider.exhaust)

lemma distinct_all_providers [simp]: "distinct all_providers"
  by (simp add: all_providers_def)

lemma all_providers_nth: "all_providers ! provider_index p = p"
  by (cases p) (auto simp: all_providers_def)

lemma provider_all: "(\<forall>p. P p) \<longleftrightarrow> P DpsReport \<and> P Wingman \<and> P DonBot \<and> P Twitch"
  by (metis provider.exhaust)

instantiation provider :: linorder
begin

definition less_eq_provider :: "provider \<Rightarrow> provider \<Rightarrow> bool" where
  "p \<le> q \<longleftrightarrow> provider_index p \<le> provider_index q"

definition less_provider :: "provider \<Rightarrow> provider \<Rightarrow> bool" where
  "p < q \<longleftrightarrow> provider_index p < provider_index q"

instance
  by standard (auto simp: less_eq_provider_def less_provider_def)

end

instantiation provider :: enum
begin

definition enum_provider :: "provider list" where
  "enum_provider = all_providers"

definition enum_all_provider :: "(provider \<Rightarrow> bool) \<Rightarrow> bool" where
  "enum_all_provider P \<longleftrightarrow> list_all P all_providers"

definition enum_ex_provider :: "(provider \<Rightarrow> bool) \<Rightarrow> bool" where
  "enum_ex_provider P \<longleftrightarrow> list_ex P all_providers"

instance
  by standard
    (auto simp: enum_provider_def enum_all_provider_def enum_ex_provider_def list_all_iff list_ex_iff)

end

fun provider_name :: "provider \<Rightarrow> string" where
  "provider_name DpsReport = ''dps.report''"
| "provider_name Wingman = ''GW2Wingman''"
| "provider_name DonBot = ''DonBot''"
| "provider_name Twitch = ''Twitch''"

record provider_selection =
  dps_report_selected :: bool
  wingman_selected :: bool
  donbot_selected :: bool
  twitch_selected :: bool

fun contains :: "provider_selection \<Rightarrow> provider \<Rightarrow> bool" where
  "contains s DpsReport = dps_report_selected s"
| "contains s Wingman = wingman_selected s"
| "contains s DonBot = donbot_selected s"
| "contains s Twitch = twitch_selected s"

section \<open>Provider states\<close>

text \<open>An \<open>Instant\<close> is its distance in nanoseconds from the clock's origin.\<close>

type_synonym instant = nat

datatype provider_state =
  Disabled | Waiting | Active | Succeeded | Skipped | RetryScheduled instant | Failed | Cancelled

fun is_busy :: "provider_state \<Rightarrow> bool" where
  "is_busy Waiting = True"
| "is_busy Active = True"
| "is_busy (RetryScheduled _) = True"
| "is_busy _ = False"

fun is_terminal :: "provider_state \<Rightarrow> bool" where
  "is_terminal Disabled = True"
| "is_terminal Succeeded = True"
| "is_terminal Skipped = True"
| "is_terminal Cancelled = True"
| "is_terminal _ = False"

fun allows :: "provider_state \<Rightarrow> provider_state \<Rightarrow> bool" where
  "allows Waiting nxt =
     (case nxt of Active \<Rightarrow> True | Skipped \<Rightarrow> True | Failed \<Rightarrow> True | Cancelled \<Rightarrow> True | _ \<Rightarrow> False)"
| "allows Active nxt =
     (case nxt of Succeeded \<Rightarrow> True | Skipped \<Rightarrow> True | RetryScheduled _ \<Rightarrow> True | Failed \<Rightarrow> True
      | Cancelled \<Rightarrow> True | _ \<Rightarrow> False)"
| "allows (RetryScheduled _) nxt =
     (case nxt of Active \<Rightarrow> True | Failed \<Rightarrow> True | Cancelled \<Rightarrow> True | _ \<Rightarrow> False)"
| "allows Failed nxt = (case nxt of Waiting \<Rightarrow> True | Cancelled \<Rightarrow> True | _ \<Rightarrow> False)"
| "allows _ nxt = False"

section \<open>Job and file identities\<close>

type_synonym job_id = u64

definition wvw_boss_id :: u16 where
  "wvw_boss_id = 1"

text \<open>
  A path is the sequence of its components: the notion of equality and hashing that
  \<open>PathBuf\<close> has. The components are those of \<open>std::path::Component\<close>, with a Windows prefix.
\<close>

datatype path_prefix =
  Verbatim string | VerbatimUNC string string | VerbatimDisk char
| DeviceNS string | UNC string string | Disk char

datatype path_component =
  PrefixComponent path_prefix | RootDir | CurDir | ParentDir | Normal string

type_synonym path = "path_component list"

text \<open>A \<open>SystemTime\<close> is its signed distance in nanoseconds from the Unix epoch.\<close>

type_synonym system_time = int

record log_file_identity =
  canonical_path :: path
  file_size :: u64
  last_write_time :: system_time

text \<open>Canonical Windows paths carry verbatim prefixes, older history does not.\<close>

fun identity_component :: "path_component \<Rightarrow> path_component" where
  "identity_component (PrefixComponent (VerbatimDisk d)) = PrefixComponent (Disk d)"
| "identity_component (PrefixComponent (VerbatimUNC s t)) = PrefixComponent (UNC s t)"
| "identity_component c = c"

definition same_file :: "log_file_identity \<Rightarrow> log_file_identity \<Rightarrow> bool" where
  "same_file a b \<longleftrightarrow>
     file_size a = file_size b \<and> last_write_time a = last_write_time b \<and>
     map identity_component (canonical_path a) = map identity_component (canonical_path b)"

text \<open>What \<open>Hash\<close> feeds to the hasher, in its order.\<close>

definition identity_key :: "log_file_identity \<Rightarrow> path \<times> u64 \<times> system_time" where
  "identity_key f = (map identity_component (canonical_path f), file_size f, last_write_time f)"

lemma same_file_key: "same_file a b \<longleftrightarrow> identity_key a = identity_key b"
  by (auto simp: same_file_def identity_key_def)

lemma identity_component_idem [simp]:
  "identity_component (identity_component c) = identity_component c"
  by (cases c rule: identity_component.cases) auto

section \<open>Jobs\<close>

record provider_status =
  state :: provider_state
  attempts :: u32
  detail :: string

definition default_status :: provider_status where
  "default_status = \<lparr>state = Disabled, attempts = 0, detail = ''''\<rparr>"

datatype job_error =
  InvalidJobId | EmptyPath | TwitchRequiresDpsReport | InvalidTransition
| DpsReportResultRequired | EmptyPermalink | MetadataAlreadySet
| InvalidTwitchDelivery | TwitchDeliveryAlreadyRecorded
| InvalidDonBotUpload | DonBotUploadAlreadyRecorded
| InvalidWingmanUpload | WingmanUploadAlreadyRecorded
| ManualRetryRequiresFailure | ExplicitDeliveryBusy
| EncounterMetadataRequired | AttemptLimitReached

record upload_job_record =
  job_file :: log_file_identity
  detected_at :: system_time
  encounter_metadata :: "encounter_metadata option"
  dps_report_result :: "dps_report_result option"
  wingman_receipt :: "wingman_upload_receipt option"
  donbot_receipt :: "donbot_upload_receipt option"
  twitch_receipt :: "twitch_delivery_receipt option"
  providers :: "provider \<Rightarrow> provider_status"

record upload_job =
  id_of :: job_id
  snapshot :: upload_job_record

definition new_job_id :: "u64 \<Rightarrow> (job_error, job_id) result" where
  "new_job_id v = (if v = 0 then Err InvalidJobId else Ok v)"

definition new_job ::
  "job_id \<Rightarrow> log_file_identity \<Rightarrow> system_time \<Rightarrow> provider_selection \<Rightarrow> (job_error, upload_job) result"
where
  "new_job i f detected enabled =
     (if canonical_path f = [] then Err EmptyPath
      else if twitch_selected enabled \<and> \<not> dps_report_selected enabled
      then Err TwitchRequiresDpsReport
      else Ok \<lparr>id_of = i,
        snapshot = \<lparr>job_file = f, detected_at = detected, encounter_metadata = None,
          dps_report_result = None, wingman_receipt = None, donbot_receipt = None,
          twitch_receipt = None,
          providers = (\<lambda>p. default_status
            \<lparr>state := (if contains enabled p then Waiting else Disabled)\<rparr>)\<rparr>\<rparr>)"

definition restore_status :: "provider_status \<Rightarrow> provider_status" where
  "restore_status s =
     (if is_busy (state s)
      then s\<lparr>state := Failed, detail := ''Interrupted by the previous game session''\<rparr> else s)"

definition some_and :: "'a option \<Rightarrow> ('a \<Rightarrow> bool) \<Rightarrow> bool" where
  "some_and x P = (case x of None \<Rightarrow> False | Some v \<Rightarrow> P v)"

definition restore_job :: "job_id \<Rightarrow> upload_job_record \<Rightarrow> (job_error, upload_job) result" where
  "restore_job i r =
     (if canonical_path (job_file r) = [] then Err EmptyPath
      else if some_and (dps_report_result r) (\<lambda>d. permalink d = []) then Err EmptyPermalink
      else if some_and (wingman_receipt r) (\<lambda>w. wingman_permalink w = [])
      then Err InvalidWingmanUpload
      else if some_and (donbot_receipt r) (\<lambda>d. \<not> donbot_is_valid d) then Err InvalidDonBotUpload
      else if some_and (twitch_receipt r) (\<lambda>t. \<not> twitch_is_valid t) then Err InvalidTwitchDelivery
      else Ok \<lparr>id_of = i, snapshot = r\<lparr>providers := (\<lambda>p. restore_status (providers r p))\<rparr>\<rparr>)"

definition provider_status :: "upload_job \<Rightarrow> provider \<Rightarrow> provider_status" where
  "provider_status j p = providers (snapshot j) p"

abbreviation state_of :: "upload_job \<Rightarrow> provider \<Rightarrow> provider_state" where
  "state_of j p \<equiv> state (provider_status j p)"

text \<open>Writing one slot of the array, and one field of the record.\<close>

definition set_status :: "provider \<Rightarrow> provider_status \<Rightarrow> upload_job \<Rightarrow> upload_job" where
  "set_status p s j = j\<lparr>snapshot := (snapshot j)\<lparr>providers := (providers (snapshot j))(p := s)\<rparr>\<rparr>"

definition set_encounter_metadata ::
  "encounter_metadata \<Rightarrow> upload_job \<Rightarrow> (job_error, upload_job) result" where
  "set_encounter_metadata m j =
     (if encounter_metadata (snapshot j) \<noteq> None then Err MetadataAlreadySet
      else Ok (j\<lparr>snapshot := (snapshot j)\<lparr>encounter_metadata := Some m\<rparr>\<rparr>))"

definition transition ::
  "provider \<Rightarrow> provider_state \<Rightarrow> string \<Rightarrow> upload_job \<Rightarrow> (job_error, upload_job) result" where
  "transition p nxt d j =
     (if \<not> allows (state_of j p) nxt then Err InvalidTransition
      else if p = DpsReport \<and> nxt = Succeeded then Err DpsReportResultRequired
      else if p = Twitch \<and> nxt = Active \<and>
        (state_of j DpsReport \<noteq> Succeeded \<or> dps_report_result (snapshot j) = None)
      then Err DpsReportResultRequired
      else if p = Twitch \<and> nxt = Succeeded \<and>
        \<not> some_and (twitch_receipt (snapshot j)) (\<lambda>r. delivery_status r = TwitchSent)
      then Err InvalidTwitchDelivery
      else let s = provider_status j p in
        and_then
          (if nxt = Active then ok_or AttemptLimitReached (checked_succ (attempts s))
           else Ok (attempts s))
          (\<lambda>n. Ok (set_status p
            (s\<lparr>state := nxt, attempts := n, detail := (if nxt = Waiting then '''' else d)\<rparr>) j)))"

definition require_active :: "upload_job \<Rightarrow> provider \<Rightarrow> (job_error, unit) result" where
  "require_active j p = require (state_of j p = Active) InvalidTransition"

definition complete_dps_report ::
  "dps_report_result \<Rightarrow> string \<Rightarrow> upload_job \<Rightarrow> (job_error, upload_job) result" where
  "complete_dps_report r d j =
     and_then (require_active j DpsReport) (\<lambda>_.
       if permalink r = [] then Err EmptyPermalink
       else Ok (set_status DpsReport ((provider_status j DpsReport)\<lparr>state := Succeeded, detail := d\<rparr>)
         (j\<lparr>snapshot := (snapshot j)\<lparr>dps_report_result := Some r\<rparr>\<rparr>)))"

definition record_wingman_upload ::
  "wingman_upload_receipt \<Rightarrow> upload_job \<Rightarrow> (job_error, upload_job) result" where
  "record_wingman_upload r j =
     and_then (require_active j Wingman) (\<lambda>_.
       if wingman_receipt (snapshot j) \<noteq> None then Err WingmanUploadAlreadyRecorded
       else if wingman_permalink r = [] then Err InvalidWingmanUpload
       else Ok (j\<lparr>snapshot := (snapshot j)\<lparr>wingman_receipt := Some r\<rparr>\<rparr>))"

definition record_donbot_upload ::
  "donbot_upload_receipt \<Rightarrow> upload_job \<Rightarrow> (job_error, upload_job) result" where
  "record_donbot_upload r j =
     and_then (require_active j DonBot) (\<lambda>_.
       if donbot_receipt (snapshot j) \<noteq> None then Err DonBotUploadAlreadyRecorded
       else if \<not> donbot_is_valid r then Err InvalidDonBotUpload
       else Ok (j\<lparr>snapshot := (snapshot j)\<lparr>donbot_receipt := Some r\<rparr>\<rparr>))"

definition record_twitch_delivery ::
  "twitch_delivery_receipt \<Rightarrow> upload_job \<Rightarrow> (job_error, upload_job) result" where
  "record_twitch_delivery r j =
     and_then (require_active j Twitch) (\<lambda>_.
       if twitch_receipt (snapshot j) \<noteq> None then Err TwitchDeliveryAlreadyRecorded
       else if \<not> twitch_is_valid r then Err InvalidTwitchDelivery
       else Ok (j\<lparr>snapshot := (snapshot j)\<lparr>twitch_receipt := Some r\<rparr>\<rparr>))"

text \<open>The loop over the dependents in \<open>prepare_manual_retry\<close>, one step per dependent.\<close>

definition rearm_skipped :: "provider \<Rightarrow> upload_job \<Rightarrow> upload_job" where
  "rearm_skipped p j =
     (if state_of j p = Skipped
      then set_status p ((provider_status j p)\<lparr>state := Waiting, detail := ''''\<rparr>) j else j)"

definition prepare_manual_retry :: "provider \<Rightarrow> upload_job \<Rightarrow> (job_error, upload_job) result" where
  "prepare_manual_retry p j =
     (if state_of j p \<noteq> Failed then Err ManualRetryRequiresFailure
      else and_then (transition p Waiting '''' j) (\<lambda>j1.
        let j2 = (if p = Twitch then j1\<lparr>snapshot := (snapshot j1)\<lparr>twitch_receipt := None\<rparr>\<rparr> else j1)
        in Ok (if p = DpsReport \<and> dps_report_result (snapshot j2) = None
               then fold rearm_skipped [Wingman, DonBot, Twitch] j2 else j2)))"

definition clear_receipt :: "provider \<Rightarrow> upload_job_record \<Rightarrow> upload_job_record" where
  "clear_receipt p r =
     (case p of
        DpsReport \<Rightarrow> r\<lparr>dps_report_result := None\<rparr>
      | Wingman \<Rightarrow> r\<lparr>wingman_receipt := None\<rparr>
      | DonBot \<Rightarrow> r\<lparr>donbot_receipt := None\<rparr>
      | Twitch \<Rightarrow> r\<lparr>twitch_receipt := None\<rparr>)"

definition prepare_explicit_delivery :: "provider \<Rightarrow> upload_job \<Rightarrow> (job_error, upload_job) result"
where
  "prepare_explicit_delivery p j =
     (if encounter_metadata (snapshot j) = None then Err EncounterMetadataRequired
      else if is_busy (state_of j p) then Err ExplicitDeliveryBusy
      else if p = Twitch \<and> dps_report_result (snapshot j) = None then Err DpsReportResultRequired
      else let j1 = set_status p ((provider_status j p)\<lparr>state := Waiting, detail := ''''\<rparr>) j
        in Ok (j1\<lparr>snapshot := clear_receipt p (snapshot j1)\<rparr>))"

section \<open>Frame lemmas\<close>

lemma provider_status_set [simp]:
  "provider_status (set_status p s j) q = (if q = p then s else provider_status j q)"
  by (simp add: provider_status_def set_status_def)

lemma set_status_frame [simp]:
  "id_of (set_status p s j) = id_of j"
  "job_file (snapshot (set_status p s j)) = job_file (snapshot j)"
  "detected_at (snapshot (set_status p s j)) = detected_at (snapshot j)"
  "encounter_metadata (snapshot (set_status p s j)) = encounter_metadata (snapshot j)"
  "dps_report_result (snapshot (set_status p s j)) = dps_report_result (snapshot j)"
  "wingman_receipt (snapshot (set_status p s j)) = wingman_receipt (snapshot j)"
  "donbot_receipt (snapshot (set_status p s j)) = donbot_receipt (snapshot j)"
  "twitch_receipt (snapshot (set_status p s j)) = twitch_receipt (snapshot j)"
  by (simp_all add: set_status_def)

lemma provider_status_update [simp]:
  "provider_status (j\<lparr>snapshot := (snapshot j)\<lparr>encounter_metadata := m\<rparr>\<rparr>) q = provider_status j q"
  "provider_status (j\<lparr>snapshot := (snapshot j)\<lparr>dps_report_result := r\<rparr>\<rparr>) q = provider_status j q"
  "provider_status (j\<lparr>snapshot := (snapshot j)\<lparr>wingman_receipt := w\<rparr>\<rparr>) q = provider_status j q"
  "provider_status (j\<lparr>snapshot := (snapshot j)\<lparr>donbot_receipt := d\<rparr>\<rparr>) q = provider_status j q"
  "provider_status (j\<lparr>snapshot := (snapshot j)\<lparr>twitch_receipt := t\<rparr>\<rparr>) q = provider_status j q"
  "provider_status (j\<lparr>snapshot := clear_receipt p (snapshot j)\<rparr>) q = provider_status j q"
  by (simp_all add: provider_status_def clear_receipt_def split: provider.splits)

lemma clear_receipt_frame [simp]:
  "job_file (clear_receipt p r) = job_file r"
  "detected_at (clear_receipt p r) = detected_at r"
  "encounter_metadata (clear_receipt p r) = encounter_metadata r"
  "dps_report_result (clear_receipt p r) = (if p = DpsReport then None else dps_report_result r)"
  "wingman_receipt (clear_receipt p r) = (if p = Wingman then None else wingman_receipt r)"
  "donbot_receipt (clear_receipt p r) = (if p = DonBot then None else donbot_receipt r)"
  "twitch_receipt (clear_receipt p r) = (if p = Twitch then None else twitch_receipt r)"
  by (simp_all add: clear_receipt_def split: provider.splits)

lemma some_and_simps [simp]: "\<not> some_and None P" "some_and (Some x) P = P x"
  by (simp_all add: some_and_def)

lemma terminal_allows: "is_terminal s \<Longrightarrow> \<not> allows s nxt"
  by (cases s) auto

lemma allows_Active_iff:
  "allows s Active \<longleftrightarrow> s = Waiting \<or> (\<exists>t. s = RetryScheduled t)"
  by (cases s) auto

lemma allows_Succeeded_iff: "allows s Succeeded \<longleftrightarrow> s = Active"
  by (cases s) auto

text \<open>What a successful transition does, in one rule.\<close>

lemma transitionE:
  assumes "transition p nxt d j = Ok j'"
  obtains n where "allows (state_of j p) nxt"
    and "if nxt = Active then checked_succ (attempts (provider_status j p)) = Some n
         else n = attempts (provider_status j p)"
    and "j' = set_status p ((provider_status j p)
      \<lparr>state := nxt, attempts := n, detail := (if nxt = Waiting then '''' else d)\<rparr>) j"
    and "p = DpsReport \<longrightarrow> nxt \<noteq> Succeeded"
    and "p = Twitch \<and> nxt = Active \<longrightarrow>
      state_of j DpsReport = Succeeded \<and> dps_report_result (snapshot j) \<noteq> None"
    and "p = Twitch \<and> nxt = Succeeded \<longrightarrow>
      some_and (twitch_receipt (snapshot j)) (\<lambda>r. delivery_status r = TwitchSent)"
  using assms by (auto simp: transition_def Let_def split: if_splits)

lemma transition_frame [frame]:
  assumes "transition p nxt d j = Ok j'"
  shows "id_of j' = id_of j"
    and "job_file (snapshot j') = job_file (snapshot j)"
    and "detected_at (snapshot j') = detected_at (snapshot j)"
    and "encounter_metadata (snapshot j') = encounter_metadata (snapshot j)"
    and "dps_report_result (snapshot j') = dps_report_result (snapshot j)"
    and "wingman_receipt (snapshot j') = wingman_receipt (snapshot j)"
    and "donbot_receipt (snapshot j') = donbot_receipt (snapshot j)"
    and "twitch_receipt (snapshot j') = twitch_receipt (snapshot j)"
    and "q \<noteq> p \<Longrightarrow> provider_status j' q = provider_status j q"
    and "state_of j' p = nxt"
  using assms by (auto elim!: transitionE)

section \<open>The operations as one machine\<close>

datatype job_op =
  OpMetadata encounter_metadata
| OpTransition provider provider_state string
| OpDpsReport dps_report_result string
| OpWingman wingman_upload_receipt
| OpDonBot donbot_upload_receipt
| OpTwitch twitch_delivery_receipt
| OpManualRetry provider
| OpExplicit provider

fun job_apply :: "job_op \<Rightarrow> upload_job \<Rightarrow> (job_error, upload_job) result" where
  "job_apply (OpMetadata m) j = set_encounter_metadata m j"
| "job_apply (OpTransition p s d) j = transition p s d j"
| "job_apply (OpDpsReport r d) j = complete_dps_report r d j"
| "job_apply (OpWingman r) j = record_wingman_upload r j"
| "job_apply (OpDonBot r) j = record_donbot_upload r j"
| "job_apply (OpTwitch r) j = record_twitch_delivery r j"
| "job_apply (OpManualRetry p) j = prepare_manual_retry p j"
| "job_apply (OpExplicit p) j = prepare_explicit_delivery p j"

definition job_step :: "upload_job \<Rightarrow> job_op \<Rightarrow> upload_job" where
  "job_step j c = (case job_apply c j of Err _ \<Rightarrow> j | Ok j' \<Rightarrow> j')"

text \<open>
  The part of the invariant that \<open>restore\<close> checks, and the part that the operations keep on top
  of it: a destination that claims success has the evidence for it.
\<close>

definition record_valid :: "upload_job_record \<Rightarrow> bool" where
  "record_valid r \<longleftrightarrow>
     canonical_path (job_file r) \<noteq> [] \<and>
     (\<forall>d. dps_report_result r = Some d \<longrightarrow> permalink d \<noteq> []) \<and>
     (\<forall>w. wingman_receipt r = Some w \<longrightarrow> wingman_permalink w \<noteq> []) \<and>
     (\<forall>d. donbot_receipt r = Some d \<longrightarrow> donbot_is_valid d) \<and>
     (\<forall>t. twitch_receipt r = Some t \<longrightarrow> twitch_is_valid t)"

definition success_backed :: "upload_job \<Rightarrow> bool" where
  "success_backed j \<longleftrightarrow>
     (state_of j DpsReport = Succeeded \<longrightarrow> dps_report_result (snapshot j) \<noteq> None) \<and>
     (state_of j Twitch = Succeeded \<longrightarrow>
       some_and (twitch_receipt (snapshot j)) (\<lambda>r. delivery_status r = TwitchSent))"

definition job_inv :: "upload_job \<Rightarrow> bool" where
  "job_inv j \<longleftrightarrow> record_valid (snapshot j) \<and> success_backed j"

text \<open>
  What is never undone: identity, file, accepted metadata, and the attempt counters. An
  \<open>Active\<close> period of a destination is identified by its attempt number.
\<close>

definition status_evolves :: "provider_status \<Rightarrow> provider_status \<Rightarrow> bool" where
  "status_evolves s t \<longleftrightarrow>
     attempts s \<le> attempts t \<and>
     (state t = Active \<longrightarrow> attempts s < attempts t \<or> (state s = Active \<and> attempts s = attempts t))"

definition job_evolves :: "upload_job \<Rightarrow> upload_job \<Rightarrow> bool" where
  "job_evolves j k \<longleftrightarrow>
     id_of k = id_of j \<and> job_file (snapshot k) = job_file (snapshot j) \<and>
     detected_at (snapshot k) = detected_at (snapshot j) \<and>
     (encounter_metadata (snapshot j) \<noteq> None \<longrightarrow>
       encounter_metadata (snapshot k) = encounter_metadata (snapshot j)) \<and>
     (\<forall>p. status_evolves (provider_status j p) (provider_status k p))"

lemma status_evolves_refl [simp]: "status_evolves s s"
  by (simp add: status_evolves_def)

lemma status_evolves_trans: "status_evolves s t \<Longrightarrow> status_evolves t u \<Longrightarrow> status_evolves s u"
  by (auto simp: status_evolves_def)

lemma status_evolves_idle:
  "attempts t = attempts s \<Longrightarrow> state t \<noteq> Active \<Longrightarrow> status_evolves s t"
  by (simp add: status_evolves_def)

lemma job_evolves_refl [simp]: "job_evolves j j"
  by (simp add: job_evolves_def)

lemma job_evolves_trans: "job_evolves j k \<Longrightarrow> job_evolves k l \<Longrightarrow> job_evolves j l"
  unfolding job_evolves_def by (metis status_evolves_trans)

lemma checked_succ_less: "checked_succ (w :: 'a::len word) = Some v \<Longrightarrow> w < v"
  using checked_succ_Some [of w v] by (simp add: word_less_nat_alt)

lemma set_status_evolves:
  "status_evolves (provider_status j p) s \<Longrightarrow> job_evolves j (set_status p s j)"
  by (simp add: job_evolves_def)

lemma transition_evolves:
  assumes "transition p nxt d j = Ok j'"
  shows "job_evolves j j'"
  using assms
proof (rule transitionE)
  fix n
  assume "if nxt = Active then checked_succ (attempts (provider_status j p)) = Some n
      else n = attempts (provider_status j p)"
    and "j' = set_status p ((provider_status j p)
      \<lparr>state := nxt, attempts := n, detail := (if nxt = Waiting then '''' else d)\<rparr>) j"
  then show ?thesis
    by (auto intro!: set_status_evolves simp: status_evolves_def
        dest!: checked_succ_less split: if_splits)
qed

text \<open>Re-arming a destination: an idle state with the same counter.\<close>

lemma rearm_skipped_evolves: "job_evolves j (rearm_skipped p j)"
  by (auto simp: rearm_skipped_def intro!: set_status_evolves status_evolves_idle)

lemma rearm_fold_evolves: "job_evolves j (fold rearm_skipped ps j)"
  by (induction ps arbitrary: j) (auto intro: job_evolves_trans rearm_skipped_evolves)

lemma rearm_skipped_frame [simp]:
  "id_of (rearm_skipped p j) = id_of j"
  "job_file (snapshot (rearm_skipped p j)) = job_file (snapshot j)"
  "encounter_metadata (snapshot (rearm_skipped p j)) = encounter_metadata (snapshot j)"
  "dps_report_result (snapshot (rearm_skipped p j)) = dps_report_result (snapshot j)"
  "wingman_receipt (snapshot (rearm_skipped p j)) = wingman_receipt (snapshot j)"
  "donbot_receipt (snapshot (rearm_skipped p j)) = donbot_receipt (snapshot j)"
  "twitch_receipt (snapshot (rearm_skipped p j)) = twitch_receipt (snapshot j)"
  by (simp_all add: rearm_skipped_def)

lemma rearm_skipped_status:
  "provider_status (rearm_skipped p j) q =
     (if q = p \<and> state_of j p = Skipped
      then (provider_status j p)\<lparr>state := Waiting, detail := ''''\<rparr> else provider_status j q)"
  by (simp add: rearm_skipped_def)

lemma rearm_skipped_inv: "job_inv j \<Longrightarrow> job_inv (rearm_skipped p j)"
  by (auto simp: job_inv_def record_valid_def success_backed_def rearm_skipped_status)

lemma rearm_fold_inv: "job_inv j \<Longrightarrow> job_inv (fold rearm_skipped ps j)"
  by (induction ps arbitrary: j) (auto intro: rearm_skipped_inv)

lemma transition_inv:
  assumes "job_inv j" and "transition p nxt d j = Ok j'"
  shows "job_inv j'"
  using assms(2)
proof (rule transitionE)
  fix n
  assume "p = DpsReport \<longrightarrow> nxt \<noteq> Succeeded"
    and "p = Twitch \<and> nxt = Succeeded \<longrightarrow>
      some_and (twitch_receipt (snapshot j)) (\<lambda>r. delivery_status r = TwitchSent)"
    and "j' = set_status p ((provider_status j p)
      \<lparr>state := nxt, attempts := n, detail := (if nxt = Waiting then '''' else d)\<rparr>) j"
  with assms(1) show ?thesis
    by (auto simp: job_inv_def record_valid_def success_backed_def)
qed

lemma set_encounter_metadata_inv:
  "job_inv j \<Longrightarrow> set_encounter_metadata m j = Ok j' \<Longrightarrow> job_inv j'"
  by (auto simp: set_encounter_metadata_def job_inv_def record_valid_def success_backed_def
      split: if_splits)

lemma complete_dps_report_inv:
  "job_inv j \<Longrightarrow> complete_dps_report r d j = Ok j' \<Longrightarrow> job_inv j'"
  by (auto simp: complete_dps_report_def require_active_def job_inv_def record_valid_def
      success_backed_def split: if_splits)

lemma record_wingman_upload_inv:
  "job_inv j \<Longrightarrow> record_wingman_upload r j = Ok j' \<Longrightarrow> job_inv j'"
  by (auto simp: record_wingman_upload_def job_inv_def record_valid_def success_backed_def
      split: if_splits)

lemma record_donbot_upload_inv:
  "job_inv j \<Longrightarrow> record_donbot_upload r j = Ok j' \<Longrightarrow> job_inv j'"
  by (auto simp: record_donbot_upload_def job_inv_def record_valid_def success_backed_def
      split: if_splits)

lemma record_twitch_delivery_inv:
  "job_inv j \<Longrightarrow> record_twitch_delivery r j = Ok j' \<Longrightarrow> job_inv j'"
  by (auto simp: record_twitch_delivery_def require_active_def job_inv_def record_valid_def
      success_backed_def split: if_splits)

lemma forget_twitch_receipt_inv:
  "job_inv j \<Longrightarrow> state_of j Twitch \<noteq> Succeeded \<Longrightarrow>
     job_inv (j\<lparr>snapshot := (snapshot j)\<lparr>twitch_receipt := None\<rparr>\<rparr>)"
  by (auto simp: job_inv_def record_valid_def success_backed_def)

text \<open>The successful manual retry, with the job between its two writes.\<close>

lemma prepare_manual_retryE:
  assumes "prepare_manual_retry p j = Ok j'"
  obtains j1 j2 where "state_of j p = Failed" and "transition p Waiting '''' j = Ok j1"
    and "j2 = (if p = Twitch then j1\<lparr>snapshot := (snapshot j1)\<lparr>twitch_receipt := None\<rparr>\<rparr> else j1)"
    and "j' = (if p = DpsReport \<and> dps_report_result (snapshot j2) = None
               then fold rearm_skipped [Wingman, DonBot, Twitch] j2 else j2)"
proof -
  from assms have f: "state_of j p = Failed"
    by (auto simp: prepare_manual_retry_def split: if_splits)
  with assms obtain j1 where t: "transition p Waiting '''' j = Ok j1"
    by (auto simp: prepare_manual_retry_def)
  show thesis
    by (rule that [OF f t refl]) (use assms f t in \<open>simp add: prepare_manual_retry_def Let_def\<close>)
qed

lemma prepare_manual_retry_inv:
  assumes "job_inv j" and "prepare_manual_retry p j = Ok j'"
  shows "job_inv j'"
  using assms(2)
proof (rule prepare_manual_retryE)
  fix j1 j2
  assume t: "transition p Waiting '''' j = Ok j1"
    and j2: "j2 = (if p = Twitch then j1\<lparr>snapshot := (snapshot j1)\<lparr>twitch_receipt := None\<rparr>\<rparr> else j1)"
    and j': "j' = (if p = DpsReport \<and> dps_report_result (snapshot j2) = None
               then fold rearm_skipped [Wingman, DonBot, Twitch] j2 else j2)"
  have j1: "job_inv j1" using assms(1) t by (rule transition_inv)
  have "job_inv j2"
    using j1 transition_frame(10) [OF t] by (auto simp: j2 intro: forget_twitch_receipt_inv)
  then show ?thesis using rearm_fold_inv [of j2] by (auto simp: j' simp del: fold.simps)
qed

lemma prepare_explicit_delivery_inv:
  "job_inv j \<Longrightarrow> prepare_explicit_delivery p j = Ok j' \<Longrightarrow> job_inv j'"
  by (auto simp: prepare_explicit_delivery_def Let_def job_inv_def record_valid_def
      success_backed_def split: if_splits)

lemmas job_op_inv [preserves] =
  set_encounter_metadata_inv transition_inv complete_dps_report_inv record_wingman_upload_inv
  record_donbot_upload_inv record_twitch_delivery_inv prepare_manual_retry_inv
  prepare_explicit_delivery_inv

lemma set_encounter_metadata_evolves:
  "set_encounter_metadata m j = Ok j' \<Longrightarrow> job_evolves j j'"
  by (auto simp: set_encounter_metadata_def job_evolves_def split: if_splits)

lemma complete_dps_report_evolves: "complete_dps_report r d j = Ok j' \<Longrightarrow> job_evolves j j'"
  by (auto simp: complete_dps_report_def job_evolves_def status_evolves_def split: if_splits)

lemma record_wingman_upload_evolves: "record_wingman_upload r j = Ok j' \<Longrightarrow> job_evolves j j'"
  by (auto simp: record_wingman_upload_def job_evolves_def split: if_splits)

lemma record_donbot_upload_evolves: "record_donbot_upload r j = Ok j' \<Longrightarrow> job_evolves j j'"
  by (auto simp: record_donbot_upload_def job_evolves_def split: if_splits)

lemma record_twitch_delivery_evolves: "record_twitch_delivery r j = Ok j' \<Longrightarrow> job_evolves j j'"
  by (auto simp: record_twitch_delivery_def job_evolves_def split: if_splits)

lemma prepare_manual_retry_evolves:
  assumes "prepare_manual_retry p j = Ok j'"
  shows "job_evolves j j'"
  using assms
proof (rule prepare_manual_retryE)
  fix j1 j2
  assume t: "transition p Waiting '''' j = Ok j1"
    and j2: "j2 = (if p = Twitch then j1\<lparr>snapshot := (snapshot j1)\<lparr>twitch_receipt := None\<rparr>\<rparr> else j1)"
    and j': "j' = (if p = DpsReport \<and> dps_report_result (snapshot j2) = None
               then fold rearm_skipped [Wingman, DonBot, Twitch] j2 else j2)"
  have "job_evolves j1 j2" by (simp add: j2 job_evolves_def)
  moreover have "job_evolves j2 j'"
    using rearm_fold_evolves [of j2] by (auto simp: j' simp del: fold.simps)
  ultimately show ?thesis using transition_evolves [OF t] by (blast intro: job_evolves_trans)
qed

lemma prepare_explicit_delivery_evolves:
  "prepare_explicit_delivery p j = Ok j' \<Longrightarrow> job_evolves j j'"
  by (auto simp: prepare_explicit_delivery_def Let_def job_evolves_def status_evolves_def
      split: if_splits)

lemmas job_op_evolves =
  set_encounter_metadata_evolves transition_evolves complete_dps_report_evolves
  record_wingman_upload_evolves record_donbot_upload_evolves record_twitch_delivery_evolves
  prepare_manual_retry_evolves prepare_explicit_delivery_evolves

lemma job_apply_inv: "job_inv j \<Longrightarrow> job_apply c j = Ok j' \<Longrightarrow> job_inv j'"
  by (cases c) (auto dest: job_op_inv)

lemma job_apply_evolves: "job_apply c j = Ok j' \<Longrightarrow> job_evolves j j'"
  by (cases c) (auto dest: job_op_evolves)

text \<open>The job is an evolving machine: its runs keep the invariant and only evolve.\<close>

interpretation job: evolving_machine job_step job_inv job_evolves
  by unfold_locales
    (auto simp: job_step_def split: sum.splits
      intro: job_apply_inv job_apply_evolves job_evolves_trans)

lemma new_job_inv: "new_job i f t en = Ok j \<Longrightarrow> job_inv j"
  by (auto simp: new_job_def job_inv_def record_valid_def success_backed_def provider_status_def
      default_status_def split: if_splits)

lemma new_job_id: "new_job i f t en = Ok j \<Longrightarrow> id_of j = i"
  by (auto simp: new_job_def split: if_splits)

lemma rearm_fold_status:
  "provider_status (fold rearm_skipped ps j) q =
     (if q \<in> set ps \<and> state_of j q = Skipped
      then (provider_status j q)\<lparr>state := Waiting, detail := ''''\<rparr> else provider_status j q)"
  by (induction ps arbitrary: j) (auto simp: rearm_skipped_status)

lemma prepare_manual_retry_other:
  assumes "prepare_manual_retry q j = Ok j'" and "q \<noteq> DpsReport" and "r \<noteq> q"
  shows "provider_status j' r = provider_status j r"
  using assms(1)
  by (rule prepare_manual_retryE)
    (auto simp: assms(2) dest: transition_frame(9) [OF _ assms(3)])

lemma prepare_manual_retry_failed: "prepare_manual_retry q j = Ok j' \<Longrightarrow> state_of j q = Failed"
  by (erule prepare_manual_retryE)

text \<open>A settled destination is left alone by everything but its explicit resend and the
  re-arming that a manual dps.report retry performs.\<close>

lemma job_apply_frozen:
  assumes "job_apply c j = Ok j'" and "is_terminal (state_of j p)"
    and "c \<noteq> OpExplicit p" and "c \<noteq> OpManualRetry DpsReport"
  shows "provider_status j' p = provider_status j p"
proof (cases c)
  case (OpTransition q nxt d)
  with assms(1,2) have "q \<noteq> p" by (auto simp: terminal_allows elim!: transitionE)
  with OpTransition assms(1) show ?thesis by (auto elim!: transitionE)
next
  case (OpManualRetry q)
  with assms have "prepare_manual_retry q j = Ok j'" and "q \<noteq> DpsReport" by auto
  moreover from this have "p \<noteq> q" using assms(2) prepare_manual_retry_failed [of q j j'] by auto
  ultimately show ?thesis by (rule prepare_manual_retry_other)
qed (use assms in \<open>auto simp: set_encounter_metadata_def complete_dps_report_def require_active_def
    record_wingman_upload_def record_donbot_upload_def record_twitch_delivery_def
    prepare_explicit_delivery_def Let_def split: if_splits\<close>)

lemma rearm_fold_receipt: "twitch_receipt (snapshot (fold rearm_skipped ps j)) = twitch_receipt (snapshot j)"
  by (induction ps arbitrary: j) auto

lemma prepare_manual_retry_receipt:
  assumes "prepare_manual_retry p j = Ok j'" and "p \<noteq> Twitch"
  shows "twitch_receipt (snapshot j') = twitch_receipt (snapshot j)"
  using assms(1)
  by (rule prepare_manual_retryE)
    (simp add: assms(2) rearm_fold_receipt transition_frame(8) del: fold.simps)

lemma job_apply_twitch_receipt:
  assumes "job_apply c j = Ok j'" and "twitch_receipt (snapshot j) = Some r"
    and "c \<noteq> OpExplicit Twitch" and "c \<noteq> OpManualRetry Twitch"
  shows "twitch_receipt (snapshot j') = Some r"
proof (cases c)
  case (OpTransition q nxt d)
  with assms(1,2) show ?thesis using transition_frame(8) [of q nxt d j j'] by simp
next
  case (OpManualRetry q)
  with assms show ?thesis using prepare_manual_retry_receipt [of q j j'] by auto
qed (use assms in \<open>auto simp: set_encounter_metadata_def complete_dps_report_def require_active_def
    record_wingman_upload_def record_donbot_upload_def record_twitch_delivery_def
    prepare_explicit_delivery_def Let_def split: if_splits\<close>)

section \<open>Properties of the job\<close>

lemma some_and_iff: "some_and x P \<longleftrightarrow> (\<exists>v. x = Some v \<and> P v)"
  by (cases x) auto

lemma restore_job_Ok_iff:
  "restore_job i r = Ok j \<longleftrightarrow>
     record_valid r \<and>
     j = \<lparr>id_of = i, snapshot = r\<lparr>providers := (\<lambda>p. restore_status (providers r p))\<rparr>\<rparr>"
  by (auto simp: restore_job_def record_valid_def some_and_iff)

lemma restore_status_idle [simp]: "\<not> is_busy (state (restore_status s))"
  by (simp add: restore_status_def)

lemma restore_status_idem [simp]: "restore_status (restore_status s) = restore_status s"
  using restore_status_idle [of s] by (subst restore_status_def) simp

text \<open>A concrete file, selection and job for the witnesses.\<close>

definition sample_file :: log_file_identity where
  "sample_file = \<lparr>canonical_path = [PrefixComponent (VerbatimDisk CHR ''C''), RootDir,
     Normal ''logs'', Normal ''fight.zevtc''], file_size = 4096, last_write_time = 77\<rparr>"

definition all_selected :: provider_selection where
  "all_selected = \<lparr>dps_report_selected = True, wingman_selected = True, donbot_selected = True,
     twitch_selected = True\<rparr>"

definition sample_job :: upload_job where
  "sample_job = \<lparr>id_of = 1, snapshot = \<lparr>job_file = sample_file, detected_at = 99,
     encounter_metadata = None, dps_report_result = None, wingman_receipt = None,
     donbot_receipt = None, twitch_receipt = None,
     providers = (\<lambda>p. default_status\<lparr>state := Waiting\<rparr>)\<rparr>\<rparr>"

definition sample_report :: dps_report_result where
  "sample_report = \<lparr>permalink = ''https://dps.report/a'', encounter_name = ''Vale Guardian'',
     report_boss_id = 15438, mode = ''NM'', success = True\<rparr>"

definition sample_receipt :: twitch_delivery_receipt where
  "sample_receipt = \<lparr>delivery_status = TwitchSent, message_id = Some ''abc''\<rparr>"

text \<open>The life of a job that reaches Twitch.\<close>

definition sample_ops :: "job_op list" where
  "sample_ops = [OpTransition DpsReport Active ''Uploading'', OpDpsReport sample_report ''Uploaded'',
     OpTransition Twitch Active ''Uploading'', OpTwitch sample_receipt,
     OpTransition Twitch Succeeded ''Completed'']"

lemma sample_new: "new_job 1 sample_file 99 all_selected = Ok sample_job"
proof -
  have "contains all_selected p" for p by (cases p) (simp_all add: all_selected_def)
  then show ?thesis
    by (simp add: new_job_def sample_job_def sample_file_def) (simp add: all_selected_def)
qed

lemma sample_job_fields [simp]:
  "provider_status sample_job p = default_status\<lparr>state := Waiting\<rparr>"
  "twitch_receipt (snapshot sample_job) = None" "dps_report_result (snapshot sample_job) = None"
  by (simp_all add: sample_job_def provider_status_def)

lemma sample_receipt_valid [simp]: "twitch_is_valid sample_receipt"
  by (simp add: sample_receipt_def twitch_is_valid_def byte_def)

lemma sample_run:
  "state_of (foldl job_step sample_job sample_ops) Twitch = Succeeded"
  "twitch_receipt (snapshot (foldl job_step sample_job sample_ops)) = Some sample_receipt"
  by (simp_all add: sample_ops_def job_step_def transition_def complete_dps_report_def
      record_twitch_delivery_def require_active_def Let_def default_status_def checked_succ_def
      ok_or_def require_def sample_report_def)
    (simp_all add: sample_receipt_def)

text \<open>
  A job created by \<open>UploadJob::new\<close> keeps its invariant under every sequence of operations,
  failed ones included: the path and every recorded link and receipt stay valid, a dps.report
  marked as succeeded has its report, and a Twitch delivery marked as succeeded has a receipt that
  says the message was sent.
\<close>

theorem job_runs_keep_inv:
  assumes "new_job i f t en = Ok j"
  shows "job_inv (foldl job_step j cs)"
  using new_job_inv [OF assms] by (rule job.run_inv)

theorem job_runs_keep_inv_witness:
  "new_job 1 sample_file 99 all_selected = Ok sample_job \<and>
   job_inv (foldl job_step sample_job sample_ops) \<and>
   state_of (foldl job_step sample_job sample_ops) Twitch = Succeeded"
  using job_runs_keep_inv [OF sample_new, of sample_ops] sample_new sample_run(1) by blast

text \<open>
  Between any two points of a run of job operations the identifier, the file and the detection
  time are the same, accepted metadata is never replaced, attempt counters never decrease, and a
  destination that is active at the later point was either active all along with the same attempt
  number or has a larger one: an attempt number is never used for two uploads.
\<close>

theorem job_runs_evolve:
  assumes "new_job i f t en = Ok j" and "m \<le> n"
  shows "job_evolves (foldl job_step j (take m cs)) (foldl job_step j (take n cs))"
  using new_job_inv [OF assms(1)] assms(2) by (rule job.prefix_evolves)

theorem job_runs_evolve_witness:
  "new_job 1 sample_file 99 all_selected = Ok sample_job \<and> (1::nat) \<le> 4 \<and>
   job_evolves (foldl job_step sample_job (take 1 sample_ops))
     (foldl job_step sample_job (take 4 sample_ops))"
  using job_runs_evolve [OF sample_new, of 1 4 sample_ops] sample_new by simp

text \<open>
  C18: A settled destination (disabled, succeeded, skipped or cancelled) keeps its state, attempt
  counter and text under every sequence of operations that contains neither the explicit delivery
  of that destination nor a manual dps.report retry. Nothing else re-arms it.
\<close>

theorem settled_is_frozen:
  assumes "is_terminal (state_of j p)"
    and "OpExplicit p \<notin> set cs" and "OpManualRetry DpsReport \<notin> set cs"
  shows "provider_status (foldl job_step j cs) p = provider_status j p"
  using assms
proof (induction cs arbitrary: j)
  case Nil
  then show ?case by simp
next
  case (Cons c cs)
  have "provider_status (job_step j c) p = provider_status j p"
    using Cons.prems by (auto simp: job_step_def split: sum.splits dest: job_apply_frozen)
  with Cons show ?case by simp
qed

theorem settled_is_frozen_witness:
  "\<exists>j. is_terminal (state_of j Twitch) \<and>
     provider_status (foldl job_step j [OpTransition Twitch Active ''x'', OpExplicit Wingman,
       OpManualRetry Twitch]) Twitch = provider_status j Twitch"
proof -
  let ?j = "foldl job_step sample_job sample_ops"
  have "is_terminal (state_of ?j Twitch)" using sample_run(1) by simp
  then show ?thesis
    using settled_is_frozen [of ?j Twitch "[OpTransition Twitch Active ''x'', OpExplicit Wingman,
       OpManualRetry Twitch]"] by auto
qed

text \<open>
  A recorded Twitch receipt is never replaced or dropped except by the two operations that
  start a new delivery on the user's command.
\<close>

theorem twitch_receipt_is_kept:
  assumes "twitch_receipt (snapshot j) = Some r"
    and "OpExplicit Twitch \<notin> set cs" and "OpManualRetry Twitch \<notin> set cs"
  shows "twitch_receipt (snapshot (foldl job_step j cs)) = Some r"
  using assms
proof (induction cs arbitrary: j)
  case Nil
  then show ?case by simp
next
  case (Cons c cs)
  have "twitch_receipt (snapshot (job_step j c)) = Some r"
    using Cons.prems by (auto simp: job_step_def split: sum.splits dest: job_apply_twitch_receipt)
  with Cons show ?case by simp
qed

theorem twitch_receipt_is_kept_witness:
  "\<exists>j. twitch_receipt (snapshot j) = Some sample_receipt \<and>
     twitch_receipt (snapshot (foldl job_step j [OpTwitch sample_receipt, OpExplicit DpsReport]))
       = Some sample_receipt"
proof -
  let ?j = "foldl job_step sample_job sample_ops"
  show ?thesis
    using twitch_receipt_is_kept [of ?j sample_receipt "[OpTwitch sample_receipt, OpExplicit DpsReport]"]
      sample_run(2) by (intro exI [of _ ?j]) simp
qed

text \<open>
  Restoring a record succeeds exactly for the valid records. The restored job has no busy
  destination, every settled or failed status is kept as it was stored, an interrupted one becomes
  \<open>Failed\<close> with its attempt counter, the receipts are untouched, and restoring the result again
  changes nothing.
\<close>

theorem restore_settles:
  "(is_ok (restore_job i r) \<longleftrightarrow> record_valid r) \<and>
   (\<forall>j. restore_job i r = Ok j \<longrightarrow>
     id_of j = i \<and> (\<forall>p. \<not> is_busy (state_of j p)) \<and>
     (\<forall>p. if is_busy (state (providers r p))
          then state_of j p = Failed \<and> attempts (provider_status j p) = attempts (providers r p)
          else provider_status j p = providers r p) \<and>
     snapshot j = r\<lparr>providers := providers (snapshot j)\<rparr> \<and>
     restore_job i (snapshot j) = Ok j)"
proof (intro conjI allI impI)
  show "is_ok (restore_job i r) \<longleftrightarrow> record_valid r"
    by (simp add: is_ok_iff restore_job_Ok_iff)
next
  fix j
  assume "restore_job i r = Ok j"
  then have v: "record_valid r"
    and j: "j = \<lparr>id_of = i, snapshot = r\<lparr>providers := (\<lambda>p. restore_status (providers r p))\<rparr>\<rparr>"
    by (auto simp: restore_job_Ok_iff)
  have v': "record_valid (r\<lparr>providers := f\<rparr>)" for f using v by (simp add: record_valid_def)
  show "id_of j = i" and "\<And>p. \<not> is_busy (state_of j p)"
    and "snapshot j = r\<lparr>providers := providers (snapshot j)\<rparr>"
    and "restore_job i (snapshot j) = Ok j"
    and "\<And>p. if is_busy (state (providers r p))
          then state_of j p = Failed \<and> attempts (provider_status j p) = attempts (providers r p)
          else provider_status j p = providers r p"
    by (simp_all add: j provider_status_def restore_job_Ok_iff v') (simp_all add: restore_status_def)
qed

theorem restore_settles_witness:
  "\<exists>j. restore_job 7 (snapshot sample_job) = Ok j \<and> state_of j Wingman = Failed \<and>
     restore_job 7 (snapshot j) = Ok j"
proof -
  have "record_valid (snapshot sample_job)"
    by (simp add: record_valid_def sample_job_def sample_file_def)
  then obtain j where j: "restore_job 7 (snapshot sample_job) = Ok j"
    using restore_settles [of 7 "snapshot sample_job"] by (auto simp: is_ok_iff)
  then have "state_of j Wingman = Failed"
    using restore_settles [of 7 "snapshot sample_job"]
    by (auto simp: sample_job_def dest!: spec [of _ Wingman])
  with j show ?thesis using restore_settles [of 7 "snapshot sample_job"] by blast
qed

end
