(* ===== verification/Ports.thy ===== *)
theory Ports
  imports Upload_Job
begin

text \<open>
  The values that the coordinator and its adapters exchange (\<open>rust/src/application/ports.rs\<close>,
  \<open>twitch_chat.rs\<close>, \<open>provider_configuration.rs\<close>), and the environment of the application owner:
  the destination adapters, the metadata parser and the two clocks.

  The adapters are trait objects, so they are a parameter: a record of functions over a world
  \<open>'w\<close> that holds all their states. A call returns \<open>None\<close> beside the new world when it panicked;
  the code catches every panic of an adapter.
\<close>

datatype upload_intent = Automatic | ManualRetry | Reupload | Rechat

definition is_user_initiated :: "upload_intent \<Rightarrow> bool" where
  "is_user_initiated i = (i \<noteq> Automatic)"

record upload_request =
  request_job_id :: job_id
  request_provider :: provider
  request_attempt :: u32
  request_file :: log_file_identity
  request_metadata :: encounter_metadata
  request_report :: "dps_report_result option"
  request_intent :: upload_intent

datatype upload_success =
  DpsReportDone dps_report_result
| WingmanDone "wingman_upload_receipt option"
| DonBotDone "donbot_upload_receipt option"
| TwitchDone twitch_delivery_receipt

datatype upload_notice =
  NoticeQueued | AlreadyPresent | ProviderWarning | InvalidReturnedCredential
| CredentialStorageUnavailable | NoticeDiscordSent | NoticeDiscordPartial | NoticeDiscordSkipped
| NoticeDiscordFailed | NoticeDiscordAmbiguous

fun notice_detail :: "upload_notice \<Rightarrow> string" where
  "notice_detail NoticeQueued = ''Queued''"
| "notice_detail AlreadyPresent = ''Already present''"
| "notice_detail ProviderWarning = ''Uploaded; the provider reported a warning''"
| "notice_detail InvalidReturnedCredential = ''Uploaded; the returned credential was unusable''"
| "notice_detail CredentialStorageUnavailable =
     ''Uploaded; protected token storage is unavailable''"
| "notice_detail NoticeDiscordSent = ''Uploaded. Discord summaries sent''"
| "notice_detail NoticeDiscordPartial = ''Uploaded. Some Discord summaries were not sent''"
| "notice_detail NoticeDiscordSkipped = ''Uploaded. Discord summaries skipped''"
| "notice_detail NoticeDiscordFailed = ''Uploaded. Discord delivery failed''"
| "notice_detail NoticeDiscordAmbiguous = ''Uploaded. Discord delivery could not be confirmed''"

datatype twitch_chat_error =
  InvalidMessage | NotConnected | ReconnectRequired | SessionFailed | SendFailed

fun chat_error_detail :: "twitch_chat_error \<Rightarrow> string" where
  "chat_error_detail InvalidMessage = ''The Twitch chat message is invalid''"
| "chat_error_detail NotConnected = ''Connect Twitch before posting to chat''"
| "chat_error_detail ReconnectRequired = ''Reconnect Twitch before posting again''"
| "chat_error_detail SessionFailed = ''The Twitch session is unavailable''"
| "chat_error_detail SendFailed = ''Twitch rejected the chat request''"

datatype upload_failure =
  TwitchFailure twitch_chat_error
| DonBotKeyMissing | CredentialLoadFailed | UnconfirmedUpload | UnconfirmedDelivery

fun failure_detail :: "upload_failure \<Rightarrow> string" where
  "failure_detail (TwitchFailure e) = chat_error_detail e"
| "failure_detail DonBotKeyMissing = ''Verify DonBot before uploading''"
| "failure_detail CredentialLoadFailed = ''Protected credentials could not be loaded''"
| "failure_detail UnconfirmedUpload =
     ''Upload could not be confirmed. Automatic retry is disabled''"
| "failure_detail UnconfirmedDelivery =
     ''Discord delivery could not be confirmed. Automatic retry is disabled''"

text \<open>A \<open>Duration\<close> is a number of nanoseconds.\<close>

type_synonym duration = nat

datatype upload_outcome =
  OutSucceeded upload_success
| OutSucceededWithNotice upload_success upload_notice
| OutSkipped
| OutRetryAfter duration
| OutFailed
| OutFailedWithNotice upload_failure
| OutTwitchDropped twitch_delivery_receipt
| OutAmbiguous
| OutCancelled

record upload_result =
  result_job_id :: job_id
  result_provider :: provider
  result_attempt :: u32
  result_outcome :: upload_outcome

datatype twitch_chat_result =
  ChatSent twitch_delivery_receipt
| ChatDropped twitch_delivery_receipt
| ChatRetryAfter duration
| ChatFailed twitch_chat_error
| ChatAmbiguous
| ChatCancelled

fun into_upload_outcome :: "twitch_chat_result \<Rightarrow> upload_outcome" where
  "into_upload_outcome (ChatSent r) = OutSucceeded (TwitchDone r)"
| "into_upload_outcome (ChatDropped r) = OutTwitchDropped r"
| "into_upload_outcome (ChatRetryAfter d) = OutRetryAfter d"
| "into_upload_outcome (ChatFailed e) = OutFailedWithNotice (TwitchFailure e)"
| "into_upload_outcome ChatAmbiguous = OutAmbiguous"
| "into_upload_outcome ChatCancelled = OutCancelled"

fun twitch_drop_detail :: "twitch_delivery_status \<Rightarrow> string" where
  "twitch_drop_detail TwitchSent = ''Posted to Twitch chat''"
| "twitch_drop_detail AutoMod = ''Twitch held the message for moderation''"
| "twitch_drop_detail BlockedTerm = ''Twitch rejected a blocked term''"
| "twitch_drop_detail Duplicate = ''Twitch rejected a duplicate message''"
| "twitch_drop_detail RateLimited = ''Twitch chat is rate limited''"
| "twitch_drop_detail FollowersOnly = ''Twitch chat requires a follower''"
| "twitch_drop_detail SlowMode = ''Twitch chat slow mode is active''"
| "twitch_drop_detail SubscribersOnly = ''Twitch chat requires a subscriber''"
| "twitch_drop_detail Restricted = ''The Twitch account or channel is restricted''"
| "twitch_drop_detail OtherDrop = ''Twitch rejected the chat message''"

fun chat_result_detail :: "twitch_chat_result \<Rightarrow> string" where
  "chat_result_detail (ChatSent _) = ''Posted to Twitch chat''"
| "chat_result_detail (ChatDropped r) = twitch_drop_detail (delivery_status r)"
| "chat_result_detail (ChatRetryAfter _) = ''Twitch chat is temporarily unavailable''"
| "chat_result_detail (ChatFailed e) = chat_error_detail e"
| "chat_result_detail ChatAmbiguous =
     ''Twitch delivery could not be confirmed. Automatic retry is disabled''"
| "chat_result_detail ChatCancelled = ''Twitch chat delivery was cancelled''"

datatype provider_error = QueueFull | ProviderStopping | InvalidRequest | Unavailable | Panicked

subsection \<open>Reconfiguration\<close>

datatype donbot_delivery_route = NoDelivery | GuildDefaults | ChannelOverride string

definition delivery_requested :: "donbot_delivery_route \<Rightarrow> bool" where
  "delivery_requested r = (r \<noteq> NoDelivery)"

definition delivery_is_valid :: "donbot_delivery_route \<Rightarrow> bool" where
  "delivery_is_valid r = (case r of ChannelOverride c \<Rightarrow> canonical_discord_id c | _ \<Rightarrow> True)"

datatype provider_policy =
  DpsReportPolicy bool
| WingmanPolicy
| DonBotPolicy string string donbot_delivery_route
| TwitchPolicy string bool bool

fun policy_provider :: "provider_policy \<Rightarrow> provider" where
  "policy_provider (DpsReportPolicy _) = DpsReport"
| "policy_provider WingmanPolicy = Wingman"
| "policy_provider (DonBotPolicy _ _ _) = DonBot"
| "policy_provider (TwitchPolicy _ _ _) = Twitch"

record provider_configuration =
  parallelism :: nat
  policy :: provider_policy

datatype provider_configuration_error =
  ConfigInvalid | ConfigUnavailable | ConfigResourceLimit | ConfigStopping | ConfigPanicked

subsection \<open>Metadata parsing\<close>

datatype metadata_error =
  FileUnavailable | InvalidArchive | UnsupportedFormat | MalformedLog | MissingPointOfView
| MetadataLimit | MetadataCancelled | Internal

record metadata_request =
  meta_job_id :: job_id
  meta_file :: log_file_identity

record metadata_result =
  parsed_job_id :: job_id
  parsed_metadata :: "(metadata_error, encounter_metadata) result"

datatype parser_error =
  ParserQueueFull | ParserStopping | ParserInvalidRequest | ParserUnavailable | ParserPanicked

subsection \<open>The environment\<close>

type_synonym 'a call = "'a option"

definition unwrap_call :: "'a \<Rightarrow> 'a call \<Rightarrow> 'a" where
  "unwrap_call d r = (case r of None \<Rightarrow> d | Some x \<Rightarrow> x)"

lemma unwrap_call_simps [simp]: "unwrap_call d None = d" "unwrap_call d (Some x) = x"
  by (simp_all add: unwrap_call_def)

record 'w env =
  env_configure ::
    "provider_configuration \<Rightarrow> 'w \<Rightarrow> (provider_configuration_error, unit) result call \<times> 'w"
  env_enqueue :: "upload_request \<Rightarrow> 'w \<Rightarrow> (provider_error, unit) result call \<times> 'w"
  env_take :: "provider \<Rightarrow> 'w \<Rightarrow> (provider_error, upload_result option) result call \<times> 'w"
  env_cancel :: "provider \<Rightarrow> 'w \<Rightarrow> 'w"
  env_system_now :: "'w \<Rightarrow> system_time \<times> 'w"
  env_steady_now :: "'w \<Rightarrow> instant \<times> 'w"
  env_parser_resize :: "nat \<Rightarrow> 'w \<Rightarrow> (parser_error, unit) result call \<times> 'w"
  env_parser_enqueue :: "metadata_request \<Rightarrow> 'w \<Rightarrow> (parser_error, unit) result call \<times> 'w"
  env_parser_capacity :: "'w \<Rightarrow> nat call"
  env_parser_take :: "'w \<Rightarrow> (parser_error, metadata_result option) result call \<times> 'w"
  env_parser_cancel :: "'w \<Rightarrow> 'w"

text \<open>
  What a client may rely on when it watches the requests that leave the coordinator: a function
  \<open>outbox\<close> of the world that grows by the request at every enqueue and that no other call changes.
\<close>

locale recording_env =
  fixes env :: "'w env"
    and outbox :: "'w \<Rightarrow> upload_request list"
  assumes sent_enqueue: "env_enqueue env q w = (r, w') \<Longrightarrow> outbox w' = outbox w @ [q]"
    and sent_configure: "env_configure env x w = (r1, w') \<Longrightarrow> outbox w' = outbox w"
    and sent_take: "env_take env p w = (r2, w') \<Longrightarrow> outbox w' = outbox w"
    and sent_cancel: "outbox (env_cancel env p w) = outbox w"
    and sent_system_now: "env_system_now env w = (t, w') \<Longrightarrow> outbox w' = outbox w"
    and sent_steady_now: "env_steady_now env w = (t', w') \<Longrightarrow> outbox w' = outbox w"
    and sent_parser_resize: "env_parser_resize env n w = (r3, w') \<Longrightarrow> outbox w' = outbox w"
    and sent_parser_enqueue: "env_parser_enqueue env m w = (r4, w') \<Longrightarrow> outbox w' = outbox w"
    and sent_parser_take: "env_parser_take env w = (r5, w') \<Longrightarrow> outbox w' = outbox w"
    and sent_parser_cancel: "outbox (env_parser_cancel env w) = outbox w"

text \<open>Every environment can be watched: keep the list of requests beside its world.\<close>

definition lift_call :: "('w \<Rightarrow> 'a \<times> 'w) \<Rightarrow> 'w \<times> 'l \<Rightarrow> 'a \<times> ('w \<times> 'l)" where
  "lift_call f s = (case f (fst s) of (r, w) \<Rightarrow> (r, (w, snd s)))"

definition logged :: "'w env \<Rightarrow> ('w \<times> upload_request list) env" where
  "logged env = \<lparr>
     env_configure = (\<lambda>x. lift_call (env_configure env x)),
     env_enqueue = (\<lambda>q s. case env_enqueue env q (fst s) of (r, w) \<Rightarrow> (r, (w, snd s @ [q]))),
     env_take = (\<lambda>p. lift_call (env_take env p)),
     env_cancel = (\<lambda>p s. (env_cancel env p (fst s), snd s)),
     env_system_now = lift_call (env_system_now env),
     env_steady_now = lift_call (env_steady_now env),
     env_parser_resize = (\<lambda>n. lift_call (env_parser_resize env n)),
     env_parser_enqueue = (\<lambda>m. lift_call (env_parser_enqueue env m)),
     env_parser_capacity = (\<lambda>s. env_parser_capacity env (fst s)),
     env_parser_take = lift_call (env_parser_take env),
     env_parser_cancel = (\<lambda>s. (env_parser_cancel env (fst s), snd s))\<rparr>"

interpretation logged: recording_env "logged env" snd for env
  by unfold_locales (auto simp: logged_def lift_call_def split: prod.splits)

end
