(* ===== verification/Coordinator.thy ===== *)
theory Coordinator
  imports Ports
begin

text \<open>
  The upload coordinator (\<open>rust/src/application/upload_coordinator.rs\<close>): its state and one
  definition per method. A method that writes before an error return gives back its result beside
  the new coordinator. The boxed adapters and the clock live in the world (\<open>Ports\<close>); \<open>slots\<close> says
  which of the four adapter slots is filled.
\<close>

definition max_history_limit :: nat where
  "max_history_limit = 10000"

definition max_retry_delay :: duration where
  "max_retry_delay = 24 * 60 * 60 * 10 ^ 9"

text \<open>\<open>Instant::checked_add\<close> on the target: whole seconds are 64 bits wide.\<close>

definition instant_checked_add :: "instant \<Rightarrow> duration \<Rightarrow> instant option" where
  "instant_checked_add t d = (if t + d < 2 ^ 64 * 10 ^ 9 then Some (t + d) else None)"

definition uploads :: "provider list" where
  "uploads = [DpsReport, Wingman, DonBot]"

definition dependents :: "provider list" where
  "dependents = [Wingman, DonBot, Twitch]"

datatype coordinator_error =
  InvalidHistoryLimit | DuplicateProvider | MissingProvider | CapacityReached | JobIdExhausted
| UnknownJob | UnexpectedResult | InvalidRetryDelay | MetadataNotPending
| RestoreRequiresEmptyCoordinator | DependencyUnavailable | ShuttingDown
| Domain job_error | Dispatch provider_error | Reconfiguration provider_configuration_error

record upload_job_snapshot =
  snapshot_id :: job_id
  snapshot_record :: upload_job_record

record drain_summary =
  consumed :: nat
  rejected :: nat
  provider_errors :: nat

record entry =
  job :: upload_job
  metadata_pending :: bool
  intents :: "provider \<Rightarrow> upload_intent"
  reupload_flag :: bool

definition new_entry :: "upload_job \<Rightarrow> bool \<Rightarrow> entry" where
  "new_entry j pend = \<lparr>job = j, metadata_pending = pend, intents = (\<lambda>_. Automatic),
     reupload_flag = False\<rparr>"

definition busy :: "entry \<Rightarrow> bool" where
  "busy e \<longleftrightarrow> metadata_pending e \<or> (\<exists>p. is_busy (state_of (job e) p))"

record 'w coordinator =
  world :: 'w
  slots :: "provider \<Rightarrow> bool"
  jobs :: "entry list"
  coord_limit :: nat
  next_id :: "u64 option"
  restored :: bool
  result_cursor :: nat
  stopping :: bool

section \<open>Reading and writing one entry\<close>

definition st :: "'w coordinator \<Rightarrow> nat \<Rightarrow> provider \<Rightarrow> provider_state" where
  "st c i p = state_of (job (jobs c ! i)) p"

definition set_entry :: "nat \<Rightarrow> entry \<Rightarrow> 'w coordinator \<Rightarrow> 'w coordinator" where
  "set_entry i e c = c\<lparr>jobs := (jobs c)[i := e]\<rparr>"

definition set_job :: "nat \<Rightarrow> upload_job \<Rightarrow> 'w coordinator \<Rightarrow> 'w coordinator" where
  "set_job i j c = set_entry i ((jobs c ! i)\<lparr>job := j\<rparr>) c"

definition entry_is_wvw :: "entry \<Rightarrow> bool" where
  "entry_is_wvw e =
     some_and (encounter_metadata (snapshot (job e))) (\<lambda>m. boss_id m = wvw_boss_id)"

definition is_wvw :: "'w coordinator \<Rightarrow> nat \<Rightarrow> bool" where
  "is_wvw c i = entry_is_wvw (jobs c ! i)"

fun position :: "('a \<Rightarrow> bool) \<Rightarrow> 'a list \<Rightarrow> nat option" where
  "position P [] = None"
| "position P (x # xs) = (if P x then Some 0 else map_option Suc (position P xs))"

lemma position_Some:
  "position P xs = Some i \<Longrightarrow> i < length xs \<and> P (xs ! i) \<and> (\<forall>k < i. \<not> P (xs ! k))"
proof (induction xs arbitrary: i)
  case (Cons x xs)
  show ?case
  proof (cases "P x")
    case False
    with Cons.prems obtain k where "position P xs = Some k" "i = Suc k" by auto
    with Cons.IH False show ?thesis by (auto simp: less_Suc_eq_0_disj)
  qed (use Cons.prems in auto)
qed simp

lemma position_None: "position P xs = None \<longleftrightarrow> (\<forall>x \<in> set xs. \<not> P x)"
  by (induction xs) auto

definition index :: "'w coordinator \<Rightarrow> job_id \<Rightarrow> (coordinator_error, nat) result" where
  "index c i = ok_or UnknownJob (position (\<lambda>e. id_of (job e) = i) (jobs c))"

section \<open>Guards\<close>

definition require_running :: "'w coordinator \<Rightarrow> (coordinator_error, unit) result" where
  "require_running c = require (\<not> stopping c) ShuttingDown"

definition require_providers ::
  "'w coordinator \<Rightarrow> provider list \<Rightarrow> (coordinator_error, unit) result" where
  "require_providers c ps = (if list_ex (\<lambda>p. \<not> slots c p) ps then Err MissingProvider else Ok ())"

definition validate_limit :: "nat \<Rightarrow> (coordinator_error, unit) result" where
  "validate_limit n = require (1 \<le> n \<and> n \<le> max_history_limit) InvalidHistoryLimit"

definition require_metadata :: "'w coordinator \<Rightarrow> nat \<Rightarrow> (coordinator_error, unit) result" where
  "require_metadata c i =
     (if encounter_metadata (snapshot (job (jobs c ! i))) = None
      then Err (Domain EncounterMetadataRequired) else Ok ())"

definition require_dependency ::
  "'w coordinator \<Rightarrow> nat \<Rightarrow> provider \<Rightarrow> (coordinator_error, unit) result" where
  "require_dependency c i p =
     (if p = DpsReport then Ok ()
      else let s = st c i DpsReport in
        if p \<noteq> Twitch \<and> s = Disabled then Ok ()
        else if s = Succeeded \<and> dps_report_result (snapshot (job (jobs c ! i))) \<noteq> None then Ok ()
        else Err DependencyUnavailable)"

definition pending_index :: "'w coordinator \<Rightarrow> job_id \<Rightarrow> (coordinator_error, nat) result" where
  "pending_index c jid =
     and_then (index c jid) (\<lambda>i.
       if \<not> metadata_pending (jobs c ! i)
          \<or> encounter_metadata (snapshot (job (jobs c ! i))) \<noteq> None
          \<or> list_ex (\<lambda>p. st c i p \<noteq> Waiting \<and> st c i p \<noteq> Disabled) all_providers
       then Err MetadataNotPending else Ok i)"

section \<open>History\<close>

function trim_entries :: "nat \<Rightarrow> entry list \<Rightarrow> entry list" where
  "trim_entries limit es =
     (if limit < length es
      then case position (\<lambda>e. \<not> busy e) es of
          None \<Rightarrow> es
        | Some i \<Rightarrow> trim_entries limit (take i es @ drop (Suc i) es)
      else es)"
  by pat_completeness auto
termination
  by (relation "measure (\<lambda>(_, es). length es)") (auto dest: position_Some)

declare trim_entries.simps [simp del]

definition trim_to :: "nat \<Rightarrow> 'w coordinator \<Rightarrow> 'w coordinator" where
  "trim_to limit c = c\<lparr>jobs := trim_entries limit (jobs c)\<rparr>"

section \<open>Dispatch\<close>

text \<open>\<open>let _ = job.transition(..)\<close>: the result is dropped.\<close>

definition try_transition ::
  "nat \<Rightarrow> provider \<Rightarrow> provider_state \<Rightarrow> string \<Rightarrow> 'w coordinator \<Rightarrow> 'w coordinator" where
  "try_transition i p s d c =
     (case transition p s d (job (jobs c ! i)) of Err _ \<Rightarrow> c | Ok j \<Rightarrow> set_job i j c)"

definition skip_wingman ::
  "nat \<Rightarrow> 'w coordinator \<Rightarrow> (coordinator_error, unit) result \<times> 'w coordinator" where
  "skip_wingman i c =
     (case transition Wingman Skipped ''WvW is unsupported by GW2Wingman'' (job (jobs c ! i)) of
        Err e \<Rightarrow> (Err (Domain e), c)
      | Ok j \<Rightarrow> (Ok (), set_job i j c))"

definition settle_dependent :: "nat \<Rightarrow> bool \<Rightarrow> provider \<Rightarrow> 'w coordinator \<Rightarrow> 'w coordinator" where
  "settle_dependent i cancelled p c =
     (if p = Twitch \<and> reupload_flag (jobs c ! i) then c
      else if st c i p = Waiting
      then try_transition i p (if cancelled then Cancelled else Skipped)
        ''dps.report result unavailable'' c
      else c)"

definition settle_dependents :: "nat \<Rightarrow> bool \<Rightarrow> 'w coordinator \<Rightarrow> 'w coordinator" where
  "settle_dependents i cancelled c = fold (settle_dependent i cancelled) dependents c"

definition fail_dispatch :: "nat \<Rightarrow> provider \<Rightarrow> 'w coordinator \<Rightarrow> 'w coordinator" where
  "fail_dispatch i p c =
     (let c1 = try_transition i p Failed ''Provider unavailable'' c
      in if p = DpsReport then settle_dependents i False c1 else c1)"

definition admit ::
  "'w coordinator \<Rightarrow> nat \<Rightarrow> provider \<Rightarrow> (coordinator_error, upload_job) result" where
  "admit c i p =
     and_then (require_metadata c i) (\<lambda>_.
     and_then (require_providers c [p]) (\<lambda>_.
     and_then (require_dependency c i p) (\<lambda>_.
       map_err Domain (transition p Active ''Uploading'' (job (jobs c ! i))))))"

text \<open>The request of an admitted entry; \<open>admit\<close> has checked that the metadata is there.\<close>

definition make_request :: "entry \<Rightarrow> provider \<Rightarrow> upload_request" where
  "make_request e p =
     (let r = snapshot (job e) in
      \<lparr>request_job_id = id_of (job e), request_provider = p,
       request_attempt = attempts (provider_status (job e) p), request_file = job_file r,
       request_metadata = the (encounter_metadata r),
       request_report = (if p = DpsReport then None else dps_report_result r),
       request_intent = intents e p\<rparr>)"

definition dispatch ::
  "'w env \<Rightarrow> nat \<Rightarrow> provider \<Rightarrow> 'w coordinator \<Rightarrow>
     (coordinator_error, unit) result \<times> 'w coordinator" where
  "dispatch env i p c =
     (if p = Wingman \<and> is_wvw c i then skip_wingman i c
      else case admit c i p of
        Err e \<Rightarrow> (Err e, fail_dispatch i p c)
      | Ok j \<Rightarrow>
          let c1 = set_job i j c;
              (r, w) = env_enqueue env (make_request (jobs c1 ! i) p) (world c1);
              c2 = c1\<lparr>world := w\<rparr>
          in case unwrap_call (Err Panicked) r of
               Err e \<Rightarrow> (Err (Dispatch e), fail_dispatch i p c2)
             | Ok _ \<Rightarrow> (Ok (), c2))"

definition dispatch_waiting ::
  "'w env \<Rightarrow> nat \<Rightarrow> provider \<Rightarrow> 'w coordinator \<Rightarrow>
     (coordinator_error, unit) result \<times> 'w coordinator" where
  "dispatch_waiting env i p c =
     (if st c i p = Waiting then dispatch env i p c else (Ok (), c))"

section \<open>Construction and configuration\<close>



definition new_coordinator ::
  "'w \<Rightarrow> provider list \<Rightarrow> nat \<Rightarrow> (coordinator_error, 'w coordinator) result" where
  "new_coordinator w ps limit =
     and_then (validate_limit limit) (\<lambda>_.
       if \<not> distinct ps then Err DuplicateProvider
       else Ok \<lparr>world = w, slots = (\<lambda>p. p \<in> set ps), jobs = [], coord_limit = limit,
         next_id = Some 1, restored = False, result_cursor = 0, stopping = False\<rparr>)"

definition configure_provider ::
  "'w env \<Rightarrow> provider_configuration \<Rightarrow> 'w coordinator \<Rightarrow>
     (coordinator_error, unit) result \<times> 'w coordinator" where
  "configure_provider env conf c =
     (if stopping c then (Err ShuttingDown, c)
      else if \<not> slots c (policy_provider (policy conf)) then (Err MissingProvider, c)
      else let (r, w) = env_configure env conf (world c)
        in (map_err Reconfiguration (unwrap_call (Err ConfigPanicked) r), c\<lparr>world := w\<rparr>))"

section \<open>Admission and metadata\<close>

definition add_pending ::
  "'w env \<Rightarrow> log_file_identity \<Rightarrow> provider_selection \<Rightarrow> 'w coordinator \<Rightarrow>
     (coordinator_error, job_id) result \<times> 'w coordinator" where
  "add_pending env f enabled c =
     (if stopping c then (Err ShuttingDown, c)
      else if is_err (require_providers c (filter (contains enabled) all_providers))
      then (Err MissingProvider, c)
      else case next_id c of
        None \<Rightarrow> (Err JobIdExhausted, c)
      | Some n \<Rightarrow>
          (case new_job_id n of
             Err e \<Rightarrow> (Err (Domain e), c)
           | Ok jid \<Rightarrow>
               let (now, w) = env_system_now env (world c); c1 = c\<lparr>world := w\<rparr> in
               case new_job jid f now enabled of
                 Err e \<Rightarrow> (Err (Domain e), c1)
               | Ok j \<Rightarrow>
                   if coord_limit c1 \<le> length (filter busy (jobs c1))
                   then (Err CapacityReached, c1)
                   else let c2 = trim_to (coord_limit c1 - 1) c1
                     in (Ok jid, c2\<lparr>jobs := jobs c2 @ [new_entry j True],
                           next_id := checked_succ jid\<rparr>)))"

definition set_metadata ::
  "'w env \<Rightarrow> job_id \<Rightarrow> encounter_metadata \<Rightarrow> 'w coordinator \<Rightarrow>
     (coordinator_error, unit) result \<times> 'w coordinator" where
  "set_metadata env jid m c =
     (if stopping c then (Err ShuttingDown, c)
      else case pending_index c jid of
        Err e \<Rightarrow> (Err e, c)
      | Ok i \<Rightarrow>
          (case set_encounter_metadata m (job (jobs c ! i)) of
             Err e \<Rightarrow> (Err (Domain e), c)
           | Ok j \<Rightarrow>
               let c1 = set_entry i ((jobs c ! i)\<lparr>job := j, metadata_pending := False\<rparr>) c;
                   (skipped, c2) = (if st c1 i Wingman = Waiting \<and> is_wvw c1 i
                                    then skip_wingman i c1 else (Ok (), c1))
               in case skipped of
                    Err e \<Rightarrow> (Err e, c2)
                  | Ok _ \<Rightarrow>
                      let (r, c3) =
                        (if st c2 i DpsReport = Waiting then dispatch env i DpsReport c2
                         else let (wingman, c') = dispatch_waiting env i Wingman c2;
                                  (donbot, c'') = dispatch_waiting env i DonBot c'
                              in (and_then wingman (\<lambda>_. donbot), c''))
                      in (r, trim_to (coord_limit c3) c3)))"

text \<open>The loop of \<open>fail_metadata\<close> returns early on a failed transition.\<close>

fun fail_waiting ::
  "nat \<Rightarrow> bool \<Rightarrow> provider list \<Rightarrow> 'w coordinator \<Rightarrow>
     (coordinator_error, unit) result \<times> 'w coordinator" where
  "fail_waiting i cancelled [] c = (Ok (), c)"
| "fail_waiting i cancelled (p # ps) c =
     (if st c i p = Waiting
      then case transition p (if cancelled then Cancelled else Failed)
             ''Encounter metadata unavailable'' (job (jobs c ! i)) of
          Err e \<Rightarrow> (Err (Domain e), c)
        | Ok j \<Rightarrow> fail_waiting i cancelled ps (set_job i j c)
      else fail_waiting i cancelled ps c)"

definition fail_metadata ::
  "job_id \<Rightarrow> bool \<Rightarrow> 'w coordinator \<Rightarrow> (coordinator_error, unit) result \<times> 'w coordinator" where
  "fail_metadata jid cancelled c =
     (if stopping c then (Err ShuttingDown, c)
      else case pending_index c jid of
        Err e \<Rightarrow> (Err e, c)
      | Ok i \<Rightarrow>
          (case fail_waiting i cancelled all_providers
                  (set_entry i ((jobs c ! i)\<lparr>metadata_pending := False\<rparr>) c) of
             (Err e, c1) \<Rightarrow> (Err e, c1)
           | (Ok _, c1) \<Rightarrow> (Ok (), trim_to (coord_limit c1) c1)))"

section \<open>Results\<close>

fun state_detail :: "provider_state \<Rightarrow> string" where
  "state_detail Succeeded = ''Completed''"
| "state_detail Skipped = ''Skipped''"
| "state_detail (RetryScheduled _) = ''Retry scheduled''"
| "state_detail Cancelled = ''Cancelled''"
| "state_detail _ = ''Delivery failed''"

definition notice_of :: "upload_outcome \<Rightarrow> string option" where
  "notice_of out =
     (case out of
        OutSucceededWithNotice _ n \<Rightarrow> Some (notice_detail n)
      | OutFailedWithNotice f \<Rightarrow> Some (failure_detail f)
      | _ \<Rightarrow> None)"

definition detail_or :: "string option \<Rightarrow> string \<Rightarrow> string" where
  "detail_or d s = (case d of None \<Rightarrow> s | Some x \<Rightarrow> x)"

definition record_success ::
  "provider \<Rightarrow> upload_success \<Rightarrow> string option \<Rightarrow> upload_job \<Rightarrow>
     (coordinator_error, upload_job) result" where
  "record_success p s d j =
     (case (p, s) of
        (DpsReport, DpsReportDone report) \<Rightarrow>
          map_err Domain (complete_dps_report report (detail_or d ''Uploaded'') j)
      | (Wingman, WingmanDone receipt) \<Rightarrow>
          (case receipt of None \<Rightarrow> Ok j | Some r \<Rightarrow> map_err Domain (record_wingman_upload r j))
      | (DonBot, DonBotDone receipt) \<Rightarrow>
          (case receipt of None \<Rightarrow> Ok j | Some r \<Rightarrow> map_err Domain (record_donbot_upload r j))
      | (Twitch, TwitchDone receipt) \<Rightarrow> map_err Domain (record_twitch_delivery receipt j)
      | _ \<Rightarrow> Err UnexpectedResult)"

text \<open>The next state and the job with its receipt; only a retry reads the clock.\<close>

definition next_state ::
  "'w env \<Rightarrow> provider \<Rightarrow> upload_outcome \<Rightarrow> upload_job \<Rightarrow> 'w \<Rightarrow>
     (coordinator_error, provider_state \<times> upload_job) result \<times> 'w" where
  "next_state env p out j w =
     (case out of
        OutSucceeded s \<Rightarrow>
          (and_then (record_success p s (notice_of out) j) (\<lambda>j'. Ok (Succeeded, j')), w)
      | OutSucceededWithNotice s _ \<Rightarrow>
          (and_then (record_success p s (notice_of out) j) (\<lambda>j'. Ok (Succeeded, j')), w)
      | OutSkipped \<Rightarrow> (Ok (Skipped, j), w)
      | OutRetryAfter delay \<Rightarrow>
          if delay = 0 \<or> max_retry_delay < delay then (Err InvalidRetryDelay, w)
          else let (now, w') = env_steady_now env w
            in (and_then (ok_or InvalidRetryDelay (instant_checked_add now delay))
                  (\<lambda>t. Ok (RetryScheduled t, j)), w')
      | OutFailed \<Rightarrow> (Ok (Failed, j), w)
      | OutFailedWithNotice _ \<Rightarrow> (Ok (Failed, j), w)
      | OutAmbiguous \<Rightarrow> (Ok (Failed, j), w)
      | OutTwitchDropped receipt \<Rightarrow>
          if p \<noteq> Twitch \<or> delivery_status receipt = TwitchSent then (Err UnexpectedResult, w)
          else (and_then (map_err Domain (record_twitch_delivery receipt j))
                  (\<lambda>j'. Ok (Failed, j')), w)
      | OutCancelled \<Rightarrow> (Ok (Cancelled, j), w))"

definition settle_job ::
  "'w env \<Rightarrow> provider \<Rightarrow> upload_outcome \<Rightarrow> upload_job \<Rightarrow> 'w \<Rightarrow>
     (coordinator_error, provider_state \<times> upload_job) result \<times> 'w" where
  "settle_job env p out j w =
     (let (r, w') = next_state env p out j w
      in (and_then r (\<lambda>(nxt, j1).
            if p = DpsReport \<and> nxt = Succeeded then Ok (nxt, j1)
            else and_then (map_err Domain
                (transition p nxt (detail_or (notice_of out) (state_detail nxt)) j1))
              (\<lambda>j2. Ok (nxt, j2))), w'))"

definition release_dependent :: "'w env \<Rightarrow> nat \<Rightarrow> provider \<Rightarrow> 'w coordinator \<Rightarrow> 'w coordinator" where
  "release_dependent env i p c =
     (if p \<noteq> Twitch \<or> \<not> reupload_flag (jobs c ! i) then snd (dispatch_waiting env i p c) else c)"

definition apply_result ::
  "'w env \<Rightarrow> upload_result \<Rightarrow> 'w coordinator \<Rightarrow>
     (coordinator_error, unit) result \<times> 'w coordinator" where
  "apply_result env r c =
     (if stopping c then (Err ShuttingDown, c)
      else case index c (result_job_id r) of
        Err e \<Rightarrow> (Err e, c)
      | Ok i \<Rightarrow>
          let p = result_provider r; s = provider_status (job (jobs c ! i)) p in
          if state s \<noteq> Active \<or> attempts s \<noteq> result_attempt r then (Err UnexpectedResult, c)
          else case settle_job env p (result_outcome r) (job (jobs c ! i)) (world c) of
            (Err e, w) \<Rightarrow> (Err e, c\<lparr>world := w\<rparr>)
          | (Ok (nxt, j), w) \<Rightarrow>
              let c1 = set_job i j (c\<lparr>world := w\<rparr>);
                  c2 = (if p = DpsReport
                        then if nxt = Succeeded then fold (release_dependent env i) dependents c1
                          else if nxt = Failed \<or> nxt = Skipped \<or> nxt = Cancelled
                          then settle_dependents i (nxt = Cancelled) c1
                          else c1
                        else c1)
              in (Ok (), trim_to (coord_limit c2) c2))"

text \<open>
  \<open>drain_results\<close> polls the adapters round robin until it has consumed its quota or four polls in
  a row gave nothing.
\<close>

definition poll_provider ::
  "'w env \<Rightarrow> 'w coordinator \<Rightarrow>
     (provider_error, upload_result option) result \<times> provider \<times> 'w coordinator" where
  "poll_provider env c =
     (let p = all_providers ! result_cursor c;
          c1 = c\<lparr>result_cursor := (result_cursor c + 1) mod length all_providers\<rparr>
      in if \<not> slots c1 p then (Ok None, p, c1)
         else let (r, w) = env_take env p (world c1)
           in (unwrap_call (Err Panicked) r, p, c1\<lparr>world := w\<rparr>))"

definition accept_result ::
  "'w env \<Rightarrow> provider \<Rightarrow> upload_result \<Rightarrow> 'w coordinator \<Rightarrow> bool \<times> 'w coordinator" where
  "accept_result env p r c =
     (if result_provider r \<noteq> p then (False, c)
      else let (res, c1) = apply_result env r c in (is_ok res, c1))"

function drain_loop ::
  "'w env \<Rightarrow> nat \<Rightarrow> drain_summary \<Rightarrow> nat \<Rightarrow> 'w coordinator \<Rightarrow> drain_summary \<times> 'w coordinator"
where
  "drain_loop env mx s emp c =
     (if consumed s < mx \<and> emp < length all_providers
      then case poll_provider env c of
          (Ok (Some r), p, c1) \<Rightarrow>
            let (ok, c2) = accept_result env p r c1
            in drain_loop env mx (s\<lparr>consumed := consumed s + 1,
                 rejected := (if ok then rejected s else rejected s + 1)\<rparr>) 0 c2
        | (Ok None, p, c1) \<Rightarrow> drain_loop env mx s (emp + 1) c1
        | (Err e, p, c1) \<Rightarrow>
            drain_loop env mx (s\<lparr>provider_errors := provider_errors s + 1\<rparr>) (emp + 1) c1
      else (s, c))"
  by pat_completeness auto
termination
  by (relation "measures [\<lambda>(_, mx, s, _, _). mx - consumed s,
      \<lambda>(_, _, _, emp, _). length all_providers - emp]") auto

declare drain_loop.simps [simp del]

definition empty_summary :: drain_summary where
  "empty_summary = \<lparr>consumed = 0, rejected = 0, provider_errors = 0\<rparr>"

definition drain_results ::
  "'w env \<Rightarrow> nat \<Rightarrow> 'w coordinator \<Rightarrow> drain_summary \<times> 'w coordinator" where
  "drain_results env mx c =
     (if stopping c then (empty_summary, c) else drain_loop env mx empty_summary 0 c)"

section \<open>Retries and explicit delivery\<close>

fun retry_loop ::
  "'w env \<Rightarrow> instant \<Rightarrow> nat \<Rightarrow> (nat \<times> provider) list \<Rightarrow> nat \<Rightarrow> 'w coordinator \<Rightarrow> nat \<times> 'w coordinator"
where
  "retry_loop env now mx [] n c = (n, c)"
| "retry_loop env now mx ((i, p) # rest) n c =
     (if n = mx then (n, c)
      else case st c i p of
          RetryScheduled t \<Rightarrow>
            if t \<le> now then retry_loop env now mx rest (n + 1) (snd (dispatch env i p c))
            else retry_loop env now mx rest n c
        | _ \<Rightarrow> retry_loop env now mx rest n c)"

definition retry_order :: "nat \<Rightarrow> (nat \<times> provider) list" where
  "retry_order n = List.product [0..<n] all_providers"

definition dispatch_due_retries ::
  "'w env \<Rightarrow> nat \<Rightarrow> 'w coordinator \<Rightarrow> nat \<times> 'w coordinator" where
  "dispatch_due_retries env mx c =
     (if stopping c then (0, c)
      else let (now, w) = env_steady_now env (world c);
               (n, c1) = retry_loop env now mx (retry_order (length (jobs c))) 0 (c\<lparr>world := w\<rparr>)
        in (n, trim_to (coord_limit c1) c1))"

text \<open>The job that a manual retry dispatches: inside a reupload the skipped uploads start afresh.\<close>

definition rearm_explicit :: "provider \<Rightarrow> upload_job \<Rightarrow> (job_error, upload_job) result" where
  "rearm_explicit p j =
     (if state_of j p = Skipped then prepare_explicit_delivery p j else Ok j)"

definition retry_job :: "provider \<Rightarrow> entry \<Rightarrow> (job_error, upload_job) result" where
  "retry_job p e =
     (if p = DpsReport \<and> reupload_flag e
      then if state_of (job e) p \<noteq> Failed then Err ManualRetryRequiresFailure
        else and_then (transition p Waiting '''' (job e)) (\<lambda>j1.
             and_then (rearm_explicit Wingman j1) (rearm_explicit DonBot))
      else prepare_manual_retry p (job e))"

definition retry_failed ::
  "'w env \<Rightarrow> job_id \<Rightarrow> provider \<Rightarrow> 'w coordinator \<Rightarrow>
     (coordinator_error, unit) result \<times> 'w coordinator" where
  "retry_failed env jid p c =
     (case and_then (require_running c) (\<lambda>_.
           and_then (index c jid) (\<lambda>i.
           and_then (require_metadata c i) (\<lambda>_.
           and_then (require_providers c [p]) (\<lambda>_.
           and_then (require_dependency c i p) (\<lambda>_.
           and_then (map_err Domain (retry_job p (jobs c ! i))) (\<lambda>j. Ok (i, j))))))) of
        Err e \<Rightarrow> (Err e, c)
      | Ok (i, j) \<Rightarrow>
          let e = jobs c ! i;
              ints = (if intents e p \<noteq> Reupload then (intents e)(p := ManualRetry) else intents e)
          in dispatch env i p (set_entry i (e\<lparr>job := j, intents := ints\<rparr>) c))"

definition reupload_job :: "upload_job \<Rightarrow> (job_error, upload_job) result" where
  "reupload_job j =
     and_then (prepare_explicit_delivery DpsReport j) (\<lambda>j1.
     and_then (prepare_explicit_delivery Wingman j1) (prepare_explicit_delivery DonBot))"

definition reupload ::
  "'w env \<Rightarrow> job_id \<Rightarrow> 'w coordinator \<Rightarrow> (coordinator_error, unit) result \<times> 'w coordinator" where
  "reupload env jid c =
     (case and_then (require_running c) (\<lambda>_.
           and_then (require_providers c uploads) (\<lambda>_.
           and_then (index c jid) (\<lambda>i.
           and_then (map_err Domain (reupload_job (job (jobs c ! i)))) (\<lambda>j. Ok (i, j))))) of
        Err e \<Rightarrow> (Err e, c)
      | Ok (i, j) \<Rightarrow>
          let e = jobs c ! i;
              c1 = set_entry i (e\<lparr>job := j, reupload_flag := True,
                intents := (\<lambda>p. if p \<in> set uploads then Reupload else intents e p)\<rparr>) c;
              (skipped, c2) = (if is_wvw c1 i then skip_wingman i c1 else (Ok (), c1))
          in case skipped of
               Err e \<Rightarrow> (Err e, c2)
             | Ok _ \<Rightarrow> dispatch env i DpsReport c2)"

definition rechat ::
  "'w env \<Rightarrow> job_id \<Rightarrow> 'w coordinator \<Rightarrow> (coordinator_error, unit) result \<times> 'w coordinator" where
  "rechat env jid c =
     (case and_then (require_running c) (\<lambda>_.
           and_then (require_providers c [Twitch]) (\<lambda>_.
           and_then (index c jid) (\<lambda>i.
           and_then (require_dependency c i Twitch) (\<lambda>_.
           and_then (map_err Domain (prepare_explicit_delivery Twitch (job (jobs c ! i))))
             (\<lambda>j. Ok (i, j)))))) of
        Err e \<Rightarrow> (Err e, c)
      | Ok (i, j) \<Rightarrow>
          let e = jobs c ! i
          in dispatch env i Twitch
               (set_entry i (e\<lparr>job := j, intents := (intents e)(Twitch := Rechat)\<rparr>) c))"

section \<open>History, snapshots and shutdown\<close>

text \<open>The restored tail, with identifiers from 1; nothing is committed on an error.\<close>

fun restore_entries ::
  "nat \<Rightarrow> upload_job_record list \<Rightarrow> (coordinator_error, entry list) result" where
  "restore_entries n [] = Ok []"
| "restore_entries n (r # rs) =
     and_then (map_err Domain (new_job_id (of_nat (n + 1)))) (\<lambda>jid.
     and_then (map_err Domain (restore_job jid r)) (\<lambda>j.
     and_then (restore_entries (n + 1) rs) (\<lambda>es. Ok (new_entry j False # es))))"

definition restore ::
  "upload_job_record list \<Rightarrow> 'w coordinator \<Rightarrow> (coordinator_error, unit) result \<times> 'w coordinator"
where
  "restore records c =
     (if stopping c then (Err ShuttingDown, c)
      else if restored c \<or> next_id c \<noteq> Some 1 \<or> jobs c \<noteq> []
      then (Err RestoreRequiresEmptyCoordinator, c)
      else case restore_entries 0 (drop (length records - coord_limit c) records) of
        Err e \<Rightarrow> (Err e, c)
      | Ok es \<Rightarrow>
          (Ok (), c\<lparr>next_id := Some (of_nat (length es + 1)), jobs := es, restored := True\<rparr>))"

definition snapshots :: "'w coordinator \<Rightarrow> upload_job_snapshot list" where
  "snapshots c =
     map (\<lambda>e. \<lparr>snapshot_id = id_of (job e), snapshot_record = snapshot (job e)\<rparr>) (jobs c)"

definition snapshot_at ::
  "'w coordinator \<Rightarrow> job_id \<Rightarrow> (coordinator_error, upload_job_snapshot) result" where
  "snapshot_at c jid =
     and_then (index c jid) (\<lambda>i.
       Ok \<lparr>snapshot_id = jid, snapshot_record = snapshot (job (jobs c ! i))\<rparr>)"

definition history :: "'w coordinator \<Rightarrow> upload_job_record list" where
  "history c = map (\<lambda>e. snapshot (job e)) (jobs c)"

definition set_history_limit ::
  "nat \<Rightarrow> 'w coordinator \<Rightarrow> (coordinator_error, unit) result \<times> 'w coordinator" where
  "set_history_limit limit c =
     (case validate_limit limit of
        Err e \<Rightarrow> (Err e, c)
      | Ok _ \<Rightarrow> (Ok (), trim_to limit (c\<lparr>coord_limit := limit\<rparr>)))"

definition cancel_status :: "provider \<Rightarrow> upload_job \<Rightarrow> upload_job" where
  "cancel_status p j =
     (if is_busy (state_of j p)
      then case transition p Cancelled ''Cancelled'' j of Err _ \<Rightarrow> j | Ok j' \<Rightarrow> j'
      else j)"

definition cancel_entry :: "entry \<Rightarrow> entry" where
  "cancel_entry e = e\<lparr>metadata_pending := False, job := fold cancel_status all_providers (job e)\<rparr>"

definition cancel_all :: "'w env \<Rightarrow> 'w coordinator \<Rightarrow> 'w coordinator" where
  "cancel_all env c =
     (if stopping c then c
      else let w = fold (\<lambda>p w. if slots c p then env_cancel env p w else w) all_providers (world c);
               c1 = c\<lparr>stopping := True, world := w, jobs := map cancel_entry (jobs c)\<rparr>
        in trim_to (coord_limit c1) c1)"

end
