(* ===== verification/Coordinator_Safety.thy ===== *)
theory Coordinator_Safety
  imports Coordinator "HOL-Library.Sublist"
begin

text \<open>
  The invariant of the coordinator and what follows from it: no upload is sent twice under one
  attempt number, no destination is sent a request it must not get, no destination waits for a
  report that is not on its way, and the history stays bounded.
\<close>

section \<open>The invariant\<close>

definition in_flight :: "provider_state \<Rightarrow> bool" where
  "in_flight s \<longleftrightarrow> is_busy s \<and> s \<noteq> Waiting"

text \<open>The condition under which a destination may start: its own order on dps.report.\<close>

definition dep_met :: "upload_job \<Rightarrow> provider \<Rightarrow> bool" where
  "dep_met j p \<longleftrightarrow>
     p = DpsReport \<or> (p \<noteq> Twitch \<and> state_of j DpsReport = Disabled) \<or>
     (state_of j DpsReport = Succeeded \<and> dps_report_result (snapshot j) \<noteq> None)"

abbreviation meta_of :: "entry \<Rightarrow> encounter_metadata option" where
  "meta_of e \<equiv> encounter_metadata (snapshot (job e))"

definition entry_ok :: "entry \<Rightarrow> bool" where
  "entry_ok e \<longleftrightarrow>
     record_valid (snapshot (job e)) \<and>
     (metadata_pending e \<longrightarrow>
        meta_of e = None \<and> (\<forall>p. state_of (job e) p = Waiting \<or> state_of (job e) p = Disabled) \<and>
        (state_of (job e) DpsReport = Disabled \<longrightarrow> state_of (job e) Twitch = Disabled)) \<and>
     (\<not> metadata_pending e \<and> meta_of e = None \<longrightarrow> (\<forall>p. \<not> is_busy (state_of (job e) p))) \<and>
     (\<forall>p. in_flight (state_of (job e) p) \<longrightarrow> p = Twitch \<or> dep_met (job e) p) \<and>
     (entry_is_wvw e \<longrightarrow> \<not> in_flight (state_of (job e) Wingman))"

text \<open>Between operations nothing waits in vain.\<close>

definition calm :: "entry \<Rightarrow> bool" where
  "calm e \<longleftrightarrow>
     (meta_of e \<noteq> None \<longrightarrow> (\<forall>p. state_of (job e) p = Waiting \<longrightarrow>
        p \<noteq> DpsReport \<and> in_flight (state_of (job e) DpsReport))) \<and>
     (reupload_flag e \<longrightarrow> state_of (job e) Twitch \<noteq> Waiting)"

definition below_next :: "'w coordinator \<Rightarrow> job_id \<Rightarrow> bool" where
  "below_next c i \<longleftrightarrow> (case next_id c of None \<Rightarrow> True | Some n \<Rightarrow> i < n)"

definition ids_ok :: "'w coordinator \<Rightarrow> bool" where
  "ids_ok c \<longleftrightarrow>
     distinct (map (\<lambda>e. id_of (job e)) (jobs c)) \<and>
     (\<forall>e \<in> set (jobs c). id_of (job e) \<noteq> 0 \<and> below_next c (id_of (job e)))"

text \<open>The identity of an upload, and what every request satisfies when it leaves.\<close>

definition upload_key :: "upload_request \<Rightarrow> job_id \<times> provider \<times> u32" where
  "upload_key q = (request_job_id q, request_provider q, request_attempt q)"

definition request_ok :: "upload_request \<Rightarrow> bool" where
  "request_ok q \<longleftrightarrow>
     canonical_path (request_file q) \<noteq> [] \<and>
     (request_provider q = DpsReport \<longrightarrow> request_report q = None) \<and>
     (request_provider q = Wingman \<longrightarrow> boss_id (request_metadata q) \<noteq> wvw_boss_id) \<and>
     (request_provider q = Twitch \<longrightarrow> request_report q \<noteq> None) \<and>
     (\<forall>r. request_report q = Some r \<longrightarrow> permalink r \<noteq> [])"

definition sent_ok :: "('w \<Rightarrow> upload_request list) \<Rightarrow> 'w coordinator \<Rightarrow> bool" where
  "sent_ok outbox c \<longleftrightarrow>
     distinct (map upload_key (outbox (world c))) \<and>
     (\<forall>q \<in> set (outbox (world c)). request_ok q \<and> below_next c (request_job_id q) \<and>
        (\<forall>e \<in> set (jobs c). id_of (job e) = request_job_id q \<longrightarrow>
           request_attempt q \<le> attempts (provider_status (job e) (request_provider q))))"

definition coord_inv :: "('w \<Rightarrow> upload_request list) \<Rightarrow> 'w coordinator \<Rightarrow> bool" where
  "coord_inv outbox c \<longleftrightarrow>
     1 \<le> coord_limit c \<and> coord_limit c \<le> max_history_limit \<and>
     length (jobs c) \<le> max_history_limit \<and> result_cursor c < 4 \<and>
     ids_ok c \<and> (\<forall>e \<in> set (jobs c). entry_ok e) \<and> sent_ok outbox c"

definition coord_ok :: "('w \<Rightarrow> upload_request list) \<Rightarrow> 'w coordinator \<Rightarrow> bool" where
  "coord_ok outbox c \<longleftrightarrow> coord_inv outbox c \<and> (\<forall>e \<in> set (jobs c). calm e)"

section \<open>One entry\<close>

lemma in_flight_simps [simp]:
  "in_flight Active" "in_flight (RetryScheduled t)" "\<not> in_flight Waiting" "\<not> in_flight Failed"
  "\<not> in_flight Disabled" "\<not> in_flight Succeeded" "\<not> in_flight Skipped" "\<not> in_flight Cancelled"
  by (simp_all add: in_flight_def)

lemma in_flight_busy: "in_flight s \<Longrightarrow> is_busy s"
  by (simp add: in_flight_def)

lemma busy_iff: "is_busy s \<longleftrightarrow> s = Waiting \<or> in_flight s"
  by (cases s) auto

lemma allows_in_flight:
  "allows s nxt \<Longrightarrow> in_flight nxt \<Longrightarrow> nxt = Active \<or> s = Active"
  by (cases s; cases nxt) auto

lemma allows_from: "allows s nxt \<Longrightarrow> s \<noteq> Disabled \<and> s \<noteq> Succeeded \<and> s \<noteq> Skipped \<and> s \<noteq> Cancelled"
  by (cases s) auto

lemma allows_idle_target: "allows s nxt \<Longrightarrow> \<not> is_busy s \<Longrightarrow> nxt = Waiting \<or> nxt = Cancelled"
  by (cases s; cases nxt) auto

lemma entry_is_wvw_job:
  "encounter_metadata (snapshot j) = meta_of e \<Longrightarrow> entry_is_wvw (e\<lparr>job := j\<rparr>) = entry_is_wvw e"
  by (simp add: entry_is_wvw_def)

lemma record_valid_frame:
  assumes "record_valid r" and "job_file r' = job_file r"
    and "dps_report_result r' = dps_report_result r \<or> dps_report_result r' = None"
    and "wingman_receipt r' = wingman_receipt r \<or> wingman_receipt r' = None"
    and "donbot_receipt r' = donbot_receipt r \<or> donbot_receipt r' = None"
    and "twitch_receipt r' = twitch_receipt r \<or> twitch_receipt r' = None"
  shows "record_valid r'"
  using assms by (auto simp: record_valid_def)

lemma transition_record_valid:
  "record_valid (snapshot j) \<Longrightarrow> transition p nxt d j = Ok j' \<Longrightarrow> record_valid (snapshot j')"
  by (erule transitionE) (simp add: record_valid_def)

lemma transition_status:
  "transition p nxt d j = Ok j' \<Longrightarrow> state_of j' q = (if q = p then nxt else state_of j q)"
  using transition_frame(9,10) [of p nxt d j j'] by auto

lemma transition_allowed: "transition p nxt d j = Ok j' \<Longrightarrow> allows (state_of j p) nxt"
  by (erule transitionE)

text \<open>A transition keeps the entry's invariant when it starts only what may start.\<close>

lemma entry_ok_transition:
  assumes ok: "entry_ok e" and t: "transition p nxt d (job e) = Ok j"
    and np: "\<not> metadata_pending e"
    and start: "nxt = Active \<Longrightarrow> meta_of e \<noteq> None \<and> (p \<noteq> Twitch \<longrightarrow> dep_met (job e) p) \<and>
      \<not> (p = Wingman \<and> entry_is_wvw e)"
    and wait: "nxt = Waiting \<Longrightarrow> meta_of e \<noteq> None"
  shows "entry_ok (e\<lparr>job := j\<rparr>)"
proof -
  note al = transition_allowed [OF t] and s = transition_status [OF t]
  have meta: "encounter_metadata (snapshot j) = meta_of e"
    and rep: "dps_report_result (snapshot j) = dps_report_result (snapshot (job e))"
    using transition_frame [OF t] by simp_all
  have idle: "\<not> is_busy (state_of j q)" if "meta_of e = None" for q
  proof -
    have "\<not> is_busy (state_of (job e) r)" for r using ok np that by (auto simp: entry_ok_def)
    moreover have "nxt = Cancelled" if "q = p"
      using allows_idle_target [OF al] calculation wait \<open>meta_of e = None\<close> by auto
    ultimately show ?thesis by (simp add: s)
  qed
  have dep: "q = Twitch \<or> dep_met j q" if fl: "in_flight (state_of j q)" for q
  proof (cases "p = DpsReport \<and> q \<noteq> DpsReport")
    case True
    then have "in_flight (state_of (job e) q)" using fl by (simp add: s)
    then have "q = Twitch \<or> dep_met (job e) q" using ok by (simp add: entry_ok_def)
    with True allows_from [OF al] show ?thesis by (auto simp: dep_met_def)
  next
    case False
    have "q = Twitch \<or> dep_met (job e) q"
    proof (cases "q = p")
      case True
      with fl allows_in_flight [OF al] have "nxt = Active \<or> in_flight (state_of (job e) q)"
        by (auto simp: s)
      with start True ok show ?thesis by (auto simp: entry_ok_def)
    qed (use fl ok in \<open>simp add: s entry_ok_def\<close>)
    with False show ?thesis by (auto simp: dep_met_def s rep)
  qed
  have wv: "\<not> in_flight (state_of j Wingman)" if "entry_is_wvw e"
  proof -
    have "\<not> in_flight (state_of (job e) Wingman)" using ok that by (simp add: entry_ok_def)
    moreover have "\<not> in_flight nxt" if "p = Wingman"
      using allows_in_flight [OF al] calculation start \<open>entry_is_wvw e\<close> that by auto
    ultimately show ?thesis by (auto simp: s)
  qed
  have "record_valid (snapshot j)"
    using ok t by (auto simp: entry_ok_def intro: transition_record_valid)
  with idle dep wv np show ?thesis
    using entry_is_wvw_job [of j e, OF meta] by (simp add: entry_ok_def meta)
qed

section \<open>Updating one entry of the coordinator\<close>

text \<open>
  Everything an operation does to entry \<open>i\<close> in passing: its job evolves, its metadata and its
  flags stay, no other entry and no bookkeeping field changes.
\<close>

definition touches :: "nat \<Rightarrow> 'w coordinator \<Rightarrow> 'w coordinator \<Rightarrow> bool" where
  "touches i c c' \<longleftrightarrow>
     (\<exists>j. jobs c' = (jobs c)[i := (jobs c ! i)\<lparr>job := j\<rparr>] \<and> job_evolves (job (jobs c ! i)) j \<and>
        encounter_metadata (snapshot j) = meta_of (jobs c ! i)) \<and>
     slots c' = slots c \<and> coord_limit c' = coord_limit c \<and> next_id c' = next_id c \<and>
     restored c' = restored c \<and> result_cursor c' = result_cursor c \<and> stopping c' = stopping c"

lemma touches_refl [simp]: "touches i c c"
  by (auto simp: touches_def intro!: exI [of _ "job (jobs c ! i)"])

lemma touches_world [simp]: "touches i c (c\<lparr>world := w\<rparr>)"
  by (auto simp: touches_def intro!: exI [of _ "job (jobs c ! i)"])

lemma touches_length: "touches i c c' \<Longrightarrow> length (jobs c') = length (jobs c)"
  by (auto simp: touches_def)

lemma touches_other: "touches i c c' \<Longrightarrow> k \<noteq> i \<Longrightarrow> jobs c' ! k = jobs c ! k"
  by (auto simp: touches_def)

lemma touches_entry:
  assumes "touches i c c'" and "i < length (jobs c)"
  shows "metadata_pending (jobs c' ! i) = metadata_pending (jobs c ! i)"
    and "intents (jobs c' ! i) = intents (jobs c ! i)"
    and "reupload_flag (jobs c' ! i) = reupload_flag (jobs c ! i)"
    and "meta_of (jobs c' ! i) = meta_of (jobs c ! i)"
    and "job_evolves (job (jobs c ! i)) (job (jobs c' ! i))"
    and "is_wvw c' i = is_wvw c i"
  using assms by (auto simp: touches_def is_wvw_def entry_is_wvw_def)

lemma touches_trans:
  assumes "touches i c c'" and "touches i c' c''"
  shows "touches i c c''"
proof -
  from assms(1) obtain j where j: "jobs c' = (jobs c)[i := (jobs c ! i)\<lparr>job := j\<rparr>]"
    "job_evolves (job (jobs c ! i)) j" "encounter_metadata (snapshot j) = meta_of (jobs c ! i)"
    by (auto simp: touches_def)
  from assms(2) obtain k where k: "jobs c'' = (jobs c')[i := (jobs c' ! i)\<lparr>job := k\<rparr>]"
    "job_evolves (job (jobs c' ! i)) k" "encounter_metadata (snapshot k) = meta_of (jobs c' ! i)"
    by (auto simp: touches_def)
  have "\<exists>l. jobs c'' = (jobs c)[i := (jobs c ! i)\<lparr>job := l\<rparr>] \<and> job_evolves (job (jobs c ! i)) l \<and>
      encounter_metadata (snapshot l) = meta_of (jobs c ! i)"
  proof (cases "i < length (jobs c)")
    case True
    then have "jobs c'' = (jobs c)[i := (jobs c ! i)\<lparr>job := k\<rparr>]" and "job_evolves j k"
      and "encounter_metadata (snapshot k) = meta_of (jobs c ! i)"
      using j k by simp_all
    then show ?thesis using job_evolves_trans [OF j(2)] by blast
  next
    case False
    with j k show ?thesis
      by (auto simp: list_update_beyond intro!: exI [of _ "job (jobs c ! i)"])
  qed
  with assms show ?thesis by (simp add: touches_def)
qed

lemma touches_set_job:
  "job_evolves (job (jobs c ! i)) j \<Longrightarrow> encounter_metadata (snapshot j) = meta_of (jobs c ! i) \<Longrightarrow>
     touches i c (set_job i j c)"
  by (auto simp: touches_def set_job_def set_entry_def)

lemma set_job_nth [simp]:
  "i < length (jobs c) \<Longrightarrow> jobs (set_job i j c) ! i = (jobs c ! i)\<lparr>job := j\<rparr>"
  "k \<noteq> i \<Longrightarrow> jobs (set_job i j c) ! k = jobs c ! k"
  "length (jobs (set_job i j c)) = length (jobs c)"
  "world (set_job i j c) = world c"
  "stopping (set_job i j c) = stopping c"
  "slots (set_job i j c) = slots c"
  "coord_limit (set_job i j c) = coord_limit c"
  by (simp_all add: set_job_def set_entry_def)

lemma st_set_job [simp]:
  "i < length (jobs c) \<Longrightarrow> st (set_job i j c) i q = state_of j q"
  by (simp add: st_def)

lemma set_entry_inv:
  assumes inv: "coord_inv outbox c" and i: "i < length (jobs c)"
    and ev: "job_evolves (job (jobs c ! i)) (job e)" and ok: "entry_ok e"
  shows "coord_inv outbox (set_entry i e c)"
proof -
  have ids: "map (\<lambda>e. id_of (job e)) ((jobs c)[i := e]) = map (\<lambda>e. id_of (job e)) (jobs c)"
    using i ev by (simp add: map_update job_evolves_def list_update_same_conv)
  have mem: "x = e \<or> x \<in> set (jobs c)" if "x \<in> set ((jobs c)[i := e])" for x
    using that set_update_subset_insert [of "jobs c" i e] by auto
  have old: "jobs c ! i \<in> set (jobs c)" using i by simp
  have "id_of (job e) = id_of (job (jobs c ! i))"
    and at: "\<And>p. attempts (provider_status (job (jobs c ! i)) p) \<le> attempts (provider_status (job e) p)"
    using ev by (auto simp: job_evolves_def status_evolves_def)
  moreover have below: "below_next (set_entry i e c) = below_next c"
    by (simp add: fun_eq_iff below_next_def set_entry_def)
  ultimately have "ids_ok (set_entry i e c)" and "sent_ok outbox (set_entry i e c)"
    using inv old ids
    by (auto simp: coord_inv_def ids_ok_def sent_ok_def below, auto simp: set_entry_def
        dest!: mem intro: order_trans [OF _ at])
  with inv ok mem show ?thesis by (auto simp: coord_inv_def set_entry_def)
qed

lemma set_job_inv:
  "coord_inv outbox c \<Longrightarrow> i < length (jobs c) \<Longrightarrow> job_evolves (job (jobs c ! i)) j \<Longrightarrow>
     entry_ok ((jobs c ! i)\<lparr>job := j\<rparr>) \<Longrightarrow> coord_inv outbox (set_job i j c)"
  unfolding set_job_def by (rule set_entry_inv) auto

lemma world_inv:
  "coord_inv outbox c \<Longrightarrow> outbox w = outbox (world c) \<Longrightarrow> coord_inv outbox (c\<lparr>world := w\<rparr>)"
  by (simp add: coord_inv_def ids_ok_def sent_ok_def below_next_def)

lemma inv_entry_ok: "coord_inv outbox c \<Longrightarrow> i < length (jobs c) \<Longrightarrow> entry_ok (jobs c ! i)"
  by (simp add: coord_inv_def)

section \<open>Settling: transitions that start nothing\<close>

definition plain :: "provider_state \<Rightarrow> bool" where
  "plain s \<longleftrightarrow> s = Failed \<or> s = Cancelled \<or> s = Skipped"

lemma plain_simps [simp]: "plain Failed" "plain Cancelled" "plain Skipped"
  by (simp_all add: plain_def)

lemma transition_plain:
  "plain nxt \<Longrightarrow> allows (state_of j p) nxt \<Longrightarrow> \<exists>j'. transition p nxt d j = Ok j'"
  by (auto simp: plain_def transition_def Let_def)

lemma allows_plain: "allows Waiting nxt \<longleftrightarrow> nxt = Active \<or> plain nxt"
  by (cases nxt) (auto simp: plain_def)

text \<open>An inert change of entry \<open>i\<close>: it only touches, and no adapter hears of it.\<close>

definition inert :: "nat \<Rightarrow> 'w coordinator \<Rightarrow> 'w coordinator \<Rightarrow> bool" where
  "inert i c c' \<longleftrightarrow> touches i c c' \<and> world c' = world c"

lemma inert_refl [simp]: "inert i c c"
  by (simp add: inert_def)

lemma inert_trans: "inert i c c' \<Longrightarrow> inert i c' c'' \<Longrightarrow> inert i c c''"
  by (auto simp: inert_def intro: touches_trans)

lemma inert_touches: "inert i c c' \<Longrightarrow> touches i c c'"
  by (simp add: inert_def)

lemma transition_touches:
  "transition p nxt d (job (jobs c ! i)) = Ok j \<Longrightarrow> touches i c (set_job i j c)"
  by (rule touches_set_job) (auto dest: transition_evolves transition_frame)

lemma try_transition_effect:
  assumes inv: "coord_inv outbox c" and i: "i < length (jobs c)"
    and np: "\<not> metadata_pending (jobs c ! i)" and pl: "plain nxt"
    and c': "c' = try_transition i p nxt d c"
  shows "coord_inv outbox c'" and "inert i c c'"
    and "st c' i q = (if q = p \<and> allows (st c i p) nxt then nxt else st c i q)"
proof -
  have "coord_inv outbox c' \<and> inert i c c' \<and>
      st c' i q = (if q = p \<and> allows (st c i p) nxt then nxt else st c i q)"
  proof (cases "transition p nxt d (job (jobs c ! i))")
    case (Inl e)
    then have "\<not> allows (st c i p) nxt"
      using transition_plain [OF pl, of "job (jobs c ! i)" p d] by (auto simp: st_def)
    with Inl inv show ?thesis by (simp add: c' try_transition_def)
  next
    case (Inr j)
    have "entry_ok ((jobs c ! i)\<lparr>job := j\<rparr>)"
      using inv_entry_ok [OF inv i] Inr np by (rule entry_ok_transition) (use pl in \<open>auto simp: plain_def\<close>)
    with Inr inv i have "coord_inv outbox c'"
      by (auto simp: c' try_transition_def intro: set_job_inv transition_evolves)
    moreover have "inert i c c'"
      using transition_touches [OF Inr] Inr by (simp add: inert_def c' try_transition_def)
    ultimately show ?thesis
      using transition_status [OF Inr, of q] transition_allowed [OF Inr] Inr i
      by (simp add: c' try_transition_def, simp add: st_def)
  qed
  then show "coord_inv outbox c'" "inert i c c'"
    "st c' i q = (if q = p \<and> allows (st c i p) nxt then nxt else st c i q)" by auto
qed

lemma inert_entry:
  assumes "inert i c c'" and "i < length (jobs c)"
  shows "i < length (jobs c')" and "metadata_pending (jobs c' ! i) = metadata_pending (jobs c ! i)"
    and "reupload_flag (jobs c' ! i) = reupload_flag (jobs c ! i)"
    and "meta_of (jobs c' ! i) = meta_of (jobs c ! i)"
  using assms(2) touches_length [OF inert_touches [OF assms(1)]]
    touches_entry [OF inert_touches [OF assms(1)] assms(2)] by simp_all

lemma settle_dependent_effect:
  assumes inv: "coord_inv outbox c" and i: "i < length (jobs c)"
    and np: "\<not> metadata_pending (jobs c ! i)"
    and c': "c' = settle_dependent i cancelled p c"
  shows "coord_inv outbox c'" and "inert i c c'"
    and "st c' i q = (if q = p \<and> st c i p = Waiting \<and> \<not> (p = Twitch \<and> reupload_flag (jobs c ! i))
           then if cancelled then Cancelled else Skipped else st c i q)"
  using try_transition_effect [OF inv i np, of "if cancelled then Cancelled else Skipped"]
  by (auto simp: c' settle_dependent_def inv)

definition settles :: "nat \<Rightarrow> bool \<Rightarrow> 'w coordinator \<Rightarrow> 'w coordinator \<Rightarrow> bool" where
  "settles i cancelled c c' \<longleftrightarrow>
     (\<forall>q. st c' i q = (if q \<noteq> DpsReport \<and> st c i q = Waiting \<and>
          \<not> (q = Twitch \<and> reupload_flag (jobs c ! i))
        then if cancelled then Cancelled else Skipped else st c i q))"

lemma settle_dependents_effect:
  assumes inv: "coord_inv outbox c" and i: "i < length (jobs c)"
    and np: "\<not> metadata_pending (jobs c ! i)"
    and c': "c' = settle_dependents i cancelled c"
  shows "coord_inv outbox c'" and "inert i c c'" and "settles i cancelled c c'"
proof -
  define c1 where "c1 = settle_dependent i cancelled Wingman c"
  define c2 where "c2 = settle_dependent i cancelled DonBot c1"
  have c3: "c' = settle_dependent i cancelled Twitch c2"
    by (simp add: c' c1_def c2_def settle_dependents_def dependents_def)
  note e1 = settle_dependent_effect [OF inv i np c1_def]
  note n1 = inert_entry [OF e1(2) i]
  from np n1 have np1: "\<not> metadata_pending (jobs c1 ! i)" by simp
  note e2 = settle_dependent_effect [OF e1(1) n1(1) np1 c2_def]
  note n2 = inert_entry [OF e2(2) n1(1)]
  from np1 n2 have np2: "\<not> metadata_pending (jobs c2 ! i)" by simp
  note e3 = settle_dependent_effect [OF e2(1) n2(1) np2 c3]
  show "coord_inv outbox c'" by (rule e3(1))
  show "inert i c c'" using e1(2) e2(2) e3(2) by (blast intro: inert_trans)
  show "settles i cancelled c c'"
    unfolding settles_def
  proof
    fix q
    show "st c' i q = (if q \<noteq> DpsReport \<and> st c i q = Waiting \<and>
          \<not> (q = Twitch \<and> reupload_flag (jobs c ! i))
        then if cancelled then Cancelled else Skipped else st c i q)"
      by (cases q) (simp_all add: e1(3) e2(3) e3(3) n1(3) n2(3))
  qed
qed

lemma skip_wingman_effect:
  assumes inv: "coord_inv outbox c" and i: "i < length (jobs c)"
    and np: "\<not> metadata_pending (jobs c ! i)" and c': "skip_wingman i c = (r, c')"
  shows "coord_inv outbox c'" and "inert i c c'"
    and "st c' i q = (if q = Wingman \<and> allows (st c i Wingman) Skipped then Skipped else st c i q)"
    and "is_ok r \<longleftrightarrow> allows (st c i Wingman) Skipped"
proof -
  have eq: "c' = try_transition i Wingman Skipped ''WvW is unsupported by GW2Wingman'' c"
    using c' by (auto simp: skip_wingman_def try_transition_def split: sum.splits)
  note e = try_transition_effect [OF inv i np _ eq]
  show "coord_inv outbox c'" "inert i c c'"
    "st c' i q = (if q = Wingman \<and> allows (st c i Wingman) Skipped then Skipped else st c i q)"
    using e by simp_all
  show "is_ok r \<longleftrightarrow> allows (st c i Wingman) Skipped"
    using c' transition_plain [of Skipped "job (jobs c ! i)" Wingman "''WvW is unsupported by GW2Wingman''"]
    by (auto simp: skip_wingman_def st_def split: sum.splits dest: transition_allowed)
qed

text \<open>A failed dispatch leaves its destination settled, and its dependents with it.\<close>

lemma fail_dispatch_effect:
  assumes inv: "coord_inv outbox c" and i: "i < length (jobs c)"
    and np: "\<not> metadata_pending (jobs c ! i)"
    and live: "allows (st c i p) Failed"
    and c': "c' = fail_dispatch i p c"
  shows "coord_inv outbox c'" and "inert i c c'"
    and "p \<noteq> DpsReport \<Longrightarrow> st c' i q = (if q = p then Failed else st c i q)"
    and "p = DpsReport \<Longrightarrow> st c' i q = (if q = DpsReport then Failed
       else if st c i q = Waiting \<and> \<not> (q = Twitch \<and> reupload_flag (jobs c ! i)) then Skipped
       else st c i q)"
proof -
  define c1 where "c1 = try_transition i p Failed ''Provider unavailable'' c"
  note e = try_transition_effect [OF inv i np _ c1_def, simplified]
  note n = inert_entry [OF e(2) i]
  from np n have np1: "\<not> metadata_pending (jobs c1 ! i)" by simp
  note s = settle_dependents_effect [OF e(1) n(1) np1 refl, of False]
  have c'_eq: "c' = (if p = DpsReport then settle_dependents i False c1 else c1)"
    by (simp add: c' fail_dispatch_def c1_def Let_def)
  show "coord_inv outbox c'" "inert i c c'"
    using e s by (auto simp: c'_eq intro: inert_trans)
  show "p \<noteq> DpsReport \<Longrightarrow> st c' i q = (if q = p then Failed else st c i q)"
    using e(3) live by (simp add: c'_eq)
  show "p = DpsReport \<Longrightarrow> st c' i q = (if q = DpsReport then Failed
       else if st c i q = Waiting \<and> \<not> (q = Twitch \<and> reupload_flag (jobs c ! i)) then Skipped
       else st c i q)"
    using s(3) [unfolded settles_def, rule_format, of q] e(3) live n(3)
    by (cases q) (simp_all add: c'_eq)
qed

section \<open>Dispatching\<close>

lemma require_dependency_iff:
  "require_dependency c i p = Ok () \<longleftrightarrow> dep_met (job (jobs c ! i)) p"
  by (cases p) (auto simp: require_dependency_def dep_met_def st_def Let_def split: if_splits)

lemma admit_Ok:
  assumes "admit c i p = Ok j"
  shows "meta_of (jobs c ! i) \<noteq> None" and "slots c p" and "dep_met (job (jobs c ! i)) p"
    and "transition p Active ''Uploading'' (job (jobs c ! i)) = Ok j"
  using assms require_dependency_iff [of c i p]
  by (auto simp: admit_def require_metadata_def require_providers_def split: if_splits)

lemma transition_Active_fresh:
  assumes "transition p Active d j = Ok j'"
  shows "attempts (provider_status j p) < attempts (provider_status j' p)"
  using assms by (auto elim!: transitionE dest: checked_succ_less)

lemma make_request_ok:
  assumes ok: "entry_ok e" and m: "meta_of e \<noteq> None" and d: "dep_met (job e) p"
    and w: "\<not> (p = Wingman \<and> entry_is_wvw e)"
  shows "request_ok (make_request e p)"
  using assms by (auto simp: request_ok_def make_request_def Let_def entry_ok_def record_valid_def
      dep_met_def entry_is_wvw_def)

lemma make_request_key [simp]:
  "upload_key (make_request e p) = (id_of (job e), p, attempts (provider_status (job e) p))"
  "request_job_id (make_request e p) = id_of (job e)"
  "request_provider (make_request e p) = p"
  "request_attempt (make_request e p) = attempts (provider_status (job e) p)"
  by (simp_all add: upload_key_def make_request_def Let_def)

lemma ids_ok_unique:
  assumes "ids_ok c" and "x \<in> set (jobs c)" and "y \<in> set (jobs c)" and "id_of (job x) = id_of (job y)"
  shows "x = y"
  using assms inj_onD [of "\<lambda>e. id_of (job e)" "set (jobs c)" x y] by (auto simp: ids_ok_def distinct_map)

text \<open>A request leaves for a job that has just started a new attempt.\<close>

lemma send_inv:
  assumes inv: "coord_inv outbox c" and i: "i < length (jobs c)"
    and ok: "request_ok (make_request (jobs c ! i) p)"
    and fresh: "\<And>q. q \<in> set (outbox (world c)) \<Longrightarrow> request_job_id q = id_of (job (jobs c ! i)) \<Longrightarrow>
      request_provider q = p \<Longrightarrow> request_attempt q < attempts (provider_status (job (jobs c ! i)) p)"
    and w: "outbox w = outbox (world c) @ [make_request (jobs c ! i) p]"
  shows "coord_inv outbox (c\<lparr>world := w\<rparr>)"
proof -
  have mem: "jobs c ! i \<in> set (jobs c)" using i by simp
  have ids: "ids_ok c" using inv by (simp add: coord_inv_def)
  have "upload_key (make_request (jobs c ! i) p) \<notin> upload_key ` set (outbox (world c))"
    using fresh by (force simp: upload_key_def)
  moreover have "below_next c (id_of (job (jobs c ! i)))" using ids mem by (simp add: ids_ok_def)
  moreover have "e = jobs c ! i" if "e \<in> set (jobs c)" "id_of (job e) = id_of (job (jobs c ! i))" for e
    using ids_ok_unique [OF ids that(1) mem that(2)] .
  moreover have below: "below_next (c\<lparr>world := w\<rparr>) = below_next c"
    by (simp add: fun_eq_iff below_next_def)
  ultimately have "sent_ok outbox (c\<lparr>world := w\<rparr>)"
    using inv ok w by (auto simp: coord_inv_def sent_ok_def)
  then show ?thesis using inv by (simp add: coord_inv_def ids_ok_def below)
qed

definition dispatch_post :: "nat \<Rightarrow> provider \<Rightarrow> 'w coordinator \<Rightarrow> 'w coordinator \<Rightarrow> bool" where
  "dispatch_post i p c c' \<longleftrightarrow>
     (if p = DpsReport
      then st c' i DpsReport = Active \<and> (\<forall>q. q \<noteq> DpsReport \<longrightarrow> st c' i q = st c i q) \<or>
        st c' i DpsReport = Failed \<and> (\<forall>q. q \<noteq> DpsReport \<longrightarrow> st c' i q =
          (if st c i q = Waiting \<and> \<not> (q = Twitch \<and> reupload_flag (jobs c ! i)) then Skipped
           else st c i q))
      else st c' i p \<noteq> Waiting \<and> (\<forall>q. q \<noteq> p \<longrightarrow> st c' i q = st c i q))"

lemma fail_dispatch_post:
  assumes inv: "coord_inv outbox c" and i: "i < length (jobs c)"
    and np: "\<not> metadata_pending (jobs c ! i)" and live: "allows (st c i p) Failed"
  shows "dispatch_post i p c (fail_dispatch i p c)"
  using fail_dispatch_effect(3,4) [OF inv i np live refl] by (auto simp: dispatch_post_def)

lemma dispatch_post_from:
  assumes "dispatch_post i p c1 c'" and "\<And>q. q \<noteq> p \<Longrightarrow> st c1 i q = st c i q"
    and "reupload_flag (jobs c1 ! i) = reupload_flag (jobs c ! i)"
  shows "dispatch_post i p c c'"
  using assms by (auto simp: dispatch_post_def)

context recording_env
begin

lemma dispatch_effect:
  assumes inv: "coord_inv outbox c" and i: "i < length (jobs c)"
    and np: "\<not> metadata_pending (jobs c ! i)" and live: "allows (st c i p) Active"
    and d: "dispatch env i p c = (res, c')"
  shows "coord_inv outbox c' \<and> touches i c c' \<and> dispatch_post i p c c'"
proof -
  have ok: "entry_ok (jobs c ! i)" using inv i by (rule inv_entry_ok)
  have liveF: "allows (st c i p) Failed" using live by (cases "st c i p") auto
  consider (skip) "p = Wingman" "is_wvw c i"
    | (refused) e where "\<not> (p = Wingman \<and> is_wvw c i)" "admit c i p = Err e"
    | (admitted) j where "\<not> (p = Wingman \<and> is_wvw c i)" "admit c i p = Ok j"
    by (cases "admit c i p") auto
  then show ?thesis
  proof cases
    case skip
    with d have s: "skip_wingman i c = (res, c')" by (simp add: dispatch_def)
    have "st c i Wingman = Waiting"
      using ok live skip by (auto simp: entry_ok_def is_wvw_def st_def allows_Active_iff)
    then show ?thesis
      using skip_wingman_effect [OF inv i np s] skip by (simp add: inert_touches dispatch_post_def)
  next
    case refused
    with d have "c' = fail_dispatch i p c" by (auto simp: dispatch_def)
    then show ?thesis
      using fail_dispatch_effect(1,2) [OF inv i np liveF] fail_dispatch_post [OF inv i np liveF]
      by (simp add: inert_touches)
  next
    case admitted
    note a = admit_Ok [OF admitted(2)]
    define c1 where "c1 = set_job i j c"
    obtain r w where enq: "env_enqueue env (make_request (jobs c1 ! i) p) (world c1) = (r, w)"
      by fastforce
    define c2 where "c2 = c1\<lparr>world := w\<rparr>"
    have wv: "\<not> (p = Wingman \<and> entry_is_wvw (jobs c ! i))" using admitted(1) by (simp add: is_wvw_def)
    have ev: "job_evolves (job (jobs c ! i)) j" using a(4) by (rule transition_evolves)
    have meta: "meta_of (jobs c1 ! i) = meta_of (jobs c ! i)"
      and rep: "dps_report_result (snapshot (job (jobs c1 ! i))) = dps_report_result (snapshot (job (jobs c ! i)))"
      using i transition_frame [OF a(4)] by (simp_all add: c1_def)
    have ok1: "entry_ok ((jobs c ! i)\<lparr>job := j\<rparr>)"
      using ok a(4) np by (rule entry_ok_transition) (use a wv in auto)
    have inv1: "coord_inv outbox c1"
      unfolding c1_def using inv i ev ok1 by (rule set_job_inv)
    have e1: "jobs c1 ! i = (jobs c ! i)\<lparr>job := j\<rparr>" and i1: "i < length (jobs c1)"
      using i by (simp_all add: c1_def)
    have s1: "st c1 i q = (if q = p then Active else st c i q)" for q
      using i transition_status [OF a(4)] by (simp add: c1_def) (simp add: st_def)
    have dep1: "dep_met (job (jobs c1 ! i)) p"
      using a(3) transition_status [OF a(4)] rep by (auto simp: dep_met_def e1)
    have req: "request_ok (make_request (jobs c1 ! i) p)"
      by (rule make_request_ok) (use ok1 a(1) meta dep1 wv in \<open>auto simp: e1 entry_is_wvw_def\<close>)
    have fresh: "request_attempt q < attempts (provider_status (job (jobs c1 ! i)) p)"
      if "q \<in> set (outbox (world c1))" "request_job_id q = id_of (job (jobs c1 ! i))"
        "request_provider q = p" for q
    proof -
      have "id_of j = id_of (job (jobs c ! i))" using ev by (simp add: job_evolves_def)
      then have "request_attempt q \<le> attempts (provider_status (job (jobs c ! i)) p)"
        using inv i that by (auto simp: coord_inv_def sent_ok_def e1 c1_def)
      then show ?thesis using transition_Active_fresh [OF a(4)] by (simp add: e1)
    qed
    have inv2: "coord_inv outbox c2"
      unfolding c2_def
      by (rule send_inv [OF inv1 i1 req fresh sent_enqueue [OF enq]])
    have t2: "touches i c c2"
      using transition_touches [OF a(4)] by (auto simp: c2_def c1_def intro: touches_trans)
    have i2: "i < length (jobs c2)" and np2: "\<not> metadata_pending (jobs c2 ! i)"
      and re2: "reupload_flag (jobs c2 ! i) = reupload_flag (jobs c ! i)"
      and s2: "\<And>q. st c2 i q = st c1 i q"
      using i1 np by (simp_all add: c2_def e1 st_def)
    have l2: "allows (st c2 i p) Failed" using s1 s2 by simp
    note f = fail_dispatch_effect(1,2) [OF inv2 i2 np2 l2 refl] fail_dispatch_post [OF inv2 i2 np2 l2]
    have c': "c' = c2 \<or> c' = fail_dispatch i p c2"
      using d admitted enq by (auto simp: dispatch_def Let_def c1_def c2_def split: sum.splits prod.splits)
    moreover have "dispatch_post i p c c2"
      using s1 s2 by (simp add: dispatch_post_def)
    moreover have "dispatch_post i p c (fail_dispatch i p c2)"
      by (rule dispatch_post_from [OF f(3)]) (simp_all add: s1 s2 re2)
    ultimately show ?thesis
      using inv2 t2 f(1) inert_touches [OF f(2)] by (auto intro: touches_trans)
  qed
qed

end

section \<open>Trimming the history\<close>

lemma subseq_delete: "subseq (take i xs @ drop (Suc i) xs) xs"
proof (cases "i < length xs")
  case True
  have "subseq (take i xs @ drop (Suc i) xs) (take i xs @ xs ! i # drop (Suc i) xs)"
    by (intro list_emb_append_mono) auto
  then show ?thesis using id_take_nth_drop [OF True] by simp
qed simp

lemma trim_entries_subseq: "subseq (trim_entries n es) es"
proof (induction n es rule: trim_entries.induct)
  case (1 n es)
  show ?case
    by (subst trim_entries.simps)
      (auto split: option.split intro: subseq_order.trans [OF 1 subseq_delete])
qed

lemma delete_filter:
  assumes "position P xs = Some i"
  shows "filter (\<lambda>x. \<not> P x) (take i xs @ drop (Suc i) xs) = filter (\<lambda>x. \<not> P x) xs"
proof -
  from position_Some [OF assms] have i: "i < length xs" and P: "P (xs ! i)" by auto
  have "filter (\<lambda>x. \<not> P x) xs = filter (\<lambda>x. \<not> P x) (take i xs @ xs ! i # drop (Suc i) xs)"
    using id_take_nth_drop [OF i] by simp
  then show ?thesis using P by simp
qed

lemma trim_entries_busy: "filter busy (trim_entries n es) = filter busy es"
proof (induction n es rule: trim_entries.induct)
  case (1 n es)
  show ?case
    by (subst trim_entries.simps) (use 1 delete_filter [of "\<lambda>e. \<not> busy e" es] in \<open>auto split: option.split\<close>)
qed

lemma trim_entries_length:
  "length (trim_entries n es) =
     (if n < length es then max n (length (filter busy es)) else length es)"
proof (induction n es rule: trim_entries.induct)
  case (1 n es)
  show ?case
  proof (cases "n < length es")
    case True
    show ?thesis
    proof (cases "position (\<lambda>e. \<not> busy e) es")
      case None
      then have "filter busy es = es" by (auto simp: position_None filter_id_conv)
      with True None show ?thesis by (subst trim_entries.simps) simp
    next
      case (Some i)
      from position_Some [OF Some] have i: "i < length es" by simp
      then have len: "length (take i es @ drop (Suc i) es) = length es - 1" by simp
      have b: "length (filter busy (take i es @ drop (Suc i) es)) = length (filter busy es)"
        using delete_filter [OF Some] by simp
      have "length (filter busy (take i es @ drop (Suc i) es)) \<le> length es - 1"
        using length_filter_le [of busy "take i es @ drop (Suc i) es"] len by simp
      moreover have "trim_entries n es = trim_entries n (take i es @ drop (Suc i) es)"
        using True Some by (subst trim_entries.simps) simp
      ultimately show ?thesis
        using 1 [OF True Some] True len b by (auto simp: max_def)
    qed
  qed (subst trim_entries.simps, simp)
qed

lemma trim_to_frame [simp]:
  "world (trim_to n c) = world c" "next_id (trim_to n c) = next_id c"
  "coord_limit (trim_to n c) = coord_limit c" "result_cursor (trim_to n c) = result_cursor c"
  "stopping (trim_to n c) = stopping c" "slots (trim_to n c) = slots c"
  "restored (trim_to n c) = restored c" "jobs (trim_to n c) = trim_entries n (jobs c)"
  by (simp_all add: trim_to_def)

lemma trim_entries_mem: "e \<in> set (trim_entries n es) \<Longrightarrow> e \<in> set es"
  by (metis in_set_nthsD subseq_conv_nths trim_entries_subseq)

lemma subseq_keeps_distinct: "subseq xs ys \<Longrightarrow> distinct ys \<Longrightarrow> distinct xs"
  by (auto simp: subseq_conv_nths)

lemma trim_inv:
  assumes "coord_inv outbox c"
  shows "coord_inv outbox (trim_to n c)"
proof -
  have "distinct (map (\<lambda>e. id_of (job e)) (trim_entries n (jobs c)))"
    by (rule subseq_keeps_distinct [OF subseq_map [OF trim_entries_subseq]])
      (use assms in \<open>simp add: coord_inv_def ids_ok_def\<close>)
  moreover have "length (trim_entries n (jobs c)) \<le> length (jobs c)"
    using trim_entries_subseq by (rule list_emb_length)
  ultimately show ?thesis
    using assms by (auto simp: coord_inv_def ids_ok_def sent_ok_def below_next_def dest: trim_entries_mem)
qed

lemma trim_ok: "coord_ok outbox c \<Longrightarrow> coord_ok outbox (trim_to n c)"
  by (auto simp: coord_ok_def trim_inv dest: trim_entries_mem)

section \<open>Calm after an operation\<close>

lemma calmI:
  assumes "\<And>q. st c i q = Waiting \<Longrightarrow> q \<noteq> DpsReport \<and> in_flight (st c i DpsReport)"
    and "reupload_flag (jobs c ! i) \<Longrightarrow> st c i Twitch \<noteq> Waiting"
  shows "calm (jobs c ! i)"
  using assms by (simp add: calm_def st_def)

lemma calm_after_report:
  assumes post: "dispatch_post i DpsReport c c'" and t: "touches i c c'" and i: "i < length (jobs c)"
    and tw: "reupload_flag (jobs c ! i) \<Longrightarrow> st c i Twitch \<noteq> Waiting"
  shows "calm (jobs c' ! i)"
proof (rule calmI)
  fix q
  show "st c' i q = Waiting \<Longrightarrow> q \<noteq> DpsReport \<and> in_flight (st c' i DpsReport)"
    using post tw unfolding dispatch_post_def by (cases q) (auto split: if_splits)
  show "reupload_flag (jobs c' ! i) \<Longrightarrow> st c' i Twitch \<noteq> Waiting"
    using post tw touches_entry(3) [OF t i] by (auto simp: dispatch_post_def)
qed

lemma calm_after_other:
  assumes post: "dispatch_post i p c c'" and t: "touches i c c'" and i: "i < length (jobs c)"
    and p: "p \<noteq> DpsReport"
    and before: "\<And>q. q \<noteq> p \<Longrightarrow> st c i q = Waiting \<Longrightarrow> q \<noteq> DpsReport \<and> in_flight (st c i DpsReport)"
    and tw: "reupload_flag (jobs c ! i) \<Longrightarrow> p \<noteq> Twitch \<Longrightarrow> st c i Twitch \<noteq> Waiting"
  shows "calm (jobs c' ! i)"
proof (rule calmI)
  fix q
  show "st c' i q = Waiting \<Longrightarrow> q \<noteq> DpsReport \<and> in_flight (st c' i DpsReport)"
    using post before [of q] p by (cases "q = p") (auto simp: dispatch_post_def)
  show "reupload_flag (jobs c' ! i) \<Longrightarrow> st c' i Twitch \<noteq> Waiting"
    using post tw p touches_entry(3) [OF t i] by (cases "p = Twitch") (auto simp: dispatch_post_def)
qed

text \<open>The rest of the history is untouched, so one calm entry is enough.\<close>

lemma coord_ok_entry:
  assumes inv: "coord_inv outbox c'" and old: "\<And>k. k < length (jobs c) \<Longrightarrow> k \<noteq> i \<Longrightarrow> calm (jobs c ! k)"
    and t: "touches i c c'" and calm: "i < length (jobs c) \<Longrightarrow> calm (jobs c' ! i)"
  shows "coord_ok outbox c'"
proof -
  have "calm (jobs c' ! k)" if "k < length (jobs c')" for k
    using that old calm touches_length [OF t] touches_other [OF t, of k] by (cases "k = i") auto
  with inv show ?thesis by (auto simp: coord_ok_def in_set_conv_nth)
qed

lemma set_entry_simps [simp]:
  "i < length (jobs c) \<Longrightarrow> jobs (set_entry i e c) ! i = e"
  "k \<noteq> i \<Longrightarrow> jobs (set_entry i e c) ! k = jobs c ! k"
  "length (jobs (set_entry i e c)) = length (jobs c)"
  "world (set_entry i e c) = world c"
  "slots (set_entry i e c) = slots c"
  "coord_limit (set_entry i e c) = coord_limit c"
  "stopping (set_entry i e c) = stopping c"
  by (simp_all add: set_entry_def)

lemma st_set_entry [simp]: "i < length (jobs c) \<Longrightarrow> st (set_entry i e c) i q = state_of (job e) q"
  by (simp add: st_def)

lemma coord_ok_calm: "coord_ok outbox c \<Longrightarrow> k < length (jobs c) \<Longrightarrow> calm (jobs c ! k)"
  by (simp add: coord_ok_def)

lemma calm_st:
  assumes "calm (jobs c ! i)" and "meta_of (jobs c ! i) \<noteq> None"
  shows "st c i q = Waiting \<Longrightarrow> q \<noteq> DpsReport \<and> in_flight (st c i DpsReport)"
    and "reupload_flag (jobs c ! i) \<Longrightarrow> st c i Twitch \<noteq> Waiting"
  using assms by (auto simp: calm_def st_def)

lemma index_Ok: "index c jid = Ok i \<Longrightarrow> i < length (jobs c) \<and> id_of (job (jobs c ! i)) = jid"
  using position_Some [of "\<lambda>e. id_of (job e) = jid" "jobs c" i] by (simp add: index_def)

section \<open>Admission\<close>

lemma world_ok: "coord_ok outbox c \<Longrightarrow> outbox w = outbox (world c) \<Longrightarrow> coord_ok outbox (c\<lparr>world := w\<rparr>)"
  by (simp add: coord_ok_def world_inv)

lemma new_job_Ok:
  assumes "new_job jid f now sel = Ok j"
  shows "id_of j = jid" and "entry_ok (new_entry j True)" and "calm (new_entry j True)"
  using assms
  by (auto simp: new_job_def new_entry_def entry_ok_def calm_def record_valid_def provider_status_def
      entry_is_wvw_def default_status_def split: if_splits)

lemma append_entry_inv:
  assumes inv: "coord_inv outbox c" and n: "next_id c = Some n" and n0: "n \<noteq> 0"
    and e: "entry_ok e" and id: "id_of (job e) = n" and len: "length (jobs c) < max_history_limit"
  shows "coord_inv outbox (c\<lparr>jobs := jobs c @ [e], next_id := checked_succ n\<rparr>)"
proof -
  define c' where "c' = c\<lparr>jobs := jobs c @ [e], next_id := checked_succ n\<rparr>"
  have up: "below_next c' k" if "below_next c k \<or> k = n" for k
    using that n checked_succ_less [of n] by (auto simp: below_next_def c'_def split: option.splits)
  have "ids_ok c'"
    using inv n n0 id up by (auto simp: coord_inv_def ids_ok_def c'_def below_next_def)
  moreover have "sent_ok outbox c'"
    using inv n id up by (auto simp: coord_inv_def sent_ok_def c'_def below_next_def)
  ultimately show ?thesis
    using inv e len by (auto simp: coord_inv_def c'_def)
qed

context recording_env
begin

lemma add_pending_ok:
  assumes ok: "coord_ok outbox c"
  shows "coord_ok outbox (snd (add_pending env f sel c))"
proof -
  obtain now w where now: "env_system_now env (world c) = (now, w)" by fastforce
  define c1 where "c1 = c\<lparr>world := w\<rparr>"
  have ok1: "coord_ok outbox c1"
    unfolding c1_def using ok sent_system_now [OF now] by (rule world_ok)
  show ?thesis
  proof (cases "\<exists>n j. next_id c = Some n \<and> n \<noteq> 0 \<and> new_job n f now sel = Ok j \<and>
      length (filter busy (jobs c)) < coord_limit c")
    case True
    then obtain n j where n: "next_id c = Some n" "n \<noteq> 0" and j: "new_job n f now sel = Ok j"
      and room: "length (filter busy (jobs c)) < coord_limit c" by blast
    define c2 where "c2 = trim_to (coord_limit c1 - 1) c1"
    note nj = new_job_Ok [OF j]
    have ok2: "coord_ok outbox c2" unfolding c2_def using ok1 by (rule trim_ok)
    then have inv2: "coord_inv outbox c2" by (simp add: coord_ok_def)
    have "length (jobs c2) < coord_limit c"
      using room by (auto simp: c2_def c1_def trim_entries_length)
    moreover have "coord_limit c \<le> max_history_limit" using ok by (simp add: coord_ok_def coord_inv_def)
    ultimately have len: "length (jobs c2) < max_history_limit" by simp
    have "next_id c2 = Some n" using n by (simp add: c2_def c1_def)
    then have "coord_inv outbox (c2\<lparr>jobs := jobs c2 @ [new_entry j True], next_id := checked_succ n\<rparr>)"
      by (rule append_entry_inv [OF inv2 _ n(2) nj(2) _ len]) (simp add: new_entry_def nj(1))
    with ok2 nj(3) have
      "coord_ok outbox (c2\<lparr>jobs := jobs c2 @ [new_entry j True], next_id := checked_succ n\<rparr>)"
      by (auto simp: coord_ok_def)
    then show ?thesis
      using ok n j room now by (simp add: add_pending_def new_job_id_def Let_def c1_def c2_def)
  next
    case False
    then have "snd (add_pending env f sel c) = c \<or> snd (add_pending env f sel c) = c1"
      by (auto simp: add_pending_def new_job_id_def now c1_def Let_def not_le
          split: option.splits sum.splits prod.splits if_splits)
    with ok ok1 show ?thesis by auto
  qed
qed

end

section \<open>Metadata arrives\<close>

lemma pending_index_Ok_iff:
  "pending_index c jid = Ok i \<longleftrightarrow> index c jid = Ok i \<and> metadata_pending (jobs c ! i) \<and>
     meta_of (jobs c ! i) = None \<and> (\<forall>p. st c i p = Waiting \<or> st c i p = Disabled)"
  by (auto simp: pending_index_def list_ex_iff)

lemma set_metadata_entry:
  assumes ok: "entry_ok e" and pend: "metadata_pending e"
    and j: "set_encounter_metadata m (job e) = Ok j"
  shows "entry_ok (e\<lparr>job := j, metadata_pending := False\<rparr>)" and "job_evolves (job e) j"
    and "provider_status j = provider_status (job e)" and "encounter_metadata (snapshot j) = Some m"
proof -
  show st: "provider_status j = provider_status (job e)" and "encounter_metadata (snapshot j) = Some m"
    using j by (auto simp: set_encounter_metadata_def fun_eq_iff split: if_splits)
  show "job_evolves (job e) j" using j by (rule set_encounter_metadata_evolves)
  have idle: "\<not> in_flight (state_of (job e) p)" for p
    using ok pend unfolding entry_ok_def by (metis in_flight_simps(3) in_flight_simps(5))
  have "record_valid (snapshot j)"
    using ok j by (auto simp: entry_ok_def set_encounter_metadata_def record_valid_def split: if_splits)
  then show "entry_ok (e\<lparr>job := j, metadata_pending := False\<rparr>)"
    using j idle by (auto simp: entry_ok_def st set_encounter_metadata_def split: if_splits)
qed

lemma dispatch_waiting_post:
  "dispatch_waiting env i p c = (r, c') \<Longrightarrow> st c i p \<noteq> Waiting \<Longrightarrow> c' = c"
  by (simp add: dispatch_waiting_def)

context recording_env
begin

lemma dispatch_waiting_effect:
  assumes inv: "coord_inv outbox c" and i: "i < length (jobs c)"
    and np: "\<not> metadata_pending (jobs c ! i)" and p: "p \<noteq> DpsReport"
    and d: "dispatch_waiting env i p c = (r, c')"
  shows "coord_inv outbox c'" and "touches i c c'" and "st c' i p \<noteq> Waiting"
    and "\<And>q. q \<noteq> p \<Longrightarrow> st c' i q = st c i q"
proof -
  have "coord_inv outbox c' \<and> touches i c c' \<and> st c' i p \<noteq> Waiting \<and>
      (\<forall>q. q \<noteq> p \<longrightarrow> st c' i q = st c i q)"
  proof (cases "st c i p = Waiting")
    case True
    then have "dispatch env i p c = (r, c')" using d by (simp add: dispatch_waiting_def)
    from dispatch_effect [OF inv i np _ this] True p show ?thesis
      by (simp add: dispatch_post_def)
  next
    case False
    with d inv show ?thesis by (simp add: dispatch_waiting_def)
  qed
  then show "coord_inv outbox c'" "touches i c c'" "st c' i p \<noteq> Waiting"
    "\<And>q. q \<noteq> p \<Longrightarrow> st c' i q = st c i q" by auto
qed

lemma start_dependents_effect:
  assumes inv: "coord_inv outbox c" and i: "i < length (jobs c)"
    and np: "\<not> metadata_pending (jobs c ! i)"
    and w: "dispatch_waiting env i Wingman c = (r1, c1)"
    and d: "dispatch_waiting env i DonBot c1 = (r2, c2)"
  shows "coord_inv outbox c2" and "touches i c c2" and "st c2 i Wingman \<noteq> Waiting"
    and "st c2 i DonBot \<noteq> Waiting" and "st c2 i DpsReport = st c i DpsReport"
    and "st c2 i Twitch = st c i Twitch"
proof -
  note e1 = dispatch_waiting_effect [OF inv i np _ w, simplified]
  have i1: "i < length (jobs c1)" and np1: "\<not> metadata_pending (jobs c1 ! i)"
    using i np touches_length [OF e1(2)] touches_entry [OF e1(2) i] by simp_all
  note e2 = dispatch_waiting_effect [OF e1(1) i1 np1 _ d, simplified]
  show "coord_inv outbox c2" "touches i c c2" "st c2 i Wingman \<noteq> Waiting" "st c2 i DonBot \<noteq> Waiting"
    "st c2 i DpsReport = st c i DpsReport" "st c2 i Twitch = st c i Twitch"
    using e1 e2 touches_trans by auto
qed

lemma start_entry_ok:
  assumes inv: "coord_inv outbox c" and i: "i < length (jobs c)"
    and old: "\<And>k. k < length (jobs c) \<Longrightarrow> k \<noteq> i \<Longrightarrow> calm (jobs c ! k)"
    and np: "\<not> metadata_pending (jobs c ! i)"
    and tw: "reupload_flag (jobs c ! i) \<Longrightarrow> st c i Twitch \<noteq> Waiting"
    and dis: "st c i DpsReport \<noteq> Waiting \<Longrightarrow> st c i Twitch \<noteq> Waiting"
    and r: "(if st c i DpsReport = Waiting then dispatch env i DpsReport c
             else let (wingman, c') = dispatch_waiting env i Wingman c;
                      (donbot, c'') = dispatch_waiting env i DonBot c'
                  in (and_then wingman (\<lambda>_. donbot), c'')) = (r, c3)"
  shows "coord_ok outbox c3"
proof (cases "st c i DpsReport = Waiting")
  case True
  with r have d: "dispatch env i DpsReport c = (r, c3)" by simp
  from dispatch_effect [OF inv i np _ d] True
  have e: "coord_inv outbox c3" "touches i c c3" "dispatch_post i DpsReport c c3" by auto
  show ?thesis
    by (rule coord_ok_entry [OF e(1) old e(2) calm_after_report [OF e(3,2) i tw]])
next
  case False
  obtain r1 c1 where w: "dispatch_waiting env i Wingman c = (r1, c1)" by fastforce
  obtain r2 c2 where d: "dispatch_waiting env i DonBot c1 = (r2, c2)" by fastforce
  note e = start_dependents_effect [OF inv i np w d]
  have [simp]: "c3 = c2" using False r w d by simp
  have "calm (jobs c3 ! i)"
  proof (rule calmI)
    fix q
    show "st c3 i q = Waiting \<Longrightarrow> q \<noteq> DpsReport \<and> in_flight (st c3 i DpsReport)"
      using e False dis by (cases q) auto
    show "reupload_flag (jobs c3 ! i) \<Longrightarrow> st c3 i Twitch \<noteq> Waiting" using e False dis by auto
  qed
  then show ?thesis using coord_ok_entry [OF _ old e(2)] e(1) by auto
qed

lemma set_metadata_ok:
  assumes ok: "coord_ok outbox c"
  shows "coord_ok outbox (snd (set_metadata env jid m c))"
proof (cases "stopping c \<or> (\<forall>i. pending_index c jid \<noteq> Ok i)")
  case True
  with ok show ?thesis by (auto simp: set_metadata_def split: sum.splits)
next
  case False
  then obtain i where p: "pending_index c jid = Ok i" and run: "\<not> stopping c" by auto
  have inv: "coord_inv outbox c" using ok by (simp add: coord_ok_def)
  from p have i: "i < length (jobs c)" and pend: "metadata_pending (jobs c ! i)"
    and none: "meta_of (jobs c ! i) = None" and wd: "\<And>q. st c i q = Waiting \<or> st c i q = Disabled"
    using index_Ok [of c jid i] by (auto simp: pending_index_Ok_iff)
  obtain j where j: "set_encounter_metadata m (job (jobs c ! i)) = Ok j"
    using none by (simp add: set_encounter_metadata_def)
  define c1 where "c1 = set_entry i ((jobs c ! i)\<lparr>job := j, metadata_pending := False\<rparr>) c"
  have ok_i: "entry_ok (jobs c ! i)" using inv i by (rule inv_entry_ok)
  note sm = set_metadata_entry [OF ok_i pend j]
  have inv1: "coord_inv outbox c1"
    unfolding c1_def by (rule set_entry_inv [OF inv i]) (use sm in simp_all)
  have i1: "i < length (jobs c1)" and np1: "\<not> metadata_pending (jobs c1 ! i)"
    and re1: "reupload_flag (jobs c1 ! i) = reupload_flag (jobs c ! i)"
    using i by (simp_all add: c1_def)
  have s1: "st c1 i q = st c i q" for q
    using i sm(3) by (simp add: c1_def) (simp add: st_def)
  have calm1: "calm (jobs c1 ! k)" if "k < length (jobs c1)" "k \<noteq> i" for k
    using that coord_ok_calm [OF ok, of k] by (simp add: c1_def)
  obtain skipped c2 where sk: "(if st c1 i Wingman = Waiting \<and> is_wvw c1 i
      then skip_wingman i c1 else (Ok (), c1)) = (skipped, c2)" by fastforce
  have two: "coord_inv outbox c2 \<and> inert i c1 c2 \<and> is_ok skipped \<and>
      (\<forall>q. q \<noteq> Wingman \<longrightarrow> st c2 i q = st c1 i q)"
    using sk skip_wingman_effect [OF inv1 i1 np1, of skipped c2] inv1 by (auto split: if_splits)
  then obtain u where u: "skipped = Ok u" by (auto simp: is_ok_iff)
  have inert: "inert i c1 c2" and inv2: "coord_inv outbox c2"
    and s2: "\<And>q. q \<noteq> Wingman \<Longrightarrow> st c2 i q = st c i q" using two s1 by auto
  note n2 = inert_entry [OF inert i1]
  obtain r c3 where r: "(if st c2 i DpsReport = Waiting then dispatch env i DpsReport c2
      else let (wingman, c') = dispatch_waiting env i Wingman c2;
               (donbot, c'') = dispatch_waiting env i DonBot c'
           in (and_then wingman (\<lambda>_. donbot), c'')) = (r, c3)" by fastforce
  have tw: "st c i Twitch = Waiting \<Longrightarrow> st c i DpsReport = Waiting"
    using ok_i pend wd by (auto simp: entry_ok_def st_def)
  have calm2: "calm (jobs c2 ! k)" if "k < length (jobs c2)" "k \<noteq> i" for k
    using that calm1 touches_other [OF inert_touches [OF inert]] touches_length [OF inert_touches [OF inert]]
    by simp
  have "coord_ok outbox c3"
    by (rule start_entry_ok [OF inv2 n2(1) calm2 _ _ _ r])
      (use np1 n2 s2 tw re1 coord_ok_calm [OF ok i] in \<open>auto simp: calm_def st_def\<close>)
  then have "coord_ok outbox (trim_to (coord_limit c3) c3)" by (rule trim_ok)
  then show ?thesis
    using run p j sk r u by (simp add: set_metadata_def c1_def [symmetric])
qed

end

section \<open>Metadata does not arrive\<close>

lemma set_job_same [simp]: "set_job i (job (jobs c ! i)) c = c"
  by (simp add: set_job_def set_entry_def)

lemma set_job_twice [simp]:
  "i < length (jobs c) \<Longrightarrow> set_job i k (set_job i j c) = set_job i k c"
  by (simp add: set_job_def set_entry_def)

lemma fail_waiting_effect:
  assumes "i < length (jobs c)" and "\<forall>p. st c i p = Waiting \<or> \<not> is_busy (st c i p)"
  shows "\<exists>j. fail_waiting i cn ps c = (Ok (), set_job i j c) \<and> job_evolves (job (jobs c ! i)) j \<and>
     encounter_metadata (snapshot j) = meta_of (jobs c ! i) \<and>
     (record_valid (snapshot (job (jobs c ! i))) \<longrightarrow> record_valid (snapshot j)) \<and>
     (\<forall>q. state_of j q = (if q \<in> set ps \<and> st c i q = Waiting
        then if cn then Cancelled else Failed else st c i q))"
  using assms
proof (induction ps arbitrary: c)
  case Nil
  show ?case by (rule exI [of _ "job (jobs c ! i)"]) (simp add: st_def)
next
  case (Cons p ps)
  show ?case
  proof (cases "st c i p = Waiting")
    case True
    define nxt where "nxt = (if cn then Cancelled else Failed)"
    have pl: "plain nxt" by (simp add: nxt_def)
    from True have "allows (state_of (job (jobs c ! i)) p) nxt" by (simp add: st_def nxt_def)
    then obtain j1 where t: "transition p nxt ''Encounter metadata unavailable'' (job (jobs c ! i)) = Ok j1"
      using transition_plain [OF pl] by blast
    define c1 where "c1 = set_job i j1 c"
    have s1: "st c1 i q = (if q = p then nxt else st c i q)" for q
      using Cons.prems(1) transition_status [OF t, of q] by (simp add: c1_def) (simp add: st_def)
    have w1: "\<forall>q. st c1 i q = Waiting \<or> \<not> is_busy (st c1 i q)"
      using Cons.prems(2) by (simp add: s1 nxt_def)
    have i1: "i < length (jobs c1)" using Cons.prems(1) by (simp add: c1_def)
    from Cons.IH [OF i1 w1] obtain j where j: "fail_waiting i cn ps c1 = (Ok (), set_job i j c1)"
      "job_evolves j1 j" "encounter_metadata (snapshot j) = encounter_metadata (snapshot j1)"
      "record_valid (snapshot j1) \<longrightarrow> record_valid (snapshot j)"
      "\<forall>q. state_of j q = (if q \<in> set ps \<and> st c1 i q = Waiting
        then if cn then Cancelled else Failed else st c1 i q)"
      using Cons.prems(1) by (auto simp: c1_def)
    have "fail_waiting i cn (p # ps) c = (Ok (), set_job i j c)"
      using True t j(1) Cons.prems(1) by (simp add: nxt_def c1_def)
    moreover have "job_evolves (job (jobs c ! i)) j"
      using transition_evolves [OF t] j(2) by (rule job_evolves_trans)
    moreover have "encounter_metadata (snapshot j) = meta_of (jobs c ! i)"
      using j(3) transition_frame [OF t] by simp
    moreover have "record_valid (snapshot (job (jobs c ! i))) \<longrightarrow> record_valid (snapshot j)"
      using j(4) transition_record_valid [OF _ t] by blast
    moreover have "state_of j q = (if q \<in> set (p # ps) \<and> st c i q = Waiting
        then if cn then Cancelled else Failed else st c i q)" for q
      using j(5) True by (simp add: s1 nxt_def)
    ultimately show ?thesis by blast
  next
    case False
    then have "fail_waiting i cn (p # ps) c = fail_waiting i cn ps c"
      and "\<And>q. (q \<in> set (p # ps) \<and> st c i q = Waiting) = (q \<in> set ps \<and> st c i q = Waiting)" by auto
    then show ?thesis using Cons.IH [OF Cons.prems] by presburger
  qed
qed

lemma fail_metadata_ok:
  assumes ok: "coord_ok outbox c"
  shows "coord_ok outbox (snd (fail_metadata jid cn c))"
proof (cases "stopping c \<or> (\<forall>i. pending_index c jid \<noteq> Ok i)")
  case True
  with ok show ?thesis by (auto simp: fail_metadata_def split: sum.splits)
next
  case False
  then obtain i where p: "pending_index c jid = Ok i" and run: "\<not> stopping c" by auto
  from p have i: "i < length (jobs c)" and none: "meta_of (jobs c ! i) = None"
    and wd: "\<And>q. st c i q = Waiting \<or> st c i q = Disabled"
    using index_Ok [of c jid i] by (auto simp: pending_index_Ok_iff)
  have inv: "coord_inv outbox c" using ok by (simp add: coord_ok_def)
  define e where "e = (jobs c ! i)\<lparr>metadata_pending := False\<rparr>"
  define c1 where "c1 = set_entry i e c"
  have s1: "st c1 i q = st c i q" for q using i by (simp add: c1_def e_def) (simp add: st_def)
  have i1: "i < length (jobs c1)" using i by (simp add: c1_def)
  have job1: "job (jobs c1 ! i) = job (jobs c ! i)" using i by (simp add: c1_def e_def)
  have "\<forall>q. st c1 i q = Waiting \<or> \<not> is_busy (st c1 i q)"
    using wd s1 by (metis is_busy.simps(4))
  from fail_waiting_effect [OF i1 this, of cn all_providers] obtain j where
    f: "fail_waiting i cn all_providers c1 = (Ok (), set_job i j c1)"
      "job_evolves (job (jobs c ! i)) j" "encounter_metadata (snapshot j) = None"
      "record_valid (snapshot (job (jobs c ! i))) \<longrightarrow> record_valid (snapshot j)"
      "\<forall>q. state_of j q = (if st c i q = Waiting then if cn then Cancelled else Failed else st c i q)"
    unfolding job1 s1 none by auto
  have idle: "\<not> is_busy (state_of j q)" for q
    using f(5) wd [of q] by auto
  have "entry_ok (e\<lparr>job := j\<rparr>)"
    using inv_entry_ok [OF inv i] f(3,4) idle in_flight_busy by (auto simp: entry_ok_def e_def)
  moreover have eq: "set_job i j c1 = set_entry i (e\<lparr>job := j\<rparr>) c"
    using i by (simp add: c1_def set_job_def) (simp add: set_entry_def)
  ultimately have inv2: "coord_inv outbox (set_job i j c1)"
    using set_entry_inv [OF inv i, of "e\<lparr>job := j\<rparr>"] f(2) by simp
  have "calm (e\<lparr>job := j\<rparr>)" using f(3) idle [of Twitch] by (auto simp: calm_def)
  then have "coord_ok outbox (set_job i j c1)"
    using inv2 ok by (auto simp: eq coord_ok_def set_entry_def dest!: set_update_subset_insert [THEN subsetD])
  then show ?thesis
    using run p f(1) trim_ok by (simp add: fail_metadata_def c1_def e_def)
qed

section \<open>A result arrives\<close>

text \<open>What the job looks like when a result has been settled.\<close>

definition settled_as :: "provider \<Rightarrow> upload_job \<Rightarrow> provider_state \<Rightarrow> upload_job \<Rightarrow> bool" where
  "settled_as p j nxt j' \<longleftrightarrow>
     job_evolves j j' \<and> encounter_metadata (snapshot j') = encounter_metadata (snapshot j) \<and>
     (record_valid (snapshot j) \<longrightarrow> record_valid (snapshot j')) \<and>
     (\<forall>q. state_of j' q = (if q = p then nxt else state_of j q)) \<and>
     (if p = DpsReport \<and> nxt = Succeeded then dps_report_result (snapshot j') \<noteq> None
      else dps_report_result (snapshot j') = dps_report_result (snapshot j)) \<and>
     nxt \<noteq> Active \<and> nxt \<noteq> Waiting \<and> nxt \<noteq> Disabled"

text \<open>Recording a receipt leaves every state but that of a completed report.\<close>

definition receipted :: "upload_job \<Rightarrow> upload_job \<Rightarrow> bool" where
  "receipted j j' \<longleftrightarrow>
     job_evolves j j' \<and> encounter_metadata (snapshot j') = encounter_metadata (snapshot j) \<and>
     (record_valid (snapshot j) \<longrightarrow> record_valid (snapshot j')) \<and>
     provider_status j' = provider_status j \<and>
     dps_report_result (snapshot j') = dps_report_result (snapshot j)"

lemma receipted_refl [simp]: "receipted j j"
  by (simp add: receipted_def)

lemma record_twitch_receipted: "record_twitch_delivery r j = Ok j' \<Longrightarrow> receipted j j'"
  by (frule record_twitch_delivery_evolves)
    (auto simp: receipted_def record_twitch_delivery_def record_valid_def fun_eq_iff split: if_splits)

lemma record_wingman_receipted: "record_wingman_upload r j = Ok j' \<Longrightarrow> receipted j j'"
  by (frule record_wingman_upload_evolves)
    (auto simp: receipted_def record_wingman_upload_def record_valid_def fun_eq_iff split: if_splits)

lemma record_donbot_receipted: "record_donbot_upload r j = Ok j' \<Longrightarrow> receipted j j'"
  by (frule record_donbot_upload_evolves)
    (auto simp: receipted_def record_donbot_upload_def record_valid_def fun_eq_iff split: if_splits)

lemma record_success_Ok:
  assumes "record_success p s d j = Ok j'"
  shows "(if p = DpsReport then settled_as DpsReport j Succeeded j' else receipted j j')"
  using assms
  by (cases p; cases s)
    (auto simp: record_success_def settled_as_def split: option.splits
      intro: record_twitch_receipted record_wingman_receipted record_donbot_receipted
        complete_dps_report_evolves,
     auto simp: complete_dps_report_def record_valid_def split: if_splits)

lemma transition_settles:
  assumes t: "transition p nxt d j = Ok j'" and n: "nxt \<noteq> Active" "nxt \<noteq> Waiting" "nxt \<noteq> Disabled"
  shows "settled_as p j nxt j'"
  using transition_evolves [OF t] transition_frame [OF t] transition_record_valid [OF _ t]
    transition_status [OF t] n t
  by (auto simp: settled_as_def transition_def Let_def split: if_splits)

lemma receipted_settles:
  assumes "receipted j j1" and "settled_as p j1 nxt j2" and "\<not> (p = DpsReport \<and> nxt = Succeeded)"
  shows "settled_as p j nxt j2"
  using assms job_evolves_trans [of j j1 j2] by (auto simp: settled_as_def receipted_def)

lemma next_state_Ok:
  assumes "next_state env p out j w = (Ok (nxt, j'), w')"
  shows "(if p = DpsReport \<and> nxt = Succeeded then settled_as p j nxt j' else receipted j j') \<and>
     nxt \<noteq> Active \<and> nxt \<noteq> Waiting \<and> nxt \<noteq> Disabled"
  using assms
  by (auto simp: next_state_def Let_def split: upload_outcome.splits if_splits prod.splits
      dest: record_success_Ok record_twitch_receipted)

lemma settle_job_Ok:
  assumes "settle_job env p out j w = (Ok (nxt, j'), w')"
  shows "settled_as p j nxt j'"
proof -
  obtain r w1 where n: "next_state env p out j w = (r, w1)" by fastforce
  with assms obtain nx j1 where r: "r = Ok (nx, j1)"
    by (cases r) (auto simp: settle_job_def)
  note ns = next_state_Ok [OF n [unfolded r]]
  show ?thesis
  proof (cases "p = DpsReport \<and> nx = Succeeded")
    case True
    with assms n r ns show ?thesis by (auto simp: settle_job_def)
  next
    case False
    with assms n r obtain d where "nx = nxt" "transition p nxt d j1 = Ok j'"
      by (auto simp: settle_job_def split: if_splits)
    with ns False show ?thesis using receipted_settles transition_settles by auto
  qed
qed

lemma settled_entry_ok:
  assumes ok: "entry_ok e" and np: "\<not> metadata_pending e" and act: "state_of (job e) p = Active"
    and s: "settled_as p (job e) nxt j"
  shows "entry_ok (e\<lparr>job := j\<rparr>)"
proof -
  have "\<not> is_busy (state_of (job e) p)" if "meta_of e = None"
    using ok np that by (simp add: entry_ok_def)
  then have "meta_of e \<noteq> None" using act by auto
  then have meta: "encounter_metadata (snapshot j) = meta_of e" "meta_of e \<noteq> None"
    and sts: "\<And>q. state_of j q = (if q = p then nxt else state_of (job e) q)"
    using s by (auto simp: settled_as_def)
  have dep: "q = Twitch \<or> dep_met j q" if "in_flight (state_of j q)" for q
  proof -
    have "in_flight (state_of (job e) q)" using that act sts by (auto split: if_splits)
    then have "q = Twitch \<or> dep_met (job e) q" using ok by (auto simp: entry_ok_def)
    then show ?thesis using act s by (auto simp: dep_met_def settled_as_def)
  qed
  have "\<not> in_flight (state_of j Wingman)" if "entry_is_wvw e"
    using ok that act sts by (auto simp: entry_ok_def)
  then show ?thesis
    using ok np meta dep s entry_is_wvw_job [OF meta(1)] by (auto simp: entry_ok_def settled_as_def)
qed

lemma settled_inv:
  assumes inv: "coord_inv outbox c" and i: "i < length (jobs c)" and act: "st c i p = Active"
    and s: "settled_as p (job (jobs c ! i)) nxt j"
  shows "coord_inv outbox (set_job i j c)" and "\<not> metadata_pending (jobs c ! i)"
    and "touches i c (set_job i j c)"
proof -
  have ok: "entry_ok (jobs c ! i)" using inv i by (rule inv_entry_ok)
  show np: "\<not> metadata_pending (jobs c ! i)"
    using ok act by (auto simp: entry_ok_def st_def dest!: spec [of _ p])
  show "coord_inv outbox (set_job i j c)"
    by (rule set_job_inv [OF inv i]) (use s settled_entry_ok [OF ok np _ s] act in \<open>auto simp: settled_as_def st_def\<close>)
  show "touches i c (set_job i j c)"
    by (rule touches_set_job) (use s in \<open>auto simp: settled_as_def\<close>)
qed

context recording_env
begin

lemma next_state_world:
  "next_state env p out j w = (r, w') \<Longrightarrow> outbox w' = outbox w"
  by (auto simp: next_state_def Let_def split: upload_outcome.splits if_splits prod.splits
      dest: sent_steady_now)

lemma settle_job_world: "settle_job env p out j w = (r, w') \<Longrightarrow> outbox w' = outbox w"
  by (auto simp: settle_job_def split: prod.splits dest: next_state_world)

lemma release_effect:
  assumes inv: "coord_inv outbox c" and i: "i < length (jobs c)"
    and np: "\<not> metadata_pending (jobs c ! i)" and p: "p \<noteq> DpsReport"
    and tw: "p = Twitch \<Longrightarrow> reupload_flag (jobs c ! i) \<Longrightarrow> st c i Twitch \<noteq> Waiting"
    and c': "c' = release_dependent env i p c"
  shows "coord_inv outbox c'" and "touches i c c'" and "st c' i p \<noteq> Waiting"
    and "\<And>q. q \<noteq> p \<Longrightarrow> st c' i q = st c i q"
proof -
  obtain r c1 where d: "dispatch_waiting env i p c = (r, c1)" by fastforce
  note e = dispatch_waiting_effect [OF inv i np p d]
  show "coord_inv outbox c'" "touches i c c'" "st c' i p \<noteq> Waiting"
    "\<And>q. q \<noteq> p \<Longrightarrow> st c' i q = st c i q"
    using e inv tw by (auto simp: c' release_dependent_def d)
qed

lemma release_all_effect:
  assumes inv: "coord_inv outbox c" and i: "i < length (jobs c)"
    and np: "\<not> metadata_pending (jobs c ! i)"
    and tw: "reupload_flag (jobs c ! i) \<Longrightarrow> st c i Twitch \<noteq> Waiting"
    and c': "c' = fold (release_dependent env i) dependents c"
  shows "coord_inv outbox c'" and "touches i c c'" and "q \<noteq> DpsReport \<Longrightarrow> st c' i q \<noteq> Waiting"
    and "st c' i DpsReport = st c i DpsReport"
proof -
  define c1 where "c1 = release_dependent env i Wingman c"
  define c2 where "c2 = release_dependent env i DonBot c1"
  have c3: "c' = release_dependent env i Twitch c2" by (simp add: c' c1_def c2_def dependents_def)
  note e1 = release_effect [OF inv i np _ _ c1_def, simplified]
  have i1: "i < length (jobs c1)" and np1: "\<not> metadata_pending (jobs c1 ! i)"
    and re1: "reupload_flag (jobs c1 ! i) = reupload_flag (jobs c ! i)"
    using i np touches_length [OF e1(2)] touches_entry [OF e1(2) i] by simp_all
  note e2 = release_effect [OF e1(1) i1 np1 _ _ c2_def, simplified]
  have i2: "i < length (jobs c2)" and np2: "\<not> metadata_pending (jobs c2 ! i)"
    and re2: "reupload_flag (jobs c2 ! i) = reupload_flag (jobs c ! i)"
    using i1 np1 re1 touches_length [OF e2(2)] touches_entry [OF e2(2) i1] by simp_all
  have tw2: "reupload_flag (jobs c2 ! i) \<Longrightarrow> st c2 i Twitch \<noteq> Waiting"
    using tw re2 e1(4) e2(4) by simp
  note e3 = release_effect [OF e2(1) i2 np2 _ tw2 c3, simplified]
  show "coord_inv outbox c'" by (rule e3(1))
  show "touches i c c'" using e1(2) e2(2) e3(2) by (blast intro: touches_trans)
  show "q \<noteq> DpsReport \<Longrightarrow> st c' i q \<noteq> Waiting" using e1(3,4) e2(3,4) e3(3,4) by (cases q) auto
  show "st c' i DpsReport = st c i DpsReport" using e1(4) e2(4) e3(4) by simp
qed

end

context recording_env
begin

lemma apply_result_ok:
  assumes ok: "coord_ok outbox c"
  shows "coord_ok outbox (snd (apply_result env r c))"
proof -
  have inv: "coord_inv outbox c" using ok by (simp add: coord_ok_def)
  define p where "p = result_provider r"
  show ?thesis
  proof (cases "\<exists>i nxt j w. \<not> stopping c \<and> index c (result_job_id r) = Ok i \<and> st c i p = Active \<and>
      attempts (provider_status (job (jobs c ! i)) p) = result_attempt r \<and>
      settle_job env p (result_outcome r) (job (jobs c ! i)) (world c) = (Ok (nxt, j), w)")
    case False
    have "snd (apply_result env r c) = c \<or>
      (\<exists>w. outbox w = outbox (world c) \<and> snd (apply_result env r c) = c\<lparr>world := w\<rparr>)"
      using False by (auto simp: apply_result_def p_def st_def Let_def dest: settle_job_world
          split: sum.split prod.split)
    then show ?thesis using ok world_ok by auto
  next
    case True
    then obtain i nxt j w where run: "\<not> stopping c" and idx: "index c (result_job_id r) = Ok i"
      and act: "st c i p = Active"
      and att: "attempts (provider_status (job (jobs c ! i)) p) = result_attempt r"
      and settle: "settle_job env p (result_outcome r) (job (jobs c ! i)) (world c) = (Ok (nxt, j), w)"
      by blast
    from index_Ok [OF idx] have i: "i < length (jobs c)" by simp
    define c0 where "c0 = c\<lparr>world := w\<rparr>"
    define c1 where "c1 = set_job i j c0"
    have ok0: "coord_ok outbox c0"
      unfolding c0_def using ok settle_job_world [OF settle] by (rule world_ok)
    have inv0: "coord_inv outbox c0" using ok0 by (simp add: coord_ok_def)
    have i0: "i < length (jobs c0)" and act0: "st c0 i p = Active" and e0: "jobs c0 ! i = jobs c ! i"
      using i act by (simp_all add: c0_def st_def)
    note s = settle_job_Ok [OF settle, folded e0]
    note s1 = settled_inv [OF inv0 i0 act0 s, folded c1_def]
    have i1: "i < length (jobs c1)" and np1: "\<not> metadata_pending (jobs c1 ! i)"
      and re1: "reupload_flag (jobs c1 ! i) = reupload_flag (jobs c0 ! i)"
      using i0 s1(2) by (simp_all add: c1_def)
    have st1: "st c1 i q = (if q = p then nxt else st c0 i q)" for q
      using i0 s by (simp add: c1_def settled_as_def) (simp add: st_def)
    have n: "nxt \<noteq> Waiting" "nxt \<noteq> Active" "nxt \<noteq> Disabled" using s by (simp_all add: settled_as_def)
    have "\<not> is_busy (st c0 i p)" if "meta_of (jobs c0 ! i) = None"
      using inv_entry_ok [OF inv0 i0] s1(2) that by (simp add: entry_ok_def st_def)
    then have meta: "meta_of (jobs c0 ! i) \<noteq> None" using act0 by auto
    note calm0 = calm_st [OF coord_ok_calm [OF ok0 i0] meta]
    have tw1: "reupload_flag (jobs c1 ! i) \<Longrightarrow> st c1 i Twitch \<noteq> Waiting"
      using calm0(2) re1 n by (simp add: st1)
    define c2 where "c2 = (if p = DpsReport
        then if nxt = Succeeded then fold (release_dependent env i) dependents c1
          else if nxt = Failed \<or> nxt = Skipped \<or> nxt = Cancelled
          then settle_dependents i (nxt = Cancelled) c1 else c1
        else c1)"
    note rel = release_all_effect [OF s1(1) i1 np1 tw1 refl]
    note set = settle_dependents_effect [OF s1(1) i1 np1 refl, of "nxt = Cancelled"]
    have inv2: "coord_inv outbox c2" and t2: "touches i c1 c2"
      using rel(1,2) set(1,2) s1(1) by (auto simp: c2_def inert_touches)
    have "calm (jobs c2 ! i)"
    proof (rule calmI)
      fix q
      show "st c2 i q = Waiting \<Longrightarrow> q \<noteq> DpsReport \<and> in_flight (st c2 i DpsReport)"
        using rel(3,4) set(3) [unfolded settles_def, rule_format, of q]
          set(3) [unfolded settles_def, rule_format, of DpsReport] calm0(1) [of q] n tw1
        by (cases "p = DpsReport"; cases nxt; cases "q = DpsReport") (auto simp: c2_def st1 split: if_splits)
      show "reupload_flag (jobs c2 ! i) \<Longrightarrow> st c2 i Twitch \<noteq> Waiting"
        using rel(3) set(3) [unfolded settles_def, rule_format, of Twitch] tw1
          touches_entry(3) [OF t2 i1] by (auto simp: c2_def split: if_splits)
    qed
    then have "coord_ok outbox c2"
      using coord_ok_entry [OF inv2 _ touches_trans [OF s1(3) t2]] coord_ok_calm [OF ok0] by auto
    then have "coord_ok outbox (trim_to (coord_limit c2) c2)" by (rule trim_ok)
    moreover have "apply_result env r c = (Ok (), trim_to (coord_limit c2) c2)"
      using run idx act att settle unfolding c2_def c1_def c0_def
      by (simp add: apply_result_def p_def [symmetric] st_def Let_def del: if_split)
    ultimately show ?thesis by simp
  qed
qed

end

section \<open>Draining and retrying\<close>

lemma cursor_ok: "coord_ok outbox c \<Longrightarrow> k < 4 \<Longrightarrow> coord_ok outbox (c\<lparr>result_cursor := k\<rparr>)"
  by (simp add: coord_ok_def coord_inv_def ids_ok_def sent_ok_def below_next_def)

context recording_env
begin

lemma poll_provider_ok:
  assumes "coord_ok outbox c" and "poll_provider env c = (r, p, c')"
  shows "coord_ok outbox c'"
proof -
  define c1 where "c1 = c\<lparr>result_cursor := (result_cursor c + 1) mod length all_providers\<rparr>"
  have "coord_ok outbox c1"
    unfolding c1_def using assms(1) by (rule cursor_ok) (simp add: all_providers_def)
  moreover have "c' = c1 \<or> (\<exists>w. outbox w = outbox (world c1) \<and> c' = c1\<lparr>world := w\<rparr>)"
    using assms(2) by (auto simp: poll_provider_def c1_def Let_def dest: sent_take
        split: if_splits prod.splits)
  ultimately show ?thesis using world_ok by auto
qed

lemma accept_result_ok: "coord_ok outbox c \<Longrightarrow> accept_result env p r c = (b, c') \<Longrightarrow> coord_ok outbox c'"
  using apply_result_ok [of c r]
  by (auto simp: accept_result_def Let_def split: if_splits prod.splits)

lemma drain_loop_ok:
  "ev = env \<Longrightarrow> coord_ok outbox c \<Longrightarrow> coord_ok outbox (snd (drain_loop ev mx s emp c))"
proof (induction ev mx s emp c rule: drain_loop.induct)
  case (1 ev mx s emp c)
  show ?case
  proof (cases "consumed s < mx \<and> emp < length all_providers")
    case True
    obtain r p c1 where poll: "poll_provider ev c = (r, p, c1)" by (metis prod_cases3)
    with 1(4,5) have ok1: "coord_ok outbox c1" by (auto intro: poll_provider_ok)
    consider (got) x where "r = Ok (Some x)" | (none) "r = Ok None" | (err) e where "r = Err e"
      by (cases r) auto
    then show ?thesis
    proof cases
      case got
      obtain b c2 where acc: "accept_result ev p x c1 = (b, c2)" by fastforce
      with ok1 1(4) have "coord_ok outbox c2" by (auto intro: accept_result_ok)
      with 1(3) [OF True poll [symmetric] got refl refl refl acc [symmetric] 1(4)] poll got acc True
      show ?thesis by (subst drain_loop.simps) simp
    next
      case none
      with 1(2) [OF True poll [symmetric] none refl refl 1(4) ok1] poll True
      show ?thesis by (subst drain_loop.simps) simp
    next
      case err
      with 1(1) [OF True poll [symmetric] err refl 1(4) ok1] poll True
      show ?thesis by (subst drain_loop.simps) simp
    qed
  qed (subst drain_loop.simps, use 1 in auto)
qed

lemma drain_results_ok: "coord_ok outbox c \<Longrightarrow> coord_ok outbox (snd (drain_results env mx c))"
  by (simp add: drain_results_def drain_loop_ok)

text \<open>A retry whose time has come.\<close>

lemma dispatch_live_ok:
  assumes ok: "coord_ok outbox c" and i: "i < length (jobs c)" and s: "st c i p = RetryScheduled t"
  shows "coord_ok outbox (snd (dispatch env i p c))"
    and "length (jobs (snd (dispatch env i p c))) = length (jobs c)"
proof -
  have inv: "coord_inv outbox c" using ok by (simp add: coord_ok_def)
  have eok: "entry_ok (jobs c ! i)" using inv i by (rule inv_entry_ok)
  have np: "\<not> metadata_pending (jobs c ! i)"
    using eok s by (auto simp: entry_ok_def st_def dest!: spec [of _ p])
  have "\<not> is_busy (st c i p)" if "meta_of (jobs c ! i) = None"
    using eok np that by (simp add: entry_ok_def st_def)
  then have meta: "meta_of (jobs c ! i) \<noteq> None" using s by auto
  note calm = calm_st [OF coord_ok_calm [OF ok i] meta]
  obtain r c' where d: "dispatch env i p c = (r, c')" by fastforce
  have "allows (st c i p) Active" using s by simp
  from dispatch_effect [OF inv i np this d]
  have e: "coord_inv outbox c'" "touches i c c'" "dispatch_post i p c c'" by auto
  have "calm (jobs c' ! i)"
  proof (cases "p = DpsReport")
    case True
    then show ?thesis using calm_after_report [OF _ e(2) i calm(2)] e(3) by simp
  next
    case False
    then show ?thesis using calm_after_other [OF e(3,2) i False] calm by auto
  qed
  then have "coord_ok outbox c'"
    using coord_ok_entry [OF e(1) _ e(2)] coord_ok_calm [OF ok] by auto
  then show "coord_ok outbox (snd (dispatch env i p c))"
    and "length (jobs (snd (dispatch env i p c))) = length (jobs c)"
    using touches_length [OF e(2)] by (simp_all add: d)
qed

lemma retry_loop_ok:
  assumes "coord_ok outbox c" and "\<forall>(i, p) \<in> set todo. i < length (jobs c)"
  shows "coord_ok outbox (snd (retry_loop env now mx todo n c))"
  using assms
proof (induction todo arbitrary: n c)
  case (Cons ip todo)
  obtain i p where ip: "ip = (i, p)" by fastforce
  show ?case
  proof (cases "\<exists>t. st c i p = RetryScheduled t \<and> t \<le> now \<and> n \<noteq> mx")
    case True
    then obtain t where t: "st c i p = RetryScheduled t" "t \<le> now" "n \<noteq> mx" by blast
    from Cons.prems ip have i: "i < length (jobs c)" by simp
    note d = dispatch_live_ok [OF Cons.prems(1) i t(1)]
    show ?thesis
      using Cons.IH [OF d(1), of "n + 1"] Cons.prems(2) d(2) t by (simp add: ip)
  next
    case False
    with Cons show ?thesis by (auto simp: ip split: provider_state.splits)
  qed
qed simp

lemma dispatch_due_retries_ok:
  assumes ok: "coord_ok outbox c"
  shows "coord_ok outbox (snd (dispatch_due_retries env mx c))"
proof -
  obtain now w where now: "env_steady_now env (world c) = (now, w)" by fastforce
  have "coord_ok outbox (c\<lparr>world := w\<rparr>)"
    using ok sent_steady_now [OF now] by (rule world_ok)
  then have "coord_ok outbox (snd (retry_loop env now mx (retry_order (length (jobs c))) 0 (c\<lparr>world := w\<rparr>)))"
    by (rule retry_loop_ok) (auto simp: retry_order_def)
  then show ?thesis
    using ok trim_ok by (auto simp: dispatch_due_retries_def now split: prod.split)
qed

end

section \<open>Explicit delivery\<close>

text \<open>A job whose user asked for a delivery again: some destinations wait anew.\<close>

definition rearmed :: "upload_job \<Rightarrow> upload_job \<Rightarrow> bool" where
  "rearmed j j' \<longleftrightarrow>
     job_evolves j j' \<and> encounter_metadata (snapshot j') = encounter_metadata (snapshot j) \<and>
     encounter_metadata (snapshot j) \<noteq> None \<and>
     (record_valid (snapshot j) \<longrightarrow> record_valid (snapshot j')) \<and>
     (\<forall>q. state_of j' q = state_of j q \<or> state_of j' q = Waiting) \<and>
     (state_of j' DpsReport = state_of j DpsReport \<and>
        dps_report_result (snapshot j') = dps_report_result (snapshot j) \<or>
      \<not> in_flight (state_of j Wingman) \<and> \<not> in_flight (state_of j DonBot))"

lemma rearmed_entry_ok:
  assumes ok: "entry_ok e" and r: "rearmed (job e) j"
  shows "\<not> metadata_pending e" and "entry_ok (e\<lparr>job := j, intents := x, reupload_flag := b\<rparr>)"
proof -
  show np: "\<not> metadata_pending e" using ok r by (auto simp: entry_ok_def rearmed_def)
  have fl: "in_flight (state_of (job e) q)" if "in_flight (state_of j q)" for q
    using that r unfolding rearmed_def by (metis in_flight_simps(3))
  have dep: "q = Twitch \<or> dep_met j q" if "in_flight (state_of j q)" for q
  proof (cases "q = Wingman \<or> q = DonBot")
    case True
    with fl [OF that] have "dep_met (job e) q" using ok by (auto simp: entry_ok_def)
    with fl [OF that] True r show ?thesis by (auto simp: rearmed_def dep_met_def)
  qed (cases q, auto simp: dep_met_def)
  have "entry_is_wvw (e\<lparr>job := j, intents := x, reupload_flag := b\<rparr>) = entry_is_wvw e"
    using r by (simp add: entry_is_wvw_def rearmed_def)
  then show "entry_ok (e\<lparr>job := j, intents := x, reupload_flag := b\<rparr>)"
    using ok r np dep fl by (auto simp: entry_ok_def rearmed_def)
qed

lemma rearmed_inv:
  assumes inv: "coord_inv outbox c" and i: "i < length (jobs c)" and r: "rearmed (job (jobs c ! i)) j"
  shows "coord_inv outbox (set_entry i ((jobs c ! i)\<lparr>job := j, intents := x, reupload_flag := b\<rparr>) c)"
  by (rule set_entry_inv [OF inv i])
    (use r rearmed_entry_ok(2) [OF inv_entry_ok [OF inv i] r] in \<open>auto simp: rearmed_def\<close>)

lemma prepare_explicit_Ok:
  assumes "prepare_explicit_delivery p j = Ok j'"
  shows "job_evolves j j'" and "\<not> is_busy (state_of j p)" and "encounter_metadata (snapshot j) \<noteq> None"
    and "encounter_metadata (snapshot j') = encounter_metadata (snapshot j)"
    and "record_valid (snapshot j) \<Longrightarrow> record_valid (snapshot j')"
    and "state_of j' q = (if q = p then Waiting else state_of j q)"
    and "p \<noteq> DpsReport \<Longrightarrow> dps_report_result (snapshot j') = dps_report_result (snapshot j)"
  using assms prepare_explicit_delivery_evolves [OF assms]
  by (auto simp: prepare_explicit_delivery_def Let_def record_valid_def split: if_splits)

lemma idle_not_in_flight: "\<not> is_busy s \<Longrightarrow> \<not> in_flight s"
  by (simp add: in_flight_def)

lemma idle_not_waiting: "\<not> is_busy s \<Longrightarrow> s \<noteq> Waiting"
  by auto

lemma reupload_job_Ok:
  assumes "reupload_job j = Ok j'"
  shows "rearmed j j'" and "\<not> is_busy (state_of j DpsReport)"
    and "state_of j' q = (if q = Twitch then state_of j q else Waiting)"
proof -
  from assms obtain j1 j2 where a: "prepare_explicit_delivery DpsReport j = Ok j1"
    and b: "prepare_explicit_delivery Wingman j1 = Ok j2"
    and c: "prepare_explicit_delivery DonBot j2 = Ok j'" by (auto simp: reupload_job_def)
  note a = prepare_explicit_Ok [OF a] and b = prepare_explicit_Ok [OF b] and c = prepare_explicit_Ok [OF c]
  show "\<not> is_busy (state_of j DpsReport)" by (rule a(2))
  show st: "state_of j' q = (if q = Twitch then state_of j q else Waiting)" for q
    using a(6) b(6) c(6) by (cases q) auto
  have "\<not> in_flight (state_of j Wingman)" "\<not> in_flight (state_of j DonBot)"
    using a(6) b(2,6) c(2) by (auto simp: idle_not_in_flight)
  then show "rearmed j j'"
    using a(1,3,4,5) b(1,4,5) c(1,4,5) job_evolves_trans st
    unfolding rearmed_def by (metis (full_types))
qed

lemma rearm_explicit_Ok:
  assumes "rearm_explicit p j = Ok j'" and "p \<noteq> DpsReport"
  shows "job_evolves j j'" and "encounter_metadata (snapshot j') = encounter_metadata (snapshot j)"
    and "record_valid (snapshot j) \<Longrightarrow> record_valid (snapshot j')"
    and "state_of j' q = (if q = p \<and> state_of j p = Skipped then Waiting else state_of j q)"
proof -
  have "j' = j \<and> state_of j p \<noteq> Skipped \<or>
      state_of j p = Skipped \<and> prepare_explicit_delivery p j = Ok j'"
    using assms(1) by (auto simp: rearm_explicit_def split: if_splits)
  then show "job_evolves j j'" and "encounter_metadata (snapshot j') = encounter_metadata (snapshot j)"
    and "record_valid (snapshot j) \<Longrightarrow> record_valid (snapshot j')"
    and "state_of j' q = (if q = p \<and> state_of j p = Skipped then Waiting else state_of j q)"
    using prepare_explicit_Ok(1,4,5,6) [of p j j'] by auto
qed

lemma failed_report_idle:
  assumes "entry_ok e" and "state_of (job e) DpsReport = Failed"
  shows "\<not> in_flight (state_of (job e) Wingman)" and "\<not> in_flight (state_of (job e) DonBot)"
  using assms by (auto simp: entry_ok_def dep_met_def)

lemma retry_job_report:
  assumes ok: "entry_ok e" and m: "meta_of e \<noteq> None" and j: "retry_job DpsReport e = Ok j"
  shows "rearmed (job e) j" and "state_of j DpsReport = Waiting"
    and "reupload_flag e \<Longrightarrow> state_of j Twitch = state_of (job e) Twitch"
proof -
  have "rearmed (job e) j \<and> state_of j DpsReport = Waiting \<and>
      (reupload_flag e \<longrightarrow> state_of j Twitch = state_of (job e) Twitch)"
  proof (cases "reupload_flag e")
    case True
    with j obtain j1 j2 where f: "state_of (job e) DpsReport = Failed"
      and t: "transition DpsReport Waiting '''' (job e) = Ok j1"
      and w: "rearm_explicit Wingman j1 = Ok j2" and d: "rearm_explicit DonBot j2 = Ok j"
      by (auto simp: retry_job_def split: if_splits)
    note w = rearm_explicit_Ok [OF w] and d = rearm_explicit_Ok [OF d] and s = transition_status [OF t]
    have "job_evolves (job e) j"
      using transition_evolves [OF t] w(1) d(1) by (auto intro: job_evolves_trans)
    moreover have "record_valid (snapshot (job e)) \<Longrightarrow> record_valid (snapshot j)"
      using transition_record_valid [OF _ t] w(3) d(3) by auto
    moreover have "state_of j q = state_of (job e) q \<or> state_of j q = Waiting" for q
      using s w(4) d(4) by (cases q) auto
    ultimately show ?thesis
      using m failed_report_idle [OF ok f] transition_frame [OF t] w d s by (simp add: rearmed_def)
  next
    case False
    with j have "prepare_manual_retry DpsReport (job e) = Ok j" by (simp add: retry_job_def)
    note ev = prepare_manual_retry_evolves [OF this]
    from \<open>prepare_manual_retry DpsReport (job e) = Ok j\<close> show ?thesis
    proof (rule prepare_manual_retryE)
      fix j1 j2
      assume f: "state_of (job e) DpsReport = Failed"
        and t: "transition DpsReport Waiting '''' (job e) = Ok j1"
        and j2: "j2 = (if DpsReport = Twitch then j1\<lparr>snapshot := (snapshot j1)\<lparr>twitch_receipt := None\<rparr>\<rparr> else j1)"
        and jj: "j = (if DpsReport = DpsReport \<and> dps_report_result (snapshot j2) = None
               then fold rearm_skipped [Wingman, DonBot, Twitch] j2 else j2)"
      have "state_of j q = state_of (job e) q \<or> state_of j q = Waiting" for q
        using transition_status [OF t] by (cases q) (auto simp: jj j2 rearm_skipped_status)
      moreover have "state_of j DpsReport = Waiting"
        using transition_status [OF t] by (auto simp: jj j2 rearm_skipped_status)
      moreover have "record_valid (snapshot (job e)) \<Longrightarrow> record_valid (snapshot j)"
        using transition_record_valid [OF _ t] by (auto simp: jj j2 record_valid_def)
      ultimately show ?thesis
        using m ev failed_report_idle [OF ok f] transition_frame [OF t] False
        by (auto simp: rearmed_def jj j2)
    qed
  qed
  then show "rearmed (job e) j" "state_of j DpsReport = Waiting"
    "reupload_flag e \<Longrightarrow> state_of j Twitch = state_of (job e) Twitch" by auto
qed

lemma retry_job_other:
  assumes m: "meta_of e \<noteq> None" and p: "p \<noteq> DpsReport" and j: "retry_job p e = Ok j"
  shows "rearmed (job e) j" and "state_of j q = (if q = p then Waiting else state_of (job e) q)"
proof -
  from j p have r: "prepare_manual_retry p (job e) = Ok j" by (simp add: retry_job_def)
  have "rearmed (job e) j \<and> state_of j q = (if q = p then Waiting else state_of (job e) q)"
    using r
  proof (rule prepare_manual_retryE)
    fix j1 j2
    assume t: "transition p Waiting '''' (job e) = Ok j1"
      and j2: "j2 = (if p = Twitch then j1\<lparr>snapshot := (snapshot j1)\<lparr>twitch_receipt := None\<rparr>\<rparr> else j1)"
      and jj: "j = (if p = DpsReport \<and> dps_report_result (snapshot j2) = None
             then fold rearm_skipped [Wingman, DonBot, Twitch] j2 else j2)"
    have j: "j = j2" using jj p by simp
    have "record_valid (snapshot (job e)) \<Longrightarrow> record_valid (snapshot j)"
      using transition_record_valid [OF _ t] by (auto simp: j j2 record_valid_def)
    then show ?thesis
      using m prepare_manual_retry_evolves [OF r] transition_frame(4,5) [OF t] transition_status [OF t] p
      by (auto simp: rearmed_def j j2)
  qed
  then show "rearmed (job e) j" "state_of j q = (if q = p then Waiting else state_of (job e) q)" by auto
qed

lemma rechat_job:
  assumes "prepare_explicit_delivery Twitch j = Ok j'"
  shows "rearmed j j'" and "state_of j' q = (if q = Twitch then Waiting else state_of j q)"
proof -
  show st: "state_of j' q = (if q = Twitch then Waiting else state_of j q)" for q
    by (rule prepare_explicit_Ok(6) [OF assms])
  show "rearmed j j'"
    using prepare_explicit_Ok(1,3,4,5,7) [OF assms] by (simp add: rearmed_def st)
qed

context recording_env
begin

text \<open>The report goes out again; what waits, waits for it.\<close>

lemma report_start_ok:
  assumes inv: "coord_inv outbox c" and i: "i < length (jobs c)"
    and old: "\<And>k. k < length (jobs c) \<Longrightarrow> k \<noteq> i \<Longrightarrow> calm (jobs c ! k)"
    and np: "\<not> metadata_pending (jobs c ! i)" and w: "st c i DpsReport = Waiting"
    and tw: "reupload_flag (jobs c ! i) \<Longrightarrow> st c i Twitch \<noteq> Waiting"
  shows "coord_ok outbox (snd (dispatch env i DpsReport c))"
proof -
  obtain r c3 where d: "dispatch env i DpsReport c = (r, c3)" by fastforce
  from dispatch_effect [OF inv i np _ d] w
  have e: "coord_inv outbox c3" "touches i c c3" "dispatch_post i DpsReport c c3" by auto
  have "coord_ok outbox c3"
    by (rule coord_ok_entry [OF e(1) old e(2) calm_after_report [OF e(3,2) i tw]])
  then show ?thesis by (simp add: d)
qed

text \<open>One dependent goes out again.\<close>

lemma other_start_ok:
  assumes ok: "coord_ok outbox c" and i: "i < length (jobs c)" and p: "p \<noteq> DpsReport"
    and r: "rearmed (job (jobs c ! i)) j"
    and s: "\<And>q. state_of j q = (if q = p then Waiting else state_of (job (jobs c ! i)) q)"
  shows "coord_ok outbox (snd (dispatch env i p (set_entry i ((jobs c ! i)\<lparr>job := j, intents := x\<rparr>) c)))"
proof -
  define b where "b = reupload_flag (jobs c ! i)"
  have inv: "coord_inv outbox c" using ok by (simp add: coord_ok_def)
  define c1 where "c1 = set_entry i ((jobs c ! i)\<lparr>job := j, intents := x, reupload_flag := b\<rparr>) c"
  have c1: "c1 = set_entry i ((jobs c ! i)\<lparr>job := j, intents := x\<rparr>) c"
    by (simp add: c1_def b_def)
  have inv1: "coord_inv outbox c1" unfolding c1_def by (rule rearmed_inv [OF inv i r])
  have i1: "i < length (jobs c1)" and re1: "reupload_flag (jobs c1 ! i) = reupload_flag (jobs c ! i)"
    and np1: "\<not> metadata_pending (jobs c1 ! i)"
    using i rearmed_entry_ok(1) [OF inv_entry_ok [OF inv i] r] by (simp_all add: c1_def b_def)
  have s1: "st c1 i q = (if q = p then Waiting else st c i q)" for q
    using i s by (simp add: c1_def) (simp add: st_def)
  have meta: "meta_of (jobs c ! i) \<noteq> None" using r by (simp add: rearmed_def)
  note calm = calm_st [OF coord_ok_calm [OF ok i] meta]
  obtain r c3 where d: "dispatch env i p c1 = (r, c3)" by fastforce
  from dispatch_effect [OF inv1 i1 np1 _ d] s1
  have e: "coord_inv outbox c3" "touches i c1 c3" "dispatch_post i p c1 c3" by auto
  have "calm (jobs c3 ! i)"
    by (rule calm_after_other [OF e(3,2) i1 p]) (use s1 calm re1 p in auto)
  moreover have "\<And>k. k < length (jobs c1) \<Longrightarrow> k \<noteq> i \<Longrightarrow> calm (jobs c1 ! k)"
    using coord_ok_calm [OF ok] by (simp add: c1_def)
  ultimately have "coord_ok outbox c3" using coord_ok_entry [OF e(1) _ e(2)] by blast
  then show ?thesis by (simp add: d c1 [symmetric])
qed

lemma retry_failed_ok:
  assumes ok: "coord_ok outbox c"
  shows "coord_ok outbox (snd (retry_failed env jid p c))"
proof (cases "\<exists>i j. index c jid = Ok i \<and> require_metadata c i = Ok () \<and>
    retry_job p (jobs c ! i) = Ok j \<and> require_running c = Ok () \<and> require_providers c [p] = Ok () \<and>
    require_dependency c i p = Ok ()")
  case False
  then have "snd (retry_failed env jid p c) = c"
    unfolding retry_failed_def by (auto split: sum.split)
  with ok show ?thesis by simp
next
  case True
  then obtain i j where idx: "index c jid = Ok i" and rm: "require_metadata c i = Ok ()"
    and j: "retry_job p (jobs c ! i) = Ok j"
    and rest: "require_running c = Ok ()" "require_providers c [p] = Ok ()" "require_dependency c i p = Ok ()"
    by blast
  from index_Ok [OF idx] have i: "i < length (jobs c)" by simp
  have inv: "coord_inv outbox c" using ok by (simp add: coord_ok_def)
  have eok: "entry_ok (jobs c ! i)" using inv i by (rule inv_entry_ok)
  have meta: "meta_of (jobs c ! i) \<noteq> None" using rm by (auto simp: require_metadata_def split: if_splits)
  define ints where "ints = (if intents (jobs c ! i) p \<noteq> Reupload
    then (intents (jobs c ! i))(p := ManualRetry) else intents (jobs c ! i))"
  define b where "b = reupload_flag (jobs c ! i)"
  define c1 where "c1 = set_entry i ((jobs c ! i)\<lparr>job := j, intents := ints\<rparr>) c"
  have res: "retry_failed env jid p c = dispatch env i p c1"
    using idx rm j rest by (simp add: retry_failed_def c1_def ints_def Let_def)
  show ?thesis
  proof (cases "p = DpsReport")
    case False
    then show ?thesis
      using other_start_ok [OF ok i False retry_job_other [OF meta False j]] by (simp add: res c1_def)
  next
    case True
    note r = retry_job_report [OF eok meta j [unfolded True]]
    have "c1 = set_entry i ((jobs c ! i)\<lparr>job := j, intents := ints, reupload_flag := b\<rparr>) c"
      by (simp add: c1_def b_def)
    then have inv1: "coord_inv outbox c1" using rearmed_inv [OF inv i r(1)] by simp
    have "coord_ok outbox (snd (dispatch env i DpsReport c1))"
    proof (rule report_start_ok [OF inv1])
      show "\<not> metadata_pending (jobs c1 ! i)"
        using i rearmed_entry_ok(1) [OF eok r(1)] by (simp add: c1_def)
      show "reupload_flag (jobs c1 ! i) \<Longrightarrow> st c1 i Twitch \<noteq> Waiting"
        using i r(3) calm_st(2) [OF coord_ok_calm [OF ok i] meta] by (simp add: c1_def) (simp add: st_def)
    qed (use i r(2) coord_ok_calm [OF ok] in \<open>simp_all add: c1_def\<close>)
    then show ?thesis using res True by simp
  qed
qed

lemma reupload_ok:
  assumes ok: "coord_ok outbox c"
  shows "coord_ok outbox (snd (reupload env jid c))"
proof (cases "\<exists>i j. index c jid = Ok i \<and> reupload_job (job (jobs c ! i)) = Ok j \<and>
    require_running c = Ok () \<and> require_providers c uploads = Ok ()")
  case False
  then have "snd (reupload env jid c) = c" unfolding reupload_def by (auto split: sum.split)
  with ok show ?thesis by simp
next
  case True
  then obtain i j where idx: "index c jid = Ok i" and j: "reupload_job (job (jobs c ! i)) = Ok j"
    and rest: "require_running c = Ok ()" "require_providers c uploads = Ok ()" by blast
  from index_Ok [OF idx] have i: "i < length (jobs c)" by simp
  have inv: "coord_inv outbox c" using ok by (simp add: coord_ok_def)
  have eok: "entry_ok (jobs c ! i)" using inv i by (rule inv_entry_ok)
  note r = reupload_job_Ok [OF j]
  have meta: "meta_of (jobs c ! i) \<noteq> None" using r(1) by (simp add: rearmed_def)
  define ints where "ints = (\<lambda>p. if p \<in> set uploads then Reupload else intents (jobs c ! i) p)"
  define c1 where "c1 = set_entry i ((jobs c ! i)\<lparr>job := j, intents := ints, reupload_flag := True\<rparr>) c"
  have inv1: "coord_inv outbox c1" unfolding c1_def by (rule rearmed_inv [OF inv i r(1)])
  have i1: "i < length (jobs c1)" and np1: "\<not> metadata_pending (jobs c1 ! i)"
    using i rearmed_entry_ok(1) [OF eok r(1)] by (simp_all add: c1_def)
  have s1: "st c1 i q = (if q = Twitch then st c i q else Waiting)" for q
    using i r(3) by (simp add: c1_def) (simp add: st_def)
  obtain sk c2 where sk: "(if is_wvw c1 i then skip_wingman i c1 else (Ok (), c1)) = (sk, c2)"
    by fastforce
  have two: "coord_inv outbox c2 \<and> inert i c1 c2 \<and> is_ok sk \<and>
      (\<forall>q. q \<noteq> Wingman \<longrightarrow> st c2 i q = st c1 i q)"
    using sk skip_wingman_effect [OF inv1 i1 np1, of sk c2] inv1 s1 by (auto split: if_splits)
  then obtain u where u: "sk = Ok u" by (auto simp: is_ok_iff)
  have inert: "inert i c1 c2" and inv2: "coord_inv outbox c2"
    and s2: "\<And>q. q \<noteq> Wingman \<Longrightarrow> st c2 i q = st c1 i q" using two by auto
  note n2 = inert_entry [OF inert i1]
  have "coord_ok outbox (snd (dispatch env i DpsReport c2))"
  proof (rule report_start_ok [OF inv2 n2(1)])
    fix k assume "k < length (jobs c2)" "k \<noteq> i"
    then show "calm (jobs c2 ! k)"
      using coord_ok_calm [OF ok, of k] touches_other [OF inert_touches [OF inert]]
        touches_length [OF inert_touches [OF inert]] by (simp add: c1_def)
  next
    show "st c2 i Twitch \<noteq> Waiting"
      using calm_st(1) [OF coord_ok_calm [OF ok i] meta, of Twitch] r(2) s1 s2
      by (auto simp: st_def idle_not_in_flight)
  qed (use np1 n2 s1 s2 in auto)
  moreover have "reupload env jid c = dispatch env i DpsReport c2"
  proof -
    have "e\<lparr>job := j, reupload_flag := True, intents := ints\<rparr> =
        e\<lparr>job := j, intents := ints, reupload_flag := True\<rparr>" for e :: entry
      by (cases e) simp
    from arg_cong [OF this, of "\<lambda>e. set_entry i e c"]
    have "set_entry i ((jobs c ! i)\<lparr>job := j, reupload_flag := True, intents := ints\<rparr>) c = c1"
      unfolding c1_def .
    then show ?thesis
      using idx j rest sk u unfolding ints_def
      by (cases "is_wvw c1 i") (simp_all add: reupload_def)
  qed
  ultimately show ?thesis by simp
qed

lemma rechat_ok:
  assumes ok: "coord_ok outbox c"
  shows "coord_ok outbox (snd (rechat env jid c))"
proof (cases "\<exists>i j. index c jid = Ok i \<and> prepare_explicit_delivery Twitch (job (jobs c ! i)) = Ok j \<and>
    require_running c = Ok () \<and> require_providers c [Twitch] = Ok () \<and> require_dependency c i Twitch = Ok ()")
  case False
  then have "snd (rechat env jid c) = c" unfolding rechat_def by (auto split: sum.split)
  with ok show ?thesis by simp
next
  case True
  then obtain i j where idx: "index c jid = Ok i"
    and j: "prepare_explicit_delivery Twitch (job (jobs c ! i)) = Ok j"
    and rest: "require_running c = Ok ()" "require_providers c [Twitch] = Ok ()"
      "require_dependency c i Twitch = Ok ()" by blast
  from index_Ok [OF idx] have i: "i < length (jobs c)" by simp
  show ?thesis
    using other_start_ok [OF ok i _ rechat_job [OF j]] idx j rest by (simp add: rechat_def Let_def)
qed

lemma configure_provider_ok:
  assumes "coord_ok outbox c"
  shows "coord_ok outbox (snd (configure_provider env conf c))"
  using assms by (auto simp: configure_provider_def Let_def split: prod.splits intro!: world_ok dest: sent_configure)

end

section \<open>History and shutdown\<close>

lemma restore_job_entry:
  assumes "restore_job jid r = Ok j"
  shows "id_of j = jid" and "entry_ok (new_entry j False)" and "calm (new_entry j False)"
proof -
  have idle: "\<not> is_busy (state_of j p)" for p
    using assms by (auto simp: restore_job_Ok_iff provider_status_def)
  have "record_valid (snapshot j)"
    using assms by (auto simp: restore_job_Ok_iff record_valid_def)
  then show "entry_ok (new_entry j False)"
    using idle idle_not_in_flight by (auto simp: entry_ok_def new_entry_def)
  show "calm (new_entry j False)"
    using idle [THEN idle_not_waiting] by (simp add: calm_def new_entry_def)
  show "id_of j = jid" using assms by (auto simp: restore_job_Ok_iff)
qed

lemma restore_entries_Ok:
  assumes "restore_entries n rs = Ok es" and "n + length rs < 2 ^ 64"
  shows "length es = length rs"
    and "\<And>k. k < length es \<Longrightarrow> id_of (job (es ! k)) = of_nat (n + 1 + k)"
    and "\<And>e. e \<in> set es \<Longrightarrow> entry_ok e \<and> calm e"
proof -
  have "length es = length rs \<and> (\<forall>k < length es. id_of (job (es ! k)) = of_nat (n + 1 + k)) \<and>
      (\<forall>e \<in> set es. entry_ok e \<and> calm e)"
    using assms
  proof (induction rs arbitrary: n es)
    case (Cons r rs)
    from Cons.prems obtain jid j es' where jid: "new_job_id (of_nat (n + 1)) = Ok jid"
      and j: "restore_job jid r = Ok j" and es': "restore_entries (n + 1) rs = Ok es'"
      and es: "es = new_entry j False # es'" by auto
    have "jid = of_nat (n + 1)" using jid by (simp add: new_job_id_def split: if_splits)
    moreover note Cons.IH [OF es'] Cons.prems(2) restore_job_entry [OF j]
    ultimately show ?case
      by (auto simp: es nth_Cons new_entry_def split: nat.split)
  qed simp
  then show "length es = length rs" and "\<And>k. k < length es \<Longrightarrow> id_of (job (es ! k)) = of_nat (n + 1 + k)"
    and "\<And>e. e \<in> set es \<Longrightarrow> entry_ok e \<and> calm e" by auto
qed

lemma of_nat_u64_less:
  "m < 2 ^ 64 \<Longrightarrow> n < 2 ^ 64 \<Longrightarrow> (of_nat m :: u64) < of_nat n \<longleftrightarrow> m < n"
  by (simp add: word_less_nat_alt unat_of_nat)

lemma restore_ok:
  assumes ok: "coord_ok outbox c"
  shows "coord_ok outbox (snd (restore rs c))"
proof (cases "\<exists>es. restore_entries 0 (drop (length rs - coord_limit c) rs) = Ok es \<and>
    \<not> stopping c \<and> next_id c = Some 1")
  case False
  then have "snd (restore rs c) = c" by (auto simp: restore_def split: sum.split)
  with ok show ?thesis by simp
next
  case True
  then obtain es where es: "restore_entries 0 (drop (length rs - coord_limit c) rs) = Ok es"
    and n: "next_id c = Some 1" by auto
  have lim: "coord_limit c \<le> 10000" using ok by (simp add: coord_ok_def coord_inv_def max_history_limit_def)
  have len0: "length (drop (length rs - coord_limit c) rs) \<le> coord_limit c" by simp
  with lim have small: "length (drop (length rs - coord_limit c) rs) \<le> 10000" by linarith
  then have "0 + length (drop (length rs - coord_limit c) rs) < 2 ^ 64" by simp
  note e = restore_entries_Ok [OF es this]
  have len: "length es \<le> 10000" using small e(1) by simp
  define c' where "c' = c\<lparr>next_id := Some (of_nat (length es + 1)), jobs := es, restored := True\<rparr>"
  have ids: "map (\<lambda>e. id_of (job e)) es = map (\<lambda>k. of_nat (k + 1)) [0..<length es]"
    by (rule nth_equalityI) (simp_all add: e(2))
  have mem: "id_of (job x) \<noteq> 0 \<and> id_of (job x) < (of_nat (length es + 1) :: u64)" if "x \<in> set es" for x
  proof -
    from that obtain k where k: "k < length es" "x = es ! k" by (auto simp: in_set_conv_nth)
    have "id_of (job x) = of_nat (k + 1)" using e(2) [OF k(1)] k(2) by simp
    moreover have "(of_nat 0 :: u64) < of_nat (k + 1)" "(of_nat (k + 1) :: u64) < of_nat (length es + 1)"
      using k(1) len by (subst of_nat_u64_less; simp)+
    ultimately show ?thesis by auto
  qed
  have "inj_on (\<lambda>k. of_nat (k + 1) :: u64) {0..<length es}"
  proof (rule inj_onI)
    fix x y assume "x \<in> {0..<length es}" "y \<in> {0..<length es}" "(of_nat (x + 1) :: u64) = of_nat (y + 1)"
    then show "x = y"
      using len of_nat_u64_less [of "x + 1" "y + 1"] of_nat_u64_less [of "y + 1" "x + 1"] by force
  qed
  then have "distinct (map (\<lambda>e. id_of (job e)) es)"
    unfolding ids by (simp add: distinct_map)
  with mem have "ids_ok c'" by (simp add: ids_ok_def c'_def below_next_def)
  moreover have "sent_ok outbox c'"
  proof -
    have "request_job_id q = 0" if "q \<in> set (outbox (world c))" for q
      using ok n that by (auto simp: coord_ok_def coord_inv_def sent_ok_def below_next_def)
    moreover have "(of_nat 0 :: u64) < of_nat (length es + 1)"
      using len by (subst of_nat_u64_less) simp_all
    ultimately show ?thesis
      using ok mem by (auto simp: coord_ok_def coord_inv_def sent_ok_def c'_def below_next_def)
  qed
  ultimately have "coord_ok outbox c'"
    using ok e(3) len by (auto simp: coord_ok_def coord_inv_def c'_def max_history_limit_def)
  then show ?thesis using ok es by (auto simp: restore_def c'_def)
qed

lemma set_history_limit_ok:
  assumes "coord_ok outbox c"
  shows "coord_ok outbox (snd (set_history_limit n c))"
proof (cases "1 \<le> n \<and> n \<le> max_history_limit")
  case True
  with assms have "coord_ok outbox (c\<lparr>coord_limit := n\<rparr>)"
    by (simp add: coord_ok_def coord_inv_def ids_ok_def sent_ok_def below_next_def)
  with True show ?thesis by (simp add: set_history_limit_def validate_limit_def require_def trim_ok)
qed (use assms in \<open>auto simp: set_history_limit_def validate_limit_def require_def\<close>)

lemma cancel_status_effect:
  "state_of (cancel_status p j) q =
     (if q = p \<and> is_busy (state_of j p) then Cancelled else state_of j q) \<and>
   job_evolves j (cancel_status p j) \<and>
   encounter_metadata (snapshot (cancel_status p j)) = encounter_metadata (snapshot j) \<and>
   (record_valid (snapshot j) \<longrightarrow> record_valid (snapshot (cancel_status p j)))"
proof (cases "is_busy (state_of j p)")
  case True
  then have "allows (state_of j p) Cancelled" by (cases "state_of j p") auto
  then obtain j' where t: "transition p Cancelled ''Cancelled'' j = Ok j'"
    using transition_plain [of Cancelled] by fastforce
  then show ?thesis
    using True transition_status [OF t] transition_evolves [OF t] transition_frame(4) [OF t]
      transition_record_valid [OF _ t] by (simp add: cancel_status_def)
qed (simp add: cancel_status_def)

lemma cancel_fold_effect:
  "state_of (fold cancel_status ps j) q =
     (if q \<in> set ps \<and> is_busy (state_of j q) then Cancelled else state_of j q) \<and>
   job_evolves j (fold cancel_status ps j) \<and>
   encounter_metadata (snapshot (fold cancel_status ps j)) = encounter_metadata (snapshot j) \<and>
   (record_valid (snapshot j) \<longrightarrow> record_valid (snapshot (fold cancel_status ps j)))"
proof (induction ps arbitrary: j)
  case (Cons p ps)
  show ?case
    using Cons [of "cancel_status p j"] cancel_status_effect [of p j]
      cancel_status_effect [of p j q] job_evolves_trans [of j "cancel_status p j"]
    by (cases "q = p"; cases "is_busy (state_of j p)"; simp)
qed simp

lemma cancel_entry_effect:
  assumes "entry_ok e"
  shows "entry_ok (cancel_entry e)" and "calm (cancel_entry e)" and "\<not> busy (cancel_entry e)"
    and "job_evolves (job e) (job (cancel_entry e))"
proof -
  define j where "j = fold cancel_status all_providers (job e)"
  note f = cancel_fold_effect [of all_providers "job e", folded j_def]
  have idle: "\<not> is_busy (state_of j q)" for q using f by simp
  have fl: "\<not> in_flight (state_of j q)" for q
    using idle by (rule idle_not_in_flight)
  show "calm (cancel_entry e)" using idle [THEN idle_not_waiting] by (simp add: calm_def cancel_entry_def j_def)
  show "\<not> busy (cancel_entry e)" using idle by (simp add: busy_def cancel_entry_def j_def)
  show "job_evolves (job e) (job (cancel_entry e))" using f by (simp add: cancel_entry_def j_def)
  have "record_valid (snapshot j)" using f assms by (simp add: entry_ok_def)
  then show "entry_ok (cancel_entry e)"
    using idle fl by (simp add: entry_ok_def cancel_entry_def j_def)
qed

lemma map_entries_inv:
  assumes inv: "coord_inv outbox c"
    and ev: "\<And>e. e \<in> set (jobs c) \<Longrightarrow> job_evolves (job e) (job (f e)) \<and> entry_ok (f e)"
  shows "coord_inv outbox (c\<lparr>jobs := map f (jobs c)\<rparr>)"
proof -
  have id: "\<And>e. e \<in> set (jobs c) \<Longrightarrow> id_of (job (f e)) = id_of (job e)"
    and at: "\<And>e p. e \<in> set (jobs c) \<Longrightarrow>
      attempts (provider_status (job e) p) \<le> attempts (provider_status (job (f e)) p)"
    using ev by (auto simp: job_evolves_def status_evolves_def)
  have "map (\<lambda>e. id_of (job e)) (map f (jobs c)) = map (\<lambda>e. id_of (job e)) (jobs c)"
    using id by simp
  then have "distinct (map (\<lambda>e. id_of (job e)) (map f (jobs c)))"
    using inv by (simp only: coord_inv_def ids_ok_def)
  moreover have "below_next (c\<lparr>jobs := map f (jobs c)\<rparr>) = below_next c"
    by (simp add: fun_eq_iff below_next_def)
  ultimately show ?thesis
    using inv ev id by (auto simp: coord_inv_def ids_ok_def sent_ok_def intro: order_trans [OF _ at])
qed

context recording_env
begin

lemma cancel_world: "outbox (fold (\<lambda>p w. if s p then env_cancel env p w else w) ps w) = outbox w"
  by (induction ps arbitrary: w) (auto simp: sent_cancel)

lemma cancel_all_ok:
  assumes ok: "coord_ok outbox c"
  shows "coord_ok outbox (cancel_all env c)"
proof (cases "stopping c")
  case False
  define w where
    "w = fold (\<lambda>p w. if slots c p then env_cancel env p w else w) all_providers (world c)"
  define c0 where "c0 = (c\<lparr>stopping := True, world := w\<rparr>)"
  have "coord_ok outbox c0"
    using ok cancel_world [of "slots c" all_providers "world c"]
    by (simp add: c0_def w_def coord_ok_def coord_inv_def ids_ok_def sent_ok_def below_next_def)
  then have "coord_ok outbox (c0\<lparr>jobs := map cancel_entry (jobs c0)\<rparr>)"
    using map_entries_inv [of outbox c0 cancel_entry] cancel_entry_effect
    by (auto simp: coord_ok_def coord_inv_def)
  moreover have "cancel_all env c =
      trim_to (coord_limit c) (c0\<lparr>jobs := map cancel_entry (jobs c0)\<rparr>)"
    using False by (simp add: cancel_all_def c0_def w_def Let_def)
  ultimately show ?thesis by (simp add: trim_ok)
qed (use ok in \<open>simp add: cancel_all_def\<close>)

end

section \<open>The operations as one machine\<close>

datatype coordinator_op =
  CoConfigure provider_configuration
| CoAdd log_file_identity provider_selection
| CoMetadata job_id encounter_metadata
| CoNoMetadata job_id bool
| CoResult upload_result
| CoDrain nat
| CoRetries nat
| CoRetryFailed job_id provider
| CoReupload job_id
| CoRechat job_id
| CoRestore "upload_job_record list"
| CoLimit nat
| CoCancelAll

fun coordinator_step :: "'w env \<Rightarrow> 'w coordinator \<Rightarrow> coordinator_op \<Rightarrow> 'w coordinator" where
  "coordinator_step env c (CoConfigure conf) = snd (configure_provider env conf c)"
| "coordinator_step env c (CoAdd f sel) = snd (add_pending env f sel c)"
| "coordinator_step env c (CoMetadata i m) = snd (set_metadata env i m c)"
| "coordinator_step env c (CoNoMetadata i cn) = snd (fail_metadata i cn c)"
| "coordinator_step env c (CoResult r) = snd (apply_result env r c)"
| "coordinator_step env c (CoDrain n) = snd (drain_results env n c)"
| "coordinator_step env c (CoRetries n) = snd (dispatch_due_retries env n c)"
| "coordinator_step env c (CoRetryFailed i p) = snd (retry_failed env i p c)"
| "coordinator_step env c (CoReupload i) = snd (reupload env i c)"
| "coordinator_step env c (CoRechat i) = snd (rechat env i c)"
| "coordinator_step env c (CoRestore rs) = snd (restore rs c)"
| "coordinator_step env c (CoLimit n) = snd (set_history_limit n c)"
| "coordinator_step env c CoCancelAll = cancel_all env c"

context recording_env
begin

lemma coordinator_step_ok: "coord_ok outbox c \<Longrightarrow> coord_ok outbox (coordinator_step env c x)"
  by (cases x) (simp_all add: configure_provider_ok add_pending_ok set_metadata_ok fail_metadata_ok
      apply_result_ok drain_results_ok dispatch_due_retries_ok retry_failed_ok reupload_ok rechat_ok
      restore_ok set_history_limit_ok cancel_all_ok)

end

interpretation coordinator: machine "coordinator_step (logged env)" "coord_ok snd" for env
  by unfold_locales (rule logged.coordinator_step_ok)

text \<open>Every coordinator starts well, with an empty outbox.\<close>

lemma new_coordinator_ok: "new_coordinator (w, []) ps limit = Ok c \<Longrightarrow> coord_ok snd c"
  by (auto simp: new_coordinator_def validate_limit_def coord_ok_def coord_inv_def ids_ok_def
      sent_ok_def split: if_splits)

lemma reachable_ok:
  "new_coordinator (w, []) ps limit = Ok c \<Longrightarrow> coord_ok snd (foldl (coordinator_step (logged env)) c ops)"
  by (rule coordinator.run_inv) (rule new_coordinator_ok)

section \<open>A sample environment and run\<close>

text \<open>Adapters that accept everything and report nothing, and a clock that stands still.\<close>

definition quiet_env :: "unit env" where
  "quiet_env = \<lparr>
     env_configure = (\<lambda>_ w. (Some (Ok ()), w)), env_enqueue = (\<lambda>_ w. (Some (Ok ()), w)),
     env_take = (\<lambda>_ w. (Some (Ok None), w)), env_cancel = (\<lambda>_ w. w),
     env_system_now = (\<lambda>w. (99, w)), env_steady_now = (\<lambda>w. (5, w)),
     env_parser_resize = (\<lambda>_ w. (Some (Ok ()), w)), env_parser_enqueue = (\<lambda>_ w. (Some (Ok ()), w)),
     env_parser_capacity = (\<lambda>_. Some 1), env_parser_take = (\<lambda>w. (Some (Ok None), w)),
     env_parser_cancel = (\<lambda>w. w)\<rparr>"

definition sample_coordinator :: "(unit \<times> upload_request list) coordinator" where
  "sample_coordinator = \<lparr>world = ((), []), slots = (\<lambda>_. True), jobs = [], coord_limit = 2,
     next_id = Some 1, restored = False, result_cursor = 0, stopping = False\<rparr>"

definition sample_metadata :: encounter_metadata where
  "sample_metadata = \<lparr>boss_id = 17194, pov_account = '':Player.1234'',
     remaining_health_basis_points = Some 0\<rparr>"

definition report_arrives :: upload_result where
  "report_arrives = \<lparr>result_job_id = 1, result_provider = DpsReport, result_attempt = 1,
     result_outcome = OutSucceeded (DpsReportDone sample_report)\<rparr>"

definition sample_co_ops :: "coordinator_op list" where
  "sample_co_ops = [CoAdd sample_file all_selected, CoMetadata 1 sample_metadata,
     CoResult report_arrives]"

lemma sample_new_coordinator:
  "new_coordinator ((), []) all_providers 2 = Ok sample_coordinator"
  by (simp add: new_coordinator_def validate_limit_def require_def max_history_limit_def
      sample_coordinator_def fun_eq_iff)

lemma sample_run_keys:
  "map upload_key (snd (world (foldl (coordinator_step (logged quiet_env)) sample_coordinator sample_co_ops)))
   = [(1, DpsReport, 1), (1, Wingman, 1), (1, DonBot, 1), (1, Twitch, 1)]"
  by code_simp

section \<open>What every run guarantees\<close>

text \<open>
  C1: No upload is sent twice under one attempt number: in every run of a new coordinator, with any
  adapters (refusing, panicking or answering out of order), any sequence of operations and results,
  the requests handed to the adapters carry pairwise distinct (job, destination, attempt) triples.
\<close>

theorem requests_are_unique:
  assumes "new_coordinator (w, []) ps limit = Ok c"
  shows "distinct (map upload_key (snd (world (foldl (coordinator_step (logged env)) c ops))))"
  using reachable_ok [OF assms] by (simp add: coord_ok_def coord_inv_def sent_ok_def)

theorem requests_are_unique_witness:
  "distinct (map upload_key (snd (world (foldl (coordinator_step (logged quiet_env)) sample_coordinator sample_co_ops)))) \<and>
   length (snd (world (foldl (coordinator_step (logged quiet_env)) sample_coordinator sample_co_ops))) = 4"
  using requests_are_unique [OF sample_new_coordinator, of quiet_env sample_co_ops]
    arg_cong [OF sample_run_keys, of length] by simp

text \<open>
  C2: Every request that ever leaves names a file, a dps.report request carries no report, a
  Wingman request is never for a World versus World log, a Twitch request always carries a report,
  and every report it carries has a non-empty link.
\<close>

theorem requests_are_well_formed:
  assumes "new_coordinator (w, []) ps limit = Ok c"
    and "q \<in> set (snd (world (foldl (coordinator_step (logged env)) c ops)))"
  shows "canonical_path (request_file q) \<noteq> [] \<and>
     (request_provider q = DpsReport \<longrightarrow> request_report q = None) \<and>
     (request_provider q = Wingman \<longrightarrow> boss_id (request_metadata q) \<noteq> wvw_boss_id) \<and>
     (request_provider q = Twitch \<longrightarrow> request_report q \<noteq> None) \<and>
     (\<forall>r. request_report q = Some r \<longrightarrow> permalink r \<noteq> [])"
  using reachable_ok [OF assms(1), of env ops] assms(2)
  by (simp add: coord_ok_def coord_inv_def sent_ok_def request_ok_def)

theorem requests_are_well_formed_witness:
  "\<exists>q. q \<in> set (snd (world (foldl (coordinator_step (logged quiet_env)) sample_coordinator sample_co_ops))) \<and>
     request_provider q = Twitch \<and> request_report q \<noteq> None"
proof -
  have "(1, Twitch, 1) \<in> set (map upload_key
      (snd (world (foldl (coordinator_step (logged quiet_env)) sample_coordinator sample_co_ops))))"
    unfolding sample_run_keys by simp
  then obtain q where "q \<in> set (snd (world (foldl (coordinator_step (logged quiet_env)) sample_coordinator sample_co_ops)))"
    and "request_provider q = Twitch" by (auto simp: upload_key_def)
  with requests_are_well_formed [OF sample_new_coordinator this(1)] show ?thesis by blast
qed

text \<open>
  C9: Nothing waits in vain: after every run, when the metadata of a job is known and one of its
  destinations is still waiting, that destination depends on dps.report and the dps.report upload
  of the job is in flight or scheduled for a retry.
\<close>

theorem nothing_waits_in_vain:
  assumes "new_coordinator (w, []) ps limit = Ok c"
    and "e \<in> set (jobs (foldl (coordinator_step (logged env)) c ops))"
    and "encounter_metadata (snapshot (job e)) \<noteq> None" and "state_of (job e) p = Waiting"
  shows "p \<noteq> DpsReport \<and>
     (state_of (job e) DpsReport = Active \<or> (\<exists>t. state_of (job e) DpsReport = RetryScheduled t))"
proof -
  have "calm e" using reachable_ok [OF assms(1)] assms(2) by (auto simp: coord_ok_def)
  then have "p \<noteq> DpsReport \<and> in_flight (state_of (job e) DpsReport)"
    using assms(3,4) by (simp add: calm_def)
  then show ?thesis by (cases "state_of (job e) DpsReport") auto
qed

lemma sample_waits:
  "let c = foldl (coordinator_step (logged quiet_env)) sample_coordinator (take 2 sample_co_ops)
   in map (\<lambda>e. (encounter_metadata (snapshot (job e)) \<noteq> None, state_of (job e) Twitch)) (jobs c) = [(True, Waiting)]"
  by code_simp

theorem nothing_waits_in_vain_witness:
  "\<exists>e. e \<in> set (jobs (foldl (coordinator_step (logged quiet_env)) sample_coordinator (take 2 sample_co_ops))) \<and>
     state_of (job e) Twitch = Waiting \<and>
     (state_of (job e) DpsReport = Active \<or> (\<exists>t. state_of (job e) DpsReport = RetryScheduled t))"
proof -
  obtain e where e: "jobs (foldl (coordinator_step (logged quiet_env)) sample_coordinator (take 2 sample_co_ops)) = [e]"
    and "encounter_metadata (snapshot (job e)) \<noteq> None" "state_of (job e) Twitch = Waiting"
    using sample_waits by (auto simp: Let_def)
  with nothing_waits_in_vain [OF sample_new_coordinator, of e quiet_env "take 2 sample_co_ops" Twitch]
  show ?thesis by auto
qed

text \<open>
  Trimming the history to a limit drops only jobs that are not busy, keeps the order of the
  others, and drops no more than it must: the result has the limit as its length, or the number of
  busy jobs where that is larger.
\<close>

theorem trimming_spares_busy_jobs:
  "subseq (jobs (trim_to n c)) (jobs c) \<and>
   filter busy (jobs (trim_to n c)) = filter busy (jobs c) \<and>
   length (jobs (trim_to n c)) =
     (if n < length (jobs c) then max n (length (filter busy (jobs c))) else length (jobs c))"
  by (simp add: trim_entries_subseq trim_entries_busy trim_entries_length)

text \<open>
  C13: In every reachable state the jobs have pairwise distinct non-zero identifiers, the history
  holds at most ten thousand of them, and the lookup that guards \<open>set_metadata\<close> and
  \<open>fail_metadata\<close> succeeds for exactly the jobs whose metadata is still expected.
\<close>

theorem reachable_history_is_sound:
  assumes "new_coordinator (w, []) ps limit = Ok c"
    and "c' = foldl (coordinator_step (logged env)) c ops"
  shows "distinct (map (\<lambda>e. id_of (job e)) (jobs c')) \<and>
     (\<forall>e \<in> set (jobs c'). id_of (job e) \<noteq> 0) \<and> length (jobs c') \<le> 10000 \<and>
     (\<forall>jid i. pending_index c' jid = Ok i \<longleftrightarrow> index c' jid = Ok i \<and> metadata_pending (jobs c' ! i))"
proof -
  have inv: "coord_inv snd c'" using reachable_ok [OF assms(1)] assms(2) by (simp add: coord_ok_def)
  have "meta_of (jobs c' ! i) = None \<and> (\<forall>p. st c' i p = Waiting \<or> st c' i p = Disabled)"
    if "index c' jid = Ok i" "metadata_pending (jobs c' ! i)" for jid i
    using inv_entry_ok [OF inv] index_Ok [OF that(1)] that(2) by (simp add: entry_ok_def st_def)
  then show ?thesis
    using inv by (auto simp: coord_inv_def ids_ok_def pending_index_Ok_iff max_history_limit_def)
qed

theorem reachable_history_is_sound_witness:
  "pending_index (foldl (coordinator_step (logged quiet_env)) sample_coordinator (take 1 sample_co_ops)) 1 = Ok 0"
proof -
  have "index (foldl (coordinator_step (logged quiet_env)) sample_coordinator (take 1 sample_co_ops)) 1 = Ok 0 \<and>
    metadata_pending (jobs (foldl (coordinator_step (logged quiet_env)) sample_coordinator (take 1 sample_co_ops)) ! 0)"
    by code_simp
  with reachable_history_is_sound [OF sample_new_coordinator refl, of quiet_env "take 1 sample_co_ops"]
  show ?thesis by blast
qed

end
