(* ===== verification/Coordinator_Evolution.thy ===== *)
theory Coordinator_Evolution
  imports Coordinator_Safety
begin

text \<open>
  What time does to the coordinator: jobs only evolve, identifiers are never reused, shutdown is
  final, and draining is bounded. From this follows that a result is accepted at most once.
\<close>

section \<open>The order on coordinators\<close>

definition coord_evolves :: "'w coordinator \<Rightarrow> 'w coordinator \<Rightarrow> bool" where
  "coord_evolves c c' \<longleftrightarrow>
     (\<forall>i. below_next c i \<longrightarrow> below_next c' i) \<and>
     (\<forall>e' \<in> set (jobs c'). (\<exists>e \<in> set (jobs c). job_evolves (job e) (job e')) \<or>
        \<not> below_next c (id_of (job e'))) \<and>
     (stopping c \<longrightarrow> stopping c')"

lemma evolves_same:
  assumes "below_next c' = below_next c" and "set (jobs c') \<subseteq> set (jobs c)"
    and "stopping c \<Longrightarrow> stopping c'"
  shows "coord_evolves c c'"
proof -
  have "\<exists>e \<in> set (jobs c). job_evolves (job e) (job x)" if "x \<in> set (jobs c')" for x
    using that assms(2) by (intro bexI [of _ x]) auto
  with assms(1,3) show ?thesis by (simp add: coord_evolves_def)
qed

lemma coord_evolves_refl [simp]: "coord_evolves c c"
  by (rule evolves_same) auto

lemma coord_evolves_trans:
  assumes "coord_evolves c d" and "coord_evolves d f"
  shows "coord_evolves c f"
proof -
  have "(\<exists>e \<in> set (jobs c). job_evolves (job e) (job x)) \<or> \<not> below_next c (id_of (job x))"
    if x: "x \<in> set (jobs f)" for x
  proof (cases "\<exists>e \<in> set (jobs d). job_evolves (job e) (job x)")
    case True
    then obtain e where e: "e \<in> set (jobs d)" "job_evolves (job e) (job x)" by blast
    then have i: "id_of (job e) = id_of (job x)" by (simp add: job_evolves_def)
    from e(1) assms(1) have "(\<exists>e2 \<in> set (jobs c). job_evolves (job e2) (job e)) \<or> \<not> below_next c (id_of (job e))"
      unfolding coord_evolves_def by blast
    then show ?thesis using job_evolves_trans [OF _ e(2)] unfolding i by blast
  next
    case False
    with x assms show ?thesis unfolding coord_evolves_def by blast
  qed
  with assms show ?thesis unfolding coord_evolves_def by blast
qed

lemma evolves_world [simp]: "coord_evolves c (c\<lparr>world := w\<rparr>)"
  by (rule evolves_same) (auto simp: fun_eq_iff below_next_def)

lemma evolves_cursor [simp]: "coord_evolves c (c\<lparr>result_cursor := k\<rparr>)"
  by (rule evolves_same) (auto simp: fun_eq_iff below_next_def)

lemma evolves_trim: "coord_evolves c (trim_to n c)"
  by (rule evolves_same) (auto simp: fun_eq_iff below_next_def dest: trim_entries_mem)

lemma evolves_set_entry:
  assumes "i < length (jobs c) \<Longrightarrow> job_evolves (job (jobs c ! i)) (job e)"
  shows "coord_evolves c (set_entry i e c)"
proof (cases "i < length (jobs c)")
  case True
  have "\<exists>y \<in> set (jobs c). job_evolves (job y) (job x)" if "x \<in> set ((jobs c)[i := e])" for x
  proof (cases "x = e")
    case True
    with assms [OF \<open>i < length (jobs c)\<close>] nth_mem [OF \<open>i < length (jobs c)\<close>] show ?thesis by blast
  next
    case False
    with that have "x \<in> set (jobs c)" using set_update_subset_insert [of "jobs c" i e] by auto
    then show ?thesis using job_evolves_refl by blast
  qed
  moreover have "below_next (set_entry i e c) = below_next c"
    by (simp add: fun_eq_iff below_next_def set_entry_def)
  ultimately show ?thesis
    by (simp add: coord_evolves_def set_entry_def)
next
  case False
  then have "set_entry i e c = c" by (cases c) (simp add: set_entry_def list_update_beyond)
  then show ?thesis by simp
qed

lemma evolves_set_job: "job_evolves (job (jobs c ! i)) j \<Longrightarrow> coord_evolves c (set_job i j c)"
  unfolding set_job_def by (rule evolves_set_entry) simp

lemma evolves_transition:
  "transition p nxt d (job (jobs c ! i)) = Ok j \<Longrightarrow> coord_evolves c (set_job i j c)"
  by (rule evolves_set_job) (rule transition_evolves)

lemma evolves_fold:
  "(\<And>x c. coord_evolves c (f x c)) \<Longrightarrow> coord_evolves c (fold f xs c)"
  by (induction xs arbitrary: c) (auto intro: coord_evolves_trans)

section \<open>Every operation evolves\<close>

lemma evolves_try_transition: "coord_evolves c (try_transition i p nxt d c)"
  by (auto simp: try_transition_def split: sum.split intro: evolves_transition)

lemma evolves_skip_wingman: "coord_evolves c (snd (skip_wingman i c))"
  by (auto simp: skip_wingman_def split: sum.split intro: evolves_transition)

lemma evolves_settle_dependents: "coord_evolves c (settle_dependents i cn c)"
  unfolding settle_dependents_def
  by (rule evolves_fold) (auto simp: settle_dependent_def intro: evolves_try_transition)

lemma evolves_fail_dispatch: "coord_evolves c (fail_dispatch i p c)"
  using coord_evolves_trans [OF evolves_try_transition evolves_settle_dependents]
  by (auto simp: fail_dispatch_def Let_def intro: evolves_try_transition)

lemma evolves_dispatch: "coord_evolves c (snd (dispatch env i p c))"
proof (cases "admit c i p")
  case (Inl e)
  then show ?thesis
    by (auto simp: dispatch_def intro: evolves_skip_wingman evolves_fail_dispatch)
next
  case (Inr j)
  have "coord_evolves c (set_job i j c)" using admit_Ok(4) [OF Inr] by (rule evolves_transition)
  then have w: "coord_evolves c ((set_job i j c)\<lparr>world := w\<rparr>)" for w
    by (rule coord_evolves_trans) simp
  then show ?thesis
    using coord_evolves_trans [OF w evolves_fail_dispatch] Inr
    by (auto simp: dispatch_def Let_def split: prod.split sum.split intro: evolves_skip_wingman)
qed

lemma evolves_dispatch_waiting: "coord_evolves c (snd (dispatch_waiting env i p c))"
  by (simp add: dispatch_waiting_def evolves_dispatch)

lemma evolves_release: "coord_evolves c (release_dependent env i p c)"
  by (simp add: release_dependent_def evolves_dispatch_waiting)

lemma evolves_configure: "coord_evolves c (snd (configure_provider env conf c))"
  by (simp add: configure_provider_def Let_def split: prod.split)

lemma evolves_append:
  assumes "next_id c = Some n" and "id_of (job e) = n"
  shows "coord_evolves c (c\<lparr>jobs := jobs c @ [e], next_id := checked_succ n\<rparr>)"
proof -
  have "below_next (c\<lparr>jobs := jobs c @ [e], next_id := checked_succ n\<rparr>) k" if "below_next c k" for k
    using that assms checked_succ_less [of n] by (auto simp: below_next_def split: option.splits)
  with assms show ?thesis
    by (auto simp: coord_evolves_def) (auto simp: below_next_def)
qed

lemma evolves_add_pending: "coord_evolves c (snd (add_pending env f sel c))"
proof -
  obtain now w where now: "env_system_now env (world c) = (now, w)" by fastforce
  have trim: "coord_evolves c (trim_to k (c\<lparr>world := w\<rparr>))" for k
    by (rule coord_evolves_trans [OF evolves_world evolves_trim])
  have "coord_evolves c ((trim_to k (c\<lparr>world := w\<rparr>))
      \<lparr>jobs := jobs (trim_to k (c\<lparr>world := w\<rparr>)) @ [new_entry j True], next_id := checked_succ n\<rparr>)"
    if "next_id c = Some n" "new_job n f now sel = Ok j" for n j k
    by (rule coord_evolves_trans [OF trim evolves_append])
      (use that new_job_Ok(1) in \<open>auto simp: new_entry_def\<close>)
  then show ?thesis
    by (auto simp: add_pending_def now Let_def new_job_id_def split: option.split sum.split)
qed

lemma evolves_set_metadata: "coord_evolves c (snd (set_metadata env jid m c))"
proof (cases "stopping c \<or> is_err (pending_index c jid)")
  case True
  then show ?thesis by (auto simp: set_metadata_def is_err_def split: sum.splits)
next
  case False
  then obtain i where p: "pending_index c jid = Ok i" by (cases "pending_index c jid") auto
  show ?thesis
  proof (cases "set_encounter_metadata m (job (jobs c ! i))")
    case (Inl e)
    with p show ?thesis by (simp add: set_metadata_def)
  next
    case (Inr j)
    define c1 where "c1 = set_entry i ((jobs c ! i)\<lparr>job := j, metadata_pending := False\<rparr>) c"
    obtain sk c2 where sk: "(if st c1 i Wingman = Waiting \<and> is_wvw c1 i
        then skip_wingman i c1 else (Ok (), c1)) = (sk, c2)" by fastforce
    obtain r c3 where r: "(if st c2 i DpsReport = Waiting then dispatch env i DpsReport c2
        else let (wingman, c') = dispatch_waiting env i Wingman c2;
                 (donbot, c'') = dispatch_waiting env i DonBot c'
             in (and_then wingman (\<lambda>_. donbot), c'')) = (r, c3)" by fastforce
    have "coord_evolves c c1"
      unfolding c1_def by (rule evolves_set_entry) (use set_encounter_metadata_evolves [OF Inr] in simp)
    moreover have "coord_evolves c1 c2"
      using sk evolves_skip_wingman [of c1 i] by (auto split: if_splits)
    moreover have "coord_evolves c2 c3"
      using r evolves_dispatch [of c2 env i DpsReport] evolves_dispatch_waiting [of c2 env i Wingman]
        evolves_dispatch_waiting [of "snd (dispatch_waiting env i Wingman c2)" env i DonBot]
      by (auto split: if_splits prod.splits intro: coord_evolves_trans)
    ultimately have "coord_evolves c c2" and "coord_evolves c (trim_to (coord_limit c3) c3)"
      using evolves_trim coord_evolves_trans by metis+
    moreover have "snd (set_metadata env jid m c) = (if is_ok sk then trim_to (coord_limit c3) c3 else c2)"
      using False p Inr sk r by (auto simp: set_metadata_def c1_def [symmetric] is_ok_def split: sum.splits)
    ultimately show ?thesis by simp
  qed
qed

lemma evolves_fail_waiting: "coord_evolves c (snd (fail_waiting i cn ps c))"
proof (induction ps arbitrary: c)
  case (Cons p ps)
  then show ?case
    using coord_evolves_trans [OF evolves_transition Cons] by (auto split: sum.split)
qed simp

lemma evolves_fail_metadata: "coord_evolves c (snd (fail_metadata jid cn c))"
proof -
  have e: "coord_evolves c (set_entry i ((jobs c ! i)\<lparr>metadata_pending := False\<rparr>) c)" for i
    by (rule evolves_set_entry) simp
  have f: "coord_evolves c (snd (fail_waiting i cn ps (set_entry i ((jobs c ! i)\<lparr>metadata_pending := False\<rparr>) c)))"
    for i ps by (rule coord_evolves_trans [OF e evolves_fail_waiting])
  have g: "coord_evolves c x" if "fail_waiting i cn ps (set_entry i ((jobs c ! i)\<lparr>metadata_pending := False\<rparr>) c) = (r, x)"
    for i ps r x using f [of i ps] that by simp
  then show ?thesis
    using coord_evolves_trans [OF g evolves_trim]
    by (auto simp: fail_metadata_def split: sum.split prod.split)
qed

definition settle_effects :: "'w env \<Rightarrow> provider \<Rightarrow> nat \<Rightarrow> provider_state \<Rightarrow> 'w coordinator \<Rightarrow> 'w coordinator"
where
  "settle_effects env p i nxt c =
     (if p = DpsReport
      then if nxt = Succeeded then fold (release_dependent env i) dependents c
        else if nxt = Failed \<or> nxt = Skipped \<or> nxt = Cancelled
        then settle_dependents i (nxt = Cancelled) c else c
      else c)"

lemma apply_result_unfold:
  "apply_result env r c =
     (if stopping c then (Err ShuttingDown, c)
      else case index c (result_job_id r) of
        Err e \<Rightarrow> (Err e, c)
      | Ok i \<Rightarrow>
          let s = provider_status (job (jobs c ! i)) (result_provider r) in
          if state s \<noteq> Active \<or> attempts s \<noteq> result_attempt r then (Err UnexpectedResult, c)
          else case settle_job env (result_provider r) (result_outcome r) (job (jobs c ! i)) (world c) of
            (Err e, w) \<Rightarrow> (Err e, c\<lparr>world := w\<rparr>)
          | (Ok (nxt, j), w) \<Rightarrow>
              let c2 = settle_effects env (result_provider r) i nxt (set_job i j (c\<lparr>world := w\<rparr>))
              in (Ok (), trim_to (coord_limit c2) c2))"
  unfolding apply_result_def settle_effects_def Let_def by (rule refl)

lemma evolves_settle_effects: "coord_evolves c (settle_effects env p i nxt c)"
  by (simp add: settle_effects_def evolves_settle_dependents evolves_fold evolves_release del: fold.simps)

lemma evolves_settled:
  assumes "settle_job env p out (job (jobs c ! i)) w = (Ok (nxt, j), w')"
  shows "coord_evolves c (trim_to n (settle_effects env p i nxt (set_job i j (c\<lparr>world := w'\<rparr>))))"
proof -
  have "coord_evolves (c\<lparr>world := w'\<rparr>) (set_job i j (c\<lparr>world := w'\<rparr>))"
    by (rule evolves_set_job) (use settle_job_Ok [OF assms] in \<open>simp add: settled_as_def\<close>)
  from coord_evolves_trans [OF evolves_world this]
  show ?thesis by (rule coord_evolves_trans [OF _ coord_evolves_trans [OF evolves_settle_effects evolves_trim]])
qed

lemma evolves_apply_result: "coord_evolves c (snd (apply_result env r c))"
  by (auto simp: apply_result_unfold Let_def split: sum.split prod.split intro: evolves_settled)

lemma evolves_poll: "poll_provider env c = (r, p, c') \<Longrightarrow> coord_evolves c c'"
  by (auto simp: poll_provider_def Let_def split: if_splits prod.splits
      intro: coord_evolves_trans [OF evolves_cursor evolves_world])

lemma evolves_accept: "accept_result env p r c = (b, c') \<Longrightarrow> coord_evolves c c'"
  using evolves_apply_result [of c env r]
  by (auto simp: accept_result_def Let_def split: if_splits prod.splits)

text \<open>The three ways round the loop of \<open>drain_results\<close>, as one induction rule.\<close>

lemma drain_loop_rule:
  assumes stop: "\<And>s emp c. P s emp c s c"
    and got: "\<And>s emp c r p c1 b c2 s' c'. poll_provider env c = (Ok (Some r), p, c1) \<Longrightarrow>
      accept_result env p r c1 = (b, c2) \<Longrightarrow> consumed s < mx \<Longrightarrow>
      P (s\<lparr>consumed := consumed s + 1, rejected := (if b then rejected s else rejected s + 1)\<rparr>) 0 c2 s' c' \<Longrightarrow>
      P s emp c s' c'"
    and none: "\<And>s emp c p c1 s' c'. poll_provider env c = (Ok None, p, c1) \<Longrightarrow>
      emp < length all_providers \<Longrightarrow> P s (emp + 1) c1 s' c' \<Longrightarrow> P s emp c s' c'"
    and err: "\<And>s emp c e p c1 s' c'. poll_provider env c = (Err e, p, c1) \<Longrightarrow>
      emp < length all_providers \<Longrightarrow>
      P (s\<lparr>provider_errors := provider_errors s + 1\<rparr>) (emp + 1) c1 s' c' \<Longrightarrow> P s emp c s' c'"
    and "drain_loop env mx s emp c = (s', c')"
  shows "P s emp c s' c'"
proof -
  have "ev = env \<Longrightarrow> m = mx \<Longrightarrow> drain_loop ev m s emp c = (s', c') \<Longrightarrow> P s emp c s' c'" for ev m
  proof (induction ev m s emp c rule: drain_loop.induct)
    case (1 ev m s emp c)
    obtain r p c1 where poll: "poll_provider ev c = (r, p, c1)" by (metis prod_cases3)
    show ?case
    proof (cases "consumed s < m \<and> emp < length all_providers")
      case False
      with 1(6) have "s' = s" "c' = c" by (auto simp: drain_loop.simps)
      with stop show ?thesis by simp
    next
      case True
      consider (got) x where "r = Ok (Some x)" | (none) "r = Ok None" | (err) e where "r = Err e"
        by (cases r) auto
      then show ?thesis
      proof cases
        case got
        obtain b c2 where acc: "accept_result ev p x c1 = (b, c2)" by fastforce
        have "drain_loop ev m (s\<lparr>consumed := consumed s + 1,
            rejected := (if b then rejected s else rejected s + 1)\<rparr>) 0 c2 = (s', c')"
          using 1(6) True poll got acc by (subst (asm) drain_loop.simps) simp
        note ih = 1(3) [OF True poll [symmetric] got refl refl refl acc [symmetric] 1(4,5) this]
        show ?thesis using assms(2) [OF _ _ _ ih] poll got acc True 1(4,5) by simp
      next
        case none
        have "drain_loop ev m s (emp + 1) c1 = (s', c')"
          using 1(6) True poll none by (subst (asm) drain_loop.simps) simp
        note ih = 1(2) [OF True poll [symmetric] none refl refl 1(4,5) this]
        show ?thesis using assms(3) [OF _ _ ih] poll none True 1(4) by simp
      next
        case err
        have "drain_loop ev m (s\<lparr>provider_errors := provider_errors s + 1\<rparr>) (emp + 1) c1 = (s', c')"
          using 1(6) True poll err by (subst (asm) drain_loop.simps) simp
        note ih = 1(1) [OF True poll [symmetric] err refl 1(4,5) this]
        show ?thesis using assms(4) [OF _ _ ih] poll err True 1(4) by simp
      qed
    qed
  qed
  with assms(5) show ?thesis by simp
qed

lemma evolves_drain_loop:
  assumes "drain_loop env mx s emp c = (s', c')"
  shows "coord_evolves c c'"
  by (rule drain_loop_rule [where P = "\<lambda>_ _ c _ c'. coord_evolves c c'", OF _ _ _ _ assms])
    (auto dest!: evolves_poll evolves_accept intro: coord_evolves_trans)

lemma evolves_drain: "coord_evolves c (snd (drain_results env mx c))"
  using evolves_drain_loop [of env mx empty_summary 0 c]
  by (cases "drain_loop env mx empty_summary 0 c") (simp add: drain_results_def)

lemma evolves_retry_loop: "coord_evolves c (snd (retry_loop env now mx todo n c))"
proof (induction todo arbitrary: n c)
  case (Cons ip todo)
  obtain i p where ip: "ip = (i, p)" by fastforce
  show ?case
    using Cons coord_evolves_trans [OF evolves_dispatch Cons]
    by (auto simp: ip split: provider_state.split)
qed simp

lemma evolves_retries: "coord_evolves c (snd (dispatch_due_retries env mx c))"
proof -
  have "coord_evolves c (trim_to k x)" if "retry_loop env now mx todo n (c\<lparr>world := w\<rparr>) = (m, x)"
    for now todo n w m x k
    using evolves_retry_loop [of "c\<lparr>world := w\<rparr>" env now mx todo n] that
      coord_evolves_trans [OF evolves_world coord_evolves_trans [OF _ evolves_trim]] by simp
  then show ?thesis by (auto simp: dispatch_due_retries_def Let_def split: prod.split)
qed

section \<open>Explicit delivery, history and shutdown\<close>

lemma rearm_explicit_evolves: "rearm_explicit p j = Ok j' \<Longrightarrow> job_evolves j j'"
  by (auto simp: rearm_explicit_def dest: prepare_explicit_delivery_evolves split: if_splits)

lemma retry_job_evolves:
  assumes "retry_job p e = Ok j"
  shows "job_evolves (job e) j"
proof (cases "p = DpsReport \<and> reupload_flag e")
  case True
  with assms obtain j1 j2 where "transition p Waiting '''' (job e) = Ok j1"
    "rearm_explicit Wingman j1 = Ok j2" "rearm_explicit DonBot j2 = Ok j"
    by (auto simp: retry_job_def split: if_splits)
  then show ?thesis
    by (blast intro: job_evolves_trans dest: transition_evolves rearm_explicit_evolves)
next
  case False
  with assms show ?thesis using prepare_manual_retry_evolves by (auto simp: retry_job_def)
qed

lemma reupload_job_evolves: "reupload_job j = Ok j' \<Longrightarrow> job_evolves j j'"
  using reupload_job_Ok(1) by (simp add: rearmed_def)

lemma evolves_entry_dispatch:
  assumes "job_evolves (job (jobs c ! i)) (job e)"
  shows "coord_evolves c (snd (dispatch env i p (set_entry i e c)))"
  by (rule coord_evolves_trans [OF evolves_set_entry evolves_dispatch]) (rule assms)

lemma evolves_retry_failed: "coord_evolves c (snd (retry_failed env jid p c))"
  by (auto simp: retry_failed_def Let_def split: sum.split
      intro!: evolves_entry_dispatch dest: retry_job_evolves)

lemma evolves_reupload: "coord_evolves c (snd (reupload env jid c))"
proof -
  define start where "start i j =
    set_entry i ((jobs c ! i)\<lparr>job := j, reupload_flag := True,
      intents := (\<lambda>p. if p \<in> set uploads then Reupload else intents (jobs c ! i) p)\<rparr>) c" for i j
  define skip where "skip i j =
    (if is_wvw (start i j) i then skip_wingman i (start i j) else (Ok (), start i j))" for i j
  have skip: "coord_evolves c (snd (skip i j))" if "reupload_job (job (jobs c ! i)) = Ok j" for i j
  proof -
    have "coord_evolves c (start i j)"
      unfolding start_def by (rule evolves_set_entry) (use reupload_job_evolves [OF that] in simp)
    moreover have "coord_evolves (start i j) (snd (skip i j))"
      by (simp add: skip_def evolves_skip_wingman)
    ultimately show ?thesis by (rule coord_evolves_trans)
  qed
  have "snd (reupload env jid c) = c \<or>
    (\<exists>i j. reupload_job (job (jobs c ! i)) = Ok j \<and>
       (snd (reupload env jid c) = snd (skip i j) \<or>
        snd (reupload env jid c) = snd (dispatch env i DpsReport (snd (skip i j)))))"
    unfolding reupload_def Let_def start_def [symmetric] skip_def [symmetric]
    by (auto split: sum.split prod.split) (metis snd_conv)+
  then show ?thesis using skip coord_evolves_trans [OF skip evolves_dispatch] by auto
qed

lemma evolves_rechat: "coord_evolves c (snd (rechat env jid c))"
  by (auto simp: rechat_def Let_def split: sum.split
      intro!: evolves_entry_dispatch dest: prepare_explicit_delivery_evolves)

lemma restore_entries_id:
  "restore_entries n rs = Ok es \<Longrightarrow> e \<in> set es \<Longrightarrow> id_of (job e) \<noteq> 0"
  by (induction n rs arbitrary: es rule: restore_entries.induct)
    (auto simp: new_entry_def new_job_id_def dest!: restore_job_entry(1) split: if_splits)

lemma restore_entries_length: "restore_entries n rs = Ok es \<Longrightarrow> length es = length rs"
  by (induction n rs arbitrary: es rule: restore_entries.induct) auto

lemma evolves_restore:
  assumes "coord_limit c \<le> max_history_limit"
  shows "coord_evolves c (snd (restore rs c))"
proof -
  have "coord_evolves c (c\<lparr>next_id := Some (of_nat (length es + 1)), jobs := es, restored := True\<rparr>)"
    if "restore_entries 0 (drop (length rs - coord_limit c) rs) = Ok es" "next_id c = Some 1" for es
  proof -
    have "length es \<le> 10000"
      using restore_entries_length [OF that(1)] assms by (simp add: max_history_limit_def)
    then have "(0 :: u64) < of_nat (length es + 1)"
      using of_nat_u64_less [of 0 "length es + 1"] by simp
    with that restore_entries_id [OF that(1)] show ?thesis
      by (auto simp: coord_evolves_def below_next_def word_less_1 simp del: of_nat_Suc of_nat_add)
  qed
  then show ?thesis by (auto simp: restore_def split: sum.split)
qed

lemma evolves_limit: "coord_evolves c (snd (set_history_limit n c))"
proof -
  have "coord_evolves c (c\<lparr>coord_limit := n\<rparr>)"
    by (rule evolves_same) (auto simp: fun_eq_iff below_next_def)
  then show ?thesis
    using coord_evolves_trans [OF _ evolves_trim] by (auto simp: set_history_limit_def split: sum.split)
qed

lemma evolves_cancel_all: "coord_evolves c (cancel_all env c)"
proof (cases "stopping c")
  case False
  have "coord_evolves c (c\<lparr>stopping := True, world := w, jobs := map cancel_entry (jobs c)\<rparr>)" for w
    using cancel_fold_effect
    by (auto simp: coord_evolves_def below_next_def cancel_entry_def)
  then show ?thesis
    using False by (auto simp: cancel_all_def Let_def intro: coord_evolves_trans [OF _ evolves_trim])
qed (simp add: cancel_all_def)

lemma coordinator_step_evolves:
  "coord_ok outbox c \<Longrightarrow> coord_evolves c (coordinator_step env c x)"
  by (cases x) (simp_all add: evolves_configure evolves_add_pending evolves_set_metadata
      evolves_fail_metadata evolves_apply_result evolves_drain evolves_retries evolves_retry_failed
      evolves_reupload evolves_rechat evolves_restore evolves_limit evolves_cancel_all
      coord_ok_def coord_inv_def)

interpretation coordinator: evolving_machine "coordinator_step (logged env)" "coord_ok snd" coord_evolves for env
  by unfold_locales (auto intro: coord_evolves_trans coordinator_step_evolves)

section \<open>After a result was accepted\<close>

text \<open>An attempt that is over: it is not active, and no later activity has its number.\<close>

definition attempt_over :: "upload_result \<Rightarrow> 'w coordinator \<Rightarrow> bool" where
  "attempt_over r c \<longleftrightarrow>
     below_next c (result_job_id r) \<and>
     (\<forall>e \<in> set (jobs c). id_of (job e) = result_job_id r \<longrightarrow>
        state_of (job e) (result_provider r) = Active \<longrightarrow>
        result_attempt r < attempts (provider_status (job e) (result_provider r))) \<and>
     (\<forall>e \<in> set (jobs c). id_of (job e) = result_job_id r \<longrightarrow>
        result_attempt r \<le> attempts (provider_status (job e) (result_provider r)))"

lemma attempt_over_evolves:
  assumes "attempt_over r c" and "coord_evolves c c'"
  shows "attempt_over r c'"
proof -
  have "(state_of (job x) (result_provider r) = Active \<longrightarrow>
      result_attempt r < attempts (provider_status (job x) (result_provider r))) \<and>
    result_attempt r \<le> attempts (provider_status (job x) (result_provider r))"
    if x: "x \<in> set (jobs c')" and id: "id_of (job x) = result_job_id r" for x
  proof -
    have "below_next c (id_of (job x))" using assms(1) id by (simp add: attempt_over_def)
    with assms(2) x obtain e where e: "e \<in> set (jobs c)" and ev: "job_evolves (job e) (job x)"
      by (auto simp: coord_evolves_def)
    have "id_of (job e) = result_job_id r" using ev id by (simp add: job_evolves_def)
    with assms(1) e have o: "state_of (job e) (result_provider r) = Active \<longrightarrow>
        result_attempt r < attempts (provider_status (job e) (result_provider r))"
      "result_attempt r \<le> attempts (provider_status (job e) (result_provider r))"
      by (auto simp: attempt_over_def)
    have "status_evolves (provider_status (job e) (result_provider r))
        (provider_status (job x) (result_provider r))"
      using ev by (simp add: job_evolves_def)
    with o show ?thesis by (auto simp: status_evolves_def)
  qed
  moreover have "below_next c' (result_job_id r)"
    using assms by (simp add: attempt_over_def coord_evolves_def)
  ultimately show ?thesis by (simp add: attempt_over_def)
qed

lemma attempt_over_rejects:
  assumes "attempt_over r c"
  shows "is_err (fst (apply_result env r c))" and "snd (apply_result env r c) = c"
proof -
  have no: "\<not> (state_of (job (jobs c ! i)) (result_provider r) = Active \<and>
      attempts (provider_status (job (jobs c ! i)) (result_provider r)) = result_attempt r)"
    if "index c (result_job_id r) = Ok i" for i
    using assms index_Ok [OF that] by (auto simp: attempt_over_def)
  then show "is_err (fst (apply_result env r c))" and "snd (apply_result env r c) = c"
    by (auto simp: apply_result_def Let_def split: sum.split)
qed

context recording_env
begin

lemma settle_effects_effect:
  assumes inv: "coord_inv outbox c" and i: "i < length (jobs c)"
    and np: "\<not> metadata_pending (jobs c ! i)"
    and tw: "reupload_flag (jobs c ! i) \<Longrightarrow> st c i Twitch \<noteq> Waiting"
    and own: "st c i p \<noteq> Waiting"
  shows "coord_inv outbox (settle_effects env p i nxt c)" and "touches i c (settle_effects env p i nxt c)"
    and "st (settle_effects env p i nxt c) i p = st c i p"
  using release_all_effect [OF inv i np tw refl] settle_dependents_effect [OF inv i np refl, of "nxt = Cancelled"]
    inv own by (auto simp: settle_effects_def inert_touches settles_def simp del: fold.simps)

lemma apply_result_accepts:
  assumes ok: "coord_ok outbox c" and a: "apply_result env r c = (Ok u, c')"
  obtains i nxt j w c1 where "index c (result_job_id r) = Ok i" and "i < length (jobs c)"
    and "st c i (result_provider r) = Active"
    and "attempts (provider_status (job (jobs c ! i)) (result_provider r)) = result_attempt r"
    and "settle_job env (result_provider r) (result_outcome r) (job (jobs c ! i)) (world c) = (Ok (nxt, j), w)"
    and "settled_as (result_provider r) (job (jobs c ! i)) nxt j"
    and "c1 = set_job i j (c\<lparr>world := w\<rparr>)" and "coord_inv outbox c1" and "\<not> metadata_pending (jobs c1 ! i)"
    and "reupload_flag (jobs c1 ! i) \<Longrightarrow> st c1 i Twitch \<noteq> Waiting"
    and "c' = trim_to (coord_limit c) (settle_effects env (result_provider r) i nxt c1)"
proof -
  let ?p = "result_provider r"
  from a obtain i nxt j w where idx: "index c (result_job_id r) = Ok i"
    and act: "st c i ?p = Active"
    and att: "attempts (provider_status (job (jobs c ! i)) ?p) = result_attempt r"
    and settle: "settle_job env ?p (result_outcome r) (job (jobs c ! i)) (world c) = (Ok (nxt, j), w)"
    and c': "c' = (let c2 = settle_effects env ?p i nxt (set_job i j (c\<lparr>world := w\<rparr>))
      in trim_to (coord_limit c2) c2)"
    by (auto simp: apply_result_unfold st_def Let_def split: if_splits sum.splits prod.splits)
  from index_Ok [OF idx] have i: "i < length (jobs c)" by simp
  define c0 where "c0 = c\<lparr>world := w\<rparr>"
  define c1 where "c1 = set_job i j c0"
  have ok0: "coord_ok outbox c0"
    unfolding c0_def using ok settle_job_world [OF settle] by (rule world_ok)
  then have inv0: "coord_inv outbox c0" by (simp add: coord_ok_def)
  have i0: "i < length (jobs c0)" and act0: "st c0 i ?p = Active" and e0: "jobs c0 ! i = jobs c ! i"
    using i act by (simp_all add: c0_def st_def)
  note s = settle_job_Ok [OF settle]
  note s1 = settled_inv [OF inv0 i0 act0 s [folded e0], folded c1_def]
  have st1: "st c1 i q = (if q = ?p then nxt else st c0 i q)" for q
    using i0 s e0 by (simp add: c1_def settled_as_def) (simp add: st_def)
  have "\<not> is_busy (st c0 i ?p)" if "meta_of (jobs c0 ! i) = None"
    using inv_entry_ok [OF inv0 i0] s1(2) that by (simp add: entry_ok_def st_def)
  then have meta: "meta_of (jobs c0 ! i) \<noteq> None" using act0 by auto
  have tw: "st c1 i Twitch \<noteq> Waiting" if "reupload_flag (jobs c1 ! i)"
  proof -
    have "reupload_flag (jobs c0 ! i)" using that i0 by (simp add: c1_def)
    then show ?thesis
      using calm_st(2) [OF coord_ok_calm [OF ok0 i0] meta] s by (simp add: st1 settled_as_def)
  qed
  have np1: "\<not> metadata_pending (jobs c1 ! i)" using i0 s1(2) by (simp add: c1_def)
  have i1: "i < length (jobs c1)" and own: "st c1 i ?p \<noteq> Waiting"
    using i0 s by (simp_all add: st1 settled_as_def) (simp add: c1_def)
  have "coord_limit (settle_effects env ?p i nxt c1) = coord_limit c"
    using settle_effects_effect(2) [OF s1(1) i1 np1 tw own] by (simp add: touches_def c1_def c0_def)
  then have "c' = trim_to (coord_limit c) (settle_effects env ?p i nxt c1)"
    by (simp add: c' Let_def c1_def c0_def)
  then show thesis
    using that [OF idx i act att settle s c1_def [unfolded c0_def] s1(1) np1 tw] by blast
qed

lemma accepted_is_over:
  assumes ok: "coord_ok outbox c" and a: "apply_result env r c = (Ok u, c')"
  shows "attempt_over r c'"
  using ok a
proof (rule apply_result_accepts)
  fix i nxt j w c1
  let ?p = "result_provider r"
  let ?c2 = "settle_effects env ?p i nxt c1"
  assume idx: "index c (result_job_id r) = Ok i" and i: "i < length (jobs c)"
    and act: "st c i ?p = Active" and att: "attempts (provider_status (job (jobs c ! i)) ?p) = result_attempt r"
    and settle: "settle_job env ?p (result_outcome r) (job (jobs c ! i)) (world c) = (Ok (nxt, j), w)"
    and s: "settled_as ?p (job (jobs c ! i)) nxt j"
    and c1: "c1 = set_job i j (c\<lparr>world := w\<rparr>)" and inv1: "coord_inv outbox c1"
    and np1: "\<not> metadata_pending (jobs c1 ! i)"
    and tw: "reupload_flag (jobs c1 ! i) \<Longrightarrow> st c1 i Twitch \<noteq> Waiting"
    and c': "c' = trim_to (coord_limit c) ?c2"
  have i1: "i < length (jobs c1)" and e1: "job (jobs c1 ! i) = j" using i by (simp_all add: c1)
  have st1: "st c1 i ?p = nxt" using s by (simp add: st_def e1 settled_as_def)
  with s have own: "st c1 i ?p \<noteq> Waiting" by (simp add: settled_as_def)
  note e = settle_effects_effect [OF inv1 i1 np1 tw own]
  have i2: "i < length (jobs ?c2)" using i1 touches_length [OF e(2)] by simp
  have idj: "id_of j = result_job_id r" using s index_Ok [OF idx] by (simp add: settled_as_def job_evolves_def)
  have ev2: "job_evolves j (job (jobs ?c2 ! i))" using touches_entry(5) [OF e(2) i1] by (simp add: e1)
  have ids2: "ids_ok ?c2" using e(1) by (simp add: coord_inv_def)
  have at: "result_attempt r \<le> attempts (provider_status (job (jobs ?c2 ! i)) ?p)"
    using att s ev2 unfolding settled_as_def job_evolves_def status_evolves_def by (metis order_trans)
  have "state_of (job x) ?p \<noteq> Active \<and> result_attempt r \<le> attempts (provider_status (job x) ?p)"
    if "x \<in> set (jobs ?c2)" "id_of (job x) = result_job_id r" for x
  proof -
    have "id_of (job (jobs ?c2 ! i)) = id_of j" using ev2 by (simp add: job_evolves_def)
    with that idj i2 have "x = jobs ?c2 ! i"
      using ids_ok_unique [OF ids2 that(1), of "jobs ?c2 ! i"] by simp
    then show ?thesis using e(3) st1 s at by (simp add: st_def settled_as_def)
  qed
  moreover have "below_next c' (result_job_id r)"
  proof -
    have "below_next c (result_job_id r)"
    proof -
      have "\<forall>e \<in> set (jobs c). below_next c (id_of (job e))"
        using ok by (simp add: coord_ok_def coord_inv_def ids_ok_def)
      from bspec [OF this nth_mem [OF i]] show ?thesis using index_Ok [OF idx] by simp
    qed
    moreover have "coord_evolves c c'" using evolves_apply_result [of c env r] a by simp
    ultimately show ?thesis by (simp add: coord_evolves_def)
  qed
  ultimately show "attempt_over r c'"
    by (auto simp: attempt_over_def c' dest: trim_entries_mem)
qed

end

text \<open>
  C8: A result is accepted at most once. Once \<open>apply_result\<close> has accepted a result in a reachable
  state, the same result is refused in every later state, whatever happened in between (retries,
  reuploads, further results, shutdown), and the refusal changes nothing at all.
\<close>

theorem result_accepted_once:
  assumes "new_coordinator (w, []) ps limit = Ok c"
    and "apply_result (logged env) r (foldl (coordinator_step (logged env)) c before) = (Ok (), c1)"
    and "c2 = foldl (coordinator_step (logged env)) c1 later"
  shows "is_err (fst (apply_result (logged env) r c2)) \<and> snd (apply_result (logged env) r c2) = c2"
proof -
  have ok: "coord_ok snd (foldl (coordinator_step (logged env)) c before)"
    using assms(1) by (rule reachable_ok)
  have "coord_ok snd c1" using logged.apply_result_ok [OF ok, of env r] assms(2) by simp
  moreover have "attempt_over r c1" using ok assms(2) by (rule logged.accepted_is_over)
  ultimately have "attempt_over r c2"
    using coordinator.run_evolves [of c1 env later] assms(3) attempt_over_evolves by blast
  then show ?thesis using attempt_over_rejects by blast
qed

lemma sample_accepts:
  "fst (apply_result (logged quiet_env) report_arrives
     (foldl (coordinator_step (logged quiet_env)) sample_coordinator (take 2 sample_co_ops))) = Ok ()"
  by code_simp

theorem result_accepted_once_witness:
  "let c1 = snd (apply_result (logged quiet_env) report_arrives
       (foldl (coordinator_step (logged quiet_env)) sample_coordinator (take 2 sample_co_ops)));
     c2 = foldl (coordinator_step (logged quiet_env)) c1 [CoReupload 1, CoRetries 5]
   in is_err (fst (apply_result (logged quiet_env) report_arrives c2))"
proof -
  obtain c1 where "apply_result (logged quiet_env) report_arrives
      (foldl (coordinator_step (logged quiet_env)) sample_coordinator (take 2 sample_co_ops)) = (Ok (), c1)"
    using sample_accepts by (metis prod.collapse)
  from result_accepted_once [OF sample_new_coordinator this refl, of "[CoReupload 1, CoRetries 5]"] this
  show ?thesis by (simp add: Let_def)
qed

section \<open>Shutdown and draining\<close>

lemma stopping_step:
  assumes "stopping c"
  shows "\<exists>n m. coordinator_step env c x = c \<or> coordinator_step env c x = trim_to n (c\<lparr>coord_limit := m\<rparr>)"
  using assms
  by (cases x) (auto simp: configure_provider_def add_pending_def set_metadata_def fail_metadata_def
      apply_result_def drain_results_def dispatch_due_retries_def retry_failed_def reupload_def
      rechat_def restore_def cancel_all_def set_history_limit_def require_running_def require_def
      split: sum.split)

definition shut :: "'w coordinator \<Rightarrow> bool" where
  "shut c \<longleftrightarrow> stopping c \<and> (\<forall>e \<in> set (jobs c). \<not> busy e)"

lemma shut_step:
  assumes "shut c"
  shows "shut (coordinator_step env c x)" and "world (coordinator_step env c x) = world c"
  using stopping_step [of c env x] assms by (auto simp: shut_def dest!: trim_entries_mem)

lemma shut_run: "shut c \<Longrightarrow> shut (foldl (coordinator_step env) c ops) \<and>
    world (foldl (coordinator_step env) c ops) = world c"
  by (induction ops arbitrary: c) (auto simp: shut_step)

lemma cancelled_not_busy: "\<not> busy (cancel_entry e)"
  using cancel_fold_effect [of all_providers "job e"] by (simp add: busy_def cancel_entry_def)

text \<open>
  Shutdown is final. After \<open>cancel_all\<close> no job is busy, and whatever is called afterwards, no
  job becomes busy again and no adapter or clock is called again: no request leaves.
\<close>

theorem shutdown_is_final:
  assumes "\<not> stopping c" and "c' = foldl (coordinator_step env) (cancel_all env c) ops"
  shows "stopping c' \<and> (\<forall>e \<in> set (jobs c'). \<not> busy e) \<and> world c' = world (cancel_all env c)"
proof -
  have "shut (cancel_all env c)"
    using assms(1) cancelled_not_busy
    by (auto simp: shut_def cancel_all_def Let_def dest!: trim_entries_mem)
  from shut_run [OF this, of env ops] show ?thesis by (simp add: shut_def assms(2))
qed

theorem shutdown_is_final_witness:
  "list_all (\<lambda>e. \<not> busy e) (jobs (foldl (coordinator_step (logged quiet_env))
      (cancel_all (logged quiet_env) (foldl (coordinator_step (logged quiet_env)) sample_coordinator sample_co_ops))
      [CoReupload 1, CoDrain 3]))"
proof -
  have "\<not> stopping (foldl (coordinator_step (logged quiet_env)) sample_coordinator sample_co_ops)"
    by code_simp
  from shutdown_is_final [OF this refl, of "logged quiet_env" "[CoReupload 1, CoDrain 3]"] show ?thesis
    by (simp add: list_all_iff)
qed

text \<open>
  Draining is bounded: it consumes at most the allowed number of results, counts as rejected
  only consumed ones, and polls past at most four failing adapters for each result and at the end.
\<close>

theorem drain_is_bounded:
  assumes "drain_results env mx c = (s, c')"
  shows "consumed s \<le> mx \<and> rejected s \<le> consumed s \<and> provider_errors s \<le> 4 * (consumed s + 1)"
proof (cases "stopping c")
  case True
  with assms show ?thesis by (auto simp: drain_results_def empty_summary_def)
next
  case False
  with assms have d: "drain_loop env mx empty_summary 0 c = (s, c')" by (simp add: drain_results_def)
  have "consumed empty_summary \<le> mx \<and> rejected empty_summary \<le> consumed empty_summary \<and> (0::nat) \<le> 4 \<longrightarrow>
      consumed s \<le> mx \<and> rejected s \<le> consumed s \<and>
      provider_errors s + 4 * consumed empty_summary + 0 \<le> provider_errors empty_summary + 4 * consumed s + 4"
    by (rule drain_loop_rule [where P = "\<lambda>s emp _ s' _. consumed s \<le> mx \<and> rejected s \<le> consumed s \<and> emp \<le> 4 \<longrightarrow>
          consumed s' \<le> mx \<and> rejected s' \<le> consumed s' \<and>
          provider_errors s' + 4 * consumed s + emp \<le> provider_errors s + 4 * consumed s' + 4", OF _ _ _ _ d])
      (auto simp: all_providers_def split: if_splits)
  then show ?thesis by (simp add: empty_summary_def)
qed

theorem drain_is_bounded_witness:
  "consumed (fst (drain_results quiet_env 3 \<lparr>world = (), slots = (\<lambda>_. True), jobs = [], coord_limit = 2,
     next_id = Some 1, restored = False, result_cursor = 0, stopping = False\<rparr>)) \<le> 3"
  using drain_is_bounded [OF prod.collapse [symmetric]] by blast

section \<open>A report starts what waits for it\<close>

text \<open>What the dispatch of one dependent leaves of its entry.\<close>

definition same_but :: "nat \<Rightarrow> provider \<Rightarrow> 'w coordinator \<Rightarrow> 'w coordinator \<Rightarrow> bool" where
  "same_but i q c c' \<longleftrightarrow>
     length (jobs c') = length (jobs c) \<and> slots c' = slots c \<and> coord_limit c' = coord_limit c \<and>
     meta_of (jobs c' ! i) = meta_of (jobs c ! i) \<and>
     reupload_flag (jobs c' ! i) = reupload_flag (jobs c ! i) \<and>
     id_of (job (jobs c' ! i)) = id_of (job (jobs c ! i)) \<and>
     dps_report_result (snapshot (job (jobs c' ! i))) = dps_report_result (snapshot (job (jobs c ! i))) \<and>
     (\<forall>p. p \<noteq> q \<longrightarrow> provider_status (job (jobs c' ! i)) p = provider_status (job (jobs c ! i)) p)"

lemma same_but_refl [simp]: "same_but i q c c"
  by (simp add: same_but_def)

lemma same_but_trans: "same_but i q c d \<Longrightarrow> same_but i q d f \<Longrightarrow> same_but i q c f"
  by (simp add: same_but_def)

lemma same_but_world [simp]: "same_but i q c (d\<lparr>world := w\<rparr>) = same_but i q c d"
  by (simp add: same_but_def)

lemma transition_same_but:
  assumes "transition q nxt d (job (jobs c ! i)) = Ok j" and "i < length (jobs c)"
  shows "same_but i q c (set_job i j c)"
  using assms transition_frame [OF assms(1)] by (simp add: same_but_def)

lemma try_transition_same_but: "i < length (jobs c) \<Longrightarrow> same_but i q c (try_transition i q nxt d c)"
  by (auto simp: try_transition_def split: sum.split intro: transition_same_but)

lemma dispatch_same_but:
  assumes i: "i < length (jobs c)" and q: "q \<noteq> DpsReport"
  shows "same_but i q c (snd (dispatch env i q c))"
proof (cases "admit c i q")
  case (Inl e)
  with i q show ?thesis
    by (auto simp: dispatch_def skip_wingman_def fail_dispatch_def Let_def split: sum.split
        intro: try_transition_same_but transition_same_but)
next
  case (Inr j)
  have a: "same_but i q c ((set_job i j c)\<lparr>world := w\<rparr>)" for w
    using transition_same_but [OF admit_Ok(4) [OF Inr] i] by simp
  have "same_but i q c (try_transition i q Failed d ((set_job i j c)\<lparr>world := w\<rparr>))" for d w
    by (rule same_but_trans [OF a try_transition_same_but]) (simp add: i)
  with a Inr i q show ?thesis
    by (auto simp: dispatch_def skip_wingman_def fail_dispatch_def Let_def split: sum.split prod.split
        intro: transition_same_but)
qed

lemma release_same_but:
  "i < length (jobs c) \<Longrightarrow> q \<noteq> DpsReport \<Longrightarrow> same_but i q c (release_dependent env i q c)"
  by (simp add: release_dependent_def dispatch_waiting_def dispatch_same_but)

text \<open>A destination that may start, starts.\<close>

definition may_start :: "'w coordinator \<Rightarrow> nat \<Rightarrow> provider \<Rightarrow> bool" where
  "may_start c i p \<longleftrightarrow>
     st c i p = Waiting \<and> slots c p \<and> meta_of (jobs c ! i) \<noteq> None \<and>
     dep_met (job (jobs c ! i)) p \<and> \<not> (p = Wingman \<and> is_wvw c i) \<and>
     checked_succ (attempts (provider_status (job (jobs c ! i)) p)) \<noteq> None \<and>
     (p = Twitch \<longrightarrow> \<not> reupload_flag (jobs c ! i))"

lemma may_start_same_but:
  assumes "same_but i q c c'" and "p \<noteq> q" and "q \<noteq> DpsReport"
  shows "may_start c' i p = may_start c i p" and "st c' i p = st c i p"
  using assms by (auto simp: may_start_def same_but_def st_def dep_met_def is_wvw_def entry_is_wvw_def)

lemma release_starts:
  assumes i: "i < length (jobs c)" and m: "may_start c i p" and p: "p \<noteq> DpsReport"
    and accept: "\<And>q w. \<exists>w'. env_enqueue env q w = (Some (Ok ()), w')"
  shows "st (release_dependent env i p c) i p = Active"
proof -
  obtain n where n: "checked_succ (attempts (provider_status (job (jobs c ! i)) p)) = Some n"
    using m by (auto simp: may_start_def)
  have "state_of (job (jobs c ! i)) p = Waiting" "dep_met (job (jobs c ! i)) p"
    using m by (simp_all add: may_start_def st_def)
  then obtain j where t: "transition p Active ''Uploading'' (job (jobs c ! i)) = Ok j"
    using p n by (auto simp: transition_def dep_met_def Let_def)
  have "admit c i p = Ok j"
    using m t require_dependency_iff [of c i p]
    by (simp add: admit_def require_metadata_def require_providers_def may_start_def)
  moreover obtain w' where "env_enqueue env (make_request (jobs (set_job i j c) ! i) p) (world (set_job i j c))
      = (Some (Ok ()), w')" using accept by blast
  ultimately have "snd (dispatch env i p c) = (set_job i j c)\<lparr>world := w'\<rparr>"
    using m by (auto simp: dispatch_def may_start_def)
  then show ?thesis
    using m i transition_status [OF t, of p]
    by (auto simp: release_dependent_def dispatch_waiting_def may_start_def st_def)
qed

lemma release_all_starts:
  assumes i: "i < length (jobs c)" and m: "may_start c i p" and p: "p \<noteq> DpsReport"
    and accept: "\<And>q w. \<exists>w'. env_enqueue env q w = (Some (Ok ()), w')"
  shows "st (fold (release_dependent env i) dependents c) i p = Active"
proof -
  define c1 where "c1 = release_dependent env i Wingman c"
  define c2 where "c2 = release_dependent env i DonBot c1"
  have s1: "same_but i Wingman c c1" unfolding c1_def by (rule release_same_but) (use i in auto)
  then have i1: "i < length (jobs c1)" using i by (simp add: same_but_def)
  have s2: "same_but i DonBot c1 c2" unfolding c2_def by (rule release_same_but) (use i1 in auto)
  then have i2: "i < length (jobs c2)" using i1 by (simp add: same_but_def)
  have s3: "same_but i Twitch c2 (release_dependent env i Twitch c2)"
    by (rule release_same_but) (use i2 in auto)
  note f1 = may_start_same_but [OF s1] and f2 = may_start_same_but [OF s2] and f3 = may_start_same_but [OF s3]
  have "st (release_dependent env i Twitch c2) i p = Active"
  proof (cases p)
    case Wingman
    then show ?thesis using release_starts [OF i m p accept] f2 f3 by (simp add: c1_def)
  next
    case DonBot
    then show ?thesis using release_starts [OF i1 _ p accept] m f1 f3 by (simp add: c2_def)
  next
    case Twitch
    then show ?thesis using release_starts [OF i2 _ p accept] m f1 f2 by simp
  qed (use p in simp)
  then show ?thesis by (simp add: dependents_def c1_def c2_def)
qed

text \<open>
  When dps.report has accepted a log, everything that waits for it starts: if the adapters
  accept requests, then after the successful result the dps.report upload is recorded as succeeded
  and every dependent destination that was waiting, is configured, has attempts left, and is
  neither Wingman for a World versus World log nor Twitch during a reupload, is active.
\<close>

theorem report_starts_dependents:
  assumes "new_coordinator (w, []) ps limit = Ok c0"
    and c: "c = foldl (coordinator_step (logged env)) c0 before"
    and run: "\<not> stopping c" and idx: "index c jid = Ok i" and act: "st c i DpsReport = Active"
    and r: "r = \<lparr>result_job_id = jid, result_provider = DpsReport,
       result_attempt = attempts (provider_status (job (jobs c ! i)) DpsReport),
       result_outcome = OutSucceeded (DpsReportDone report)\<rparr>"
    and link: "permalink report \<noteq> []"
    and accept: "\<And>q w. \<exists>w'. env_enqueue env q w = (Some (Ok ()), w')"
    and p: "p \<noteq> DpsReport" "st c i p = Waiting" "slots c p" "\<not> (p = Wingman \<and> is_wvw c i)"
      "\<not> (p = Twitch \<and> reupload_flag (jobs c ! i))"
      "attempts (provider_status (job (jobs c ! i)) p) < 4294967295"
  shows "\<exists>c'. apply_result (logged env) r c = (Ok (), c') \<and>
     (\<exists>e \<in> set (jobs c'). id_of (job e) = jid \<and> state_of (job e) DpsReport = Succeeded \<and>
        state_of (job e) p = Active)"
proof -
  have ok: "coord_ok snd c" unfolding c using assms(1) by (rule reachable_ok)
  from index_Ok [OF idx] have i: "i < length (jobs c)" and id: "id_of (job (jobs c ! i)) = jid" by auto
  let ?J = "job (jobs c ! i)"
  obtain j where j: "complete_dps_report report ''Uploaded'' ?J = Ok j"
    using act link by (simp add: complete_dps_report_def require_active_def require_def st_def)
  have settle: "settle_job (logged env) DpsReport (result_outcome r) ?J (world c) = (Ok (Succeeded, j), world c)"
    using j by (simp add: r settle_job_def next_state_def record_success_def notice_of_def detail_or_def)
  note s = settle_job_Ok [OF settle]
  define c1 where "c1 = set_job i j (c\<lparr>world := world c\<rparr>)"
  have act': "st (c\<lparr>world := world c\<rparr>) i DpsReport = Active" using act by (simp add: st_def)
  have inv1: "coord_inv snd c1" and np1: "\<not> metadata_pending (jobs c1 ! i)"
    using settled_inv [of snd c i DpsReport Succeeded j] ok i act s by (simp_all add: c1_def coord_ok_def)
  have i1: "i < length (jobs c1)" and e1: "jobs c1 ! i = (jobs c ! i)\<lparr>job := j\<rparr>"
    using i by (simp_all add: c1_def)
  have "\<not> is_busy (st c i DpsReport)" if "meta_of (jobs c ! i) = None"
    using inv_entry_ok [of snd c i] ok i np1 that by (simp add: coord_ok_def entry_ok_def st_def e1)
  then have meta: "meta_of (jobs c ! i) \<noteq> None" using act by auto
  have tw1: "st c1 i Twitch \<noteq> Waiting" if "reupload_flag (jobs c1 ! i)"
    using calm_st(2) [OF coord_ok_calm [OF ok i] meta] that s by (simp add: e1 st_def settled_as_def)
  have status: "provider_status j p = provider_status ?J p"
    using j p(1) by (auto simp: complete_dps_report_def split: if_splits)
  have "checked_succ (attempts (provider_status j p)) \<noteq> None"
    using p(6) by (auto simp: checked_succ_def status word_less_nat_alt unsigned_minus_1_eq_mask mask_eq_exp_minus_1)
  moreover have "st c1 i p = Waiting" using p(2) by (simp add: st_def e1 status)
  moreover have "dep_met j p" using s by (simp add: dep_met_def settled_as_def)
  moreover have "is_wvw c1 i = is_wvw c i" and "meta_of (jobs c1 ! i) \<noteq> None" and "slots c1 = slots c"
    using s meta by (simp_all add: e1 is_wvw_def entry_is_wvw_def settled_as_def) (simp add: c1_def)
  ultimately have may: "may_start c1 i p" using p by (simp add: may_start_def e1)
  have acc: "\<exists>w'. env_enqueue (logged env) q w = (Some (Ok ()), w')" for q w
    using accept [of q "fst w"] by (auto simp: logged_def)
  define c2 where "c2 = settle_effects (logged env) DpsReport i Succeeded c1"
  have own: "st c1 i DpsReport \<noteq> Waiting" using s by (simp add: st_def e1 settled_as_def)
  note e = logged.settle_effects_effect [OF inv1 i1 np1 tw1 own, of env Succeeded, folded c2_def]
  have act2: "st c2 i p = Active"
    using release_all_starts [OF i1 may p(1) acc] by (simp add: c2_def settle_effects_def)
  have dps2: "st c2 i DpsReport = Succeeded" using e(3) s by (simp add: st_def e1 settled_as_def)
  have i2: "i < length (jobs c2)" using touches_length [OF e(2)] i1 by simp
  have "busy (jobs c2 ! i)" using act2 by (auto simp: busy_def st_def intro: exI [of _ p])
  then have "jobs c2 ! i \<in> set (filter busy (trim_entries (coord_limit c2) (jobs c2)))"
    unfolding trim_entries_busy using i2 by simp
  then have mem: "jobs c2 ! i \<in> set (trim_entries (coord_limit c2) (jobs c2))" by simp
  have "id_of (job (jobs c2 ! i)) = jid"
    using touches_entry(5) [OF e(2) i1] s id by (simp add: e1 settled_as_def job_evolves_def)
  moreover have "apply_result (logged env) r c = (Ok (), trim_to (coord_limit c2) c2)"
    using run idx act settle unfolding c2_def c1_def apply_result_unfold
    by (simp add: r st_def Let_def)
  ultimately show ?thesis
    using mem act2 dps2 by (auto simp: st_def)
qed

lemma sample_waiting_state:
  "let c = foldl (coordinator_step (logged quiet_env)) sample_coordinator (take 2 sample_co_ops) in
   \<not> stopping c \<and> index c 1 = Ok 0 \<and> st c 0 DpsReport = Active \<and> st c 0 Twitch = Waiting \<and>
   slots c Twitch \<and> \<not> reupload_flag (jobs c ! 0) \<and>
   attempts (provider_status (job (jobs c ! 0)) Twitch) < 4294967295"
  by code_simp

theorem report_starts_dependents_witness:
  "\<exists>r c'. apply_result (logged quiet_env) r
     (foldl (coordinator_step (logged quiet_env)) sample_coordinator (take 2 sample_co_ops)) = (Ok (), c') \<and>
     (\<exists>e \<in> set (jobs c'). state_of (job e) Twitch = Active)"
proof -
  define c where "c = foldl (coordinator_step (logged quiet_env)) sample_coordinator (take 2 sample_co_ops)"
  have s: "\<not> stopping c" "index c 1 = Ok 0" "st c 0 DpsReport = Active" "st c 0 Twitch = Waiting"
    "slots c Twitch" "\<not> reupload_flag (jobs c ! 0)"
    "attempts (provider_status (job (jobs c ! 0)) Twitch) < 4294967295"
    using sample_waiting_state [unfolded Let_def, folded c_def] by simp_all
  have "permalink sample_report \<noteq> []" by (simp add: sample_report_def)
  moreover have "\<exists>w'. env_enqueue quiet_env q w = (Some (Ok ()), w')" for q w
    by (simp add: quiet_env_def)
  ultimately show ?thesis
    using report_starts_dependents [OF sample_new_coordinator c_def s(1-3) refl, of sample_report Twitch] s(4-7)
    unfolding c_def by blast
qed

end
