(* ===== verification/Ingestion.thy ===== *)
theory Ingestion
  imports Coordinator_Evolution
begin

text \<open>
  Metadata admission (\<open>rust/src/application/log_ingestion.rs\<close>): the owner of the coordinator and of
  the metadata parser, which keeps the set of jobs whose parse result is still expected. The parser
  is a boxed trait object and lives in the world, as the upload adapters do. \<open>alloc n\<close> is the answer
  of the allocator to \<open>try_reserve\<close> on a set of \<open>n\<close> elements.
\<close>

datatype ingestion_error =
  IngestionShuttingDown | ParserFull | IngestionUnexpected | IngestionResourceLimit
| ParserError parser_error | CoordinatorError coordinator_error

record metadata_drain_summary =
  meta_consumed :: nat
  meta_rejected :: nat
  parser_errors :: nat

record 'w ingestion =
  coord :: "'w coordinator"
  expected :: "job_id set"
  ing_stopping :: bool

definition new_ingestion :: "'w coordinator \<Rightarrow> 'w ingestion" where
  "new_ingestion c = \<lparr>coord = c, expected = {}, ing_stopping = False\<rparr>"

definition set_world :: "'w \<Rightarrow> 'w ingestion \<Rightarrow> 'w ingestion" where
  "set_world w s = s\<lparr>coord := (coord s)\<lparr>world := w\<rparr>\<rparr>"

definition update_parser_capacity ::
  "'w env \<Rightarrow> nat \<Rightarrow> 'w ingestion \<Rightarrow> (ingestion_error, unit) result \<times> 'w ingestion" where
  "update_parser_capacity env n s =
     (if ing_stopping s then (Err IngestionShuttingDown, s)
      else let (r, w) = env_parser_resize env n (world (coord s))
        in (map_err ParserError (unwrap_call (Err ParserPanicked) r), set_world w s))"

definition available_capacity :: "'w env \<Rightarrow> 'w ingestion \<Rightarrow> (ingestion_error, nat) result" where
  "available_capacity env s =
     (if ing_stopping s then Ok 0
      else ok_or (ParserError ParserPanicked) (env_parser_capacity env (world (coord s))))"

definition submit ::
  "(nat \<Rightarrow> bool) \<Rightarrow> 'w env \<Rightarrow> log_file_identity \<Rightarrow> provider_selection \<Rightarrow> 'w ingestion \<Rightarrow>
     (ingestion_error, job_id) result \<times> 'w ingestion" where
  "submit alloc env f enabled s =
     (if ing_stopping s then (Err IngestionShuttingDown, s)
      else case available_capacity env s of
        Err e \<Rightarrow> (Err e, s)
      | Ok n \<Rightarrow>
          if n = 0 then (Err ParserFull, s)
          else if \<not> alloc (card (expected s)) then (Err IngestionResourceLimit, s)
          else case add_pending env f enabled (coord s) of
            (Err e, c) \<Rightarrow> (Err (CoordinatorError e), s\<lparr>coord := c\<rparr>)
          | (Ok jid, c) \<Rightarrow>
              let (r, w) = env_parser_enqueue env \<lparr>meta_job_id = jid, meta_file = f\<rparr> (world c);
                  c1 = c\<lparr>world := w\<rparr>
              in if is_ok (unwrap_call (Err ParserPanicked) r)
                 then (Ok jid, s\<lparr>coord := c1, expected := insert jid (expected s)\<rparr>)
                 else let (failed, c2) = fail_metadata jid False c1
                   in (and_then (map_err CoordinatorError failed) (\<lambda>_. Ok jid), s\<lparr>coord := c2\<rparr>))"

definition handle_result ::
  "'w env \<Rightarrow> metadata_result \<Rightarrow> 'w ingestion \<Rightarrow> (ingestion_error, unit) result \<times> 'w ingestion" where
  "handle_result env r s =
     (if ing_stopping s then (Err IngestionShuttingDown, s)
      else if parsed_job_id r \<notin> expected s then (Err IngestionUnexpected, s)
      else let s1 = s\<lparr>expected := expected s - {parsed_job_id r}\<rparr>;
               (res, c) = (case parsed_metadata r of
                    Ok m \<Rightarrow> set_metadata env (parsed_job_id r) m (coord s1)
                  | Err e \<Rightarrow> fail_metadata (parsed_job_id r) (e = MetadataCancelled) (coord s1))
        in (map_err CoordinatorError res, s1\<lparr>coord := c\<rparr>))"

text \<open>\<open>drain_metadata\<close>: at most \<open>n\<close> polls of the parser; the first empty or failed one ends it.\<close>

fun metadata_loop ::
  "'w env \<Rightarrow> nat \<Rightarrow> metadata_drain_summary \<Rightarrow> 'w ingestion \<Rightarrow> metadata_drain_summary \<times> 'w ingestion"
where
  "metadata_loop env 0 sm s = (sm, s)"
| "metadata_loop env (Suc n) sm s =
     (let (r, w) = env_parser_take env (world (coord s)); s1 = set_world w s in
      case unwrap_call (Err ParserPanicked) r of
        Ok (Some result) \<Rightarrow>
          let (res, s2) = handle_result env result s1
          in metadata_loop env n
               (sm\<lparr>meta_consumed := meta_consumed sm + 1,
                  meta_rejected := (if is_err res then meta_rejected sm + 1 else meta_rejected sm)\<rparr>) s2
      | Ok None \<Rightarrow> (sm, s1)
      | Err _ \<Rightarrow> (sm\<lparr>parser_errors := parser_errors sm + 1\<rparr>, s1))"

definition empty_metadata_summary :: metadata_drain_summary where
  "empty_metadata_summary = \<lparr>meta_consumed = 0, meta_rejected = 0, parser_errors = 0\<rparr>"

definition drain_metadata ::
  "'w env \<Rightarrow> nat \<Rightarrow> 'w ingestion \<Rightarrow> metadata_drain_summary \<times> 'w ingestion" where
  "drain_metadata env n s =
     (if ing_stopping s then (empty_metadata_summary, s)
      else metadata_loop env n empty_metadata_summary s)"

definition cancel_ingestion :: "'w env \<Rightarrow> 'w ingestion \<Rightarrow> 'w ingestion" where
  "cancel_ingestion env s =
     (if ing_stopping s then s
      else let s1 = set_world (env_parser_cancel env (world (coord s))) (s\<lparr>ing_stopping := True\<rparr>)
        in s1\<lparr>coord := cancel_all env (coord s1), expected := {}\<rparr>)"

section \<open>Which jobs await metadata\<close>

definition flags :: "'w coordinator \<Rightarrow> bool \<times> (job_id \<times> bool) list" where
  "flags c = (stopping c, map (\<lambda>e. (id_of (job e), metadata_pending e)) (jobs c))"

definition awaiting :: "'w coordinator \<Rightarrow> job_id list" where
  "awaiting c = map (\<lambda>e. id_of (job e)) (filter metadata_pending (jobs c))"

text \<open>What the ingestion owner sees of the coordinator; most operations keep it.\<close>

definition gate :: "'w coordinator \<Rightarrow> bool \<times> job_id list" where
  "gate c = (stopping c, awaiting c)"

lemma gate_of_flags: "gate c = (fst (flags c), map fst (filter snd (snd (flags c))))"
  by (simp add: gate_def flags_def awaiting_def filter_map comp_def)

lemma flags_gate: "flags c' = flags c \<Longrightarrow> gate c' = gate c"
  by (simp add: gate_of_flags)

lemma flags_world [simp]: "flags (c\<lparr>world := w\<rparr>) = flags c" "flags (c\<lparr>result_cursor := k\<rparr>) = flags c"
  "flags (c\<lparr>coord_limit := n\<rparr>) = flags c"
  by (simp_all add: flags_def)

lemma awaiting_world [simp]: "awaiting (c\<lparr>world := w\<rparr>) = awaiting c"
  by (simp add: awaiting_def)

lemma gate_world [simp]: "gate (c\<lparr>world := w\<rparr>) = gate c"
  by (simp add: gate_def awaiting_def)

lemma busy_pending: "metadata_pending e \<Longrightarrow> busy e"
  by (simp add: busy_def)

lemma gate_trim [simp]: "gate (trim_to n c) = gate c"
proof -
  have sub: "filter metadata_pending es = filter metadata_pending (filter busy es)" for es
    by (induction es) (auto simp: busy_pending)
  show ?thesis
    unfolding gate_def awaiting_def trim_to_frame
    by (subst (1 2) sub) (simp only: trim_entries_busy)
qed

lemma flags_set_entry:
  assumes "i < length (jobs c) \<Longrightarrow> id_of (job e) = id_of (job (jobs c ! i)) \<and>
      metadata_pending e = metadata_pending (jobs c ! i)"
  shows "flags (set_entry i e c) = flags c"
  using assms by (cases "i < length (jobs c)")
    (simp_all add: flags_def set_entry_def map_update list_update_same_conv list_update_beyond)

lemma flags_set_job: "job_evolves (job (jobs c ! i)) j \<Longrightarrow> flags (set_job i j c) = flags c"
  unfolding set_job_def by (rule flags_set_entry) (simp add: job_evolves_def)

lemma flags_transition: "transition p nxt d (job (jobs c ! i)) = Ok j \<Longrightarrow> flags (set_job i j c) = flags c"
  by (rule flags_set_job) (rule transition_evolves)

lemma flags_fold: "(\<And>x c. flags (f x c) = flags c) \<Longrightarrow> flags (fold f xs c) = flags c"
  by (induction xs arbitrary: c) auto

lemma flags_try [simp]: "flags (try_transition i p nxt d c) = flags c"
  by (auto simp: try_transition_def split: sum.split intro: flags_transition)

lemma flags_skip [simp]: "flags (snd (skip_wingman i c)) = flags c"
  by (auto simp: skip_wingman_def split: sum.split intro: flags_transition)

lemma flags_settle [simp]: "flags (settle_dependents i cn c) = flags c"
  unfolding settle_dependents_def by (rule flags_fold) (simp add: settle_dependent_def)

lemma flags_fail_dispatch [simp]: "flags (fail_dispatch i p c) = flags c"
  by (simp add: fail_dispatch_def Let_def)

lemma flags_dispatch [simp]: "flags (snd (dispatch env i p c)) = flags c"
  using flags_transition [OF admit_Ok(4)]
  by (auto simp: dispatch_def Let_def split: prod.split sum.split)

lemma flags_dispatch_waiting [simp]: "flags (snd (dispatch_waiting env i p c)) = flags c"
  by (simp add: dispatch_waiting_def)

lemma flags_release [simp]: "flags (release_dependent env i p c) = flags c"
  by (simp add: release_dependent_def)

lemma flags_settle_effects [simp]: "flags (settle_effects env p i nxt c) = flags c"
  by (simp add: settle_effects_def flags_fold del: fold.simps)

lemma gate_apply [simp]: "gate (snd (apply_result env r c)) = gate c"
proof -
  have "flags (set_job i j (c\<lparr>world := w\<rparr>)) = flags c"
    if "settle_job env p out (job (jobs c ! i)) w0 = (Ok (nxt, j), w)" for i j w p out w0 nxt
    using flags_set_job [of "c\<lparr>world := w\<rparr>" i j] settle_job_Ok [OF that] by (simp add: settled_as_def)
  then show ?thesis
    by (auto simp: apply_result_unfold Let_def split: sum.split prod.split intro!: flags_gate)
qed

lemma gate_apply_eq: "apply_result env r c = (res, c') \<Longrightarrow> gate c' = gate c"
  using gate_apply by (metis snd_conv)

lemma gate_poll: "poll_provider env c = (r, p, c') \<Longrightarrow> gate c' = gate c"
  by (auto simp: poll_provider_def Let_def gate_def awaiting_def split: if_splits prod.splits)

lemma gate_accept: "accept_result env p r c = (b, c') \<Longrightarrow> gate c' = gate c"
  by (cases "apply_result env r c")
    (auto simp: accept_result_def split: if_splits dest: gate_apply_eq)

lemma gate_drain [simp]: "gate (snd (drain_results env mx c)) = gate c"
proof -
  have "gate c' = gate c" if "drain_loop env mx empty_summary 0 c = (s', c')" for s' c'
    by (rule drain_loop_rule [where P = "\<lambda>_ _ c _ c'. gate c' = gate c", OF _ _ _ _ that])
      (auto dest!: gate_poll gate_accept)
  then show ?thesis by (cases "drain_loop env mx empty_summary 0 c") (simp add: drain_results_def)
qed

lemma flags_retry_loop [simp]: "flags (snd (retry_loop env now mx todo n c)) = flags c"
proof (induction todo arbitrary: n c)
  case (Cons ip todo)
  then show ?case by (cases ip) (auto split: provider_state.split)
qed simp

lemma gate_retries [simp]: "gate (snd (dispatch_due_retries env mx c)) = gate c"
proof -
  have "gate x = gate c" if "retry_loop env now mx todo n (c\<lparr>world := w\<rparr>) = (m, x)"
    for now todo n w m x
    using flags_retry_loop [of env now mx todo n "c\<lparr>world := w\<rparr>"] that by (auto intro: flags_gate)
  then show ?thesis by (auto simp: dispatch_due_retries_def Let_def split: prod.split)
qed

lemma flags_rearm:
  "job_evolves (job (jobs c ! i)) (job e) \<Longrightarrow> metadata_pending e = metadata_pending (jobs c ! i) \<Longrightarrow>
     flags (set_entry i e c) = flags c"
  by (rule flags_set_entry) (simp add: job_evolves_def)

lemma flags_skip_eq: "skip_wingman i c = (r, c') \<Longrightarrow> flags c' = flags c"
  using flags_skip by (metis snd_conv)

lemma flags_dispatch_eq: "dispatch env i p c = (r, c') \<Longrightarrow> flags c' = flags c"
  using flags_dispatch by (metis snd_conv)

lemma flags_dispatch_waiting_eq: "dispatch_waiting env i p c = (r, c') \<Longrightarrow> flags c' = flags c"
  using flags_dispatch_waiting by (metis snd_conv)

lemma gate_retry_failed [simp]: "gate (snd (retry_failed env jid p c)) = gate c"
  by (auto simp: retry_failed_def Let_def split: sum.split intro!: flags_gate flags_rearm;
      erule retry_job_evolves)

lemma gate_reupload [simp]: "gate (snd (reupload env jid c)) = gate c"
proof -
  have "flags (set_entry i ((jobs c ! i)\<lparr>job := j, reupload_flag := True, intents := x\<rparr>) c) = flags c"
    if "reupload_job (job (jobs c ! i)) = Ok j" for i j x
    by (rule flags_rearm) (use reupload_job_evolves [OF that] in simp_all)
  then show ?thesis
    by (auto simp: reupload_def Let_def split: sum.split prod.split intro!: flags_gate
        dest: flags_skip_eq split: if_splits)
qed

lemma gate_rechat [simp]: "gate (snd (rechat env jid c)) = gate c"
  by (auto simp: rechat_def Let_def split: sum.split intro!: flags_gate flags_rearm;
      erule prepare_explicit_delivery_evolves)

lemma gate_configure [simp]: "gate (snd (configure_provider env conf c)) = gate c"
  by (simp add: configure_provider_def Let_def split: prod.split)

lemma gate_limit [simp]: "gate (snd (set_history_limit n c)) = gate c"
  using gate_trim [of n "c\<lparr>coord_limit := n\<rparr>"] flags_gate [of "c\<lparr>coord_limit := n\<rparr>" c]
  by (auto simp: set_history_limit_def split: sum.split)

lemma restore_entries_idle: "restore_entries n rs = Ok es \<Longrightarrow> filter metadata_pending es = []"
  by (induction n rs arbitrary: es rule: restore_entries.induct) (auto simp: new_entry_def)

lemma gate_restore [simp]: "gate (snd (restore rs c)) = gate c"
  by (auto simp: restore_def gate_def awaiting_def split: sum.split dest: restore_entries_idle)

text \<open>The operations of the application owner that go past the metadata gate.\<close>

fun past_gate :: "coordinator_op \<Rightarrow> bool" where
  "past_gate (CoAdd _ _) = False"
| "past_gate (CoMetadata _ _) = False"
| "past_gate (CoNoMetadata _ _) = False"
| "past_gate CoCancelAll = False"
| "past_gate _ = True"

lemma gate_step: "past_gate x \<Longrightarrow> gate (coordinator_step env c x) = gate c"
  by (cases x) simp_all

section \<open>The three operations behind the gate\<close>

lemma gate_set_entry_done:
  assumes ids: "ids_ok c" and i: "i < length (jobs c)" and p: "metadata_pending (jobs c ! i)"
    and e: "\<not> metadata_pending e"
  shows "set (awaiting (set_entry i e c)) = set (awaiting c) - {id_of (job (jobs c ! i))}"
    and "stopping (set_entry i e c) = stopping c"
proof -
  have d: "distinct (jobs c)" using ids by (auto simp: ids_ok_def distinct_map)
  have "set (awaiting (set_entry i e c)) =
      (\<lambda>x. id_of (job x)) ` {x \<in> set (jobs c) - {jobs c ! i}. metadata_pending x}"
    using e by (auto simp: awaiting_def set_entry_def set_update_distinct [OF d i])
  also have "\<dots> = set (awaiting c) - {id_of (job (jobs c ! i))}"
    using ids_ok_unique [OF ids] i by (force simp: awaiting_def)
  finally show "set (awaiting (set_entry i e c)) = set (awaiting c) - {id_of (job (jobs c ! i))}" .
  show "stopping (set_entry i e c) = stopping c" using i by simp
qed

lemma awaiting_pending_index:
  assumes inv: "coord_inv outbox c" and j: "jid \<in> set (awaiting c)"
  obtains i where "pending_index c jid = Ok i" and "i < length (jobs c)"
    and "metadata_pending (jobs c ! i)" and "id_of (job (jobs c ! i)) = jid"
    and "meta_of (jobs c ! i) = None"
proof -
  obtain i where idx: "index c jid = Ok i"
    using j position_None [of "\<lambda>e. id_of (job e) = jid" "jobs c"]
    by (cases "position (\<lambda>e. id_of (job e) = jid) (jobs c)") (auto simp: awaiting_def index_def ok_or_def)
  note x = index_Ok [OF idx]
  from j obtain e where e: "e \<in> set (jobs c)" "metadata_pending e" "id_of (job e) = jid"
    by (auto simp: awaiting_def)
  then have "e = jobs c ! i"
    using ids_ok_unique [of c e "jobs c ! i"] inv x by (simp add: coord_inv_def)
  with e have p: "metadata_pending (jobs c ! i)" by simp
  have "meta_of (jobs c ! i) = None \<and> (\<forall>p. st c i p = Waiting \<or> st c i p = Disabled)"
    using inv_entry_ok [OF inv] x p by (simp add: entry_ok_def st_def)
  with idx x p show thesis using that by (auto simp: pending_index_Ok_iff)
qed

lemma flags_fail_waiting [simp]: "flags (snd (fail_waiting i cn ps c)) = flags c"
  by (induction ps arbitrary: c) (auto split: sum.split dest: flags_transition)

lemma fail_metadata_gate:
  assumes inv: "coord_inv outbox c" and j: "jid \<in> set (awaiting c)" and run: "\<not> stopping c"
    and f: "fail_metadata jid cn c = (r, c')"
  shows "r = Ok ()" and "set (awaiting c') = set (awaiting c) - {jid}" and "\<not> stopping c'"
proof -
  from inv j obtain i where p: "pending_index c jid = Ok i" "i < length (jobs c)"
    "metadata_pending (jobs c ! i)" "id_of (job (jobs c ! i)) = jid" "meta_of (jobs c ! i) = None"
    by (rule awaiting_pending_index)
  define c1 where "c1 = set_entry i ((jobs c ! i)\<lparr>metadata_pending := False\<rparr>) c"
  have s1: "st c1 i q = st c i q" for q
    using p(2) by (simp add: c1_def) (simp add: st_def)
  have "\<forall>q. st c1 i q = Waiting \<or> \<not> is_busy (st c1 i q)"
    using p(1) unfolding pending_index_Ok_iff s1 by (metis is_busy.simps(4))
  moreover have "i < length (jobs c1)" using p(2) by (simp add: c1_def)
  ultimately obtain j where w: "fail_waiting i cn all_providers c1 = (Ok (), set_job i j c1)"
    using fail_waiting_effect [of i c1 cn all_providers] by blast
  have eq: "r = Ok () \<and> c' = trim_to (coord_limit (set_job i j c1)) (set_job i j c1)"
    using f run p(1) w by (auto simp: fail_metadata_def c1_def)
  then show "r = Ok ()" by simp
  have g: "gate c' = gate c1"
    using flags_gate [of "set_job i j c1" c1] flags_fail_waiting [of i cn all_providers c1] eq w by simp
  have ids: "ids_ok c" using inv by (simp add: coord_inv_def)
  note d = gate_set_entry_done [OF ids p(2,3), of "(jobs c ! i)\<lparr>metadata_pending := False\<rparr>", folded c1_def]
  show "set (awaiting c') = set (awaiting c) - {jid}" and "\<not> stopping c'"
    using g d p(4) run by (simp_all add: gate_def)
qed

lemma set_metadata_gate:
  assumes inv: "coord_inv outbox c" and j: "jid \<in> set (awaiting c)" and run: "\<not> stopping c"
    and f: "set_metadata env jid m c = (r, c')"
  shows "set (awaiting c') = set (awaiting c) - {jid}" and "\<not> stopping c'"
proof -
  from inv j obtain i where p: "pending_index c jid = Ok i" "i < length (jobs c)"
    "metadata_pending (jobs c ! i)" "id_of (job (jobs c ! i)) = jid" "meta_of (jobs c ! i) = None"
    by (rule awaiting_pending_index)
  obtain j where j: "set_encounter_metadata m (job (jobs c ! i)) = Ok j"
    using p(5) by (simp add: set_encounter_metadata_def)
  define c1 where "c1 = set_entry i ((jobs c ! i)\<lparr>job := j, metadata_pending := False\<rparr>) c"
  obtain sk c2 where sk: "(if st c1 i Wingman = Waiting \<and> is_wvw c1 i
      then skip_wingman i c1 else (Ok (), c1)) = (sk, c2)" by fastforce
  obtain r3 c3 where r: "(if st c2 i DpsReport = Waiting then dispatch env i DpsReport c2
      else let (wingman, c') = dispatch_waiting env i Wingman c2;
               (donbot, c'') = dispatch_waiting env i DonBot c'
           in (and_then wingman (\<lambda>_. donbot), c'')) = (r3, c3)" by fastforce
  have "flags c2 = flags c1" using sk by (auto split: if_splits dest: flags_skip_eq)
  moreover have "flags c3 = flags c2"
    using r by (auto split: if_splits prod.splits dest!: flags_dispatch_eq flags_dispatch_waiting_eq)
  moreover have "c' = c2 \<or> c' = trim_to (coord_limit c3) c3"
    using f run p(1) j sk r by (auto simp: set_metadata_def c1_def [symmetric] split: sum.splits)
  ultimately have g: "gate c' = gate c1"
    using flags_gate by (metis gate_trim)
  have ids: "ids_ok c" using inv by (simp add: coord_inv_def)
  note d = gate_set_entry_done [OF ids p(2,3), of "(jobs c ! i)\<lparr>job := j, metadata_pending := False\<rparr>", folded c1_def]
  show "set (awaiting c') = set (awaiting c) - {jid}" and "\<not> stopping c'"
    using g d p(4) run by (simp_all add: gate_def)
qed

lemma add_pending_gate:
  assumes a: "add_pending env f sel c = (r, c')"
  shows "stopping c' = stopping c" and "r = Err e \<Longrightarrow> awaiting c' = awaiting c"
    and "r = Ok jid \<Longrightarrow> awaiting c' = awaiting c @ [jid] \<and> \<not> stopping c"
proof -
  obtain now w where now: "env_system_now env (world c) = (now, w)" by fastforce
  define c2 where "c2 = trim_to (coord_limit c - 1) (c\<lparr>world := w\<rparr>)"
  have g: "stopping c2 = stopping c" "awaiting c2 = awaiting c"
    using gate_trim [of "coord_limit c - 1" "c\<lparr>world := w\<rparr>"] by (simp_all add: c2_def gate_def)
  have "(\<exists>e. r = Err e) \<and> (c' = c \<or> c' = c\<lparr>world := w\<rparr>) \<or>
    \<not> stopping c \<and> (\<exists>n j x. r = Ok n \<and> new_job n f now sel = Ok j \<and>
      c' = c2\<lparr>jobs := jobs c2 @ [new_entry j True], next_id := x\<rparr>)"
    using a
    by (auto simp: add_pending_def now Let_def new_job_id_def c2_def split: if_splits option.splits sum.splits)
  then show "stopping c' = stopping c" and "r = Err e \<Longrightarrow> awaiting c' = awaiting c"
    and "r = Ok jid \<Longrightarrow> awaiting c' = awaiting c @ [jid] \<and> \<not> stopping c"
    using g new_job_Ok(1) by (auto simp: awaiting_def new_entry_def)
qed

section \<open>The owner as a machine\<close>

datatype ingestion_op =
  IngSubmit log_file_identity provider_selection
| IngResult metadata_result
| IngDrain nat
| IngResize nat
| IngUploads coordinator_op
| IngCancel

fun ingestion_step :: "(nat \<Rightarrow> bool) \<Rightarrow> 'w env \<Rightarrow> 'w ingestion \<Rightarrow> ingestion_op \<Rightarrow> 'w ingestion" where
  "ingestion_step alloc env s (IngSubmit f sel) = snd (submit alloc env f sel s)"
| "ingestion_step alloc env s (IngResult r) = snd (handle_result env r s)"
| "ingestion_step alloc env s (IngDrain n) = snd (drain_metadata env n s)"
| "ingestion_step alloc env s (IngResize n) = snd (update_parser_capacity env n s)"
| "ingestion_step alloc env s (IngUploads x) =
     (if past_gate x then s\<lparr>coord := coordinator_step env (coord s) x\<rparr> else s)"
| "ingestion_step alloc env s IngCancel = cancel_ingestion env s"

text \<open>The expected results are those of the jobs that await metadata.\<close>

definition ingestion_ok :: "('w \<Rightarrow> upload_request list) \<Rightarrow> 'w ingestion \<Rightarrow> bool" where
  "ingestion_ok outbox s \<longleftrightarrow>
     coord_ok outbox (coord s) \<and> stopping (coord s) = ing_stopping s \<and>
     expected s = set (awaiting (coord s))"

lemma ingestion_inv: "ingestion_ok outbox s \<Longrightarrow> coord_inv outbox (coord s)"
  by (simp add: ingestion_ok_def coord_ok_def)

lemma set_world_ok:
  "ingestion_ok outbox s \<Longrightarrow> outbox w = outbox (world (coord s)) \<Longrightarrow> ingestion_ok outbox (set_world w s)"
  by (simp add: ingestion_ok_def set_world_def world_ok)

lemma set_world_frame [simp]:
  "ing_stopping (set_world w s) = ing_stopping s" "expected (set_world w s) = expected s"
  by (simp_all add: set_world_def)

lemma new_ingestion_ok:
  "new_coordinator (w, []) ps limit = Ok c \<Longrightarrow> ingestion_ok snd (new_ingestion c)"
  using new_coordinator_ok [of w ps limit c]
  by (auto simp: ingestion_ok_def new_ingestion_def new_coordinator_def awaiting_def split: if_splits)

context recording_env
begin

lemma submit_effect:
  assumes ok: "ingestion_ok outbox s" and sub: "submit alloc env f sel s = (r, s')"
  shows "ingestion_ok outbox s'"
    and "r = Ok jid \<Longrightarrow> jid \<notin> expected s"
    and "r = Err (CoordinatorError e) \<Longrightarrow> fst (add_pending env f sel (coord s)) = Err e"
proof -
  have main: "ingestion_ok outbox s' \<and> (\<forall>jid. r = Ok jid \<longrightarrow> jid \<notin> expected s) \<and>
    (\<forall>e. r = Err (CoordinatorError e) \<longrightarrow> fst (add_pending env f sel (coord s)) = Err e)"
  proof (cases "ing_stopping s \<or> (\<forall>n. available_capacity env s = Ok n \<longrightarrow> n = 0) \<or> \<not> alloc (card (expected s))")
    case True
    with sub have "s' = s \<and> (\<exists>e. r = Err e \<and> (\<forall>x. e \<noteq> CoordinatorError x))"
      by (auto simp: submit_def available_capacity_def ok_or_def split: sum.splits if_splits option.splits)
    with ok show ?thesis by auto
  next
    case False
    then obtain n where run: "\<not> ing_stopping s" and cap: "available_capacity env s = Ok n" "n \<noteq> 0"
      and al: "alloc (card (expected s))" by auto
    obtain ra c where add: "add_pending env f sel (coord s) = (ra, c)" by fastforce
    have okc: "coord_ok outbox c"
      using add_pending_ok [of "coord s" f sel] ok add by (simp add: ingestion_ok_def)
    note g = add_pending_gate [OF add]
    show ?thesis
    proof (cases ra)
      case (Inl e)
      with sub run cap al add have "r = Err (CoordinatorError e)" "s' = s\<lparr>coord := c\<rparr>"
        by (simp_all add: submit_def)
      with ok okc g Inl add show ?thesis by (simp add: ingestion_ok_def)
    next
      case (Inr jid)
      obtain re w where enq: "env_parser_enqueue env \<lparr>meta_job_id = jid, meta_file = f\<rparr> (world c) = (re, w)"
        by fastforce
      define c1 where "c1 = c\<lparr>world := w\<rparr>"
      have ok1: "coord_ok outbox c1"
        unfolding c1_def using okc sent_parser_enqueue [OF enq] by (rule world_ok)
      have aw: "awaiting c1 = awaiting (coord s) @ [jid]" "\<not> stopping c1"
        using g(1) g(3) [OF Inr] by (simp_all add: c1_def)
      have "distinct (awaiting c1)"
        using ok1 unfolding coord_ok_def coord_inv_def ids_ok_def awaiting_def
        by (auto intro: distinct_map_filter)
      then have fresh: "jid \<notin> expected s" using aw ok by (simp add: ingestion_ok_def)
      show ?thesis
      proof (cases "is_ok (unwrap_call (Err ParserPanicked) re)")
        case True
        with sub run cap al add Inr enq
        have "r = Ok jid" "s' = s\<lparr>coord := c1, expected := insert jid (expected s)\<rparr>"
          by (auto simp: submit_def c1_def)
        with ok ok1 aw fresh run add show ?thesis by (auto simp: ingestion_ok_def)
      next
        case False
        obtain rf c2 where fm: "fail_metadata jid False c1 = (rf, c2)" by fastforce
        have j: "jid \<in> set (awaiting c1)" and inv1: "coord_inv outbox c1"
          using aw ok1 by (simp_all add: coord_ok_def)
        note fg = fail_metadata_gate [OF inv1 j aw(2) fm]
        have "r = Ok jid" "s' = s\<lparr>coord := c2\<rparr>"
          using sub run cap al add Inr enq False fm fg(1) by (auto simp: submit_def c1_def)
        moreover have "coord_ok outbox c2" using fail_metadata_ok [OF ok1, of jid False] fm by simp
        ultimately show ?thesis using ok fg aw fresh run add by (auto simp: ingestion_ok_def)
      qed
    qed
  qed
  then show "ingestion_ok outbox s'" "r = Ok jid \<Longrightarrow> jid \<notin> expected s"
    "r = Err (CoordinatorError e) \<Longrightarrow> fst (add_pending env f sel (coord s)) = Err e" by auto
qed

lemma handle_result_effect:
  assumes ok: "ingestion_ok outbox s" and h: "handle_result env r s = (res, s')"
  shows "ingestion_ok outbox s'"
    and "\<not> ing_stopping s \<Longrightarrow> expected s' = expected s - {parsed_job_id r}"
proof -
  have "ingestion_ok outbox s' \<and> (\<not> ing_stopping s \<longrightarrow> expected s' = expected s - {parsed_job_id r})"
  proof (cases "ing_stopping s \<or> parsed_job_id r \<notin> expected s")
    case True
    with h have "s' = s" by (auto simp: handle_result_def split: if_splits)
    with ok True show ?thesis by auto
  next
    case False
    let ?j = "parsed_job_id r"
    obtain res1 c where c: "(case parsed_metadata r of
        Ok m \<Rightarrow> set_metadata env ?j m (coord s)
      | Err e \<Rightarrow> fail_metadata ?j (e = MetadataCancelled) (coord s)) = (res1, c)" by fastforce
    have s': "s' = s\<lparr>expected := expected s - {?j}, coord := c\<rparr>"
      using h False c by (cases "parsed_metadata r") (auto simp: handle_result_def)
    have j: "?j \<in> set (awaiting (coord s))" and run: "\<not> stopping (coord s)"
      using ok False by (simp_all add: ingestion_ok_def)
    have okc: "coord_ok outbox (coord s)" using ok by (simp add: ingestion_ok_def)
    then have "coord_ok outbox c"
      using c set_metadata_ok [of "coord s" ?j] fail_metadata_ok [of outbox "coord s" ?j]
      by (auto split: sum.splits) (metis snd_conv)+
    moreover have "set (awaiting c) = set (awaiting (coord s)) - {?j} \<and> \<not> stopping c"
      using c set_metadata_gate [OF ingestion_inv [OF ok] j run] fail_metadata_gate(2,3) [OF ingestion_inv [OF ok] j run]
      by (auto split: sum.splits)
    ultimately show ?thesis using ok False by (auto simp: ingestion_ok_def s')
  qed
  then show "ingestion_ok outbox s'" "\<not> ing_stopping s \<Longrightarrow> expected s' = expected s - {parsed_job_id r}"
    by auto
qed

lemma metadata_loop_ok:
  "ingestion_ok outbox s \<Longrightarrow> ingestion_ok outbox (snd (metadata_loop env n sm s))"
proof (induction n arbitrary: sm s)
  case (Suc n)
  obtain r w where t: "env_parser_take env (world (coord s)) = (r, w)" by fastforce
  have ok1: "ingestion_ok outbox (set_world w s)"
    using Suc.prems sent_parser_take [OF t] by (rule set_world_ok)
  show ?case
    using Suc.IH handle_result_effect(1) [OF ok1] ok1
    by (auto simp: t Let_def split: sum.split option.split prod.split)
qed simp

lemma drain_metadata_ok: "ingestion_ok outbox s \<Longrightarrow> ingestion_ok outbox (snd (drain_metadata env n s))"
  by (simp add: drain_metadata_def metadata_loop_ok)

lemma cancel_ingestion_ok:
  assumes ok: "ingestion_ok outbox s"
  shows "ingestion_ok outbox (cancel_ingestion env s)"
proof (cases "ing_stopping s")
  case False
  define c where "c = (coord s)\<lparr>world := env_parser_cancel env (world (coord s))\<rparr>"
  have okc: "coord_ok outbox c"
    unfolding c_def by (rule world_ok) (use ok sent_parser_cancel in \<open>auto simp: ingestion_ok_def\<close>)
  have run: "\<not> stopping c" using ok False by (simp add: c_def ingestion_ok_def)
  have "gate (cancel_all env c) = (True, [])"
  proof -
    have "filter metadata_pending (map cancel_entry es) = []" for es
      by (induction es) (simp_all add: cancel_entry_def)
    then show ?thesis using run by (simp add: cancel_all_def Let_def) (simp add: gate_def awaiting_def)
  qed
  then show ?thesis
    using False cancel_all_ok [OF okc] by (simp add: ingestion_ok_def cancel_ingestion_def set_world_def c_def gate_def Let_def)
qed (use ok in \<open>simp add: cancel_ingestion_def\<close>)

lemma ingestion_step_ok:
  assumes ok: "ingestion_ok outbox s"
  shows "ingestion_ok outbox (ingestion_step alloc env s x)"
proof (cases x)
  case (IngSubmit f sel)
  then show ?thesis using submit_effect(1) [OF ok prod.collapse [symmetric]] by simp
next
  case (IngResult r)
  then show ?thesis using handle_result_effect(1) [OF ok prod.collapse [symmetric]] by simp
next
  case (IngResize n)
  then show ?thesis using ok
    by (auto simp: update_parser_capacity_def Let_def split: prod.split intro!: set_world_ok dest: sent_parser_resize)
next
  case (IngUploads y)
  have "gate (coordinator_step env (coord s) y) = gate (coord s)" if "past_gate y"
    using that by (rule gate_step)
  then show ?thesis
    using IngUploads ok coordinator_step_ok [of "coord s" y] by (auto simp: ingestion_ok_def gate_def)
qed (use ok drain_metadata_ok cancel_ingestion_ok in simp_all)

end

interpretation ingestion: machine "ingestion_step alloc (logged env)" "ingestion_ok snd" for alloc env
  by unfold_locales (rule logged.ingestion_step_ok)

section \<open>A job is settled once\<close>

definition dealt_with :: "job_id \<Rightarrow> 'w ingestion \<Rightarrow> bool" where
  "dealt_with jid s \<longleftrightarrow> jid \<notin> expected s \<and> below_next (coord s) jid"

lemma dealt_with_evolves:
  "dealt_with jid s \<Longrightarrow> coord_evolves (coord s) (coord s') \<Longrightarrow> expected s' \<subseteq> expected s \<Longrightarrow> dealt_with jid s'"
  by (auto simp: dealt_with_def coord_evolves_def)

lemma add_pending_id: "add_pending env f sel c = (Ok jid, c') \<Longrightarrow> next_id c = Some jid"
  by (auto simp: add_pending_def Let_def new_job_id_def split: if_splits option.splits sum.splits prod.splits)

lemma evolves_add_eq: "add_pending env f sel c = (r, c') \<Longrightarrow> coord_evolves c c'"
  using evolves_add_pending by (metis snd_conv)

lemma evolves_fail_eq: "fail_metadata jid cn c = (r, c') \<Longrightarrow> coord_evolves c c'"
  using evolves_fail_metadata by (metis snd_conv)

lemma evolves_set_eq: "set_metadata env jid m c = (r, c') \<Longrightarrow> coord_evolves c c'"
  using evolves_set_metadata by (metis snd_conv)

lemma submit_keeps_dealt:
  assumes d: "dealt_with jid s" and sub: "submit alloc env f sel s = (r, s')"
  shows "dealt_with jid s'"
proof -
  have "s' = s \<or> (\<exists>ra c. add_pending env f sel (coord s) = (ra, c) \<and>
      coord_evolves c (coord s') \<and> (expected s' = expected s \<or> (\<exists>n. ra = Ok n \<and> expected s' = insert n (expected s))))"
    using sub evolves_fail_eq coord_evolves_trans [OF evolves_world evolves_fail_eq]
    by (cases "add_pending env f sel (coord s)")
      (auto simp: submit_def Let_def split: if_splits sum.splits prod.splits)
  then show ?thesis
  proof
    assume "\<exists>ra c. add_pending env f sel (coord s) = (ra, c) \<and>
      coord_evolves c (coord s') \<and> (expected s' = expected s \<or> (\<exists>n. ra = Ok n \<and> expected s' = insert n (expected s)))"
    then obtain ra c where a: "add_pending env f sel (coord s) = (ra, c)" and e: "coord_evolves c (coord s')"
      and x: "expected s' = expected s \<or> (\<exists>n. ra = Ok n \<and> expected s' = insert n (expected s))" by blast
    have "jid \<noteq> n" if "ra = Ok n" for n
      using d add_pending_id [of env f sel "coord s" n c] a that by (auto simp: dealt_with_def below_next_def)
    then have "jid \<notin> expected s'" using d x by (auto simp: dealt_with_def)
    moreover have "coord_evolves (coord s) (coord s')"
      using evolves_add_eq [OF a] e by (rule coord_evolves_trans)
    ultimately show ?thesis using d by (simp add: dealt_with_def coord_evolves_def)
  qed (use d in simp)
qed

lemma handle_evolves:
  assumes "handle_result env r s = (res, s')"
  shows "coord_evolves (coord s) (coord s')" and "expected s' \<subseteq> expected s"
  using assms
  by (cases "parsed_metadata r"; auto simp: handle_result_def split: if_splits prod.splits
      intro: evolves_fail_eq evolves_set_eq)+

lemma metadata_loop_evolves:
  "coord_evolves (coord s) (coord (snd (metadata_loop env n sm s))) \<and>
   expected (snd (metadata_loop env n sm s)) \<subseteq> expected s"
proof (induction n arbitrary: sm s)
  case (Suc n)
  obtain r w where t: "env_parser_take env (world (coord s)) = (r, w)" by fastforce
  have w: "coord_evolves (coord s) (coord (set_world w s))" by (simp add: set_world_def)
  show ?case
  proof (cases "\<exists>x. unwrap_call (Err ParserPanicked) r = Ok (Some x)")
    case True
    then obtain x where x: "unwrap_call (Err ParserPanicked) r = Ok (Some x)" by blast
    obtain res s2 where h: "handle_result env x (set_world w s) = (res, s2)" by fastforce
    note e = handle_evolves [OF h]
    show ?thesis
      using coord_evolves_trans [OF coord_evolves_trans [OF w e(1)]] e(2) Suc.IH [of s2] x t h
      by (fastforce simp: Let_def)
  next
    case False
    then show ?thesis using t w by (auto simp: Let_def split: sum.split option.split)
  qed
qed simp

lemma ingestion_step_keeps_dealt:
  assumes ok: "ingestion_ok outbox s" and d: "dealt_with jid s"
  shows "dealt_with jid (ingestion_step alloc env s x)"
proof (cases x)
  case (IngSubmit f sel)
  then show ?thesis using submit_keeps_dealt [OF d prod.collapse [symmetric]] by simp
next
  case (IngResult r)
  obtain res s1 where h: "handle_result env r s = (res, s1)" by fastforce
  with IngResult show ?thesis using dealt_with_evolves [OF d handle_evolves [OF h]] by simp
next
  case (IngDrain n)
  then show ?thesis
    using dealt_with_evolves [OF d] metadata_loop_evolves [of s env n empty_metadata_summary] d
    by (simp add: drain_metadata_def)
next
  case (IngResize n)
  have "dealt_with jid (set_world w s)" for w
    by (rule dealt_with_evolves [OF d]) (simp_all add: set_world_def)
  with IngResize d show ?thesis by (simp add: update_parser_capacity_def Let_def split: prod.split)
next
  case (IngUploads y)
  then show ?thesis
    using dealt_with_evolves [OF d] coordinator_step_evolves [of outbox "coord s" env y] ok d
    by (simp add: ingestion_ok_def)
next
  case IngCancel
  have "coord_evolves (coord s) (cancel_all env ((coord s)\<lparr>world := w\<rparr>))" for w
    by (rule coord_evolves_trans [OF evolves_world evolves_cancel_all])
  with IngCancel show ?thesis
    using d by (auto simp: cancel_ingestion_def set_world_def Let_def dealt_with_def coord_evolves_def)
qed

lemma ingestion_run_keeps_dealt:
  "ingestion_ok snd s \<Longrightarrow> dealt_with jid s \<Longrightarrow>
     dealt_with jid (foldl (ingestion_step alloc (logged env)) s ops)"
proof (induction ops arbitrary: s)
  case (Cons x ops)
  then show ?case
    using logged.ingestion_step_ok [OF Cons.prems(1)] ingestion_step_keeps_dealt [OF Cons.prems] by simp
qed simp

lemma handled_is_dealt:
  assumes ok: "ingestion_ok outbox s" and run: "\<not> ing_stopping s" and ex: "parsed_job_id r \<in> expected s"
    and h: "handle_result env r s = (res, s')"
  shows "dealt_with (parsed_job_id r) s'"
proof -
  have "parsed_job_id r \<notin> expected s'"
    using h run ex by (cases "parsed_metadata r") (auto simp: handle_result_def split: prod.splits)
  moreover have "below_next (coord s) (parsed_job_id r)"
    using ok ex by (auto simp: ingestion_ok_def coord_ok_def coord_inv_def ids_ok_def awaiting_def)
  ultimately show ?thesis
    using handle_evolves(1) [OF h] by (simp add: dealt_with_def coord_evolves_def)
qed

section \<open>Properties of the metadata gate\<close>

lemma reachable_ingestion:
  "new_coordinator (w, []) ps limit = Ok c \<Longrightarrow>
     ingestion_ok snd (foldl (ingestion_step alloc (logged env)) (new_ingestion c) ops)"
  by (rule ingestion.run_inv) (rule new_ingestion_ok)

text \<open>
  C33: The owner never loses track of a parse: in every reachable state, with any adapters and any
  parser (panicking, refusing or answering twice), the jobs whose parse result it still expects are
  exactly the jobs of the coordinator whose metadata is pending, and the requests that left are
  pairwise distinct.
\<close>

theorem ingestion_tracks_metadata:
  assumes "new_coordinator (w, []) ps limit = Ok c"
    and "s = foldl (ingestion_step alloc (logged env)) (new_ingestion c) ops"
  shows "expected s = {id_of (job e) | e. e \<in> set (jobs (coord s)) \<and> metadata_pending e} \<and>
     distinct (map upload_key (snd (world (coord s))))"
  using reachable_ingestion [OF assms(1), of alloc env ops] assms(2)
  by (auto simp: ingestion_ok_def awaiting_def coord_ok_def coord_inv_def sent_ok_def)

definition sample_parsed :: metadata_result where
  "sample_parsed = \<lparr>parsed_job_id = 1, parsed_metadata = Ok sample_metadata\<rparr>"

lemma sample_ingestion:
  "let s = foldl (ingestion_step (\<lambda>_. True) (logged quiet_env)) (new_ingestion sample_coordinator)
       [IngSubmit sample_file all_selected]
   in \<not> ing_stopping s \<and> 1 \<in> expected s"
  by code_simp

theorem ingestion_tracks_metadata_witness:
  "\<exists>e \<in> set (jobs (coord (foldl (ingestion_step (\<lambda>_. True) (logged quiet_env))
     (new_ingestion sample_coordinator) [IngSubmit sample_file all_selected]))).
     id_of (job e) = 1 \<and> metadata_pending e"
  using ingestion_tracks_metadata [OF sample_new_coordinator refl, of "\<lambda>_. True" quiet_env
      "[IngSubmit sample_file all_selected]"] sample_ingestion
  by (auto simp: Let_def)

text \<open>
  A parse result settles its job once: when an expected result has been handled, successfully
  or not, the same job's result is refused in every later state and the refusal changes nothing.
\<close>

theorem parse_result_handled_once:
  assumes "new_coordinator (w, []) ps limit = Ok c"
    and s: "s = foldl (ingestion_step alloc (logged env)) (new_ingestion c) before"
    and "\<not> ing_stopping s" and "parsed_job_id r \<in> expected s"
    and "handle_result (logged env) r s = (res, s1)"
    and "s2 = foldl (ingestion_step alloc (logged env)) s1 later" and "parsed_job_id r2 = parsed_job_id r"
  shows "is_err (fst (handle_result (logged env) r2 s2)) \<and> snd (handle_result (logged env) r2 s2) = s2"
proof -
  have ok: "ingestion_ok snd s" unfolding s using assms(1) by (rule reachable_ingestion)
  have "ingestion_ok snd s1" using logged.handle_result_effect(1) [OF ok assms(5)] .
  moreover have "dealt_with (parsed_job_id r) s1" using ok assms(3-5) by (rule handled_is_dealt)
  ultimately have "dealt_with (parsed_job_id r) s2"
    using assms(6) ingestion_run_keeps_dealt by blast
  then show ?thesis using assms(7) by (auto simp: handle_result_def dealt_with_def)
qed

theorem parse_result_handled_once_witness:
  "let s = foldl (ingestion_step (\<lambda>_. True) (logged quiet_env)) (new_ingestion sample_coordinator)
       [IngSubmit sample_file all_selected];
     s2 = foldl (ingestion_step (\<lambda>_. True) (logged quiet_env))
       (snd (handle_result (logged quiet_env) sample_parsed s)) [IngSubmit sample_file all_selected]
   in is_err (fst (handle_result (logged quiet_env) sample_parsed s2))"
proof -
  let ?s = "foldl (ingestion_step (\<lambda>_. True) (logged quiet_env)) (new_ingestion sample_coordinator)
       [IngSubmit sample_file all_selected]"
  have "\<not> ing_stopping ?s" and "parsed_job_id sample_parsed \<in> expected ?s"
    using sample_ingestion [unfolded Let_def] by (auto simp: sample_parsed_def)
  from parse_result_handled_once [OF sample_new_coordinator refl this prod.collapse [symmetric] refl refl,
      of "[IngSubmit sample_file all_selected]"]
  show ?thesis unfolding Let_def by blast
qed

section \<open>A submitted file stays visible\<close>

lemma add_pending_entry:
  assumes inv: "coord_inv outbox c" and a: "add_pending env f sel c = (Ok jid, c')"
  shows "\<exists>es e. jobs c' = es @ [e] \<and> id_of (job e) = jid \<and> job_file (snapshot (job e)) = f \<and>
     metadata_pending e \<and> length (jobs c') \<le> coord_limit c'"
proof -
  obtain now w where now: "env_system_now env (world c) = (now, w)" by fastforce
  from a obtain n j where j: "new_job n f now sel = Ok j" and n: "jid = n"
    and room: "length (filter busy (jobs c)) < coord_limit c"
    and c': "c' = (trim_to (coord_limit c - 1) (c\<lparr>world := w\<rparr>))
      \<lparr>jobs := trim_entries (coord_limit c - 1) (jobs c) @ [new_entry j True], next_id := checked_succ n\<rparr>"
    by (auto simp: add_pending_def now Let_def new_job_id_def not_le split: if_splits option.splits sum.splits)
  have "length (trim_entries (coord_limit c - 1) (jobs c)) \<le> coord_limit c - 1"
    using room by (auto simp: trim_entries_length)
  moreover have "1 \<le> coord_limit c" using inv by (simp add: coord_inv_def)
  moreover have "job_file (snapshot j) = f" using j by (auto simp: new_job_def split: if_splits)
  ultimately show ?thesis using new_job_Ok(1) [OF j] n by (simp add: c' new_entry_def)
qed

lemma trim_entries_short: "length es \<le> n \<Longrightarrow> trim_entries n es = es"
  by (subst trim_entries.simps) simp

lemma fail_metadata_entry:
  assumes inv: "coord_inv outbox c" and j: "jid \<in> set (awaiting c)" and run: "\<not> stopping c"
    and len: "length (jobs c) \<le> coord_limit c" and f: "fail_metadata jid cn c = (r, c')"
    and e: "e \<in> set (jobs c)" "id_of (job e) = jid"
  shows "\<exists>e' \<in> set (jobs c'). id_of (job e') = jid \<and>
     job_file (snapshot (job e')) = job_file (snapshot (job e)) \<and> \<not> busy e'"
proof -
  from inv j obtain i where p: "pending_index c jid = Ok i" "i < length (jobs c)"
    "metadata_pending (jobs c ! i)" "id_of (job (jobs c ! i)) = jid" "meta_of (jobs c ! i) = None"
    by (rule awaiting_pending_index)
  have ei: "e = jobs c ! i"
    using ids_ok_unique [of c e "jobs c ! i"] inv e p by (simp add: coord_inv_def)
  define c1 where "c1 = set_entry i ((jobs c ! i)\<lparr>metadata_pending := False\<rparr>) c"
  have s1: "st c1 i q = st c i q" for q
    using p(2) by (simp add: c1_def) (simp add: st_def)
  have wd: "st c i q = Waiting \<or> st c i q = Disabled" for q
    using p(1) by (simp add: pending_index_Ok_iff)
  then have "\<forall>q. st c1 i q = Waiting \<or> \<not> is_busy (st c1 i q)"
    unfolding s1 by (metis is_busy.simps(4))
  moreover have i1: "i < length (jobs c1)" using p(2) by (simp add: c1_def)
  ultimately obtain k where w: "fail_waiting i cn all_providers c1 = (Ok (), set_job i k c1)"
    and ev: "job_evolves (job (jobs c1 ! i)) k"
    and st: "\<forall>q. state_of k q = (if q \<in> set all_providers \<and> st c1 i q = Waiting
        then if cn then Cancelled else Failed else st c1 i q)"
    using fail_waiting_effect [of i c1 cn all_providers] by blast
  have "c' = trim_to (coord_limit (set_job i k c1)) (set_job i k c1)"
    using f run p(1) w by (auto simp: fail_metadata_def c1_def)
  then have jobs': "jobs c' = (jobs c)[i := (jobs c ! i)\<lparr>metadata_pending := False, job := k\<rparr>]"
    using p(2) len by (simp add: c1_def trim_entries_short) (simp add: set_job_def set_entry_def)
  have "\<not> is_busy (state_of k q)" for q
    using st wd [of q] unfolding s1 by auto
  then have "\<not> busy ((jobs c ! i)\<lparr>metadata_pending := False, job := k\<rparr>)" by (simp add: busy_def)
  moreover have "(jobs c ! i)\<lparr>metadata_pending := False, job := k\<rparr> \<in> set (jobs c')"
    unfolding jobs' using p(2) by (rule set_update_memI)
  ultimately show ?thesis
    using ev p(2,4)
    by (intro bexI [of _ "(jobs c ! i)\<lparr>metadata_pending := False, job := k\<rparr>"])
      (simp_all add: ei job_evolves_def c1_def)
qed

text \<open>
  A file whose submission was answered with a job identifier is visible in the history under
  that identifier, even when the parser refused the job after it had reported capacity: then the
  job is there as a finished one, otherwise its metadata is pending and its result is expected.
\<close>

theorem submitted_file_is_visible:
  assumes "new_coordinator (w, []) ps limit = Ok c"
    and s: "s = foldl (ingestion_step alloc (logged env)) (new_ingestion c) ops"
    and sub: "submit alloc (logged env) f sel s = (Ok jid, s')"
  shows "\<exists>e \<in> set (jobs (coord s')). id_of (job e) = jid \<and> job_file (snapshot (job e)) = f \<and>
     (if jid \<in> expected s' then metadata_pending e else \<not> busy e)"
proof -
  have ok: "ingestion_ok snd s" unfolding s using assms(1) by (rule reachable_ingestion)
  have fresh: "jid \<notin> expected s" using logged.submit_effect(2) [OF ok sub refl] .
  from sub obtain c1 where run: "\<not> ing_stopping s"
    and add: "add_pending (logged env) f sel (coord s) = (Ok jid, c1)"
    by (auto simp: submit_def Let_def split: if_splits sum.splits prod.splits)
  have inv1: "coord_ok snd c1"
    using logged.add_pending_ok [of "coord s" env f sel] ok add by (simp add: ingestion_ok_def)
  note g = add_pending_gate(3) [OF add refl]
  obtain es e where e: "jobs c1 = es @ [e]" "id_of (job e) = jid" "job_file (snapshot (job e)) = f"
    "metadata_pending e" "length (jobs c1) \<le> coord_limit c1"
    using add_pending_entry [OF ingestion_inv [OF ok] add] by blast
  obtain re w where enq: "env_parser_enqueue (logged env) \<lparr>meta_job_id = jid, meta_file = f\<rparr> (world c1) = (re, w)"
    by (meson surj_pair)
  let ?c2 = "c1\<lparr>world := w\<rparr>"
  show ?thesis
  proof (cases "is_ok (unwrap_call (Err ParserPanicked) re)")
    case True
    then have "s' = s\<lparr>coord := ?c2, expected := insert jid (expected s)\<rparr>"
      using sub run add enq by (auto simp: submit_def split: if_splits sum.splits)
    with e show ?thesis by auto
  next
    case False
    obtain rf c3 where fm: "fail_metadata jid False ?c2 = (rf, c3)" by fastforce
    have ok2: "coord_ok snd ?c2"
      using inv1 logged.sent_parser_enqueue [OF enq] by (rule world_ok)
    then have inv2: "coord_inv snd ?c2" by (simp add: coord_ok_def)
    have "s' = s\<lparr>coord := c3\<rparr>"
      using sub run add enq False fm by (auto simp: submit_def split: if_splits sum.splits)
    moreover have "\<exists>e' \<in> set (jobs c3). id_of (job e') = jid \<and>
        job_file (snapshot (job e')) = job_file (snapshot (job e)) \<and> \<not> busy e'"
      by (rule fail_metadata_entry [OF inv2 _ _ _ fm])
        (use g e add_pending_gate(1) [OF add] in auto)
    ultimately show ?thesis using e fresh by auto
  qed
qed

theorem submitted_file_is_visible_witness:
  "\<exists>e \<in> set (jobs (coord (snd (submit (\<lambda>_. True) (logged quiet_env) sample_file all_selected
     (new_ingestion sample_coordinator))))). job_file (snapshot (job e)) = sample_file"
proof -
  obtain s' where "submit (\<lambda>_. True) (logged quiet_env) sample_file all_selected
      (new_ingestion sample_coordinator) = (Ok 1, s')"
  proof -
    have "fst (submit (\<lambda>_. True) (logged quiet_env) sample_file all_selected
      (new_ingestion sample_coordinator)) = Ok 1" by code_simp
    then show ?thesis using that by (metis prod.collapse)
  qed
  from submitted_file_is_visible [OF sample_new_coordinator, of _ "\<lambda>_. True" quiet_env "[]", OF _ this] this
  show ?thesis by auto
qed

end
