(* ===== verification/Discovery.thy ===== *)
theory Discovery
  imports Upload_Job
begin

text \<open>
  Log discovery (\<open>rust/src/domain/log_discovery.rs\<close>): a file is reported once it has been observed
  unchanged a required number of times, and a bounded first-in-first-out memory keeps it from
  being reported again.

  \<open>HashMap\<close> is an association list with distinct keys. \<open>HashSet<LogFileIdentity>\<close> is the set of the
  keys that its elements hash and compare by (\<open>identity_key\<close>). The answer of the allocator to
  \<open>try_reserve\<close> is a parameter: \<open>alloc site len additional\<close>.
\<close>

datatype discovery_error = InvalidConfiguration | InvalidCandidate | ResourceLimit

section \<open>Candidate names\<close>

definition file_name :: "path \<Rightarrow> string option" where
  "file_name p = (if p = [] then None else case last p of Normal n \<Rightarrow> Some n | _ \<Rightarrow> None)"

text \<open>
  \<open>Path::extension\<close>: what follows the last dot of the file name, unless there is no dot or only a
  leading one.
\<close>

definition extension :: "path \<Rightarrow> string option" where
  "extension p =
     (case file_name p of
        None \<Rightarrow> None
      | Some n \<Rightarrow>
          let after = rev (takeWhile (\<lambda>c. c \<noteq> CHR ''.'') (rev n));
              before = take (length n - length after - 1) n
          in if CHR ''.'' \<notin> set n \<or> before = [] then None else Some after)"

definition is_zevtc_candidate :: "path \<Rightarrow> bool" where
  "is_zevtc_candidate p =
     (case extension p of None \<Rightarrow> False | Some e \<Rightarrow> eq_ignore_case e ''zevtc'')"

lemma not_candidate_Nil [simp]: "\<not> is_zevtc_candidate []"
  by (simp add: is_zevtc_candidate_def extension_def file_name_def)

section \<open>State and operations\<close>

datatype alloc_site = PendingMap | AcceptedQueue | KnownSet

type_synonym allocator = "alloc_site \<Rightarrow> nat \<Rightarrow> nat \<Rightarrow> bool"

type_synonym file_key = "path \<times> u64 \<times> system_time"

record log_discovery =
  required_matches :: nat
  pending_limit :: nat
  history_limit :: nat
  pending :: "(path \<times> log_file_identity \<times> nat) list"
  accepted :: "log_file_identity list"
  known :: "file_key set"

definition new_discovery :: "nat \<Rightarrow> nat \<Rightarrow> nat \<Rightarrow> (discovery_error, log_discovery) result" where
  "new_discovery required plimit hlimit =
     (if required < 2 \<or> \<not> (1 \<le> plimit \<and> plimit \<le> 10000) \<or> \<not> (1 \<le> hlimit \<and> hlimit \<le> 10000)
      then Err InvalidConfiguration
      else Ok \<lparr>required_matches = required, pending_limit = plimit, history_limit = hlimit,
        pending = [], accepted = [], known = {}\<rparr>)"

definition validate_file :: "log_file_identity \<Rightarrow> (discovery_error, unit) result" where
  "validate_file f =
     (if canonical_path f = [] \<or> \<not> is_zevtc_candidate (canonical_path f)
      then Err InvalidCandidate else Ok ())"

definition is_known :: "log_file_identity \<Rightarrow> log_discovery \<Rightarrow> bool" where
  "is_known f d \<longleftrightarrow> identity_key f \<in> known d"

definition remember ::
  "allocator \<Rightarrow> log_file_identity \<Rightarrow> log_discovery \<Rightarrow> (discovery_error, log_discovery) result"
where
  "remember alloc f d =
     (if is_known f d then Ok d
      else if \<not> alloc AcceptedQueue (length (accepted d)) 1 then Err ResourceLimit
      else if \<not> alloc KnownSet (card (known d)) 1 then Err ResourceLimit
      else let d1 = (if length (accepted d) = history_limit d
                     then case accepted d of
                         [] \<Rightarrow> d
                       | oldest # rest \<Rightarrow>
                           d\<lparr>accepted := rest, known := known d - {identity_key oldest}\<rparr>
                     else d)
        in Ok (d1\<lparr>known := insert (identity_key f) (known d1), accepted := accepted d1 @ [f]\<rparr>))"

definition observe ::
  "allocator \<Rightarrow> log_file_identity \<Rightarrow> log_discovery \<Rightarrow>
     (discovery_error, log_file_identity option \<times> log_discovery) result"
where
  "observe alloc f d =
     and_then (validate_file f) (\<lambda>_.
       if is_known f d then Ok (None, d\<lparr>pending := AList.delete (canonical_path f) (pending d)\<rparr>)
       else and_then
         (case map_of (pending d) (canonical_path f) of
            Some (previous, count) \<Rightarrow>
              Ok (if same_file previous f then usize_saturating_succ count else 1)
          | None \<Rightarrow>
              if length (pending d) = pending_limit d then Err ResourceLimit
              else if \<not> alloc PendingMap (length (pending d)) 1 then Err ResourceLimit
              else Ok 1)
         (\<lambda>matches.
            if matches < required_matches d
            then Ok (None,
              d\<lparr>pending := AList.update (canonical_path f) (f, matches) (pending d)\<rparr>)
            else and_then (remember alloc f d) (\<lambda>d1.
              Ok (Some f, d1\<lparr>pending := AList.delete (canonical_path f) (pending d1)\<rparr>))))"

text \<open>
  \<open>seed\<close> validates everything before its first write; its loop of \<open>remember\<close> stops at the first
  failed reservation with the files before it already remembered, so the state is returned beside
  the result.
\<close>

fun remember_all ::
  "allocator \<Rightarrow> log_file_identity list \<Rightarrow> log_discovery \<Rightarrow> (discovery_error, unit) result \<times> log_discovery"
where
  "remember_all alloc [] d = (Ok (), d)"
| "remember_all alloc (f # fs) d =
     (case remember alloc f d of
        Err e \<Rightarrow> (Err e, d)
      | Ok d1 \<Rightarrow> remember_all alloc fs d1)"

fun validate_all :: "log_file_identity list \<Rightarrow> (discovery_error, unit) result" where
  "validate_all [] = Ok ()"
| "validate_all (f # fs) = and_then (validate_file f) (\<lambda>_. validate_all fs)"

definition seed ::
  "allocator \<Rightarrow> log_file_identity list \<Rightarrow> log_discovery \<Rightarrow> (discovery_error, unit) result \<times> log_discovery"
where
  "seed alloc files d =
     (if length files > history_limit d then (Err ResourceLimit, d)
      else case validate_all files of
        Err e \<Rightarrow> (Err e, d)
      | Ok _ \<Rightarrow>
          if \<not> alloc AcceptedQueue (length (accepted d)) (length files) then (Err ResourceLimit, d)
          else if \<not> alloc KnownSet (card (known d)) (length files) then (Err ResourceLimit, d)
          else remember_all alloc files d)"

definition release :: "log_file_identity \<Rightarrow> log_discovery \<Rightarrow> log_discovery" where
  "release f d = d\<lparr>accepted := filter (\<lambda>a. \<not> same_file a f) (accepted d),
     known := known d - {identity_key f}\<rparr>"

definition forget_pending :: "path \<Rightarrow> log_discovery \<Rightarrow> log_discovery" where
  "forget_pending p d = d\<lparr>pending := AList.delete p (pending d)\<rparr>"

definition clear_pending :: "log_discovery \<Rightarrow> log_discovery" where
  "clear_pending d = d\<lparr>pending := []\<rparr>"

definition set_required_matches ::
  "nat \<Rightarrow> log_discovery \<Rightarrow> (discovery_error, log_discovery) result" where
  "set_required_matches n d =
     (if n < 2 then Err InvalidConfiguration else Ok (clear_pending (d\<lparr>required_matches := n\<rparr>)))"

definition pending_count :: "log_discovery \<Rightarrow> nat" where
  "pending_count d = length (pending d)"

definition accepted_count :: "log_discovery \<Rightarrow> nat" where
  "accepted_count d = length (accepted d)"

section \<open>Invariant\<close>

text \<open>
  The two representations of the memory agree, both are within their limits, and every pending
  entry is filed under its own path with a count below the threshold.
\<close>

definition discovery_inv :: "log_discovery \<Rightarrow> bool" where
  "discovery_inv d \<longleftrightarrow>
     2 \<le> required_matches d \<and> 1 \<le> history_limit d \<and> 1 \<le> pending_limit d \<and>
     length (accepted d) \<le> history_limit d \<and>
     distinct (map identity_key (accepted d)) \<and>
     known d = identity_key ` set (accepted d) \<and>
     distinct_keys (pending d) \<and> length (pending d) \<le> pending_limit d \<and>
     (\<forall>p f n. map_of (pending d) p = Some (f, n) \<longrightarrow>
        canonical_path f = p \<and> is_zevtc_candidate p \<and> 1 \<le> n \<and> n < required_matches d)"

lemma new_discovery_inv: "new_discovery r p h = Ok d \<Longrightarrow> discovery_inv d"
  by (auto simp: new_discovery_def discovery_inv_def split: if_splits)

text \<open>The successful \<open>remember\<close>: nothing when known, else a push behind an eviction.\<close>

definition evict :: "log_discovery \<Rightarrow> log_file_identity list" where
  "evict d = (if length (accepted d) = history_limit d then tl (accepted d) else accepted d)"

lemma remember_Ok:
  assumes "discovery_inv d" and "remember alloc f d = Ok d'"
  shows "d' = (if is_known f d then d
     else d\<lparr>accepted := evict d @ [f],
            known := insert (identity_key f) (identity_key ` set (evict d))\<rparr>)"
proof (cases "is_known f d")
  case True
  with assms(2) show ?thesis by (simp add: remember_def)
next
  case False
  show ?thesis
  proof (cases "accepted d")
    case Nil
    with assms False show ?thesis
      by (auto simp: remember_def discovery_inv_def evict_def Let_def split: if_splits)
  next
    case (Cons a as)
    with assms(1) have "identity_key ` set as = known d - {identity_key a}"
      by (auto simp: discovery_inv_def)
    with assms False Cons show ?thesis
      by (auto simp: remember_def discovery_inv_def evict_def Let_def split: if_splits)
  qed
qed

lemma evict_sublist: "set (evict d) \<subseteq> set (accepted d)"
  by (cases "accepted d") (auto simp: evict_def)

lemma evict_distinct: "distinct (map g (accepted d)) \<Longrightarrow> distinct (map g (evict d))"
  by (cases "accepted d") (auto simp: evict_def)

lemma evict_length:
  "1 \<le> history_limit d \<Longrightarrow> length (accepted d) \<le> history_limit d \<Longrightarrow>
     length (evict d) < history_limit d"
  by (auto simp: evict_def)

lemma remember_inv [preserves]:
  assumes inv: "discovery_inv d" and r: "remember alloc f d = Ok d'"
  shows "discovery_inv d'"
proof (cases "is_known f d")
  case True
  with remember_Ok [OF inv r] inv show ?thesis by simp
next
  case False
  then have "identity_key f \<notin> identity_key ` set (evict d)"
    using inv evict_sublist [of d] by (auto simp: is_known_def discovery_inv_def)
  moreover have "length (evict d) < history_limit d" and "distinct (map identity_key (evict d))"
    using inv by (auto simp: discovery_inv_def intro: evict_length evict_distinct)
  ultimately show ?thesis
    using remember_Ok [OF inv r] False inv by (auto simp: discovery_inv_def)
qed

lemma remember_frame [frame]:
  assumes "discovery_inv d" and "remember alloc f d = Ok d'"
  shows "pending d' = pending d" and "required_matches d' = required_matches d"
    and "history_limit d' = history_limit d" and "pending_limit d' = pending_limit d"
    and "is_known f d'"
  using remember_Ok [OF assms] by (auto simp: is_known_def)

lemma delete_pending_inv:
  "discovery_inv d \<Longrightarrow> discovery_inv (d\<lparr>pending := AList.delete p (pending d)\<rparr>)"
  using length_delete_le [of p "pending d"]
  by (auto simp: discovery_inv_def delete_conv split: if_splits)

lemma clear_pending_inv: "discovery_inv d \<Longrightarrow> discovery_inv (clear_pending d)"
  by (simp add: discovery_inv_def clear_pending_def)

lemma set_required_matches_inv:
  "discovery_inv d \<Longrightarrow> set_required_matches n d = Ok d' \<Longrightarrow> discovery_inv d'"
  by (auto simp: set_required_matches_def clear_pending_def discovery_inv_def split: if_splits)

lemma release_inv: "discovery_inv d \<Longrightarrow> discovery_inv (release f d)"
  by (auto simp: discovery_inv_def release_def same_file_key distinct_map_filter
      intro: order_trans [OF length_filter_le])

text \<open>The three ways in which an observation is accepted.\<close>

lemma observe_cases:
  assumes inv: "discovery_inv d" and obs: "observe alloc f d = Ok (r, d')"
  obtains (seen) "is_known f d" and "r = None"
      and "d' = d\<lparr>pending := AList.delete (canonical_path f) (pending d)\<rparr>"
  | (counted) m where "\<not> is_known f d" and "r = None" and "m < required_matches d" and "1 \<le> m"
      and "d' = d\<lparr>pending := AList.update (canonical_path f) (f, m) (pending d)\<rparr>"
      and "m = 1 \<or> (\<exists>g n. map_of (pending d) (canonical_path f) = Some (g, n) \<and> same_file g f \<and>
             m \<le> Suc n)"
      and "map_of (pending d) (canonical_path f) = None \<longrightarrow> length (pending d) \<noteq> pending_limit d"
  | (reported) g n d1 where "\<not> is_known f d" and "r = Some f"
      and "map_of (pending d) (canonical_path f) = Some (g, n)" and "same_file g f"
      and "required_matches d = Suc n" and "remember alloc f d = Ok d1"
      and "d' = d1\<lparr>pending := AList.delete (canonical_path f) (pending d1)\<rparr>"
proof (cases "is_known f d")
  case True
  with obs seen show thesis by (auto simp: observe_def)
next
  case False
  define e where "e = map_of (pending d) (canonical_path f)"
  show thesis
  proof (cases e)
    case None
    with obs False inv have "r = None"
      and "d' = d\<lparr>pending := AList.update (canonical_path f) (f, 1) (pending d)\<rparr>"
      and "length (pending d) \<noteq> pending_limit d"
      by (auto simp: observe_def e_def discovery_inv_def split: if_splits)
    with False None counted [of 1] inv show thesis by (auto simp: discovery_inv_def)
  next
    case (Some gn)
    obtain g n where gn: "gn = (g, n)" by (cases gn)
    have n: "1 \<le> n" "n < required_matches d" using inv Some gn by (auto simp: discovery_inv_def e_def)
    define m where "m = (if same_file g f then usize_saturating_succ n else 1)"
    have m: "1 \<le> m" "m \<le> Suc n" "m = 1 \<or> same_file g f"
      using n by (auto simp: m_def usize_saturating_succ_def usize_max_def)
    show thesis
    proof (cases "m < required_matches d")
      case True
      with obs False Some gn have "r = None"
        and "d' = d\<lparr>pending := AList.update (canonical_path f) (f, m) (pending d)\<rparr>"
        by (auto simp: observe_def e_def m_def)
      with counted [of m] True False Some gn m show thesis by (auto simp: e_def)
    next
      case False': False
      with m n inv have req: "required_matches d = Suc n" and same: "same_file g f"
        by (auto simp: discovery_inv_def)
      from obs False Some gn False' obtain d1 where "remember alloc f d = Ok d1" and "r = Some f"
        and "d' = d1\<lparr>pending := AList.delete (canonical_path f) (pending d1)\<rparr>"
        by (auto simp: observe_def e_def m_def)
      with reported [of g n d1] False Some gn req same show thesis by (simp add: e_def)
    qed
  qed
qed

lemma observe_valid:
  "observe alloc f d = Ok rd \<Longrightarrow> canonical_path f \<noteq> [] \<and> is_zevtc_candidate (canonical_path f)"
  by (auto simp: observe_def validate_file_def split: if_splits)

lemma map_of_None_length_update:
  "length (AList.update k v m) \<le> l"
  if "length m \<le> l" and "map_of m k = None \<longrightarrow> length m \<noteq> l"
  using that by (auto simp: length_update_eq map_of_eq_None_iff)

lemma observe_inv:
  assumes inv: "discovery_inv d" and obs: "observe alloc f d = Ok (r, d')"
  shows "discovery_inv d'"
  using inv obs
proof (cases rule: observe_cases)
  case seen
  with inv show ?thesis by (simp add: delete_pending_inv)
next
  case (counted m)
  then show ?thesis
    using inv observe_valid [OF obs]
      map_of_None_length_update [of "pending d" "pending_limit d" "canonical_path f" "(f, m)"]
    by (auto simp: discovery_inv_def update_conv split: if_splits)
next
  case (reported g n d1)
  then have "discovery_inv d1" using inv by (blast intro: remember_inv)
  with reported show ?thesis by (simp add: delete_pending_inv)
qed

lemma remember_all_inv:
  "discovery_inv d \<Longrightarrow> discovery_inv (snd (remember_all alloc fs d))"
  by (induction fs arbitrary: d) (auto split: sum.splits intro: remember_inv)

lemma seed_inv: "discovery_inv d \<Longrightarrow> discovery_inv (snd (seed alloc fs d))"
  by (auto simp: seed_def remember_all_inv split: sum.splits)

section \<open>Runs\<close>

datatype discovery_op =
  DObserve log_file_identity
| DForget path
| DClear
| DRelease log_file_identity
| DSeed "log_file_identity list"
| DRequired nat

definition discovery_step :: "allocator \<Rightarrow> log_discovery \<Rightarrow> discovery_op \<Rightarrow> log_discovery" where
  "discovery_step alloc d c =
     (case c of
        DObserve f \<Rightarrow> (case observe alloc f d of Err _ \<Rightarrow> d | Ok (_, d') \<Rightarrow> d')
      | DForget p \<Rightarrow> forget_pending p d
      | DClear \<Rightarrow> clear_pending d
      | DRelease f \<Rightarrow> release f d
      | DSeed fs \<Rightarrow> snd (seed alloc fs d)
      | DRequired n \<Rightarrow> (case set_required_matches n d of Err _ \<Rightarrow> d | Ok d' \<Rightarrow> d'))"

text \<open>The files that a step and a run report.\<close>

definition reports :: "allocator \<Rightarrow> log_discovery \<Rightarrow> discovery_op \<Rightarrow> log_file_identity list" where
  "reports alloc d c =
     (case c of DObserve f \<Rightarrow> (case observe alloc f d of Ok (Some g, _) \<Rightarrow> [g] | _ \<Rightarrow> []) | _ \<Rightarrow> [])"

fun run_reports :: "allocator \<Rightarrow> log_discovery \<Rightarrow> discovery_op list \<Rightarrow> log_file_identity list" where
  "run_reports alloc d [] = []"
| "run_reports alloc d (c # cs) = reports alloc d c @ run_reports alloc (discovery_step alloc d c) cs"

fun observations :: "discovery_op \<Rightarrow> log_file_identity list" where
  "observations (DObserve f) = [f]"
| "observations _ = []"

lemma discovery_step_inv: "discovery_inv d \<Longrightarrow> discovery_inv (discovery_step alloc d c)"
  by (auto simp: discovery_step_def forget_pending_def split: discovery_op.splits sum.splits prod.splits
      intro: observe_inv delete_pending_inv clear_pending_inv release_inv seed_inv
        set_required_matches_inv)

interpretation discovery: machine "discovery_step alloc" discovery_inv for alloc
  by unfold_locales (rule discovery_step_inv)

subsection \<open>Stability: a report needs a streak of identical observations\<close>

text \<open>
  The streak of \<open>f\<close> in a history: how many of the latest observations of its path are all equal
  to \<open>f\<close>.
\<close>

definition streak :: "log_file_identity \<Rightarrow> log_file_identity list \<Rightarrow> nat" where
  "streak f obs =
     length (takeWhile (same_file f)
       (filter (\<lambda>g. canonical_path g = canonical_path f) (rev obs)))"

definition counts_streaks :: "log_file_identity list \<Rightarrow> log_discovery \<Rightarrow> bool" where
  "counts_streaks obs d \<longleftrightarrow>
     (\<forall>p f n. map_of (pending d) p = Some (f, n) \<longrightarrow> n \<le> streak f obs)"

lemma streak_snoc:
  "streak f (obs @ [g]) =
     (if canonical_path g \<noteq> canonical_path f then streak f obs
      else if same_file f g then Suc (streak f obs) else 0)"
  by (simp add: streak_def)

lemma streak_cong:
  assumes "same_file f g" and "canonical_path f = canonical_path g"
  shows "streak f obs = streak g obs"
proof -
  have "same_file f = same_file g" using assms(1) by (auto simp: same_file_key fun_eq_iff)
  then show ?thesis by (simp add: streak_def assms(2))
qed

lemma counts_streaks_less:
  "counts_streaks obs d \<Longrightarrow>
     (\<And>p v. map_of (pending d') p = Some v \<Longrightarrow> map_of (pending d) p = Some v) \<Longrightarrow>
     counts_streaks obs d'"
  by (fastforce simp: counts_streaks_def)

lemma counts_streaks_delete:
  "counts_streaks obs d \<Longrightarrow> counts_streaks obs (d\<lparr>pending := AList.delete p (pending d)\<rparr>)"
  by (auto simp: counts_streaks_def delete_conv split: if_splits)

lemma observe_streaks:
  assumes inv: "discovery_inv d" and st: "counts_streaks obs d"
    and obs: "observe alloc f d = Ok (r, d')"
  shows "counts_streaks (obs @ [f]) d'"
  using inv obs
proof (cases rule: observe_cases)
  case seen
  with st inv show ?thesis
    by (auto simp: counts_streaks_def delete_conv discovery_inv_def streak_snoc split: if_splits)
next
  case (counted m)
  have "m \<le> streak f (obs @ [f])"
    using counted(6)
  proof (elim disjE exE conjE)
    fix g n
    assume g: "map_of (pending d) (canonical_path f) = Some (g, n)" "same_file g f" "m \<le> Suc n"
    then have "n \<le> streak g obs" "canonical_path g = canonical_path f"
      using st inv by (auto simp: counts_streaks_def discovery_inv_def)
    with g(2) have "n \<le> streak f obs" using streak_cong [of g f obs] by simp
    with g(3) show ?thesis by (simp add: streak_snoc same_file_key)
  qed (simp add: streak_snoc same_file_key)
  with counted st inv show ?thesis
    by (auto simp: counts_streaks_def update_conv discovery_inv_def streak_snoc split: if_splits)
next
  case (reported g n d1)
  with inv have p: "pending d1 = pending d" using remember_frame(1) [OF inv] by blast
  with reported st inv show ?thesis
    by (auto simp: counts_streaks_def delete_conv discovery_inv_def streak_snoc split: if_splits)
qed

lemma observe_Err_streaks:
  assumes inv: "discovery_inv d" and st: "counts_streaks obs d"
    and err: "observe alloc f d = Err e"
  shows "counts_streaks (obs @ [f]) d"
proof -
  have same: "same_file g f" if m: "map_of (pending d) (canonical_path f) = Some (g, n)" for g n
  proof (rule ccontr)
    assume ns: "\<not> same_file g f"
    from m inv have "is_zevtc_candidate (canonical_path f)"
      by (auto simp: discovery_inv_def)
    then have "canonical_path f \<noteq> []" by (metis not_candidate_Nil)
    with err m ns inv show False
      by (auto simp: observe_def validate_file_def and_then_Err_iff discovery_inv_def
          split: if_splits)
  qed
  have "n \<le> streak g (obs @ [f])" if m: "map_of (pending d) p = Some (g, n)" for p g n
  proof -
    have "n \<le> streak g obs" and p: "canonical_path g = p"
      using m st inv by (auto simp: counts_streaks_def discovery_inv_def)
    moreover have "same_file g f" if "p = canonical_path f" using same m that by blast
    ultimately show ?thesis by (auto simp: streak_snoc)
  qed
  then show ?thesis by (simp add: counts_streaks_def)
qed

lemma remember_all_pending:
  "discovery_inv d \<Longrightarrow> pending (snd (remember_all alloc fs d)) = pending d"
proof (induction fs arbitrary: d)
  case (Cons f fs)
  then show ?case
    using remember_frame(1) [OF Cons.prems] remember_inv [OF Cons.prems]
    by (auto split: sum.splits)
qed simp

lemma seed_pending: "discovery_inv d \<Longrightarrow> pending (snd (seed alloc fs d)) = pending d"
  by (auto simp: seed_def remember_all_pending split: sum.splits)

lemma discovery_step_streaks:
  assumes inv: "discovery_inv d" and st: "counts_streaks obs d"
  shows "counts_streaks (obs @ observations c) (discovery_step alloc d c)"
proof (cases c)
  case (DObserve f)
  then show ?thesis
    using observe_streaks [OF inv st] observe_Err_streaks [OF inv st]
    by (auto simp: discovery_step_def split: sum.splits)
next
  case (DForget p)
  with st show ?thesis by (simp add: discovery_step_def forget_pending_def counts_streaks_delete)
next
  case (DSeed fs)
  with st seed_pending [OF inv] show ?thesis
    by (simp add: discovery_step_def counts_streaks_def)
qed (use st in \<open>auto simp: discovery_step_def clear_pending_def release_def set_required_matches_def
    counts_streaks_def split: sum.splits if_splits\<close>)

lemma run_streaks:
  "discovery_inv d \<Longrightarrow> counts_streaks obs d \<Longrightarrow>
     counts_streaks (obs @ concat (map observations cs)) (foldl (discovery_step alloc) d cs)"
proof (induction cs arbitrary: d obs)
  case (Cons c cs)
  then have "counts_streaks ((obs @ observations c) @ concat (map observations cs))
      (foldl (discovery_step alloc) (discovery_step alloc d c) cs)"
    by (intro Cons.IH discovery_step_inv discovery_step_streaks)
  then show ?case by simp
qed simp

subsection \<open>Memory: the accepted files are the tail of everything ever reported\<close>

definition take_last :: "nat \<Rightarrow> 'a list \<Rightarrow> 'a list" where
  "take_last n xs = drop (length xs - n) xs"

text \<open>No key repeats within \<open>h\<close> positions.\<close>

definition window_distinct :: "nat \<Rightarrow> 'a list \<Rightarrow> bool" where
  "window_distinct h ks \<longleftrightarrow>
     (\<forall>i j. i < j \<and> j < length ks \<and> j \<le> i + h \<longrightarrow> ks ! i \<noteq> ks ! j)"

lemma take_last_all [simp]: "length xs \<le> n \<Longrightarrow> take_last n xs = xs"
  by (simp add: take_last_def)

lemma length_take_last [simp]: "length (take_last n xs) = min n (length xs)"
  by (simp add: take_last_def)

lemma window_distinct_Nil [simp]: "window_distinct h []"
  by (simp add: window_distinct_def)

lemma window_distinct_distinct: "distinct ks \<Longrightarrow> window_distinct h ks"
  by (simp add: window_distinct_def nth_eq_iff_index_eq)

lemma window_distinct_snoc:
  assumes "window_distinct h ks" and "k \<notin> set (take_last h ks)"
  shows "window_distinct h (ks @ [k])"
proof -
  have "(ks @ [k]) ! i \<noteq> (ks @ [k]) ! j"
    if ij: "i < j" "j < length (ks @ [k])" "j \<le> i + h" for i j
  proof (cases "j < length ks")
    case True
    with ij assms(1) show ?thesis by (auto simp: window_distinct_def nth_append)
  next
    case False
    with ij have "j = length ks" "length ks - h \<le> i" "i < length ks" by auto
    then have "ks ! i \<in> set (take_last h ks)"
      by (auto simp: take_last_def in_set_conv_nth intro!: exI [of _ "i - (length ks - h)"])
    with assms(2) \<open>j = length ks\<close> \<open>i < length ks\<close> show ?thesis
      by (auto simp: nth_append)
  qed
  then show ?thesis by (simp add: window_distinct_def)
qed

lemma take_last_snoc:
  "1 \<le> n \<Longrightarrow> take_last n (xs @ [x]) =
     (if length (take_last n xs) = n then tl (take_last n xs) else take_last n xs) @ [x]"
proof (cases "n \<le> length xs")
  case True
  assume "1 \<le> n"
  with True have "Suc (length xs) - n \<le> length xs"
    and "Suc (length xs) - n = Suc (length xs - n)" by auto
  with True show ?thesis by (simp add: take_last_def drop_Suc tl_drop)
qed (simp add: take_last_def)

text \<open>
  The abstract memory is the whole sequence \<open>log\<close> of files ever accepted; the code keeps its last
  \<open>history_limit\<close> elements.
\<close>

definition remembers :: "log_file_identity list \<Rightarrow> log_discovery \<Rightarrow> bool" where
  "remembers log d \<longleftrightarrow>
     accepted d = take_last (history_limit d) log \<and>
     window_distinct (history_limit d) (map identity_key log)"

lemma map_take_last: "map g (take_last n xs) = take_last n (map g xs)"
  by (simp add: take_last_def drop_map)

lemma remember_remembers:
  assumes inv: "discovery_inv d" and mem: "remembers log d"
    and new: "\<not> is_known f d" and r: "remember alloc f d = Ok d'"
  shows "remembers (log @ [f]) d'"
proof -
  have d': "accepted d' = evict d @ [f]" "history_limit d' = history_limit d"
    using remember_Ok [OF inv r] new by simp_all
  have "identity_key f \<notin> set (take_last (history_limit d) (map identity_key log))"
    using new inv mem by (auto simp: is_known_def discovery_inv_def remembers_def map_take_last [symmetric])
  then have "window_distinct (history_limit d) (map identity_key (log @ [f]))"
    using mem by (auto simp: remembers_def intro: window_distinct_snoc)
  moreover have "accepted d' = take_last (history_limit d) (log @ [f])"
    using mem inv by (simp add: d' remembers_def evict_def take_last_snoc discovery_inv_def)
  ultimately show ?thesis by (simp add: remembers_def d')
qed

fun keeps_memory :: "discovery_op \<Rightarrow> bool" where
  "keeps_memory (DRelease _) = False"
| "keeps_memory (DSeed _) = False"
| "keeps_memory _ = True"

lemma observe_remembers:
  assumes inv: "discovery_inv d" and mem: "remembers log d"
    and obs: "observe alloc f d = Ok (r, d')"
  shows "remembers (log @ (case r of None \<Rightarrow> [] | Some g \<Rightarrow> [g])) d'"
  using inv obs
proof (cases rule: observe_cases)
  case (reported g n d1)
  with remember_remembers [OF inv mem] show ?thesis by (simp add: remembers_def)
qed (use mem in \<open>simp_all add: remembers_def\<close>)

lemma discovery_step_remembers:
  assumes "discovery_inv d" and "remembers log d" and "keeps_memory c"
  shows "remembers (log @ reports alloc d c) (discovery_step alloc d c)"
proof (cases c)
  case (DObserve f)
  with observe_remembers [OF assms(1,2)] assms(2) show ?thesis
    by (auto simp: discovery_step_def reports_def split: sum.splits option.splits)
qed (use assms in \<open>auto simp: discovery_step_def reports_def forget_pending_def clear_pending_def
    set_required_matches_def remembers_def split: sum.splits if_splits\<close>)

lemma run_remembers:
  "discovery_inv d \<Longrightarrow> remembers log d \<Longrightarrow> list_all keeps_memory cs \<Longrightarrow>
     remembers (log @ run_reports alloc d cs) (foldl (discovery_step alloc) d cs)"
proof (induction cs arbitrary: d log)
  case (Cons c cs)
  then have "remembers ((log @ reports alloc d c) @ run_reports alloc (discovery_step alloc d c) cs)
      (foldl (discovery_step alloc) (discovery_step alloc d c) cs)"
    by (intro Cons.IH discovery_step_inv discovery_step_remembers) auto
  then show ?case by simp
qed simp

subsection \<open>Seeding at startup\<close>

lemma remember_all_empty:
  "discovery_inv d \<Longrightarrow> length (accepted d) + length fs \<le> history_limit d \<Longrightarrow>
     remember_all (\<lambda>_ _ _. True) fs d = (r, d') \<Longrightarrow>
     r = Ok () \<and> known d' = known d \<union> identity_key ` set fs"
proof (induction fs arbitrary: d)
  case (Cons f fs)
  have "\<exists>d1. remember (\<lambda>_ _ _. True) f d = Ok d1" by (simp add: remember_def Let_def)
  then obtain d1 where d1: "remember (\<lambda>_ _ _. True) f d = Ok d1" ..
  have ev: "evict d = accepted d" using Cons.prems(2) by (simp add: evict_def)
  from remember_Ok [OF Cons.prems(1) d1] ev Cons.prems(1)
  have "known d1 = insert (identity_key f) (known d)"
    and "length (accepted d1) \<le> Suc (length (accepted d))" and "history_limit d1 = history_limit d"
    by (auto simp: is_known_def discovery_inv_def split: if_splits)
  then show ?case
    using Cons.IH [of d1] remember_inv [OF Cons.prems(1) d1] Cons.prems(2,3) d1 by auto
qed auto

lemma validate_all_Ok: "validate_all fs = Ok u \<longleftrightarrow> (\<forall>f \<in> set fs. validate_file f = Ok ())"
  by (induction fs) auto

subsection \<open>The limit is fixed\<close>

lemma remember_all_limit:
  "discovery_inv d \<Longrightarrow> history_limit (snd (remember_all alloc fs d)) = history_limit d"
proof (induction fs arbitrary: d)
  case (Cons f fs)
  then show ?case
    using remember_frame(3) [OF Cons.prems] remember_inv [OF Cons.prems]
    by (auto split: sum.splits)
qed simp

lemma observe_limit:
  assumes "discovery_inv d" and "observe alloc f d = Ok (r, d')"
  shows "history_limit d' = history_limit d"
  using assms by (cases rule: observe_cases) (simp_all add: remember_frame(3) [OF assms(1)])

lemma discovery_step_limit:
  "discovery_inv d \<Longrightarrow> history_limit (discovery_step alloc d c) = history_limit d"
  by (auto simp: discovery_step_def forget_pending_def clear_pending_def release_def seed_def
      set_required_matches_def remember_all_limit
      split: discovery_op.splits sum.splits if_splits dest: observe_limit)

lemma run_history_limit:
  "discovery_inv d \<Longrightarrow> history_limit (foldl (discovery_step alloc) d cs) = history_limit d"
  by (induction cs arbitrary: d) (simp_all add: discovery_step_inv discovery_step_limit)

section \<open>Properties of discovery\<close>

definition sample_discovery :: log_discovery where
  "sample_discovery = \<lparr>required_matches = 2, pending_limit = 4, history_limit = 2,
     pending = [], accepted = [], known = {}\<rparr>"

lemma sample_discovery_new: "new_discovery 2 4 2 = Ok sample_discovery"
  by (simp add: new_discovery_def sample_discovery_def)

lemma sample_candidate [simp]: "is_zevtc_candidate (canonical_path sample_file)"
  by (simp add: sample_file_def is_zevtc_candidate_def extension_def file_name_def)

lemma sample_path [simp]: "canonical_path sample_file \<noteq> []"
  by (simp add: sample_file_def)

lemma same_file_refl [simp]: "same_file f f"
  by (simp add: same_file_key)

lemma sample_observe_once:
  "observe alloc sample_file sample_discovery =
     (if alloc PendingMap 0 1
      then Ok (None, sample_discovery\<lparr>pending := [(canonical_path sample_file, sample_file, 1)]\<rparr>)
      else Err ResourceLimit)"
  by (simp add: observe_def validate_file_def is_known_def sample_discovery_def)

lemma sample_observe_twice:
  "observe (\<lambda>_ _ _. True) sample_file
     (discovery_step (\<lambda>_ _ _. True) sample_discovery (DObserve sample_file)) =
   Ok (Some sample_file, sample_discovery\<lparr>accepted := [sample_file], known := {identity_key sample_file}\<rparr>)"
  by (simp add: discovery_step_def sample_observe_once)
    (simp add: observe_def validate_file_def is_known_def sample_discovery_def remember_def
      usize_saturating_succ_def usize_max_def)

text \<open>
  Discovery keeps its invariant under every sequence of operations and every behaviour of the
  allocator: the queue and the set of accepted files agree and stay within the history limit, no
  accepted file is duplicated, and the pending table stays within its limit with counts below the
  threshold.
\<close>

theorem discovery_runs_keep_inv:
  assumes "new_discovery r p h = Ok d"
  shows "discovery_inv (foldl (discovery_step alloc) d cs)"
  using new_discovery_inv [OF assms] by (rule discovery.run_inv)

theorem discovery_runs_keep_inv_witness:
  "new_discovery 2 4 2 = Ok sample_discovery \<and>
   discovery_inv (foldl (discovery_step (\<lambda>_ _ _. True)) sample_discovery
     [DObserve sample_file, DObserve sample_file, DSeed [sample_file], DClear])"
  using discovery_runs_keep_inv [OF sample_discovery_new] sample_discovery_new by blast

text \<open>
  C32: A file is reported only when it is stable. In any run from a fresh discovery, with forgotten
  paths, releases, seeds and threshold changes interleaved, an observation that reports a file
  reports the observed file itself, and the latest \<open>required_matches\<close> observations of its path
  were all of the same path, size and modification time.
\<close>

theorem report_needs_streak:
  assumes "new_discovery r p h = Ok d0" and "d = foldl (discovery_step alloc) d0 cs"
    and "observe alloc f d = Ok (Some g, d')"
  shows "g = f \<and> required_matches d \<le> streak f (concat (map observations cs) @ [f])"
proof -
  have inv0: "discovery_inv d0" using assms(1) by (rule new_discovery_inv)
  have inv: "discovery_inv d" unfolding assms(2) by (rule discovery.run_inv [OF inv0])
  have "counts_streaks [] d0"
    using assms(1) by (auto simp: new_discovery_def counts_streaks_def split: if_splits)
  from run_streaks [OF inv0 this] have st: "counts_streaks (concat (map observations cs)) d"
    by (simp add: assms(2))
  from inv assms(3) show ?thesis
  proof (cases rule: observe_cases)
    case (reported g' n d1)
    then have "n \<le> streak g' (concat (map observations cs))"
      and "canonical_path g' = canonical_path f"
      using st inv by (auto simp: counts_streaks_def discovery_inv_def)
    with reported streak_cong [of g' f "concat (map observations cs)"]
    show ?thesis by (simp add: streak_snoc same_file_key)
  qed simp_all
qed

theorem report_needs_streak_witness:
  "observe (\<lambda>_ _ _. True) sample_file (foldl (discovery_step (\<lambda>_ _ _. True)) sample_discovery
     [DObserve sample_file]) = Ok (Some sample_file,
       sample_discovery\<lparr>accepted := [sample_file], known := {identity_key sample_file}\<rparr>) \<and>
   2 \<le> streak sample_file [sample_file, sample_file]"
proof -
  let ?d = "foldl (discovery_step (\<lambda>_ _ _. True)) sample_discovery [DObserve sample_file]"
  have "observe (\<lambda>_ _ _. True) sample_file ?d = Ok (Some sample_file,
      sample_discovery\<lparr>accepted := [sample_file], known := {identity_key sample_file}\<rparr>)"
    using sample_observe_twice by simp
  moreover have "required_matches ?d = 2"
    by (simp add: discovery_step_def sample_observe_once) (simp add: sample_discovery_def)
  ultimately show ?thesis
    using report_needs_streak [OF sample_discovery_new refl, of "\<lambda>_ _ _. True" sample_file
        "[DObserve sample_file]" sample_file] by simp
qed

text \<open>
  Refinement of the memory. As long as nothing is released or seeded, the accepted queue is
  always the last \<open>history_limit\<close> files of everything accepted so far, and no file occurs twice
  within that many consecutive reports: a log is not uploaded again until as many other logs have
  been reported after it.
\<close>

theorem reports_are_windowed:
  assumes "discovery_inv d" and "list_all keeps_memory cs"
    and "log = accepted d @ run_reports alloc d cs"
  shows "accepted (foldl (discovery_step alloc) d cs) = take_last (history_limit d) log \<and>
    window_distinct (history_limit d) (map identity_key log)"
proof -
  have "remembers (accepted d) d"
    using assms(1) by (simp add: remembers_def discovery_inv_def window_distinct_distinct)
  from run_remembers [OF assms(1) this assms(2)]
  have mem: "remembers log (foldl (discovery_step alloc) d cs)" by (simp add: assms(3))
  with run_history_limit [OF assms(1)] show ?thesis by (simp add: remembers_def)
qed

theorem reports_are_windowed_witness:
  "run_reports (\<lambda>_ _ _. True) sample_discovery [DObserve sample_file, DObserve sample_file] = [sample_file] \<and>
   accepted (foldl (discovery_step (\<lambda>_ _ _. True)) sample_discovery
     [DObserve sample_file, DObserve sample_file]) = [sample_file]"
proof -
  have rep: "run_reports (\<lambda>_ _ _. True) sample_discovery [DObserve sample_file, DObserve sample_file]
      = [sample_file]"
    using sample_observe_twice by (simp add: reports_def sample_observe_once)
  have "discovery_inv sample_discovery" using sample_discovery_new by (rule new_discovery_inv)
  from reports_are_windowed [OF this _ refl, of "[DObserve sample_file, DObserve sample_file]" "\<lambda>_ _ _. True"]
  have "accepted (foldl (discovery_step (\<lambda>_ _ _. True)) sample_discovery
      [DObserve sample_file, DObserve sample_file]) = take_last 2 [sample_file]"
    unfolding rep by (simp add: sample_discovery_def)
  with rep show ?thesis by simp
qed

text \<open>
  Seeding validates the whole history first. A rejected history (too long, or with an invalid
  path) leaves discovery as it was; an accepted one, seeded into a fresh discovery, makes exactly
  its files known, and observing any of them reports nothing.
\<close>

theorem seed_is_atomic_and_deduplicates:
  assumes "new_discovery r p h = Ok d" and "alloc = (\<lambda>_ _ _. True)"
    and "seed alloc files d = (res, d')"
  shows "(if length files \<le> h \<and> (\<forall>f \<in> set files. validate_file f = Ok ())
      then res = Ok () \<and> known d' = identity_key ` set files \<and>
        (\<forall>f \<in> set files. \<exists>d''. observe alloc f d' = Ok (None, d''))
      else is_err res \<and> d' = d)"
proof -
  have inv: "discovery_inv d" using assms(1) by (rule new_discovery_inv)
  have d: "known d = {}" "accepted d = []" "history_limit d = h"
    using assms(1) by (auto simp: new_discovery_def split: if_splits)
  show ?thesis
  proof (cases "length files \<le> h \<and> (\<forall>f \<in> set files. validate_file f = Ok ())")
    case True
    then have "validate_all files = Ok ()" by (simp add: validate_all_Ok)
    with True assms(2,3) d have "remember_all (\<lambda>_ _ _. True) files d = (res, d')"
      by (simp add: seed_def)
    from remember_all_empty [OF inv _ this] True d
    have "res = Ok () \<and> known d' = identity_key ` set files" by simp
    moreover have "\<exists>d''. observe alloc f d' = Ok (None, d'')" if "f \<in> set files" for f
      using that True calculation by (simp add: observe_def is_known_def)
    ultimately show ?thesis using True by auto
  next
    case False
    then have "length files > h \<or> (\<exists>e. validate_all files = Err e)"
      by (cases "validate_all files") (auto simp: validate_all_Ok)
    then show ?thesis
    proof (elim disjE exE)
      assume "length files > h"
      then show ?thesis using False assms(3) d by (simp add: seed_def) auto
    next
      fix e
      assume e: "validate_all files = Err e"
      have "is_err res \<and> d' = d" using assms(3) by (simp add: seed_def e split: if_splits) auto
      then show ?thesis by (simp only: False if_False simp_thms)
    qed
  qed
qed

theorem seed_is_atomic_and_deduplicates_witness:
  "\<exists>d'. seed (\<lambda>_ _ _. True) [sample_file] sample_discovery = (Ok (), d') \<and>
     (\<exists>d''. observe (\<lambda>_ _ _. True) sample_file d' = Ok (None, d''))"
proof -
  obtain res d' where s: "seed (\<lambda>_ _ _. True) [sample_file] sample_discovery = (res, d')"
    by (cases "seed (\<lambda>_ _ _. True) [sample_file] sample_discovery")
  have "validate_file sample_file = Ok ()" by (simp add: validate_file_def)
  with seed_is_atomic_and_deduplicates [OF sample_discovery_new refl s] s show ?thesis by auto
qed

end
