(* ===== verification/Pump.thy ===== *)
theory Pump
  imports Ingestion Discovery
begin

text \<open>
  The application pump (\<open>rust/src/application/application_pump.rs\<close>) with the port through which it
  reads candidate files (\<open>log_candidates.rs\<close>): one tick drains parser and upload results, polls the
  log source, and submits the files that discovery reports. The log source and the stop token are
  calls into the same world as the adapters; \<open>alloc\<close> and \<open>ialloc\<close> are the allocators of discovery
  and of the owner's set.
\<close>

section \<open>The candidate source\<close>

record candidate_source_options =
  root :: path
  recursive :: bool
  max_candidates :: nat
  minimum_last_write_time :: "system_time option"

datatype candidate_error =
  CandidateInvalidConfiguration | CandidateCancelled | ScanFailed | CandidateResourceLimit | CandidatePanicked

datatype candidate_issue =
  EntryUnavailable | DirectoryUnavailable | TimestampUnavailable | CanonicalPathUnavailable
| NotificationFailed | NotificationsDisabled

record candidate_batch =
  batch_root_available :: bool
  batch_scan_complete :: bool
  batch_observations :: "log_file_identity list"
  removed_paths :: "path list"
  batch_issues :: "candidate_issue list"

record 'w log_source =
  source_poll :: "'w \<Rightarrow> (candidate_error, candidate_batch) result call \<times> 'w"
  source_reconfigure :: "candidate_source_options \<Rightarrow> 'w \<Rightarrow> (candidate_error, unit) result call \<times> 'w"
  stop_requested :: "'w \<Rightarrow> bool \<times> 'w"

section \<open>The pump\<close>

datatype pump_error =
  PumpInvalidConfiguration | PumpShuttingDown | PumpSource candidate_error
| PumpDiscovery discovery_error | PumpIngestion ingestion_error | PumpCoordinator coordinator_error

record pump_options =
  opt_required_matches :: nat
  opt_pending_limit :: nat
  opt_history_limit :: nat
  max_metadata_results :: nat
  max_upload_results :: nat
  max_retries :: nat

definition default_pump_options :: pump_options where
  "default_pump_options = \<lparr>opt_required_matches = 2, opt_pending_limit = 10000,
     opt_history_limit = 10000, max_metadata_results = 8, max_upload_results = 8, max_retries = 8\<rparr>"

record tick_report =
  report_metadata :: metadata_drain_summary
  report_uploads :: drain_summary
  report_retries :: nat
  root_available :: bool
  scan_complete :: bool
  observed :: nat
  removed :: nat
  submitted :: nat
  issues :: "candidate_issue list"

record 'w pump =
  owner :: "'w ingestion"
  disc :: log_discovery
  options :: pump_options
  pump_stopping :: bool

definition new_pump :: "'w ingestion \<Rightarrow> pump_options \<Rightarrow> (pump_error, 'w pump) result" where
  "new_pump ing opts =
     (if list_ex (\<lambda>n. \<not> (1 \<le> n \<and> n \<le> 10000))
           [max_metadata_results opts, max_upload_results opts, max_retries opts]
      then Err PumpInvalidConfiguration
      else and_then (map_err PumpDiscovery (new_discovery (opt_required_matches opts)
             (opt_pending_limit opts) (opt_history_limit opts))) (\<lambda>d.
        Ok \<lparr>owner = ing, disc = d, options = opts, pump_stopping = False\<rparr>))"

definition pump_world :: "'w pump \<Rightarrow> 'w" where
  "pump_world p = world (coord (owner p))"

definition set_pump_world :: "'w \<Rightarrow> 'w pump \<Rightarrow> 'w pump" where
  "set_pump_world w p = p\<lparr>owner := set_world w (owner p)\<rparr>"

text \<open>\<open>drain_work\<close>: parser results first, then upload results, then due retries.\<close>

definition drain_work ::
  "'w env \<Rightarrow> 'w log_source \<Rightarrow> 'w pump \<Rightarrow> (pump_error, tick_report) result \<times> 'w pump" where
  "drain_work env src p =
     (if pump_stopping p then (Err PumpShuttingDown, p)
      else let (stop, w) = stop_requested src (pump_world p); p1 = set_pump_world w p in
        if stop then (Err (PumpSource CandidateCancelled), p1)
        else let (metadata, ing) = drain_metadata env (max_metadata_results (options p1)) (owner p1);
                 (ups, c1) = drain_results env (max_upload_results (options p1)) (coord ing);
                 (retries, c2) = dispatch_due_retries env (max_retries (options p1)) c1
          in (Ok \<lparr>report_metadata = metadata, report_uploads = ups, report_retries = retries,
                   root_available = False, scan_complete = False, observed = 0, removed = 0,
                   submitted = 0, issues = []\<rparr>,
              p1\<lparr>owner := ing\<lparr>coord := c2\<rparr>\<rparr>))"

text \<open>
  The loop of \<open>tick\<close> over the observations: it ends early on a stop request, a full parser or an
  error, and gives back the count of submitted files.
\<close>

fun observe_all ::
  "allocator \<Rightarrow> (nat \<Rightarrow> bool) \<Rightarrow> 'w env \<Rightarrow> 'w log_source \<Rightarrow> provider_selection \<Rightarrow>
     log_file_identity list \<Rightarrow> nat \<Rightarrow> 'w pump \<Rightarrow> (pump_error, nat) result \<times> 'w pump"
where
  "observe_all alloc ialloc env src enabled [] n p = (Ok n, p)"
| "observe_all alloc ialloc env src enabled (f # fs) n p =
     (let (stop, w) = stop_requested src (pump_world p); p1 = set_pump_world w p in
      if stop then (Err (PumpSource CandidateCancelled), p1)
      else case available_capacity env (owner p1) of
        Err e \<Rightarrow> (Err (PumpIngestion e), p1)
      | Ok capacity \<Rightarrow>
          if capacity = 0 then (Ok n, p1)
          else case observe alloc f (disc p1) of
            Err e \<Rightarrow> (Err (PumpDiscovery e), p1)
          | Ok (None, d) \<Rightarrow> observe_all alloc ialloc env src enabled fs n (p1\<lparr>disc := d\<rparr>)
          | Ok (Some g, d) \<Rightarrow>
              (case submit ialloc env g enabled (owner p1) of
                 (Err e, ing) \<Rightarrow> (Err (PumpIngestion e), p1\<lparr>disc := release g d, owner := ing\<rparr>)
               | (Ok _, ing) \<Rightarrow>
                   observe_all alloc ialloc env src enabled fs (n + 1) (p1\<lparr>disc := d, owner := ing\<rparr>)))"

definition tick ::
  "allocator \<Rightarrow> (nat \<Rightarrow> bool) \<Rightarrow> 'w env \<Rightarrow> 'w log_source \<Rightarrow> provider_selection \<Rightarrow> 'w pump \<Rightarrow>
     (pump_error, tick_report) result \<times> 'w pump"
where
  "tick alloc ialloc env src enabled p =
     (case drain_work env src p of
        (Err e, p1) \<Rightarrow> (Err e, p1)
      | (Ok drained, p1) \<Rightarrow>
          let (r, w) = source_poll src (pump_world p1); p2 = set_pump_world w p1 in
          case unwrap_call (Err CandidatePanicked) r of
            Err e \<Rightarrow> (Err (PumpSource e), p2)
          | Ok batch \<Rightarrow>
              let p3 = p2\<lparr>disc := fold forget_pending (removed_paths batch) (disc p2)\<rparr>;
                  report = drained\<lparr>root_available := batch_root_available batch,
                    scan_complete := batch_scan_complete batch,
                    observed := length (batch_observations batch),
                    removed := length (removed_paths batch), issues := batch_issues batch\<rparr>;
                  (res, p4) = observe_all alloc ialloc env src enabled (batch_observations batch) 0 p3
              in (and_then res (\<lambda>n. Ok (report\<lparr>submitted := n\<rparr>)), p4))"

definition reconfigure_source ::
  "'w log_source \<Rightarrow> candidate_source_options \<Rightarrow> 'w pump \<Rightarrow> (pump_error, unit) result \<times> 'w pump" where
  "reconfigure_source src opts p =
     (if pump_stopping p then (Err PumpShuttingDown, p)
      else let (r, w) = source_reconfigure src opts (pump_world p); p1 = set_pump_world w p in
        case unwrap_call (Err CandidatePanicked) r of
          Err e \<Rightarrow> (Err (PumpSource e), p1)
        | Ok _ \<Rightarrow> (Ok (), p1\<lparr>disc := clear_pending (disc p1)\<rparr>))"

definition pump_set_required_matches ::
  "nat \<Rightarrow> 'w pump \<Rightarrow> (pump_error, unit) result \<times> 'w pump" where
  "pump_set_required_matches n p =
     (if pump_stopping p then (Err PumpShuttingDown, p)
      else case set_required_matches n (disc p) of
        Err e \<Rightarrow> (Err (PumpDiscovery e), p)
      | Ok d \<Rightarrow> (Ok (), p\<lparr>disc := d, options := (options p)\<lparr>opt_required_matches := n\<rparr>\<rparr>))"

definition restore_history ::
  "allocator \<Rightarrow> upload_job_record list \<Rightarrow> 'w pump \<Rightarrow> (pump_error, unit) result \<times> 'w pump" where
  "restore_history alloc records p =
     (if pump_stopping p then (Err PumpShuttingDown, p)
      else if opt_history_limit (options p) < length records
      then (Err (PumpDiscovery ResourceLimit), p)
      else case new_discovery (opt_required_matches (options p)) (opt_pending_limit (options p))
                  (opt_history_limit (options p)) of
        Err e \<Rightarrow> (Err (PumpDiscovery e), p)
      | Ok d0 \<Rightarrow>
          (case seed alloc (map job_file records) d0 of
             (Err e, _) \<Rightarrow> (Err (PumpDiscovery e), p)
           | (Ok _, d) \<Rightarrow>
               (case restore records (coord (owner p)) of
                  (Err e, c) \<Rightarrow> (Err (PumpCoordinator e), p\<lparr>owner := (owner p)\<lparr>coord := c\<rparr>\<rparr>)
                | (Ok _, c) \<Rightarrow> (Ok (), p\<lparr>owner := (owner p)\<lparr>coord := c\<rparr>, disc := d\<rparr>))))"

definition seed_processed_logs ::
  "allocator \<Rightarrow> log_file_identity list \<Rightarrow> 'w pump \<Rightarrow> (pump_error, unit) result \<times> 'w pump" where
  "seed_processed_logs alloc files p =
     (if pump_stopping p then (Err PumpShuttingDown, p)
      else let (r, d) = seed alloc files (disc p) in (map_err PumpDiscovery r, p\<lparr>disc := d\<rparr>))"

definition cancel_pump :: "'w env \<Rightarrow> 'w pump \<Rightarrow> 'w pump" where
  "cancel_pump env p =
     (if pump_stopping p then p
      else p\<lparr>pump_stopping := True, disc := clear_pending (disc p),
        owner := cancel_ingestion env (owner p)\<rparr>)"

section \<open>The pump as a machine\<close>

datatype pump_op =
  PumpTick provider_selection
| PumpDrain
| PumpReconfigure candidate_source_options
| PumpMatches nat
| PumpRestore "upload_job_record list"
| PumpSeed "log_file_identity list"
| PumpOwner ingestion_op
| PumpCancel

text \<open>Application commands reach the owner past the pump; only a tick submits files.\<close>

fun is_submit :: "ingestion_op \<Rightarrow> bool" where
  "is_submit (IngSubmit _ _) = True"
| "is_submit _ = False"

fun pump_step ::
  "allocator \<Rightarrow> (nat \<Rightarrow> bool) \<Rightarrow> 'w env \<Rightarrow> 'w log_source \<Rightarrow> 'w pump \<Rightarrow> pump_op \<Rightarrow> 'w pump"
where
  "pump_step alloc ialloc env src p (PumpTick sel) = snd (tick alloc ialloc env src sel p)"
| "pump_step alloc ialloc env src p PumpDrain = snd (drain_work env src p)"
| "pump_step alloc ialloc env src p (PumpReconfigure opts) = snd (reconfigure_source src opts p)"
| "pump_step alloc ialloc env src p (PumpMatches n) = snd (pump_set_required_matches n p)"
| "pump_step alloc ialloc env src p (PumpRestore rs) = snd (restore_history alloc rs p)"
| "pump_step alloc ialloc env src p (PumpSeed fs) = snd (seed_processed_logs alloc fs p)"
| "pump_step alloc ialloc env src p (PumpOwner x) =
     (if is_submit x then p else p\<lparr>owner := ingestion_step ialloc env (owner p) x\<rparr>)"
| "pump_step alloc ialloc env src p PumpCancel = cancel_pump env p"

definition pump_ok :: "('w \<Rightarrow> upload_request list) \<Rightarrow> 'w pump \<Rightarrow> bool" where
  "pump_ok outbox p \<longleftrightarrow> ingestion_ok outbox (owner p) \<and> discovery_inv (disc p)"

text \<open>The watch over the requests extends to a log source that sends none.\<close>

locale recording_pump = recording_env env outbox
  for env :: "'w env" and outbox :: "'w \<Rightarrow> upload_request list" +
  fixes src :: "'w log_source"
  assumes sent_poll: "source_poll src w = (r, w') \<Longrightarrow> outbox w' = outbox w"
    and sent_reconfigure: "source_reconfigure src opts w = (r', w') \<Longrightarrow> outbox w' = outbox w"
    and sent_stop: "stop_requested src w = (b, w') \<Longrightarrow> outbox w' = outbox w"
begin

lemma pump_world_ok: "pump_ok outbox p \<Longrightarrow> outbox w = outbox (pump_world p) \<Longrightarrow> pump_ok outbox (set_pump_world w p)"
  by (simp add: pump_ok_def set_pump_world_def pump_world_def set_world_ok)

lemma drain_work_ok:
  assumes ok: "pump_ok outbox p" and d: "drain_work env src p = (r, p')"
  shows "pump_ok outbox p'"
proof (cases "pump_stopping p")
  case False
  obtain stop w where s: "stop_requested src (pump_world p) = (stop, w)" by fastforce
  define p1 where "p1 = set_pump_world w p"
  have ok1: "pump_ok outbox p1"
    unfolding p1_def using ok sent_stop [OF s] by (rule pump_world_ok)
  obtain m ing where m: "drain_metadata env (max_metadata_results (options p1)) (owner p1) = (m, ing)" by fastforce
  obtain u c1 where u: "drain_results env (max_upload_results (options p1)) (coord ing) = (u, c1)" by fastforce
  obtain n c2 where n: "dispatch_due_retries env (max_retries (options p1)) c1 = (n, c2)" by fastforce
  have ing: "ingestion_ok outbox ing"
    using drain_metadata_ok [of "owner p1" "max_metadata_results (options p1)"] ok1 m by (simp add: pump_ok_def)
  have "coord_ok outbox c1"
    using drain_results_ok [of "coord ing" "max_upload_results (options p1)"] ing u by (simp add: ingestion_ok_def)
  then have c2: "coord_ok outbox c2"
    using dispatch_due_retries_ok [of c1 "max_retries (options p1)"] n by simp
  have "gate c1 = gate (coord ing)" and "gate c2 = gate c1"
    using gate_drain gate_retries u n by (metis snd_conv)+
  then have "ingestion_ok outbox (ing\<lparr>coord := c2\<rparr>)"
    using ing c2 by (simp add: ingestion_ok_def gate_def)
  then have "pump_ok outbox (p1\<lparr>owner := ing\<lparr>coord := c2\<rparr>\<rparr>)" using ok1 by (simp add: pump_ok_def)
  with d False s m u n ok1 show ?thesis
    by (auto simp: drain_work_def p1_def [symmetric] split: if_splits)
qed (use ok d in \<open>simp add: drain_work_def\<close>)

lemma observe_all_ok:
  "pump_ok outbox p \<Longrightarrow> pump_ok outbox (snd (observe_all alloc ialloc env src sel fs n p))"
proof (induction fs arbitrary: n p)
  case (Cons f fs)
  obtain stop w where s: "stop_requested src (pump_world p) = (stop, w)" by fastforce
  define p1 where "p1 = set_pump_world w p"
  have ok1: "pump_ok outbox p1"
    unfolding p1_def using Cons.prems sent_stop [OF s] by (rule pump_world_ok)
  then have i1: "ingestion_ok outbox (owner p1)" and d1: "discovery_inv (disc p1)"
    by (simp_all add: pump_ok_def)
  have obs: "discovery_inv d" if "observe alloc f (disc p1) = Ok (g, d)" for g d
    using discovery_step_inv [OF d1, of alloc "DObserve f"] that by (simp add: discovery_step_def)
  have rel: "discovery_inv (release g d)" if "discovery_inv d" for g d
    using discovery_step_inv [OF that, of alloc "DRelease g"] by (simp add: discovery_step_def)
  have sub: "ingestion_ok outbox ing" if "submit ialloc env g sel (owner p1) = (r, ing)" for g r ing
    using submit_effect(1) [OF i1 that] .
  have ih: "pump_ok outbox (snd (observe_all alloc ialloc env src sel fs m (p1\<lparr>disc := d\<rparr>)))"
    if "discovery_inv d" for m d
    by (rule Cons.IH) (use that i1 in \<open>simp add: pump_ok_def\<close>)
  have ih2: "pump_ok outbox (snd (observe_all alloc ialloc env src sel fs m (p1\<lparr>disc := d, owner := ing\<rparr>)))"
    if "discovery_inv d" "ingestion_ok outbox ing" for m d ing
    by (rule Cons.IH) (use that in \<open>simp add: pump_ok_def\<close>)
  have stop: "pump_ok outbox (p1\<lparr>disc := release g d, owner := ing\<rparr>)"
    if "discovery_inv d" "ingestion_ok outbox ing" for g d ing
    using that rel by (simp add: pump_ok_def)
  show ?case
    using ok1 obs sub
    by (auto simp: s p1_def [symmetric] Let_def split: sum.split prod.split option.split
        intro!: ih ih2 stop)
qed simp

lemma tick_ok:
  assumes ok: "pump_ok outbox p" and t: "tick alloc ialloc env src sel p = (r, p')"
  shows "pump_ok outbox p'"
proof -
  obtain rd p1 where d: "drain_work env src p = (rd, p1)" by fastforce
  have ok1: "pump_ok outbox p1" using ok d by (rule drain_work_ok)
  obtain rp w where sp: "source_poll src (pump_world p1) = (rp, w)" by fastforce
  define p2 where "p2 = set_pump_world w p1"
  have ok2: "pump_ok outbox p2"
    unfolding p2_def using ok1 sent_poll [OF sp] by (rule pump_world_ok)
  have "discovery_inv (fold forget_pending paths d)" if "discovery_inv d" for paths d
    using that
  proof (induction paths arbitrary: d)
    case (Cons q paths)
    then show ?case using discovery_step_inv [OF Cons.prems, of "\<lambda>_ _ _. True" "DForget q"]
      by (simp add: discovery_step_def)
  qed simp
  with ok2 have ok3: "pump_ok outbox (p2\<lparr>disc := fold forget_pending paths (disc p2)\<rparr>)" for paths
    by (simp add: pump_ok_def)
  have "pump_ok outbox q" if "observe_all alloc ialloc env src sel fs 0
      (p2\<lparr>disc := fold forget_pending paths (disc p2)\<rparr>) = (res, q)" for fs paths res q
    using observe_all_ok [OF ok3 [of paths], of alloc ialloc sel fs 0] that by simp
  with t d sp ok1 ok2 show ?thesis
    by (auto simp: tick_def p2_def [symmetric] split: sum.splits prod.splits)
qed

lemma pump_step_ok:
  assumes ok: "pump_ok outbox p"
  shows "pump_ok outbox (pump_step alloc ialloc env src p x)"
proof (cases x)
  case (PumpTick sel)
  then show ?thesis using tick_ok [OF ok prod.collapse [symmetric]] by simp
next
  case PumpDrain
  then show ?thesis using drain_work_ok [OF ok prod.collapse [symmetric]] by simp
next
  case (PumpReconfigure opts)
  have "pump_ok outbox (q\<lparr>disc := clear_pending (disc q)\<rparr>)" if "pump_ok outbox q" for q
    using that discovery_step_inv [of "disc q" alloc DClear] by (simp add: pump_ok_def discovery_step_def)
  then show ?thesis
    using PumpReconfigure ok
    by (auto simp: reconfigure_source_def Let_def split: sum.split prod.split
        intro!: pump_world_ok dest!: sent_reconfigure)
next
  case (PumpMatches n)
  then show ?thesis
    using ok discovery_step_inv [of "disc p" alloc "DRequired n"]
    by (auto simp: pump_set_required_matches_def pump_ok_def discovery_step_def split: sum.splits)
next
  case (PumpRestore rs)
  have "gate c = gate (coord (owner p)) \<and> coord_ok outbox c" if "restore rs (coord (owner p)) = (r, c)" for r c
    using restore_ok [of outbox "coord (owner p)" rs] gate_restore [of rs "coord (owner p)"] that ok
    unfolding pump_ok_def ingestion_ok_def by (metis snd_conv)
  then have "ingestion_ok outbox ((owner p)\<lparr>coord := c\<rparr>)" if "restore rs (coord (owner p)) = (r, c)" for r c
    using that ok by (auto simp: pump_ok_def ingestion_ok_def gate_def)
  moreover have "discovery_inv d" if "new_discovery a b c = Ok d0" "seed alloc fs d0 = (r, d)" for a b c d0 fs r d
    using discovery_step_inv [OF new_discovery_inv [OF that(1)], of alloc "DSeed fs"] that(2)
    by (simp add: discovery_step_def)
  ultimately show ?thesis
    using PumpRestore ok
    by (auto simp: restore_history_def pump_ok_def split: sum.split prod.split)
next
  case (PumpSeed fs)
  then show ?thesis
    using ok discovery_step_inv [of "disc p" alloc "DSeed fs"]
    by (auto simp: seed_processed_logs_def pump_ok_def discovery_step_def split: prod.split)
next
  case (PumpOwner y)
  then show ?thesis using ok ingestion_step_ok by (simp add: pump_ok_def)
next
  case PumpCancel
  then show ?thesis
    using ok cancel_ingestion_ok discovery_step_inv [of "disc p" alloc DClear]
    by (simp add: cancel_pump_def pump_ok_def discovery_step_def)
qed

end

text \<open>Every environment and log source can be watched.\<close>

definition logged_source :: "'w log_source \<Rightarrow> ('w \<times> upload_request list) log_source" where
  "logged_source src = \<lparr>
     source_poll = lift_call (source_poll src),
     source_reconfigure = (\<lambda>opts. lift_call (source_reconfigure src opts)),
     stop_requested = lift_call (stop_requested src)\<rparr>"

interpretation logged_pump: recording_pump "logged env" snd "logged_source src" for env src
  by unfold_locales (auto simp: logged_source_def lift_call_def split: prod.splits)

interpretation pump: machine "pump_step alloc ialloc (logged env) (logged_source src)" "pump_ok snd"
  for alloc ialloc env src
  by unfold_locales (rule logged_pump.pump_step_ok)

section \<open>Restoring the history\<close>

lemma remember_all_known:
  "discovery_inv d \<Longrightarrow> length (accepted d) + length fs \<le> history_limit d \<Longrightarrow>
     remember_all alloc fs d = (Ok u, d') \<Longrightarrow> identity_key ` set fs \<subseteq> known d' \<and> known d \<subseteq> known d'"
proof (induction fs arbitrary: d)
  case (Cons f fs)
  then obtain d1 where d1: "remember alloc f d = Ok d1" and rest: "remember_all alloc fs d1 = (Ok u, d')"
    by (auto split: sum.splits)
  note r = remember_Ok [OF Cons.prems(1) d1]
  have inv1: "discovery_inv d1" using remember_inv [OF Cons.prems(1) d1] .
  have k: "known d = identity_key ` set (accepted d)" using Cons.prems(1) by (simp add: discovery_inv_def)
  have "length (accepted d1) + length fs \<le> history_limit d1"
    and "insert (identity_key f) (known d) \<subseteq> known d1"
    using Cons.prems(2) r k by (auto simp: evict_def is_known_def)
  with Cons.IH [OF inv1 _ rest] show ?case by auto
qed simp

lemma seed_fresh_known:
  assumes n: "new_discovery a b c = Ok d0" and s: "seed alloc fs d0 = (Ok u, d)" and f: "f \<in> set fs"
  shows "is_known f d" and "validate_file f = Ok ()"
proof -
  have d0: "discovery_inv d0" "accepted d0 = []" "history_limit d0 = c"
    using new_discovery_inv [OF n] n by (auto simp: new_discovery_def split: if_splits)
  have len: "length fs \<le> c" and v: "validate_all fs = Ok ()" and r: "remember_all alloc fs d0 = (Ok u, d)"
    using s d0 by (auto simp: seed_def split: if_splits sum.splits)
  show "validate_file f = Ok ()" using v f by (simp add: validate_all_Ok)
  show "is_known f d"
    using remember_all_known [OF d0(1) _ r] len d0 f by (auto simp: is_known_def)
qed

lemma observe_known:
  "validate_file f = Ok () \<Longrightarrow> is_known f d \<Longrightarrow> \<exists>d'. observe alloc f d = Ok (None, d')"
  by (simp add: observe_def)

lemma restore_Err: "restore rs c = (Err e, c') \<Longrightarrow> c' = c"
  by (auto simp: restore_def split: if_splits sum.splits)

lemma restore_entries_not_busy: "restore_entries n rs = Ok es \<Longrightarrow> e \<in> set es \<Longrightarrow> \<not> busy e"
proof (induction n rs arbitrary: es rule: restore_entries.induct)
  case (2 n r rs)
  then obtain jid j es' where j: "restore_job jid r = Ok j" and es': "restore_entries (n + 1) rs = Ok es'"
    and es: "es = new_entry j False # es'" and jid: "new_job_id (of_nat (n + 1)) = Ok jid" by auto
  have "\<not> busy (new_entry j False)"
    using j by (auto simp: busy_def new_entry_def restore_job_Ok_iff provider_status_def)
  with 2 es' es jid show ?case by (auto simp del: of_nat_add)
qed simp

lemma restore_fine:
  "restore rs c = (Ok u, c') \<Longrightarrow> world c' = world c \<and> (\<forall>e \<in> set (jobs c'). \<not> busy e)"
  using restore_entries_not_busy by (auto simp: restore_def split: if_splits sum.splits)

section \<open>Properties of the pump\<close>

text \<open>
  C12: Every run of a new pump (ticks, configuration changes, restored history, application commands
  and shutdown in any order, with any log source, adapters, parser and allocator) keeps the
  requests pairwise distinct and the expected parse results those of the pending jobs, and
  discovery remembers each file identity once and within the configured history limit.
\<close>

theorem pump_runs_are_sound:
  assumes "new_coordinator (w, []) ps limit = Ok c" and "new_pump (new_ingestion c) opts = Ok p0"
    and p: "p = foldl (pump_step alloc ialloc (logged env) (logged_source src)) p0 ops"
  shows "distinct (map upload_key (snd (pump_world p))) \<and>
     expected (owner p) = {id_of (job e) | e. e \<in> set (jobs (coord (owner p))) \<and> metadata_pending e} \<and>
     distinct (map identity_key (accepted (disc p))) \<and> length (accepted (disc p)) \<le> history_limit (disc p)"
proof -
  have "pump_ok snd p0"
    using assms(2) new_ingestion_ok [OF assms(1)] new_discovery_inv
    by (auto simp: new_pump_def pump_ok_def split: if_splits)
  then have ok: "pump_ok snd p" unfolding p by (rule pump.run_inv)
  then have "coord_ok snd (coord (owner p))" and e: "expected (owner p) = set (awaiting (coord (owner p)))"
    and "discovery_inv (disc p)"
    by (simp_all add: pump_ok_def ingestion_ok_def)
  moreover have "set (awaiting (coord (owner p))) =
      {id_of (job e) | e. e \<in> set (jobs (coord (owner p))) \<and> metadata_pending e}"
    by (auto simp: awaiting_def)
  ultimately show ?thesis
    by (simp add: coord_ok_def coord_inv_def sent_ok_def pump_world_def discovery_inv_def)
qed

text \<open>A log source that always shows one file, and a pump over it.\<close>

definition steady_source :: "unit log_source" where
  "steady_source = \<lparr>
     source_poll = (\<lambda>w. (Some (Ok \<lparr>batch_root_available = True, batch_scan_complete = True,
       batch_observations = [sample_file], removed_paths = [], batch_issues = []\<rparr>), w)),
     source_reconfigure = (\<lambda>_ w. (Some (Ok ()), w)), stop_requested = (\<lambda>w. (False, w))\<rparr>"

definition sample_options :: pump_options where
  "sample_options = \<lparr>opt_required_matches = 2, opt_pending_limit = 3, opt_history_limit = 3,
     max_metadata_results = 1, max_upload_results = 1, max_retries = 1\<rparr>"

definition sample_pump :: "(unit \<times> upload_request list) pump" where
  "sample_pump = \<lparr>owner = new_ingestion sample_coordinator,
     disc = \<lparr>required_matches = 2, pending_limit = 3, history_limit = 3, pending = [],
       accepted = [], known = {}\<rparr>,
     options = sample_options, pump_stopping = False\<rparr>"

lemma sample_pump_new: "new_pump (new_ingestion sample_coordinator) sample_options = Ok sample_pump"
  by (simp add: new_pump_def sample_options_def sample_pump_def new_discovery_def)

lemma sample_submit:
  "fst (submit (\<lambda>_. True) (logged quiet_env) sample_file all_selected (new_ingestion sample_coordinator)) = Ok 1"
  "length (jobs (coord (snd (submit (\<lambda>_. True) (logged quiet_env) sample_file all_selected
     (new_ingestion sample_coordinator))))) = 1"
  by code_simp+

theorem pump_runs_are_sound_witness:
  "let p = foldl (pump_step (\<lambda>_ _ _. True) (\<lambda>_. True) (logged quiet_env) (logged_source steady_source))
       sample_pump [PumpTick all_selected, PumpTick all_selected, PumpMatches 3, PumpCancel]
   in distinct (map identity_key (accepted (disc p))) \<and>
      expected (owner p) = {id_of (job e) | e. e \<in> set (jobs (coord (owner p))) \<and> metadata_pending e}"
  using pump_runs_are_sound [OF sample_new_coordinator sample_pump_new refl,
      of "\<lambda>_ _ _. True" "\<lambda>_. True" quiet_env steady_source
        "[PumpTick all_selected, PumpTick all_selected, PumpMatches 3, PumpCancel]"]
  unfolding Let_def by blast

text \<open>
  C4: Restoring the history is all or nothing and uploads nothing: on an error the pump is as it
  was; on success no request leaves, no restored job is busy, and none of the files in the restored
  records, kept in the visible tail or not, is reported for upload when it is observed again.
\<close>

theorem restored_history_is_not_uploaded_again:
  assumes "restore_history alloc records p = (res, p')"
  shows "(\<forall>e. res = Err e \<longrightarrow> p' = p) \<and>
     (res = Ok () \<longrightarrow> pump_world p' = pump_world p \<and> (\<forall>e \<in> set (jobs (coord (owner p'))). \<not> busy e) \<and>
        (\<forall>r \<in> set records. \<forall>alloc'. \<exists>d. observe alloc' (job_file r) (disc p') = Ok (None, d)))"
proof -
  have err: "p' = p" if "res = Err e" for e
    using assms that
    by (cases p; cases "owner p"; auto simp: restore_history_def split: if_splits sum.splits prod.splits
        dest!: restore_Err)
  have fine: "pump_world p' = pump_world p \<and> (\<forall>e \<in> set (jobs (coord (owner p'))). \<not> busy e) \<and>
        (\<forall>r \<in> set records. \<forall>alloc'. \<exists>d. observe alloc' (job_file r) (disc p') = Ok (None, d))"
    if "res = Ok ()"
  proof -
    from assms that obtain a b c d0 d x where n: "new_discovery a b c = Ok d0"
      and s: "seed alloc (map job_file records) d0 = (Ok (), d)"
      and r: "restore records (coord (owner p)) = (Ok (), x)"
      and p': "p' = p\<lparr>owner := (owner p)\<lparr>coord := x\<rparr>, disc := d\<rparr>"
      by (auto simp: restore_history_def split: if_splits sum.splits prod.splits)
    have "\<exists>d'. observe alloc' (job_file q) d = Ok (None, d')" if "q \<in> set records" for q alloc'
      using seed_fresh_known [OF n s, of "job_file q"] that observe_known by simp
    with restore_fine [OF r] show ?thesis by (simp add: p' pump_world_def)
  qed
  from err fine show ?thesis by blast
qed

theorem restored_history_is_not_uploaded_again_witness:
  "let p' = snd (restore_history (\<lambda>_ _ _. True) [snapshot sample_job] sample_pump) in
   length (jobs (coord (owner p'))) = 1 \<and>
   (\<exists>d. observe (\<lambda>_ _ _. True) sample_file (disc p') = Ok (None, d))"
proof -
  define x where "x = restore_history (\<lambda>_ _ _. True) [snapshot sample_job] sample_pump"
  have "fst (restore [snapshot sample_job] sample_coordinator) = Ok () \<and>
      length (jobs (snd (restore [snapshot sample_job] sample_coordinator))) = 1"
    by (simp add: restore_def sample_coordinator_def new_job_id_def restore_job_def sample_job_def)
  then obtain c where c: "restore [snapshot sample_job] sample_coordinator = (Ok (), c)" "length (jobs c) = 1"
    by (cases "restore [snapshot sample_job] sample_coordinator") auto
  have f: "job_file (snapshot sample_job) = sample_file" by (simp add: sample_job_def)
  have e: "fst x = Ok ()" "length (jobs (coord (owner (snd x)))) = 1"
    using c by (simp_all add: x_def restore_history_def sample_pump_def new_ingestion_def sample_options_def
        new_discovery_def seed_def f validate_file_def remember_def is_known_def)
  have "restore_history (\<lambda>_ _ _. True) [snapshot sample_job] sample_pump = (fst x, snd x)"
    by (simp add: x_def)
  from restored_history_is_not_uploaded_again [OF this] e
  have "\<forall>r \<in> set [snapshot sample_job]. \<forall>alloc'. \<exists>d. observe alloc' (job_file r) (disc (snd x)) = Ok (None, d)"
    by blast
  then show ?thesis using e f unfolding Let_def x_def by simp
qed

text \<open>
  A file that could not be submitted stays eligible: when discovery reports an observed file
  but the owner refuses it, the tick ends with that error, nothing after the file is looked at, and
  discovery neither knows the file nor counts it as half observed, so that it is reported again
  after the usual number of unchanged observations.
\<close>

theorem refused_file_stays_eligible:
  assumes inv: "discovery_inv (disc p)" and w: "stop_requested src (pump_world p) = (False, w)"
    and cap: "available_capacity env (owner (set_pump_world w p)) = Ok n" "n \<noteq> 0"
    and obs: "observe alloc f (disc p) = Ok (Some g, d)"
    and sub: "submit ialloc env g sel (owner (set_pump_world w p)) = (Err e, ing)"
  shows "\<exists>p'. observe_all alloc ialloc env src sel (f # fs) k p = (Err (PumpIngestion e), p') \<and>
     owner p' = ing \<and> \<not> is_known f (disc p') \<and> map_of (pending (disc p')) (canonical_path f) = None"
proof -
  have d: "disc (set_pump_world w p) = disc p" by (simp add: set_pump_world_def)
  have "g = f \<and> map_of (pending d) (canonical_path f) = None"
    using obs by (auto simp: observe_def delete_conv' split: if_splits)
  then have "\<not> is_known f (release g d) \<and> map_of (pending (release g d)) (canonical_path f) = None"
    by (simp add: release_def is_known_def)
  then show ?thesis using w cap obs sub d by simp
qed

text \<open>An owner that refuses: its set cannot grow.\<close>

theorem refused_file_stays_eligible_witness:
  "let p = sample_pump\<lparr>disc := discovery_step (\<lambda>_ _ _. True) sample_discovery (DObserve sample_file)\<rparr>
   in \<exists>p'. observe_all (\<lambda>_ _ _. True) (\<lambda>_. False) (logged quiet_env) (logged_source steady_source) all_selected
       [sample_file] 0 p = (Err (PumpIngestion IngestionResourceLimit), p') \<and> \<not> is_known sample_file (disc p')"
proof -
  let ?p = "sample_pump\<lparr>disc := discovery_step (\<lambda>_ _ _. True) sample_discovery (DObserve sample_file)\<rparr>"
  have inv: "discovery_inv (disc ?p)"
    using discovery_step_inv [OF new_discovery_inv [OF sample_discovery_new]] by simp
  have w: "stop_requested (logged_source steady_source) (pump_world ?p) = (False, ((), []))"
    by (simp add: steady_source_def logged_source_def lift_call_def pump_world_def sample_pump_def
        new_ingestion_def sample_coordinator_def)
  have cap: "available_capacity (logged quiet_env) (owner (set_pump_world ((), []) ?p)) = Ok 1"
    by (simp add: available_capacity_def set_pump_world_def sample_pump_def new_ingestion_def set_world_def
        logged_def quiet_env_def)
  have sub: "submit (\<lambda>_. False) (logged quiet_env) sample_file all_selected (owner (set_pump_world ((), []) ?p)) =
      (Err IngestionResourceLimit, owner (set_pump_world ((), []) ?p))"
    using cap by (simp add: submit_def set_pump_world_def sample_pump_def new_ingestion_def)
  have "observe (\<lambda>_ _ _. True) sample_file (disc ?p) =
      Ok (Some sample_file, sample_discovery\<lparr>accepted := [sample_file], known := {identity_key sample_file}\<rparr>)"
    using sample_observe_twice by simp
  from refused_file_stays_eligible [OF inv w cap _ this sub, of "[]" 0] show ?thesis
    unfolding Let_def by auto
qed

end
