(* ===== verification/Bytes.thy ===== *)
theory Bytes
  imports Prelude
begin

text \<open>
  Byte sequences as the decoders see them: little-endian integers with their encoder, the slices
  and iterators of the standard library that the source uses (\<open>chunks_exact\<close>, \<open>split\<close>,
  \<open>binary_search\<close>), and the validity check of \<open>std::str::from_utf8\<close>.
\<close>

type_synonym bytes = "u8 list"

section \<open>Little-endian integers\<close>

fun le_nat :: "bytes \<Rightarrow> nat" where
  "le_nat [] = 0"
| "le_nat (b # bs) = unat b + 256 * le_nat bs"

definition le_word :: "bytes \<Rightarrow> 'a::len word" where
  "le_word bs = of_nat (le_nat bs)"

fun le_bytes :: "nat \<Rightarrow> nat \<Rightarrow> bytes" where
  "le_bytes 0 n = []"
| "le_bytes (Suc k) n = of_nat (n mod 256) # le_bytes k (n div 256)"

lemma length_le_bytes [simp]: "length (le_bytes k n) = k"
  by (induction k arbitrary: n) auto

lemma unat_byte [simp]: "unat (of_nat (n mod 256) :: u8) = n mod 256"
  by (simp add: unat_of_nat)

lemma le_nat_bytes [simp]: "n < 256 ^ k \<Longrightarrow> le_nat (le_bytes k n) = n"
proof (induction k arbitrary: n)
  case (Suc k)
  then have "n div 256 < 256 ^ k" by (simp add: less_mult_imp_div_less mult.commute)
  with Suc.IH show ?case by simp
qed simp

lemma le_nat_bound: "le_nat bs < 256 ^ length bs"
proof (induction bs)
  case (Cons b bs)
  have "unat b < 256" using unsigned_less [of b] by simp
  with Cons show ?case by simp
qed simp

lemma le_word_bytes:
  assumes "LENGTH('a::len) = 8 * k"
  shows "(le_word (le_bytes k (unat (w :: 'a word))) :: 'a word) = w"
proof -
  have "unat w < 256 ^ k"
    using unsigned_less [of w] assms by (simp add: power_mult)
  then show ?thesis by (simp add: le_word_def)
qed

lemma le_word_bytes_16 [simp]: "(le_word (le_bytes 2 (unat (w :: u16))) :: u16) = w"
  by (rule le_word_bytes) simp

lemma le_word_bytes_32 [simp]: "(le_word (le_bytes 4 (unat (w :: u32))) :: u32) = w"
  by (rule le_word_bytes) simp

lemma le_word_bytes_64 [simp]: "(le_word (le_bytes 8 (unat (w :: u64))) :: u64) = w"
  by (rule le_word_bytes) simp

section \<open>Slices\<close>

definition slice :: "nat \<Rightarrow> nat \<Rightarrow> 'a list \<Rightarrow> 'a list" where
  "slice offset n bs = take n (drop offset bs)"

lemma length_slice: "offset + n \<le> length bs \<Longrightarrow> length (slice offset n bs) = n"
  by (simp add: slice_def)

text \<open>\<open>chunks_exact\<close>: the incomplete tail is dropped.\<close>

function chunks_exact :: "nat \<Rightarrow> 'a list \<Rightarrow> 'a list list" where
  "chunks_exact n bs =
     (if n = 0 \<or> length bs < n then [] else take n bs # chunks_exact n (drop n bs))"
  by pat_completeness auto
termination
  by (relation "measure (\<lambda>(_, bs). length bs)") auto

declare chunks_exact.simps [simp del]

lemma chunks_exact_length: "c \<in> set (chunks_exact n bs) \<Longrightarrow> length c = n"
proof (induction n bs rule: chunks_exact.induct)
  case (1 n bs)
  from "1.prems" show ?case
    by (subst (asm) chunks_exact.simps) (use "1.IH" in \<open>auto split: if_splits\<close>)
qed

lemma chunks_exact_concat:
  assumes "\<forall>c \<in> set cs. length c = n" and "n \<noteq> 0"
  shows "chunks_exact n (concat cs) = cs"
  using assms(1)
proof (induction cs)
  case Nil
  show ?case by (subst chunks_exact.simps) (simp add: assms(2))
next
  case (Cons c cs)
  then show ?case by (subst chunks_exact.simps) (simp add: assms(2))
qed

text \<open>\<open>slice::split\<close> on a separator: always at least one segment.\<close>

fun split_at_sep :: "'a \<Rightarrow> 'a list \<Rightarrow> 'a list list" where
  "split_at_sep s [] = [[]]"
| "split_at_sep s (x # xs) =
     (if x = s then [] # split_at_sep s xs
      else case split_at_sep s xs of [] \<Rightarrow> [[x]] | seg # segs \<Rightarrow> (x # seg) # segs)"

lemma split_at_sep_nonempty [simp]: "split_at_sep s xs \<noteq> []"
  by (induction xs) (auto split: list.split)

lemma split_at_sep_free: "seg \<in> set (split_at_sep s xs) \<Longrightarrow> s \<notin> set seg"
  by (induction xs arbitrary: seg) (auto split: list.splits if_splits)

lemma split_at_sep_append:
  "s \<notin> set xs \<Longrightarrow> split_at_sep s (xs @ s # ys) = xs # split_at_sep s ys"
  by (induction xs) auto

lemma split_at_sep_total: "sum_list (map length (split_at_sep s xs)) + length (split_at_sep s xs) = length xs + 1"
  by (induction xs) (auto split: list.splits)

section \<open>Binary search\<close>

text \<open>\<open>slice::binary_search(..).is_ok()\<close> by halving.\<close>

function search_ok :: "'a::linorder list \<Rightarrow> 'a \<Rightarrow> bool" where
  "search_ok xs x =
     (if xs = [] then False
      else let m = length xs div 2 in
        if xs ! m = x then True
        else if xs ! m < x then search_ok (drop (Suc m) xs) x
        else search_ok (take m xs) x)"
  by pat_completeness auto
termination
  by (relation "measure (\<lambda>(xs, _). length xs)") (auto simp: Let_def)

declare search_ok.simps [simp del]

lemma search_ok_iff: "sorted xs \<Longrightarrow> search_ok xs x \<longleftrightarrow> x \<in> set xs"
proof (induction xs x rule: search_ok.induct)
  case (1 xs x)
  show ?case
  proof (cases "xs = []")
    case True
    then show ?thesis by (simp add: search_ok.simps)
  next
    case False
    define m where "m = length xs div 2"
    have m: "m < length xs" using False by (simp add: m_def)
    have xs: "xs = take m xs @ xs ! m # drop (Suc m) xs" by (rule id_take_nth_drop [OF m])
    have srt: "sorted (take m xs)" "sorted (drop (Suc m) xs)"
      using 1(3) by (simp_all add: sorted_wrt_take sorted_wrt_drop)
    have lo: "\<forall>y \<in> set (take m xs). y \<le> xs ! m" and hi: "\<forall>y \<in> set (drop (Suc m) xs). xs ! m \<le> y"
      using 1(3) by (subst (asm) xs; auto simp: sorted_append)+
    have mem: "x \<in> set xs \<longleftrightarrow> x \<in> set (take m xs) \<or> x = xs ! m \<or> x \<in> set (drop (Suc m) xs)"
      by (subst xs) auto
    consider "xs ! m = x" | "xs ! m < x" | "x < xs ! m" by fastforce
    then show ?thesis
    proof cases
      case 1
      then show ?thesis using False m by (subst search_ok.simps) (auto simp: m_def [symmetric] Let_def)
    next
      case 2
      then have "search_ok xs x = search_ok (drop (Suc m) xs) x"
        using False by (subst search_ok.simps) (auto simp: m_def [symmetric] Let_def)
      also have "\<dots> \<longleftrightarrow> x \<in> set (drop (Suc m) xs)"
        using "1.IH"(1) [OF False m_def] 2 srt by auto
      finally show ?thesis using mem lo 2 by fastforce
    next
      case 3
      then have "search_ok xs x = search_ok (take m xs) x"
        using False by (subst search_ok.simps) (auto simp: m_def [symmetric] Let_def)
      also have "\<dots> \<longleftrightarrow> x \<in> set (take m xs)"
        using "1.IH"(2) [OF False m_def] 3 srt by auto
      finally show ?thesis using mem hi 3 by fastforce
    qed
  qed
qed

section \<open>UTF-8\<close>

definition between :: "nat \<Rightarrow> nat \<Rightarrow> u8 \<Rightarrow> bool" where
  "between a b w \<longleftrightarrow> a \<le> unat w \<and> unat w \<le> b"

abbreviation continuation :: "u8 \<Rightarrow> bool" where
  "continuation \<equiv> between 128 191"

text \<open>The well-formed sequences of \<open>str::from_utf8\<close> (Unicode, table 3-7).\<close>

function utf8_valid :: "bytes \<Rightarrow> bool" where
  "utf8_valid bs =
     (case bs of
        [] \<Rightarrow> True
      | b # r \<Rightarrow>
          if between 0 127 b then utf8_valid r
          else if between 194 223 b
          then (case r of c # t \<Rightarrow> continuation c \<and> utf8_valid t | _ \<Rightarrow> False)
          else if between 224 239 b
          then (case r of
                  c # d # t \<Rightarrow>
                    (if unat b = 224 then between 160 191 c
                     else if unat b = 237 then between 128 159 c else continuation c) \<and>
                    continuation d \<and> utf8_valid t
                | _ \<Rightarrow> False)
          else if between 240 244 b
          then (case r of
                  c # d # e # t \<Rightarrow>
                    (if unat b = 240 then between 144 191 c
                     else if unat b = 244 then between 128 143 c else continuation c) \<and>
                    continuation d \<and> continuation e \<and> utf8_valid t
                | _ \<Rightarrow> False)
          else False)"
  by pat_completeness auto
termination
  by (relation "measure length") auto

declare utf8_valid.simps [simp del]

lemma utf8_valid_ascii: "\<forall>b \<in> set bs. unat b < 128 \<Longrightarrow> utf8_valid bs"
  by (induction bs) (subst utf8_valid.simps, simp add: between_def)+

definition to_string :: "bytes \<Rightarrow> string" where
  "to_string bs = map (\<lambda>b. char_of (unat b)) bs"

definition of_string :: "string \<Rightarrow> bytes" where
  "of_string s = map (\<lambda>c. of_nat (of_char c)) s"

end
