(* ===== verification/Evtc.thy ===== *)
theory Evtc
  imports Bytes Ports
begin

text \<open>
  The EVTC metadata decoder (\<open>rust/src/evtc/metadata_decoder.rs\<close>). The closure that asks whether
  the parse is cancelled is a function from the number of earlier questions to the answer, so the
  scans thread a counter; \<open>alloc\<close> answers \<open>try_reserve_exact\<close>. A record is a slice of exactly its
  width (\<open>chunks_exact_length\<close>), so the field reads below stay inside it.
\<close>

definition agent_size :: nat where "agent_size = 96"
definition skill_size :: nat where "skill_size = 68"
definition event_size :: nat where "event_size = 64"
definition max_agents :: nat where "max_agents = 100000"
definition max_skills :: nat where "max_skills = 65535"
definition max_events :: nat where "max_events = 10000000"

lemmas wire_sizes = agent_size_def skill_size_def event_size_def

section \<open>The cursor\<close>

definition take_bytes :: "nat \<Rightarrow> bytes \<Rightarrow> (metadata_error, bytes \<times> bytes) result" where
  "take_bytes n bs = (if n \<le> length bs then Ok (take n bs, drop n bs) else Err MalformedLog)"

definition u32_at :: "bytes \<Rightarrow> nat \<Rightarrow> u32" where
  "u32_at r offset = le_word (slice offset 4 r)"

definition u64_at :: "bytes \<Rightarrow> nat \<Rightarrow> u64" where
  "u64_at r offset = le_word (slice offset 8 r)"

definition read_table :: "nat \<Rightarrow> nat \<Rightarrow> bytes \<Rightarrow> (metadata_error, bytes \<times> bytes) result" where
  "read_table width limit bs =
     and_then (take_bytes 4 bs) (\<lambda>(head, rest).
       let count = unat (u32_at head 0) in
       if limit < count then Err MalformedLog
       else if usize_max < count * width then Err MalformedLog
       else take_bytes (count * width) rest)"

definition account :: "bytes \<Rightarrow> (metadata_error, string) result" where
  "account agent =
     (case split_at_sep 0 (slice 28 64 agent) of
        _ # acc # _ # _ \<Rightarrow>
          if acc = [] then Err MissingPointOfView
          else if utf8_valid acc then Ok (to_string acc) else Err MalformedLog
      | _ \<Rightarrow> Err MalformedLog)"

section \<open>The scans\<close>

definition is_boss :: "u16 \<Rightarrow> bytes \<Rightarrow> bool" where
  "is_boss boss agent \<longleftrightarrow>
     u64_at agent 0 \<noteq> 0 \<and> u32_at agent 12 = - 1 \<and>
     drop_bit 16 (u32_at agent 8) \<noteq> 65535 \<and> ucast (u32_at agent 8) = boss"

fun scan_bosses ::
  "(nat \<Rightarrow> bool) \<Rightarrow> u16 \<Rightarrow> bytes list \<Rightarrow> u64 list \<Rightarrow> nat \<Rightarrow> (metadata_error, u64 list \<times> nat) result"
where
  "scan_bosses stop boss [] found k = Ok (found, k)"
| "scan_bosses stop boss (a # as) found k =
     (if stop k then Err MetadataCancelled
      else scan_bosses stop boss as
        (if is_boss boss a then found @ [u64_at a 0] else found) (k + 1))"

fun scan_events ::
  "(nat \<Rightarrow> bool) \<Rightarrow> u64 list \<Rightarrow> bytes list \<Rightarrow> u64 option \<Rightarrow> u16 option \<Rightarrow> nat \<Rightarrow>
     (metadata_error, u64 option \<times> u16 option \<times> nat) result"
where
  "scan_events stop bosses [] pov health k = Ok (pov, health, k)"
| "scan_events stop bosses (e # es) pov health k =
     (if stop k then Err MetadataCancelled
      else let source = u64_at e 8; kind = e ! 56 in
        if kind = 13 \<and> pov = None \<and> source \<noteq> 0
        then scan_events stop bosses es (Some source) health (k + 1)
        else if kind = 8 \<and> search_ok bosses source
        then let v = u64_at e 16 in
          scan_events stop bosses es pov (if v \<le> 10000 then Some (ucast v) else health) (k + 1)
        else scan_events stop bosses es pov health (k + 1))"

fun find_account ::
  "(nat \<Rightarrow> bool) \<Rightarrow> u16 \<Rightarrow> u64 \<Rightarrow> u16 option \<Rightarrow> bytes list \<Rightarrow> nat \<Rightarrow>
     (metadata_error, encounter_metadata) result"
where
  "find_account stop boss pov health [] k = Err MissingPointOfView"
| "find_account stop boss pov health (a # as) k =
     (if stop k then Err MetadataCancelled
      else if u64_at a 0 = pov
      then if u32_at a 12 = - 1 then Err MissingPointOfView
        else and_then (account a) (\<lambda>acc.
          Ok \<lparr>boss_id = boss, pov_account = acc, remaining_health_basis_points = health\<rparr>)
      else find_account stop boss pov health as (k + 1))"

definition decode_tables ::
  "(nat \<Rightarrow> bool) \<Rightarrow> u16 \<Rightarrow> bytes list \<Rightarrow> bytes list \<Rightarrow> (metadata_error, encounter_metadata) result"
where
  "decode_tables stop boss agents events =
     and_then (scan_bosses stop boss agents [] 1) (\<lambda>(bosses, k).
       if stop k then Err MetadataCancelled
       else and_then (scan_events stop (sort bosses) events None None (k + 1)) (\<lambda>(pov, health, k).
         and_then (ok_or MissingPointOfView pov) (\<lambda>p.
           find_account stop boss p health agents k)))"

definition magic :: bytes where
  "magic = [69, 86, 84, 67]"

definition decode ::
  "(nat \<Rightarrow> bool) \<Rightarrow> (nat \<Rightarrow> bool) \<Rightarrow> bytes \<Rightarrow> (metadata_error, encounter_metadata) result" where
  "decode stop alloc payload =
     (if stop 0 then Err MetadataCancelled
      else and_then (take_bytes 16 payload) (\<lambda>(header, r0).
        if take 4 header \<noteq> magic \<or> header ! 12 \<noteq> 1 then Err UnsupportedFormat
        else let boss = le_word [header ! 13, header ! 14] in
          and_then (read_table agent_size max_agents r0) (\<lambda>(agents, r1).
          and_then (read_table skill_size max_skills r1) (\<lambda>(_, events).
            if length events mod event_size \<noteq> 0 \<or> max_events < length events div event_size
            then Err MalformedLog
            else if \<not> alloc (length agents div agent_size) then Err MetadataLimit
            else decode_tables stop boss (chunks_exact agent_size agents)
                   (chunks_exact event_size events)))))"

section \<open>Cancellation\<close>

abbreviation never :: "nat \<Rightarrow> bool" where
  "never \<equiv> \<lambda>_. False"

lemma and_then_cancel:
  "r = Err MetadataCancelled \<or> r = r' \<Longrightarrow>
     (\<And>x. r' = Ok x \<Longrightarrow> f x = Err MetadataCancelled \<or> f x = f' x) \<Longrightarrow>
     and_then r f = Err MetadataCancelled \<or> and_then r f = and_then r' f'"
  by (cases r; cases r') auto

lemma scan_bosses_cancel:
  "scan_bosses stop boss as found k = Err MetadataCancelled \<or>
   scan_bosses stop boss as found k = scan_bosses (\<lambda>_. False) boss as found k"
  by (induction as arbitrary: found k) auto

lemma scan_events_cancel:
  "scan_events stop bosses es pov health k = Err MetadataCancelled \<or>
   scan_events stop bosses es pov health k = scan_events (\<lambda>_. False) bosses es pov health k"
  by (induction es arbitrary: pov health k) (simp_all add: Let_def)

lemma find_account_cancel:
  "find_account stop boss pov health as k = Err MetadataCancelled \<or>
   find_account stop boss pov health as k = find_account (\<lambda>_. False) boss pov health as k"
  by (induction as arbitrary: k) simp_all

lemma decode_tables_cancel:
  "decode_tables stop boss as es = Err MetadataCancelled \<or>
   decode_tables stop boss as es = decode_tables (\<lambda>_. False) boss as es"
proof -
  have inner: "and_then (ok_or MissingPointOfView pov) (\<lambda>p. find_account stop boss p health as k) = Err MetadataCancelled \<or>
      and_then (ok_or MissingPointOfView pov) (\<lambda>p. find_account stop boss p health as k) =
      and_then (ok_or MissingPointOfView pov) (\<lambda>p. find_account never boss p health as k)" for pov health k
    by (rule and_then_cancel) (simp_all add: find_account_cancel)
  have mid: "and_then (scan_events stop bs es None None k) (\<lambda>(pov, health, k).
          and_then (ok_or MissingPointOfView pov) (\<lambda>p. find_account stop boss p health as k)) = Err MetadataCancelled \<or>
      and_then (scan_events stop bs es None None k) (\<lambda>(pov, health, k).
          and_then (ok_or MissingPointOfView pov) (\<lambda>p. find_account stop boss p health as k)) =
      and_then (scan_events never bs es None None k) (\<lambda>(pov, health, k).
          and_then (ok_or MissingPointOfView pov) (\<lambda>p. find_account never boss p health as k))" for bs k
    by (rule and_then_cancel [OF scan_events_cancel]) (use inner in auto)
  show ?thesis
    unfolding decode_tables_def
  proof (rule and_then_cancel [OF scan_bosses_cancel])
    fix x :: "u64 list \<times> nat"
    obtain bs k where x: "x = (bs, k)" by fastforce
    show "(case x of (bosses, k) \<Rightarrow>
          if stop k then Err MetadataCancelled
          else and_then (scan_events stop (sort bosses) es None None (k + 1)) (\<lambda>(pov, health, k).
            and_then (ok_or MissingPointOfView pov) (\<lambda>p. find_account stop boss p health as k))) =
          Err MetadataCancelled \<or>
        (case x of (bosses, k) \<Rightarrow>
          if stop k then Err MetadataCancelled
          else and_then (scan_events stop (sort bosses) es None None (k + 1)) (\<lambda>(pov, health, k).
            and_then (ok_or MissingPointOfView pov) (\<lambda>p. find_account stop boss p health as k))) =
        (case x of (bosses, k) \<Rightarrow>
          if never k then Err MetadataCancelled
          else and_then (scan_events never (sort bosses) es None None (k + 1)) (\<lambda>(pov, health, k).
            and_then (ok_or MissingPointOfView pov) (\<lambda>p. find_account never boss p health as k)))"
      using mid [of "sort bs" "k + 1"] by (simp add: x)
  qed
qed

section \<open>The scans without cancellation\<close>

lemma scan_bosses_never:
  "scan_bosses never boss as found k =
     Ok (found @ map (\<lambda>a. u64_at a 0) (filter (is_boss boss) as), k + length as)"
  by (induction as arbitrary: found k) auto

definition pov_event :: "bytes \<Rightarrow> bool" where
  "pov_event e \<longleftrightarrow> e ! 56 = 13 \<and> u64_at e 8 \<noteq> 0"

definition health_event :: "u64 set \<Rightarrow> bytes \<Rightarrow> bool" where
  "health_event bosses e \<longleftrightarrow> e ! 56 = 8 \<and> u64_at e 8 \<in> bosses \<and> u64_at e 16 \<le> 10000"

definition first_pov :: "u64 option \<Rightarrow> bytes list \<Rightarrow> u64 option" where
  "first_pov pov es =
     (case pov of Some p \<Rightarrow> Some p
      | None \<Rightarrow> map_option (\<lambda>e. u64_at e 8) (List.find pov_event es))"

definition last_health :: "u64 set \<Rightarrow> u16 option \<Rightarrow> bytes list \<Rightarrow> u16 option" where
  "last_health bosses health es =
     (let hs = filter (health_event bosses) es in
      if hs = [] then health else Some (ucast (u64_at (last hs) 16)))"

lemma scan_events_never:
  assumes "sorted bosses"
  shows "scan_events never bosses es pov health k =
     Ok (first_pov pov es, last_health (set bosses) health es, k + length es)"
proof (induction es arbitrary: pov health k)
  case Nil
  show ?case by (simp add: first_pov_def last_health_def split: option.split)
next
  case (Cons e es)
  have two: "(13 :: u8) \<noteq> 8" by simp
  show ?case
    by (cases pov; cases "filter (health_event (set bosses)) es")
      (auto simp: Let_def Cons search_ok_iff [OF assms] first_pov_def last_health_def pov_event_def
        health_event_def two)
qed

lemma find_account_never:
  "find_account never boss pov health as k =
     (case List.find (\<lambda>a. u64_at a 0 = pov) as of
        None \<Rightarrow> Err MissingPointOfView
      | Some a \<Rightarrow>
          if u32_at a 12 = - 1 then Err MissingPointOfView
          else and_then (account a) (\<lambda>acc.
            Ok \<lparr>boss_id = boss, pov_account = acc, remaining_health_basis_points = health\<rparr>))"
  by (induction as arbitrary: k) auto

lemma decode_tables_never:
  "decode_tables never boss as es =
     (let bosses = (\<lambda>a. u64_at a 0) ` {a \<in> set as. is_boss boss a} in
      case first_pov None es of
        None \<Rightarrow> Err MissingPointOfView
      | Some pov \<Rightarrow>
          (case List.find (\<lambda>a. u64_at a 0 = pov) as of
             None \<Rightarrow> Err MissingPointOfView
           | Some a \<Rightarrow>
               if u32_at a 12 = - 1 then Err MissingPointOfView
               else and_then (account a) (\<lambda>acc.
                 Ok \<lparr>boss_id = boss, pov_account = acc,
                   remaining_health_basis_points = last_health bosses None es\<rparr>)))"
proof -
  let ?b = "map (\<lambda>a. u64_at a 0) (filter (is_boss boss) as)"
  have "sorted (sort ?b)" and "set (sort ?b) = (\<lambda>a. u64_at a 0) ` {a \<in> set as. is_boss boss a}" by auto
  then show ?thesis
    by (simp add: decode_tables_def scan_bosses_never scan_events_never find_account_never Let_def
        ok_or_def split: option.split)
qed

section \<open>The format as data\<close>

text \<open>
  An EVTC revision-1 log by its parts, and its wire form: the specification against which the
  decoder is judged. The account is the second NUL-terminated segment of the name field.
\<close>

record evtc_agent =
  address :: u64
  species :: u32
  marker :: u32
  stats :: bytes
  character :: bytes
  acct :: bytes
  padding :: bytes
  agent_tail :: bytes

record evtc_event =
  event_time :: bytes
  source :: u64
  event_value :: u64
  event_body :: bytes
  kind :: u8
  event_tail :: bytes

record evtc_log =
  build_date :: bytes
  log_boss :: u16
  header_tail :: u8
  log_agents :: "evtc_agent list"
  log_skills :: "bytes list"
  log_events :: "evtc_event list"

definition encode_agent :: "evtc_agent \<Rightarrow> bytes" where
  "encode_agent a = le_bytes 8 (unat (address a)) @ le_bytes 4 (unat (species a)) @
     le_bytes 4 (unat (marker a)) @ stats a @ (character a @ 0 # acct a @ 0 # padding a) @ agent_tail a"

definition encode_event :: "evtc_event \<Rightarrow> bytes" where
  "encode_event e = event_time e @ le_bytes 8 (unat (source e)) @ le_bytes 8 (unat (event_value e)) @
     event_body e @ kind e # event_tail e"

definition encode_log :: "evtc_log \<Rightarrow> bytes" where
  "encode_log l = magic @ build_date l @ 1 # le_bytes 2 (unat (log_boss l)) @ header_tail l #
     le_bytes 4 (length (log_agents l)) @ concat (map encode_agent (log_agents l)) @
     le_bytes 4 (length (log_skills l)) @ concat (log_skills l) @
     concat (map encode_event (log_events l))"

definition wf_agent :: "evtc_agent \<Rightarrow> bool" where
  "wf_agent a \<longleftrightarrow> length (stats a) = 12 \<and> length (agent_tail a) = 4 \<and>
     length (character a) + length (acct a) + length (padding a) = 62 \<and>
     0 \<notin> set (character a) \<and> 0 \<notin> set (acct a)"

definition wf_event :: "evtc_event \<Rightarrow> bool" where
  "wf_event e \<longleftrightarrow> length (event_time e) = 8 \<and> length (event_body e) = 32 \<and> length (event_tail e) = 7"

definition wf_log :: "evtc_log \<Rightarrow> bool" where
  "wf_log l \<longleftrightarrow> length (build_date l) = 8 \<and>
     length (log_agents l) \<le> max_agents \<and> list_all wf_agent (log_agents l) \<and>
     length (log_skills l) \<le> max_skills \<and> list_all (\<lambda>s. length s = skill_size) (log_skills l) \<and>
     length (log_events l) \<le> max_events \<and> list_all wf_event (log_events l)"

definition boss_agent :: "u16 \<Rightarrow> evtc_agent \<Rightarrow> bool" where
  "boss_agent boss a \<longleftrightarrow> address a \<noteq> 0 \<and> marker a = - 1 \<and> drop_bit 16 (species a) \<noteq> 65535 \<and>
     ucast (species a) = boss"

definition log_health :: "evtc_log \<Rightarrow> u16 option" where
  "log_health l =
     (let hs = filter (\<lambda>e. kind e = 8 \<and> event_value e \<le> 10000 \<and>
            (\<exists>a \<in> set (log_agents l). boss_agent (log_boss l) a \<and> address a = source e)) (log_events l) in
      if hs = [] then None else Some (ucast (event_value (last hs))))"

definition log_metadata :: "evtc_log \<Rightarrow> (metadata_error, encounter_metadata) result" where
  "log_metadata l =
     (case List.find (\<lambda>e. kind e = 13 \<and> source e \<noteq> 0) (log_events l) of
        None \<Rightarrow> Err MissingPointOfView
      | Some e \<Rightarrow>
          (case List.find (\<lambda>a. address a = source e) (log_agents l) of
             None \<Rightarrow> Err MissingPointOfView
           | Some a \<Rightarrow>
               if marker a = - 1 \<or> acct a = [] then Err MissingPointOfView
               else if \<not> utf8_valid (acct a) then Err MalformedLog
               else Ok \<lparr>boss_id = log_boss l, pov_account = to_string (acct a),
                 remaining_health_basis_points = log_health l\<rparr>))"

section \<open>Reading a written log\<close>

lemma slice_middle: "length pre = o' \<Longrightarrow> length mid = n \<Longrightarrow> slice o' n (pre @ mid @ post) = mid"
  by (simp add: slice_def)

lemma agent_name_field:
  assumes "wf_agent a"
  shows "slice 28 64 (encode_agent a) = character a @ 0 # acct a @ 0 # padding a"
proof -
  have "encode_agent a = (le_bytes 8 (unat (address a)) @ le_bytes 4 (unat (species a)) @
      le_bytes 4 (unat (marker a)) @ stats a) @ (character a @ 0 # acct a @ 0 # padding a) @ agent_tail a"
    by (simp add: encode_agent_def)
  also have "slice 28 64 \<dots> = character a @ 0 # acct a @ 0 # padding a"
    by (rule slice_middle) (use assms in \<open>simp_all add: wf_agent_def\<close>)
  finally show ?thesis .
qed

lemma agent_fields:
  assumes "wf_agent a"
  shows "length (encode_agent a) = 96" and "u64_at (encode_agent a) 0 = address a"
    and "u32_at (encode_agent a) 8 = species a" and "u32_at (encode_agent a) 12 = marker a"
  using assms by (simp_all add: wf_agent_def encode_agent_def u64_at_def u32_at_def slice_def)

lemma event_fields:
  assumes "wf_event e"
  shows "length (encode_event e) = 64" and "u64_at (encode_event e) 8 = source e"
    and "u64_at (encode_event e) 16 = event_value e" and "encode_event e ! 56 = kind e"
  using assms by (simp_all add: wf_event_def encode_event_def u64_at_def slice_def nth_append)

lemma account_encoded:
  assumes "wf_agent a"
  shows "account (encode_agent a) =
     (if acct a = [] then Err MissingPointOfView
      else if utf8_valid (acct a) then Ok (to_string (acct a)) else Err MalformedLog)"
proof -
  have "split_at_sep 0 (slice 28 64 (encode_agent a)) =
      character a # acct a # split_at_sep 0 (padding a)"
    using assms by (simp add: agent_name_field) (simp add: split_at_sep_append wf_agent_def)
  moreover obtain seg segs where "split_at_sep 0 (padding a) = seg # segs"
    by (cases "split_at_sep 0 (padding a)") auto
  ultimately show ?thesis by (simp add: account_def)
qed

lemma is_boss_encoded: "wf_agent a \<Longrightarrow> is_boss boss (encode_agent a) = boss_agent boss a"
  by (simp add: is_boss_def boss_agent_def agent_fields)

lemma find_map:
  "List.find P (map f xs) = map_option f (List.find (\<lambda>x. P (f x)) xs)"
  by (induction xs) auto

lemma find_cong_list: "(\<And>x. x \<in> set xs \<Longrightarrow> P x = Q x) \<Longrightarrow> List.find P xs = List.find Q xs"
  by (induction xs) auto

lemma find_member: "List.find P xs = Some x \<Longrightarrow> x \<in> set xs \<and> P x"
  by (induction xs) (auto split: if_splits)

lemma decode_tables_encoded:
  assumes wa: "\<forall>a \<in> set (log_agents l). wf_agent a" and we: "\<forall>e \<in> set (log_events l). wf_event e"
  shows "decode_tables never (log_boss l) (map encode_agent (log_agents l)) (map encode_event (log_events l))
     = log_metadata l"
proof -
  let ?as = "map encode_agent (log_agents l)" and ?es = "map encode_event (log_events l)"
  define bosses where "bosses = (\<lambda>a. u64_at a 0) ` {a \<in> set ?as. is_boss (log_boss l) a}"
  have b: "source e \<in> bosses \<longleftrightarrow>
      (\<exists>a \<in> set (log_agents l). boss_agent (log_boss l) a \<and> address a = source e)" for e
    using wa by (auto simp: bosses_def is_boss_encoded agent_fields intro!: image_eqI)
  have "filter (health_event bosses) ?es = map encode_event (filter (\<lambda>e. kind e = 8 \<and> event_value e \<le> 10000 \<and>
      (\<exists>a \<in> set (log_agents l). boss_agent (log_boss l) a \<and> address a = source e)) (log_events l))"
    using we by (auto simp: filter_map health_event_def event_fields b comp_def intro!: arg_cong [of _ _ "map encode_event"] filter_cong)
  moreover have "wf_event (last (filter P (log_events l)))" if "filter P (log_events l) \<noteq> []" for P
    using we last_in_set [OF that] by auto
  ultimately have h: "last_health bosses None ?es = log_health l"
    by (simp add: last_health_def log_health_def last_map event_fields Let_def)
  have p: "first_pov None ?es =
      map_option source (List.find (\<lambda>e. kind e = 13 \<and> source e \<noteq> 0) (log_events l))"
  proof -
    have "List.find (\<lambda>e. pov_event (encode_event e)) (log_events l) =
        List.find (\<lambda>e. kind e = 13 \<and> source e \<noteq> 0) (log_events l)"
      using we by (intro find_cong_list) (simp add: pov_event_def event_fields)
    then show ?thesis
      using we by (cases "List.find (\<lambda>e. kind e = 13 \<and> source e \<noteq> 0) (log_events l)")
        (auto simp: first_pov_def find_map event_fields dest!: find_member)
  qed
  have f: "List.find (\<lambda>a. u64_at a 0 = v) ?as =
      map_option encode_agent (List.find (\<lambda>a. address a = v) (log_agents l))" for v
    using wa by (simp add: find_map) (intro arg_cong [of _ _ "map_option encode_agent"] find_cong_list, simp add: agent_fields)
  show ?thesis
    unfolding decode_tables_never log_metadata_def Let_def bosses_def [symmetric] h p f
    using wa by (auto simp: agent_fields account_encoded split: option.split dest!: find_member)
qed

lemma concat_lengths: "\<forall>x \<in> set xs. length x = n \<Longrightarrow> length (concat xs) = length xs * n"
  by (induction xs) simp_all

lemma read_table_encoded:
  assumes w: "\<forall>x \<in> set xs. length x = n" and lim: "length xs \<le> limit" and small: "limit < 2 ^ 32"
    and nn: "n \<le> 100"
  shows "read_table n limit (le_bytes 4 (length xs) @ concat xs @ rest) = Ok (concat xs, rest)"
proof -
  have c: "length (concat xs) = length xs * n" using w by (rule concat_lengths)
  have u: "unat (u32_at (le_bytes 4 (length xs)) 0) = length xs"
    using lim small by (simp add: u32_at_def slice_def le_word_def unat_of_nat)
  have "length xs * n \<le> 2 ^ 32 * 100" using lim small nn by (intro mult_le_mono) auto
  then have "length xs * n \<le> usize_max" by (simp add: usize_max_def)
  with u lim c show ?thesis by (simp add: read_table_def take_bytes_def)
qed

lemma decode_encoded:
  assumes wf: "wf_log l"
  shows "decode never (\<lambda>_. True) (encode_log l) = log_metadata l"
proof -
  let ?as = "map encode_agent (log_agents l)" and ?es = "map encode_event (log_events l)"
  have wa: "\<forall>a \<in> set (log_agents l). wf_agent a" and we: "\<forall>e \<in> set (log_events l). wf_event e"
    and ws: "\<forall>s \<in> set (log_skills l). length s = 68"
    using wf by (auto simp: wf_log_def list_all_iff skill_size_def)
  have la: "\<forall>x \<in> set ?as. length x = 96" and le: "\<forall>x \<in> set ?es. length x = 64"
    using wa we by (auto simp: agent_fields event_fields)
  define body where "body = le_bytes 4 (length ?as) @ concat ?as @ le_bytes 4 (length (log_skills l)) @
     concat (log_skills l) @ concat ?es"
  define header where "header = magic @ build_date l @ 1 # le_bytes 2 (unat (log_boss l)) @ [header_tail l]"
  have enc: "encode_log l = header @ body" by (simp add: encode_log_def header_def body_def)
  have lh: "length header = 16" and bd: "length (build_date l) = 8"
    using wf by (simp_all add: header_def magic_def wf_log_def)
  have lb: "length (le_bytes 2 (unat (log_boss l))) = 2" by simp
  then obtain x y where xy: "le_bytes 2 (unat (log_boss l)) = [x, y]"
    by (metis (no_types) One_nat_def Suc_1 length_0_conv length_Suc_conv)
  have h: "take 4 header = magic" "header ! 12 = 1" "header ! 13 = x" "header ! 14 = y"
    using bd by (simp_all add: header_def magic_def xy nth_append)
  have boss: "le_word [x, y] = log_boss l" using le_word_bytes_16 [of "log_boss l"] by (simp only: xy)
  have t1: "read_table agent_size max_agents body =
      Ok (concat ?as, le_bytes 4 (length (log_skills l)) @ concat (log_skills l) @ concat ?es)"
    unfolding body_def by (rule read_table_encoded) (use la wf in \<open>auto simp: wire_sizes wf_log_def max_agents_def\<close>)
  have t2: "read_table skill_size max_skills (le_bytes 4 (length (log_skills l)) @ concat (log_skills l) @ concat ?es) =
      Ok (concat (log_skills l), concat ?es)"
    by (rule read_table_encoded) (use ws wf in \<open>auto simp: wire_sizes wf_log_def max_skills_def\<close>)
  have ce: "length (concat ?es) = length (log_events l) * 64" using concat_lengths [OF le] by simp
  have ck: "chunks_exact agent_size (concat ?as) = ?as" "chunks_exact event_size (concat ?es) = ?es"
    using la le by (simp_all add: chunks_exact_concat wire_sizes)
  have "length (log_events l) \<le> max_events" using wf by (simp add: wf_log_def)
  then show ?thesis
    using t1 t2 ce lh h boss ck decode_tables_encoded [OF wa we]
    by (simp add: decode_def enc take_bytes_def event_size_def)
qed

section \<open>Properties of the decoder\<close>

lemma if_cancel:
  "(\<not> b \<Longrightarrow> x = Err MetadataCancelled \<or> x = y) \<Longrightarrow>
     (if b then e else x) = Err MetadataCancelled \<or> (if b then e else x) = (if b then e else y)"
  by auto

lemma decode_cancel:
  "decode stop alloc payload = Err MetadataCancelled \<or> decode stop alloc payload = decode never alloc payload"
proof (cases "stop 0")
  case False
  have inner: "and_then r (\<lambda>(x, y). f x y) = Err MetadataCancelled \<or>
      and_then r (\<lambda>(x, y). f x y) = and_then r (\<lambda>(x, y). g x y)"
    if "\<And>x y. f x y = Err MetadataCancelled \<or> f x y = g x y"
    for r :: "(metadata_error, bytes \<times> bytes) result" and f g :: "bytes \<Rightarrow> bytes \<Rightarrow> (metadata_error, encounter_metadata) result"
    by (rule and_then_cancel) (use that in auto)
  show ?thesis
    unfolding decode_def Let_def using False
    by (simp only: if_False) (intro inner if_cancel decode_tables_cancel)
qed (simp add: decode_def)

lemma decode_Ok:
  assumes "decode stop alloc payload = Ok m"
  obtains boss as es bs where "decode_tables never boss as es = Ok m" and "as = chunks_exact agent_size bs"
proof -
  have "decode never alloc payload = Ok m" using decode_cancel [of stop alloc payload] assms by auto
  then show thesis using that by (auto simp: decode_def Let_def split: if_splits prod.splits)
qed

lemma account_Ok:
  assumes "account a = Ok s" and "length a = 96"
  shows "\<exists>bs. s = to_string bs \<and> utf8_valid bs \<and> bs \<noteq> [] \<and> 0 \<notin> set bs \<and> length bs \<le> 62"
proof -
  from assms(1) obtain x bs y zs where segs: "split_at_sep 0 (slice 28 64 a) = x # bs # y # zs"
    and s: "bs \<noteq> []" "utf8_valid bs" "s = to_string bs"
    by (auto simp: account_def split: list.splits if_splits)
  have "length (slice 28 64 a) = 64" using assms(2) by (simp add: length_slice)
  then have "length bs \<le> 62" using split_at_sep_total [of 0 "slice 28 64 a"] by (simp add: segs)
  moreover have "0 \<notin> set bs" using split_at_sep_free [of bs 0 "slice 28 64 a"] by (simp add: segs)
  ultimately show ?thesis using s by blast
qed

lemma last_health_bound:
  assumes "last_health bosses None es = Some h"
  shows "h \<le> 10000"
proof -
  let ?hs = "filter (health_event bosses) es"
  from assms have "?hs \<noteq> []" and h: "h = ucast (u64_at (last ?hs) 16)"
    by (auto simp: last_health_def Let_def split: if_splits)
  then have "last ?hs \<in> set ?hs" by (intro last_in_set)
  then have "u64_at (last ?hs) 16 \<le> 10000" by (simp add: health_event_def)
  then show ?thesis
    by (simp add: h word_le_nat_alt unsigned_ucast_eq) (meson le_trans take_bit_nat_less_eq_self)
qed

text \<open>
  C34: Reading what was written: for every well-formed revision-1 log (any agents, skills and events
  within the limits) the decoder returns exactly the metadata that the log's structure defines: the
  account of the agent named by the first point-of-view event, the boss species of the header, and
  the value of the last valid health event of a boss agent.
\<close>

theorem decoder_reads_written_logs:
  assumes "wf_log l"
  shows "decode never (\<lambda>_. True) (encode_log l) = log_metadata l"
  using assms by (rule decode_encoded)

definition sample_agent :: evtc_agent where
  "sample_agent = \<lparr>address = 7, species = 1, marker = 2, stats = replicate 12 0, character = [65],
     acct = [58, 66], padding = replicate 59 0, agent_tail = replicate 4 0\<rparr>"

definition sample_log :: evtc_log where
  "sample_log = \<lparr>build_date = replicate 8 48, log_boss = 17194, header_tail = 0,
     log_agents = [sample_agent], log_skills = [],
     log_events = [\<lparr>event_time = replicate 8 0, source = 7, event_value = 0,
       event_body = replicate 32 0, kind = 13, event_tail = replicate 7 0\<rparr>]\<rparr>"

lemma sample_name: "to_string [58, 66] = '':B''"
  by code_simp

theorem decoder_reads_written_logs_witness:
  "decode never (\<lambda>_. True) (encode_log sample_log) =
     Ok \<lparr>boss_id = 17194, pov_account = '':B'', remaining_health_basis_points = None\<rparr>"
proof -
  have "wf_log sample_log"
    by (simp add: wf_log_def sample_log_def sample_agent_def wf_agent_def wf_event_def max_agents_def max_events_def)
  moreover have "utf8_valid [58, 66]" by (rule utf8_valid_ascii) simp
  then have "log_metadata sample_log = Ok \<lparr>boss_id = 17194, pov_account = '':B'', remaining_health_basis_points = None\<rparr>"
    by (simp add: log_metadata_def sample_log_def sample_agent_def log_health_def sample_name)
  ultimately show ?thesis using decoder_reads_written_logs [of sample_log] by simp
qed

text \<open>
  What the decoder accepts is bounded, whatever bytes it is given: the account is non-empty,
  valid UTF-8 without NUL and at most 62 bytes long, and a remaining health is at most 10000 basis
  points.
\<close>

theorem decoded_metadata_is_bounded:
  assumes "decode stop alloc payload = Ok m"
  shows "(\<exists>bs. pov_account m = to_string bs \<and> utf8_valid bs \<and> bs \<noteq> [] \<and> 0 \<notin> set bs \<and> length bs \<le> 62) \<and>
     (\<forall>h. remaining_health_basis_points m = Some h \<longrightarrow> h \<le> 10000)"
  using assms
proof (rule decode_Ok)
  fix boss as es bs
  assume d: "decode_tables never boss as es = Ok m" and as: "as = chunks_exact agent_size bs"
  from d obtain p a acc b where f: "List.find (\<lambda>a. u64_at a 0 = p) as = Some a" and acc: "account a = Ok acc"
    and m: "m = \<lparr>boss_id = boss, pov_account = acc, remaining_health_basis_points = last_health b None es\<rparr>"
    by (auto simp: decode_tables_never Let_def split: option.splits if_splits)
  have "length a = 96"
    using find_member [OF f] chunks_exact_length [of a agent_size bs] by (simp add: as agent_size_def)
  from account_Ok [OF acc this] last_health_bound show ?thesis by (simp add: m)
qed

theorem decoded_metadata_is_bounded_witness:
  "\<exists>bs. '':B'' = to_string bs \<and> utf8_valid bs \<and> bs \<noteq> [] \<and> 0 \<notin> set bs \<and> length bs \<le> 62"
proof -
  have "wf_log sample_log"
    by (simp add: wf_log_def sample_log_def sample_agent_def wf_agent_def wf_event_def max_agents_def max_events_def)
  moreover have "utf8_valid [58, 66]" by (rule utf8_valid_ascii) simp
  then have "log_metadata sample_log = Ok \<lparr>boss_id = 17194, pov_account = '':B'', remaining_health_basis_points = None\<rparr>"
    by (simp add: log_metadata_def sample_log_def sample_agent_def log_health_def sample_name)
  ultimately have "decode never (\<lambda>_. True) (encode_log sample_log) =
      Ok \<lparr>boss_id = 17194, pov_account = '':B'', remaining_health_basis_points = None\<rparr>"
    using decode_encoded [of sample_log] by simp
  from decoded_metadata_is_bounded [OF this] show ?thesis by simp
qed

end
