(* ===== verification/Zevtc.thy ===== *)
theory Zevtc
  imports Evtc
begin

text \<open>
  The bounded ZIP reader (\<open>rust/src/evtc/zevtc_archive.rs\<close>). Sizes and offsets are the 64-bit values
  of the source as natural numbers, with \<open>checked_add\<close> and \<open>checked_mul\<close> written out. The seekable
  source is its content and a predicate that says which reads fail. What is not in the repository is
  a parameter (\<open>codecs\<close>): the pieces in which the operating system hands out a byte range, the
  Deflate decoder of \<open>flate2\<close> (its pieces, whether it then fails, and how many bytes it consumed),
  and the CRC of \<open>crc32fast\<close>. The stop token is a function from the number of earlier checks.
\<close>

unbundle bit_operations_syntax

abbreviation INVALID :: metadata_error where "INVALID \<equiv> InvalidArchive"
abbreviation LIMIT :: metadata_error where "LIMIT \<equiv> MetadataLimit"

type_synonym 'a zip_result = "(metadata_error, 'a) result"

definition checked64 :: "nat \<Rightarrow> nat option" where
  "checked64 n = (if n < 2 ^ 64 then Some n else None)"

record archive_limits =
  archive_bytes :: nat
  uncompressed_bytes :: nat
  entries :: nat
  filename_bytes :: nat
  compression_ratio :: nat

definition default_limits :: archive_limits where
  "default_limits = \<lparr>archive_bytes = 256 * 1024 * 1024, uncompressed_bytes = 768 * 1024 * 1024,
     entries = 16, filename_bytes = 1024, compression_ratio = 200\<rparr>"

definition new_reader :: "archive_limits \<Rightarrow> archive_limits zip_result" where
  "new_reader l =
     (if archive_bytes l = 0 \<or> uncompressed_bytes l = 0 \<or> entries l = 0 \<or> filename_bytes l = 0 \<or>
        compression_ratio l = 0
      then Err LIMIT else Ok l)"

record seekable =
  content :: bytes
  read_fails :: "nat \<Rightarrow> nat \<Rightarrow> bool"
  end_fails :: bool

record codecs =
  deliver :: "bytes \<Rightarrow> bytes list \<times> bool"
  inflate :: "bytes \<Rightarrow> bytes list \<times> bool \<times> nat"
  crc32 :: "bytes \<Rightarrow> u32"
  alloc_bytes :: "nat \<Rightarrow> bool"

section \<open>Fields and reads\<close>

definition get_range :: "bytes \<Rightarrow> nat \<Rightarrow> nat \<Rightarrow> bytes zip_result" where
  "get_range bs offset n = (if offset + n \<le> length bs then Ok (slice offset n bs) else Err INVALID)"

definition get_u16 :: "bytes \<Rightarrow> nat \<Rightarrow> u16 zip_result" where
  "get_u16 bs offset = and_then (get_range bs offset 2) (\<lambda>f. Ok (le_word f))"

definition get_u32 :: "bytes \<Rightarrow> nat \<Rightarrow> u32 zip_result" where
  "get_u32 bs offset = and_then (get_range bs offset 4) (\<lambda>f. Ok (le_word f))"

definition get_u64 :: "bytes \<Rightarrow> nat \<Rightarrow> nat zip_result" where
  "get_u64 bs offset = and_then (get_range bs offset 8) (\<lambda>f. Ok (le_nat f))"

definition read_at :: "seekable \<Rightarrow> nat \<Rightarrow> nat \<Rightarrow> bytes zip_result" where
  "read_at f offset n =
     (if read_fails f offset n \<or> (n \<noteq> 0 \<and> length (content f) < offset + n) then Err INVALID
      else Ok (slice offset n (content f)))"

definition read_bytes :: "codecs \<Rightarrow> seekable \<Rightarrow> nat \<Rightarrow> nat \<Rightarrow> bytes zip_result" where
  "read_bytes cs f offset n = (if \<not> alloc_bytes cs n then Err LIMIT else read_at f offset n)"

section \<open>The end of the central directory\<close>

record zip_directory =
  dir_offset :: nat
  dir_size :: nat
  dir_count :: nat

abbreviation eocd_magic :: bytes where "eocd_magic \<equiv> [80, 75, 5, 6]"
abbreviation locator_magic :: bytes where "locator_magic \<equiv> [80, 75, 6, 7]"
abbreviation record_magic :: bytes where "record_magic \<equiv> [80, 75, 6, 6]"
abbreviation central_magic :: bytes where "central_magic \<equiv> [80, 75, 1, 2]"
abbreviation local_magic :: bytes where "local_magic \<equiv> [80, 75, 3, 4]"

definition is_eocd :: "bytes \<Rightarrow> nat \<Rightarrow> bool" where
  "is_eocd tail offset \<longleftrightarrow> slice offset 4 tail = eocd_magic \<and>
     (case get_u16 tail (offset + 20) of
        Err _ \<Rightarrow> False | Ok comment \<Rightarrow> offset + 22 + unat comment = length tail)"

definition find_eocd :: "bytes \<Rightarrow> nat option" where
  "find_eocd tail = List.find (is_eocd tail) (rev [0..<length tail - 22 + 1])"

text \<open>The ZIP64 record that a locator in front of the end record names.\<close>

definition zip64_directory ::
  "seekable \<Rightarrow> nat \<Rightarrow> zip_directory \<Rightarrow> bytes \<Rightarrow> (zip_directory \<times> nat) zip_result" where
  "zip64_directory f end_offset short locator =
     and_then (get_u32 locator 4) (\<lambda>disk.
     and_then (get_u32 locator 16) (\<lambda>disks.
       if disk \<noteq> 0 \<or> disks \<noteq> 1 then Err INVALID
       else and_then (get_u64 locator 8) (\<lambda>offset.
         and_then (read_at f offset 56) (\<lambda>rec.
         and_then (get_u64 rec 4) (\<lambda>record_size.
         and_then (get_u32 rec 16) (\<lambda>d1.
         and_then (get_u32 rec 20) (\<lambda>d2.
         and_then (get_u64 rec 24) (\<lambda>n1.
         and_then (get_u64 rec 32) (\<lambda>n2.
           if take 4 rec \<noteq> record_magic \<or> record_size < 44 \<or>
             Option.bind (checked64 (offset + 12)) (\<lambda>v. checked64 (v + record_size)) \<noteq> Some (end_offset - 20) \<or>
             d1 \<noteq> 0 \<or> d2 \<noteq> 0 \<or> n1 \<noteq> n2
           then Err INVALID
           else and_then (get_u64 rec 48) (\<lambda>o64.
             and_then (get_u64 rec 40) (\<lambda>s64.
               if (dir_offset short \<noteq> 2 ^ 32 - 1 \<and> dir_offset short \<noteq> o64) \<or>
                 (dir_size short \<noteq> 2 ^ 32 - 1 \<and> dir_size short \<noteq> s64) \<or>
                 (dir_count short \<noteq> 2 ^ 16 - 1 \<and> dir_count short \<noteq> n2)
               then Err INVALID
               else Ok (\<lparr>dir_offset = o64, dir_size = s64, dir_count = n2\<rparr>, offset))))))))))))"

definition check_directory :: "archive_limits \<Rightarrow> zip_directory \<Rightarrow> nat \<Rightarrow> zip_directory zip_result" where
  "check_directory limits d directory_end =
     (if entries limits < dir_count d then Err LIMIT
      else if checked64 (dir_offset d + dir_size d) \<noteq> Some directory_end then Err INVALID
      else and_then (ok_or LIMIT (Option.bind (checked64 (46 + filename_bytes limits))
             (\<lambda>n. checked64 (n + 2 * 65535)))) (\<lambda>per_entry.
        and_then (ok_or LIMIT (checked64 (dir_count d * per_entry))) (\<lambda>bound.
          if bound < dir_size d then Err LIMIT else Ok d)))"

definition directory :: "codecs \<Rightarrow> seekable \<Rightarrow> nat \<Rightarrow> archive_limits \<Rightarrow> zip_directory zip_result" where
  "directory cs f len limits =
     (if len < 22 then Err INVALID
      else let tail_size = min len (22 + 65535) in
        and_then (read_bytes cs f (len - tail_size) tail_size) (\<lambda>tail.
        and_then (ok_or INVALID (find_eocd tail)) (\<lambda>end.
          let eocd = drop end tail; end_offset = len - tail_size + end in
          and_then (get_u16 eocd 4) (\<lambda>disk.
          and_then (get_u16 eocd 6) (\<lambda>start_disk.
          and_then (get_u16 eocd 8) (\<lambda>here.
          and_then (get_u16 eocd 10) (\<lambda>total.
            if disk \<noteq> 0 \<or> start_disk \<noteq> 0 \<or> here \<noteq> total then Err INVALID
            else and_then (get_u32 eocd 16) (\<lambda>o32.
              and_then (get_u32 eocd 12) (\<lambda>s32.
                let short = \<lparr>dir_offset = unat o32, dir_size = unat s32, dir_count = unat total\<rparr>;
                    required = (o32 = - 1 \<or> s32 = - 1 \<or> total = - 1)
                in and_then (if 20 \<le> end_offset
                      then and_then (read_at f (end_offset - 20) 20) (\<lambda>b. Ok (Some b)) else Ok None) (\<lambda>locator.
                  and_then
                    (case locator of
                       Some l \<Rightarrow>
                         if take 4 l = locator_magic then zip64_directory f end_offset short l
                         else if required then Err INVALID else Ok (short, end_offset)
                     | None \<Rightarrow> if required then Err INVALID else Ok (short, end_offset))
                    (\<lambda>(d, directory_end). check_directory limits d directory_end)))))))))))"

section \<open>The entry\<close>

record zip_entry =
  entry_name :: bytes
  flags :: u16
  compression :: u16
  entry_crc :: u32
  compressed :: nat
  uncompressed :: nat
  entry_offset :: nat
  zip64_sizes :: bool

function zip64_extra :: "bytes \<Rightarrow> bytes option \<Rightarrow> bytes option zip_result" where
  "zip64_extra rest found =
     (if rest = [] then Ok found
      else and_then (get_u16 rest 0) (\<lambda>tag.
        and_then (get_u16 rest 2) (\<lambda>len.
        and_then (get_range rest 4 (unat len)) (\<lambda>val.
          if tag = 1 \<and> found \<noteq> None then Err INVALID
          else zip64_extra (drop (4 + unat len) rest) (if tag = 1 then Some val else found)))))"
  by pat_completeness auto
termination
  by (relation "measure (\<lambda>(rest, _). length rest)") auto

declare zip64_extra.simps [simp del]

definition unwrap_extra :: "bytes option \<Rightarrow> bytes" where
  "unwrap_extra x = (case x of None \<Rightarrow> [] | Some b \<Rightarrow> b)"

definition extended :: "u32 \<Rightarrow> bytes \<Rightarrow> (nat \<times> bytes) zip_result" where
  "extended v extra =
     (if v \<noteq> - 1 then Ok (unat v, extra)
      else and_then (get_u64 extra 0) (\<lambda>x. Ok (x, drop 8 extra)))"

definition ascii_lower :: "u8 \<Rightarrow> u8" where
  "ascii_lower b = (if 65 \<le> b \<and> b \<le> 90 then b + 32 else b)"

definition is_evtc_name :: "bytes \<Rightarrow> bool" where
  "is_evtc_name name \<longleftrightarrow> 5 \<le> length name \<and>
     map ascii_lower (drop (length name - 5) name) = [46, 101, 118, 116, 99]"

definition leaf_of :: "bytes \<Rightarrow> bytes" where
  "leaf_of name = rev (takeWhile (\<lambda>b. b \<noteq> 47 \<and> b \<noteq> 92) (rev name))"

text \<open>One central directory header: what it says and what follows it.\<close>

record central_header =
  header_entry :: zip_entry
  is_directory :: bool
  following :: bytes

definition read_central :: "archive_limits \<Rightarrow> bytes \<Rightarrow> central_header zip_result" where
  "read_central limits bs =
     and_then (get_range bs 0 4) (\<lambda>sig.
       if sig \<noteq> central_magic then Err INVALID
       else and_then (get_u16 bs 28) (\<lambda>name_len.
         and_then (get_u16 bs 30) (\<lambda>extra_len.
         and_then (get_u16 bs 32) (\<lambda>comment_len.
           if filename_bytes limits < unat name_len then Err LIMIT
           else and_then (get_range bs 46 (unat name_len)) (\<lambda>name.
             and_then (get_range bs (46 + unat name_len) (unat extra_len)) (\<lambda>extra.
             and_then (zip64_extra extra None) (\<lambda>found.
             and_then (get_u32 bs 24) (\<lambda>u.
             and_then (extended u (unwrap_extra found)) (\<lambda>(uncomp, z1).
             and_then (get_u32 bs 20) (\<lambda>c.
             and_then (extended c z1) (\<lambda>(comp, z2).
             and_then (get_u32 bs 42) (\<lambda>off.
             and_then (extended off z2) (\<lambda>(offset, z3).
             and_then (get_u16 bs 34) (\<lambda>disk.
             and_then (if disk = - 1 then and_then (get_u32 z3 0) (\<lambda>d. Ok (d \<noteq> 0)) else Ok (disk \<noteq> 0)) (\<lambda>bad_disk.
               if bad_disk then Err INVALID
               else and_then (if name \<noteq> [] \<and> last name = 47 then Ok True
                      else and_then (get_u32 bs 38) (\<lambda>attributes. Ok (attributes AND 16 \<noteq> 0))) (\<lambda>is_dir.
                 and_then (get_u16 bs 8) (\<lambda>fl.
                 and_then (get_u16 bs 10) (\<lambda>meth.
                 and_then (get_u32 bs 16) (\<lambda>crc.
                   let next = 46 + unat name_len + unat extra_len + unat comment_len in
                   if length bs < next then Err INVALID
                   else Ok \<lparr>header_entry = \<lparr>entry_name = name, flags = fl, compression = meth,
                          entry_crc = crc, compressed = comp, uncompressed = uncomp,
                          entry_offset = offset, zip64_sizes = (u = - 1 \<or> c = - 1)\<rparr>,
                        is_directory = is_dir, following = drop next bs\<rparr>)))))))))))))))))))"

fun select_loop ::
  "(nat \<Rightarrow> bool) \<Rightarrow> archive_limits \<Rightarrow> nat \<Rightarrow> bytes \<Rightarrow> zip_entry option \<Rightarrow> zip_entry option \<Rightarrow> nat \<Rightarrow> nat \<Rightarrow>
     (zip_entry option \<times> zip_entry option \<times> nat \<times> bytes \<times> nat) zip_result"
where
  "select_loop stop limits 0 bs selected fallback files k = Ok (selected, fallback, files, bs, k)"
| "select_loop stop limits (Suc n) bs selected fallback files k =
     (if stop k then Err MetadataCancelled
      else and_then (read_central limits bs) (\<lambda>h.
        if is_directory h then select_loop stop limits n (following h) selected fallback files (k + 1)
        else let name = entry_name (header_entry h); evtc = is_evtc_name name; leaf = leaf_of name in
          if evtc then
            if selected \<noteq> None then Err INVALID
            else select_loop stop limits n (following h) (Some (header_entry h)) fallback (files + 1) (k + 1)
          else if leaf \<noteq> [] \<and> 46 \<notin> set leaf
          then select_loop stop limits n (following h) selected (Some (header_entry h)) (files + 1) (k + 1)
          else select_loop stop limits n (following h) selected fallback (files + 1) (k + 1)))"

definition select_entry ::
  "(nat \<Rightarrow> bool) \<Rightarrow> archive_limits \<Rightarrow> nat \<Rightarrow> bytes \<Rightarrow> nat \<Rightarrow> (zip_entry \<times> nat) zip_result" where
  "select_entry stop limits count bs k =
     and_then (select_loop stop limits count bs None None 0 k) (\<lambda>(selected, fallback, files, rest, k).
       if rest \<noteq> [] then Err INVALID
       else case selected of
           Some e \<Rightarrow> Ok (e, k)
         | None \<Rightarrow> (case (if files = 1 then fallback else None) of
                     Some e \<Rightarrow> Ok (e, k) | None \<Rightarrow> Err INVALID))"

section \<open>The local header and the data descriptor\<close>

definition validate_local ::
  "codecs \<Rightarrow> seekable \<Rightarrow> zip_entry \<Rightarrow> nat \<Rightarrow> (nat \<times> zip_entry) zip_result" where
  "validate_local cs f e directory_start =
     and_then (read_at f (entry_offset e) 30) (\<lambda>header.
     and_then (get_u16 header 6) (\<lambda>fl.
     and_then (get_u16 header 8) (\<lambda>meth.
       if take 4 header \<noteq> local_magic \<or> fl \<noteq> flags e \<or> meth \<noteq> compression e then Err INVALID
       else and_then (get_u16 header 26) (\<lambda>name_len.
         and_then (get_u16 header 28) (\<lambda>extra_len.
           if unat name_len \<noteq> length (entry_name e) then Err INVALID
           else and_then (ok_or INVALID (checked64 (entry_offset e + 30))) (\<lambda>variable_start.
             and_then (ok_or INVALID (checked64 (variable_start + (unat name_len + unat extra_len)))) (\<lambda>data_start.
               if directory_start < data_start then Err INVALID
               else and_then (read_bytes cs f variable_start (unat name_len + unat extra_len)) (\<lambda>variable.
                 if take (unat name_len) variable \<noteq> entry_name e then Err INVALID
                 else and_then (zip64_extra (drop (unat name_len) variable) None) (\<lambda>found.
                   and_then (get_u32 header 22) (\<lambda>u.
                   and_then (get_u32 header 18) (\<lambda>c.
                   and_then (extended u (unwrap_extra found)) (\<lambda>(uncomp, z1).
                   and_then (extended c z1) (\<lambda>(comp, _).
                   and_then (get_u32 header 14) (\<lambda>crc.
                     let e1 = e\<lparr>zip64_sizes := zip64_sizes e \<or> u = - 1 \<or> c = - 1\<rparr> in
                     if flags e AND 8 = 0
                     then if (crc, comp, uncomp) \<noteq> (entry_crc e, compressed e, uncompressed e)
                       then Err INVALID else Ok (data_start, e1)
                     else if (crc \<noteq> 0 \<and> crc \<noteq> entry_crc e) \<or> (comp \<noteq> 0 \<and> comp \<noteq> compressed e) \<or>
                       (uncomp \<noteq> 0 \<and> uncomp \<noteq> uncompressed e)
                     then Err INVALID else Ok (data_start, e1)))))))))))))))"

text \<open>One of the two places where the descriptor may start; \<open>None\<close> is the \<open>continue\<close> of the loop.\<close>

definition descriptor_at :: "zip_entry \<Rightarrow> bytes \<Rightarrow> nat \<Rightarrow> bool zip_result" where
  "descriptor_at e bs start =
     (let width = (if zip64_sizes e then 20 else 12) in
      and_then (if start = 4 then and_then (get_u32 bs 0) (\<lambda>sig. Ok (sig \<noteq> 0x08074b50)) else Ok False) (\<lambda>skip.
        if skip \<or> length bs < start + width then Ok False
        else let d = slice start width bs in
          and_then (if zip64_sizes e
              then and_then (get_u64 d 4) (\<lambda>c. and_then (get_u64 d 12) (\<lambda>u. Ok (c, u)))
              else and_then (get_u32 d 4) (\<lambda>c. and_then (get_u32 d 8) (\<lambda>u. Ok (unat c, unat u)))) (\<lambda>(c, u).
            and_then (get_u32 d 0) (\<lambda>crc.
              Ok ((crc, c, u) = (entry_crc e, compressed e, uncompressed e))))))"

definition validate_descriptor ::
  "codecs \<Rightarrow> seekable \<Rightarrow> nat \<Rightarrow> nat \<Rightarrow> zip_entry \<Rightarrow> unit zip_result" where
  "validate_descriptor cs f offset bound e =
     (let width = (if zip64_sizes e then 20 else 12) in
      if bound < offset \<or> bound - offset < width then Err INVALID
      else and_then (read_bytes cs f offset (min (bound - offset) (width + 4))) (\<lambda>bs.
        and_then (descriptor_at e bs 0) (\<lambda>found.
          if found then Ok ()
          else and_then (descriptor_at e bs 4) (\<lambda>found. if found then Ok () else Err INVALID))))"

section \<open>Extraction\<close>

text \<open>\<open>read_payload\<close> over the pieces that the reader returns; an empty piece is the end.\<close>

fun read_payload ::
  "(nat \<Rightarrow> bool) \<Rightarrow> bytes list \<Rightarrow> bool \<Rightarrow> nat \<Rightarrow> bytes \<Rightarrow> nat \<Rightarrow> (bytes \<times> nat) zip_result" where
  "read_payload stop [] fails expected out k =
     (if stop k then Err MetadataCancelled else if fails then Err INVALID else Ok (out, k + 1))"
| "read_payload stop (c # cs) fails expected out k =
     (if stop k then Err MetadataCancelled
      else if c = [] then Ok (out, k + 1)
      else if expected < length out + length c then Err INVALID
      else read_payload stop cs fails expected (out @ c) (k + 1))"

definition read_entry ::
  "(nat \<Rightarrow> bool) \<Rightarrow> codecs \<Rightarrow> bytes \<Rightarrow> zip_entry \<Rightarrow> nat \<Rightarrow> (bytes \<times> nat) zip_result" where
  "read_entry stop cs raw e k =
     (if compression e = 0
      then if compressed e \<noteq> uncompressed e then Err INVALID
        else (case deliver cs raw of (pieces, fails) \<Rightarrow> read_payload stop pieces fails (uncompressed e) [] k)
      else if compression e = 8
      then (case inflate cs raw of (pieces, fails, total_in) \<Rightarrow>
          and_then (read_payload stop pieces fails (uncompressed e) [] k) (\<lambda>(out, k).
            if total_in \<noteq> compressed e then Err INVALID else Ok (out, k)))
      else Err INVALID)"

definition check_entry :: "archive_limits \<Rightarrow> zip_entry \<Rightarrow> unit zip_result" where
  "check_entry limits e =
     (if flags e AND NOT 0x080e \<noteq> 0 \<or> (compression e \<noteq> 0 \<and> compression e \<noteq> 8) \<or> uncompressed e = 0
      then Err INVALID
      else if uncompressed_bytes limits < uncompressed e \<or>
        compressed e * compression_ratio limits < uncompressed e
      then Err LIMIT else Ok ())"

definition extract_from ::
  "(nat \<Rightarrow> bool) \<Rightarrow> codecs \<Rightarrow> archive_limits \<Rightarrow> seekable \<Rightarrow> nat \<Rightarrow> bytes zip_result" where
  "extract_from stop cs limits f len =
     (if stop 0 then Err MetadataCancelled
      else if archive_bytes limits < len then Err LIMIT
      else if end_fails f \<or> length (content f) \<noteq> len then Err INVALID
      else and_then (directory cs f len limits) (\<lambda>d.
        if stop 1 then Err MetadataCancelled
        else and_then (read_bytes cs f (dir_offset d) (dir_size d)) (\<lambda>bs.
          and_then (select_entry stop limits (dir_count d) bs 2) (\<lambda>(e0, k).
          and_then (check_entry limits e0) (\<lambda>_.
          and_then (validate_local cs f e0 (dir_offset d)) (\<lambda>(data_start, e).
          and_then (ok_or INVALID (checked64 (data_start + compressed e))) (\<lambda>data_end.
            if dir_offset d < data_end then Err INVALID
            else and_then (if flags e AND 8 \<noteq> 0 then validate_descriptor cs f data_end (dir_offset d) e else Ok ()) (\<lambda>_.
              if read_fails f data_start 0 then Err INVALID
              else if \<not> alloc_bytes cs (uncompressed e) then Err LIMIT
              else and_then (read_entry stop cs (slice data_start (compressed e) (content f)) e k) (\<lambda>(out, k).
                if length out \<noteq> uncompressed e \<or> crc32 cs out \<noteq> entry_crc e then Err INVALID
                else if stop k then Err MetadataCancelled
                else Ok out)))))))))"

text \<open>
  \<open>extract\<close> of the source (here \<open>extract_payload\<close>) wraps this in the file system: the metadata of the opened file before and after the
  read must agree with each other and with the identity. \<open>file_view\<close> is what \<open>File::metadata\<close> shows.
\<close>

record file_view =
  is_regular :: bool
  view_size :: nat
  view_modified :: "system_time option"

record opened_file =
  before_read :: "file_view option"
  file_data :: seekable
  after_read :: "file_view option"

definition extract_payload ::
  "(nat \<Rightarrow> bool) \<Rightarrow> codecs \<Rightarrow> archive_limits \<Rightarrow> (path \<Rightarrow> opened_file option) \<Rightarrow> log_file_identity \<Rightarrow>
     bytes zip_result"
where
  "extract_payload stop cs limits open_file ident =
     (if stop 0 then Err MetadataCancelled
      else case open_file (canonical_path ident) of
        None \<Rightarrow> Err FileUnavailable
      | Some f \<Rightarrow>
          (case before_read f of
             None \<Rightarrow> Err FileUnavailable
           | Some before \<Rightarrow>
               if \<not> is_regular before \<or> view_size before \<noteq> unat (file_size ident) then Err FileUnavailable
               else and_then (extract_from (\<lambda>k. stop (k + 1)) cs limits (file_data f) (unat (file_size ident))) (\<lambda>out.
                 case after_read f of
                   None \<Rightarrow> Err FileUnavailable
                 | Some after \<Rightarrow>
                     if view_size after \<noteq> view_size before \<or> view_modified after \<noteq> view_modified before
                     then Err FileUnavailable else Ok out)))"

definition parse_archive ::
  "(nat \<Rightarrow> bool) \<Rightarrow> (nat \<Rightarrow> bool) \<Rightarrow> codecs \<Rightarrow> archive_limits \<Rightarrow> (path \<Rightarrow> opened_file option) \<Rightarrow>
     log_file_identity \<Rightarrow> (metadata_error, encounter_metadata) result"
where
  "parse_archive stop stop_decode cs limits open_file ident =
     and_then (extract_payload stop cs limits open_file ident) (\<lambda>payload.
       decode stop_decode (alloc_bytes cs) payload)"

section \<open>Reading back an archive that was written\<close>

text \<open>
  A writer for the plainest archive: one entry, stored or deflated, no descriptor, no ZIP64. \<open>raw\<close> is
  what the archive holds, \<open>n\<close> the size of the content it stands for.
\<close>

record written_entry =
  w_name :: bytes
  w_method :: u16
  w_crc :: u32
  w_raw :: bytes
  w_size :: nat

definition local_part :: "written_entry \<Rightarrow> bytes" where
  "local_part w = local_magic @ le_bytes 2 20 @ le_bytes 2 0 @ le_bytes 2 (unat (w_method w)) @ le_bytes 4 0 @
     le_bytes 4 (unat (w_crc w)) @ le_bytes 4 (length (w_raw w)) @ le_bytes 4 (w_size w) @
     le_bytes 2 (length (w_name w)) @ le_bytes 2 0 @ w_name w @ w_raw w"

definition central_part :: "written_entry \<Rightarrow> bytes" where
  "central_part w = central_magic @ le_bytes 2 20 @ le_bytes 2 20 @ le_bytes 2 0 @ le_bytes 2 (unat (w_method w)) @
     le_bytes 4 0 @ le_bytes 4 (unat (w_crc w)) @ le_bytes 4 (length (w_raw w)) @ le_bytes 4 (w_size w) @
     le_bytes 2 (length (w_name w)) @ le_bytes 2 0 @ le_bytes 2 0 @ le_bytes 2 0 @ le_bytes 2 0 @
     le_bytes 4 0 @ le_bytes 4 0 @ w_name w"

definition end_part :: "nat \<Rightarrow> nat \<Rightarrow> bytes" where
  "end_part central_size central_offset = eocd_magic @ le_bytes 2 0 @ le_bytes 2 0 @ le_bytes 2 1 @ le_bytes 2 1 @
     le_bytes 4 central_size @ le_bytes 4 central_offset @ le_bytes 2 0"

definition write_archive :: "written_entry \<Rightarrow> bytes" where
  "write_archive w = local_part w @ central_part w @ end_part (length (central_part w)) (length (local_part w))"

lemma length_parts [simp]:
  "length (local_part w) = 30 + length (w_name w) + length (w_raw w)"
  "length (central_part w) = 46 + length (w_name w)"
  "length (end_part a b) = 22"
  by (simp_all add: local_part_def central_part_def end_part_def)

lemma le_word_le_bytes [simp]:
  "n < 65536 \<Longrightarrow> le_word (le_bytes 2 n) = of_nat n"
  "n < 4294967296 \<Longrightarrow> le_word (le_bytes 4 n) = of_nat n"
  by (simp_all add: le_word_def)

lemmas field_simps = get_u16_def get_u32_def get_u64_def get_range_def slice_def

lemma local_fields:
  assumes "length (w_name w) < 65536" and "length (w_raw w) < 4294967295" and "w_size w < 4294967295"
  defines "h \<equiv> take 30 (local_part w)"
  shows "take 4 h = local_magic" "get_u16 h 6 = Ok 0" "get_u16 h 8 = Ok (w_method w)"
    "get_u32 h 14 = Ok (w_crc w)" "get_u32 h 18 = Ok (of_nat (length (w_raw w)))"
    "get_u32 h 22 = Ok (of_nat (w_size w))" "get_u16 h 26 = Ok (of_nat (length (w_name w)))"
    "get_u16 h 28 = Ok 0"
  using assms(1-3) by (simp_all add: h_def local_part_def field_simps)

lemma central_fields:
  assumes "length (w_name w) < 65536" and "length (w_raw w) < 4294967295" and "w_size w < 4294967295"
  defines "h \<equiv> central_part w"
  shows "get_range h 0 4 = Ok central_magic" "get_u16 h 8 = Ok 0" "get_u16 h 10 = Ok (w_method w)"
    "get_u32 h 16 = Ok (w_crc w)" "get_u32 h 20 = Ok (of_nat (length (w_raw w)))"
    "get_u32 h 24 = Ok (of_nat (w_size w))" "get_u16 h 28 = Ok (of_nat (length (w_name w)))"
    "get_u16 h 30 = Ok 0" "get_u16 h 32 = Ok 0" "get_u16 h 34 = Ok 0" "get_u32 h 38 = Ok 0"
    "get_u32 h 42 = Ok 0" "get_range h 46 (length (w_name w)) = Ok (w_name w)"
  using assms(1-3) by (simp_all add: h_def central_part_def field_simps)

lemma end_fields:
  assumes "a < 4294967296" and "b < 4294967296"
  shows "get_u16 (end_part a b) 4 = Ok 0" "get_u16 (end_part a b) 6 = Ok 0" "get_u16 (end_part a b) 8 = Ok 1"
    "get_u16 (end_part a b) 10 = Ok 1" "get_u32 (end_part a b) 12 = Ok (of_nat a)"
    "get_u32 (end_part a b) 16 = Ok (of_nat b)" "get_u16 (end_part a b) 20 = Ok 0"
    "take 4 (end_part a b) = eocd_magic"
  using assms by (simp_all add: end_part_def field_simps)

text \<open>What an archive must satisfy so that the reader, with these limits, has to accept it.\<close>

definition inner_entry :: "written_entry \<Rightarrow> zip_entry" where
  "inner_entry w = \<lparr>entry_name = w_name w, flags = 0, compression = w_method w, entry_crc = w_crc w,
     compressed = length (w_raw w), uncompressed = w_size w, entry_offset = 0, zip64_sizes = False\<rparr>"

definition names_log :: "bytes \<Rightarrow> bool" where
  "names_log name \<longleftrightarrow> name \<noteq> [] \<and> last name \<noteq> 47 \<and>
     (is_evtc_name name \<or> (leaf_of name \<noteq> [] \<and> 46 \<notin> set (leaf_of name)))"

text \<open>
  The reader looks for the ZIP64 locator twenty bytes before the end record, where the name of the last
  entry of the directory may stand: a name with the locator's signature there is taken for one.
\<close>

definition locator_in_name :: "bytes \<Rightarrow> bool" where
  "locator_in_name name \<longleftrightarrow> 20 \<le> length name \<and> slice (length name - 20) 4 name = locator_magic"

definition acceptable :: "archive_limits \<Rightarrow> written_entry \<Rightarrow> bool" where
  "acceptable limits w \<longleftrightarrow> names_log (w_name w) \<and> \<not> locator_in_name (w_name w) \<and>
     length (w_name w) \<le> filename_bytes limits \<and> length (w_name w) < 65536 \<and>
     46 + filename_bytes limits + 2 * 65535 < 2 ^ 64 \<and> 1 \<le> entries limits \<and>
     length (write_archive w) \<le> archive_bytes limits \<and> length (write_archive w) < 4294967295 \<and>
     w_size w \<noteq> 0 \<and> w_size w < 4294967295 \<and> w_size w \<le> uncompressed_bytes limits \<and>
     w_size w \<le> length (w_raw w) * compression_ratio limits"

lemma acceptable_fields:
  assumes "acceptable limits w"
  shows "length (w_name w) < 65536" "length (w_raw w) < 4294967295" "w_size w < 4294967295"
  using assms by (auto simp: acceptable_def write_archive_def)

lemma of_nat_not_max [simp]: "n < 4294967295 \<Longrightarrow> (of_nat n :: u32) \<noteq> - 1"
proof
  assume "n < 4294967295" and "(of_nat n :: u32) = - 1"
  then have "unat (of_nat n :: u32) = 4294967295"
    by (simp add: unsigned_minus_1_eq_mask mask_eq_exp_minus_1)
  with \<open>n < 4294967295\<close> show False by (simp add: unat_of_nat)
qed

lemma unat_of_nat_small [simp]:
  "n < 65536 \<Longrightarrow> unat (of_nat n :: u16) = n"
  "n < 4294967295 \<Longrightarrow> unat (of_nat n :: u32) = n"
  by (simp_all add: unat_of_nat)

lemma read_central_written:
  assumes "acceptable limits w"
  shows "read_central limits (central_part w) =
     Ok \<lparr>header_entry = inner_entry w, is_directory = False, following = []\<rparr>"
proof -
  note f = acceptable_fields [OF assms]
  have n: "\<not> filename_bytes limits < length (w_name w)" "w_name w \<noteq> []" "last (w_name w) \<noteq> 47"
    using assms by (auto simp: acceptable_def names_log_def)
  have e: "get_range (central_part w) (46 + length (w_name w)) 0 = Ok []"
    by (simp add: get_range_def slice_def)
  have z: "zip64_extra [] None = Ok None" by (simp add: zip64_extra.simps)
  show ?thesis
    using n f by (simp add: read_central_def central_fields [OF f] e z extended_def inner_entry_def)
qed

lemma select_entry_written:
  assumes "acceptable limits w" and "\<not> stop k"
  shows "select_entry stop limits 1 (central_part w) k = Ok (inner_entry w, k + 1)"
proof -
  have n: "is_evtc_name (w_name w) \<or> (leaf_of (w_name w) \<noteq> [] \<and> 46 \<notin> set (leaf_of (w_name w)))"
    using assms(1) by (auto simp: acceptable_def names_log_def)
  have "entry_name (inner_entry w) = w_name w" by (simp add: inner_entry_def)
  then show ?thesis
    using n assms(2) by (auto simp: select_entry_def read_central_written [OF assms(1)] Let_def)
qed

lemma get_u16_after: "get_u16 (xs @ ys) (length xs + n) = get_u16 ys n"
  by (simp add: get_u16_def get_range_def slice_def)

lemma find_eocd_written:
  assumes "a < 4294967296" and "b < 4294967296"
  shows "find_eocd (xs @ end_part a b) = Some (length xs)"
proof -
  have "is_eocd (xs @ end_part a b) (length xs)"
    by (simp add: is_eocd_def get_u16_after end_fields [OF assms] slice_def)
  moreover have "rev [0..<length (xs @ end_part a b) - 22 + 1] = length xs # rev [0..<length xs]" by simp
  ultimately show ?thesis by (simp add: find_eocd_def)
qed

lemma read_at_inside:
  assumes "\<And>a b. \<not> read_fails f a b" and "content f = xs @ ys @ zs" and "length xs = offset" and "length ys = n"
  shows "read_at f offset n = Ok ys"
  using assms by (auto simp: read_at_def slice_def)

lemma le_bytes_zero: "le_bytes k 0 = replicate k 0"
  by (induction k) auto

lemma locator_absent:
  assumes "acceptable limits w"
  shows "take 4 (drop (26 + length (w_name w)) (central_part w)) \<noteq> locator_magic"
proof
  assume m: "take 4 (drop (26 + length (w_name w)) (central_part w)) = locator_magic"
  let ?n = "length (w_name w)"
  have none: "\<not> locator_in_name (w_name w)" and n: "w_name w \<noteq> []" "?n < 65536"
    using assms by (auto simp: acceptable_def names_log_def)
  define zs :: bytes where
    "zs = le_bytes 2 0 @ le_bytes 2 0 @ le_bytes 2 0 @ le_bytes 2 0 @ le_bytes 4 0 @ le_bytes 4 0"
  have zs: "zs = replicate 16 0" by (simp add: zs_def le_bytes_zero flip: replicate_add)
  obtain ys where ys: "central_part w = ys @ zs @ w_name w" and l: "length ys = 30"
    by (rule that [of "take 30 (central_part w)"]) (simp_all add: central_part_def zs_def del: replicate.simps)
  have first: "central_part w ! (26 + ?n) = 80" and third: "central_part w ! (28 + ?n) = 6"
    using arg_cong [OF m, of "\<lambda>bs. bs ! 0"] arg_cong [OF m, of "\<lambda>bs. bs ! 2"] by (simp_all add: nth_drop)
  show False
  proof (cases "20 \<le> ?n")
    case True
    have "drop (26 + ?n) (central_part w) = drop (?n - 20) (w_name w)"
      using True by (simp add: ys l zs)
    with m none True show False by (simp add: locator_in_name_def slice_def)
  next
    case short: False
    show False
    proof (cases "4 \<le> ?n")
      case True
      then have "central_part w ! (26 + ?n) = (zs @ w_name w) ! (?n - 4)" by (simp add: ys nth_append l)
      also have "\<dots> = 0"
      proof -
        have "?n - 4 < 16" using True short by linarith
        then show ?thesis by (simp add: nth_append zs)
      qed
      finally show False using first by simp
    next
      case False
      show False
      proof (cases "2 \<le> ?n")
        case True
        then have "central_part w ! (28 + ?n) = (zs @ w_name w) ! (?n - 2)" by (simp add: ys nth_append l)
        also have "\<dots> = 0"
        proof -
          have "?n - 2 < 16" using \<open>\<not> 4 \<le> ?n\<close> by linarith
          then show ?thesis by (simp add: nth_append zs)
        qed
        finally show False using third by simp
      next
        case False
        moreover have "?n \<noteq> 0" using n(1) by simp
        ultimately have "?n = 1" by linarith
        then have "central_part w ! 29 = 6" using third by simp
        moreover have "le_bytes 2 1 = [1, 0]" by code_simp
        ultimately show False using \<open>?n = 1\<close> by (simp add: central_part_def nth_append)
      qed
    qed
  qed
qed

lemma directory_written:
  assumes ok: "acceptable limits w" and cont: "content f = write_archive w"
    and reads: "\<And>a b. \<not> read_fails f a b" and alloc: "\<And>n. alloc_bytes cs n"
  shows "directory cs f (length (content f)) limits =
     Ok \<lparr>dir_offset = length (local_part w), dir_size = length (central_part w), dir_count = 1\<rparr>"
proof -
  let ?c = "length (central_part w)" and ?l = "length (local_part w)"
  let ?len = "length (content f)" and ?e = "end_part ?c ?l"
  define ts where "ts = min ?len (22 + 65535)"
  have small: "?c < 4294967295" "?l < 4294967295" "?len = ?l + ?c + 22" "?l + ?c < 18446744073709551616"
    using ok by (auto simp: acceptable_def write_archive_def cont)
  then have e: "?c < 4294967296" "?l < 4294967296" by auto
  define xs where "xs = drop (?len - ts) (local_part w @ central_part w)"
  have ts: "22 \<le> ts" "ts \<le> ?len" using small by (auto simp: ts_def)
  have lx: "?len - ts + length xs = ?l + ?c" using ts small by (simp add: xs_def)
  have tail: "slice (?len - ts) ts (content f) = xs @ ?e"
    using ts small by (simp add: slice_def cont write_archive_def xs_def)
  have r1: "read_bytes cs f (?len - ts) ts = Ok (xs @ ?e)"
    using ts by (simp add: read_bytes_def read_at_def alloc reads tail)
  let ?loc = "drop (26 + length (w_name w)) (central_part w)"
  have r2: "read_at f (?l + ?c - 20) 20 = Ok ?loc"
  proof (rule read_at_inside [OF reads])
    show "content f = (local_part w @ take (26 + length (w_name w)) (central_part w)) @ ?loc @ ?e"
      by (simp add: cont write_archive_def)
  qed simp_all
  have eo: "20 \<le> ?l + ?c" by simp
  have lim: "\<not> entries limits < 1" "46 + filename_bytes limits + 2 * 65535 < 2 ^ 64" "length (w_name w) \<le> filename_bytes limits"
    using ok by (auto simp: acceptable_def)
  have chk: "check_directory limits \<lparr>dir_offset = ?l, dir_size = ?c, dir_count = 1\<rparr> (?l + ?c) =
     Ok \<lparr>dir_offset = ?l, dir_size = ?c, dir_count = 1\<rparr>"
    using lim small(4) by (simp add: check_directory_def checked64_def ok_or_def)
  have n22: "\<not> ?len < 22" using small by simp
  note fs = end_fields [OF e]
  have gt: "drop (length xs) (xs @ ?e) = ?e" by simp
  have tm: "min ?len (22 + 65535) = ts" by (simp add: ts_def)
  have nreq: "(of_nat ?l :: u32) \<noteq> - 1" "(of_nat ?c :: u32) \<noteq> - 1" "(1 :: u16) \<noteq> - 1"
    using of_nat_not_max [OF small(1)] of_nat_not_max [OF small(2)] by simp_all
  have un: "unat (of_nat ?l :: u32) = ?l" "unat (of_nat ?c :: u32) = ?c" "unat (1 :: u16) = 1"
    using small(1,2) by (simp_all only: unat_of_nat_small) simp
  show ?thesis
    unfolding directory_def Let_def tm
    by (simp only: n22 if_False r1 and_then.simps find_eocd_written [OF e] ok_or_def option.case gt fs lx
        nreq un simp_thms r2 eo if_True locator_absent [OF ok] chk prod.case)
qed

text \<open>The pieces in which a byte sequence is delivered: no piece is empty, together they are the sequence.\<close>

definition pieces_of :: "bytes list \<Rightarrow> bytes \<Rightarrow> bool" where
  "pieces_of ps bs \<longleftrightarrow> [] \<notin> set ps \<and> concat ps = bs"

lemma read_payload_pieces:
  assumes "[] \<notin> set ps" and "length out + length (concat ps) \<le> expected" and "\<And>j. \<not> stop j"
  shows "read_payload stop ps False expected out k = Ok (out @ concat ps, k + length ps + 1)"
  using assms(1,2)
proof (induction ps arbitrary: out k)
  case Nil
  show ?case by (simp add: assms(3))
next
  case (Cons p ps)
  then have "p \<noteq> []" by auto
  with Cons show ?case by (simp add: assms(3) add.assoc)
qed

lemma validate_local_written:
  assumes ok: "acceptable limits w" and cont: "content f = write_archive w"
    and reads: "\<And>a b. \<not> read_fails f a b" and alloc: "\<And>n. alloc_bytes cs n"
  shows "validate_local cs f (inner_entry w) (length (local_part w)) = Ok (30 + length (w_name w), inner_entry w)"
proof -
  note lf = local_fields [OF acceptable_fields [OF ok]]
  have small: "length (w_name w) < 65536" "30 + length (w_name w) < 18446744073709551616"
    using ok by (auto simp: acceptable_def write_archive_def)
  let ?h = "take 30 (local_part w)"
  have r1: "read_at f 0 30 = Ok ?h"
    by (rule read_at_inside [OF reads, where xs = "[]" and zs = "drop 30 (local_part w) @ central_part w @
          end_part (length (central_part w)) (length (local_part w))"])
       (simp_all add: cont write_archive_def)
  have r2: "read_at f 30 (length (w_name w)) = Ok (w_name w)"
    by (rule read_at_inside [OF reads, where xs = ?h and zs = "w_raw w @ central_part w @
          end_part (length (central_part w)) (length (local_part w))"])
       (simp_all add: cont write_archive_def local_part_def)
  have nm: "(of_nat (length (w_raw w)) :: u32) \<noteq> - 1" "(of_nat (w_size w) :: u32) \<noteq> - 1"
    using acceptable_fields [OF ok] by (simp_all add: of_nat_not_max)
  have z: "zip64_extra [] None = Ok None" by (simp add: zip64_extra.simps)
  have m: "take 4 (local_part w) = local_magic" using lf(1) by simp
  show ?thesis
    using small acceptable_fields [OF ok] nm m
    by (simp add: validate_local_def inner_entry_def r1 r2 lf checked64_def ok_or_def read_bytes_def alloc z extended_def)
qed

definition reliable :: "codecs \<Rightarrow> seekable \<Rightarrow> bool" where
  "reliable cs f \<longleftrightarrow> (\<forall>a b. \<not> read_fails f a b) \<and> \<not> end_fails f \<and> (\<forall>n. alloc_bytes cs n)"

text \<open>The entry holds \<open>payload\<close>: stored as it is, or as a Deflate stream that the decoder expands to it.\<close>

definition stands_for :: "codecs \<Rightarrow> written_entry \<Rightarrow> bytes \<Rightarrow> bool" where
  "stands_for cs w payload \<longleftrightarrow> w_size w = length payload \<and> w_crc w = crc32 cs payload \<and>
     (if w_method w = 0
      then w_raw w = payload \<and> (case deliver cs payload of (ps, fails) \<Rightarrow> pieces_of ps payload \<and> \<not> fails)
      else w_method w = 8 \<and> (case inflate cs (w_raw w) of (ps, fails, n) \<Rightarrow>
        pieces_of ps payload \<and> \<not> fails \<and> n = length (w_raw w)))"

lemma read_entry_written:
  assumes "stands_for cs w payload" and "\<And>j. \<not> stop j"
  shows "\<exists>k'. read_entry stop cs (w_raw w) (inner_entry w) k = Ok (payload, k')"
proof -
  have r: "read_payload stop ps False (length payload) [] k = Ok (payload, k + length ps + 1)"
    if "pieces_of ps payload" for ps
    using read_payload_pieces [of ps "[]" "length payload" stop k] that assms(2) by (auto simp: pieces_of_def)
  show ?thesis
  proof (cases "w_method w = 0")
    case True
    with assms(1) obtain ps where "deliver cs payload = (ps, False)" "pieces_of ps payload" "w_raw w = payload"
      and "w_size w = length payload" by (auto simp: stands_for_def)
    then show ?thesis using True r by (simp add: read_entry_def inner_entry_def)
  next
    case False
    with assms(1) obtain ps where "inflate cs (w_raw w) = (ps, False, length (w_raw w))" "pieces_of ps payload"
      "w_method w = 8" and "w_size w = length payload" by (auto simp: stands_for_def)
    then show ?thesis using r by (simp add: read_entry_def inner_entry_def)
  qed
qed

lemma extract_written:
  assumes ok: "acceptable limits w" and cont: "content f = write_archive w" and rel: "reliable cs f"
    and st: "stands_for cs w payload" and never: "\<And>k. \<not> stop k"
  shows "extract_from stop cs limits f (length (content f)) = Ok payload"
proof -
  have reads: "\<And>a b. \<not> read_fails f a b" and alloc: "\<And>n. alloc_bytes cs n" and ends: "\<not> end_fails f"
    using rel by (auto simp: reliable_def)
  let ?c = "length (central_part w)" and ?l = "length (local_part w)"
  have dir: "directory cs f (length (content f)) limits = Ok \<lparr>dir_offset = ?l, dir_size = ?c, dir_count = 1\<rparr>"
    by (rule directory_written [OF ok cont reads alloc])
  have rb: "read_bytes cs f ?l ?c = Ok (central_part w)"
    unfolding read_bytes_def using alloc
    by (simp del: length_parts) (rule read_at_inside [OF reads, where xs = "local_part w"], simp_all add: cont write_archive_def)
  have sel: "select_entry stop limits 1 (central_part w) 2 = Ok (inner_entry w, 3)"
    using select_entry_written [where k = 2, OF ok never] by simp
  have chk: "check_entry limits (inner_entry w) = Ok ()"
    using ok st by (auto simp: check_entry_def inner_entry_def acceptable_def stands_for_def split: if_splits)
  have loc: "validate_local cs f (inner_entry w) ?l = Ok (30 + length (w_name w), inner_entry w)"
    by (rule validate_local_written [OF ok cont reads alloc])
  have raw: "slice (30 + length (w_name w)) (length (w_raw w)) (content f) = w_raw w"
  proof -
    obtain h where "local_part w = h @ w_name w @ w_raw w" and "length h = 30"
      by (rule that [of "take 30 (local_part w)"]) (simp_all add: local_part_def)
    then show ?thesis by (simp add: cont write_archive_def slice_def)
  qed
  obtain k where re: "read_entry stop cs (w_raw w) (inner_entry w) 3 = Ok (payload, k)"
    using read_entry_written [where stop = stop and k = 3, OF st never] by blast
  have sz: "30 + length (w_name w) + length (w_raw w) < 2 ^ 64" "length (content f) \<le> archive_bytes limits"
    using ok by (auto simp: acceptable_def write_archive_def cont)
  have e: "flags (inner_entry w) = 0" "compressed (inner_entry w) = length (w_raw w)"
    "uncompressed (inner_entry w) = length payload" "entry_crc (inner_entry w) = crc32 cs payload"
    using st by (auto simp: inner_entry_def stands_for_def)
  note steps = dir rb sel loc
  show ?thesis
    using sz by (simp add: extract_from_def never ends steps [simplified] chk e checked64_def ok_or_def
        alloc raw re reads)
qed

section \<open>The selected entry\<close>

text \<open>
  The reference for \<open>select_entry\<close>: read all the headers first, then look for the one log among the
  files, or for the only file when its name has no extension.
\<close>

fun headers :: "archive_limits \<Rightarrow> nat \<Rightarrow> bytes \<Rightarrow> (central_header list \<times> bytes) zip_result" where
  "headers limits 0 bs = Ok ([], bs)"
| "headers limits (Suc n) bs =
     and_then (read_central limits bs) (\<lambda>h.
     and_then (headers limits n (following h)) (\<lambda>(hs, rest). Ok (h # hs, rest)))"

definition file_entries :: "central_header list \<Rightarrow> zip_entry list" where
  "file_entries hs = map header_entry (filter (\<lambda>h. \<not> is_directory h) hs)"

definition log_entries :: "central_header list \<Rightarrow> zip_entry list" where
  "log_entries hs = filter (\<lambda>e. is_evtc_name (entry_name e)) (file_entries hs)"

definition extensionless :: "zip_entry \<Rightarrow> bool" where
  "extensionless e \<longleftrightarrow> leaf_of (entry_name e) \<noteq> [] \<and> 46 \<notin> set (leaf_of (entry_name e))"

definition plain_entries :: "central_header list \<Rightarrow> zip_entry list" where
  "plain_entries hs = filter (\<lambda>e. \<not> is_evtc_name (entry_name e) \<and> extensionless e) (file_entries hs)"

fun olist :: "'a option \<Rightarrow> 'a list" where
  "olist None = []"
| "olist (Some x) = [x]"

lemma olist_Nil [simp]: "olist x = [] \<longleftrightarrow> x = None"
  by (cases x) auto

lemma olist_single [simp]: "olist x = [y] \<longleftrightarrow> x = Some y"
  by (cases x) auto

lemmas entries_defs = file_entries_def log_entries_def plain_entries_def extensionless_def

lemma entries_Nil [simp]: "file_entries [] = []" "log_entries [] = []" "plain_entries [] = []"
  by (simp_all add: entries_defs)

lemma entries_Cons:
  "file_entries (h # hs) = (if is_directory h then file_entries hs else header_entry h # file_entries hs)"
  "log_entries (h # hs) =
     (if \<not> is_directory h \<and> is_evtc_name (entry_name (header_entry h))
      then header_entry h # log_entries hs else log_entries hs)"
  "plain_entries (h # hs) =
     (if \<not> is_directory h \<and> \<not> is_evtc_name (entry_name (header_entry h)) \<and> extensionless (header_entry h)
      then header_entry h # plain_entries hs else plain_entries hs)"
  by (simp_all add: log_entries_def plain_entries_def file_entries_def)

lemma olist_not_two [simp]: "olist x \<noteq> y # z # zs"
  by (cases x) auto

lemma headers_Suc:
  "read_central limits bs = Ok h \<Longrightarrow>
     (\<exists>hs. headers limits (Suc n) bs = Ok (hs, rest) \<and> P hs) \<longleftrightarrow>
     (\<exists>hs. headers limits n (following h) = Ok (hs, rest) \<and> P (h # hs))"
  by auto

lemma select_loop_iff:
  "select_loop never limits n bs s fb files k = Ok (s', fb', files', rest, k') \<longleftrightarrow>
     (\<exists>hs. headers limits n bs = Ok (hs, rest) \<and> k' = k + n \<and> files' = files + length (file_entries hs) \<and>
        olist s' = olist s @ log_entries hs \<and>
        fb' = (if plain_entries hs = [] then fb else Some (last (plain_entries hs))))"
proof (induction n arbitrary: bs s fb files k)
  case 0
  have "olist s = olist s' \<longleftrightarrow> s = s'" by (cases s; cases s') auto
  then show ?case by auto
next
  case (Suc n)
  show ?case
  proof (cases "read_central limits bs")
    case (Inr h)
    let ?e = "header_entry h"
    note step = headers_Suc [OF Inr] entries_Cons
    consider (dir) "is_directory h" | (again) "\<not> is_directory h" "is_evtc_name (entry_name ?e)" "s \<noteq> None"
      | (log) "\<not> is_directory h" "is_evtc_name (entry_name ?e)" "s = None"
      | (plain) "\<not> is_directory h" "\<not> is_evtc_name (entry_name ?e)" "extensionless ?e"
      | (other) "\<not> is_directory h" "\<not> is_evtc_name (entry_name ?e)" "\<not> extensionless ?e"
      by blast
    then show ?thesis
    proof cases
      case dir
      then show ?thesis unfolding step by (simp add: Inr Suc.IH)
    next
      case again
      then obtain x where "s = Some x" by blast
      with again show ?thesis unfolding step by (simp add: Inr)
    next
      case log
      then show ?thesis unfolding step by (simp add: Inr Suc.IH)
    next
      case plain
      then have "leaf_of (entry_name ?e) \<noteq> [] \<and> 46 \<notin> set (leaf_of (entry_name ?e))" by (simp add: extensionless_def)
      with plain show ?thesis unfolding step by (simp add: Inr Suc.IH if_distrib)
    next
      case other
      then have "leaf_of (entry_name ?e) = [] \<or> 46 \<in> set (leaf_of (entry_name ?e))" by (simp add: extensionless_def)
      with other show ?thesis unfolding step by (elim disjE) (simp_all add: Inr Suc.IH Let_def)
    qed
  qed simp
qed

lemma select_entry_loop:
  "select_entry never limits count bs k = Ok (e, k') \<longleftrightarrow>
     (\<exists>s fb n. select_loop never limits count bs None None 0 k = Ok (s, fb, n, [], k') \<and>
        (s = Some e \<or> (s = None \<and> n = 1 \<and> fb = Some e)))"
  by (cases "select_loop never limits count bs None None 0 k")
     (auto simp: select_entry_def split: option.splits if_splits)

lemma only_plain_file:
  "length (file_entries hs) = 1 \<and> log_entries hs = [] \<and> plain_entries hs \<noteq> [] \<and> last (plain_entries hs) = e \<longleftrightarrow>
     log_entries hs = [] \<and> file_entries hs = [e] \<and> extensionless e"
proof (cases "file_entries hs")
  case (Cons a as)
  then show ?thesis by (cases as) (auto simp: log_entries_def plain_entries_def)
qed (simp add: log_entries_def plain_entries_def)

lemma selected_entry:
  "select_entry never limits count bs k = Ok (e, k') \<longleftrightarrow>
     k' = k + count \<and> (\<exists>hs. headers limits count bs = Ok (hs, []) \<and>
       (log_entries hs = [e] \<or> (log_entries hs = [] \<and> file_entries hs = [e] \<and> extensionless e)))"
  (is "?l \<longleftrightarrow> ?r")
proof
  assume ?l
  then obtain hs where "headers limits count bs = Ok (hs, [])" "k' = k + count"
    and "log_entries hs = [e] \<or>
      (length (file_entries hs) = 1 \<and> log_entries hs = [] \<and> plain_entries hs \<noteq> [] \<and> last (plain_entries hs) = e)"
    unfolding select_entry_loop select_loop_iff by (auto split: if_splits)
  then show ?r unfolding only_plain_file by blast
next
  assume ?r
  then obtain hs where hs: "headers limits count bs = Ok (hs, [])" "k' = k + count"
    and "log_entries hs = [e] \<or>
      (length (file_entries hs) = 1 \<and> log_entries hs = [] \<and> plain_entries hs \<noteq> [] \<and> last (plain_entries hs) = e)"
    unfolding only_plain_file by blast
  from this(3) show ?l
  proof
    assume "log_entries hs = [e]"
    then show ?l unfolding select_entry_loop select_loop_iff using hs
      by (intro exI [of _ "Some e"] exI conjI exI [of _ hs]) auto
  next
    assume p: "length (file_entries hs) = 1 \<and> log_entries hs = [] \<and> plain_entries hs \<noteq> [] \<and> last (plain_entries hs) = e"
    then show ?l unfolding select_entry_loop select_loop_iff using hs
      by (intro exI [of _ None] exI [of _ "Some e"] exI [of _ 1] conjI exI [of _ hs]) auto
  qed
qed

section \<open>What an accepted archive guarantees\<close>

lemma checked64_eq: "checked64 n = Some m \<longleftrightarrow> m = n \<and> n < 2 ^ 64"
  by (auto simp: checked64_def)

lemma zip64_directory_end:
  "zip64_directory f end_offset short l = Ok (d, directory_end) \<Longrightarrow> directory_end \<le> end_offset"
  by (auto simp: zip64_directory_def Let_def checked64_eq bind_eq_Some_conv split: if_splits)

lemma find_eocd_bound:
  assumes "find_eocd tail = Some i" and "22 \<le> length tail"
  shows "i + 22 \<le> length tail"
proof -
  from assms(1) have "i \<in> set (rev [0..<length tail - 22 + 1])"
    unfolding find_eocd_def by (rule find_member [THEN conjunct1])
  with assms(2) show ?thesis by auto
qed

lemma check_directory_Ok:
  assumes "check_directory limits d directory_end = Ok d'"
  shows "d' = d" "dir_count d \<le> entries limits" "dir_offset d + dir_size d = directory_end"
    "dir_size d \<le> dir_count d * (46 + filename_bytes limits + 131070)"
  using assms by (auto simp: check_directory_def checked64_eq bind_eq_Some_conv split: if_splits)

lemma read_at_length: "read_at f a n = Ok bs \<Longrightarrow> length bs = n"
  by (cases "n = 0") (auto simp: read_at_def slice_def split: if_splits)

lemma and_then_pairE:
  "and_then r (\<lambda>(a, b). f a b) = Ok y \<Longrightarrow> (\<And>a b. r = Ok (a, b) \<Longrightarrow> f a b = Ok y \<Longrightarrow> P) \<Longrightarrow> P"
  by (cases r) auto

lemma directory_steps:
  assumes "directory cs f len limits = Ok d"
  defines "ts \<equiv> min len (22 + 65535)"
  obtains tail i d0 de short loc req where "22 \<le> len" and "read_bytes cs f (len - ts) ts = Ok tail"
    and "find_eocd tail = Some i" and "check_directory limits d0 de = Ok d"
    and "(case loc of
            Some l \<Rightarrow>
              if take 4 l = locator_magic then zip64_directory f (len - ts + i) short l
              else if req then Err INVALID else Ok (short, len - ts + i)
          | None \<Rightarrow> if req then Err INVALID else Ok (short, len - ts + i)) = Ok (d0, de)"
  using assms(1) unfolding directory_def Let_def ts_def
  by (elim and_then_pairE step_elims) (rule that [unfolded ts_def], linarith, assumption, simp only: ok_or_Ok_iff, assumption+)

lemma directory_Ok:
  assumes "directory cs f len limits = Ok d"
  shows "dir_count d \<le> entries limits \<and> dir_offset d + dir_size d + 22 \<le> len \<and>
     dir_size d \<le> dir_count d * (46 + filename_bytes limits + 131070)"
proof -
  define ts where "ts = min len (22 + 65535)"
  from assms obtain tail i d0 de short loc req where len: "22 \<le> len"
    and tail: "read_bytes cs f (len - ts) ts = Ok tail"
    and i: "find_eocd tail = Some i" and chk: "check_directory limits d0 de = Ok d"
    and c: "(case loc of
            Some l \<Rightarrow>
              if take 4 l = locator_magic then zip64_directory f (len - ts + i) short l
              else if req then Err INVALID else Ok (short, len - ts + i)
          | None \<Rightarrow> if req then Err INVALID else Ok (short, len - ts + i)) = Ok (d0, de)"
    unfolding ts_def by (rule directory_steps)
  have de: "de = len - ts + i \<or> (\<exists>l. zip64_directory f (len - ts + i) short l = Ok (d0, de))"
    using c by (cases loc) (auto split: if_splits)
  have lt: "length tail = ts" using tail by (auto simp: read_bytes_def dest: read_at_length split: if_splits)
  have "i + 22 \<le> ts" using find_eocd_bound [OF i] len lt by (simp add: ts_def)
  moreover have "de \<le> len - ts + i" using de zip64_directory_end by auto
  moreover have "ts \<le> len" by (simp add: ts_def)
  ultimately have "de + 22 \<le> len" by simp
  with check_directory_Ok [OF chk] show ?thesis by simp
qed

lemma validate_local_Ok:
  assumes "validate_local cs f e bound = Ok (start, e')"
  shows "\<exists>z. e' = e\<lparr>zip64_sizes := z\<rparr>" and "start \<le> bound" and "entry_offset e + 30 + length (entry_name e) \<le> start"
  using assms by (auto simp: validate_local_def Let_def checked64_eq split: if_splits)

lemma check_entry_Ok:
  "check_entry limits e = Ok () \<Longrightarrow> uncompressed e \<noteq> 0 \<and> uncompressed e \<le> uncompressed_bytes limits \<and>
     uncompressed e \<le> compressed e * compression_ratio limits"
  by (auto simp: check_entry_def split: if_splits)

lemma checked64_bound: "ok_or e0 (checked64 n) = Ok m \<Longrightarrow> \<not> b < m \<Longrightarrow> n \<le> b"
  by (simp add: checked64_eq)

lemma extract_Ok:
  assumes "extract_from stop cs limits f len = Ok out"
  shows "\<exists>d bs e k start e'. directory cs f len limits = Ok d \<and> read_bytes cs f (dir_offset d) (dir_size d) = Ok bs \<and>
     select_entry stop limits (dir_count d) bs 2 = Ok (e, k) \<and>
     validate_local cs f e (dir_offset d) = Ok (start, e') \<and> entry_offset e + 30 + length (entry_name e) \<le> start \<and>
     start + compressed e \<le> dir_offset d \<and>
     (\<exists>k'. read_entry stop cs (slice start (compressed e) (content f)) e' k = Ok (out, k')) \<and>
     length out = uncompressed e \<and> crc32 cs out = entry_crc e \<and> check_entry limits e = Ok () \<and>
     len = length (content f) \<and> len \<le> archive_bytes limits"
proof -
  from assms obtain d bs e0 k start e u k' where "directory cs f len limits = Ok d"
    and "read_bytes cs f (dir_offset d) (dir_size d) = Ok bs"
    and "select_entry stop limits (dir_count d) bs 2 = Ok (e0, k)" and "check_entry limits e0 = Ok u"
    and v: "validate_local cs f e0 (dir_offset d) = Ok (start, e)" and "start + compressed e \<le> dir_offset d"
    and "read_entry stop cs (slice start (compressed e) (content f)) e k = Ok (out, k')"
    and "length out = uncompressed e" "crc32 cs out = entry_crc e"
    and "len = length (content f)" "len \<le> archive_bytes limits"
    unfolding extract_from_def
    by (elim and_then_pairE step_elims) (rule that, assumption, assumption, assumption, assumption, assumption,
        erule (1) checked64_bound, blast, blast, blast, blast, linarith)
  moreover obtain z where "e = e0\<lparr>zip64_sizes := z\<rparr>" using validate_local_Ok(1) [OF v] by blast
  moreover have "u = ()" by simp
  moreover note validate_local_Ok(3) [OF v]
  ultimately show ?thesis by (intro exI [of _ d] exI [of _ bs] exI [of _ e0] exI [of _ k] exI [of _ start] exI [of _ e]) auto
qed

section \<open>Cancellation\<close>

definition cancels :: "'a zip_result \<Rightarrow> 'a zip_result \<Rightarrow> bool" where
  "cancels r r0 \<longleftrightarrow> r = Err MetadataCancelled \<or> r = r0"

lemma cancels_refl [simp]: "cancels r r"
  by (simp add: cancels_def)

lemma cancels_stop [simp]: "cancels (Err MetadataCancelled) r"
  by (simp add: cancels_def)

lemma cancels_and_then: "cancels r r0 \<Longrightarrow> (\<And>x. r0 = Ok x \<Longrightarrow> cancels (f x) (g x)) \<Longrightarrow> cancels (and_then r f) (and_then r0 g)"
  by (cases r0) (auto simp: cancels_def)

lemma cancels_if: "cancels r1 s1 \<Longrightarrow> cancels r2 s2 \<Longrightarrow> cancels (if b then r1 else r2) (if b then s1 else s2)"
  by simp

lemma cancels_check: "cancels r s \<Longrightarrow> cancels (if b then Err MetadataCancelled else r) s"
  by simp

lemma cancels_pair:
  "(\<And>a b. cancels (f a b) (g a b)) \<Longrightarrow> cancels (case p of (a, b) \<Rightarrow> f a b) (case p of (a, b) \<Rightarrow> g a b)"
  by (cases p) simp

lemmas cancels_intros = cancels_check cancels_if cancels_and_then cancels_pair cancels_refl

lemma select_loop_cancel:
  "cancels (select_loop stop limits n bs s fb files k) (select_loop never limits n bs s fb files k)"
proof (induction n arbitrary: bs s fb files k)
  case (Suc n)
  show ?case
    unfolding select_loop.simps if_False Let_def
    by (intro cancels_check cancels_and_then cancels_if cancels_refl Suc.IH)
qed simp

lemma select_entry_cancel: "cancels (select_entry stop limits count bs k) (select_entry never limits count bs k)"
  unfolding select_entry_def by (intro cancels_and_then select_loop_cancel) simp

lemma read_payload_cancel: "cancels (read_payload stop ps fails n out k) (read_payload never ps fails n out k)"
proof (induction ps arbitrary: out k)
  case (Cons p ps)
  show ?case
    unfolding read_payload.simps if_False
    by (intro cancels_check cancels_if cancels_refl Cons.IH)
qed simp

lemma read_entry_cancel: "cancels (read_entry stop cs raw e k) (read_entry never cs raw e k)"
  unfolding read_entry_def
  by (intro cancels_if cancels_refl)
     (auto split: prod.split intro: read_payload_cancel cancels_and_then)

lemma extract_from_cancel: "cancels (extract_from stop cs limits f len) (extract_from never cs limits f len)"
  unfolding extract_from_def if_False
  by (intro cancels_intros select_entry_cancel read_entry_cancel)

lemma extract_payload_cancel:
  "cancels (extract_payload stop cs limits open_file ident) (extract_payload never cs limits open_file ident)"
proof (cases "open_file (canonical_path ident)")
  case (Some f)
  then show ?thesis
    by (cases "before_read f") (auto simp: extract_payload_def intro!: cancels_and_then extract_from_cancel)
qed (simp add: extract_payload_def)

lemma parse_archive_cancel:
  "cancels (parse_archive stop stop_decode cs limits open_file ident) (parse_archive never never cs limits open_file ident)"
  unfolding parse_archive_def
  by (intro cancels_and_then extract_payload_cancel) (use decode_cancel in \<open>auto simp: cancels_def\<close>)

section \<open>Properties\<close>

text \<open>
  Cancellation changes nothing but the outcome "cancelled": whenever and however often the stop
  flag is raised while an archive is opened, extracted and decoded, the result is either that error or
  exactly what the uncancelled parse of the same file returns.
\<close>

theorem cancellation_is_transparent:
  "parse_archive stop stop_decode cs limits open_file ident = Err MetadataCancelled \<or>
   parse_archive stop stop_decode cs limits open_file ident =
     parse_archive (\<lambda>_. False) (\<lambda>_. False) cs limits open_file ident"
  using parse_archive_cancel by (simp add: cancels_def)

text \<open>
  C35: Reading what was written: an archive with one entry named as a log, stored or deflated, within
  the limits of the reader and small enough not to need ZIP64, is accepted, and what is extracted is the
  content, byte for byte. The name is one that the format can hold (less than 65536 bytes) and does
  not have the signature of the ZIP64 locator exactly twenty bytes before its end, where the reader would take it
  for a locator; the limit on names is one that the reader's 64-bit arithmetic can use. The file and
  the allocator are reliable, and the decompressor and the CRC are the ones that the writer used.
\<close>

theorem reader_extracts_written_archive:
  assumes "acceptable limits w" and "content f = write_archive w" and "reliable cs f"
    and "stands_for cs w payload"
  shows "extract_from (\<lambda>_. False) cs limits f (length (content f)) = Ok payload"
  by (rule extract_written [OF assms]) simp

definition plain_codecs :: codecs where
  "plain_codecs = \<lparr>deliver = (\<lambda>bs. (if bs = [] then [] else [bs], False)), inflate = (\<lambda>bs. ([], True, 0)),
     crc32 = (\<lambda>bs. of_nat (le_nat bs)), alloc_bytes = (\<lambda>_. True)\<rparr>"

definition sample_entry :: written_entry where
  "sample_entry = \<lparr>w_name = [97, 46, 101, 118, 116, 99], w_method = 0, w_crc = 513, w_raw = [1, 2], w_size = 2\<rparr>"

definition sample_archive :: seekable where
  "sample_archive = \<lparr>content = write_archive sample_entry, read_fails = (\<lambda>_ _. False), end_fails = False\<rparr>"

lemma sample_acceptable: "acceptable default_limits sample_entry"
  by (simp add: acceptable_def locator_in_name_def default_limits_def sample_entry_def names_log_def is_evtc_name_def ascii_lower_def
      write_archive_def)

lemma sample_stands_for: "stands_for plain_codecs sample_entry [1, 2]"
  by (simp add: stands_for_def sample_entry_def plain_codecs_def pieces_of_def)

lemma sample_reliable: "reliable plain_codecs sample_archive"
  by (simp add: reliable_def sample_archive_def plain_codecs_def)

lemma sample_content: "content sample_archive = write_archive sample_entry"
  by (simp add: sample_archive_def)

lemmas sample_facts = sample_acceptable sample_content sample_reliable sample_stands_for

theorem reader_extracts_written_archive_witness:
  "extract_from (\<lambda>_. False) plain_codecs default_limits sample_archive (length (content sample_archive)) = Ok [1, 2]"
  by (rule reader_extracts_written_archive [OF sample_facts])

text \<open>
  C36: Hostile archives are contained: whatever the bytes, the Deflate decoder and the stop flag do, an
  extraction that succeeds yields a non-empty payload, decoded from the compressed bytes of the entry that
  was selected from the directory of this very file, with the length and the CRC of that entry, bounded
  by the limit on uncompressed bytes and by the compression ratio times the size of the archive. The
  compressed bytes start behind the local header of the entry and end before the directory, the directory
  ends within the file, and its size and number of entries are within their bounds.
\<close>

theorem extraction_is_contained:
  assumes "extract_from stop cs limits f len = Ok out"
  shows "\<exists>d bs e k start e' k'. directory cs f len limits = Ok d \<and> read_bytes cs f (dir_offset d) (dir_size d) = Ok bs \<and>
     select_entry stop limits (dir_count d) bs 2 = Ok (e, k) \<and>
     validate_local cs f e (dir_offset d) = Ok (start, e') \<and>
     read_entry stop cs (slice start (compressed e) (content f)) e' k = Ok (out, k') \<and>
     entry_offset e + 30 + length (entry_name e) \<le> start \<and> start + compressed e \<le> dir_offset d \<and>
     length out = uncompressed e \<and> crc32 cs out = entry_crc e \<and> out \<noteq> [] \<and>
     length out \<le> uncompressed_bytes limits \<and> length out \<le> len * compression_ratio limits \<and>
     dir_offset d + dir_size d + 22 \<le> len \<and> dir_count d \<le> entries limits \<and>
     dir_size d \<le> dir_count d * (46 + filename_bytes limits + 131070) \<and>
     len = length (content f) \<and> len \<le> archive_bytes limits"
proof -
  from extract_Ok [OF assms] obtain d bs e k start e' k' where d: "directory cs f len limits = Ok d"
    and s: "read_bytes cs f (dir_offset d) (dir_size d) = Ok bs"
      "select_entry stop limits (dir_count d) bs 2 = Ok (e, k)" "start + compressed e \<le> dir_offset d"
      "length out = uncompressed e" "crc32 cs out = entry_crc e" "len = length (content f)" "len \<le> archive_bytes limits"
      "validate_local cs f e (dir_offset d) = Ok (start, e')" "entry_offset e + 30 + length (entry_name e) \<le> start"
      "read_entry stop cs (slice start (compressed e) (content f)) e' k = Ok (out, k')"
    and c: "check_entry limits e = Ok ()" by blast
  note dir = directory_Ok [OF d] and chk = check_entry_Ok [OF c]
  have "compressed e * compression_ratio limits \<le> len * compression_ratio limits"
    using s(3) dir by (intro mult_right_mono) auto
  with chk s(4) have "length out \<le> len * compression_ratio limits" by (metis le_trans)
  moreover have "out \<noteq> []" using chk s(4) by auto
  ultimately show ?thesis using d s dir chk
    by (intro exI [of _ d] exI [of _ bs] exI [of _ e] exI [of _ k] exI [of _ start] exI [of _ e'] exI [of _ k']) simp
qed

theorem extraction_is_contained_witness:
  "\<exists>n. length ([1, 2] :: bytes) \<le> n * compression_ratio default_limits \<and> n \<le> archive_bytes default_limits"
proof -
  have "extract_from never plain_codecs default_limits sample_archive (length (content sample_archive)) = Ok [1, 2]"
    by (rule extract_written [OF sample_facts]) simp
  from extraction_is_contained [OF this] show ?thesis by blast
qed

text \<open>
  The entry that is extracted is the log. The one-pass selection returns an entry exactly when the
  directory consists of \<open>count\<close> readable headers and nothing else, and that entry is the only file with
  the extension \<open>.evtc\<close>, or there is no such file and it is the only file at all and has no extension.
\<close>

theorem selected_entry_is_the_log:
  "select_entry (\<lambda>_. False) limits count bs k = Ok (e, k') \<longleftrightarrow>
     k' = k + count \<and> (\<exists>hs. headers limits count bs = Ok (hs, []) \<and>
       (log_entries hs = [e] \<or> (log_entries hs = [] \<and> file_entries hs = [e] \<and> extensionless e)))"
  by (rule selected_entry)

end
