(* ===== verification/Workers.thy ===== *)
theory Workers
  imports Prelude
begin

text \<open>
  The bounded worker pool (\<open>rust/src/workers.rs\<close>). Its state is what the mutex guards, with one entry
  per thread for the place in \<open>Shared::run\<close> where the thread is. A step of a thread is what it does
  between two waits, under the lock; a wait is a guard, since every change notifies all waiters.
  Processing is a parameter: it may change the request, return any output or panic, in which case
  \<open>failed\<close> (a parameter, which does not panic) supplies the output.

  Tickets are machine words: the comparison with \<open>next_publication\<close> survives the wrap-around because
  at most 32 of them are outstanding.
\<close>

type_synonym ticket = u64

definition max_parallelism :: nat where
  "max_parallelism = 32"

datatype queue_error = Full | QueueStopping

record worker_options =
  queue_capacity :: nat
  option_parallelism :: nat

definition default_worker_options :: worker_options where
  "default_worker_options = \<lparr>queue_capacity = 8, option_parallelism = 1\<rparr>"

datatype worker_error =
  InvalidCapacity | InvalidParallelism | AllocationFailed | ThreadStartFailed | WorkerStopping

datatype ('q, 'r) worker_state = Idle | Processing 'q | Completed ticket 'r | Exited

record worker_snapshot =
  snap_pending :: nat
  snap_results :: nat
  snap_active :: nat
  snap_parallelism :: nat
  snap_threads :: nat
  snap_stopping :: bool

record ('q, 'r) pool =
  capacity :: nat
  requests :: "'q list"
  results :: "'r list"
  active :: nat
  parallelism :: nat
  stopping :: bool
  next_completion :: ticket
  next_publication :: ticket
  threads :: "('q, 'r) worker_state list"

section \<open>The operations of the owner\<close>

definition validate_parallelism :: "nat \<Rightarrow> (worker_error, unit) result" where
  "validate_parallelism n = require (1 \<le> n \<and> n \<le> max_parallelism) InvalidParallelism"

text \<open>The loop that starts threads; \<open>starts i\<close> says whether the thread with index \<open>i\<close> can be started.\<close>

fun spawn_loop ::
  "(nat \<Rightarrow> bool) \<Rightarrow> nat \<Rightarrow> ('q, 'r) worker_state list \<Rightarrow> bool \<times> ('q, 'r) worker_state list" where
  "spawn_loop starts 0 ts = (True, ts)"
| "spawn_loop starts (Suc n) ts =
     (if starts (length ts) then spawn_loop starts n (ts @ [Idle]) else (False, ts))"

definition resize ::
  "(nat \<Rightarrow> bool) \<Rightarrow> nat \<Rightarrow> ('q, 'r) pool \<Rightarrow> (worker_error, unit) result \<times> ('q, 'r) pool" where
  "resize starts n p =
     (case validate_parallelism n of
        Err e \<Rightarrow> (Err e, p)
      | Ok _ \<Rightarrow>
          if stopping p then (Err WorkerStopping, p)
          else case spawn_loop starts (n - length (threads p)) (threads p) of (ok, ts) \<Rightarrow>
            if ok then (Ok (), p\<lparr>threads := ts, parallelism := n\<rparr>)
            else (Err ThreadStartFailed, p\<lparr>threads := ts\<rparr>))"

definition empty_pool :: "nat \<Rightarrow> ('q, 'r) pool" where
  "empty_pool n = \<lparr>capacity = n, requests = [], results = [], active = 0, parallelism = 0, stopping = False,
     next_completion = 0, next_publication = 0, threads = []\<rparr>"

definition new_pool ::
  "(nat \<Rightarrow> bool) \<Rightarrow> (nat \<Rightarrow> bool) \<Rightarrow> worker_options \<Rightarrow> (worker_error, ('q, 'r) pool) result" where
  "new_pool alloc starts opts =
     (if queue_capacity opts = 0 then Err InvalidCapacity
      else and_then (validate_parallelism (option_parallelism opts)) (\<lambda>_.
        if \<not> (alloc (queue_capacity opts) \<and> alloc max_parallelism) then Err AllocationFailed
        else case resize starts (option_parallelism opts) (empty_pool (queue_capacity opts)) of
          (Err e, _) \<Rightarrow> Err e | (Ok _, p) \<Rightarrow> Ok p))"

definition update_queue_capacity ::
  "(nat \<Rightarrow> bool) \<Rightarrow> nat \<Rightarrow> ('q, 'r) pool \<Rightarrow> (worker_error, unit) result \<times> ('q, 'r) pool" where
  "update_queue_capacity alloc n p =
     (if n = 0 then (Err InvalidCapacity, p)
      else if stopping p then (Err WorkerStopping, p)
      else if \<not> (alloc (n - length (requests p)) \<and> alloc (n - length (results p)))
      then (Err AllocationFailed, p)
      else (Ok (), p\<lparr>capacity := n\<rparr>))"

definition pool_snapshot :: "('q, 'r) pool \<Rightarrow> worker_snapshot" where
  "pool_snapshot p = \<lparr>snap_pending = length (requests p), snap_results = length (results p),
     snap_active = active p, snap_parallelism = parallelism p, snap_threads = length (threads p),
     snap_stopping = stopping p\<rparr>"

definition enqueue :: "'q \<Rightarrow> ('q, 'r) pool \<Rightarrow> (queue_error, unit) result \<times> ('q, 'r) pool" where
  "enqueue q p =
     (if stopping p then (Err QueueStopping, p)
      else if capacity p \<le> length (requests p) then (Err Full, p)
      else (Ok (), p\<lparr>requests := requests p @ [q]\<rparr>))"

definition try_take_result :: "('q, 'r) pool \<Rightarrow> 'r option \<times> ('q, 'r) pool" where
  "try_take_result p = (case results p of [] \<Rightarrow> (None, p) | r # rs \<Rightarrow> (Some r, p\<lparr>results := rs\<rparr>))"

text \<open>\<open>wait_for_result\<close> returns once there is a result, the pool stops or the time is over.\<close>

definition wait_for_result :: "bool \<Rightarrow> ('q, 'r) pool \<Rightarrow> ('r option \<times> ('q, 'r) pool) option" where
  "wait_for_result timed_out p =
     (if \<not> stopping p \<and> results p = [] \<and> \<not> timed_out then None else Some (try_take_result p))"

definition available_capacity :: "('q, 'r) pool \<Rightarrow> nat" where
  "available_capacity p = (if stopping p then 0 else capacity p - length (requests p))"

definition cancel_pending :: "('q, 'r) pool \<Rightarrow> ('q, 'r) pool" where
  "cancel_pending p = (if stopping p then p else p\<lparr>stopping := True, requests := [], results := []\<rparr>)"

section \<open>The threads\<close>

datatype ('q, 'r) event =
  Started nat 'q | Finished nat 'r | Published nat 'r | Left nat | Discarded nat
| Enqueued 'q | Refused 'q queue_error | Taken 'r | NothingTaken | Resized nat | Recapped nat | Stopped

definition set_thread :: "nat \<Rightarrow> ('q, 'r) worker_state \<Rightarrow> ('q, 'r) pool \<Rightarrow> ('q, 'r) pool" where
  "set_thread i w p = p\<lparr>threads := (threads p)[i := w]\<rparr>"

text \<open>The output of one attempt: what processing returned, or what \<open>failed\<close> makes of the request.\<close>

definition attempt_output :: "('q \<Rightarrow> 'r) \<Rightarrow> 'q \<Rightarrow> 'r option \<Rightarrow> 'r" where
  "attempt_output failed q returned = (case returned of None \<Rightarrow> failed q | Some r \<Rightarrow> r)"

inductive thread_step ::
  "('q \<Rightarrow> 'r) \<Rightarrow> ('q, 'r) pool \<Rightarrow> ('q, 'r) event \<Rightarrow> ('q, 'r) pool \<Rightarrow> bool" for failed where
  start: "\<lbrakk>i < length (threads p); threads p ! i = Idle; \<not> stopping p; i < parallelism p;
      active p < parallelism p; requests p = q # qs\<rbrakk> \<Longrightarrow>
    thread_step failed p (Started i q) (set_thread i (Processing q) (p\<lparr>active := active p + 1, requests := qs\<rparr>))"
| leave: "\<lbrakk>i < length (threads p); threads p ! i = Idle; stopping p\<rbrakk> \<Longrightarrow>
    thread_step failed p (Left i) (set_thread i Exited p)"
| finish: "\<lbrakk>i < length (threads p); threads p ! i = Processing q; r = attempt_output failed q' returned\<rbrakk> \<Longrightarrow>
    thread_step failed p (Finished i r)
      (set_thread i (Completed (next_completion p) r) (p\<lparr>next_completion := next_completion p + 1\<rparr>))"
| publish: "\<lbrakk>i < length (threads p); threads p ! i = Completed t r; \<not> stopping p;
      length (results p) < capacity p; t = next_publication p\<rbrakk> \<Longrightarrow>
    thread_step failed p (Published i r)
      (set_thread i Idle (p\<lparr>active := active p - 1, results := results p @ [r],
         next_publication := next_publication p + 1\<rparr>))"
| discard: "\<lbrakk>i < length (threads p); threads p ! i = Completed t r; stopping p\<rbrakk> \<Longrightarrow>
    thread_step failed p (Discarded i) (set_thread i Exited (p\<lparr>active := active p - 1\<rparr>))"

inductive owner_step :: "('q, 'r) pool \<Rightarrow> ('q, 'r) event \<Rightarrow> ('q, 'r) pool \<Rightarrow> bool" where
  "enqueue q p = (Ok (), p') \<Longrightarrow> owner_step p (Enqueued q) p'"
| "enqueue q p = (Err e, p') \<Longrightarrow> owner_step p (Refused q e) p'"
| "try_take_result p = (Some r, p') \<Longrightarrow> owner_step p (Taken r) p'"
| "try_take_result p = (None, p') \<Longrightarrow> owner_step p NothingTaken p'"
| "resize starts n p = (res, p') \<Longrightarrow> owner_step p (Resized n) p'"
| "update_queue_capacity alloc n p = (res, p') \<Longrightarrow> owner_step p (Recapped n) p'"
| "cancel_pending p = p' \<Longrightarrow> owner_step p Stopped p'"

definition pool_step ::
  "('q \<Rightarrow> 'r) \<Rightarrow> ('q, 'r) pool \<Rightarrow> ('q, 'r) event \<Rightarrow> ('q, 'r) pool \<Rightarrow> bool" where
  "pool_step failed p e p' \<longleftrightarrow> thread_step failed p e p' \<or> owner_step p e p'"

inductive pool_run ::
  "('q \<Rightarrow> 'r) \<Rightarrow> ('q, 'r) pool \<Rightarrow> ('q, 'r) event list \<Rightarrow> ('q, 'r) pool \<Rightarrow> bool" for failed where
  run_nil: "pool_run failed p [] p"
| run_snoc: "pool_run failed p tr p' \<Longrightarrow> pool_step failed p' e p'' \<Longrightarrow> pool_run failed p (tr @ [e]) p''"

section \<open>What a run did\<close>

definition accepted :: "('q, 'r) event list \<Rightarrow> 'q list" where
  "accepted tr = concat (map (\<lambda>e. case e of Enqueued q \<Rightarrow> [q] | _ \<Rightarrow> []) tr)"

definition started :: "('q, 'r) event list \<Rightarrow> 'q list" where
  "started tr = concat (map (\<lambda>e. case e of Started _ q \<Rightarrow> [q] | _ \<Rightarrow> []) tr)"

definition completions :: "('q, 'r) event list \<Rightarrow> 'r list" where
  "completions tr = concat (map (\<lambda>e. case e of Finished _ r \<Rightarrow> [r] | _ \<Rightarrow> []) tr)"

definition published :: "('q, 'r) event list \<Rightarrow> 'r list" where
  "published tr = concat (map (\<lambda>e. case e of Published _ r \<Rightarrow> [r] | _ \<Rightarrow> []) tr)"

definition taken :: "('q, 'r) event list \<Rightarrow> 'r list" where
  "taken tr = concat (map (\<lambda>e. case e of Taken r \<Rightarrow> [r] | _ \<Rightarrow> []) tr)"

lemmas trace_defs = accepted_def started_def completions_def published_def taken_def

lemma trace_Nil [simp]: "accepted [] = []" "started [] = []" "completions [] = []" "published [] = []" "taken [] = []"
  by (simp_all add: trace_defs)

lemma trace_snoc [simp]:
  "accepted (tr @ [e]) = accepted tr @ (case e of Enqueued q \<Rightarrow> [q] | _ \<Rightarrow> [])"
  "started (tr @ [e]) = started tr @ (case e of Started _ q \<Rightarrow> [q] | _ \<Rightarrow> [])"
  "completions (tr @ [e]) = completions tr @ (case e of Finished _ r \<Rightarrow> [r] | _ \<Rightarrow> [])"
  "published (tr @ [e]) = published tr @ (case e of Published _ r \<Rightarrow> [r] | _ \<Rightarrow> [])"
  "taken (tr @ [e]) = taken tr @ (case e of Taken r \<Rightarrow> [r] | _ \<Rightarrow> [])"
  by (simp_all add: trace_defs)

section \<open>The invariant\<close>

fun is_busy_thread :: "('q, 'r) worker_state \<Rightarrow> bool" where
  "is_busy_thread (Processing _) = True"
| "is_busy_thread (Completed _ _) = True"
| "is_busy_thread _ = False"

fun is_completed :: "('q, 'r) worker_state \<Rightarrow> bool" where
  "is_completed (Completed _ _) = True"
| "is_completed _ = False"

definition pool_ok :: "('q, 'r) pool \<Rightarrow> bool" where
  "pool_ok p \<longleftrightarrow> active p = length (filter is_busy_thread (threads p)) \<and> length (threads p) \<le> max_parallelism \<and>
     parallelism p \<le> length (threads p) \<and> 0 < parallelism p \<and> 0 < capacity p \<and>
     (\<not> stopping p \<longrightarrow> Exited \<notin> set (threads p))"

definition completed_threads :: "('q, 'r) pool \<Rightarrow> nat set" where
  "completed_threads p = {i. i < length (threads p) \<and> is_completed (threads p ! i)}"

text \<open>The threads that wait to publish, oldest first: their tickets and outputs follow the published ones.\<close>

definition in_order :: "('q, 'r) event list \<Rightarrow> nat list \<Rightarrow> ('q, 'r) pool \<Rightarrow> bool" where
  "in_order tr ids p \<longleftrightarrow> distinct ids \<and> set ids = completed_threads p \<and>
     (\<forall>k < length ids. threads p ! (ids ! k) =
        Completed (of_nat (length (published tr) + k)) (completions tr ! (length (published tr) + k)))"

definition fifo :: "('q, 'r) event list \<Rightarrow> ('q, 'r) pool \<Rightarrow> bool" where
  "fifo tr p \<longleftrightarrow> (\<exists>ids. in_order tr ids p \<and>
     length (completions tr) = length (published tr) + length ids) \<and>
     take (length (published tr)) (completions tr) = published tr \<and>
     published tr = taken tr @ results p \<and> accepted tr = started tr @ requests p \<and>
     next_publication p = of_nat (length (published tr)) \<and> next_completion p = of_nat (length (completions tr))"

lemma count_update:
  "i < length xs \<Longrightarrow> length (filter P (xs[i := w])) + (if P (xs ! i) then 1 else 0) =
     length (filter P xs) + (if P w then 1 else 0)"
proof (induction xs arbitrary: i)
  case (Cons x xs)
  then show ?case by (cases i) auto
qed simp

lemma spawn_loop_threads:
  "spawn_loop starts n ts = (ok, ts') \<Longrightarrow> \<exists>m \<le> n. ts' = ts @ replicate m Idle \<and> (ok \<longrightarrow> m = n)"
proof (induction starts n ts rule: spawn_loop.induct)
  case (2 starts n ts)
  show ?case
  proof (cases "starts (length ts)")
    case True
    with 2 obtain m where "m \<le> n" "ts' = (ts @ [Idle]) @ replicate m Idle" "ok \<longrightarrow> m = n" by auto
    then show ?thesis by (intro exI [of _ "Suc m"]) simp
  qed (use "2.prems" in auto)
qed auto

lemma resize_Ok:
  assumes "resize starts n p = (res, p')"
  shows "p' = p \<or> (\<not> stopping p \<and> 1 \<le> n \<and> n \<le> max_parallelism \<and>
     (\<exists>m. p' = p\<lparr>threads := threads p @ replicate m Idle, parallelism := n\<rparr> \<and> length (threads p) + m \<le> max n (length (threads p)) \<and>
        n \<le> length (threads p) + m)) \<or>
     (\<not> stopping p \<and> (\<exists>m. p' = p\<lparr>threads := threads p @ replicate m Idle\<rparr> \<and>
        length (threads p) + m \<le> max n (length (threads p)) \<and> n \<le> max_parallelism))"
proof -
  obtain ok ts where s: "spawn_loop starts (n - length (threads p)) (threads p) = (ok, ts)" by (meson surj_pair)
  from spawn_loop_threads [OF s] show ?thesis
    using assms s by (auto simp: resize_def validate_parallelism_def require_def split: if_splits)
qed

lemma set_thread_simps [simp]:
  "active (set_thread i w p) = active p" "threads (set_thread i w p) = (threads p)[i := w]"
  "stopping (set_thread i w p) = stopping p" "requests (set_thread i w p) = requests p"
  "results (set_thread i w p) = results p" "capacity (set_thread i w p) = capacity p"
  "parallelism (set_thread i w p) = parallelism p" "next_completion (set_thread i w p) = next_completion p"
  "next_publication (set_thread i w p) = next_publication p"
  by (simp_all add: set_thread_def)

lemma thread_step_ok:
  assumes "thread_step failed p e p'" and "pool_ok p"
  shows "pool_ok p'"
  using assms
proof cases
  case (start i q qs)
  then show ?thesis
    using count_update [of i "threads p" is_busy_thread "Processing q"] assms(2)
    by (auto simp: pool_ok_def dest!: set_update_subset_insert [THEN subsetD])
next
  case (leave i)
  then show ?thesis
    using count_update [of i "threads p" is_busy_thread Exited] assms(2) by (auto simp: pool_ok_def)
next
  case (finish i q r q' returned)
  then show ?thesis
    using count_update [of i "threads p" is_busy_thread "Completed (next_completion p) r"] assms(2)
    by (auto simp: pool_ok_def dest!: set_update_subset_insert [THEN subsetD])
next
  case (publish i t r)
  then show ?thesis
    using count_update [of i "threads p" is_busy_thread Idle] assms(2)
    by (auto simp: pool_ok_def dest!: set_update_subset_insert [THEN subsetD])
next
  case (discard i t r)
  then show ?thesis
    using count_update [of i "threads p" is_busy_thread Exited] assms(2) by (auto simp: pool_ok_def)
qed

lemma owner_step_ok:
  assumes "owner_step p e p'" and "pool_ok p"
  shows "pool_ok p'"
  using assms
proof cases
  case (5 starts n res)
  from resize_Ok [OF 5(2)] assms(2) show ?thesis by (auto simp: pool_ok_def)
qed (use assms(2) in \<open>auto simp: pool_ok_def enqueue_def try_take_result_def update_queue_capacity_def
    cancel_pending_def split: if_splits list.splits\<close>)
section \<open>Order and conservation\<close>

lemma completed_update:
  "i < length (threads p) \<Longrightarrow> completed_threads (set_thread i w p) =
     (if is_completed w then insert i (completed_threads p) else completed_threads p - {i})"
  by (auto simp: completed_threads_def nth_list_update)

lemma completed_other [simp]:
  "completed_threads (p\<lparr>active := a\<rparr>) = completed_threads p"
  "completed_threads (p\<lparr>requests := qs\<rparr>) = completed_threads p"
  "completed_threads (p\<lparr>results := rs\<rparr>) = completed_threads p"
  "completed_threads (p\<lparr>next_completion := t\<rparr>) = completed_threads p"
  "completed_threads (p\<lparr>next_publication := t\<rparr>) = completed_threads p"
  by (simp_all add: completed_threads_def)

lemma in_order_short:
  assumes "in_order tr ids p" and "pool_ok p"
  shows "length ids \<le> 32"
proof -
  have "length ids = card (set ids)" using assms(1) distinct_card [of ids] by (simp add: in_order_def)
  also have "\<dots> \<le> card {..<length (threads p)}"
    using assms(1) by (intro card_mono) (auto simp: in_order_def completed_threads_def)
  finally show ?thesis using assms(2) by (simp add: pool_ok_def max_parallelism_def)
qed

text \<open>The ticket test picks the oldest completion, wrap-around or not.\<close>

lemma ticket_is_oldest:
  assumes "(of_nat (n + k) :: ticket) = of_nat n" and "k \<le> 32"
  shows "k = 0"
proof -
  have "(of_nat k :: ticket) = 0" using assms(1) by simp
  then have "unat (of_nat k :: ticket) = 0" by simp
  then show ?thesis using assms(2) by (simp add: unat_of_nat)
qed

lemma fifo_start:
  assumes "fifo tr p" and "i < length (threads p)" and "threads p ! i = Idle" and "requests p = q # qs"
  shows "fifo (tr @ [Started i q]) (set_thread i (Processing q) (p\<lparr>active := a, requests := qs\<rparr>))"
proof -
  from assms(1) obtain ids where o: "in_order tr ids p"
    and len: "length (completions tr) = length (published tr) + length ids" by (auto simp: fifo_def)
  have i: "i \<notin> set ids" using o assms(2,3) by (auto simp: in_order_def completed_threads_def)
  have "completed_threads (set_thread i (Processing q) (p\<lparr>active := a, requests := qs\<rparr>)) = completed_threads p"
    using completed_update [of i "p\<lparr>active := a, requests := qs\<rparr>"] assms(2,3) by (auto simp: completed_threads_def)
  moreover have "(threads p)[i := Processing q] ! (ids ! k) = threads p ! (ids ! k)" if "k < length ids" for k
    using i that by (metis nth_list_update_neq nth_mem)
  ultimately have "in_order (tr @ [Started i q]) ids (set_thread i (Processing q) (p\<lparr>active := a, requests := qs\<rparr>))"
    using o by (simp add: in_order_def)
  with assms(1,4) len show ?thesis by (auto simp: fifo_def)
qed

lemma fifo_finish:
  assumes "fifo tr p" and "i < length (threads p)" and "threads p ! i = Processing q"
  shows "fifo (tr @ [Finished i r]) (set_thread i (Completed (next_completion p) r) (p\<lparr>next_completion := next_completion p + 1\<rparr>))"
    (is "fifo _ ?p")
proof -
  from assms(1) obtain ids where o: "in_order tr ids p"
    and len: "length (completions tr) = length (published tr) + length ids" by (auto simp: fifo_def)
  have i: "i \<notin> set ids" using o assms(2,3) by (auto simp: in_order_def completed_threads_def)
  have "set (ids @ [i]) = completed_threads ?p"
    using o completed_update [of i "p\<lparr>next_completion := next_completion p + 1\<rparr>"] assms(2) by (auto simp: in_order_def)
  moreover have "threads ?p ! ((ids @ [i]) ! k) =
      Completed (of_nat (length (published tr) + k)) ((completions tr @ [r]) ! (length (published tr) + k))"
    if "k < length (ids @ [i])" for k
  proof (cases "k < length ids")
    case True
    then have "ids ! k \<noteq> i" using i nth_mem by blast
    then show ?thesis using o True len by (simp add: in_order_def nth_append)
  next
    case False
    with that have "k = length ids" by simp
    moreover have "next_completion p = of_nat (length (completions tr))" using assms(1) by (simp add: fifo_def)
    ultimately show ?thesis using assms(2) len by (simp add: nth_append)
  qed
  ultimately have "in_order (tr @ [Finished i r]) (ids @ [i]) ?p"
    using o i by (simp add: in_order_def)
  then show ?thesis using assms(1) len unfolding fifo_def by (auto intro!: exI [of _ "ids @ [i]"])
qed

lemma fifo_publish:
  assumes "fifo tr p" and "pool_ok p" and "i < length (threads p)" and "threads p ! i = Completed (next_publication p) r"
  shows "fifo (tr @ [Published i r])
     (set_thread i Idle (p\<lparr>active := a, results := results p @ [r], next_publication := next_publication p + 1\<rparr>))"
    (is "fifo _ ?p")
proof -
  let ?n = "length (published tr)"
  from assms(1) obtain ids where o: "in_order tr ids p"
    and len: "length (completions tr) = ?n + length ids" by (auto simp: fifo_def)
  have np: "next_publication p = of_nat ?n" using assms(1) by (simp add: fifo_def)
  have "i \<in> set ids" using o assms(3,4) by (simp add: in_order_def completed_threads_def)
  then obtain k where k: "k < length ids" "ids ! k = i" by (auto simp: in_set_conv_nth)
  with o assms(4) have w: "(of_nat (?n + k) :: ticket) = of_nat ?n" "r = completions tr ! (?n + k)"
    by (auto simp: in_order_def np)
  then have "k = 0" using ticket_is_oldest k(1) in_order_short [OF o assms(2)] by simp
  with k w obtain rest where ids: "ids = i # rest" and r: "r = completions tr ! ?n" by (cases ids) auto
  have "set rest = completed_threads ?p"
    using o ids completed_update [of i "p\<lparr>active := a, results := results p @ [r], next_publication := next_publication p + 1\<rparr>"] assms(3)
    by (auto simp: in_order_def)
  moreover have "threads ?p ! (rest ! m) = Completed (of_nat (Suc ?n + m)) (completions tr ! (Suc ?n + m))"
    if "m < length rest" for m
  proof -
    have "threads p ! (ids ! Suc m) = Completed (of_nat (?n + Suc m)) (completions tr ! (?n + Suc m))"
      using o that unfolding in_order_def by (metis Suc_less_eq ids length_Cons)
    moreover have "rest ! m \<noteq> i" using o that by (auto simp: in_order_def ids dest: nth_mem)
    ultimately show ?thesis by (simp add: ids)
  qed
  ultimately have "in_order (tr @ [Published i r]) rest ?p"
    using o by (simp add: in_order_def ids)
  moreover have "take (Suc ?n) (completions tr) = published tr @ [r]"
  proof -
    have "take ?n (completions tr) = published tr" using assms(1) unfolding fifo_def by blast
    moreover have "?n < length (completions tr)" using len ids by simp
    ultimately show ?thesis by (simp only: take_Suc_conv_app_nth r)
  qed
  ultimately show ?thesis using assms(1) len ids unfolding fifo_def by (auto intro!: exI [of _ rest])
qed

lemma fifo_thread_step:
  assumes "thread_step failed p e p'" and "pool_ok p" and "fifo tr p" and "\<not> stopping p"
  shows "fifo (tr @ [e]) p'"
  using assms(1)
proof cases
  case (start i q qs)
  then show ?thesis using fifo_start [OF assms(3)] by blast
next
  case (finish i q r q' returned)
  then show ?thesis using fifo_finish [OF assms(3)] by blast
next
  case (publish i t r)
  then show ?thesis using fifo_publish [OF assms(3,2)] by blast
qed (use assms(4) in auto)

lemma fifo_same_threads:
  assumes "fifo tr p" and "threads p' = threads p @ replicate m Idle" and "next_publication p' = next_publication p"
    and "next_completion p' = next_completion p" and "published tr' = published tr" and "completions tr' = completions tr"
    and "published tr = taken tr' @ results p'" and "accepted tr' = started tr' @ requests p'"
  shows "fifo tr' p'"
proof -
  have "\<not> is_completed ((threads p @ replicate m Idle) ! x)"
    if "\<not> x < length (threads p)" "x < length (threads p) + m" for x
    using that by (simp add: nth_append)
  then have c: "completed_threads p' = completed_threads p"
    by (auto simp: completed_threads_def assms(2)) (auto simp: nth_append split: if_splits)
  from assms(1) obtain ids where o: "in_order tr ids p"
    and len: "length (completions tr) = length (published tr) + length ids" by (auto simp: fifo_def)
  have "threads p' ! (ids ! k) = threads p ! (ids ! k)" if "k < length ids" for k
  proof -
    have "ids ! k \<in> completed_threads p" using o that nth_mem unfolding in_order_def by blast
    then show ?thesis by (simp add: completed_threads_def assms(2) nth_append)
  qed
  then have "in_order tr' ids p'" using o by (simp add: in_order_def c assms(5,6))
  moreover have "take (length (published tr)) (completions tr) = published tr"
    "next_publication p = of_nat (length (published tr))" "next_completion p = of_nat (length (completions tr))"
    using assms(1) unfolding fifo_def by blast+
  ultimately show ?thesis
    unfolding fifo_def using len assms(3-8) by (intro conjI exI [of _ ids]) simp_all
qed

lemma resize_shape:
  assumes "resize starts n p = (res, p')"
  shows "\<exists>m n'. p' = p\<lparr>threads := threads p @ replicate m Idle, parallelism := n'\<rparr>"
proof -
  have "p = p\<lparr>threads := threads p @ replicate 0 Idle, parallelism := parallelism p\<rparr>"
    and "p\<lparr>threads := ts\<rparr> = p\<lparr>threads := ts, parallelism := parallelism p\<rparr>" for ts by simp_all
  with resize_Ok [OF assms] show ?thesis by metis
qed

lemma fifo_owner_step:
  assumes "owner_step p e p'" and "fifo tr p" and "\<not> stopping p'"
  shows "fifo (tr @ [e]) p'"
proof -
  have pa: "published tr = taken tr @ results p" "accepted tr = started tr @ requests p"
    using assms(2) unfolding fifo_def by blast+
  from assms(1) show ?thesis
  proof cases
  case (5 starts n res)
  obtain m n' where "p' = p\<lparr>threads := threads p @ replicate m Idle, parallelism := n'\<rparr>"
    using resize_shape [OF 5(2)] by blast
  then show ?thesis
    using pa 5 by (intro fifo_same_threads [OF assms(2), where m = m]) auto
qed ((rule fifo_same_threads [OF assms(2), where m = 0]; use pa assms(3) in \<open>auto simp: enqueue_def
    try_take_result_def update_queue_capacity_def cancel_pending_def split: if_splits list.splits\<close>)+)
qed

section \<open>Runs\<close>

lemma new_pool_ok:
  fixes p :: "('q, 'r) pool"
  assumes "new_pool alloc starts opts = Ok p"
  shows "pool_ok p \<and> fifo [] p \<and> \<not> stopping p"
proof -
  from assms have c: "queue_capacity opts \<noteq> 0"
    and r: "resize starts (option_parallelism opts) (empty_pool (queue_capacity opts)) = (Ok (), p)"
    by (auto simp: new_pool_def split: if_splits prod.splits sum.splits)
  obtain ok and ts :: "('q, 'r) worker_state list" where s: "spawn_loop starts (option_parallelism opts) [] = (ok, ts)"
    by (meson surj_pair)
  have "threads (empty_pool (queue_capacity opts) :: ('q, 'r) pool) = []" by (simp add: empty_pool_def)
  with r s have "ok" and p0: "p = (empty_pool (queue_capacity opts))\<lparr>threads := ts, parallelism := option_parallelism opts\<rparr>"
    and n: "1 \<le> option_parallelism opts" "option_parallelism opts \<le> max_parallelism"
    by (auto simp: resize_def validate_parallelism_def require_def split: if_splits)
  with spawn_loop_threads [OF s] have p: "p = (empty_pool (queue_capacity opts))\<lparr>threads := replicate (option_parallelism opts) Idle,
      parallelism := option_parallelism opts\<rparr>"
    by auto
  have "completed_threads p = {}" by (auto simp: completed_threads_def p empty_pool_def)
  then have "fifo [] p" by (auto simp: fifo_def in_order_def p empty_pool_def intro!: exI [of _ "[]"])
  with c n show ?thesis by (simp add: pool_ok_def p empty_pool_def)
qed

lemma stopping_stays: "pool_step failed p e p' \<Longrightarrow> stopping p \<Longrightarrow> stopping p'"
  unfolding pool_step_def
  by (elim disjE thread_step.cases owner_step.cases)
     (auto simp: enqueue_def try_take_result_def update_queue_capacity_def cancel_pending_def resize_def
       split: if_splits list.splits sum.splits prod.splits)

lemma run_ok:
  assumes "pool_run failed p tr p'" and "pool_ok p" and "fifo [] p"
  shows "pool_ok p' \<and> (\<not> stopping p' \<longrightarrow> fifo tr p')"
  using assms
proof (induction rule: pool_run.induct)
  case (run_nil p)
  then show ?case by simp
next
  case (run_snoc p tr p' e p'')
  then have ok: "pool_ok p'" and f: "\<not> stopping p' \<longrightarrow> fifo tr p'" by auto
  from run_snoc.hyps(2) ok have "pool_ok p''" by (auto simp: pool_step_def intro: thread_step_ok owner_step_ok)
  moreover have "fifo (tr @ [e]) p''" if "\<not> stopping p''"
  proof -
    have "\<not> stopping p'" using stopping_stays [OF run_snoc.hyps(2)] that by blast
    with f run_snoc.hyps(2) ok that show ?thesis
      by (auto simp: pool_step_def intro: fifo_thread_step fifo_owner_step)
  qed
  ultimately show ?case by blast
qed
fun is_processing :: "('q, 'r) worker_state \<Rightarrow> bool" where
  "is_processing (Processing _) = True"
| "is_processing _ = False"

definition processing_count :: "('q, 'r) pool \<Rightarrow> nat" where
  "processing_count p = length (filter is_processing (threads p))"

definition balanced :: "('q, 'r) event list \<Rightarrow> ('q, 'r) pool \<Rightarrow> bool" where
  "balanced tr p \<longleftrightarrow> length (started tr) = length (completions tr) + processing_count p"

lemma balanced_step:
  assumes "pool_step failed p e p'" and "balanced tr p"
  shows "balanced (tr @ [e]) p'"
proof -
  from assms(1) consider "thread_step failed p e p'" | "owner_step p e p'" by (auto simp: pool_step_def)
  then show ?thesis
  proof cases
    case 1
    then show ?thesis
    proof cases
      case (start i q qs)
      then show ?thesis using count_update [of i "threads p" is_processing "Processing q"] assms(2)
        by (simp add: balanced_def processing_count_def)
    next
      case (leave i)
      then show ?thesis using count_update [of i "threads p" is_processing Exited] assms(2)
        by (simp add: balanced_def processing_count_def)
    next
      case (finish i q r q' returned)
      then show ?thesis using count_update [of i "threads p" is_processing "Completed (next_completion p) r"] assms(2)
        by (simp add: balanced_def processing_count_def)
    next
      case (publish i t r)
      then show ?thesis using count_update [of i "threads p" is_processing Idle] assms(2)
        by (simp add: balanced_def processing_count_def)
    next
      case (discard i t r)
      then show ?thesis using count_update [of i "threads p" is_processing Exited] assms(2)
        by (simp add: balanced_def processing_count_def)
    qed
  next
    case 2
    then show ?thesis
    proof cases
      case (5 starts n res)
      from resize_shape [OF 5(2)] assms(2) 5 show ?thesis by (auto simp: balanced_def processing_count_def)
    qed (use assms(2) in \<open>auto simp: balanced_def processing_count_def enqueue_def try_take_result_def
        update_queue_capacity_def cancel_pending_def split: if_splits list.splits\<close>)
  qed
qed

lemma balanced_run: "pool_run failed p tr p' \<Longrightarrow> balanced [] p \<Longrightarrow> balanced tr p'"
  by (induction rule: pool_run.induct) (auto intro: balanced_step)

text \<open>A stopping pool holds no request and no result, and its threads only go on to their end.\<close>

definition drained :: "('q, 'r) pool \<Rightarrow> bool" where
  "drained p \<longleftrightarrow> (stopping p \<longrightarrow> requests p = [] \<and> results p = [])"

lemma drained_step: "pool_step failed p e p' \<Longrightarrow> drained p \<Longrightarrow> drained p'"
  unfolding pool_step_def
  by (elim disjE thread_step.cases owner_step.cases)
     (auto simp: drained_def enqueue_def try_take_result_def update_queue_capacity_def cancel_pending_def resize_def
       split: if_splits list.splits sum.splits prod.splits)

lemma drained_run: "pool_run failed p tr p' \<Longrightarrow> drained p \<Longrightarrow> drained p'"
  by (induction rule: pool_run.induct) (auto intro: drained_step)

fun to_do :: "('q, 'r) worker_state \<Rightarrow> nat" where
  "to_do Idle = 1"
| "to_do (Processing _) = 2"
| "to_do (Completed _ _) = 1"
| "to_do Exited = 0"

definition remaining :: "('q, 'r) pool \<Rightarrow> nat" where
  "remaining p = sum_list (map to_do (threads p))"

lemma remaining_update:
  "i < length (threads p) \<Longrightarrow> remaining (set_thread i w p) + to_do (threads p ! i) = remaining p + to_do w"
proof -
  have "i < length ts \<Longrightarrow> sum_list (map to_do (ts[i := w])) + to_do (ts ! i) = sum_list (map to_do ts) + to_do w" for ts
  proof (induction ts arbitrary: i)
    case (Cons t ts)
    then show ?case by (cases i) auto
  qed simp
  then show "i < length (threads p) \<Longrightarrow> ?thesis" by (simp add: remaining_def)
qed

lemma remaining_other [simp]:
  "remaining (p\<lparr>active := a\<rparr>) = remaining p" "remaining (p\<lparr>requests := qs\<rparr>) = remaining p"
  "remaining (p\<lparr>next_completion := t\<rparr>) = remaining p"
  by (simp_all add: remaining_def)

lemma stopping_thread_step:
  assumes "thread_step failed p e p'" and "stopping p"
  shows "stopping p' \<and> remaining p' < remaining p"
  using assms(1)
proof cases
  case (leave i)
  then show ?thesis using remaining_update [of i p Exited] assms(2) by simp
next
  case (finish i q r q' returned)
  then show ?thesis
    using remaining_update [of i "p\<lparr>next_completion := next_completion p + 1\<rparr>" "Completed (next_completion p) r"] assms(2) by simp
next
  case (discard i t r)
  then show ?thesis using remaining_update [of i "p\<lparr>active := active p - 1\<rparr>" Exited] assms(2) by simp
qed (use assms(2) in auto)

lemma stuck_threads_exited:
  assumes "\<And>e p'. \<not> thread_step failed p e p'" and "stopping p"
  shows "set (threads p) \<subseteq> {Exited}"
proof
  fix w assume "w \<in> set (threads p)"
  then obtain i where i: "i < length (threads p)" "threads p ! i = w" by (auto simp: in_set_conv_nth)
  have "w = Exited"
  proof (cases w)
    case Idle
    with i assms(1) thread_step.leave [OF i(1) _ assms(2), of failed] show ?thesis by blast
  next
    case (Processing q)
    with i assms(1) thread_step.finish [OF i(1), of q "attempt_output failed q None" failed q None] show ?thesis by blast
  next
    case (Completed t r)
    with i assms(1) thread_step.discard [OF i(1) _ assms(2), of t r failed] show ?thesis by blast
  qed
  then show "w \<in> {Exited}" by simp
qed

lemma idle_thread_exists:
  assumes "pool_ok p" and "\<not> stopping p" and "active p < parallelism p"
  shows "\<exists>i < parallelism p. threads p ! i = Idle"
proof (rule ccontr)
  let ?ts = "take (parallelism p) (threads p)"
  assume none: "\<not> (\<exists>i < parallelism p. threads p ! i = Idle)"
  have len: "parallelism p \<le> length (threads p)" using assms(1) by (simp add: pool_ok_def)
  have "is_busy_thread w" if w: "w \<in> set ?ts" for w
  proof -
    from w obtain i where i: "i < parallelism p" "threads p ! i = w" by (auto simp: in_set_conv_nth)
    have "w \<in> set (threads p)" using w by (rule in_set_takeD)
    then have "w \<noteq> Exited" using assms(1,2) by (auto simp: pool_ok_def)
    with none i show ?thesis by (cases w) auto
  qed
  then have "filter is_busy_thread ?ts = ?ts" by simp
  then have "parallelism p = length (filter is_busy_thread ?ts)" using len by simp
  also have "\<dots> \<le> length (filter is_busy_thread (threads p))"
    by (metis append_take_drop_id filter_append length_append le_add1)
  also have "\<dots> = active p" using assms(1) by (simp add: pool_ok_def)
  finally show False using assms(3) by simp
qed

lemma oldest_can_publish:
  assumes "fifo tr p" and "completed_threads p \<noteq> {}" and "\<not> stopping p" and "length (results p) < capacity p"
  shows "\<exists>i r p'. thread_step failed p (Published i r) p'"
proof -
  from assms(1) obtain ids where o: "in_order tr ids p" by (auto simp: fifo_def)
  with assms(2) obtain i rest where ids: "ids = i # rest" by (cases ids) (auto simp: in_order_def)
  have i: "i < length (threads p)" using o by (auto simp: in_order_def ids completed_threads_def)
  have "threads p ! i = Completed (next_publication p) (completions tr ! length (published tr))"
    using o assms(1) by (auto simp: in_order_def ids fifo_def)
  from thread_step.publish [OF i this assms(3,4) refl] show ?thesis by blast
qed

lemma new_pool_balanced:
  assumes "new_pool alloc starts opts = Ok p"
  shows "balanced [] p"
proof -
  from new_pool_ok [OF assms] have "pool_ok p" "fifo [] p" by auto
  moreover have "active p = 0"
    using assms by (auto simp: new_pool_def empty_pool_def resize_def split: if_splits prod.splits sum.splits)
  ultimately have "filter is_busy_thread (threads p) = []" by (simp add: pool_ok_def)
  then have "filter is_processing (threads p) = []"
    by (auto simp: filter_empty_conv) (metis is_busy_thread.simps(1) is_processing.elims(2))
  then show ?thesis by (simp add: balanced_def processing_count_def)
qed

section \<open>Properties\<close>

text \<open>A run of a pool with one thread: one request is accepted, started and finished, or the pool stops.\<close>

definition sample_pool :: "(nat, nat) pool" where
  "sample_pool = \<lparr>capacity = 8, requests = [], results = [], active = 0, parallelism = 1, stopping = False,
     next_completion = 0, next_publication = 0, threads = [Idle]\<rparr>"

definition busy_pool :: "(nat, nat) pool" where
  "busy_pool = sample_pool\<lparr>active := 1, threads := [Processing 5]\<rparr>"

definition waiting_pool :: "(nat, nat) pool" where
  "waiting_pool = sample_pool\<lparr>active := 1, next_completion := 1, threads := [Completed 0 7]\<rparr>"

definition stopped_pool :: "(nat, nat) pool" where
  "stopped_pool = busy_pool\<lparr>stopping := True\<rparr>"

lemmas sample_pool_defs = sample_pool_def busy_pool_def waiting_pool_def stopped_pool_def

lemma sample_pool_new: "new_pool (\<lambda>_. True) (\<lambda>_. True) default_worker_options = Ok sample_pool"
  by (simp add: new_pool_def default_worker_options_def validate_parallelism_def require_def max_parallelism_def
      resize_def empty_pool_def sample_pool_def)

lemma busy_run: "pool_run (\<lambda>_. 0) sample_pool [Enqueued 5, Started 0 5] busy_pool"
proof -
  let ?p = "sample_pool\<lparr>requests := [5]\<rparr>"
  have "owner_step sample_pool (Enqueued 5) ?p"
    by (rule owner_step.intros(1)) (simp add: enqueue_def sample_pool_def)
  moreover have "thread_step (\<lambda>_. 0) ?p (Started 0 5) busy_pool"
    using thread_step.start [of 0 ?p 5 "[]" "\<lambda>_. 0"] by (simp add: sample_pool_defs set_thread_def)
  ultimately show ?thesis
    using run_snoc [OF run_snoc [OF run_nil [of "\<lambda>_. 0" sample_pool]], of "Enqueued 5" ?p "Started 0 5" busy_pool]
    by (simp add: pool_step_def)
qed

lemma waiting_run: "pool_run (\<lambda>_. 0) sample_pool [Enqueued 5, Started 0 5, Finished 0 7] waiting_pool"
proof -
  have "thread_step (\<lambda>_. 0) busy_pool (Finished 0 7) waiting_pool"
    using thread_step.finish [of 0 busy_pool 5 7 "\<lambda>_. 0" 5 "Some 7"]
    by (simp add: sample_pool_defs set_thread_def attempt_output_def)
  from run_snoc [OF busy_run, unfolded pool_step_def, OF disjI1, OF this] show ?thesis by simp
qed

lemma stopped_run: "pool_run (\<lambda>_. 0) sample_pool [Enqueued 5, Started 0 5, Stopped] stopped_pool"
proof -
  have "owner_step busy_pool Stopped stopped_pool"
    by (rule owner_step.intros(7)) (simp add: cancel_pending_def sample_pool_defs)
  from run_snoc [OF busy_run, unfolded pool_step_def, OF disjI2, OF this] show ?thesis by simp
qed

text \<open>
  C37: Results leave the pool in the order in which their attempts finished, and nothing is lost or
  duplicated: while the pool runs, the outputs of the finished attempts are, in that order, those that
  were taken, those in the result queue and those that wait for result space; the accepted requests
  are, in order, those that were started and those in the queue; and every started request is either
  finished or being processed. All this for any interleaving of the threads with the owner, any
  panics of the processing, resizing and full queues, and any number of completions, wrapped tickets
  included.
\<close>

theorem results_keep_completion_order:
  assumes "new_pool alloc starts opts = Ok p" and "pool_run failed p tr p'" and "\<not> stopping p'"
  shows "\<exists>waiting. completions tr = taken tr @ results p' @ waiting \<and>
     length waiting = card (completed_threads p') \<and> accepted tr = started tr @ requests p' \<and>
     length (started tr) = length (completions tr) + processing_count p'"
proof -
  from new_pool_ok [OF assms(1)] run_ok [OF assms(2)] assms(3) have f: "fifo tr p'" by blast
  then obtain ids where o: "in_order tr ids p'" and "length (completions tr) = length (published tr) + length ids"
    by (auto simp: fifo_def)
  moreover have "length ids = card (completed_threads p')"
    using o distinct_card [of ids] by (simp add: in_order_def)
  moreover have "completions tr = published tr @ drop (length (published tr)) (completions tr)"
    using f unfolding fifo_def by (metis append_take_drop_id)
  moreover have "balanced tr p'" by (rule balanced_run [OF assms(2) new_pool_balanced [OF assms(1)]])
  moreover have "published tr = taken tr @ results p'" "accepted tr = started tr @ requests p'"
    using f unfolding fifo_def by blast+
  ultimately show ?thesis
    by (intro exI [of _ "drop (length (published tr)) (completions tr)"]) (simp add: balanced_def)
qed

theorem results_keep_completion_order_witness:
  "\<exists>waiting. completions [Enqueued (5::nat), Started 0 5, Finished 0 (7::nat)] = waiting \<and> length waiting = card (completed_threads waiting_pool)"
proof -
  have "\<not> stopping waiting_pool" by (simp add: sample_pool_defs)
  from results_keep_completion_order [OF sample_pool_new waiting_run this] show ?thesis
    by (auto simp: sample_pool_defs taken_def)
qed

text \<open>
  C38: The pool does not get stuck and stays within its bounds. While it runs it owns at most 32
  threads, the active count is the number of threads with an attempt, and whenever the guards of the
  source allow progress some thread can make it: with a waiting request and a free slot, a thread
  below the current parallelism is idle and can start the oldest request, also after shrinking; with
  result space, the oldest completion can be published.
\<close>

theorem pool_makes_progress:
  assumes "new_pool alloc starts opts = Ok p" and "pool_run failed p tr p'" and "\<not> stopping p'"
  shows "active p' = length (filter is_busy_thread (threads p')) \<and> parallelism p' \<le> length (threads p') \<and>
     length (threads p') \<le> 32 \<and>
     (requests p' \<noteq> [] \<and> active p' < parallelism p' \<longrightarrow>
        (\<exists>i p''. i < parallelism p' \<and> thread_step failed p' (Started i (hd (requests p'))) p'')) \<and>
     (completed_threads p' \<noteq> {} \<and> length (results p') < capacity p' \<longrightarrow>
        (\<exists>i r p''. thread_step failed p' (Published i r) p''))"
proof -
  from new_pool_ok [OF assms(1)] run_ok [OF assms(2)] assms(3) have ok: "pool_ok p'" and f: "fifo tr p'" by blast+
  have "\<exists>i p''. i < parallelism p' \<and> thread_step failed p' (Started i (hd (requests p'))) p''"
    if r: "requests p' \<noteq> []" and a: "active p' < parallelism p'"
  proof -
    obtain i where i: "i < parallelism p'" "threads p' ! i = Idle" using idle_thread_exists [OF ok assms(3) a] by blast
    moreover have "i < length (threads p')" using i ok by (simp add: pool_ok_def)
    moreover have "requests p' = hd (requests p') # tl (requests p')" using r by simp
    ultimately show ?thesis using thread_step.start [OF _ _ assms(3) _ a] by blast
  qed
  then show ?thesis using ok oldest_can_publish [OF f _ assms(3)] by (auto simp: pool_ok_def max_parallelism_def)
qed

theorem pool_makes_progress_witness: "\<exists>i r p. thread_step (\<lambda>_. 0) waiting_pool (Published i r) p"
proof -
  have r: "\<not> stopping waiting_pool" "length (results waiting_pool) < capacity waiting_pool" by (simp_all add: sample_pool_defs)
  moreover have "0 \<in> completed_threads waiting_pool" by (simp add: completed_threads_def sample_pool_defs)
  ultimately show ?thesis using pool_makes_progress [OF sample_pool_new waiting_run r(1)] by blast
qed

text \<open>
  C39: Shutdown ends. Once the pool is stopping it holds no request and no result, every further step
  of a thread brings it nearer to its end by a measure that starts at no more than 64, and when no
  thread can move all have left and none is active, so joining them returns.
\<close>

theorem shutdown_joins_threads:
  assumes "new_pool alloc starts opts = Ok p" and "pool_run failed p tr p'" and "stopping p'"
  shows "requests p' = [] \<and> results p' = [] \<and> remaining p' \<le> 64 \<and>
     (\<forall>e p''. thread_step failed p' e p'' \<longrightarrow> stopping p'' \<and> remaining p'' < remaining p') \<and>
     ((\<forall>e p''. \<not> thread_step failed p' e p'') \<longrightarrow> set (threads p') \<subseteq> {Exited} \<and> active p' = 0)"
proof -
  have init: "pool_ok p \<and> fifo [] p" "drained p" using new_pool_ok [OF assms(1)] by (auto simp: drained_def)
  from run_ok [OF assms(2)] init have ok: "pool_ok p'" by blast
  have "drained p'" using drained_run [OF assms(2) init(2)] .
  moreover have "sum_list (map to_do ts) \<le> 2 * length ts" for ts :: "('a, 'b) worker_state list"
  proof (induction ts)
    case (Cons t ts)
    then show ?case by (cases t) auto
  qed simp
  then have "remaining p' \<le> 2 * length (threads p')" by (simp add: remaining_def)
  then have "remaining p' \<le> 64" using ok by (simp add: pool_ok_def max_parallelism_def)
  moreover have "active p' = 0" if "set (threads p') \<subseteq> {Exited}"
  proof -
    have "filter is_busy_thread (threads p') = []" using that by (auto simp: filter_empty_conv)
    with ok show ?thesis by (simp add: pool_ok_def)
  qed
  ultimately show ?thesis
    using assms(3) stopping_thread_step [of failed p'] stuck_threads_exited [of failed p'] by (auto simp: drained_def)
qed

theorem shutdown_joins_threads_witness: "requests stopped_pool = [] \<and> remaining stopped_pool \<le> 64"
proof -
  have "stopping stopped_pool" by (simp add: sample_pool_defs)
  from shutdown_joins_threads [OF sample_pool_new stopped_run this] show ?thesis by blast
qed

end
