(* ===== verification/Worker_Answers.thy ===== *)
theory Worker_Answers
  imports Workers "HOL-Library.Multiset"
begin

text \<open>
  What a task on the worker pool owes to its requests (\<open>rust/src/workers.rs\<close>, the trait \<open>Processor\<close>):
  its output, also the one it makes after a panic, carries the key of the request. The interface
  \<open>answering\<close> states this law once; under it no result that leaves the pool is without its own accepted
  request.
\<close>

text \<open>
  A step of the pool whose finished attempt runs \<open>task\<close> on the request of the thread, and whose requests
  passed the test \<open>admits\<close> of the adapter that owns the pool.
\<close>

definition worker_event ::
  "('q \<Rightarrow> bool) \<Rightarrow> ('q \<Rightarrow> 'r) \<Rightarrow> ('q \<Rightarrow> 'o \<Rightarrow> 'r option) \<Rightarrow> ('q, 'r) pool \<Rightarrow> ('q, 'r) event \<Rightarrow> bool" where
  "worker_event admits failed task p e \<longleftrightarrow> (case e of
      Finished i r \<Rightarrow> (\<exists>q x. threads p ! i = Processing q \<and> r = attempt_output failed q (task q x))
    | Enqueued q \<Rightarrow> admits q | Refused q _ \<Rightarrow> admits q | _ \<Rightarrow> True)"

inductive worker_run ::
  "('q \<Rightarrow> bool) \<Rightarrow> ('q \<Rightarrow> 'r) \<Rightarrow> ('q \<Rightarrow> 'o \<Rightarrow> 'r option) \<Rightarrow> ('q, 'r) pool \<Rightarrow> ('q, 'r) event list \<Rightarrow>
     ('q, 'r) pool \<Rightarrow> bool"
  for admits failed task where
  worker_nil: "worker_run admits failed task p [] p"
| worker_snoc: "worker_run admits failed task p tr p' \<Longrightarrow> pool_step failed p' e p'' \<Longrightarrow>
    worker_event admits failed task p' e \<Longrightarrow> worker_run admits failed task p (tr @ [e]) p''"

lemma worker_run_pool_run: "worker_run admits failed task p tr p' \<Longrightarrow> pool_run failed p tr p'"
  by (induction rule: worker_run.induct) (auto intro: pool_run.intros)

lemma worker_run_admits: "worker_run admits failed task p tr p' \<Longrightarrow> list_all admits (accepted tr)"
  by (induction rule: worker_run.induct) (auto simp: worker_event_def split: event.splits)

text \<open>What the threads hold, counted by \<open>f\<close>: the keys of the requests in process, or the finished outputs.\<close>

definition tally :: "(('q, 'r) worker_state \<Rightarrow> 'k multiset) \<Rightarrow> ('q, 'r) pool \<Rightarrow> 'k multiset" where
  "tally f p = sum_list (map f (threads p))"

fun processing_keys :: "('q \<Rightarrow> 'k) \<Rightarrow> ('q, 'r) worker_state \<Rightarrow> 'k multiset" where
  "processing_keys k (Processing q) = {#k q#}"
| "processing_keys k _ = {#}"

fun finished_output :: "('q, 'r) worker_state \<Rightarrow> 'r multiset" where
  "finished_output (Completed _ r) = {#r#}"
| "finished_output _ = {#}"

lemma tally_update:
  "i < length (threads p) \<Longrightarrow> tally f (set_thread i w p) + f (threads p ! i) = tally f p + f w"
proof -
  have "i < length ts \<Longrightarrow> sum_list (map f (ts[i := w])) + f (ts ! i) = sum_list (map f ts) + f w" for ts
  proof (induction ts arbitrary: i)
    case (Cons t ts)
    then show ?case by (cases i) (auto simp: ac_simps)
  qed simp
  then show "i < length (threads p) \<Longrightarrow> ?thesis" by (simp add: tally_def)
qed

lemma tally_other [simp]:
  "tally f (p\<lparr>active := a\<rparr>) = tally f p" "tally f (p\<lparr>requests := qs\<rparr>) = tally f p"
  "tally f (p\<lparr>next_completion := t\<rparr>) = tally f p" "tally f (p\<lparr>results := rs\<rparr>) = tally f p"
  "tally f (p\<lparr>next_publication := t\<rparr>) = tally f p"
  by (simp_all add: tally_def)

lemma tally_owner:
  assumes "owner_step p e p'" and "f Idle = {#}"
  shows "tally f p' = tally f p"
  using assms(1)
proof cases
  case (5 starts n res)
  have "sum_list (replicate m {#}) = {#}" for m by (induction m) auto
  with resize_shape [OF 5(2)] 5 assms(2) show ?thesis by (auto simp: tally_def)
qed (auto simp: tally_def enqueue_def try_take_result_def update_queue_capacity_def cancel_pending_def
    split: if_splits list.splits)

text \<open>Whatever happens, a taken result was finished before, and a started request was accepted.\<close>

definition conserved :: "('q, 'r) event list \<Rightarrow> ('q, 'r) pool \<Rightarrow> bool" where
  "conserved tr p \<longleftrightarrow>
     mset (taken tr) + (mset (results p) + tally finished_output p) \<subseteq># mset (completions tr) \<and>
     mset (started tr) + mset (requests p) \<subseteq># mset (accepted tr)"

lemma mset_add_drop: "add_mset x M \<subseteq># N \<Longrightarrow> M \<subseteq># N"
  by (meson subset_mset.order_trans mset_subset_eq_add_mset_cancel subset_mset.order_refl multi_psub_of_add_self subset_mset.less_imp_le)

lemma conserved_thread:
  assumes "thread_step failed p e p'" and "conserved tr p"
  shows "conserved (tr @ [e]) p'"
  using assms(1)
proof cases
  case (start i q qs)
  then show ?thesis using tally_update [of i p finished_output "Processing q"] assms(2)
    by (simp add: conserved_def set_thread_def tally_def)
next
  case (leave i)
  then show ?thesis using tally_update [of i p finished_output Exited] assms(2) by (simp add: conserved_def)
next
  case (finish i q r q' returned)
  then show ?thesis
    using tally_update [of i "p\<lparr>next_completion := next_completion p + 1\<rparr>" finished_output "Completed (next_completion p) r"] assms(2)
    by (simp add: conserved_def)
next
  case (publish i t r)
  then have "tally finished_output p = add_mset r (tally finished_output p')"
    using tally_update [of i "p\<lparr>active := active p - 1, results := results p @ [r],
        next_publication := next_publication p + 1\<rparr>" finished_output Idle] by simp
  with publish assms(2) show ?thesis by (simp add: conserved_def)
next
  case (discard i t r)
  then have "tally finished_output p = add_mset r (tally finished_output p')"
    using tally_update [of i "p\<lparr>active := active p - 1\<rparr>" finished_output Exited] by simp
  with discard assms(2) show ?thesis
    by (simp add: conserved_def) (meson mset_add_drop)
qed

lemma conserved_owner:
  assumes "owner_step p e p'" and "conserved tr p"
  shows "conserved (tr @ [e]) p'"
proof -
  have t: "tally finished_output p' = tally finished_output p" by (rule tally_owner [OF assms(1)]) simp
  show ?thesis
    using assms(1)
  proof cases
    case (5 starts n res)
    from resize_shape [OF 5(2)] assms(2) t 5 show ?thesis by (auto simp: conserved_def)
  next
    case 7
    with assms(2) t show ?thesis
      by (auto simp: conserved_def cancel_pending_def split: if_splits
          intro: subset_mset.order_trans [rotated])
  qed (use assms(2) t in \<open>auto simp: conserved_def enqueue_def try_take_result_def update_queue_capacity_def
      split: if_splits list.splits\<close>)
qed

lemma conserved_run: "pool_run failed p tr p' \<Longrightarrow> conserved [] p \<Longrightarrow> conserved tr p'"
  by (induction rule: pool_run.induct) (auto simp: pool_step_def intro: conserved_thread conserved_owner)

lemma new_pool_shape:
  assumes "new_pool alloc starts opts = Ok p"
  shows "results p = [] \<and> requests p = [] \<and> (\<exists>m. threads p = replicate m Idle)"
  using assms
  by (auto simp: new_pool_def empty_pool_def split: if_splits prod.splits sum.splits dest!: resize_shape)

lemma replicate_idle: "f Idle = {#} \<Longrightarrow> sum_list (map f (replicate m Idle)) = {#}"
  by (induction m) auto

lemma new_pool_conserved: "new_pool alloc starts opts = Ok p \<Longrightarrow> conserved [] p"
  by (auto dest!: new_pool_shape simp: conserved_def tally_def replicate_idle simp del: map_replicate)

lemma new_pool_idle: "new_pool alloc starts opts = Ok p \<Longrightarrow> tally (processing_keys k) p = {#}"
  by (auto dest!: new_pool_shape simp: tally_def replicate_idle simp del: map_replicate)

lemma distinct_submultiset: "mset xs \<subseteq># mset ys \<Longrightarrow> distinct ys \<Longrightarrow> distinct xs"
  unfolding distinct_count_atmost_1
  by (metis count_mset_0_iff le_zero_eq mset_subset_eq_count nat_le_linear not_less_eq_eq One_nat_def le_antisym)

locale answering =
  fixes failed :: "'q \<Rightarrow> 'r"
    and task :: "'q \<Rightarrow> 'o \<Rightarrow> 'r option"
    and qkey :: "'q \<Rightarrow> 'k"
    and rkey :: "'r \<Rightarrow> 'k"
  assumes answer_key: "rkey (attempt_output failed q (task q x)) = qkey q"
begin

lemma step_answers:
  assumes "pool_step failed p e p'" and "worker_event admits failed task p e"
    and "mset (map rkey (completions tr)) + tally (processing_keys qkey) p = mset (map qkey (started tr))"
  shows "mset (map rkey (completions (tr @ [e]))) + tally (processing_keys qkey) p' = mset (map qkey (started (tr @ [e])))"
proof -
  from assms(1) consider "thread_step failed p e p'" | "owner_step p e p'" by (auto simp: pool_step_def)
  then show ?thesis
  proof cases
    case 1
    then show ?thesis
    proof cases
      case (start i q qs)
      then show ?thesis using tally_update [of i p "processing_keys qkey" "Processing q"] assms(3)
        by (simp add: set_thread_def tally_def)
    next
      case (leave i)
      then show ?thesis using tally_update [of i p "processing_keys qkey" Exited] assms(3) by simp
    next
      case (finish i q r q' returned)
      from finish(1,4) assms(2) obtain x where "r = attempt_output failed q (task q x)"
        by (auto simp: worker_event_def)
      then have r: "rkey r = qkey q" by (simp add: answer_key)
      have "tally (processing_keys qkey) p = add_mset (qkey q) (tally (processing_keys qkey) p')"
        using finish tally_update [of i "p\<lparr>next_completion := next_completion p + 1\<rparr>" "processing_keys qkey"
            "Completed (next_completion p) r"] by simp
      moreover have "completions (tr @ [e]) = completions tr @ [r]" "started (tr @ [e]) = started tr"
        using finish by simp_all
      ultimately show ?thesis using assms(3) by (simp add: r)
    next
      case (publish i t r)
      then show ?thesis
        using tally_update [of i "p\<lparr>active := active p - 1, results := results p @ [r],
            next_publication := next_publication p + 1\<rparr>" "processing_keys qkey" Idle] assms(3) by simp
    next
      case (discard i t r)
      then show ?thesis using tally_update [of i "p\<lparr>active := active p - 1\<rparr>" "processing_keys qkey" Exited] assms(3) by simp
    qed
  next
    case 2
    then show ?thesis using tally_owner [OF 2, of "processing_keys qkey"] assms(3) by (auto elim: owner_step.cases)
  qed
qed

lemma run_answers:
  "worker_run admits failed task p tr p' \<Longrightarrow> tally (processing_keys qkey) p = {#} \<Longrightarrow>
     mset (map rkey (completions tr)) + tally (processing_keys qkey) p' = mset (map qkey (started tr))"
  by (induction rule: worker_run.induct) (auto dest: step_answers)

text \<open>Every result that was taken has an accepted request of its own with the same key.\<close>

lemma results_have_requests:
  assumes "new_pool alloc starts opts = Ok p" and "worker_run admits failed task p tr p'"
  shows "mset (map rkey (taken tr)) \<subseteq># mset (map qkey (accepted tr))"
proof -
  have c: "conserved tr p'"
    using new_pool_conserved [OF assms(1)] worker_run_pool_run [OF assms(2)] by (blast intro: conserved_run)
  have "mset (taken tr) \<subseteq># mset (completions tr)"
    using c by (auto simp: conserved_def intro: subset_mset.order_trans [OF mset_subset_eq_add_left])
  then have "mset (map rkey (taken tr)) \<subseteq># mset (map rkey (completions tr))"
    by (simp add: image_mset_subseteq_mono)
  also have "\<dots> \<subseteq># mset (map qkey (started tr))"
    using run_answers [OF assms(2) new_pool_idle [OF assms(1)]] by (metis mset_subset_eq_add_left)
  also have "mset (started tr) \<subseteq># mset (accepted tr)"
    using c by (auto simp: conserved_def intro: subset_mset.order_trans [OF mset_subset_eq_add_left])
  then have "mset (map qkey (started tr)) \<subseteq># mset (map qkey (accepted tr))"
    by (simp add: image_mset_subseteq_mono)
  finally show ?thesis .
qed

lemma results_distinct:
  assumes "new_pool alloc starts opts = Ok p" and "worker_run admits failed task p tr p'"
    and "distinct (map qkey (accepted tr))"
  shows "distinct (map rkey (taken tr))"
  using results_have_requests [OF assms(1,2)] assms(3) by (rule distinct_submultiset)

end

end
