(* ===== verification/Parser_Worker.thy ===== *)
theory Parser_Worker
  imports Worker_Answers Ports Zevtc
begin

text \<open>
  The metadata parser on a worker pool (\<open>rust/src/evtc/metadata_parser_worker.rs\<close>): the task that its
  thread runs, with the archive reader of \<open>Zevtc\<close>, and the operations of the port, which translate the
  errors of the pool.
\<close>

type_synonym parser_pool = "(metadata_request, metadata_result) pool"

text \<open>\<open>parse\<close> is the reader: it returns or panics (\<open>None\<close>).\<close>

definition process_request ::
  "(log_file_identity \<Rightarrow> (metadata_error, encounter_metadata) result option) \<Rightarrow> metadata_request \<Rightarrow>
     metadata_result option" where
  "process_request parse q =
     map_option (\<lambda>m. \<lparr>parsed_job_id = meta_job_id q, parsed_metadata = m\<rparr>) (parse (meta_file q))"

definition parse_failed :: "metadata_request \<Rightarrow> metadata_result" where
  "parse_failed q = \<lparr>parsed_job_id = meta_job_id q, parsed_metadata = Err Internal\<rparr>"

definition new_parser_worker ::
  "(nat \<Rightarrow> bool) \<Rightarrow> (nat \<Rightarrow> bool) \<Rightarrow> nat \<Rightarrow> (worker_error, parser_pool) result" where
  "new_parser_worker alloc starts n = new_pool alloc starts \<lparr>queue_capacity = n, option_parallelism = 1\<rparr>"

definition parser_error_of :: "worker_error \<Rightarrow> parser_error" where
  "parser_error_of e = (case e of
      WorkerStopping \<Rightarrow> ParserStopping | InvalidCapacity \<Rightarrow> ParserInvalidRequest | _ \<Rightarrow> ParserUnavailable)"

definition parser_update_capacity ::
  "(nat \<Rightarrow> bool) \<Rightarrow> nat \<Rightarrow> parser_pool \<Rightarrow> (parser_error, unit) result \<times> parser_pool" where
  "parser_update_capacity alloc n p =
     (if \<not> (1 \<le> n \<and> n \<le> 64) then (Err ParserInvalidRequest, p)
      else case update_queue_capacity alloc n p of (r, p') \<Rightarrow> (map_err parser_error_of r, p'))"

definition queue_parser_error :: "queue_error \<Rightarrow> parser_error" where
  "queue_parser_error e = (case e of Full \<Rightarrow> ParserQueueFull | QueueStopping \<Rightarrow> ParserStopping)"

definition parser_enqueue ::
  "metadata_request \<Rightarrow> parser_pool \<Rightarrow> (parser_error, unit) result \<times> parser_pool" where
  "parser_enqueue q p =
     (if canonical_path (meta_file q) = [] then (Err ParserInvalidRequest, p)
      else case enqueue q p of (r, p') \<Rightarrow> (map_err queue_parser_error r, p'))"

definition parser_available :: "parser_pool \<Rightarrow> nat" where
  "parser_available p = available_capacity p"

definition parser_take :: "parser_pool \<Rightarrow> (parser_error, metadata_result option) result \<times> parser_pool" where
  "parser_take p = (case try_take_result p of (r, p') \<Rightarrow> (Ok r, p'))"

definition parser_cancel :: "parser_pool \<Rightarrow> parser_pool" where
  "parser_cancel p = cancel_pending p"

text \<open>Every attempt, also one that panics, answers for the job of its request.\<close>

lemma attempt_answers_job:
  "parsed_job_id (attempt_output parse_failed q (process_request parse q)) = meta_job_id q"
  by (cases "parse (meta_file q)") (simp_all add: attempt_output_def process_request_def parse_failed_def)

interpretation parsing: answering parse_failed "\<lambda>q x. process_request (\<lambda>_. x) q" meta_job_id parsed_job_id
  by unfold_locales (rule attempt_answers_job)

text \<open>The capacity that the port announces is the one that admission uses.\<close>

lemma available_means_accepted:
  assumes "0 < parser_available p" and "canonical_path (meta_file q) \<noteq> []"
  shows "fst (parser_enqueue q p) = Ok () \<and> parser_available (snd (parser_enqueue q p)) = parser_available p - 1"
  using assms by (auto simp: parser_available_def available_capacity_def parser_enqueue_def enqueue_def split: if_splits)

lemma enqueue_refused:
  assumes "fst (parser_enqueue q p) = Err e"
  shows "snd (parser_enqueue q p) = p \<and> (canonical_path (meta_file q) = [] \<or> parser_available p = 0)"
  using assms by (auto simp: parser_enqueue_def enqueue_def parser_available_def available_capacity_def split: if_splits)

end
