(* ===== verification/Paths.thy ===== *)
theory Paths
  imports Upload_Job Bytes
begin

text \<open>
  What the program uses of \<open>std::path\<close> on Windows: the components of a path text
  (\<open>Path::components\<close>, with \<open>parse_prefix\<close> and \<open>parse_next_component\<close> of the standard library), the
  text of a path, and \<open>validate_storage_path\<close> of \<open>rust/src/application/storage.rs\<close>. Paths are values
  up to their components (\<open>Upload_Job\<close>), so the text of a path is the spelling of its components with
  single backslashes, which is the spelling of a canonical path.
\<close>

section \<open>Separators\<close>

definition backslash :: char where
  "backslash = CHR 0x5C"

definition is_verbatim_sep :: "char \<Rightarrow> bool" where
  "is_verbatim_sep c \<longleftrightarrow> c = backslash"

definition is_sep :: "char \<Rightarrow> bool" where
  "is_sep c \<longleftrightarrow> c = CHR ''/'' \<or> c = backslash"

fun split_on :: "(char \<Rightarrow> bool) \<Rightarrow> string \<Rightarrow> string list" where
  "split_on p [] = [[]]"
| "split_on p (c # cs) =
     (if p c then [] # split_on p cs
      else case split_on p cs of [] \<Rightarrow> [[c]] | seg # segs \<Rightarrow> (c # seg) # segs)"

definition next_component :: "(char \<Rightarrow> bool) \<Rightarrow> string \<Rightarrow> string \<times> string" where
  "next_component p s = (takeWhile (Not \<circ> p) s, tl (dropWhile (Not \<circ> p) s))"

lemma next_component_stop:
  "\<forall>c \<in> set n. \<not> p c \<Longrightarrow> p s \<Longrightarrow> next_component p (n @ s # r) = (n, r)"
  by (simp add: next_component_def takeWhile_append2 dropWhile_append2)

lemma next_component_end: "\<forall>c \<in> set n. \<not> p c \<Longrightarrow> next_component p n = (n, [])"
  by (simp add: next_component_def takeWhile_eq_all_conv [THEN iffD2] dropWhile_eq_Nil_conv [THEN iffD2])

lemma split_on_free: "\<forall>c \<in> set n. \<not> p c \<Longrightarrow> split_on p n = [n]"
  by (induction n) auto

lemma split_on_step: "\<forall>c \<in> set n. \<not> p c \<Longrightarrow> p s \<Longrightarrow> split_on p (n @ s # r) = n # split_on p r"
  by (induction n) auto

section \<open>Prefixes\<close>

text \<open>The first eight bytes are compared with slashes read as backslashes.\<close>

definition normalize_sep :: "char \<Rightarrow> char" where
  "normalize_sep c = (if c = CHR ''/'' then backslash else c)"

definition strip_normalized :: "string \<Rightarrow> string \<Rightarrow> string option" where
  "strip_normalized p s =
     (if map normalize_sep (take (length p) s) = p then Some (drop (length p) s) else None)"

definition parse_drive :: "string \<Rightarrow> char option" where
  "parse_drive s =
     (case s of
        d # c # _ \<Rightarrow>
          if (is_lower d \<or> is_upper d) \<and> c = CHR '':''
          then Some (if is_lower d then char_of (byte d - 32) else d) else None
      | _ \<Rightarrow> None)"

definition parse_drive_exact :: "string \<Rightarrow> char option" where
  "parse_drive_exact s =
     (case drop 2 s of [] \<Rightarrow> parse_drive s | c # _ \<Rightarrow> if is_sep c then parse_drive s else None)"

definition server_share :: "(char \<Rightarrow> bool) \<Rightarrow> string \<Rightarrow> string \<times> string" where
  "server_share p s =
     (case next_component p s of (server, r) \<Rightarrow> (server, fst (next_component p r)))"

definition parse_prefix :: "string \<Rightarrow> path_prefix option" where
  "parse_prefix s =
     (case strip_normalized [backslash, backslash] s of
        None \<Rightarrow> map_option Disk (parse_drive s)
      | Some s1 \<Rightarrow>
          (case (if CHR ''/'' \<in> set (take 4 s) then None
                 else strip_normalized [CHR ''?'', backslash] s1) of
             Some s2 \<Rightarrow>
               (case strip_normalized (''UNC'' @ [backslash]) s2 of
                  Some s3 \<Rightarrow>
                    (case server_share is_verbatim_sep s3 of (a, b) \<Rightarrow> Some (VerbatimUNC a b))
                | None \<Rightarrow>
                    (case parse_drive_exact s2 of
                       Some d \<Rightarrow> Some (VerbatimDisk d)
                     | None \<Rightarrow> Some (Verbatim (fst (next_component is_verbatim_sep s2)))))
           | None \<Rightarrow>
               (case strip_normalized [CHR ''.'', backslash] s1 of
                  Some s2 \<Rightarrow> Some (DeviceNS (fst (next_component is_sep s2)))
                | None \<Rightarrow>
                    (case server_share is_sep s1 of
                       (a, b) \<Rightarrow> if a \<noteq> [] \<and> b \<noteq> [] then Some (UNC a b) else None))))"

definition share_len :: "string \<Rightarrow> nat" where
  "share_len b = (if b = [] then 0 else 1 + length b)"

fun prefix_len :: "path_prefix \<Rightarrow> nat" where
  "prefix_len (Verbatim s) = 4 + length s"
| "prefix_len (VerbatimUNC a b) = 8 + length a + share_len b"
| "prefix_len (VerbatimDisk _) = 6"
| "prefix_len (DeviceNS s) = 4 + length s"
| "prefix_len (UNC a b) = 2 + length a + share_len b"
| "prefix_len (Disk _) = 2"

fun prefix_verbatim :: "path_prefix \<Rightarrow> bool" where
  "prefix_verbatim (Verbatim _) = True"
| "prefix_verbatim (VerbatimUNC _ _) = True"
| "prefix_verbatim (VerbatimDisk _) = True"
| "prefix_verbatim _ = False"

fun prefix_drive :: "path_prefix \<Rightarrow> bool" where
  "prefix_drive (Disk _) = True"
| "prefix_drive _ = False"

section \<open>Components\<close>

definition single_component :: "bool \<Rightarrow> string \<Rightarrow> path_component option" where
  "single_component verbatim c =
     (if c = ''.'' then (if verbatim then Some CurDir else None)
      else if c = ''..'' then Some ParentDir
      else if c = [] then None else Some (Normal c))"

definition body :: "bool \<Rightarrow> string \<Rightarrow> path" where
  "body verbatim s =
     List.map_filter (single_component verbatim) (split_on (if verbatim then is_verbatim_sep else is_sep) s)"

definition include_cur_dir :: "string \<Rightarrow> bool" where
  "include_cur_dir s = (case s of c # r \<Rightarrow> c = CHR ''.'' \<and> (r = [] \<or> is_sep (hd r)) | [] \<Rightarrow> False)"

definition parse_path :: "string \<Rightarrow> path" where
  "parse_path s =
     (let prefix = parse_prefix s;
          rest = (case prefix of None \<Rightarrow> s | Some p \<Rightarrow> drop (prefix_len p) s);
          verbatim = (case prefix of None \<Rightarrow> False | Some p \<Rightarrow> prefix_verbatim p)
      in (case prefix of None \<Rightarrow> [] | Some p \<Rightarrow> [PrefixComponent p]) @
         (if rest \<noteq> [] \<and> is_sep (hd rest) then RootDir # body verbatim (tl rest)
          else case prefix of
            Some p \<Rightarrow>
              (if \<not> prefix_drive p \<and> \<not> prefix_verbatim p then [RootDir] else []) @ body verbatim rest
          | None \<Rightarrow> if include_cur_dir rest then CurDir # body verbatim (tl rest) else body verbatim rest))"

text \<open>\<open>Path::file_name\<close>: the last component when it is a normal one.\<close>

definition file_name :: "path \<Rightarrow> string option" where
  "file_name p = (if p = [] then None else case last p of Normal n \<Rightarrow> Some n | _ \<Rightarrow> None)"

section \<open>The text of a path\<close>

fun prefix_text :: "path_prefix \<Rightarrow> string" where
  "prefix_text (Verbatim s) = [backslash, backslash, CHR ''?'', backslash] @ s"
| "prefix_text (VerbatimUNC a b) =
     [backslash, backslash, CHR ''?'', backslash] @ ''UNC'' @ [backslash] @ a @ [backslash] @ b"
| "prefix_text (VerbatimDisk d) = [backslash, backslash, CHR ''?'', backslash, d, CHR '':'']"
| "prefix_text (DeviceNS s) = [backslash, backslash, CHR ''.'', backslash] @ s"
| "prefix_text (UNC a b) = [backslash, backslash] @ a @ [backslash] @ b"
| "prefix_text (Disk d) = [d, CHR '':'']"

fun component_text :: "path_component \<Rightarrow> string" where
  "component_text (PrefixComponent p) = prefix_text p"
| "component_text RootDir = []"
| "component_text CurDir = ''.''"
| "component_text ParentDir = ''..''"
| "component_text (Normal n) = n"

fun joined :: "path \<Rightarrow> string" where
  "joined [] = []"
| "joined [c] = component_text c"
| "joined (c # cs) = component_text c @ backslash # joined cs"

fun path_text :: "path \<Rightarrow> string" where
  "path_text (PrefixComponent p # RootDir # cs) = prefix_text p @ backslash # joined cs"
| "path_text (PrefixComponent p # cs) = prefix_text p @ joined cs"
| "path_text (RootDir # cs) = backslash # joined cs"
| "path_text cs = joined cs"

text \<open>\<open>Path::to_str\<close>: the text when it is UTF-8.\<close>

definition to_str :: "path \<Rightarrow> string option" where
  "to_str p = (if utf8_valid (of_string (path_text p)) then Some (path_text p) else None)"

section \<open>Storage paths\<close>

datatype file_error =
  FileInvalidPath | InvalidLimit | FileTooLarge | FileAllocationFailed | ReadFailed | ChangedDuringRead
| DirectoryCreateFailed | WriteFailed | FlushFailed | ReplaceFailed | DeleteFailed

definition validate_storage_path :: "string \<Rightarrow> (file_error, unit) result" where
  "validate_storage_path s =
     (let lst = last (split_on is_sep s) in
      if file_name (parse_path s) = None \<or> lst = [] \<or> lst = ''.'' \<or> lst = ''..'' \<or> CHR 0x00 \<in> set s
      then Err FileInvalidPath else Ok ())"

section \<open>Reading back what was written\<close>

definition name_ok :: "string \<Rightarrow> bool" where
  "name_ok n \<longleftrightarrow> n \<noteq> [] \<and> n \<noteq> ''.'' \<and> n \<noteq> ''..'' \<and> (\<forall>c \<in> set n. \<not> is_sep c)"

fun prefix_ok :: "path_prefix \<Rightarrow> bool" where
  "prefix_ok (Disk d) = is_upper d"
| "prefix_ok (VerbatimDisk d) = is_upper d"
| "prefix_ok (UNC a b) = (name_ok a \<and> a \<noteq> ''?'' \<and> name_ok b)"
| "prefix_ok (VerbatimUNC a b) = (name_ok a \<and> a \<noteq> ''?'' \<and> name_ok b)"
| "prefix_ok _ = False"

text \<open>
  The paths that canonicalization gives, and those of older history: a drive or a share, the root,
  and names.
\<close>

definition absolute :: "path \<Rightarrow> bool" where
  "absolute p \<longleftrightarrow>
     (\<exists>pre names. p = PrefixComponent pre # RootDir # map Normal names \<and> prefix_ok pre \<and>
        list_all name_ok names)"

lemma single_component_name [simp]: "name_ok n \<Longrightarrow> single_component v n = Some (Normal n)"
  by (simp add: single_component_def name_ok_def)

lemma joined_names:
  "list_all name_ok names \<Longrightarrow> body False (joined (map Normal names)) = map Normal names"
proof (induction names rule: induct_list012)
  case 1
  then show ?case by (simp add: body_def single_component_def)
next
  case (2 n)
  then show ?case by (simp add: body_def split_on_free name_ok_def [of n] single_component_def)
next
  case (3 n m names)
  have "\<forall>c \<in> set n. \<not> is_sep c" using 3 by (simp add: name_ok_def)
  then show ?case
    using 3 by (simp add: body_def split_on_step is_sep_def)
qed

lemma upper_not_sep: "is_upper d \<Longrightarrow> \<not> is_sep d \<and> \<not> is_lower d"
  by (auto simp: is_upper_def is_lower_def is_sep_def backslash_def byte_def)

lemma parse_prefix_Disk:
  assumes "is_upper d"
  shows "parse_prefix (d # CHR '':'' # r) = Some (Disk d)"
  using assms upper_not_sep [OF assms]
  by (auto simp: parse_prefix_def strip_normalized_def normalize_sep_def is_sep_def parse_drive_def)

lemma parse_prefix_UNC:
  assumes "name_ok a" "a \<noteq> ''?''" "name_ok b"
  shows "parse_prefix (backslash # backslash # a @ backslash # b @ backslash # r) = Some (UNC a b)"
proof -
  have free: "\<forall>c \<in> set a. \<not> is_sep c" "\<forall>c \<in> set b. \<not> is_sep c" and ne: "a \<noteq> []" "b \<noteq> []"
    using assms by (auto simp: name_ok_def)
  have s: "is_sep backslash" by (simp add: is_sep_def)
  have "strip_normalized [x, backslash] (a @ backslash # t) = None" if "a \<noteq> [x]" for x t
    using free(1) ne that
    by (cases a; cases "tl a") (auto simp: strip_normalized_def normalize_sep_def is_sep_def split: if_splits)
  moreover have "a \<noteq> ''.''" using assms by (simp add: name_ok_def)
  moreover have "strip_normalized [backslash, backslash] (backslash # backslash # t) = Some t" for t
    by (simp add: strip_normalized_def normalize_sep_def)
  ultimately show ?thesis
    using assms ne free s
    by (simp add: parse_prefix_def server_share_def next_component_stop [where p = is_sep])
qed

text \<open>The text of an absolute path without verbatim prefix has the components of the path.\<close>

lemma parse_path_text:
  assumes "absolute p" and "map identity_component p = p"
  shows "parse_path (path_text p) = p"
proof -
  from assms(1) obtain pre names where p: "p = PrefixComponent pre # RootDir # map Normal names"
    and ok: "prefix_ok pre" and names: "list_all name_ok names"
    by (auto simp: absolute_def)
  have s: "is_sep backslash" by (simp add: is_sep_def)
  from ok assms(2) p consider d where "pre = Disk d" "is_upper d"
    | a b where "pre = UNC a b" "name_ok a" "a \<noteq> ''?''" "name_ok b"
    by (cases pre) auto
  then show ?thesis
  proof cases
    case 1
    then show ?thesis
      using p s names by (simp add: parse_path_def parse_prefix_Disk joined_names Let_def)
  next
    case 2
    then have "b \<noteq> []" by (simp add: name_ok_def)
    then show ?thesis
      using 2 p s names by (simp add: parse_path_def parse_prefix_UNC joined_names Let_def share_len_def)
  qed
qed

end
