(* ===== verification/Bounded_Output.thy ===== *)
theory Bounded_Output
  imports Prelude
begin

text \<open>
  The bounded writers of \<open>rust/src/config/history_json.rs\<close> (\<open>BoundedOutput\<close>) and
  \<open>rust/src/config/settings_json.rs\<close> (\<open>BoundedDocument\<close>): a serializer's chunks up to a limit.
\<close>

record bounded_output =
  out_bytes :: string
  out_too_large :: bool

definition no_output :: bounded_output where
  "no_output = \<lparr>out_bytes = [], out_too_large = False\<rparr>"

text \<open>
  \<open>write\<close> takes all bytes or none, so \<open>write_all\<close> calls it once, and not at all for no bytes. The
  allocator answers for the new length.
\<close>

definition write_all :: "nat \<Rightarrow> (nat \<Rightarrow> bool) \<Rightarrow> string \<Rightarrow> bounded_output \<Rightarrow> bool \<times> bounded_output" where
  "write_all limit alloc bytes out =
     (if bytes = [] then (True, out)
      else if limit - length (out_bytes out) < length bytes
      then (False, out\<lparr>out_too_large := True\<rparr>)
      else if \<not> alloc (length (out_bytes out) + length bytes) then (False, out)
      else (True, out\<lparr>out_bytes := out_bytes out @ bytes\<rparr>))"

fun write_chunks :: "nat \<Rightarrow> (nat \<Rightarrow> bool) \<Rightarrow> string list \<Rightarrow> bounded_output \<Rightarrow> bool \<times> bounded_output" where
  "write_chunks limit alloc [] out = (True, out)"
| "write_chunks limit alloc (c # cs) out =
     (case write_all limit alloc c out of
        (True, out2) \<Rightarrow> write_chunks limit alloc cs out2
      | (False, out2) \<Rightarrow> (False, out2))"

lemma write_all_True:
  "write_all limit alloc bs out = (True, out2) \<Longrightarrow> length (out_bytes out) \<le> limit \<Longrightarrow>
     out_bytes out2 = out_bytes out @ bs \<and> length (out_bytes out2) \<le> limit"
  by (auto simp: write_all_def split: if_splits)

lemma write_chunks_True:
  "write_chunks limit alloc cs out = (True, out2) \<Longrightarrow> length (out_bytes out) \<le> limit \<Longrightarrow>
     out_bytes out2 = out_bytes out @ concat cs \<and> length (out_bytes out2) \<le> limit"
proof (induction cs arbitrary: out)
  case (Cons c cs)
  then obtain out1 where "write_all limit alloc c out = (True, out1)" "write_chunks limit alloc cs out1 = (True, out2)"
    by (auto split: prod.splits bool.splits)
  note step = write_all_True [OF this(1) Cons.prems(2)]
  show ?case using Cons.IH [OF \<open>write_chunks limit alloc cs out1 = (True, out2)\<close> step [THEN conjunct2]] step by auto
qed simp

end
