(* ===== verification/History.thy ===== *)
theory History
  imports Paths Bounded_Output
begin

text \<open>
  The document that keeps the upload history between game sessions
  (\<open>rust/src/config/history_json.rs\<close>, \<open>history_wire.rs\<close>): times and paths on the wire, the wire
  records with their codes, and the validation of records.

  The JSON text itself is \<open>serde_json\<close>'s: \<open>render\<close> gives the chunks that its serializer writes for a
  document, \<open>parse\<close> the document that a text holds (named fields, exact types, no unknown field), if
  any. The checks that the source adds to the deserializer (\<open>Text\<close>, \<open>logs\<close>) are definitions here. The
  range of \<open>SystemTime\<close> and the allocator are parameters.
\<close>

datatype document_error =
  DocumentCapacity | DocumentTooLarge | DocumentJson | DocumentSchema | DocumentRecord
| DocumentDuplicate | DocumentSerialization

type_synonym 'a decoded = "(document_error, 'a) result"

definition max_history_bytes :: nat where
  "max_history_bytes = 32 * 1024 * 1024"

definition max_history_records :: nat where
  "max_history_records = 10000"

section \<open>Times\<close>

text \<open>What the platform's \<open>SystemTime\<close> can hold, in nanoseconds from the Unix epoch.\<close>

record time_range =
  earliest :: system_time
  latest :: system_time

definition representable :: "time_range \<Rightarrow> system_time \<Rightarrow> bool" where
  "representable P t \<longleftrightarrow> earliest P \<le> t \<and> t \<le> latest P"

definition windows_epoch_seconds :: int where
  "windows_epoch_seconds = 11644473600"

definition ticks_per_second :: int where
  "ticks_per_second = 10000000"

definition from_nanos :: "time_range \<Rightarrow> int \<Rightarrow> system_time decoded" where
  "from_nanos P n =
     (if \<bar>n\<bar> div 1000000000 \<ge> 2 ^ 64 then Err DocumentRecord
      else if representable P n then Ok n else Err DocumentRecord)"

definition decode_file_time :: "time_range \<Rightarrow> int \<Rightarrow> system_time decoded" where
  "decode_file_time P ticks =
     (if ticks < 0 then Err DocumentRecord
      else from_nanos P ((ticks - windows_epoch_seconds * ticks_per_second) * 100))"

definition fits_i64 :: "int \<Rightarrow> bool" where
  "fits_i64 n \<longleftrightarrow> - (2 ^ 63) \<le> n \<and> n < 2 ^ 63"

definition encode_file_time :: "system_time \<Rightarrow> int decoded" where
  "encode_file_time t =
     (if t mod 100 \<noteq> 0 then Err DocumentRecord
      else let ticks = t div 100 + windows_epoch_seconds * ticks_per_second in
        if ticks < 0 then Err DocumentRecord
        else if fits_i64 ticks then Ok ticks else Err DocumentRecord)"

definition decode_detected_time :: "time_range \<Rightarrow> int \<Rightarrow> system_time decoded" where
  "decode_detected_time P ms = from_nanos P (ms * 1000000)"

text \<open>Division of signed integers rounds toward zero.\<close>

definition quotient :: "int \<Rightarrow> int \<Rightarrow> int" where
  "quotient a b = sgn a * (\<bar>a\<bar> div b)"

definition encode_detected_time :: "system_time \<Rightarrow> int decoded" where
  "encode_detected_time t =
     (if fits_i64 (quotient t 1000000) then Ok (quotient t 1000000) else Err DocumentRecord)"

lemma quotient_abs:
  assumes "0 < b"
  shows "\<bar>quotient a b\<bar> * b \<le> \<bar>a\<bar>"
proof -
  have "\<bar>a\<bar> div b * b = \<bar>a\<bar> - \<bar>a\<bar> mod b" by (simp add: minus_mod_eq_div_mult)
  then have "\<bar>a\<bar> div b * b \<le> \<bar>a\<bar>" using assms by simp
  moreover have "0 \<le> \<bar>a\<bar> div b" using assms by (simp add: pos_imp_zdiv_nonneg_iff)
  ultimately show ?thesis by (simp add: quotient_def abs_mult abs_sgn_eq)
qed

lemma quotient_sign:
  assumes "0 < b"
  shows "0 \<le> a \<Longrightarrow> 0 \<le> quotient a b * b" and "a \<le> 0 \<Longrightarrow> quotient a b * b \<le> 0"
  using assms pos_imp_zdiv_nonneg_iff [of b "\<bar>a\<bar>"]
  by (auto simp: quotient_def sgn_if mult_le_0_iff split: if_splits)

section \<open>Paths\<close>

text \<open>A verbatim drive loses its four-byte marker; a verbatim share is spelled as a plain one.\<close>

definition encode_path :: "path \<Rightarrow> string decoded" where
  "encode_path p =
     and_then (ok_or DocumentRecord (to_str p)) (\<lambda>t.
       case p of
         PrefixComponent (VerbatimDisk _) # _ \<Rightarrow> Ok (drop 4 t)
       | _ \<Rightarrow> Ok t)"

definition encode_unc_path :: "path \<Rightarrow> string option decoded" where
  "encode_unc_path p =
     (case p of
        PrefixComponent (VerbatimUNC _ _) # _ \<Rightarrow>
          and_then (ok_or DocumentRecord (to_str p)) (\<lambda>t.
            if 4102 < length t then Err DocumentRecord
            else Ok (Some ([backslash, backslash] @ drop 8 t)))
      | _ \<Rightarrow> Ok None)"

definition wire_path :: "path \<Rightarrow> string decoded" where
  "wire_path p =
     and_then (encode_unc_path p) (\<lambda>u. case u of Some t \<Rightarrow> Ok t | None \<Rightarrow> encode_path p)"

section \<open>The document\<close>

record wire_metadata =
  w_boss_id :: u16
  w_pov_account :: string
  w_health :: "u16 option"

record wire_report =
  w_permalink :: string
  w_encounter_name :: string
  w_report_boss_id :: u16
  w_mode :: string
  w_success :: bool

record wire_wingman =
  w_wingman_permalink :: string

record wire_donbot =
  w_upload_id :: "u64 option"
  w_fight_log_id :: "u64 option"
  w_outcome :: u8
  w_sent :: u16
  w_skipped :: u16
  w_failed :: u16
  w_ambiguous :: u16
  w_guild_id :: "string option"

record wire_twitch =
  w_status :: u8
  w_message_id :: "string option"

record wire_status =
  w_state :: u8
  w_attempts :: u32
  w_detail :: string

record wire_record =
  w_path :: string
  w_size :: u64
  w_ticks :: int
  w_milliseconds :: int
  w_metadata :: "wire_metadata option"
  w_report :: "wire_report option"
  w_wingman :: "wire_wingman option"
  w_donbot :: "wire_donbot option"
  w_twitch :: "wire_twitch option"
  w_providers :: "provider \<Rightarrow> wire_status"

record wire_document =
  w_schema_version :: u32
  w_logs :: "wire_record list"

subsection \<open>Codes\<close>

definition discord_outcomes :: "discord_outcome list" where
  "discord_outcomes = [NotRequested, DiscordSent, Partial, DiscordSkipped, DiscordFailed, DiscordAmbiguous]"

definition twitch_statuses :: "twitch_delivery_status list" where
  "twitch_statuses = [TwitchSent, AutoMod, BlockedTerm, Duplicate, RateLimited, FollowersOnly, SlowMode,
     SubscribersOnly, Restricted, OtherDrop]"

fun position :: "'a \<Rightarrow> 'a list \<Rightarrow> nat" where
  "position x [] = 0"
| "position x (y # ys) = (if x = y then 0 else Suc (position x ys))"

definition discord_code :: "discord_outcome \<Rightarrow> u8" where
  "discord_code v = of_nat (position v discord_outcomes)"

definition twitch_code :: "twitch_delivery_status \<Rightarrow> u8" where
  "twitch_code v = of_nat (position v twitch_statuses)"

fun state_code :: "provider_state \<Rightarrow> u8" where
  "state_code Disabled = 0"
| "state_code Waiting = 1"
| "state_code Active = 2"
| "state_code Succeeded = 3"
| "state_code Skipped = 4"
| "state_code (RetryScheduled _) = 5"
| "state_code Failed = 6"
| "state_code Cancelled = 7"

definition get_code :: "'a list \<Rightarrow> u8 \<Rightarrow> 'a decoded" where
  "get_code xs c = (if unat c < length xs then Ok (xs ! unat c) else Err DocumentRecord)"

definition decode_state :: "u8 \<Rightarrow> provider_state decoded" where
  "decode_state c =
     (if c = 0 then Ok Disabled
      else if c = 1 \<or> c = 2 \<or> c = 5 then Ok Waiting
      else if c = 3 then Ok Succeeded
      else if c = 4 then Ok Skipped
      else if c = 6 then Ok Failed
      else if c = 7 then Ok Cancelled
      else Err DocumentRecord)"

section \<open>Validation\<close>

definition validate_capacity :: "nat \<Rightarrow> unit decoded" where
  "validate_capacity n = require (1 \<le> n \<and> n \<le> max_history_records) DocumentCapacity"

definition text_ok :: "nat \<Rightarrow> string \<Rightarrow> bool" where
  "text_ok limit v \<longleftrightarrow> length v \<le> limit \<and> list_all (\<lambda>c. \<not> (byte c < 32 \<and> byte c \<noteq> 9)) v"

definition check_text :: "nat \<Rightarrow> string \<Rightarrow> unit decoded" where
  "check_text limit v = require (text_ok limit v) DocumentRecord"

definition origin_of :: "string \<Rightarrow> string \<Rightarrow> bool" where
  "origin_of v origin \<longleftrightarrow> take (length origin) v = origin \<and> drop (length origin) v \<noteq> []"

definition report_url :: "string list \<Rightarrow> string \<Rightarrow> unit decoded" where
  "report_url origins v =
     require (length v \<le> 2048 \<and>
       list_all (\<lambda>c. 33 \<le> byte c \<and> byte c \<le> 126 \<and> c \<noteq> backslash \<and> c \<noteq> CHR 0x22) v \<and>
       list_ex (origin_of v) origins) DocumentRecord"

definition report_origins :: "u16 \<Rightarrow> string list" where
  "report_origins boss =
     [''https://dps.report/'', ''https://b.dps.report/''] @
     (if boss = wvw_boss_id then [''https://wvw.report/''] else [])"

definition wingman_origins :: "string list" where
  "wingman_origins = [''https://gw2wingman.nevermindcreations.de/log/'']"

text \<open>\<open>if let Some(value)\<close> around a fallible check, and a check of every element.\<close>

definition for_some :: "'a option \<Rightarrow> ('a \<Rightarrow> ('e, unit) result) \<Rightarrow> ('e, unit) result" where
  "for_some x f = (case x of None \<Rightarrow> Ok () | Some v \<Rightarrow> f v)"

fun for_each :: "('a \<Rightarrow> ('e, unit) result) \<Rightarrow> 'a list \<Rightarrow> ('e, unit) result" where
  "for_each f [] = Ok ()"
| "for_each f (x # xs) = and_then (f x) (\<lambda>_. for_each f xs)"

definition validate_metadata :: "encounter_metadata \<Rightarrow> unit decoded" where
  "validate_metadata m =
     and_then (check_text 256 (pov_account m)) (\<lambda>_.
       for_some (remaining_health_basis_points m) (\<lambda>h. require (h \<le> 10000) DocumentRecord))"

definition validate_report :: "dps_report_result \<Rightarrow> unit decoded" where
  "validate_report r =
     and_then (check_text 256 (encounter_name r)) (\<lambda>_.
     and_then (check_text 64 (mode r)) (\<lambda>_.
       report_url (report_origins (report_boss_id r)) (permalink r)))"

definition validate_record :: "upload_job_record \<Rightarrow> unit decoded" where
  "validate_record r =
     and_then (wire_path (canonical_path (job_file r))) (\<lambda>path.
     and_then (require (path \<noteq> [] \<and> file_size (job_file r) \<noteq> 0) DocumentRecord) (\<lambda>_.
     and_then (check_text 4096 path) (\<lambda>_.
     and_then (encode_file_time (last_write_time (job_file r))) (\<lambda>_.
     and_then (encode_detected_time (detected_at r)) (\<lambda>_.
     and_then (for_some (encounter_metadata r) validate_metadata) (\<lambda>_.
     and_then (for_some (dps_report_result r) validate_report) (\<lambda>_.
     and_then (for_some (wingman_receipt r)
       (\<lambda>w. report_url wingman_origins (wingman_permalink w))) (\<lambda>_.
     and_then (for_each (\<lambda>p. check_text 4096 (detail (providers r p))) all_providers) (\<lambda>_.
     and_then (for_some (donbot_receipt r) (\<lambda>d. for_some (guild_id d) (check_text 19))) (\<lambda>_.
     and_then (for_some (twitch_receipt r) (\<lambda>t. for_some (message_id t) (check_text 256))) (\<lambda>_.
     and_then (map_err (\<lambda>_. DocumentRecord) (restore_job 1 r)) (\<lambda>_. Ok ()))))))))))))"

fun check_records ::
  "(path \<times> u64 \<times> system_time) set \<Rightarrow> upload_job_record list \<Rightarrow> unit decoded" where
  "check_records identities [] = Ok ()"
| "check_records identities (r # rs) =
     and_then (validate_record r) (\<lambda>_.
       if identity_key (job_file r) \<in> identities then Err DocumentDuplicate
       else check_records (insert (identity_key (job_file r)) identities) rs)"

definition validate_records :: "upload_job_record list \<Rightarrow> nat \<Rightarrow> unit decoded" where
  "validate_records rs capacity =
     and_then (validate_capacity capacity) (\<lambda>_.
       if capacity < length rs then Err DocumentTooLarge else check_records {} rs)"

section \<open>Records on the wire\<close>

definition encode_metadata :: "encounter_metadata \<Rightarrow> wire_metadata" where
  "encode_metadata m = \<lparr>w_boss_id = boss_id m, w_pov_account = pov_account m,
     w_health = remaining_health_basis_points m\<rparr>"

definition encode_report :: "dps_report_result \<Rightarrow> wire_report" where
  "encode_report r = \<lparr>w_permalink = permalink r, w_encounter_name = encounter_name r,
     w_report_boss_id = report_boss_id r, w_mode = mode r, w_success = success r\<rparr>"

definition encode_donbot :: "donbot_upload_receipt \<Rightarrow> wire_donbot" where
  "encode_donbot r = (let d = discord_delivery r in
     \<lparr>w_upload_id = upload_id r, w_fight_log_id = fight_log_id r, w_outcome = discord_code (outcome d),
      w_sent = sent d, w_skipped = skipped d, w_failed = failed d, w_ambiguous = ambiguous d,
      w_guild_id = guild_id r\<rparr>)"

definition encode_twitch :: "twitch_delivery_receipt \<Rightarrow> wire_twitch" where
  "encode_twitch r = \<lparr>w_status = twitch_code (delivery_status r), w_message_id = message_id r\<rparr>"

definition encode_status :: "provider_status \<Rightarrow> wire_status" where
  "encode_status s = \<lparr>w_state = state_code (state s), w_attempts = attempts s, w_detail = detail s\<rparr>"

definition encode_record :: "upload_job_record \<Rightarrow> wire_record decoded" where
  "encode_record r =
     and_then (wire_path (canonical_path (job_file r))) (\<lambda>path.
     and_then (encode_file_time (last_write_time (job_file r))) (\<lambda>ticks.
     and_then (encode_detected_time (detected_at r)) (\<lambda>ms.
       Ok \<lparr>w_path = path, w_size = file_size (job_file r), w_ticks = ticks, w_milliseconds = ms,
         w_metadata = map_option encode_metadata (encounter_metadata r),
         w_report = map_option encode_report (dps_report_result r),
         w_wingman = map_option (\<lambda>w. \<lparr>w_wingman_permalink = wingman_permalink w\<rparr>) (wingman_receipt r),
         w_donbot = map_option encode_donbot (donbot_receipt r),
         w_twitch = map_option encode_twitch (twitch_receipt r),
         w_providers = (\<lambda>p. encode_status (providers r p))\<rparr>)))"

definition decode_metadata :: "wire_metadata \<Rightarrow> encounter_metadata" where
  "decode_metadata m = \<lparr>boss_id = w_boss_id m, pov_account = w_pov_account m,
     remaining_health_basis_points = w_health m\<rparr>"

definition decode_report :: "wire_report \<Rightarrow> dps_report_result" where
  "decode_report r = \<lparr>permalink = w_permalink r, encounter_name = w_encounter_name r,
     report_boss_id = w_report_boss_id r, mode = w_mode r, success = w_success r\<rparr>"

definition decode_donbot :: "wire_donbot \<Rightarrow> donbot_upload_receipt decoded" where
  "decode_donbot w =
     and_then (get_code discord_outcomes (w_outcome w)) (\<lambda>o'.
       Ok \<lparr>upload_id = w_upload_id w, fight_log_id = w_fight_log_id w,
         discord_delivery = \<lparr>outcome = o', sent = w_sent w, skipped = w_skipped w, failed = w_failed w,
           ambiguous = w_ambiguous w\<rparr>, guild_id = w_guild_id w\<rparr>)"

definition decode_twitch :: "wire_twitch \<Rightarrow> twitch_delivery_receipt decoded" where
  "decode_twitch w =
     and_then (get_code twitch_statuses (w_status w)) (\<lambda>s.
       Ok \<lparr>delivery_status = s, message_id = w_message_id w\<rparr>)"

definition decode_status :: "wire_status \<Rightarrow> provider_status decoded" where
  "decode_status w =
     and_then (decode_state (w_state w)) (\<lambda>s.
       Ok \<lparr>state = s, attempts = w_attempts w, detail = w_detail w\<rparr>)"

text \<open>The four slots in the order of the array.\<close>

definition decode_statuses :: "(provider \<Rightarrow> wire_status) \<Rightarrow> (provider \<Rightarrow> provider_status) decoded" where
  "decode_statuses w =
     and_then (decode_status (w DpsReport)) (\<lambda>a.
     and_then (decode_status (w Wingman)) (\<lambda>b.
     and_then (decode_status (w DonBot)) (\<lambda>c.
     and_then (decode_status (w Twitch)) (\<lambda>d.
       Ok (\<lambda>p. case p of DpsReport \<Rightarrow> a | Wingman \<Rightarrow> b | DonBot \<Rightarrow> c | Twitch \<Rightarrow> d)))))"

text \<open>\<open>Option::map(..).transpose()\<close>.\<close>

definition transpose_map :: "('a \<Rightarrow> ('e, 'b) result) \<Rightarrow> 'a option \<Rightarrow> ('e, 'b option) result" where
  "transpose_map f x = (case x of None \<Rightarrow> Ok None | Some v \<Rightarrow> and_then (f v) (\<lambda>y. Ok (Some y)))"

definition decode_record :: "time_range \<Rightarrow> wire_record \<Rightarrow> upload_job_record decoded" where
  "decode_record P w =
     and_then (decode_statuses (w_providers w)) (\<lambda>statuses.
     and_then (decode_file_time P (w_ticks w)) (\<lambda>written.
     and_then (decode_detected_time P (w_milliseconds w)) (\<lambda>detected.
     and_then (transpose_map decode_donbot (w_donbot w)) (\<lambda>donbot.
     and_then (transpose_map decode_twitch (w_twitch w)) (\<lambda>twitch.
       let r = \<lparr>job_file = \<lparr>canonical_path = parse_path (w_path w), file_size = w_size w,
                 last_write_time = written\<rparr>,
               detected_at = detected,
               encounter_metadata = map_option decode_metadata (w_metadata w),
               dps_report_result = map_option decode_report (w_report w),
               wingman_receipt =
                 map_option (\<lambda>x. \<lparr>wingman_permalink = w_wingman_permalink x\<rparr>) (w_wingman w),
               donbot_receipt = donbot, twitch_receipt = twitch, providers = statuses\<rparr>
       in and_then (validate_record r) (\<lambda>_.
            map_err (\<lambda>_. DocumentRecord)
              (and_then (restore_job 1 r) (\<lambda>j. Ok (snapshot j)))))))))"

subsection \<open>The deserializer\<close>

definition for_option :: "'a option \<Rightarrow> ('a \<Rightarrow> bool) \<Rightarrow> bool" where
  "for_option x P = (case x of None \<Rightarrow> True | Some v \<Rightarrow> P v)"

text \<open>The bounded texts of a wire record, and the bound on the number of records.\<close>

definition wire_texts_ok :: "wire_record \<Rightarrow> bool" where
  "wire_texts_ok w \<longleftrightarrow>
     text_ok 4096 (w_path w) \<and>
     for_option (w_metadata w) (\<lambda>m. text_ok 256 (w_pov_account m)) \<and>
     for_option (w_report w) (\<lambda>r. text_ok 2048 (w_permalink r) \<and> text_ok 256 (w_encounter_name r) \<and>
       text_ok 64 (w_mode r)) \<and>
     for_option (w_wingman w) (\<lambda>x. text_ok 2048 (w_wingman_permalink x)) \<and>
     for_option (w_donbot w) (\<lambda>d. for_option (w_guild_id d) (text_ok 19)) \<and>
     for_option (w_twitch w) (\<lambda>t. for_option (w_message_id t) (text_ok 256)) \<and>
     list_all (\<lambda>p. text_ok 4096 (w_detail (w_providers w p))) all_providers"

definition deserialize :: "(string \<Rightarrow> wire_document option) \<Rightarrow> string \<Rightarrow> wire_document option" where
  "deserialize parse s =
     (case parse s of
        None \<Rightarrow> None
      | Some w \<Rightarrow>
          if length (w_logs w) \<le> max_history_records \<and> list_all wire_texts_ok (w_logs w)
          then Some w else None)"

text \<open>\<open>collect::<Result<Vec<_>, _>>\<close>.\<close>

fun collect :: "('a \<Rightarrow> ('e, 'b) result) \<Rightarrow> 'a list \<Rightarrow> ('e, 'b list) result" where
  "collect f [] = Ok []"
| "collect f (x # xs) = and_then (f x) (\<lambda>y. and_then (collect f xs) (\<lambda>ys. Ok (y # ys)))"

definition decode_history ::
  "time_range \<Rightarrow> (string \<Rightarrow> wire_document option) \<Rightarrow> string \<Rightarrow> nat \<Rightarrow> upload_job_record list decoded"
where
  "decode_history P parse document capacity =
     and_then (validate_capacity capacity) (\<lambda>_.
       if max_history_bytes < length document then Err DocumentTooLarge
       else and_then (ok_or DocumentJson (deserialize parse document)) (\<lambda>w.
         if w_schema_version w \<noteq> 1 then Err DocumentSchema
         else if capacity < length (w_logs w) then Err DocumentTooLarge
         else and_then (collect (decode_record P) (w_logs w)) (\<lambda>records.
           and_then (validate_records records capacity) (\<lambda>_. Ok records))))"

section \<open>Writing a document\<close>

text \<open>
  The source encodes a record when the serializer reaches it; validated records always encode
  (\<open>validated_encodes\<close>), so the order in which a record fails to encode cannot be observed.
\<close>

definition encode_history ::
  "(wire_document \<Rightarrow> string list) \<Rightarrow> (nat \<Rightarrow> bool) \<Rightarrow> upload_job_record list \<Rightarrow> nat \<Rightarrow> string decoded"
where
  "encode_history render alloc records capacity =
     and_then (validate_records records capacity) (\<lambda>_.
     and_then (map_err (\<lambda>_. DocumentSerialization) (collect encode_record records)) (\<lambda>logs.
       case write_chunks max_history_bytes alloc (render \<lparr>w_schema_version = 1, w_logs = logs\<rparr>) no_output of
         (written, out) \<Rightarrow>
           if out_too_large out then Err DocumentTooLarge
           else if \<not> written then Err DocumentSerialization
           else (case write_all max_history_bytes alloc [CHR 0x0A] out of
               (True, out2) \<Rightarrow> Ok (out_bytes out2)
             | (False, out2) \<Rightarrow>
                 if out_too_large out2 then Err DocumentTooLarge else Err DocumentSerialization)))"

section \<open>Times and paths survive the wire\<close>

lemma file_time_roundtrip:
  assumes "encode_file_time t = Ok n" and "representable P t"
  shows "decode_file_time P n = Ok t"
proof -
  from assms(1) have n: "n = t div 100 + windows_epoch_seconds * ticks_per_second"
    and "t mod 100 = 0" "0 \<le> n" "n < 2 ^ 63"
    by (auto simp: encode_file_time_def fits_i64_def Let_def split: if_splits)
  then have t: "(n - windows_epoch_seconds * ticks_per_second) * 100 = t" by auto
  have "\<bar>t\<bar> \<le> 2 ^ 63 * 100 + 2000000000000000000000"
    using \<open>0 \<le> n\<close> \<open>n < 2 ^ 63\<close> t
    by (simp add: windows_epoch_seconds_def ticks_per_second_def)
  then have "\<bar>t\<bar> div 1000000000 < 2 ^ 64" by simp
  then show ?thesis
    using \<open>0 \<le> n\<close> t assms(2) by (simp add: decode_file_time_def from_nanos_def)
qed

text \<open>The detection time is kept to the millisecond, toward the epoch.\<close>

definition whole_ms :: "system_time \<Rightarrow> system_time" where
  "whole_ms t = quotient t 1000000 * 1000000"

lemma quotient_whole [simp]: "quotient (whole_ms t) 1000000 = quotient t 1000000"
  using pos_imp_zdiv_nonneg_iff [of 1000000 "\<bar>t\<bar>"]
  by (auto simp: whole_ms_def quotient_def abs_mult sgn_mult abs_sgn_eq sgn_if split: if_splits)

lemma whole_ms_between: "representable P t \<Longrightarrow> representable P 0 \<Longrightarrow> representable P (whole_ms t)"
  using quotient_abs [of 1000000 t] quotient_sign [of 1000000 t]
  by (cases "0 \<le> t") (auto simp: representable_def whole_ms_def abs_if split: if_splits)

lemma detected_time_roundtrip:
  assumes "encode_detected_time t = Ok n" and "representable P t" and "representable P 0"
  shows "decode_detected_time P n = Ok (whole_ms t)"
proof -
  from assms(1) have n: "n * 1000000 = whole_ms t" "- (2 ^ 63) \<le> n" "n < 2 ^ 63"
    by (auto simp: encode_detected_time_def whole_ms_def fits_i64_def split: if_splits)
  from n(2,3) have "\<bar>n * 1000000\<bar> div 1000000000 < 2 ^ 64" by simp
  then show ?thesis
    using n(1) whole_ms_between [OF assms(2,3)] by (simp add: decode_detected_time_def from_nanos_def)
qed

lemma detected_time_again: "encode_detected_time t = Ok n \<Longrightarrow> encode_detected_time (whole_ms t) = Ok n"
  by (simp add: encode_detected_time_def split: if_splits)

lemma utf8_ascii_Cons: "byte c < 128 \<Longrightarrow> utf8_valid (of_string (c # s)) = utf8_valid (of_string s)"
  by (simp add: of_string_def byte_def utf8_valid.simps [of "_ # _"] between_def unat_of_nat)

lemma backslash_ascii [simp]: "byte backslash = 92"
  by (simp add: backslash_def byte_def)

lemma and_then_Ok_right [simp]: "and_then r Ok = r"
  by (cases r) simp_all

lemma marker_bytes: "byte (CHR ''?'') = 63" "byte (CHR ''U'') = 85" "byte (CHR ''N'') = 78"
  "byte (CHR ''C'') = 67" "byte (CHR '':'') = 58"
  by (simp_all add: byte_def)

text \<open>
  The wire spelling of an absolute path is the text of its identity, and that text gives back the
  identity, which is spelled the same.
\<close>

definition identity_path :: "path \<Rightarrow> path" where
  "identity_path p = map identity_component p"

lemma identity_names [simp]: "map (identity_component \<circ> Normal) names = map Normal names"
  by simp

lemma identity_path_idem [simp]: "identity_path (identity_path p) = identity_path p"
  by (simp add: identity_path_def comp_def)

lemma absolute_identity: "absolute p \<Longrightarrow> absolute (identity_path p)"
proof -
  assume "absolute p"
  then obtain pre names where p: "p = PrefixComponent pre # RootDir # map Normal names" "prefix_ok pre"
    "list_all name_ok names" by (auto simp: absolute_def)
  then show ?thesis
    by (cases pre) (auto simp: absolute_def identity_path_def)
qed

lemma wire_path_text:
  assumes "absolute p" and "wire_path p = Ok t"
  shows "t = path_text (identity_path p) \<and> parse_path t = identity_path p \<and>
     wire_path (identity_path p) = Ok t"
proof -
  from assms(1) obtain pre names where p: "p = PrefixComponent pre # RootDir # map Normal names"
    and ok: "prefix_ok pre" by (auto simp: absolute_def)
  have "t = path_text (identity_path p) \<and> to_str (identity_path p) = Some t"
    using ok assms(2)
    by (cases pre)
      (auto simp: p identity_path_def wire_path_def encode_unc_path_def encode_path_def to_str_def
        utf8_ascii_Cons is_upper_def marker_bytes split: if_splits)
  moreover have "wire_path (identity_path p) = ok_or DocumentRecord (to_str (identity_path p))"
    using ok by (cases pre) (auto simp: p identity_path_def wire_path_def encode_unc_path_def encode_path_def)
  ultimately show ?thesis
    using parse_path_text [OF absolute_identity [OF assms(1)]] identity_path_idem [of p]
    by (simp add: identity_path_def)
qed

section \<open>Codes survive the wire\<close>

lemma discord_code_roundtrip [simp]: "get_code discord_outcomes (discord_code v) = Ok v"
  by (cases v) (simp_all add: get_code_def discord_code_def discord_outcomes_def)

lemma twitch_code_roundtrip [simp]: "get_code twitch_statuses (twitch_code v) = Ok v"
  by (cases v) (simp_all add: get_code_def twitch_code_def twitch_statuses_def)

lemma state_code_roundtrip [simp]: "decode_state (state_code s) = Ok (if is_busy s then Waiting else s)"
  by (cases s) (simp_all add: decode_state_def)

lemma decode_statuses_roundtrip:
  "decode_statuses (\<lambda>p. encode_status (f p)) =
     Ok (\<lambda>p. (f p)\<lparr>state := (if is_busy (state (f p)) then Waiting else state (f p))\<rparr>)"
  by (auto simp: decode_statuses_def decode_status_def encode_status_def fun_eq_iff split: provider.splits)

lemma decode_donbot_roundtrip [simp]: "decode_donbot (encode_donbot r) = Ok r"
  by (simp add: decode_donbot_def encode_donbot_def Let_def)

lemma decode_twitch_roundtrip [simp]: "decode_twitch (encode_twitch r) = Ok r"
  by (simp add: decode_twitch_def encode_twitch_def)

lemma decode_metadata_roundtrip [simp]: "decode_metadata (encode_metadata m) = m"
  by (simp add: decode_metadata_def encode_metadata_def)

lemma decode_report_roundtrip [simp]: "decode_report (encode_report r) = r"
  by (simp add: decode_report_def encode_report_def)

lemma transpose_roundtrip: "(\<And>x. f (g x) = Ok x) \<Longrightarrow> transpose_map f (map_option g y) = Ok y"
  by (cases y) (simp_all add: transpose_map_def)

section \<open>Records survive the wire\<close>

lemma for_some_Ok_iff [simp]: "for_some x f = Ok u \<longleftrightarrow> (\<forall>v. x = Some v \<longrightarrow> f v = Ok ())"
  by (cases x) (simp_all add: for_some_def)

lemma for_each_Ok_iff [simp]: "for_each f xs = Ok u \<longleftrightarrow> (\<forall>x \<in> set xs. f x = Ok ())"
  by (induction xs) auto

lemma check_text_Ok_iff [simp]: "check_text n v = Ok u \<longleftrightarrow> text_ok n v"
  by (simp add: check_text_def)

lemma for_option_iff [simp]: "for_option x P \<longleftrightarrow> (\<forall>v. x = Some v \<longrightarrow> P v)"
  by (cases x) (simp_all add: for_option_def)

text \<open>What the validation accepts.\<close>

lemma validate_record_iff:
  "validate_record r = Ok u \<longleftrightarrow>
     (\<exists>path. wire_path (canonical_path (job_file r)) = Ok path \<and> path \<noteq> [] \<and> text_ok 4096 path) \<and>
     file_size (job_file r) \<noteq> 0 \<and>
     is_ok (encode_file_time (last_write_time (job_file r))) \<and> is_ok (encode_detected_time (detected_at r)) \<and>
     (\<forall>m. encounter_metadata r = Some m \<longrightarrow> validate_metadata m = Ok ()) \<and>
     (\<forall>d. dps_report_result r = Some d \<longrightarrow> validate_report d = Ok ()) \<and>
     (\<forall>w. wingman_receipt r = Some w \<longrightarrow> report_url wingman_origins (wingman_permalink w) = Ok ()) \<and>
     (\<forall>p. text_ok 4096 (detail (providers r p))) \<and>
     (\<forall>d g. donbot_receipt r = Some d \<longrightarrow> guild_id d = Some g \<longrightarrow> text_ok 19 g) \<and>
     (\<forall>t m. twitch_receipt r = Some t \<longrightarrow> message_id t = Some m \<longrightarrow> text_ok 256 m) \<and>
     is_ok (restore_job 1 r)"
  by (simp add: validate_record_def is_ok_iff) blast

lemma report_url_text: "report_url origins v = Ok u \<Longrightarrow> text_ok 2048 v"
  unfolding report_url_def require_Ok_iff text_ok_def
  by (elim conjE, intro conjI, assumption, erule list.pred_mono_strong) simp

lemma restore_job_iff: "is_ok (restore_job i r) \<longleftrightarrow> record_valid r"
  by (auto simp: restore_job_def record_valid_def some_and_def split: option.splits)

lemma restore_job_snapshot:
  "restore_job i r = Ok j \<Longrightarrow> snapshot j = r\<lparr>providers := (\<lambda>p. restore_status (providers r p))\<rparr>"
  by (auto simp: restore_job_def split: if_splits)

text \<open>
  What a record is after a restart: the identity of its file, its detection time to the millisecond,
  and no destination in progress.
\<close>

definition stored_file :: "log_file_identity \<Rightarrow> log_file_identity" where
  "stored_file f = f\<lparr>canonical_path := identity_path (canonical_path f)\<rparr>"

definition stored :: "upload_job_record \<Rightarrow> upload_job_record" where
  "stored r = r\<lparr>job_file := stored_file (job_file r), detected_at := whole_ms (detected_at r),
     providers := (\<lambda>p. restore_status (providers r p))\<rparr>"

lemma stored_key [simp]: "identity_key (job_file (stored r)) = identity_key (job_file r)"
  by (simp add: stored_def stored_file_def identity_key_def identity_path_def comp_def)

lemma stored_same_file: "same_file (job_file (stored r)) (job_file r)"
  by (simp add: same_file_key)

lemma interrupted_text_ok: "text_ok 4096 ''Interrupted by the previous game session''"
  by (simp add: text_ok_def byte_def)

lemma restore_status_detail_ok: "text_ok 4096 (detail s) \<Longrightarrow> text_ok 4096 (detail (restore_status s))"
  using interrupted_text_ok by (simp add: restore_status_def)

definition keepable :: "time_range \<Rightarrow> upload_job_record \<Rightarrow> bool" where
  "keepable P r \<longleftrightarrow> absolute (canonical_path (job_file r)) \<and>
     representable P (last_write_time (job_file r)) \<and> representable P (detected_at r)"

lemma stored_valid:
  assumes "validate_record r = Ok u" and "absolute (canonical_path (job_file r))"
  shows "validate_record (stored r) = Ok ()"
proof -
  obtain path where "wire_path (canonical_path (job_file r)) = Ok path" "path \<noteq> []" "text_ok 4096 path"
    using assms(1) by (auto simp: validate_record_iff)
  moreover from this(1) have "wire_path (identity_path (canonical_path (job_file r))) = Ok path"
    using wire_path_text [OF assms(2)] by blast
  moreover have "is_ok (encode_detected_time (whole_ms (detected_at r)))"
    using assms(1) by (auto simp: validate_record_iff is_ok_iff intro: detected_time_again)
  ultimately show ?thesis
    using assms(1)
    by (simp add: validate_record_iff stored_def stored_file_def restore_status_detail_ok restore_job_iff
        record_valid_def identity_path_def)
qed

lemma validated_encodes: "validate_record r = Ok u \<Longrightarrow> is_ok (encode_record r)"
  by (auto simp: validate_record_iff encode_record_def is_ok_iff)

text \<open>The record that the decoder validates: interrupted destinations still wait.\<close>

definition awaiting :: "provider_status \<Rightarrow> provider_status" where
  "awaiting s = s\<lparr>state := (if is_busy (state s) then Waiting else state s)\<rparr>"

lemma restore_awaiting [simp]: "restore_status (awaiting s) = restore_status s"
  by (simp add: restore_status_def awaiting_def)

lemma wingman_eta [simp]: "\<lparr>wingman_permalink = wingman_permalink x\<rparr> = x"
  by (cases x) simp

lemma decode_encode_record:
  assumes valid: "validate_record r = Ok u" and enc: "encode_record r = Ok w"
    and keep: "keepable P r" and epoch: "representable P 0"
  shows "decode_record P w = Ok (stored r)"
proof -
  obtain path ticks ms where path: "wire_path (canonical_path (job_file r)) = Ok path"
    and ticks: "encode_file_time (last_write_time (job_file r)) = Ok ticks"
    and ms: "encode_detected_time (detected_at r) = Ok ms"
    and w: "w_path w = path" "w_size w = file_size (job_file r)" "w_ticks w = ticks" "w_milliseconds w = ms"
      "w_metadata w = map_option encode_metadata (encounter_metadata r)"
      "w_report w = map_option encode_report (dps_report_result r)"
      "w_wingman w = map_option (\<lambda>w. \<lparr>w_wingman_permalink = wingman_permalink w\<rparr>) (wingman_receipt r)"
      "w_donbot w = map_option encode_donbot (donbot_receipt r)"
      "w_twitch w = map_option encode_twitch (twitch_receipt r)"
      "w_providers w = (\<lambda>p. encode_status (providers r p))"
    using enc by (auto simp: encode_record_def)
  have abs: "absolute (canonical_path (job_file r))" using keep by (simp add: keepable_def)
  define r1 where "r1 = (stored r)\<lparr>providers := (\<lambda>p. awaiting (providers r p))\<rparr>"
  have "validate_record r1 = Ok ()"
    using stored_valid [OF valid abs] valid
    by (simp add: validate_record_iff r1_def restore_job_iff record_valid_def awaiting_def)
  moreover have "map_err (\<lambda>_. DocumentRecord) (and_then (restore_job 1 r1) (\<lambda>j. Ok (snapshot j))) = Ok (stored r)"
  proof -
    obtain j where "restore_job 1 r1 = Ok j"
      using calculation by (auto simp: validate_record_iff is_ok_iff)
    then show ?thesis
      using restore_job_snapshot [of 1 r1 j] by (simp add: r1_def stored_def)
  qed
  moreover have "parse_path path = identity_path (canonical_path (job_file r))"
    using wire_path_text [OF abs path] by blast
  moreover have "decode_statuses (w_providers w) = Ok (\<lambda>p. awaiting (providers r p))"
    by (simp add: w decode_statuses_roundtrip awaiting_def)
  moreover have "decode_file_time P ticks = Ok (last_write_time (job_file r))"
    using keep by (intro file_time_roundtrip [OF ticks]) (simp add: keepable_def)
  moreover have "decode_detected_time P ms = Ok (whole_ms (detected_at r))"
    using keep by (intro detected_time_roundtrip [OF ms _ epoch]) (simp add: keepable_def)
  moreover have "\<lparr>job_file = \<lparr>canonical_path = identity_path (canonical_path (job_file r)),
        file_size = file_size (job_file r), last_write_time = last_write_time (job_file r)\<rparr>,
      detected_at = whole_ms (detected_at r),
      encounter_metadata = map_option decode_metadata (w_metadata w),
      dps_report_result = map_option decode_report (w_report w),
      wingman_receipt = map_option (\<lambda>x. \<lparr>wingman_permalink = w_wingman_permalink x\<rparr>) (w_wingman w),
      donbot_receipt = donbot_receipt r, twitch_receipt = twitch_receipt r,
      providers = (\<lambda>p. awaiting (providers r p))\<rparr> = r1"
    by (rule upload_job_record.equality)
      (simp_all add: w r1_def stored_def stored_file_def option.map_comp comp_def option.map_ident)
  ultimately show ?thesis
    by (simp add: decode_record_def w transpose_roundtrip)
qed

lemma report_texts: "validate_report d = Ok u \<Longrightarrow>
     text_ok 2048 (permalink d) \<and> text_ok 256 (encounter_name d) \<and> text_ok 64 (mode d)"
  by (auto simp: validate_report_def dest: report_url_text)

lemma encoded_texts_ok:
  assumes "validate_record r = Ok u" and "encode_record r = Ok w"
  shows "wire_texts_ok w"
proof -
  obtain path where "w_path w = path" "text_ok 4096 path"
    "w_metadata w = map_option encode_metadata (encounter_metadata r)"
    "w_report w = map_option encode_report (dps_report_result r)"
    "w_wingman w = map_option (\<lambda>w. \<lparr>w_wingman_permalink = wingman_permalink w\<rparr>) (wingman_receipt r)"
    "w_donbot w = map_option encode_donbot (donbot_receipt r)"
    "w_twitch w = map_option encode_twitch (twitch_receipt r)"
    "w_providers w = (\<lambda>p. encode_status (providers r p))"
    using assms by (auto simp: encode_record_def validate_record_iff)
  moreover have "text_ok 2048 (wingman_permalink x)" if "wingman_receipt r = Some x" for x
    using assms(1) that unfolding validate_record_iff by (meson report_url_text)
  moreover have "text_ok 2048 (permalink d) \<and> text_ok 256 (encounter_name d) \<and> text_ok 64 (mode d)"
    if "dps_report_result r = Some d" for d
    using assms(1) that unfolding validate_record_iff by (meson report_texts)
  ultimately show ?thesis
    using assms(1)
    by (auto simp: validate_record_iff wire_texts_ok_def list_all_iff encode_metadata_def encode_report_def
        encode_donbot_def encode_twitch_def encode_status_def Let_def validate_metadata_def)
qed

section \<open>Lists of records\<close>

lemma check_records_iff:
  "check_records S rs = Ok u \<longleftrightarrow>
     (\<forall>r \<in> set rs. validate_record r = Ok () \<and> identity_key (job_file r) \<notin> S) \<and>
     distinct (map (identity_key \<circ> job_file) rs)"
  by (induction rs arbitrary: S) (auto simp: image_iff)

lemma validate_records_iff:
  "validate_records rs capacity = Ok u \<longleftrightarrow>
     1 \<le> capacity \<and> capacity \<le> max_history_records \<and> length rs \<le> capacity \<and>
     (\<forall>r \<in> set rs. validate_record r = Ok ()) \<and> distinct (map (identity_key \<circ> job_file) rs)"
  by (auto simp: validate_records_def validate_capacity_def check_records_iff not_less)

lemma collect_Ok_iff: "collect f xs = Ok ys \<longleftrightarrow> list_all2 (\<lambda>x y. f x = Ok y) xs ys"
  by (induction xs arbitrary: ys) (auto simp: list_all2_Cons1)

lemma collect_is_ok: "\<forall>x \<in> set xs. is_ok (f x) \<Longrightarrow> is_ok (collect f xs)"
  by (induction xs) (auto simp: is_ok_iff)

lemma stored_records_valid:
  assumes "validate_records rs capacity = Ok u" and "\<forall>r \<in> set rs. keepable P r"
  shows "validate_records (map stored rs) capacity = Ok ()"
proof -
  have "(identity_key \<circ> job_file) \<circ> stored = identity_key \<circ> job_file" by (simp add: fun_eq_iff)
  then show ?thesis
    using assms by (auto simp: validate_records_iff keepable_def intro: stored_valid)
qed

section \<open>What a written document is\<close>

definition rendered :: "(wire_document \<Rightarrow> string list) \<Rightarrow> wire_document \<Rightarrow> string" where
  "rendered render d = concat (render d) @ [CHR 0x0A]"

lemma encode_history_Ok:
  assumes "encode_history render alloc rs capacity = Ok doc"
  obtains logs where "validate_records rs capacity = Ok ()" and "collect encode_record rs = Ok logs"
    and "doc = rendered render \<lparr>w_schema_version = 1, w_logs = logs\<rparr>" and "length doc \<le> max_history_bytes"
proof -
  from assms obtain logs where v: "validate_records rs capacity = Ok ()"
    and logs: "collect encode_record rs = Ok logs"
    unfolding encode_history_def by (elim and_thenE) auto
  obtain written out where
    w: "write_chunks max_history_bytes alloc (render \<lparr>w_schema_version = 1, w_logs = logs\<rparr>) no_output = (written, out)"
    by (meson surj_pair)
  with assms v logs have rest: "(if out_too_large out then Err DocumentTooLarge
           else if \<not> written then Err DocumentSerialization
           else (case write_all max_history_bytes alloc [CHR 0x0A] out of
               (True, out2) \<Rightarrow> Ok (out_bytes out2)
             | (False, out2) \<Rightarrow>
                 if out_too_large out2 then Err DocumentTooLarge else Err DocumentSerialization)) = Ok doc"
    by (simp add: encode_history_def)
  from rest obtain out2 where "written" and a: "write_all max_history_bytes alloc [CHR 0x0A] out = (True, out2)" "doc = out_bytes out2"
    by (auto split: if_splits prod.splits bool.splits)
  have "(True, out) = (written, out)" using \<open>written\<close> by simp
  note chunks = write_chunks_True [OF w [folded this]]
  have "out_bytes out = concat (render \<lparr>w_schema_version = 1, w_logs = logs\<rparr>)"
    and "length (out_bytes out) \<le> max_history_bytes"
    using chunks by (auto simp: no_output_def)
  with write_all_True [OF a(1)] a(2) show ?thesis by (intro that [OF v logs]) (auto simp: rendered_def)
qed

lemma history_decodes:
  assumes enc: "encode_history render alloc rs capacity = Ok doc"
    and logs: "collect encode_record rs = Ok logs"
    and json: "parse (rendered render \<lparr>w_schema_version = 1, w_logs = logs\<rparr>) =
      Some \<lparr>w_schema_version = 1, w_logs = logs\<rparr>"
    and keep: "\<forall>r \<in> set rs. keepable P r" and epoch: "representable P 0"
  shows "decode_history P parse doc capacity = Ok (map stored rs)"
proof -
  have v: "validate_records rs capacity = Ok ()"
    and doc: "doc = rendered render \<lparr>w_schema_version = 1, w_logs = logs\<rparr>" "length doc \<le> max_history_bytes"
    using encode_history_Ok [OF enc] logs by (metis Inr_inject)+
  have cap: "validate_capacity capacity = Ok ()" "length rs \<le> capacity" "capacity \<le> max_history_records"
    and each: "\<forall>r \<in> set rs. validate_record r = Ok ()"
    using v by (auto simp: validate_records_iff validate_capacity_def)
  have rel: "list_all2 (\<lambda>r w. encode_record r = Ok w) rs logs"
    using logs by (simp add: collect_Ok_iff)
  have len: "length logs = length rs" using rel by (simp add: list_all2_lengthD)
  have "\<forall>w \<in> set logs. wire_texts_ok w"
    using rel each by (induction rule: list_all2_induct) (auto intro: encoded_texts_ok)
  then have des: "deserialize parse doc = Some \<lparr>w_schema_version = 1, w_logs = logs\<rparr>"
    using json doc(1) len cap by (simp add: deserialize_def list_all_iff)
  have "list_all2 (\<lambda>w r. decode_record P w = Ok r) logs (map stored rs)"
    using rel each keep
    by (induction rule: list_all2_induct) (auto intro: decode_encode_record [OF _ _ _ epoch])
  then have "collect (decode_record P) logs = Ok (map stored rs)"
    by (simp add: collect_Ok_iff)
  then show ?thesis
    using doc(2) des cap len stored_records_valid [OF v keep] by (simp add: decode_history_def not_less)
qed

section \<open>Properties\<close>

text \<open>
  C6: The upload history survives a restart: a document written by \<open>encode_history\<close> decodes, at the
  same capacity, to the same records in the same order, each with the identity of its file, its
  metadata, receipts, attempts and settled states; only the detection time is cut to the millisecond
  and destinations in progress become failures of the previous session. The hypotheses are that the
  JSON library reads back the document it wrote, that paths are absolute, and that the times are in
  the platform's range.
\<close>

theorem history_survives_restart:
  assumes enc: "encode_history render alloc rs capacity = Ok doc"
    and logs: "collect encode_record rs = Ok logs"
    and json: "parse (rendered render \<lparr>w_schema_version = 1, w_logs = logs\<rparr>) =
      Some \<lparr>w_schema_version = 1, w_logs = logs\<rparr>"
    and keep: "\<forall>r \<in> set rs. keepable P r" and epoch: "representable P 0"
  shows "decode_history P parse doc capacity = Ok (map stored rs) \<and>
     (\<forall>r \<in> set rs. same_file (job_file (stored r)) (job_file r) \<and>
        encounter_metadata (stored r) = encounter_metadata r \<and>
        dps_report_result (stored r) = dps_report_result r \<and> wingman_receipt (stored r) = wingman_receipt r \<and>
        donbot_receipt (stored r) = donbot_receipt r \<and> twitch_receipt (stored r) = twitch_receipt r \<and>
        (\<forall>p. \<not> is_busy (state (providers (stored r) p)) \<and>
           attempts (providers (stored r) p) = attempts (providers r p) \<and>
           (\<not> is_busy (state (providers r p)) \<longrightarrow> providers (stored r) p = providers r p)))"
proof -
  have "decode_history P parse doc capacity = Ok (map stored rs)"
    by (rule history_decodes [OF enc logs _ keep epoch]) (fact json)
  moreover have "\<not> is_busy (state (restore_status s)) \<and> attempts (restore_status s) = attempts s \<and>
      (\<not> is_busy (state s) \<longrightarrow> restore_status s = s)" for s
    by (simp add: restore_status_def)
  ultimately show ?thesis
    by (simp add: stored_same_file) (simp add: stored_def)
qed

definition sample_range :: time_range where
  "sample_range = \<lparr>earliest = - (2 ^ 62), latest = 2 ^ 62\<rparr>"

definition sample_kept :: upload_job_record where
  "sample_kept = (snapshot sample_job)\<lparr>job_file := sample_file\<lparr>last_write_time := 7700\<rparr>\<rparr>"

lemma sample_wire_path: "wire_path (canonical_path sample_file) = Ok (''C:'' @ backslash # ''logs'' @ backslash # ''fight.zevtc'')"
  by (simp add: wire_path_def encode_unc_path_def encode_path_def to_str_def sample_file_def utf8_valid_ascii
      of_string_def backslash_def)

lemma sample_kept_valid: "validate_record sample_kept = Ok ()"
proof -
  have "is_ok (encode_file_time 7700)" "is_ok (encode_detected_time 99)"
    by (simp_all add: encode_file_time_def encode_detected_time_def fits_i64_def quotient_def Let_def
        windows_epoch_seconds_def ticks_per_second_def)
  moreover have "is_ok (restore_job 1 sample_kept)"
    by (simp add: restore_job_iff record_valid_def sample_kept_def sample_job_def sample_file_def)
  moreover have "text_ok 4096 (''C:'' @ backslash # ''logs'' @ backslash # ''fight.zevtc'')"
    by (simp add: text_ok_def byte_def backslash_def)
  ultimately show ?thesis
    using sample_wire_path
    by (simp add: validate_record_iff)
      (simp add: sample_kept_def sample_job_def sample_file_def text_ok_def default_status_def)
qed

lemma sample_kept_encodes: "encode_history (\<lambda>_. [''{}'']) (\<lambda>_. True) [sample_kept] 5 = Ok ''{}\<newline>''"
proof -
  obtain w where w: "encode_record sample_kept = Ok w"
    using validated_encodes [OF sample_kept_valid] by (auto simp: is_ok_iff)
  then show ?thesis
    using sample_kept_valid
    by (simp add: encode_history_def validate_records_iff [THEN iffD2] max_history_records_def write_all_def
        no_output_def max_history_bytes_def)
qed

theorem history_survives_restart_witness:
  "\<exists>doc logs. encode_history (\<lambda>_. [''{}'']) (\<lambda>_. True) [sample_kept] 5 = Ok doc \<and>
     decode_history sample_range (\<lambda>_. Some \<lparr>w_schema_version = 1, w_logs = logs\<rparr>) doc 5 = Ok [stored sample_kept]"
proof -
  obtain w where w: "encode_record sample_kept = Ok w"
    using validated_encodes [OF sample_kept_valid] by (auto simp: is_ok_iff)
  note sample_kept_encodes
  moreover have "keepable sample_range sample_kept" "representable sample_range 0"
    by (auto simp: keepable_def representable_def sample_range_def sample_kept_def sample_job_def sample_file_def
        absolute_def is_upper_def byte_def name_ok_def is_sep_def backslash_def
        intro!: exI [of _ "[''logs'', ''fight.zevtc'']"])
  ultimately show ?thesis
    using history_survives_restart [of "\<lambda>_. [''{}'']" "\<lambda>_. True" "[sample_kept]" 5 "''{}\<newline>''" "[w]"
        "\<lambda>_. Some \<lparr>w_schema_version = 1, w_logs = [w]\<rparr>" sample_range] w
    by auto
qed

end
