(* ===== verification/File_Store.thy ===== *)
theory File_Store
  imports Paths
begin

text \<open>
  Persistent files: the port \<open>FileStore\<close> of \<open>rust/src/application/storage.rs\<close> and its implementation
  \<open>rust/src/filesystem/file_store.rs\<close>, which replaces a file through a temporary one.

  The file system is a map from path texts to nodes. Every call into it is numbered, and an oracle
  decides which calls fail; a failing write leaves any prefix of its bytes. The source returns at the
  first failing call of a write without further effect, so the states after an error are also the
  states in which a crash can leave the files.
\<close>

section \<open>The port\<close>

type_synonym 'a stored_result = "(file_error, 'a) result"

record 'w files =
  fs_read :: "string \<Rightarrow> nat \<Rightarrow> 'w \<Rightarrow> string option stored_result \<times> 'w"
  fs_write :: "string \<Rightarrow> string \<Rightarrow> 'w \<Rightarrow> unit stored_result \<times> 'w"
  fs_erase :: "string \<Rightarrow> 'w \<Rightarrow> unit stored_result \<times> 'w"

definition temporary_path :: "string \<Rightarrow> string" where
  "temporary_path p = p @ ''.tmp''"

text \<open>
  What the users of the port rely on: reading returns what a path holds and changes nothing; a write
  is all or nothing, also when it reports an error, and touches no path but its own and the
  temporary one beside it.
\<close>

locale atomic_files =
  fixes files :: "'w files"
    and content :: "'w \<Rightarrow> string \<Rightarrow> string option"
  assumes read_content: "fs_read files p n w = (Ok c, w2) \<Longrightarrow> c = content w p"
    and read_too_large: "fs_read files p n w = (Err FileTooLarge, w2) \<Longrightarrow>
      \<exists>d. content w p = Some d \<and> n < length d"
    and read_frame: "fs_read files p n w = (r1, w2) \<Longrightarrow> content w2 = content w"
    and write_ok: "fs_write files p c1 w = (Ok u, w2) \<Longrightarrow> content w2 p = Some c1"
    and write_err: "fs_write files p c1 w = (Err e, w2) \<Longrightarrow> content w2 p = content w p \<or> content w2 p = Some c1"
    and write_frame: "fs_write files p c1 w = (r2, w2) \<Longrightarrow> q \<noteq> p \<Longrightarrow> q \<noteq> temporary_path p \<Longrightarrow>
      content w2 q = content w q"
    and erase_ok: "fs_erase files p w = (Ok u, w2) \<Longrightarrow> content w2 p = None"
    and erase_frame: "fs_erase files p w = (r2, w2) \<Longrightarrow> q \<noteq> p \<Longrightarrow> q \<noteq> temporary_path p \<Longrightarrow>
      content w2 q = content w q"
begin

lemma write_all_or_nothing:
  "fs_write files p c w = (r, w2) \<Longrightarrow>
     (r = Ok () \<longrightarrow> content w2 p = Some c) \<and> (content w2 p = content w p \<or> content w2 p = Some c)"
  by (cases r) (auto dest: write_ok write_err)

lemma read_after_write:
  "fs_write files p c w = (Ok u, w2) \<Longrightarrow> fs_read files p n w2 = (Ok x, w3) \<Longrightarrow> x = Some c"
  by (auto dest: write_ok read_content)

end

section \<open>The file system\<close>

datatype node = Plain string | Directory | Symlink

record filesystem =
  nodes :: "string \<Rightarrow> node option"
  calls :: nat

text \<open>
  The oracle: which calls fail, how many bytes a failing write leaves, and whether an allocation of a
  length succeeds.
\<close>

record os =
  fault :: "nat \<Rightarrow> bool"
  leaves :: "nat \<Rightarrow> nat"
  os_alloc :: "nat \<Rightarrow> bool"

definition next_call :: "filesystem \<Rightarrow> filesystem" where
  "next_call s = s\<lparr>calls := Suc (calls s)\<rparr>"

definition failing :: "os \<Rightarrow> filesystem \<Rightarrow> bool" where
  "failing os s = fault os (calls s)"

definition content :: "filesystem \<Rightarrow> string \<Rightarrow> string option" where
  "content s p = (case nodes s p of Some (Plain c) \<Rightarrow> Some c | _ \<Rightarrow> None)"

definition set_node :: "string \<Rightarrow> node option \<Rightarrow> filesystem \<Rightarrow> filesystem" where
  "set_node p n s = (next_call s)\<lparr>nodes := (nodes s)(p := n)\<rparr>"

text \<open>\<open>fs::remove_file\<close>: \<open>Ok True\<close> when it removed the path, \<open>Ok False\<close> when there was none.\<close>

definition remove_if_present :: "os \<Rightarrow> string \<Rightarrow> filesystem \<Rightarrow> bool stored_result \<times> filesystem" where
  "remove_if_present os p s =
     (if failing os s \<or> nodes s p = Some Directory then (Err DeleteFailed, next_call s)
      else if nodes s p = None then (Ok False, next_call s)
      else (Ok True, set_node p None s))"

text \<open>\<open>create_new\<close> refuses a path that exists.\<close>

definition create_new :: "os \<Rightarrow> string \<Rightarrow> filesystem \<Rightarrow> unit stored_result \<times> filesystem" where
  "create_new os p s =
     (if failing os s \<or> nodes s p \<noteq> None then (Err WriteFailed, next_call s)
      else (Ok (), set_node p (Some (Plain [])) s))"

definition write_file :: "os \<Rightarrow> string \<Rightarrow> string \<Rightarrow> filesystem \<Rightarrow> unit stored_result \<times> filesystem" where
  "write_file os p c s =
     (if failing os s then (Err WriteFailed, set_node p (Some (Plain (take (leaves os (calls s)) c))) s)
      else (Ok (), set_node p (Some (Plain c)) s))"

text \<open>A call without effect on the nodes: flushing, or creating the parent directories.\<close>

definition plain_call :: "os \<Rightarrow> file_error \<Rightarrow> filesystem \<Rightarrow> unit stored_result \<times> filesystem" where
  "plain_call os e s = (if failing os s then Err e else Ok (), next_call s)"

text \<open>\<open>AtomicFileCommit\<close>: the rename is atomic, the flush of the directory has no effect on it.\<close>

definition replace :: "os \<Rightarrow> string \<Rightarrow> string \<Rightarrow> filesystem \<Rightarrow> unit stored_result \<times> filesystem" where
  "replace os temporary destination s =
     (if failing os s \<or> nodes s destination = Some Directory \<or> nodes s temporary = None
      then (Err ReplaceFailed, next_call s)
      else (Ok (), (next_call s)\<lparr>nodes := (nodes s)(temporary := None, destination := nodes s temporary)\<rparr>))"

definition sync_parent :: "os \<Rightarrow> filesystem \<Rightarrow> unit stored_result \<times> filesystem" where
  "sync_parent os s = plain_call os FlushFailed s"

section \<open>Reading\<close>

definition max_persistent_bytes :: nat where
  "max_persistent_bytes = 32 * 1024 * 1024"

text \<open>
  The answers of an open file in the order of the calls: its metadata (whether it is a plain file,
  and its length), the blocks read until the first empty one, its length afterwards, and the two
  modification times. \<open>None\<close> is a failed call.
\<close>

record opened =
  first_metadata :: "(bool \<times> nat) option"
  blocks :: "string option list"
  last_length :: "nat option"
  first_modified :: "int option"
  last_modified :: "int option"

fun read_blocks :: "(nat \<Rightarrow> bool) \<Rightarrow> nat \<Rightarrow> string option list \<Rightarrow> string \<Rightarrow> string stored_result" where
  "read_blocks alloc mx [] contents = Ok contents"
| "read_blocks alloc mx (None # bs) contents = Err ReadFailed"
| "read_blocks alloc mx (Some b # bs) contents =
     (if mx - length contents < length b then Err FileTooLarge
      else if \<not> alloc (length contents + length b) then Err FileAllocationFailed
      else read_blocks alloc mx bs (contents @ b))"

definition read_opened :: "(nat \<Rightarrow> bool) \<Rightarrow> nat \<Rightarrow> opened \<Rightarrow> string option stored_result" where
  "read_opened alloc mx f =
     and_then (ok_or ReadFailed (first_metadata f)) (\<lambda>(is_file, len).
       if \<not> is_file then Err ReadFailed
       else if mx < len then Err FileTooLarge
       else if \<not> alloc len then Err FileAllocationFailed
       else and_then (read_blocks alloc mx (blocks f) []) (\<lambda>contents.
         and_then (ok_or ReadFailed (last_length f)) (\<lambda>after.
           if len \<noteq> length contents \<or> after \<noteq> len then Err ChangedDuringRead
           else and_then (ok_or ReadFailed (first_modified f)) (\<lambda>m1.
             and_then (ok_or ReadFailed (last_modified f)) (\<lambda>m2.
               if m1 \<noteq> m2 then Err ChangedDuringRead else Ok (Some contents))))))"

text \<open>The successive blocks of a file of which nobody else writes, cut off by a failing read.\<close>

function file_blocks :: "os \<Rightarrow> nat \<Rightarrow> string \<Rightarrow> string option list" where
  "file_blocks os n c =
     (if fault os n then [None]
      else if c = [] then []
      else Some (take 8192 c) # file_blocks os (Suc n) (drop 8192 c))"
  by pat_completeness auto
termination
  by (relation "measure (\<lambda>(_, _, c). length c)") auto

declare file_blocks.simps [simp del]

definition open_view :: "os \<Rightarrow> nat \<Rightarrow> string \<Rightarrow> opened" where
  "open_view os n c =
     (let bs = file_blocks os (Suc n) c; k = n + length bs in
      \<lparr>first_metadata = (if fault os n then None else Some (True, length c)), blocks = bs,
       last_length = (if fault os (k + 2) then None else Some (length c)),
       first_modified = (if fault os (k + 3) then None else Some 0),
       last_modified = (if fault os (k + 4) then None else Some 0)\<rparr>)"

section \<open>The implementation of the port\<close>

definition store_read ::
  "os \<Rightarrow> string \<Rightarrow> nat \<Rightarrow> filesystem \<Rightarrow> string option stored_result \<times> filesystem" where
  "store_read os p mx s =
     (case validate_storage_path p of
        Err e \<Rightarrow> (Err e, s)
      | Ok _ \<Rightarrow>
          if \<not> (1 \<le> mx \<and> mx \<le> max_persistent_bytes) then (Err InvalidLimit, s)
          else if failing os s then (Err ReadFailed, next_call s)
          else (case nodes s p of
              None \<Rightarrow> (Ok None, next_call s)
            | Some (Plain c) \<Rightarrow>
                let s1 = next_call s in
                if failing os s1 then (Err ReadFailed, next_call s1)
                else let f = open_view os (calls s1 + 1) c in
                  (read_opened (os_alloc os) mx f, s1\<lparr>calls := calls s1 + 6 + length (blocks f)\<rparr>)
            | Some _ \<Rightarrow> (Err ReadFailed, next_call s)))"

text \<open>The \<open>?\<close> operator on a call: stop at the first error, in the state it left.\<close>

definition bind_call ::
  "'a stored_result \<times> 's \<Rightarrow> ('a \<Rightarrow> 's \<Rightarrow> 'b stored_result \<times> 's) \<Rightarrow> 'b stored_result \<times> 's" where
  "bind_call r f = (case r of (Err e, s) \<Rightarrow> (Err e, s) | (Ok x, s) \<Rightarrow> f x s)"

definition has_parent :: "string \<Rightarrow> bool" where
  "has_parent p \<longleftrightarrow> butlast (parse_path p) \<noteq> []"

definition write_atomic :: "os \<Rightarrow> string \<Rightarrow> string \<Rightarrow> filesystem \<Rightarrow> unit stored_result \<times> filesystem" where
  "write_atomic os p contents s =
     bind_call (validate_storage_path p, s) (\<lambda>_ s.
       if max_persistent_bytes < length contents then (Err FileTooLarge, s)
       else bind_call (if has_parent p then plain_call os DirectoryCreateFailed s else (Ok (), s)) (\<lambda>_ s.
         let temporary = temporary_path p in
         bind_call (remove_if_present os temporary s) (\<lambda>_ s.
         bind_call (create_new os temporary s) (\<lambda>_ s.
         bind_call (write_file os temporary contents s) (\<lambda>_ s.
         bind_call (plain_call os FlushFailed s) (\<lambda>_ s.
         bind_call (replace os temporary p s) (\<lambda>_ s.
           sync_parent os s)))))))"

definition store_erase :: "os \<Rightarrow> string \<Rightarrow> filesystem \<Rightarrow> unit stored_result \<times> filesystem" where
  "store_erase os p s =
     bind_call (validate_storage_path p, s) (\<lambda>_ s.
       case remove_if_present os p s of
         (primary, s1) \<Rightarrow>
           (case remove_if_present os (temporary_path p) s1 of
              (temporary, s2) \<Rightarrow>
                (case (if primary = Ok True \<or> temporary = Ok True then sync_parent os s2 else (Ok (), s2)) of
                   (synced, s3) \<Rightarrow>
                     (and_then primary (\<lambda>_. and_then temporary (\<lambda>_. synced)), s3))))"

definition filesystem_store :: "os \<Rightarrow> filesystem files" where
  "filesystem_store os = \<lparr>fs_read = store_read os, fs_write = write_atomic os, fs_erase = store_erase os\<rparr>"

section \<open>Lemmas\<close>

lemma temporary_differs [simp]: "temporary_path p \<noteq> p" "p \<noteq> temporary_path p"
  by (simp_all add: temporary_path_def)

lemma content_next_call [simp]: "content (next_call s) = content s" "nodes (next_call s) = nodes s"
  by (simp_all add: content_def next_call_def fun_eq_iff)

lemma content_set_node [simp]:
  "content (set_node p n s) q =
     (if q = p then (case n of Some (Plain c) \<Rightarrow> Some c | _ \<Rightarrow> None) else content s q)"
  by (simp add: content_def set_node_def)

lemma nodes_set_node [simp]: "nodes (set_node p n s) = (nodes s)(p := n)"
  by (simp add: set_node_def)

lemma read_blocks_Ok:
  "read_blocks alloc mx bs contents = Ok c \<Longrightarrow>
     c = contents @ concat (map the bs) \<and> None \<notin> set bs \<and> (length contents \<le> mx \<longrightarrow> length c \<le> mx)"
  by (induction alloc mx bs contents rule: read_blocks.induct) (auto split: if_splits)

text \<open>What a successful read means for any answers of the file: it was stable and within the limit.\<close>

lemma read_opened_Ok:
  "read_opened alloc mx f = Ok (Some c) \<Longrightarrow>
     c = concat (map the (blocks f)) \<and> first_metadata f = Some (True, length c) \<and>
     last_length f = Some (length c) \<and> first_modified f = last_modified f \<and> length c \<le> mx"
  by (auto simp: read_opened_def split: if_splits dest: read_blocks_Ok)

lemma read_opened_Some: "read_opened alloc mx f = Ok x \<Longrightarrow> x \<noteq> None"
  by (auto simp: read_opened_def split: if_splits)

lemma file_blocks_concat: "None \<notin> set (file_blocks os n c) \<Longrightarrow> concat (map the (file_blocks os n c)) = c"
proof (induction os n c rule: file_blocks.induct)
  case (1 os n c)
  show ?case
  proof (cases "fault os n \<or> c = []")
    case True
    then show ?thesis using 1(2) by (auto simp: file_blocks.simps [of os n c])
  next
    case False
    then show ?thesis using 1 by (simp add: file_blocks.simps [of os n c])
  qed
qed

text \<open>A read through the store returns what the path holds, and changes no path.\<close>

lemma open_view_content:
  "read_opened alloc mx (open_view os n c) = Ok (Some d) \<Longrightarrow> d = c"
proof -
  assume ok: "read_opened alloc mx (open_view os n c) = Ok (Some d)"
  then have "None \<notin> set (file_blocks os (Suc n) c)"
    by (auto simp: read_opened_def open_view_def Let_def split: if_splits dest: read_blocks_Ok)
  with read_opened_Ok [OF ok] file_blocks_concat show ?thesis by (auto simp: open_view_def Let_def)
qed

lemma store_read_content: "store_read os p mx s = (Ok x, s2) \<Longrightarrow> x = content s p"
  by (cases x)
    (auto simp: store_read_def content_def Let_def split: sum.splits if_splits option.splits node.splits
      dest: open_view_content read_opened_Some)

lemma content_calls [simp]: "content (s\<lparr>calls := n\<rparr>) = content s"
  by (simp add: content_def fun_eq_iff)

lemma store_read_frame: "store_read os p mx s = (r, s2) \<Longrightarrow> content s2 = content s"
  by (auto simp: store_read_def Let_def split: sum.splits if_splits option.splits node.splits)

subsection \<open>Effects of the calls\<close>

text \<open>
  \<open>keeps Q s s2\<close>: between two states, the paths outside \<open>Q\<close> hold the same content.
\<close>

definition keeps :: "string set \<Rightarrow> filesystem \<Rightarrow> filesystem \<Rightarrow> bool" where
  "keeps Q s s2 \<longleftrightarrow> (\<forall>q. q \<notin> Q \<longrightarrow> content s2 q = content s q)"

lemma keeps_refl [simp]: "keeps Q s s" "keeps Q s (next_call s)"
  by (simp_all add: keeps_def)

lemma keeps_trans: "keeps Q s t \<Longrightarrow> keeps R t u \<Longrightarrow> keeps (Q \<union> R) s u"
  by (simp add: keeps_def)

lemma keepsD: "keeps Q s t \<Longrightarrow> q \<notin> Q \<Longrightarrow> content t q = content s q"
  by (simp add: keeps_def)

lemma remove_keeps: "remove_if_present os p s = (r, s2) \<Longrightarrow> keeps {p} s s2"
  by (auto simp: remove_if_present_def keeps_def split: if_splits)

lemma remove_ok: "remove_if_present os p s = (Ok b, s2) \<Longrightarrow> content s2 p = None"
  by (auto simp: remove_if_present_def content_def split: if_splits)

lemma create_keeps: "create_new os p s = (r, s2) \<Longrightarrow> keeps {p} s s2"
  by (auto simp: create_new_def keeps_def split: if_splits)

lemma write_keeps: "write_file os p c s = (r, s2) \<Longrightarrow> keeps {p} s s2"
  by (auto simp: write_file_def keeps_def split: if_splits)

lemma write_ok: "write_file os p c s = (Ok u, s2) \<Longrightarrow> content s2 p = Some c"
  by (auto simp: write_file_def split: if_splits)

lemma plain_keeps: "plain_call os e s = (r, s2) \<Longrightarrow> keeps {} s s2"
  by (auto simp: plain_call_def keeps_def)

lemma replace_keeps: "replace os t p s = (r, s2) \<Longrightarrow> keeps {t, p} s s2"
  by (auto simp: replace_def keeps_def content_def next_call_def split: if_splits)

lemma replace_err: "replace os t p s = (Err e, s2) \<Longrightarrow> keeps {} s s2"
  by (auto simp: replace_def keeps_def split: if_splits)

lemma replace_ok: "replace os t p s = (Ok u, s2) \<Longrightarrow> t \<noteq> p \<Longrightarrow> content s2 p = content s t"
  by (auto simp: replace_def content_def next_call_def split: if_splits)

lemma bind_call_cases:
  assumes "bind_call r f = (x, s2)"
  obtains e where "r = (Err e, s2)" and "x = Err e"
    | v s1 where "r = (Ok v, s1)" and "f v s1 = (x, s2)"
  using assms by (auto simp: bind_call_def split: prod.splits sum.splits)

text \<open>Everything before the rename happens beside the destination.\<close>

definition staged :: "os \<Rightarrow> string \<Rightarrow> string \<Rightarrow> filesystem \<Rightarrow> unit stored_result \<times> filesystem" where
  "staged os p contents s =
     (let temporary = temporary_path p in
       bind_call (remove_if_present os temporary s) (\<lambda>_ s.
       bind_call (create_new os temporary s) (\<lambda>_ s.
       bind_call (write_file os temporary contents s) (\<lambda>_ s.
         plain_call os FlushFailed s))))"

lemma bind_call_assoc:
  "bind_call (bind_call r f) g = bind_call r (\<lambda>x s. bind_call (f x s) g)"
  by (cases r; cases "fst r") (auto simp: bind_call_def)

lemma write_atomic_staged:
  "write_atomic os p contents s =
     bind_call (validate_storage_path p, s) (\<lambda>_ s.
       if max_persistent_bytes < length contents then (Err FileTooLarge, s)
       else bind_call (if has_parent p then plain_call os DirectoryCreateFailed s else (Ok (), s)) (\<lambda>_ s.
         bind_call (staged os p contents s) (\<lambda>_ s.
         bind_call (replace os (temporary_path p) p s) (\<lambda>_ s. sync_parent os s))))"
  unfolding write_atomic_def staged_def Let_def bind_call_assoc ..

lemma staged_effect:
  assumes "staged os p c s = (r, s2)"
  shows "keeps {temporary_path p} s s2 \<and> (is_ok r \<longrightarrow> content s2 (temporary_path p) = Some c)"
  using assms unfolding staged_def Let_def
  by (elim bind_call_cases)
    (auto simp: keeps_def dest!: remove_keeps create_keeps plain_keeps dest: write_keeps write_ok)

text \<open>A write in one rule: what the destination holds, and what is left alone.\<close>

lemma write_atomic_effect:
  assumes "write_atomic os p c s = (r, s2)"
  shows "keeps {p, temporary_path p} s s2 \<and>
     (content s2 p = content s p \<or> content s2 p = Some c) \<and> (is_ok r \<longrightarrow> content s2 p = Some c)"
proof -
  have staged: "keeps {temporary_path p} s s1 \<and> (is_ok x \<longrightarrow> content s1 (temporary_path p) = Some c)"
    if "keeps {} s t" "staged os p c t = (x, s1)" for x s1 t
    using that(1) staged_effect [OF that(2)] by (auto simp: keeps_def)
  have parent: "keeps {} s t" if "(if has_parent p then plain_call os DirectoryCreateFailed s else (Ok (), s)) = (x, t)" for x t
    using that by (auto split: if_splits dest: plain_keeps)
  show ?thesis
    using assms unfolding write_atomic_staged
  proof (elim bind_call_cases, goal_cases)
    case (2 v s1)
    then show ?case
    proof (cases "max_persistent_bytes < length c")
      case True
      then show ?thesis using 2 by auto
    next
      case False
      with 2 have "s1 = s" and
        run: "bind_call (if has_parent p then plain_call os DirectoryCreateFailed s else (Ok (), s)) (\<lambda>_ s.
         bind_call (staged os p c s) (\<lambda>_ s.
         bind_call (replace os (temporary_path p) p s) (\<lambda>_ s. sync_parent os s))) = (r, s2)"
        by auto
      from run show ?thesis
      proof (elim bind_call_cases, goal_cases)
        case 1
        then show ?thesis using parent by (auto simp: keeps_def)
      next
        case 2
        then show ?thesis using staged [OF parent] by (auto simp: keeps_def)
      next
        case 3
        then show ?thesis using staged [OF parent] replace_err by (fastforce simp: keeps_def)
      next
        case (4 v1 t1 v2 t2 v3 t3)
        have "keeps {temporary_path p, p} t2 t3" "content t3 p = content t2 (temporary_path p)"
          using 4(3) replace_keeps replace_ok by auto
        moreover have "keeps {} t3 s2" using 4 plain_keeps by (auto simp: sync_parent_def)
        ultimately show ?thesis using staged [OF parent [OF 4(1)] 4(2)] by (auto simp: keeps_def)
      qed
    qed
  qed auto
qed

lemma store_erase_effect:
  assumes "store_erase os p s = (r, s2)"
  shows "keeps {p, temporary_path p} s s2 \<and> (is_ok r \<longrightarrow> content s2 p = None)"
proof -
  obtain primary s1 where a: "remove_if_present os p s = (primary, s1)" by fastforce
  obtain temporary t where b: "remove_if_present os (temporary_path p) s1 = (temporary, t)" by fastforce
  obtain synced s3 where c: "(if primary = Ok True \<or> temporary = Ok True then sync_parent os t else (Ok (), t)) = (synced, s3)"
    by fastforce
  have k: "keeps {p} s s1" "keeps {temporary_path p} s1 t" "keeps {} t s3"
    using remove_keeps [OF a] remove_keeps [OF b] c
    by (auto simp: sync_parent_def split: if_splits dest: plain_keeps)
  have "is_ok primary \<longrightarrow> content s1 p = None" using remove_ok a by (auto simp: is_ok_iff)
  moreover have "content s3 p = content s1 p" using k by (auto simp: keeps_def)
  ultimately show ?thesis
    using assms k
    by (auto simp: store_erase_def bind_call_def a b c keeps_def is_ok_iff split: sum.splits)
qed

text \<open>A file within the limit is never refused for its size.\<close>

lemma read_blocks_fits:
  "read_blocks alloc mx bs contents = Err FileTooLarge \<Longrightarrow>
     mx < length contents + length (concat (map the (filter (\<lambda>b. b \<noteq> None) bs)))"
  by (induction alloc mx bs contents rule: read_blocks.induct) (auto split: if_splits)

lemma file_blocks_length:
  "length (concat (map the (filter (\<lambda>b. b \<noteq> None) (file_blocks os n c)))) \<le> length c"
proof (induction os n c rule: file_blocks.induct)
  case (1 os n c)
  then show ?case by (cases "fault os n \<or> c = []") (auto simp: file_blocks.simps [of os n c])
qed

lemma open_view_fits: "read_opened alloc mx (open_view os n c) = Err FileTooLarge \<Longrightarrow> mx < length c"
  using file_blocks_length [of os "Suc n" c]
  by (auto simp: read_opened_def open_view_def Let_def and_then_Err_iff split: if_splits dest!: read_blocks_fits)

lemma store_read_too_large:
  "store_read os p mx s = (Err FileTooLarge, s2) \<Longrightarrow> \<exists>d. content s p = Some d \<and> mx < length d"
  by (auto simp: store_read_def content_def Let_def validate_storage_path_def
      split: sum.splits if_splits option.splits node.splits dest: open_view_fits)

interpretation stored: atomic_files "filesystem_store os" content for os
proof
  fix p n w c w2
  assume "fs_read (filesystem_store os) p n w = (Ok c, w2)"
  then show "c = content w p" by (auto simp: filesystem_store_def intro: store_read_content)
next
  fix p n w w2
  assume "fs_read (filesystem_store os) p n w = (Err FileTooLarge, w2)"
  then show "\<exists>d. content w p = Some d \<and> n < length d" by (auto simp: filesystem_store_def intro: store_read_too_large)
next
  fix p n w r w2
  assume "fs_read (filesystem_store os) p n w = (r, w2)"
  then show "content w2 = content w" by (auto simp: filesystem_store_def intro: store_read_frame)
qed (auto simp: filesystem_store_def keeps_def dest!: write_atomic_effect store_erase_effect)

text \<open>Without failing calls and without directories in the way, a write succeeds.\<close>

lemma reliable_write_succeeds:
  assumes "validate_storage_path p = Ok ()" and "length c \<le> max_persistent_bytes" and "\<And>n. \<not> fault os n"
    and "nodes s p \<noteq> Some Directory" and "nodes s (temporary_path p) \<noteq> Some Directory"
  shows "\<exists>s2. write_atomic os p c s = (Ok (), s2)"
  using assms
  by (auto simp: write_atomic_def bind_call_def plain_call_def failing_def remove_if_present_def create_new_def
      write_file_def replace_def sync_parent_def set_node_def next_call_def Let_def)

section \<open>Properties\<close>

text \<open>
  C19: Replacing a file is atomic. Whichever call into the operating system fails, at whatever point
  (and so wherever a crash stops it), the destination afterwards holds either exactly what it held
  before or exactly the new contents; it holds the new contents when the write reports success; a later
  successful read returns what it holds; and no path but the destination and its temporary file changes.
\<close>

theorem write_is_atomic:
  assumes "write_atomic os p c s = (r, s2)"
  shows "(content s2 p = content s p \<or> content s2 p = Some c) \<and> (r = Ok () \<longrightarrow> content s2 p = Some c) \<and>
     (\<forall>mx x s3. store_read os p mx s2 = (Ok x, s3) \<longrightarrow> x = content s2 p \<and> content s3 = content s2) \<and>
     (\<forall>q. q \<noteq> p \<and> q \<noteq> temporary_path p \<longrightarrow> content s2 q = content s q)"
  using write_atomic_effect [OF assms] store_read_content store_read_frame
  by (auto simp: keeps_def dest: stored.read_content)

theorem write_is_atomic_witness:
  "\<exists>s2. write_atomic \<lparr>fault = (\<lambda>n. n = 6), leaves = (\<lambda>_. 2), os_alloc = (\<lambda>_. True)\<rparr> ''x'' ''new''
       \<lparr>nodes = [''x'' \<mapsto> Plain ''old''], calls = 4\<rparr> = (Err WriteFailed, s2) \<and>
     (content s2 ''x'' = Some ''old'' \<or> content s2 ''x'' = Some ''new'')"
proof -
  let ?os = "\<lparr>fault = (\<lambda>n. n = 6), leaves = (\<lambda>_. 2), os_alloc = (\<lambda>_. True)\<rparr>"
  let ?s = "\<lparr>nodes = [''x'' \<mapsto> Plain ''old''], calls = 4\<rparr>"
  have "validate_storage_path ''x'' = Ok ()" and "\<not> has_parent ''x''" by code_simp+
  then obtain s2 where s2: "write_atomic ?os ''x'' ''new'' ?s = (Err WriteFailed, s2)"
    by (simp add: write_atomic_def bind_call_def temporary_path_def remove_if_present_def failing_def create_new_def
        write_file_def set_node_def next_call_def max_persistent_bytes_def Let_def)
  from write_is_atomic [OF s2] s2 show ?thesis by (auto simp: content_def)
qed

end
