(* ===== verification/History_Store.thy ===== *)
theory History_Store
  imports History File_Store
begin

text \<open>
  The persistent upload history (\<open>rust/src/application/history_store.rs\<close>,
  \<open>rust/src/config/history_store.rs\<close>): opening with recovery, and merging new records into the
  retained ones. The files are the port of \<open>File_Store\<close>, so the store is a function of it and of the
  world behind it.
\<close>

datatype history_recovery = RecoverDocument | RecoverFile file_error

datatype history_store_error =
  StoreConfiguration | StoreRecord | StoreTooLarge | StoreDuplicate | StoreSerialization
| StoreFile file_error

record history_store =
  hs_path :: string
  hs_capacity :: nat
  hs_records :: "upload_job_record list"
  hs_recovery :: "history_recovery option"

fun store_error :: "document_error \<Rightarrow> history_store_error" where
  "store_error DocumentCapacity = StoreConfiguration"
| "store_error DocumentTooLarge = StoreTooLarge"
| "store_error DocumentDuplicate = StoreDuplicate"
| "store_error DocumentSerialization = StoreSerialization"
| "store_error DocumentJson = StoreRecord"
| "store_error DocumentSchema = StoreRecord"
| "store_error DocumentRecord = StoreRecord"

definition open_history ::
  "time_range \<Rightarrow> (string \<Rightarrow> wire_document option) \<Rightarrow> 'w files \<Rightarrow> string \<Rightarrow> nat \<Rightarrow> 'w \<Rightarrow>
     (history_store_error, history_store) result \<times> 'w" where
  "open_history P parse files path capacity w =
     (case and_then (map_err (\<lambda>_. StoreConfiguration) (validate_storage_path path))
             (\<lambda>_. map_err store_error (validate_capacity capacity)) of
        Err e \<Rightarrow> (Err e, w)
      | Ok _ \<Rightarrow>
          (case fs_read files path max_history_bytes w of
             (found, w2) \<Rightarrow>
               let (records, recovery) =
                 (case found of
                    Ok None \<Rightarrow> ([], None)
                  | Ok (Some bytes) \<Rightarrow>
                      (case decode_history P parse bytes capacity of
                         Ok records \<Rightarrow> (records, None)
                       | Err _ \<Rightarrow> ([], Some RecoverDocument))
                  | Err e \<Rightarrow> ([], Some (RecoverFile e)))
               in (Ok \<lparr>hs_path = path, hs_capacity = capacity, hs_records = records,
                     hs_recovery = recovery\<rparr>, w2)))"

abbreviation record_key :: "upload_job_record \<Rightarrow> path \<times> u64 \<times> system_time" where
  "record_key r \<equiv> identity_key (job_file r)"

type_synonym indices = "path \<times> u64 \<times> system_time \<Rightarrow> nat option"

definition merge_step :: "upload_job_record \<Rightarrow> indices \<times> upload_job_record list \<Rightarrow> indices \<times> upload_job_record list"
where
  "merge_step r st = (case st of (indices, merged) \<Rightarrow>
     (case indices (record_key r) of
        Some i \<Rightarrow> (indices, merged[i := r])
      | None \<Rightarrow> (indices(record_key r \<mapsto> length merged), merged @ [r])))"

definition index_records :: "upload_job_record list \<Rightarrow> indices" where
  "index_records rs = map_of (rev (zip (map record_key rs) [0..<length rs]))"

definition merge :: "upload_job_record list \<Rightarrow> upload_job_record list \<Rightarrow> upload_job_record list" where
  "merge rs updates = snd (fold merge_step updates (index_records rs, rs))"

definition merge_and_save ::
  "(wire_document \<Rightarrow> string list) \<Rightarrow> (nat \<Rightarrow> bool) \<Rightarrow> 'w files \<Rightarrow> upload_job_record list \<Rightarrow> history_store \<Rightarrow> 'w \<Rightarrow>
     (history_store_error, unit) result \<times> history_store \<times> 'w" where
  "merge_and_save render alloc files updates s w =
     (case map_err store_error (validate_records updates max_history_records) of
        Err e \<Rightarrow> (Err e, s, w)
      | Ok _ \<Rightarrow>
          let merged = merge (hs_records s) updates;
              kept = drop (length merged - hs_capacity s) merged
          in (case map_err store_error (encode_history render alloc kept (hs_capacity s)) of
                Err e \<Rightarrow> (Err e, s, w)
              | Ok bytes \<Rightarrow>
                  (case fs_write files (hs_path s) bytes w of
                     (Err e, w2) \<Rightarrow> (Err (StoreFile e), s, w2)
                   | (Ok _, w2) \<Rightarrow> (Ok (), s\<lparr>hs_records := kept, hs_recovery := None\<rparr>, w2))))"

section \<open>Merging against its specification\<close>

text \<open>
  The specification: a retained record is replaced in place by the update with its identity, and the
  updates with new identities follow in their order.
\<close>

definition replacement :: "upload_job_record list \<Rightarrow> upload_job_record \<Rightarrow> upload_job_record" where
  "replacement updates r =
     (case find (\<lambda>u. record_key u = record_key r) updates of Some u \<Rightarrow> u | None \<Rightarrow> r)"

definition merge_spec :: "upload_job_record list \<Rightarrow> upload_job_record list \<Rightarrow> upload_job_record list" where
  "merge_spec rs updates =
     map (replacement updates) rs @ filter (\<lambda>u. record_key u \<notin> record_key ` set rs) updates"

definition indexed :: "indices \<Rightarrow> upload_job_record list \<Rightarrow> bool" where
  "indexed ix rs \<longleftrightarrow> (\<forall>k i. ix k = Some i \<longleftrightarrow> i < length rs \<and> record_key (rs ! i) = k)"

lemma index_records_indexed: "distinct (map record_key rs) \<Longrightarrow> indexed (index_records rs) rs"
proof -
  assume d: "distinct (map record_key rs)"
  let ?z = "zip (map record_key rs) [0..<length rs]"
  have dk: "distinct (map fst (rev ?z))" using d by (simp add: rev_map [symmetric])
  have "index_records rs k = Some i \<longleftrightarrow> (k, i) \<in> set ?z" for k i
    unfolding index_records_def using map_of_eq_Some_iff [OF dk] by simp
  moreover have "(k, i) \<in> set ?z \<longleftrightarrow> i < length rs \<and> record_key (rs ! i) = k" for k i
    by (auto simp: in_set_zip intro!: exI [of _ i])
  ultimately show ?thesis unfolding indexed_def by blast
qed

lemma indexed_iff: "indexed ix rs \<Longrightarrow> ix k = Some i \<longleftrightarrow> i < length rs \<and> record_key (rs ! i) = k"
  unfolding indexed_def by blast

lemma indexedI: "(\<And>k i. ix k = Some i \<longleftrightarrow> i < length rs \<and> record_key (rs ! i) = k) \<Longrightarrow> indexed ix rs"
  unfolding indexed_def by blast

lemma indexed_None: "indexed ix rs \<Longrightarrow> ix k = None \<longleftrightarrow> k \<notin> record_key ` set rs"
proof -
  assume "indexed ix rs"
  then have at: "ix k = Some i \<longleftrightarrow> i < length rs \<and> record_key (rs ! i) = k" for i
    unfolding indexed_def by blast
  have "ix k = None \<longleftrightarrow> (\<forall>i. ix k \<noteq> Some i)" by simp
  also have "\<dots> \<longleftrightarrow> (\<forall>r \<in> set rs. record_key r \<noteq> k)" unfolding at all_set_conv_all_nth by blast
  finally show ?thesis by auto
qed

definition put :: "upload_job_record \<Rightarrow> upload_job_record list \<Rightarrow> upload_job_record list" where
  "put u rs =
     (if record_key u \<in> record_key ` set rs
      then map (\<lambda>r. if record_key r = record_key u then u else r) rs else rs @ [u])"

lemma merge_step_put:
  assumes ix: "indexed ix rs" and d: "distinct (map record_key rs)" and "merge_step u (ix, rs) = (ix2, rs2)"
  shows "rs2 = put u rs \<and> indexed ix2 rs2 \<and> distinct (map record_key rs2)"
proof (cases "ix (record_key u)")
  case None
  then have new: "record_key u \<notin> record_key ` set rs" using indexed_None [OF ix] by blast
  with None assms(3) have "rs2 = rs @ [u]" "ix2 = ix(record_key u \<mapsto> length rs)"
    by (auto simp: merge_step_def)
  moreover have "indexed (ix(record_key u \<mapsto> length rs)) (rs @ [u])"
  proof (rule indexedI)
    fix k i
    show "(ix(record_key u \<mapsto> length rs)) k = Some i \<longleftrightarrow>
        i < length (rs @ [u]) \<and> record_key ((rs @ [u]) ! i) = k"
      using indexed_iff [OF ix, of k i] new
      by (auto simp: nth_append less_Suc_eq) (metis image_eqI nth_mem)
  qed
  ultimately show ?thesis using new d by (auto simp: put_def)
next
  case (Some i)
  then have i: "i < length rs" "record_key (rs ! i) = record_key u" using indexed_iff [OF ix] by auto
  have st: "rs2 = rs[i := u]" "ix2 = ix" using assms(3) Some by (auto simp: merge_step_def)
  have "rs[i := u] = map (\<lambda>r. if record_key r = record_key u then u else r) rs"
    using d i by (intro nth_equalityI) (auto simp: nth_list_update distinct_conv_nth, metis)
  moreover have "record_key u \<in> record_key ` set rs" using i by (metis image_eqI nth_mem)
  ultimately have "rs2 = put u rs" by (simp add: put_def st)
  moreover have "map record_key (rs[i := u]) = map record_key rs"
    using i by (simp add: map_update list_update_same_conv)
  then have "distinct (map record_key rs2)" using d st by (simp only:)
  moreover have "indexed ix2 rs2"
    unfolding st using indexed_iff [OF ix] i by (intro indexedI) (auto simp: nth_list_update)
  ultimately show ?thesis by blast
qed

lemma put_keys:
  "map record_key (put u rs) =
     (if record_key u \<in> record_key ` set rs then map record_key rs else map record_key rs @ [record_key u])"
  by (simp add: put_def)

lemma replacement_not_found: "record_key r \<notin> record_key ` set us \<Longrightarrow> replacement us r = r"
proof -
  assume "record_key r \<notin> record_key ` set us"
  then have "find (\<lambda>u. record_key u = record_key r) us = None"
    unfolding find_None_iff by (metis image_eqI)
  then show ?thesis by (simp add: replacement_def)
qed

lemma replacement_Cons: "replacement (u # us) r = (if record_key u = record_key r then u else replacement us r)"
  by (simp add: replacement_def)

lemma merge_spec_step:
  assumes "distinct (map record_key (u # us))" and "distinct (map record_key rs)"
  shows "merge_spec rs (u # us) = merge_spec (put u rs) us"
proof -
  have u: "record_key u \<notin> record_key ` set us" using assms by simp
  show ?thesis
  proof (cases "record_key u \<in> record_key ` set rs")
    case True
    have "record_key ` set (put u rs) = record_key ` set rs"
      using True put_keys [of u rs] by (metis set_map)
    moreover have "map (replacement us) (put u rs) = map (replacement (u # us)) rs"
      using True replacement_not_found [OF u] by (auto simp: put_def replacement_Cons)
    ultimately show ?thesis using True by (simp add: merge_spec_def)
  next
    case False
    have "map (replacement (u # us)) rs = map (replacement us) rs"
      using False by (auto simp: replacement_Cons)
    moreover have "filter (\<lambda>x. record_key x \<notin> record_key ` set (rs @ [u])) us =
        filter (\<lambda>x. record_key x \<notin> record_key ` set rs) us"
      using u by (intro filter_cong) (auto, metis image_eqI)
    ultimately show ?thesis
      using False replacement_not_found [OF u] by (simp add: merge_spec_def put_def)
  qed
qed

lemma merge_fold:
  assumes "indexed ix rs" and "distinct (map record_key rs)" and "distinct (map record_key us)"
  shows "snd (fold merge_step us (ix, rs)) = merge_spec rs us \<and> distinct (map record_key (merge_spec rs us))"
  using assms
proof (induction us arbitrary: ix rs)
  case Nil
  have "replacement [] = id" by (simp add: replacement_def fun_eq_iff)
  then show ?case using Nil by (simp add: merge_spec_def)
next
  case (Cons u us)
  obtain ix2 rs2 where step: "merge_step u (ix, rs) = (ix2, rs2)" by fastforce
  from merge_step_put [OF Cons.prems(1,2) step]
  have "rs2 = put u rs" "indexed ix2 rs2" "distinct (map record_key rs2)" by auto
  with Cons.IH [of ix2 rs2] Cons.prems merge_spec_step [of u us rs] step show ?case by simp
qed

lemma merge_is_spec:
  assumes "distinct (map record_key rs)" and "distinct (map record_key us)"
  shows "merge rs us = merge_spec rs us" and "distinct (map record_key (merge_spec rs us))"
  using merge_fold [OF index_records_indexed [OF assms(1)] assms] by (auto simp: merge_def)

section \<open>The store over any atomic files\<close>

definition history_store_ok :: "history_store \<Rightarrow> bool" where
  "history_store_ok s \<longleftrightarrow>
     validate_storage_path (hs_path s) = Ok () \<and> validate_records (hs_records s) (hs_capacity s) = Ok ()"

text \<open>The newest records within the capacity, after a merge.\<close>

definition retained :: "nat \<Rightarrow> upload_job_record list \<Rightarrow> upload_job_record list \<Rightarrow> upload_job_record list" where
  "retained capacity rs updates =
     (let merged = merge_spec rs updates in drop (length merged - capacity) merged)"

lemma kept_is_retained:
  assumes "validate_records us max_history_records = Ok ()" and "history_store_ok s"
  shows "(let merged = merge (hs_records s) us in drop (length merged - hs_capacity s) merged) =
    retained (hs_capacity s) (hs_records s) us"
  using assms merge_is_spec(1) [of "hs_records s" us]
  by (simp add: retained_def validate_records_iff history_store_ok_def comp_def)

lemma merge_and_save_cases:
  assumes "merge_and_save render alloc files us s w = (r, s2, w2)" and "history_store_ok s"
  obtains e where "r = Err e" and "s2 = s" and "w2 = w"
    | e e2 bytes where "r = Err e" and "s2 = s" and "fs_write files (hs_path s) bytes w = (Err e2, w2)"
      and "encode_history render alloc (retained (hs_capacity s) (hs_records s) us) (hs_capacity s) = Ok bytes"
    | bytes where "r = Ok ()" and "fs_write files (hs_path s) bytes w = (Ok (), w2)"
      and "encode_history render alloc (hs_records s2) (hs_capacity s) = Ok bytes"
      and "s2 = s\<lparr>hs_records := retained (hs_capacity s) (hs_records s) us, hs_recovery := None\<rparr>"
proof (cases "validate_records us max_history_records")
  case (Inl e)
  then show ?thesis using assms(1) by (auto simp: merge_and_save_def intro: that)
next
  case (Inr u)
  then have kept: "(let merged = merge (hs_records s) us in drop (length merged - hs_capacity s) merged) =
    retained (hs_capacity s) (hs_records s) us" using kept_is_retained assms(2) by simp
  show ?thesis
    using assms(1) Inr kept
    by (auto simp: merge_and_save_def Let_def split: sum.splits prod.splits intro: that)
qed

lemma merge_and_save_keeps_ok:
  assumes "merge_and_save render alloc files us s w = (r, s2, w2)" and "history_store_ok s"
  shows "history_store_ok s2"
  using assms by (rule merge_and_save_cases)
    (use assms(2) in \<open>auto simp: history_store_ok_def elim: encode_history_Ok\<close>)

context atomic_files
begin

text \<open>Opening what a successful save wrote.\<close>

lemma reopen_after_save:
  assumes save: "merge_and_save render alloc files us s w = (Ok u, s2, w2)" and ok: "history_store_ok s"
    and logs: "collect encode_record (hs_records s2) = Ok logs"
    and json: "parse (rendered render \<lparr>w_schema_version = 1, w_logs = logs\<rparr>) =
      Some \<lparr>w_schema_version = 1, w_logs = logs\<rparr>"
    and keep: "\<forall>r \<in> set (hs_records s2). keepable P r" and epoch: "representable P 0"
    and "open": "open_history P parse files (hs_path s) (hs_capacity s) w2 = (x, w3)"
  shows "\<exists>s3. x = Ok s3 \<and>
     (hs_recovery s3 = None \<and> hs_records s3 = map stored (hs_records s2) \<or> (\<exists>e. hs_recovery s3 = Some (RecoverFile e)))"
proof -
  obtain bytes where enc: "encode_history render alloc (hs_records s2) (hs_capacity s) = Ok bytes"
    and wr: "fs_write files (hs_path s) bytes w = (Ok (), w2)"
    using save ok by (rule merge_and_save_cases) auto
  have dec: "decode_history P parse bytes (hs_capacity s) = Ok (map stored (hs_records s2))"
    by (rule history_decodes [OF enc logs _ keep epoch]) (fact json)
  have path: "validate_storage_path (hs_path s) = Ok ()" "validate_capacity (hs_capacity s) = Ok ()"
    using ok by (auto simp: history_store_ok_def validate_records_iff validate_capacity_def)
  obtain found w4 where rd: "fs_read files (hs_path s) max_history_bytes w2 = (found, w4)" by fastforce
  show ?thesis
  proof (cases found)
    case (Inl e)
    then show ?thesis using "open" path rd by (auto simp: open_history_def)
  next
    case (Inr c)
    then have "c = Some bytes" using read_after_write [OF wr] rd by metis
    then show ?thesis using "open" path rd dec Inr by (auto simp: open_history_def)
  qed
qed

lemma failed_save_keeps_file:
  assumes "merge_and_save render alloc files us s w = (Err e, s2, w2)" and "history_store_ok s"
  shows "content w2 (hs_path s) = content w (hs_path s) \<or>
     (\<exists>bytes. encode_history render alloc (retained (hs_capacity s) (hs_records s) us) (hs_capacity s) = Ok bytes \<and>
        content w2 (hs_path s) = Some bytes)"
  using assms by (rule merge_and_save_cases) (auto dest: write_err)

end

section \<open>Properties\<close>

text \<open>
  C7: The history store is durable. A failed save leaves the records in memory as they were and the
  file with its old contents or the complete new document. A successful save retains the newest
  records within the capacity, in which each update replaced the record with its identity in place or
  was appended; opening the store again from that file gives exactly these records as they survive a
  restart, unless reading the file itself fails. Every save keeps the records valid and distinct.
\<close>

theorem saved_history_is_durable:
  assumes ok: "history_store_ok s"
    and save: "merge_and_save render alloc (filesystem_store os) us s fs = (r, s2, fs2)"
  shows "history_store_ok s2 \<and>
     (r \<noteq> Ok () \<longrightarrow> s2 = s \<and>
        (content fs2 (hs_path s) = content fs (hs_path s) \<or>
         (\<exists>bytes. encode_history render alloc (retained (hs_capacity s) (hs_records s) us) (hs_capacity s) = Ok bytes \<and>
            content fs2 (hs_path s) = Some bytes))) \<and>
     (r = Ok () \<longrightarrow> hs_records s2 = retained (hs_capacity s) (hs_records s) us \<and>
        (\<forall>P parse logs x fs3.
           collect encode_record (hs_records s2) = Ok logs \<and>
           parse (rendered render \<lparr>w_schema_version = 1, w_logs = logs\<rparr>) = Some \<lparr>w_schema_version = 1, w_logs = logs\<rparr> \<and>
           (\<forall>r \<in> set (hs_records s2). keepable P r) \<and> representable P 0 \<and>
           open_history P parse (filesystem_store os) (hs_path s) (hs_capacity s) fs2 = (x, fs3) \<longrightarrow>
           (\<exists>s3. x = Ok s3 \<and>
              (hs_recovery s3 = None \<and> hs_records s3 = map stored (hs_records s2) \<or>
               (\<exists>e. hs_recovery s3 = Some (RecoverFile e))))))"
proof -
  have "r \<noteq> Ok () \<Longrightarrow> s2 = s" using save ok by (rule merge_and_save_cases) auto
  moreover have "r = Ok () \<Longrightarrow> hs_records s2 = retained (hs_capacity s) (hs_records s) us"
    using save ok by (rule merge_and_save_cases) auto
  moreover have "\<exists>s3. x = Ok s3 \<and> (hs_recovery s3 = None \<and> hs_records s3 = map stored (hs_records s2) \<or>
       (\<exists>e. hs_recovery s3 = Some (RecoverFile e)))"
    if "r = Ok ()" "collect encode_record (hs_records s2) = Ok logs"
      "parse (rendered render \<lparr>w_schema_version = 1, w_logs = logs\<rparr>) = Some \<lparr>w_schema_version = 1, w_logs = logs\<rparr>"
      "\<forall>r \<in> set (hs_records s2). keepable P r" "representable P 0"
      "open_history P parse (filesystem_store os) (hs_path s) (hs_capacity s) fs2 = (x, fs3)" for P parse logs x fs3
    using that(2-) save [unfolded that(1)] ok stored.reopen_after_save by blast
  moreover have "content fs2 (hs_path s) = content fs (hs_path s) \<or>
       (\<exists>bytes. encode_history render alloc (retained (hs_capacity s) (hs_records s) us) (hs_capacity s) = Ok bytes \<and>
          content fs2 (hs_path s) = Some bytes)" if bad: "r \<noteq> Ok ()"
  proof -
    obtain e where "r = Err e" using bad by (cases r) auto
    then show ?thesis using stored.failed_save_keeps_file [OF _ ok] save by blast
  qed
  ultimately show ?thesis
    using merge_and_save_keeps_ok [OF save ok] by blast
qed

text \<open>A first save into an empty directory.\<close>

theorem saved_history_is_durable_witness:
  "\<exists>s2 fs2. merge_and_save (\<lambda>_. [''{}'']) (\<lambda>_. True)
       (filesystem_store \<lparr>fault = (\<lambda>_. False), leaves = (\<lambda>_. 0), os_alloc = (\<lambda>_. True)\<rparr>) [sample_kept]
       \<lparr>hs_path = ''h'', hs_capacity = 5, hs_records = [], hs_recovery = None\<rparr>
       \<lparr>nodes = Map.empty, calls = 0\<rparr> = (Ok (), s2, fs2) \<and>
     hs_records s2 = [sample_kept] \<and> history_store_ok s2"
proof -
  let ?os = "\<lparr>fault = (\<lambda>_. False), leaves = (\<lambda>_. 0), os_alloc = (\<lambda>_. True)\<rparr>"
  let ?s = "\<lparr>hs_path = ''h'', hs_capacity = 5, hs_records = [], hs_recovery = None\<rparr>"
  let ?fs = "\<lparr>nodes = Map.empty, calls = 0\<rparr>"
  have path: "validate_storage_path ''h'' = Ok ()" by code_simp
  then have ok: "history_store_ok ?s"
    by (simp add: history_store_ok_def validate_records_iff [THEN iffD2] max_history_records_def)
  obtain fs2 where wr: "write_atomic ?os ''h'' ''{}\<newline>'' ?fs = (Ok (), fs2)"
    using reliable_write_succeeds [OF path, of "''{}\<newline>''" ?os ?fs] by (auto simp: max_persistent_bytes_def)
  obtain r s2 fs3 where save: "merge_and_save (\<lambda>_. [''{}'']) (\<lambda>_. True) (filesystem_store ?os) [sample_kept] ?s ?fs = (r, s2, fs3)"
    using prod_cases3 by blast
  have v: "validate_records [sample_kept] n = Ok ()" if "1 \<le> n" "n \<le> max_history_records" for n
    using sample_kept_valid that by (simp add: validate_records_iff)
  have "merge [] [sample_kept] = [sample_kept]"
    by (simp add: merge_def index_records_def merge_step_def)
  then have "r = Ok ()"
    using save wr sample_kept_encodes v [of 5] v [of max_history_records]
    by (simp add: merge_and_save_def filesystem_store_def max_history_records_def Let_def)
  moreover have "retained 5 [] [sample_kept] = [sample_kept]" by (simp add: retained_def merge_spec_def)
  ultimately show ?thesis
    using saved_history_is_durable [OF ok save] save by auto
qed

end
