(* ===== verification/Template.thy ===== *)
theory Template
  imports Receipts
begin

text \<open>
  The Twitch message template (\<open>rust/src/domain/twitch_template.rs\<close>): its parser and its renderer.
  Strings are UTF-8 byte sequences; the source compares characters only with ASCII ones, which never
  occur inside a multi-byte character, so reading byte by byte is reading character by character.
\<close>

datatype template_error =
  EmptyTemplate | TemplateTooLong | ControlCharacter | InvalidSyntax | UnknownField | MissingUrl
| InvalidFieldValue | MessageTooLong | AllocationFailed

datatype field = Url | EncounterField | Mode | ModeSuffix | ResultField | BossId

datatype part = Literal string | Field field

record message_template =
  template_source :: string
  parts :: "part list"

section \<open>Parsing\<close>

fun field_name :: "field \<Rightarrow> string" where
  "field_name Url = ''url''"
| "field_name EncounterField = ''encounter''"
| "field_name Mode = ''mode''"
| "field_name ModeSuffix = ''mode_suffix''"
| "field_name ResultField = ''result''"
| "field_name BossId = ''boss_id''"

definition field_of :: "string \<Rightarrow> field option" where
  "field_of s =
     (if s = ''url'' then Some Url else if s = ''encounter'' then Some EncounterField
      else if s = ''mode'' then Some Mode else if s = ''mode_suffix'' then Some ModeSuffix
      else if s = ''result'' then Some ResultField else if s = ''boss_id'' then Some BossId else None)"

fun read_name :: "string \<Rightarrow> (template_error, string \<times> string) result" where
  "read_name [] = Err InvalidSyntax"
| "read_name (c # cs) =
     (if c = CHR ''}'' then Ok ([], cs)
      else if c = CHR ''{'' then Err InvalidSyntax
      else and_then (read_name cs) (\<lambda>(name, rest). Ok (c # name, rest)))"

lemma read_name_shorter: "read_name cs = Ok (name, rest) \<Longrightarrow> length rest < length cs"
  by (induction cs arbitrary: name) (fastforce split: if_splits)+

text \<open>\<open>input.peek() == Some(..)\<close>.\<close>

fun peeks :: "char \<Rightarrow> string \<Rightarrow> bool" where
  "peeks c [] = False"
| "peeks c (x # xs) = (x = c)"

definition flush :: "string \<Rightarrow> part list \<Rightarrow> part list" where
  "flush literal ps = (if literal = [] then ps else ps @ [Literal literal])"

function parse_parts ::
  "string \<Rightarrow> string \<Rightarrow> part list \<Rightarrow> bool \<Rightarrow> (template_error, part list \<times> string \<times> bool) result"
where
  "parse_parts [] literal ps url = Ok (ps, literal, url)"
| "parse_parts (c # cs) literal ps url =
     (if c = CHR ''{'' \<and> peeks (CHR ''{'') cs then parse_parts (tl cs) (literal @ [c]) ps url
      else if c = CHR ''}'' \<and> peeks (CHR ''}'') cs then parse_parts (tl cs) (literal @ [c]) ps url
      else if c = CHR ''{'' then
        (case read_name cs of
           Err e \<Rightarrow> Err e
         | Ok (name, rest) \<Rightarrow>
             (case field_of name of
                None \<Rightarrow> Err UnknownField
              | Some f \<Rightarrow> parse_parts rest [] (flush literal ps @ [Field f]) (url \<or> f = Url)))
      else if c = CHR ''}'' then Err InvalidSyntax
      else parse_parts cs (literal @ [c]) ps url)"
  by pat_completeness auto
termination
  by (relation "measure (\<lambda>(cs, _). length cs)") (auto dest!: read_name_shorter)

definition parse_template :: "string \<Rightarrow> (template_error, message_template) result" where
  "parse_template s =
     (if s = [] then Err EmptyTemplate
      else if 500 < length s then Err TemplateTooLong
      else if list_ex is_control s then Err ControlCharacter
      else and_then (parse_parts s [] [] False) (\<lambda>(ps, literal, url).
        if \<not> url then Err MissingUrl
        else Ok \<lparr>template_source = s, parts = flush literal ps\<rparr>))"

section \<open>Rendering\<close>

text \<open>\<open>u16::to_string\<close>.\<close>

function dec_string :: "nat \<Rightarrow> string" where
  "dec_string n = (if n < 10 then [char_of (48 + n)] else dec_string (n div 10) @ [char_of (48 + n mod 10)])"
  by pat_completeness auto
termination
  by (relation "measure id") auto

declare dec_string.simps [simp del]

definition append_text :: "(nat \<Rightarrow> bool) \<Rightarrow> string \<Rightarrow> string \<Rightarrow> (template_error, string) result" where
  "append_text alloc output v =
     (if 2000 - length output < length v then Err MessageTooLong
      else if list_ex is_control v then Err InvalidFieldValue
      else if \<not> alloc (length v) then Err AllocationFailed
      else Ok (output @ v))"

fun part_text :: "dps_report_result \<Rightarrow> part \<Rightarrow> string" where
  "part_text r (Literal s) = s"
| "part_text r (Field Url) = permalink r"
| "part_text r (Field EncounterField) = encounter_name r"
| "part_text r (Field Mode) = mode r"
| "part_text r (Field ResultField) = (if success r then ''Success'' else ''Failure'')"
| "part_text r (Field BossId) = dec_string (unat (report_boss_id r))"
| "part_text r (Field ModeSuffix) = []"

fun render_parts ::
  "(nat \<Rightarrow> bool) \<Rightarrow> dps_report_result \<Rightarrow> part list \<Rightarrow> string \<Rightarrow> (template_error, string) result" where
  "render_parts alloc r [] output = Ok output"
| "render_parts alloc r (p # ps) output =
     (if p = Field ModeSuffix then
        if mode r = [] then render_parts alloc r ps output
        else and_then (append_text alloc output '' ('') (\<lambda>o1.
             and_then (append_text alloc o1 (mode r)) (\<lambda>o2.
             and_then (append_text alloc o2 '')'') (\<lambda>o3. render_parts alloc r ps o3)))
      else and_then (append_text alloc output (part_text r p)) (\<lambda>o1. render_parts alloc r ps o1))"

definition render ::
  "(nat \<Rightarrow> bool) \<Rightarrow> dps_report_result \<Rightarrow> message_template \<Rightarrow> (template_error, string) result" where
  "render alloc r t =
     (if permalink r = [] then Err InvalidFieldValue
      else and_then (render_parts alloc r (parts t) []) (\<lambda>output.
        if 500 < char_count output then Err MessageTooLong else Ok output))"

section \<open>Parsing is the inverse of printing\<close>

definition escape :: "string \<Rightarrow> string" where
  "escape s = concat (map (\<lambda>c. if c = CHR ''{'' \<or> c = CHR ''}'' then [c, c] else [c]) s)"

fun print_part :: "part \<Rightarrow> string" where
  "print_part (Literal s) = escape s"
| "print_part (Field f) = CHR ''{'' # field_name f @ ''}''"

definition print_parts :: "part list \<Rightarrow> string" where
  "print_parts ps = concat (map print_part ps)"

text \<open>Literals are not empty and no two of them are adjacent.\<close>

fun is_literal :: "part \<Rightarrow> bool" where
  "is_literal (Literal _) = True"
| "is_literal (Field _) = False"

fun normal :: "part list \<Rightarrow> bool" where
  "normal [] = True"
| "normal (Literal s # ps) = (s \<noteq> [] \<and> (ps = [] \<or> \<not> is_literal (hd ps)) \<and> normal ps)"
| "normal (Field f # ps) = normal ps"

lemma print_parts_simps [simp]:
  "print_parts [] = []" "print_parts (p # ps) = print_part p @ print_parts ps"
  "print_parts (ps @ qs) = print_parts ps @ print_parts qs"
  by (simp_all add: print_parts_def)

lemma escape_simps [simp]:
  "escape [] = []" "escape (s @ t) = escape s @ escape t"
  "escape (c # s) = (if c = CHR ''{'' \<or> c = CHR ''}'' then [c, c] else [c]) @ escape s"
  by (simp_all add: escape_def)

lemma field_of_name [simp]: "field_of (field_name f) = Some f"
  by (cases f) (simp_all add: field_of_def)

lemma field_of_Some: "field_of s = Some f \<Longrightarrow> s = field_name f"
  by (auto simp: field_of_def split: if_splits)

lemma read_name_field [simp]: "read_name (field_name f @ CHR ''}'' # rest) = Ok (field_name f, rest)"
  by (cases f) simp_all

lemma read_name_Ok: "read_name cs = Ok (name, rest) \<Longrightarrow> cs = name @ CHR ''}'' # rest"
  by (induction cs arbitrary: name) (auto split: if_splits)

lemma print_flush [simp]: "print_parts (flush literal ps) = print_parts ps @ escape literal"
  by (simp add: flush_def)

lemma normal_append: "normal ps \<Longrightarrow> normal qs \<Longrightarrow> ps = [] \<or> qs = [] \<or> \<not> is_literal (last ps) \<or> \<not> is_literal (hd qs)
    \<Longrightarrow> normal (ps @ qs)"
  by (induction ps rule: normal.induct) (auto simp: hd_append split: if_splits)

lemma peeks_iff: "peeks x cs \<longleftrightarrow> (\<exists>r. cs = x # r)"
  by (cases cs) auto

lemma parse_parts_Ok:
  assumes "parse_parts cs literal ps url = Ok (ps', literal', url')"
    and "normal ps" and "ps = [] \<or> \<not> is_literal (last ps)" and "url = (Field Url \<in> set ps)"
  shows "print_parts (flush literal' ps') = print_parts (flush literal ps) @ cs \<and> normal (flush literal' ps') \<and>
     url' = (Field Url \<in> set (flush literal' ps'))"
  using assms
proof (induction cs literal ps url rule: parse_parts.induct)
  case (1 literal ps url)
  then show ?case by (auto simp: flush_def normal_append)
next
  case (2 c cs literal ps url)
  consider (open2) "c = CHR ''{''" "peeks (CHR ''{'') cs" | (close2) "c = CHR ''}''" "peeks (CHR ''}'') cs"
    | (field) "c = CHR ''{''" "\<not> peeks (CHR ''{'') cs" | (bad) "c = CHR ''}''" "\<not> peeks (CHR ''}'') cs"
    | (plain) "c \<noteq> CHR ''{''" "c \<noteq> CHR ''}''" by blast
  then show ?case
  proof cases
    case open2
    then show ?thesis using "2.IH"(1) "2.prems" by (auto simp: peeks_iff)
  next
    case close2
    then show ?thesis using "2.IH"(2) "2.prems" by (auto simp: peeks_iff)
  next
    case field
    with "2.prems"(1) obtain name rest f where n: "read_name cs = Ok (name, rest)" and f: "field_of name = Some f"
      and r: "parse_parts rest [] (flush literal ps @ [Field f]) (url \<or> f = Url) = Ok (ps', literal', url')"
      by (auto split: sum.splits option.splits)
    have "normal (flush literal ps)" using "2.prems"(2,3) by (auto simp: flush_def normal_append)
    then have "normal (flush literal ps @ [Field f])" by (auto intro: normal_append)
    moreover have "(url \<or> f = Url) = (Field Url \<in> set (flush literal ps @ [Field f]))"
      using "2.prems"(4) by (auto simp: flush_def)
    ultimately show ?thesis
      using "2.IH"(3) field n f r read_name_Ok [OF n] field_of_Some [OF f] by auto
  next
    case bad
    then show ?thesis using "2.prems"(1) by simp
  next
    case plain
    then show ?thesis using "2.IH"(4) "2.prems" by auto
  qed
qed

lemma parse_parts_escape:
  "parse_parts (escape s @ rest) literal ps url = parse_parts rest (literal @ s) ps url"
  by (induction s arbitrary: literal) auto

lemma parse_parts_print:
  assumes "normal qs" and "literal = [] \<or> qs = [] \<or> \<not> is_literal (hd qs)"
  shows "\<exists>ps' literal'. parse_parts (print_parts qs) literal ps url = Ok (ps', literal', url \<or> Field Url \<in> set qs) \<and>
     flush literal' ps' = flush literal ps @ qs"
  using assms
proof (induction qs arbitrary: literal ps url)
  case Nil
  then show ?case by simp
next
  case (Cons q qs)
  show ?case
  proof (cases q)
    case (Literal s)
    with Cons.prems have "literal = []" "s \<noteq> []" "normal qs" "qs = [] \<or> \<not> is_literal (hd qs)" by auto
    then show ?thesis
      using Cons.IH [of s ps url] by (auto simp: Literal parse_parts_escape flush_def)
  next
    case (Field f)
    have "parse_parts (print_parts (q # qs)) literal ps url =
        parse_parts (print_parts qs) [] (flush literal ps @ [Field f]) (url \<or> f = Url)"
      by (cases f) (simp_all add: Field field_of_def)
    moreover have "normal qs" using Cons.prems Field by simp
    ultimately obtain ps' literal' where
      "parse_parts (print_parts (q # qs)) literal ps url = Ok (ps', literal', (url \<or> f = Url) \<or> Field Url \<in> set qs)"
      and "flush literal' ps' = flush literal ps @ Field f # qs"
      using Cons.IH [of "[]" "flush literal ps @ [Field f]" "url \<or> f = Url"] by (auto simp: flush_def [of "[]"])
    moreover have "((url \<or> f = Url) \<or> Field Url \<in> set qs) = (url \<or> Field Url \<in> set (q # qs))"
      by (auto simp: Field)
    ultimately show ?thesis using Field by (intro exI conjI) (simp_all only:)
  qed
qed

lemma parse_template_iff:
  "parse_template s = Ok t \<longleftrightarrow> template_source t = s \<and> print_parts (parts t) = s \<and> normal (parts t) \<and>
     Field Url \<in> set (parts t) \<and> length s \<le> 500 \<and> \<not> list_ex is_control s"
  (is "?l \<longleftrightarrow> ?r")
proof
  assume ?l
  then obtain ps literal where p: "parse_parts s [] [] False = Ok (ps, literal, True)"
    and t: "t = \<lparr>template_source = s, parts = flush literal ps\<rparr>" and "length s \<le> 500" "\<not> list_ex is_control s"
    by (auto simp: parse_template_def split: if_splits)
  with parse_parts_Ok [OF p] show ?r by (simp add: flush_def)
next
  assume r: ?r
  then obtain ps literal where "parse_parts s [] [] False = Ok (ps, literal, True)"
    and "flush literal ps = parts t"
    using parse_parts_print [of "parts t" "[]" "[]" False] by (auto simp: flush_def [of "[]"])
  moreover have "s \<noteq> []"
  proof -
    from r obtain xs ys where "parts t = xs @ Field Url # ys" by (meson split_list)
    with r show ?thesis by auto
  qed
  ultimately show ?l using r by (cases t) (simp add: parse_template_def)
qed

section \<open>Rendering\<close>

fun expand :: "dps_report_result \<Rightarrow> part \<Rightarrow> string" where
  "expand r (Field ModeSuffix) = (if mode r = [] then [] else '' ('' @ mode r @ '')'')"
| "expand r p = part_text r p"

definition expansion :: "dps_report_result \<Rightarrow> part list \<Rightarrow> string" where
  "expansion r ps = concat (map (expand r) ps)"

lemma append_text_Ok:
  "length acc \<le> 2000 \<Longrightarrow> append_text alloc acc v = Ok m \<longleftrightarrow>
     m = acc @ v \<and> length m \<le> 2000 \<and> \<not> list_ex is_control v \<and> alloc (length v)"
  by (auto simp: append_text_def)

lemma expand_other: "p \<noteq> Field ModeSuffix \<Longrightarrow> expand r p = part_text r p"
  by (cases "(r, p)" rule: expand.cases) auto

lemma control_free_suffix: "\<not> is_control (CHR '' '')" "\<not> is_control (CHR ''('')" "\<not> is_control (CHR '')'')"
  by (simp_all add: is_control_def byte_def)

lemma render_step_Ok:
  assumes "render_parts alloc r (p # ps) acc = Ok m" and "length acc \<le> 2000"
  shows "length (acc @ expand r p) \<le> 2000 \<and> \<not> list_ex is_control (expand r p) \<and>
     render_parts alloc r ps (acc @ expand r p) = Ok m"
proof (cases "p = Field ModeSuffix")
  case True
  with assms show ?thesis
    by (cases "mode r = []") (auto simp: append_text_Ok control_free_suffix)
next
  case False
  with assms show ?thesis by (auto simp: append_text_Ok expand_other)
qed

lemma render_step_complete:
  assumes "length (acc @ expand r p) \<le> 2000" and "\<not> list_ex is_control (expand r p)" and "\<And>n. alloc n"
  shows "render_parts alloc r (p # ps) acc = render_parts alloc r ps (acc @ expand r p)"
proof (cases "p = Field ModeSuffix")
  case True
  with assms show ?thesis
    by (cases "mode r = []") (auto simp: append_text_def control_free_suffix)
next
  case False
  with assms show ?thesis by (auto simp: append_text_def expand_other)
qed

lemma expansion_simps [simp]: "expansion r [] = []" "expansion r (p # ps) = expand r p @ expansion r ps"
  by (simp_all add: expansion_def)

lemma render_parts_Ok:
  assumes "render_parts alloc r ps acc = Ok m" and "length acc \<le> 2000"
  shows "m = acc @ expansion r ps \<and> length m \<le> 2000 \<and> \<not> list_ex is_control (expansion r ps)"
  using assms
proof (induction ps arbitrary: acc)
  case (Cons p ps)
  from render_step_Ok [OF Cons.prems] Cons.IH [of "acc @ expand r p"] show ?case by auto
qed simp

lemma render_parts_complete:
  assumes "length (acc @ expansion r ps) \<le> 2000" and "\<not> list_ex is_control (expansion r ps)"
    and "\<And>n. alloc n"
  shows "render_parts alloc r ps acc = Ok (acc @ expansion r ps)"
  using assms(1,2)
proof (induction ps arbitrary: acc)
  case (Cons p ps)
  then show ?case
    using Cons.IH [of "acc @ expand r p"] render_step_complete [where p = p and acc = acc and r = r, OF _ _ assms(3)]
    by auto
qed simp

lemma render_iff:
  "render (\<lambda>_. True) r t = Ok m \<longleftrightarrow> permalink r \<noteq> [] \<and> m = expansion r (parts t) \<and>
     length m \<le> 2000 \<and> char_count m \<le> 500 \<and> \<not> list_ex is_control m"
proof
  assume "render (\<lambda>_. True) r t = Ok m"
  then show "permalink r \<noteq> [] \<and> m = expansion r (parts t) \<and> length m \<le> 2000 \<and> char_count m \<le> 500 \<and> \<not> list_ex is_control m"
    using render_parts_Ok [of "\<lambda>_. True" r "parts t" "[]" m] by (auto simp: render_def split: if_splits)
next
  assume "permalink r \<noteq> [] \<and> m = expansion r (parts t) \<and> length m \<le> 2000 \<and> char_count m \<le> 500 \<and> \<not> list_ex is_control m"
  moreover from this have "render_parts (\<lambda>_. True) r (parts t) [] = Ok m"
    using render_parts_complete [of "[]" r "parts t" "\<lambda>_. True"] by (metis append_Nil)
  ultimately show "render (\<lambda>_. True) r t = Ok m" by (auto simp: render_def)
qed

lemma render_Ok:
  assumes "render alloc r t = Ok m"
  shows "permalink r \<noteq> [] \<and> m = expansion r (parts t) \<and> char_count m \<le> 500 \<and> \<not> list_ex is_control m"
  using assms render_parts_Ok [of alloc r "parts t" "[]" m] by (auto simp: render_def split: if_splits)

section \<open>Properties\<close>

text \<open>
  The parser accepts exactly the printed forms: parsing \<open>s\<close> succeeds with a template if and
  only if printing that template (braces doubled, fields by name in braces) gives \<open>s\<close> back, its
  parts are normal (no empty or adjacent literals), it has the URL field, and \<open>s\<close> is at most 500 bytes
  long without control characters. So every accepted text has one meaning and no text is lost.
\<close>

theorem template_parse_print:
  "parse_template s = Ok t \<longleftrightarrow> template_source t = s \<and> print_parts (parts t) = s \<and> normal (parts t) \<and>
     Field Url \<in> set (parts t) \<and> length s \<le> 500 \<and> \<not> list_ex is_control s"
  by (rule parse_template_iff)

text \<open>
  What is posted is the expansion of the template and safe to send: a rendered message contains
  the report's link in full, has no control character and at most 500 characters, for any template
  that was parsed and any report, and whatever allocations fail.
\<close>

theorem rendered_message_is_safe:
  assumes "parse_template s = Ok t" and "render alloc r t = Ok m"
  shows "m = expansion r (parts t) \<and> (\<exists>xs ys. m = xs @ permalink r @ ys) \<and> permalink r \<noteq> [] \<and>
     \<not> list_ex is_control m \<and> char_count m \<le> 500"
proof -
  from assms(1) obtain xs ys where "parts t = xs @ Field Url # ys"
    unfolding parse_template_iff by (meson split_list)
  then have "expansion r (parts t) = expansion r xs @ permalink r @ expansion r ys"
    by (simp add: expansion_def)
  with render_Ok [OF assms(2)] show ?thesis by auto
qed

definition sample_report :: dps_report_result where
  "sample_report = \<lparr>permalink = ''https://dps.report/a'', encounter_name = ''Sabetha'', report_boss_id = 17154,
     mode = ''CM'', success = True\<rparr>"

theorem rendered_message_is_safe_witness:
  "\<not> list_ex is_control ''Sabetha (CM) - Success: https://dps.report/a''"
proof -
  let ?s = "''{encounter}{mode_suffix} - {result}: {url}''"
  let ?t = "\<lparr>template_source = ?s, parts = [Field EncounterField, Field ModeSuffix, Literal '' - '',
     Field ResultField, Literal '': '', Field Url]\<rparr>"
  have "parse_template ?s = Ok ?t" by code_simp
  moreover have "render (\<lambda>_. True) sample_report ?t = Ok ''Sabetha (CM) - Success: https://dps.report/a''"
    by code_simp
  ultimately show ?thesis using rendered_message_is_safe by blast
qed

end
