(* ===== verification/Settings.thy ===== *)
theory Settings
  imports Template Upload_Job Bytes
begin

text \<open>
  The settings and their validation (\<open>rust/src/domain/settings.rs\<close>), with the parsers of the Rust
  standard library that the validation calls: \<open>char::is_whitespace\<close> on UTF-8, \<open>split_once\<close>, the \<open>u16\<close>
  parser and the parser of \<open>Ipv6Addr\<close>.
\<close>

section \<open>Data\<close>

record general_settings =
  log_directory :: string
  watch_subdirectories :: bool
  window_visible :: bool
  poll_interval_ms :: u32
  stability_observations :: u32
  recent_log_limit :: u32
  parser_queue_capacity :: u32
  parallel_uploads :: u32
  max_candidates :: u32

definition default_general :: general_settings where
  "default_general = \<lparr>log_directory = '''', watch_subdirectories = True, window_visible = True,
     poll_interval_ms = 1000, stability_observations = 2, recent_log_limit = 100,
     parser_queue_capacity = 8, parallel_uploads = 5, max_candidates = 4096\<rparr>"

record dps_report_settings =
  dps_enabled :: bool
  detailed_wvw :: bool

definition default_dps_report :: dps_report_settings where
  "default_dps_report = \<lparr>dps_enabled = True, detailed_wvw = False\<rparr>"

record wingman_settings =
  wingman_enabled :: bool

definition default_wingman :: wingman_settings where
  "default_wingman = \<lparr>wingman_enabled = True\<rparr>"

record donbot_settings =
  donbot_enabled :: bool
  api_base_url :: string
  selected_guild_id :: string
  discord_delivery_enabled :: bool
  channel_override_explicit :: bool
  selected_channel_id :: string

definition default_donbot_api :: string where
  "default_donbot_api = ''https://donbot-api.walmslo.com''"

definition default_donbot :: donbot_settings where
  "default_donbot = \<lparr>donbot_enabled = False, api_base_url = default_donbot_api, selected_guild_id = '''',
     discord_delivery_enabled = False, channel_override_explicit = False, selected_channel_id = ''''\<rparr>"

record twitch_settings =
  twitch_enabled :: bool
  client_id :: string
  message_template :: string
  post_success :: bool
  post_failure :: bool

definition default_twitch_template :: string where
  "default_twitch_template = ''{encounter}{mode_suffix} - {result}: {url}''"

definition default_twitch :: twitch_settings where
  "default_twitch = \<lparr>twitch_enabled = False, client_id = '''', message_template = default_twitch_template,
     post_success = True, post_failure = True\<rparr>"

record settings =
  schema_version :: u32
  general :: general_settings
  dps_report :: dps_report_settings
  wingman :: wingman_settings
  donbot :: donbot_settings
  twitch :: twitch_settings

definition settings_schema_version :: u32 where
  "settings_schema_version = 1"

datatype settings_error_code =
  UnsupportedSchema | EmptyValue | InvalidPath | ValueTooLong | OutOfRange | InvalidUrl | InvalidGuildId
| InvalidChannelId | DiscordRequiresDonBot | InvalidTwitchClientId | SettingsTwitchRequiresDpsReport
| TwitchPostingDisabled | TemplateInvalid template_error

record settings_validation_error =
  error_field :: string
  error_code :: settings_error_code

definition new_settings :: "string \<Rightarrow> settings" where
  "new_settings dir = \<lparr>schema_version = settings_schema_version,
     general = default_general\<lparr>log_directory := dir\<rparr>, dps_report = default_dps_report,
     wingman = default_wingman, donbot = default_donbot, twitch = default_twitch\<rparr>"

definition enabled_providers :: "settings \<Rightarrow> provider_selection" where
  "enabled_providers s = \<lparr>dps_report_selected = dps_enabled (dps_report s),
     wingman_selected = wingman_enabled (wingman s), donbot_selected = donbot_enabled (donbot s),
     twitch_selected = twitch_enabled (twitch s)\<rparr>"

definition normalize_loaded_settings :: "settings \<Rightarrow> settings" where
  "normalize_loaded_settings s =
     (if \<not> donbot_enabled (donbot s) \<or> \<not> channel_override_explicit (donbot s)
      then s\<lparr>donbot := (donbot s)\<lparr>channel_override_explicit := False, selected_channel_id := ''''\<rparr>\<rparr>
      else s)"

section \<open>The address of the DonBot service\<close>

text \<open>The UTF-8 encodings of the characters with the property \<open>White_Space\<close>.\<close>

definition starts_with_whitespace :: "string \<Rightarrow> bool" where
  "starts_with_whitespace s =
     (case map byte (take 3 s) of
        a # r \<Rightarrow> (9 \<le> a \<and> a \<le> 13) \<or> a = 32 \<or>
          (case r of
             b # r2 \<Rightarrow> (a = 194 \<and> (b = 133 \<or> b = 160)) \<or>
               (case r2 of
                  c # _ \<Rightarrow> (a = 225 \<and> b = 154 \<and> c = 128) \<or>
                    (a = 226 \<and> b = 128 \<and> ((128 \<le> c \<and> c \<le> 138) \<or> c = 168 \<or> c = 169 \<or> c = 175)) \<or>
                    (a = 226 \<and> b = 129 \<and> c = 159) \<or> (a = 227 \<and> b = 128 \<and> c = 128)
                | [] \<Rightarrow> False)
           | [] \<Rightarrow> False)
      | [] \<Rightarrow> False)"

fun has_whitespace :: "string \<Rightarrow> bool" where
  "has_whitespace [] = False"
| "has_whitespace (c # cs) = (starts_with_whitespace (c # cs) \<or> has_whitespace cs)"

definition strip_prefix :: "string \<Rightarrow> string \<Rightarrow> string option" where
  "strip_prefix p s = (if take (length p) s = p then Some (drop (length p) s) else None)"

fun split_once :: "char \<Rightarrow> string \<Rightarrow> (string \<times> string) option" where
  "split_once x [] = None"
| "split_once x (c # cs) =
     (if c = x then Some ([], cs) else map_option (\<lambda>(a, b). (c # a, b)) (split_once x cs))"

definition valid_port :: "string \<Rightarrow> bool" where
  "valid_port port \<longleftrightarrow> port \<noteq> [] \<and> list_all is_digit port \<and>
     (case parse_unsigned 65535 port of Some p \<Rightarrow> p \<noteq> 0 | None \<Rightarrow> False)"

subsection \<open>The parser of \<open>Ipv6Addr\<close>\<close>

text \<open>\<open>char::to_digit\<close> for the radix 10 or 16.\<close>

definition to_digit :: "nat \<Rightarrow> char \<Rightarrow> nat option" where
  "to_digit radix c =
     (let d = (if is_digit c then byte c - 48
               else if 97 \<le> byte c \<and> byte c \<le> 102 then byte c - 87
               else if 65 \<le> byte c \<and> byte c \<le> 70 then byte c - 55 else radix)
      in if d < radix then Some d else None)"

fun read_digits :: "nat \<Rightarrow> nat \<Rightarrow> string \<Rightarrow> nat \<Rightarrow> nat \<Rightarrow> (nat \<times> nat \<times> string) option" where
  "read_digits radix mx [] n v = Some (v, n, [])"
| "read_digits radix mx (c # cs) n v =
     (case to_digit radix c of
        None \<Rightarrow> Some (v, n, c # cs)
      | Some d \<Rightarrow> if mx < n + 1 then None else read_digits radix mx cs (n + 1) (v * radix + d))"

definition read_number :: "nat \<Rightarrow> nat \<Rightarrow> nat \<Rightarrow> bool \<Rightarrow> string \<Rightarrow> (nat \<times> string) option" where
  "read_number radix digits mx zero_prefix s =
     (case read_digits radix digits s 0 0 of
        None \<Rightarrow> None
      | Some (v, n, rest) \<Rightarrow>
          if n = 0 then None
          else if \<not> zero_prefix \<and> peeks (CHR ''0'') s \<and> 1 < n then None
          else if mx < v then None else Some (v, rest))"

definition read_separator :: "char \<Rightarrow> nat \<Rightarrow> (string \<Rightarrow> 'a option) \<Rightarrow> string \<Rightarrow> 'a option" where
  "read_separator sep i p s =
     (if 0 < i then if peeks sep s then p (tl s) else None else p s)"

fun read_octets :: "nat \<Rightarrow> nat \<Rightarrow> string \<Rightarrow> string option" where
  "read_octets 0 i s = Some s"
| "read_octets (Suc n) i s =
     (case read_separator (CHR ''.'') i (read_number 10 3 255 False) s of
        None \<Rightarrow> None | Some (_, rest) \<Rightarrow> read_octets n (i + 1) rest)"

definition read_ipv4 :: "string \<Rightarrow> string option" where
  "read_ipv4 s = read_octets 4 0 s"

text \<open>How many groups were read, whether the last two were an IPv4 address, and what follows.\<close>

fun read_groups :: "nat \<Rightarrow> nat \<Rightarrow> nat \<Rightarrow> string \<Rightarrow> nat \<times> bool \<times> string" where
  "read_groups limit 0 i s = (i, False, s)"
| "read_groups limit (Suc n) i s =
     (case (if i < limit - 1 then read_separator (CHR '':'') i read_ipv4 s else None) of
        Some rest \<Rightarrow> (i + 2, True, rest)
      | None \<Rightarrow>
          (case read_separator (CHR '':'') i (read_number 16 4 65535 True) s of
             Some (_, rest) \<Rightarrow> read_groups limit n (i + 1) rest
           | None \<Rightarrow> (i, False, s)))"

definition is_ipv6 :: "string \<Rightarrow> bool" where
  "is_ipv6 s =
     (case read_groups 8 8 0 s of (head_size, head_ipv4, rest) \<Rightarrow>
        if head_size = 8 then rest = []
        else if head_ipv4 then False
        else if take 2 rest = ''::''
        then (case read_groups (7 - head_size) (7 - head_size) 0 (drop 2 rest) of (_, _, rest2) \<Rightarrow> rest2 = [])
        else False)"

subsection \<open>The address\<close>

definition contains_any :: "string \<Rightarrow> string \<Rightarrow> bool" where
  "contains_any cs s \<longleftrightarrow> list_ex (\<lambda>c. c \<in> set cs) s"

definition valid_authority :: "string \<Rightarrow> bool" where
  "valid_authority authority =
     (case strip_prefix ''['' authority of
        Some ipv6 \<Rightarrow>
          (case split_once (CHR '']'') ipv6 of
             None \<Rightarrow> False
           | Some (host, suffix) \<Rightarrow>
               is_ipv6 host \<and>
               (suffix = [] \<or> (case strip_prefix '':'' suffix of None \<Rightarrow> False | Some port \<Rightarrow> valid_port port)))
      | None \<Rightarrow>
          (case (case split_once (CHR '':'') authority of
                   None \<Rightarrow> (authority, None) | Some (host, port) \<Rightarrow> (host, Some port)) of
             (host, port) \<Rightarrow> host \<noteq> [] \<and> \<not> contains_any ''[]%'' host \<and>
               (case port of None \<Rightarrow> True | Some p \<Rightarrow> valid_port p)))"

definition valid_api_base :: "string \<Rightarrow> bool" where
  "valid_api_base v =
     (case strip_prefix ''https://'' v of
        None \<Rightarrow> False
      | Some remainder \<Rightarrow>
          if 2048 < length v \<or> has_whitespace v \<or> list_ex is_control v \<or>
            contains_any [CHR ''@'', CHR ''?'', CHR ''#'', CHR 0x5C] v
          then False
          else case (case split_once (CHR ''/'') remainder of None \<Rightarrow> (remainder, '''') | Some p \<Rightarrow> p) of
            (authority, path) \<Rightarrow>
              if authority = [] \<or> list_ex (\<lambda>s. s = ''.'' \<or> s = ''..'') (split_at_sep (CHR ''/'') path)
              then False else valid_authority authority)"

section \<open>Validation\<close>

definition reject :: "bool \<Rightarrow> string \<Rightarrow> settings_error_code \<Rightarrow> settings_validation_error list" where
  "reject b f code = (if b then [\<lparr>error_field = f, error_code = code\<rparr>] else [])"

definition check_range :: "string \<times> u32 \<times> u32 \<times> u32 \<Rightarrow> settings_validation_error list" where
  "check_range r = (case r of (f, v, lo, hi) \<Rightarrow> reject (\<not> (lo \<le> v \<and> v \<le> hi)) f OutOfRange)"

definition ranges :: "general_settings \<Rightarrow> (string \<times> u32 \<times> u32 \<times> u32) list" where
  "ranges g =
     [(''general.poll_interval_ms'', poll_interval_ms g, 250, 60000),
      (''general.stability_observations'', stability_observations g, 2, 10),
      (''general.recent_log_limit'', recent_log_limit g, 1, 500),
      (''general.parser_queue_capacity'', parser_queue_capacity g, 1, 64),
      (''general.parallel_uploads_per_provider'', parallel_uploads g, 1, 32),
      (''general.max_candidates'', max_candidates g, 1, 10000)]"

definition validate :: "settings \<Rightarrow> settings_validation_error list" where
  "validate s =
     (let path = log_directory (general s); d = donbot s; t = twitch s in
      reject (schema_version s \<noteq> settings_schema_version) ''schema_version'' UnsupportedSchema @
      reject (path = []) ''general.log_directory'' EmptyValue @
      reject (4096 < length path) ''general.log_directory'' ValueTooLong @
      reject (list_ex (\<lambda>c. byte c < 32) path) ''general.log_directory'' InvalidPath @
      concat (map check_range (ranges (general s))) @
      reject (\<not> valid_api_base (api_base_url d)) ''donbot.api_base_url'' InvalidUrl @
      reject (selected_guild_id d \<noteq> [] \<and> \<not> canonical_discord_id (selected_guild_id d))
        ''donbot.selected_guild_id'' InvalidGuildId @
      reject (donbot_enabled d \<and> selected_guild_id d = []) ''donbot.selected_guild_id'' EmptyValue @
      reject (selected_channel_id d \<noteq> [] \<and> \<not> canonical_discord_id (selected_channel_id d))
        ''donbot.selected_discord_channel_id'' InvalidChannelId @
      reject (discord_delivery_enabled d \<and> \<not> donbot_enabled d)
        ''donbot.discord_delivery_enabled'' DiscordRequiresDonBot @
      reject (128 < length (client_id t) \<or> \<not> list_all (\<lambda>c. is_lower c \<or> is_digit c) (client_id t))
        ''twitch.client_id'' InvalidTwitchClientId @
      (case parse_template (message_template t) of
         Err e \<Rightarrow> reject True ''twitch.message_template'' (TemplateInvalid e) | Ok _ \<Rightarrow> []) @
      reject (twitch_enabled t \<and> \<not> dps_enabled (dps_report s)) ''twitch.enabled'' SettingsTwitchRequiresDpsReport @
      reject (twitch_enabled t \<and> \<not> post_success t \<and> \<not> post_failure t) ''twitch.enabled'' TwitchPostingDisabled)"

section \<open>Lemmas\<close>

lemma strip_prefix_Some [simp]: "strip_prefix p s = Some r \<longleftrightarrow> s = p @ r"
  by (auto simp: strip_prefix_def) (metis append_take_drop_id)

lemma split_once_Some: "split_once x s = Some (a, b) \<longleftrightarrow> s = a @ x # b \<and> x \<notin> set a"
proof (induction s arbitrary: a)
  case (Cons c cs)
  show ?case
  proof (cases a)
    case Nil
    then show ?thesis by (auto simp: map_option_case split: option.splits)
  next
    case (Cons d a')
    then show ?thesis using Cons.IH [of a'] by (auto simp: map_option_case split: option.splits)
  qed
qed simp

lemma split_once_None: "split_once x s = None \<longleftrightarrow> x \<notin> set s"
  by (induction s) auto

text \<open>What the host and the port of an accepted authority look like; the port has its colon.\<close>

definition safe_host :: "string \<Rightarrow> bool" where
  "safe_host host \<longleftrightarrow> host \<noteq> [] \<and>
     ((\<exists>h. host = ''['' @ h @ '']'' \<and> is_ipv6 h) \<or> \<not> contains_any ''[]%:'' host)"

definition safe_port :: "string \<Rightarrow> bool" where
  "safe_port port \<longleftrightarrow> port = [] \<or> (\<exists>p n. port = CHR '':'' # p \<and> parse_unsigned 65535 p = Some n \<and> n \<noteq> 0)"

lemma safe_port_simps [simp]: "safe_port []" "valid_port p \<Longrightarrow> safe_port (CHR '':'' # p)"
  by (auto simp: safe_port_def valid_port_def split: option.splits)

lemma authority_parts:
  assumes "valid_authority authority" and "authority \<noteq> []"
  obtains host port where "authority = host @ port" and "safe_host host" and "safe_port port"
proof (cases "strip_prefix ''['' authority")
  case (Some ipv6)
  obtain h suffix where h: "split_once (CHR '']'') ipv6 = Some (h, suffix)"
    using assms(1) Some by (cases "split_once (CHR '']'') ipv6") (auto simp: valid_authority_def simp del: strip_prefix_Some)
  with assms(1) Some have ip: "is_ipv6 h"
    and s: "suffix = [] \<or> (case strip_prefix '':'' suffix of None \<Rightarrow> False | Some port \<Rightarrow> valid_port port)"
    by (simp_all add: valid_authority_def del: strip_prefix_Some)
  from s have "safe_port suffix"
  proof
    assume "case strip_prefix '':'' suffix of None \<Rightarrow> False | Some port \<Rightarrow> valid_port port"
    then obtain p where "strip_prefix '':'' suffix = Some p" "valid_port p" by (auto split: option.splits)
    then show ?thesis by simp
  qed simp
  moreover have "authority = (''['' @ h @ '']'') @ suffix" using Some h by (simp add: split_once_Some)
  moreover have "safe_host (''['' @ h @ '']'')" using ip by (simp add: safe_host_def)
  ultimately show ?thesis using that by blast
next
  case None
  show ?thesis
  proof (cases "split_once (CHR '':'') authority")
    case n: None
    with None assms have "safe_host authority"
      by (auto simp: valid_authority_def safe_host_def contains_any_def split_once_None list_ex_iff)
    then show ?thesis using that [of authority "[]"] by simp
  next
    case (Some hp)
    obtain host port where hp: "hp = (host, port)" by (meson surj_pair)
    with Some None assms(1) have "host \<noteq> []" "\<not> contains_any ''[]%'' host" "valid_port port"
      by (simp_all add: valid_authority_def)
    moreover have a: "authority = host @ CHR '':'' # port" "CHR '':'' \<notin> set host"
      using Some hp by (simp_all add: split_once_Some)
    ultimately have "safe_host host" by (auto simp: safe_host_def contains_any_def list_ex_iff)
    then show ?thesis using that [OF a(1)] \<open>valid_port port\<close> by simp
  qed
qed

lemma reject_Nil [simp]: "reject b f code = [] \<longleftrightarrow> \<not> b"
  by (simp add: reject_def)

lemma check_range_Nil [simp]: "check_range (f, v, lo, hi) = [] \<longleftrightarrow> lo \<le> v \<and> v \<le> hi"
  by (simp add: check_range_def)

definition ranges_ok :: "general_settings \<Rightarrow> bool" where
  "ranges_ok g \<longleftrightarrow> 250 \<le> poll_interval_ms g \<and> poll_interval_ms g \<le> 60000 \<and>
     2 \<le> stability_observations g \<and> stability_observations g \<le> 10 \<and>
     1 \<le> recent_log_limit g \<and> recent_log_limit g \<le> 500 \<and>
     1 \<le> parser_queue_capacity g \<and> parser_queue_capacity g \<le> 64 \<and>
     1 \<le> parallel_uploads g \<and> parallel_uploads g \<le> 32 \<and>
     1 \<le> max_candidates g \<and> max_candidates g \<le> 10000"

lemma validate_Nil:
  "validate s = [] \<longleftrightarrow>
     schema_version s = settings_schema_version \<and> log_directory (general s) \<noteq> [] \<and>
     length (log_directory (general s)) \<le> 4096 \<and> \<not> list_ex (\<lambda>c. byte c < 32) (log_directory (general s)) \<and>
     ranges_ok (general s) \<and>
     valid_api_base (api_base_url (donbot s)) \<and>
     (selected_guild_id (donbot s) = [] \<or> canonical_discord_id (selected_guild_id (donbot s))) \<and>
     (donbot_enabled (donbot s) \<longrightarrow> selected_guild_id (donbot s) \<noteq> []) \<and>
     (selected_channel_id (donbot s) = [] \<or> canonical_discord_id (selected_channel_id (donbot s))) \<and>
     (discord_delivery_enabled (donbot s) \<longrightarrow> donbot_enabled (donbot s)) \<and>
     length (client_id (twitch s)) \<le> 128 \<and> list_all (\<lambda>c. is_lower c \<or> is_digit c) (client_id (twitch s)) \<and>
     is_ok (parse_template (message_template (twitch s))) \<and>
     (twitch_enabled (twitch s) \<longrightarrow> dps_enabled (dps_report s) \<and> (post_success (twitch s) \<or> post_failure (twitch s)))"
  by (cases "parse_template (message_template (twitch s))")
     (simp_all add: validate_def Let_def not_less ranges_def ranges_ok_def, argo)

lemma default_template_parses: "is_ok (parse_template default_twitch_template)"
  by code_simp

lemma default_api_valid: "valid_api_base default_donbot_api"
  by (simp add: default_donbot_api_def valid_api_base_def valid_authority_def contains_any_def strip_prefix_def
      starts_with_whitespace_def is_control_def byte_def)

section \<open>Properties\<close>

text \<open>
  Fresh settings are valid exactly when the log directory is: with every other value at its
  default the validation has no complaint if and only if the directory is not empty, not longer than
  4096 bytes and free of control bytes. In particular the default template, address and ranges pass.
\<close>

theorem fresh_settings_are_valid:
  "validate (new_settings dir) = [] \<longleftrightarrow>
     dir \<noteq> [] \<and> length dir \<le> 4096 \<and> \<not> list_ex (\<lambda>c. byte c < 32) dir"
  using default_template_parses default_api_valid
  by (simp add: validate_Nil new_settings_def default_general_def default_donbot_def default_twitch_def
      default_dps_report_def ranges_ok_def)

text \<open>
  An accepted service address can only lead to an HTTPS origin that it spells out: it is
  \<open>https://\<close>, a non-empty host, an optional port from 1 to 65535 and an optional path without dot
  segments. It holds no user information, query, fragment, backslash, whitespace or control character;
  a bracketed host is an IPv6 address and any other host has no colon, bracket or percent sign.
\<close>

theorem accepted_api_base_is_safe:
  assumes "valid_api_base v"
  shows "\<exists>host port path. v = ''https://'' @ host @ port @ path \<and> safe_host host \<and> CHR ''/'' \<notin> set host \<and>
     safe_port port \<and>
     (path = [] \<or> hd path = CHR ''/'') \<and>
     ''.'' \<notin> set (split_at_sep (CHR ''/'') (tl path)) \<and> ''..'' \<notin> set (split_at_sep (CHR ''/'') (tl path)) \<and>
     \<not> contains_any [CHR ''@'', CHR ''?'', CHR ''#'', CHR 0x5C] v \<and> \<not> has_whitespace v \<and> \<not> list_ex is_control v"
proof -
  from assms obtain remainder where v: "v = ''https://'' @ remainder"
    and clean: "\<not> contains_any [CHR ''@'', CHR ''?'', CHR ''#'', CHR 0x5C] v" "\<not> has_whitespace v" "\<not> list_ex is_control v"
    by (auto simp: valid_api_base_def split: option.splits if_splits)
  obtain authority rest where ar: "(case split_once (CHR ''/'') remainder of None \<Rightarrow> (remainder, '''') | Some p \<Rightarrow> p) = (authority, rest)"
    by (meson surj_pair)
  with assms v have auth: "valid_authority authority" "authority \<noteq> []"
    "\<not> list_ex (\<lambda>s. s = ''.'' \<or> s = ''..'') (split_at_sep (CHR ''/'') rest)"
    by (auto simp: valid_api_base_def split: option.splits if_splits)
  obtain path where path: "remainder = authority @ path" "path = [] \<or> hd path = CHR ''/''" "tl path = rest"
    and slash: "CHR ''/'' \<notin> set authority"
    using ar by (cases "split_once (CHR ''/'') remainder")
      (auto simp: split_once_Some split_once_None intro: that [of "[]"] that [of "CHR ''/'' # rest"])
  obtain host port where "authority = host @ port" "safe_host host" "safe_port port"
    using auth(1,2) by (rule authority_parts)
  moreover have "''.'' \<notin> set (split_at_sep (CHR ''/'') rest)" "''..'' \<notin> set (split_at_sep (CHR ''/'') rest)"
    using auth(3) by (auto simp: list_ex_iff)
  ultimately show ?thesis
    using v path slash clean by (intro exI [of _ host] exI [of _ port] exI [of _ path]) simp
qed

theorem accepted_api_base_is_safe_witness:
  "\<not> contains_any [CHR ''@'', CHR ''?'', CHR ''#'', CHR 0x5C] ''https://h:8443/api''"
proof -
  have "valid_port ''8443''"
    by (simp add: valid_port_def parse_unsigned_def parse_digits_def dec_value_def is_digit_def byte_def)
  then have "valid_api_base ''https://h:8443/api''"
    by (simp add: valid_api_base_def valid_authority_def contains_any_def strip_prefix_def
        starts_with_whitespace_def is_control_def byte_def)
  from accepted_api_base_is_safe [OF this] show ?thesis by blast
qed

end
