(* ===== verification/Settings_Store.thy ===== *)
theory Settings_Store
  imports Settings Bounded_Output File_Store
begin

text \<open>
  The settings document and its store with a backup (\<open>rust/src/config/settings_json.rs\<close>,
  \<open>rust/src/config/settings_store.rs\<close>, the values of \<open>rust/src/application/settings_store.rs\<close>).

  The JSON text is \<open>serde_json\<close>'s: \<open>value\<close> parses a text to a JSON value, \<open>typed\<close> decodes it to
  settings (defaults for missing fields, no unknown or duplicate ones), \<open>render\<close> gives the chunks
  that its serializer writes.
\<close>

section \<open>The document\<close>

datatype json = JsonObject "(string \<times> json) list" | JsonOther

record settings_json =
  value_of :: "string \<Rightarrow> json option"
  typed :: "string \<Rightarrow> settings option"
  render_settings :: "settings \<Rightarrow> string list"

definition max_settings_bytes :: nat where
  "max_settings_bytes = 64 * 1024"

datatype settings_document_error =
  SettingsDocTooLarge | SettingsDocJson | SettingsDocInvalid "settings_validation_error list"
| SettingsDocSerialization

definition document_keys :: "string list" where
  "document_keys = [''general'', ''dps_report'', ''wingman'', ''donbot'', ''twitch'']"

fun is_object :: "json \<Rightarrow> bool" where
  "is_object (JsonObject _) = True"
| "is_object JsonOther = False"

definition check_object_shape :: "settings_json \<Rightarrow> string \<Rightarrow> (settings_document_error, unit) result" where
  "check_object_shape J document =
     and_then (ok_or SettingsDocJson (value_of J document)) (\<lambda>v.
       case v of
         JsonOther \<Rightarrow> Err SettingsDocJson
       | JsonObject members \<Rightarrow>
           require (list_all (\<lambda>k. case map_of members k of Some x \<Rightarrow> is_object x | None \<Rightarrow> True) document_keys)
             SettingsDocJson)"

definition validate_document :: "settings \<Rightarrow> (settings_document_error, unit) result" where
  "validate_document s = (let errors = validate s in
     if errors = [] then Ok () else Err (SettingsDocInvalid errors))"

definition decode_settings :: "settings_json \<Rightarrow> string \<Rightarrow> (settings_document_error, settings) result" where
  "decode_settings J document =
     (if max_settings_bytes < length document then Err SettingsDocTooLarge
      else and_then (check_object_shape J document) (\<lambda>_.
        and_then (ok_or SettingsDocJson (typed J document)) (\<lambda>s.
          let s2 = normalize_loaded_settings s in
          and_then (validate_document s2) (\<lambda>_. Ok s2))))"

definition encode_settings ::
  "settings_json \<Rightarrow> (nat \<Rightarrow> bool) \<Rightarrow> settings \<Rightarrow> (settings_document_error, string) result" where
  "encode_settings J alloc s =
     and_then (validate_document s) (\<lambda>_.
       case write_chunks max_settings_bytes alloc (render_settings J s) no_output of
         (written, out) \<Rightarrow>
           if out_too_large out then Err SettingsDocTooLarge
           else if \<not> written then Err SettingsDocSerialization
           else (case write_all max_settings_bytes alloc [CHR 0x0A] out of
               (True, out2) \<Rightarrow> Ok (out_bytes out2)
             | (False, _) \<Rightarrow> Err SettingsDocTooLarge))"

section \<open>The store\<close>

datatype settings_load_source = Defaults | Primary | Backup

datatype settings_read_issue =
  IssueMissing | IssueJson | IssueValues "settings_validation_error list" | IssueTooLarge
| IssueFile file_error

datatype settings_store_error =
  SettingsConfiguration | SettingsInvalidValues "settings_validation_error list" | SettingsTooLarge
| SettingsSerialization | SettingsFile file_error
| NoValidSettings settings_read_issue settings_read_issue

record settings_load_result =
  loaded :: settings
  load_source :: settings_load_source
  load_recovery :: "settings_read_issue option"

record settings_store =
  primary :: string
  backup :: string
  defaults :: settings

definition new_settings_store :: "string \<Rightarrow> settings \<Rightarrow> (settings_store_error, settings_store) result" where
  "new_settings_store path dflt =
     and_then (map_err (\<lambda>_. SettingsConfiguration) (validate_storage_path path)) (\<lambda>_.
       let errors = validate dflt in
       if errors \<noteq> [] then Err (SettingsInvalidValues errors)
       else Ok \<lparr>primary = path, backup = path @ ''.bak'', defaults = dflt\<rparr>)"

fun read_issue :: "settings_document_error \<Rightarrow> settings_read_issue" where
  "read_issue SettingsDocTooLarge = IssueTooLarge"
| "read_issue (SettingsDocInvalid errors) = IssueValues errors"
| "read_issue SettingsDocJson = IssueJson"
| "read_issue SettingsDocSerialization = IssueJson"

definition read_settings ::
  "settings_json \<Rightarrow> 'w files \<Rightarrow> string \<Rightarrow> 'w \<Rightarrow> (settings_read_issue, settings \<times> string) result \<times> 'w" where
  "read_settings J files path w =
     (case fs_read files path max_settings_bytes w of
        (found, w2) \<Rightarrow>
          (and_then (map_err (\<lambda>e. if e = FileTooLarge then IssueTooLarge else IssueFile e) found) (\<lambda>c.
           and_then (ok_or IssueMissing c) (\<lambda>document.
           and_then (map_err read_issue (decode_settings J document)) (\<lambda>s.
             Ok (s, document)))), w2))"

definition load_settings ::
  "settings_json \<Rightarrow> 'w files \<Rightarrow> settings_store \<Rightarrow> 'w \<Rightarrow> (settings_store_error, settings_load_result) result \<times> 'w"
where
  "load_settings J files st w =
     (case read_settings J files (primary st) w of
        (Ok (s, _), w2) \<Rightarrow> (Ok \<lparr>loaded = s, load_source = Primary, load_recovery = None\<rparr>, w2)
      | (Err issue, w2) \<Rightarrow>
          (case read_settings J files (backup st) w2 of
             (Ok (s, _), w3) \<Rightarrow> (Ok \<lparr>loaded = s, load_source = Backup, load_recovery = Some issue\<rparr>, w3)
           | (Err issue2, w3) \<Rightarrow>
               if issue2 = IssueMissing \<and> issue = IssueMissing
               then (Ok \<lparr>loaded = defaults st, load_source = Defaults, load_recovery = None\<rparr>, w3)
               else (Err (NoValidSettings issue issue2), w3)))"

fun save_error :: "settings_document_error \<Rightarrow> settings_store_error" where
  "save_error SettingsDocTooLarge = SettingsTooLarge"
| "save_error (SettingsDocInvalid errors) = SettingsInvalidValues errors"
| "save_error SettingsDocJson = SettingsSerialization"
| "save_error SettingsDocSerialization = SettingsSerialization"

definition save_settings ::
  "settings_json \<Rightarrow> (nat \<Rightarrow> bool) \<Rightarrow> 'w files \<Rightarrow> settings_store \<Rightarrow> settings \<Rightarrow> 'w \<Rightarrow>
     (settings_store_error, unit) result \<times> 'w" where
  "save_settings J alloc files st s w =
     (case map_err save_error (encode_settings J alloc s) of
        Err e \<Rightarrow> (Err e, w)
      | Ok document \<Rightarrow>
          (case (case read_settings J files (primary st) w of
                   (Ok (_, previous), w2) \<Rightarrow>
                     (case fs_write files (backup st) previous w2 of
                        (r, w3) \<Rightarrow> (map_err SettingsFile r, w3))
                 | (Err (IssueFile e), w2) \<Rightarrow> (Err (SettingsFile e), w2)
                 | (Err _, w2) \<Rightarrow> (Ok (), w2)) of
             (Err e, w2) \<Rightarrow> (Err e, w2)
           | (Ok _, w2) \<Rightarrow>
               (case fs_write files (primary st) document w2 of
                  (r, w3) \<Rightarrow> (map_err SettingsFile r, w3))))"

section \<open>What the two files hold\<close>

text \<open>The specification of loading, over the contents of the files instead of calls.\<close>

definition held :: "settings_json \<Rightarrow> string option \<Rightarrow> (settings_read_issue, settings) result" where
  "held J c = and_then (ok_or IssueMissing c) (\<lambda>d. map_err read_issue (decode_settings J d))"

definition load_spec ::
  "settings_json \<Rightarrow> settings_store \<Rightarrow> (string \<Rightarrow> string option) \<Rightarrow> (settings_store_error, settings_load_result) result"
where
  "load_spec J st c =
     (case held J (c (primary st)) of
        Ok s \<Rightarrow> Ok \<lparr>loaded = s, load_source = Primary, load_recovery = None\<rparr>
      | Err issue \<Rightarrow>
          (case held J (c (backup st)) of
             Ok s \<Rightarrow> Ok \<lparr>loaded = s, load_source = Backup, load_recovery = Some issue\<rparr>
           | Err issue2 \<Rightarrow>
               if issue2 = IssueMissing \<and> issue = IssueMissing
               then Ok \<lparr>loaded = defaults st, load_source = Defaults, load_recovery = None\<rparr>
               else Err (NoValidSettings issue issue2)))"

definition store_paths_ok :: "settings_store \<Rightarrow> bool" where
  "store_paths_ok st \<longleftrightarrow> backup st = primary st @ ''.bak''"

lemma ok_or_simps [simp]: "ok_or e None = Err e" "ok_or e (Some x) = Ok x"
  by (simp_all add: ok_or_def)

lemma new_store_paths: "new_settings_store path d = Ok st \<Longrightarrow> store_paths_ok st"
  by (auto simp: new_settings_store_def store_paths_ok_def Let_def split: if_splits)

lemma store_paths_differ:
  "store_paths_ok st \<Longrightarrow> primary st \<noteq> backup st \<and> backup st \<noteq> temporary_path (primary st) \<and>
     primary st \<noteq> temporary_path (backup st)"
  by (simp add: store_paths_ok_def temporary_path_def)

lemma validate_document_Ok [simp]: "validate_document s = Ok u \<longleftrightarrow> validate s = []"
  by (simp add: validate_document_def Let_def)

lemma encode_settings_Ok:
  assumes "encode_settings J alloc s = Ok document"
  shows "validate s = [] \<and> document = concat (render_settings J s) @ [CHR 0x0A] \<and> length document \<le> max_settings_bytes"
proof -
  obtain written out where w: "write_chunks max_settings_bytes alloc (render_settings J s) no_output = (written, out)"
    by fastforce
  obtain last out2 where l: "write_all max_settings_bytes alloc [CHR 0x0A] out = (last, out2)" by fastforce
  have "validate s = []" "written" "last" "document = out_bytes out2"
    using assms by (auto simp: encode_settings_def w l split: if_splits bool.splits)
  then show ?thesis
    using write_chunks_True [of max_settings_bytes alloc "render_settings J s" no_output out]
      write_all_True [of max_settings_bytes alloc "[CHR 0x0A]" out out2] w l
    by (auto simp: no_output_def)
qed

lemma normalize_idem [simp]:
  "normalize_loaded_settings (normalize_loaded_settings s) = normalize_loaded_settings s"
  by (simp add: normalize_loaded_settings_def)

lemma normalize_valid: "validate s = [] \<Longrightarrow> validate (normalize_loaded_settings s) = []"
  by (auto simp: validate_Nil normalize_loaded_settings_def)

text \<open>The JSON library reads back the document that it wrote for these settings.\<close>

definition reads_back :: "settings_json \<Rightarrow> settings \<Rightarrow> bool" where
  "reads_back J s \<longleftrightarrow>
     (let d = concat (render_settings J s) @ [CHR 0x0A] in
      check_object_shape J d = Ok () \<and> typed J d = Some s)"

lemma encoded_settings_decode:
  assumes "encode_settings J alloc s = Ok document" and "reads_back J s"
  shows "decode_settings J document = Ok (normalize_loaded_settings s)"
  using encode_settings_Ok [OF assms(1)] assms(2) normalize_valid [of s]
  by (auto simp: decode_settings_def reads_back_def Let_def)

context atomic_files
begin

lemma read_settings_held:
  assumes "read_settings J files p w = (r, w2)"
  shows "content w2 = content w \<and>
     ((\<exists>e. r = Err (IssueFile e)) \<or> held J (content w p) = and_then r (\<lambda>x. Ok (fst x)) \<and>
        (\<forall>s d. r = Ok (s, d) \<longrightarrow> content w p = Some d))"
proof -
  obtain found where rd: "fs_read files p max_settings_bytes w = (found, w2)"
    and r: "r = and_then (map_err (\<lambda>e. if e = FileTooLarge then IssueTooLarge else IssueFile e) found) (\<lambda>c.
           and_then (ok_or IssueMissing c) (\<lambda>document.
           and_then (map_err read_issue (decode_settings J document)) (\<lambda>s. Ok (s, document))))"
    using assms by (auto simp: read_settings_def split: prod.splits)
  show ?thesis
  proof (cases found)
    case (Inl e)
    then show ?thesis
    proof (cases "e = FileTooLarge")
      case True
      then obtain d where "content w p = Some d" "max_settings_bytes < length d"
        using read_too_large rd Inl by blast
      then show ?thesis using read_frame [OF rd] Inl True r by (simp add: held_def decode_settings_def)
    next
      case False
      then show ?thesis using read_frame [OF rd] Inl r by simp
    qed
  next
    case (Inr c)
    then have c: "c = content w p" using read_content rd by blast
    show ?thesis
    proof (cases c)
      case None
      then show ?thesis using read_frame [OF rd] Inr r c by (simp add: held_def)
    next
      case (Some d)
      then show ?thesis
        using read_frame [OF rd] Inr r c by (cases "decode_settings J d") (simp_all add: held_def)
    qed
  qed
qed

text \<open>Loading is its specification, unless a call into the file system fails.\<close>

lemma load_settings_spec:
  assumes "load_settings J files st w = (x, w2)"
  shows "content w2 = content w \<and>
     (x = load_spec J st (content w) \<or> (\<exists>r e. x = Ok r \<and> load_recovery r = Some (IssueFile e)) \<or>
      (\<exists>i1 i2 e. x = Err (NoValidSettings i1 i2) \<and> (i1 = IssueFile e \<or> i2 = IssueFile e)))"
proof -
  obtain r1 w1 where a: "read_settings J files (primary st) w = (r1, w1)" by fastforce
  obtain r2 w3 where b: "read_settings J files (backup st) w1 = (r2, w3)" by fastforce
  note A = read_settings_held [OF a] and B = read_settings_held [OF b]
  show ?thesis
    using assms a b A B
    by (cases r1; cases r2) (auto simp: load_settings_def load_spec_def split: if_splits)
qed

text \<open>What a save leaves in the two files, whatever happens.\<close>

lemma save_settings_contents:
  assumes paths: "store_paths_ok st" and save: "save_settings J alloc files st s w = (r, w2)"
  shows "\<exists>document.
     (content w2 (primary st) = content w (primary st) \<or>
       encode_settings J alloc s = Ok document \<and> content w2 (primary st) = Some document) \<and>
     (r = Ok () \<longrightarrow> encode_settings J alloc s = Ok document \<and> content w2 (primary st) = Some document) \<and>
     (content w2 (backup st) = content w (backup st) \<or>
       is_ok (held J (content w (primary st))) \<and> content w2 (backup st) = content w (primary st)) \<and>
     (r = Ok () \<and> is_ok (held J (content w (primary st))) \<longrightarrow> content w2 (backup st) = content w (primary st))"
proof (cases "encode_settings J alloc s")
  case (Inl e)
  then show ?thesis using save by (auto simp: save_settings_def)
next
  case (Inr document)
  obtain r1 w1 where a: "read_settings J files (primary st) w = (r1, w1)" by fastforce
  note held = read_settings_held [OF a]
  then have same: "content w1 = content w" by blast
  note differ = store_paths_differ [OF paths]
  have tail: "(content w2 (primary st) = content v (primary st) \<or> content w2 (primary st) = Some document) \<and>
      (r = Ok () \<longrightarrow> content w2 (primary st) = Some document) \<and> content w2 (backup st) = content v (backup st)"
    if run: "(case fs_write files (primary st) document v of (r, w3) \<Rightarrow> (map_err SettingsFile r, w3)) = (r, w2)" for v
  proof -
    obtain q where wr: "fs_write files (primary st) document v = (q, w2)" and "r = map_err SettingsFile q"
      using run by (auto split: prod.splits)
    then show ?thesis
      using write_all_or_nothing [OF wr] write_frame [OF wr, of "backup st"] differ by (cases q) auto
  qed
  consider e where "r1 = Err (IssueFile e)" | s0 previous where "r1 = Ok (s0, previous)"
    | i where "r1 = Err i" "\<forall>e. i \<noteq> IssueFile e" by (cases r1) auto
  then show ?thesis
  proof cases
    case 1
    then show ?thesis using save Inr a same by (auto simp: save_settings_def)
  next
    case 2
    then have ok: "is_ok (held J (content w (primary st)))" "content w (primary st) = Some previous"
      using held by auto
    obtain q w3 where wr: "fs_write files (backup st) previous w1 = (q, w3)" by fastforce
    note bak = write_all_or_nothing [OF wr] write_frame [OF wr, of "primary st"]
    show ?thesis
    proof (cases q)
      case (Inl e)
      then show ?thesis using save Inr a 2 wr bak same ok differ by (auto simp: save_settings_def)
    next
      case (Inr u)
      then have "(case fs_write files (primary st) document w3 of (r, w3) \<Rightarrow> (map_err SettingsFile r, w3)) = (r, w2)"
        using save \<open>encode_settings J alloc s = Ok document\<close> a 2 wr by (simp add: save_settings_def)
      from tail [OF this] show ?thesis using \<open>encode_settings J alloc s = Ok document\<close> Inr bak same ok differ by auto
    qed
  next
    case 3
    then have "\<not> is_ok (held J (content w (primary st)))" using held by (metis is_ok_simps(2) map_err.simps(1) and_then.simps(1) sum.inject(1))
    moreover have "(case fs_write files (primary st) document w1 of (r, w3) \<Rightarrow> (map_err SettingsFile r, w3)) = (r, w2)"
      using save Inr a 3 by (cases i) (simp_all add: save_settings_def)
    ultimately show ?thesis using tail Inr same by metis
  qed
qed

end

section \<open>Properties\<close>

text \<open>
  C20: Saving never loses the settings. Whatever call into the file system fails while new settings
  are saved, what the two files then hold still loads whenever it loaded before, to the settings of
  before or to the new ones; after a successful save it loads the new ones (normalized) from the primary
  file, and the backup holds the previous document if that was valid. Loading from the files gives
  what they hold unless a read fails, which it reports.
\<close>

theorem saving_never_loses_settings:
  assumes st: "new_settings_store path dflt = Ok st" and json: "reads_back J s"
    and save: "save_settings J alloc (filesystem_store os) st s fs = (r, fs2)"
  shows "(r = Ok () \<longrightarrow> load_spec J st (content fs2) =
       Ok \<lparr>loaded = normalize_loaded_settings s, load_source = Primary, load_recovery = None\<rparr> \<and>
       (is_ok (held J (content fs path)) \<longrightarrow> content fs2 (backup st) = content fs path)) \<and>
     (\<forall>old. load_spec J st (content fs) = Ok old \<longrightarrow>
       (\<exists>new. load_spec J st (content fs2) = Ok new \<and>
          (loaded new = loaded old \<or> loaded new = normalize_loaded_settings s))) \<and>
     (\<forall>x fs3. load_settings J (filesystem_store os) st fs2 = (x, fs3) \<longrightarrow>
       x = load_spec J st (content fs2) \<or> (\<exists>l e. x = Ok l \<and> load_recovery l = Some (IssueFile e)) \<or>
       (\<exists>i1 i2 e. x = Err (NoValidSettings i1 i2) \<and> (i1 = IssueFile e \<or> i2 = IssueFile e)))"
proof -
  have path: "primary st = path" using st by (auto simp: new_settings_store_def Let_def split: if_splits)
  obtain document where d: "(content fs2 path = content fs path \<or>
       encode_settings J alloc s = Ok document \<and> content fs2 path = Some document)"
     "(r = Ok () \<longrightarrow> encode_settings J alloc s = Ok document \<and> content fs2 path = Some document)"
     "(content fs2 (backup st) = content fs (backup st) \<or>
       is_ok (held J (content fs path)) \<and> content fs2 (backup st) = content fs path)"
     "(r = Ok () \<and> is_ok (held J (content fs path)) \<longrightarrow> content fs2 (backup st) = content fs path)"
    using stored.save_settings_contents [OF new_store_paths [OF st] save] path by auto
  have new: "held J (Some document) = Ok (normalize_loaded_settings s)" if "encode_settings J alloc s = Ok document"
    using encoded_settings_decode [OF that json] by (simp add: held_def)
  have "\<exists>new. load_spec J st (content fs2) = Ok new \<and>
      (loaded new = loaded old \<or> loaded new = normalize_loaded_settings s)"
    if "load_spec J st (content fs) = Ok old" for old
  proof (cases "content fs2 path = content fs path")
    case True
    then show ?thesis
      using that d(3) path by (cases "held J (content fs path)") (auto simp: load_spec_def)
  next
    case False
    then show ?thesis using d(1) new path by (auto simp: load_spec_def)
  qed
  moreover have "load_spec J st (content fs2) =
       Ok \<lparr>loaded = normalize_loaded_settings s, load_source = Primary, load_recovery = None\<rparr>" if "r = Ok ()"
    using that d(2) new path by (simp add: load_spec_def)
  ultimately show ?thesis using d(4) stored.load_settings_spec by blast
qed

theorem saving_never_loses_settings_witness:
  "\<exists>st fs2. save_settings
       \<lparr>value_of = (\<lambda>_. Some (JsonObject [])), typed = (\<lambda>_. Some (new_settings ''logs'')), render_settings = (\<lambda>_. [''{}''])\<rparr>
       (\<lambda>_. True) (filesystem_store \<lparr>fault = (\<lambda>_. False), leaves = (\<lambda>_. 0), os_alloc = (\<lambda>_. True)\<rparr>) st
       (new_settings ''logs'') \<lparr>nodes = Map.empty, calls = 0\<rparr> = (Ok (), fs2) \<and>
     load_spec \<lparr>value_of = (\<lambda>_. Some (JsonObject [])), typed = (\<lambda>_. Some (new_settings ''logs'')), render_settings = (\<lambda>_. [''{}''])\<rparr>
       st (content fs2) = Ok \<lparr>loaded = new_settings ''logs'', load_source = Primary, load_recovery = None\<rparr>"
proof -
  let ?S = "new_settings ''logs''"
  let ?J = "\<lparr>value_of = (\<lambda>_. Some (JsonObject [])), typed = (\<lambda>_. Some ?S), render_settings = (\<lambda>_. [''{}''])\<rparr>"
  let ?os = "\<lparr>fault = (\<lambda>_. False), leaves = (\<lambda>_. 0), os_alloc = (\<lambda>_. True)\<rparr>"
  let ?fs = "\<lparr>nodes = Map.empty, calls = 0\<rparr>"
  let ?st = "\<lparr>primary = ''s'', backup = ''s.bak'', defaults = ?S\<rparr>"
  have valid: "validate ?S = []"
    using default_template_parses default_api_valid
    by (simp add: validate_Nil new_settings_def default_general_def default_donbot_def default_twitch_def
        default_dps_report_def ranges_ok_def byte_def)
  have path: "validate_storage_path ''s'' = Ok ()" by code_simp
  have st: "new_settings_store ''s'' ?S = Ok ?st"
    using valid path by (simp add: new_settings_store_def)
  have json: "reads_back ?J ?S"
    by (simp add: reads_back_def check_object_shape_def document_keys_def)
  have norm: "normalize_loaded_settings ?S = ?S"
    by (simp add: normalize_loaded_settings_def new_settings_def default_donbot_def)
  have rd: "read_settings ?J (filesystem_store ?os) ''s'' ?fs = (Err IssueMissing, next_call ?fs)"
    using path by (simp add: read_settings_def filesystem_store_def store_read_def failing_def max_settings_bytes_def
        max_persistent_bytes_def)
  obtain fs2 where wr: "write_atomic ?os ''s'' ''{}\<newline>'' (next_call ?fs) = (Ok (), fs2)"
    using reliable_write_succeeds [OF path, of "''{}\<newline>''" ?os "next_call ?fs"] by (auto simp: max_persistent_bytes_def)
  have "encode_settings ?J (\<lambda>_. True) ?S = Ok ''{}\<newline>''"
    using valid by (simp add: encode_settings_def validate_document_def write_all_def no_output_def max_settings_bytes_def)
  then have save: "save_settings ?J (\<lambda>_. True) (filesystem_store ?os) ?st ?S ?fs = (Ok (), fs2)"
    using rd wr by (simp add: save_settings_def filesystem_store_def)
  from saving_never_loses_settings [OF st json save] save norm show ?thesis by auto
qed

end
