(* ===== verification/Secret_Store.thy ===== *)
theory Secret_Store
  imports File_Store
begin

text \<open>
  Protected secrets: the values of \<open>rust/src/application/secrets.rs\<close> and the store of
  \<open>rust/src/config/secret_store.rs\<close>, which seals each secret in an envelope, has it encrypted and
  keeps it in a file of its own.

  The checksum is \<open>crc32fast\<close>'s and the encryption is the operating system's: both are parameters.
\<close>

section \<open>Secrets and errors\<close>

datatype secret_id = DpsReportUserToken | DonBotGw2ApiKey | TwitchOAuthSession

fun secret_number :: "secret_id \<Rightarrow> u32" where
  "secret_number DpsReportUserToken = 1"
| "secret_number DonBotGw2ApiKey = 2"
| "secret_number TwitchOAuthSession = 3"

definition max_secret_bytes :: nat where
  "max_secret_bytes = 16 * 1024"

definition max_protected_record_bytes :: nat where
  "max_protected_record_bytes = 64 * 1024"

datatype secret_protection_mode = NativeUserScoped | WineCompatibility

datatype secret_protection_error_code =
  UnsupportedEnvironment | InputTooLarge | ProtectionFailed | UnprotectionFailed | OutputTooLarge

record secret_protection_error =
  protection_code :: secret_protection_error_code
  protection_system_error :: "u32 option"

datatype secret_store_error_code =
  SecretConfiguration | InvalidSecretId | EmptySecret | SecretTooLarge | SecretNotFound | CorruptRecord
| SecretFileTooLarge | SecretProtection secret_protection_error_code | SecretFile file_error

record secret_store_error =
  error_id :: "secret_id option"
  secret_code :: secret_store_error_code
  system_error :: "u32 option"

definition secret_id_of :: "u32 \<Rightarrow> (secret_store_error, secret_id) result" where
  "secret_id_of v =
     (if v = 1 then Ok DpsReportUserToken
      else if v = 2 then Ok DonBotGw2ApiKey
      else if v = 3 then Ok TwitchOAuthSession
      else Err \<lparr>error_id = None, secret_code = InvalidSecretId, system_error = None\<rparr>)"

record protector =
  protector_mode :: secret_protection_mode
  protect :: "string \<Rightarrow> (secret_protection_error, string) result"
  unprotect :: "string \<Rightarrow> (secret_protection_error, string) result"

definition secret_error :: "secret_id \<Rightarrow> secret_store_error_code \<Rightarrow> secret_store_error" where
  "secret_error i c = \<lparr>error_id = Some i, secret_code = c, system_error = None\<rparr>"

definition secret_file_error :: "secret_id \<Rightarrow> file_error \<Rightarrow> secret_store_error" where
  "secret_file_error i e = secret_error i (if e = FileTooLarge then SecretFileTooLarge else SecretFile e)"

definition protection_error :: "secret_id \<Rightarrow> secret_protection_error \<Rightarrow> secret_store_error" where
  "protection_error i e = \<lparr>error_id = Some i, secret_code = SecretProtection (protection_code e),
     system_error = protection_system_error e\<rparr>"

section \<open>The envelope\<close>

definition secret_magic :: string where
  "secret_magic = ''MNYSECR1''"

definition header_bytes :: nat where
  "header_bytes = 20"

definition checksum_bytes :: nat where
  "checksum_bytes = 4"

definition u32_bytes :: "u32 \<Rightarrow> string" where
  "u32_bytes n = to_string (le_bytes 4 (unat n))"

definition number_at :: "string \<Rightarrow> nat \<Rightarrow> u32" where
  "number_at s start = le_word (of_string (slice start 4 s))"

definition encode_envelope :: "(string \<Rightarrow> u32) \<Rightarrow> secret_id \<Rightarrow> string \<Rightarrow> string" where
  "encode_envelope crc i v =
     (let b = secret_magic @ u32_bytes 1 @ u32_bytes (secret_number i) @ u32_bytes (of_nat (length v)) @ v
      in b @ u32_bytes (crc b))"

definition decode_envelope :: "(string \<Rightarrow> u32) \<Rightarrow> secret_id \<Rightarrow> string \<Rightarrow> (secret_store_error, string) result"
where
  "decode_envelope crc i b =
     (let corrupt = Err (secret_error i CorruptRecord) in
      if \<not> (header_bytes + checksum_bytes + 1 \<le> length b \<and>
             length b \<le> header_bytes + checksum_bytes + max_secret_bytes) then corrupt
      else if take 8 b \<noteq> secret_magic \<or> number_at b 8 \<noteq> 1 \<or> number_at b 12 \<noteq> secret_number i then corrupt
      else let payload = unat (number_at b 16) in
        if \<not> (1 \<le> payload \<and> payload \<le> max_secret_bytes) \<or> payload \<noteq> length b - header_bytes - checksum_bytes
        then corrupt
        else let end_of = length b - checksum_bytes in
          if number_at b end_of \<noteq> crc (take end_of b) then corrupt
          else Ok (slice header_bytes (end_of - header_bytes) b))"

section \<open>The store\<close>

record secret_store =
  secret_protector :: protector
  secret_directory :: string

definition new_secret_store :: "protector \<Rightarrow> string \<Rightarrow> (secret_store_error, secret_store) result" where
  "new_secret_store P dir =
     (if dir = [] \<or> CHR 0x00 \<in> set dir
      then Err \<lparr>error_id = None, secret_code = SecretConfiguration, system_error = None\<rparr>
      else Ok \<lparr>secret_protector = P, secret_directory = dir\<rparr>)"

text \<open>\<open>Path::join\<close> with a plain name; a directory with a verbatim prefix is in its normal spelling.\<close>

definition join_path :: "string \<Rightarrow> string \<Rightarrow> string" where
  "join_path dir name =
     (let drive_only = (length dir = 2 \<and> parse_drive dir \<noteq> None) in
      if dir = [] \<or> is_sep (last dir) \<or> drive_only then dir @ name else dir @ backslash # name)"

fun record_name :: "secret_id \<Rightarrow> string" where
  "record_name DpsReportUserToken = ''dps-report-token.bin''"
| "record_name DonBotGw2ApiKey = ''donbot-gw2-api-key.bin''"
| "record_name TwitchOAuthSession = ''twitch-oauth-session.bin''"

definition record_path :: "secret_store \<Rightarrow> secret_id \<Rightarrow> string" where
  "record_path st i = join_path (secret_directory st) (record_name i)"

definition load_secret ::
  "(string \<Rightarrow> u32) \<Rightarrow> 'w files \<Rightarrow> secret_store \<Rightarrow> secret_id \<Rightarrow> 'w \<Rightarrow> (secret_store_error, string) result \<times> 'w"
where
  "load_secret crc files st i w =
     (case fs_read files (record_path st i) max_protected_record_bytes w of
        (found, w2) \<Rightarrow>
          (and_then (map_err (secret_file_error i) found) (\<lambda>c.
           and_then (ok_or (secret_error i SecretNotFound) c) (\<lambda>rec.
             if rec = [] then Err (secret_error i CorruptRecord)
             else if max_protected_record_bytes < length rec then Err (secret_error i SecretFileTooLarge)
             else and_then (map_err (protection_error i) (unprotect (secret_protector st) rec))
               (decode_envelope crc i))), w2))"

definition store_secret ::
  "(string \<Rightarrow> u32) \<Rightarrow> 'w files \<Rightarrow> secret_store \<Rightarrow> secret_id \<Rightarrow> string \<Rightarrow> 'w \<Rightarrow>
     (secret_store_error, unit) result \<times> 'w" where
  "store_secret crc files st i v w =
     (if v = [] then (Err (secret_error i EmptySecret), w)
      else if max_secret_bytes < length v then (Err (secret_error i SecretTooLarge), w)
      else case map_err (protection_error i) (protect (secret_protector st) (encode_envelope crc i v)) of
        Err e \<Rightarrow> (Err e, w)
      | Ok rec \<Rightarrow>
          if rec = [] \<or> max_protected_record_bytes < length rec then (Err (secret_error i SecretFileTooLarge), w)
          else (case fs_write files (record_path st i) rec w of
              (r, w2) \<Rightarrow> (map_err (secret_file_error i) r, w2)))"

definition erase_secret ::
  "'w files \<Rightarrow> secret_store \<Rightarrow> secret_id \<Rightarrow> 'w \<Rightarrow> (secret_store_error, unit) result \<times> 'w" where
  "erase_secret files st i w =
     (case fs_erase files (record_path st i) w of (r, w2) \<Rightarrow> (map_err (secret_file_error i) r, w2))"

section \<open>Lemmas\<close>

lemma of_to_string [simp]: "of_string (to_string b) = b"
proof -
  have "of_nat (of_char (char_of (unat x) :: char)) = x" for x :: u8
  proof -
    have "unat x < 256" using unsigned_less [of x] by simp
    then show ?thesis by simp
  qed
  then show ?thesis by (simp add: of_string_def to_string_def comp_def)
qed

lemma to_of_string [simp]: "to_string (of_string s) = s"
proof -
  have "char_of (unat (of_nat (of_char c) :: u8)) = c" for c :: char
    by (simp add: unat_of_nat)
  then show ?thesis by (simp add: of_string_def to_string_def comp_def)
qed

lemma length_u32_bytes [simp]: "length (u32_bytes n) = 4"
  by (simp add: u32_bytes_def to_string_def)

lemma le_bytes_le_nat [simp]: "le_bytes (length bs) (le_nat bs) = bs"
proof (induction bs)
  case (Cons b bs)
  have "unat b < 256" using unsigned_less [of b] by simp
  then have "(unat b + 256 * le_nat bs) mod 256 = unat b" "(unat b + 256 * le_nat bs) div 256 = le_nat bs"
    by simp_all
  then show ?case using Cons by simp
qed simp

lemma number_bytes:
  assumes "length s = 4"
  shows "le_word (of_string s) = n \<longleftrightarrow> s = u32_bytes n"
proof
  assume n: "le_word (of_string s) = n"
  have len: "length (of_string s) = 4" using assms by (simp add: of_string_def)
  then have "le_nat (of_string s) < 2 ^ 32" using le_nat_bound [of "of_string s"] by simp
  then have "unat n = le_nat (of_string s)" by (simp add: n [symmetric] le_word_def unat_of_nat)
  then have "le_bytes 4 (unat n) = of_string s" using le_bytes_le_nat [of "of_string s"] len by simp
  then show "s = u32_bytes n" by (simp add: u32_bytes_def)
qed (simp add: u32_bytes_def)

lemma secret_number_inject [simp]: "secret_number i = secret_number j \<longleftrightarrow> i = j"
  by (cases i; cases j) simp_all

lemma drop_slice: "drop a b = slice a n b @ drop (a + n) b"
  by (simp add: slice_def) (metis add.commute append_take_drop_id drop_drop)

lemma envelope_parts:
  assumes "25 \<le> length b"
  shows "b = take 8 b @ slice 8 4 b @ slice 12 4 b @ slice 16 4 b @ slice 20 (length b - 24) b @
     slice (length b - 4) 4 b"
proof -
  have "drop (length b - 4) b = slice (length b - 4) 4 b" by (simp add: slice_def)
  then have "drop 20 b = slice 20 (length b - 24) b @ slice (length b - 4) 4 b"
    using drop_slice [of 20 b "length b - 24"] assms by simp
  then show ?thesis
    using drop_slice [of 8 b 4] drop_slice [of 12 b 4] drop_slice [of 16 b 4] append_take_drop_id [of 8 b] by simp
qed

lemma length_secret_magic [simp]: "length secret_magic = 8"
  by (simp add: secret_magic_def)

lemma length_envelope: "length (encode_envelope crc i v) = 24 + length v"
  by (simp add: encode_envelope_def Let_def)

lemma number_at_bytes: "length s + 4 \<le> length s + length (u32_bytes n) \<Longrightarrow> number_at (s @ u32_bytes n @ t) (length s) = n"
  using number_bytes [of "u32_bytes n" n] by (simp add: number_at_def slice_def)

lemma decode_encode_envelope:
  assumes "1 \<le> length v" and "length v \<le> max_secret_bytes"
  shows "decode_envelope crc i (encode_envelope crc i v) = Ok v"
proof -
  define b where "b = secret_magic @ u32_bytes 1 @ u32_bytes (secret_number i) @ u32_bytes (of_nat (length v)) @ v"
  have e: "encode_envelope crc i v = b @ u32_bytes (crc b)" by (simp add: encode_envelope_def b_def Let_def)
  have len: "length b = 20 + length v" by (simp add: b_def)
  have "number_at (b @ u32_bytes (crc b)) 8 = 1" "number_at (b @ u32_bytes (crc b)) 12 = secret_number i"
    "number_at (b @ u32_bytes (crc b)) 16 = of_nat (length v)"
    using number_at_bytes [of secret_magic 1] number_at_bytes [of "secret_magic @ u32_bytes 1" "secret_number i"]
      number_at_bytes [of "secret_magic @ u32_bytes 1 @ u32_bytes (secret_number i)" "of_nat (length v)"]
    by (simp_all add: b_def)
  moreover have "number_at (b @ u32_bytes (crc b)) (20 + length v) = crc b"
    using number_at_bytes [of b "crc b" "[]"] len by simp
  moreover have "unat (of_nat (length v) :: u32) = length v"
    using assms(2) by (simp add: unat_of_nat max_secret_bytes_def)
  moreover have "slice 20 (length v) (b @ u32_bytes (crc b)) = v" "take 8 (b @ u32_bytes (crc b)) = secret_magic"
    using len by (simp_all add: slice_def b_def)
  ultimately show ?thesis
    using assms len by (simp add: decode_envelope_def e Let_def header_bytes_def checksum_bytes_def)
qed

lemma decode_envelope_Ok:
  assumes "decode_envelope crc i b = Ok v"
  shows "b = encode_envelope crc i v \<and> 1 \<le> length v \<and> length v \<le> max_secret_bytes"
proof -
  let ?n = "length b - 24"
  from assms have len: "25 \<le> length b" "length b \<le> 24 + max_secret_bytes"
    and magic: "take 8 b = secret_magic" and nums: "number_at b 8 = 1" "number_at b 12 = secret_number i"
    and payload: "unat (number_at b 16) = ?n" and v: "v = slice 20 ?n b"
    and crc: "number_at b (length b - 4) = crc (take (length b - 4) b)"
    by (auto simp: decode_envelope_def Let_def header_bytes_def checksum_bytes_def split: if_splits)
  have l: "length (slice a 4 b) = 4" if "a + 4 \<le> length b" for a using that by (simp add: length_slice)
  have "number_at b 16 = of_nat ?n" by (simp flip: payload)
  then have s: "slice 8 4 b = u32_bytes 1" "slice 12 4 b = u32_bytes (secret_number i)"
    "slice 16 4 b = u32_bytes (of_nat ?n)" "slice (length b - 4) 4 b = u32_bytes (crc (take (length b - 4) b))"
    using nums crc len l [of 8] l [of 12] l [of 16] l [of "length b - 4"]
    by (simp_all add: number_at_def number_bytes)
  have lv: "length v = ?n" using len by (simp add: v length_slice)
  have "b = (secret_magic @ u32_bytes 1 @ u32_bytes (secret_number i) @ u32_bytes (of_nat ?n) @ v) @
      u32_bytes (crc (take (length b - 4) b))" (is "_ = ?body @ _")
    using envelope_parts [OF len(1)] by (simp add: magic s v)
  moreover from this have "take (length b - 4) b = ?body"
    using len lv by (metis append_eq_conv_conj butlast_conv_take diff_add_inverse2 length_append length_u32_bytes)
  moreover have "1 \<le> length v" "length v \<le> max_secret_bytes" using len lv by linarith+
  ultimately show ?thesis using lv by (simp add: encode_envelope_def Let_def)
qed

lemma envelope_inject:
  assumes "encode_envelope crc i v = encode_envelope crc i u" and "1 \<le> length v" "length v \<le> max_secret_bytes"
    and "1 \<le> length u" "length u \<le> max_secret_bytes"
  shows "v = u"
  using decode_encode_envelope [OF assms(2,3), of crc i] decode_encode_envelope [OF assms(4,5), of crc i]
  unfolding assms(1) by (metis sum.inject(2))

text \<open>The records of different secrets, and their temporary files, are different files.\<close>

lemma record_paths_differ:
  assumes "i \<noteq> j"
  shows "record_path st j \<noteq> record_path st i \<and> record_path st j \<noteq> temporary_path (record_path st i)"
proof -
  obtain pre where pre: "join_path (secret_directory st) n = pre @ n" for n
  proof (cases "secret_directory st = [] \<or> is_sep (last (secret_directory st)) \<or>
      (length (secret_directory st) = 2 \<and> parse_drive (secret_directory st) \<noteq> None)")
    case True
    then show ?thesis by (intro that [of "secret_directory st"]) (auto simp: join_path_def)
  next
    case False
    then show ?thesis by (intro that [of "secret_directory st @ [backslash]"]) (auto simp: join_path_def)
  qed
  show ?thesis
    using assms by (cases i; cases j) (simp_all add: record_path_def pre temporary_path_def)
qed

context atomic_files
begin

lemma store_secret_effect:
  assumes "store_secret crc files st i v w = (r, w2)"
  shows "(\<forall>j. j \<noteq> i \<longrightarrow> content w2 (record_path st j) = content w (record_path st j)) \<and>
     (content w2 (record_path st i) = content w (record_path st i) \<or>
       (\<exists>sealed. protect (secret_protector st) (encode_envelope crc i v) = Ok sealed \<and>
          content w2 (record_path st i) = Some sealed)) \<and>
     (r = Ok () \<longrightarrow> v \<noteq> [] \<and> length v \<le> max_secret_bytes \<and>
       (\<exists>sealed. protect (secret_protector st) (encode_envelope crc i v) = Ok sealed \<and> sealed \<noteq> [] \<and>
          length sealed \<le> max_protected_record_bytes \<and> content w2 (record_path st i) = Some sealed))"
proof -
  consider e where "r = Err e" "w2 = w"
    | sealed x where "v \<noteq> []" "length v \<le> max_secret_bytes"
      "protect (secret_protector st) (encode_envelope crc i v) = Ok sealed" "sealed \<noteq> []"
      "length sealed \<le> max_protected_record_bytes" "fs_write files (record_path st i) sealed w = (x, w2)"
      "r = map_err (secret_file_error i) x"
    using assms by (auto simp: store_secret_def not_less split: if_splits sum.splits prod.splits)
  then show ?thesis
  proof cases
    case 2
    note eff = write_all_or_nothing [OF 2(6)] write_frame [OF 2(6)]
    show ?thesis using 2 eff record_paths_differ by (cases x) auto
  qed auto
qed

lemma load_secret_content:
  assumes "load_secret crc files st i w = (Ok v, w2)"
  shows "\<exists>sealed b. content w (record_path st i) = Some sealed \<and>
     unprotect (secret_protector st) sealed = Ok b \<and> decode_envelope crc i b = Ok v"
proof -
  obtain found w3 where rd: "fs_read files (record_path st i) max_protected_record_bytes w = (found, w3)"
    by fastforce
  then obtain sealed where "found = Ok (Some sealed)"
    and "\<exists>b. unprotect (secret_protector st) sealed = Ok b \<and> decode_envelope crc i b = Ok v"
    using assms by (auto simp: load_secret_def split: if_splits)
  then show ?thesis using read_content rd by force
qed

end

section \<open>Properties\<close>

text \<open>
  C29: The envelope of a secret is canonical: a byte sequence opens as the secret \<open>v\<close> under an identifier
  exactly when it is the envelope that sealing \<open>v\<close> under that identifier gives, and \<open>v\<close> is not empty
  and within the limit. So every sealed secret opens again, an envelope never opens under another
  identifier, and no truncated, extended or altered envelope opens unless the checksum collides.
\<close>

theorem envelope_is_canonical:
  "decode_envelope crc i b = Ok v \<longleftrightarrow>
     b = encode_envelope crc i v \<and> 1 \<le> length v \<and> length v \<le> max_secret_bytes"
  using decode_envelope_Ok decode_encode_envelope by blast

text \<open>
  C30: The secret store keeps secrets apart. Storing a secret, whatever fails on the way, leaves the
  records of the other identifiers as they are; after a successful store, a load of that identifier that
  succeeds gives exactly the stored value, provided the protection opens what it sealed; and a secret
  that was sealed under another identifier is never returned.
\<close>

theorem secrets_are_kept_apart:
  assumes store: "store_secret crc (filesystem_store os) st i v fs = (r, fs2)"
    and seal: "\<And>x y. protect (secret_protector st) x = Ok y \<Longrightarrow> unprotect (secret_protector st) y = Ok x"
  shows "(\<forall>j. j \<noteq> i \<longrightarrow> content fs2 (record_path st j) = content fs (record_path st j)) \<and>
     (r = Ok () \<longrightarrow> (\<forall>x fs3. load_secret crc (filesystem_store os) st i fs2 = (Ok x, fs3) \<longrightarrow> x = v)) \<and>
     (\<forall>j x y fs3. load_secret crc (filesystem_store os) st j fs2 = (Ok x, fs3) \<and>
        content fs2 (record_path st j) = Some y \<longrightarrow> unprotect (secret_protector st) y = Ok (encode_envelope crc j x))"
proof -
  note eff = stored.store_secret_effect [OF store]
  have "x = v" if "r = Ok ()" "load_secret crc (filesystem_store os) st i fs2 = (Ok x, fs3)" for x fs3
    using eff that(1) stored.load_secret_content [OF that(2)] seal
    by (auto dest!: decode_envelope_Ok intro!: envelope_inject [of crc i x v] simp: Suc_le_eq)
  moreover have "unprotect (secret_protector st) y = Ok (encode_envelope crc j x)"
    if "load_secret crc (filesystem_store os) st j fs2 = (Ok x, fs3)" "content fs2 (record_path st j) = Some y" for j x y fs3
    using stored.load_secret_content [OF that(1)] that(2) decode_envelope_Ok by fastforce
  ultimately show ?thesis using eff by blast
qed

text \<open>A first secret in an empty directory, under a protection that only marks what it seals.\<close>

theorem secrets_are_kept_apart_witness:
  "\<exists>fs2. store_secret (\<lambda>_. 7) (filesystem_store \<lparr>fault = (\<lambda>_. False), leaves = (\<lambda>_. 0), os_alloc = (\<lambda>_. True)\<rparr>)
       \<lparr>secret_protector = \<lparr>protector_mode = WineCompatibility, protect = (\<lambda>x. Ok (CHR ''s'' # x)),
          unprotect = (\<lambda>y. Ok (tl y))\<rparr>, secret_directory = ''d''\<rparr>
       TwitchOAuthSession ''token'' \<lparr>nodes = Map.empty, calls = 0\<rparr> = (Ok (), fs2) \<and>
     content fs2 (record_path \<lparr>secret_protector = \<lparr>protector_mode = WineCompatibility, protect = (\<lambda>x. Ok (CHR ''s'' # x)),
          unprotect = (\<lambda>y. Ok (tl y))\<rparr>, secret_directory = ''d''\<rparr> DonBotGw2ApiKey) = None"
proof -
  let ?P = "\<lparr>protector_mode = WineCompatibility, protect = (\<lambda>x. Ok (CHR ''s'' # x)), unprotect = (\<lambda>y. Ok (tl y))\<rparr>"
  let ?st = "\<lparr>secret_protector = ?P, secret_directory = ''d''\<rparr>"
  let ?os = "\<lparr>fault = (\<lambda>_. False), leaves = (\<lambda>_. 0), os_alloc = (\<lambda>_. True)\<rparr>"
  let ?fs = "\<lparr>nodes = Map.empty, calls = 0\<rparr>"
  let ?b = "encode_envelope (\<lambda>_. 7) TwitchOAuthSession ''token''"
  have "record_path ?st TwitchOAuthSession = ''d'' @ backslash # ''twitch-oauth-session.bin''"
    by (simp add: record_path_def join_path_def is_sep_def backslash_def)
  moreover have "validate_storage_path (''d'' @ backslash # ''twitch-oauth-session.bin'') = Ok ()" by code_simp
  ultimately have path: "validate_storage_path (record_path ?st TwitchOAuthSession) = Ok ()" by simp
  have len: "length ?b = 29" by (simp add: length_envelope)
  obtain fs2 where wr: "write_atomic ?os (record_path ?st TwitchOAuthSession) (CHR ''s'' # ?b) ?fs = (Ok (), fs2)"
    using reliable_write_succeeds [OF path, of "CHR ''s'' # ?b" ?os ?fs] len by (auto simp: max_persistent_bytes_def)
  then have store: "store_secret (\<lambda>_. 7) (filesystem_store ?os) ?st TwitchOAuthSession ''token'' ?fs = (Ok (), fs2)"
    using len by (simp add: store_secret_def filesystem_store_def max_secret_bytes_def max_protected_record_bytes_def)
  have "unprotect (secret_protector ?st) y = Ok x" if "protect (secret_protector ?st) x = Ok y" for x y
    using that by auto
  from secrets_are_kept_apart [OF store this, THEN conjunct1, rule_format, of DonBotGw2ApiKey]
  have "content fs2 (record_path ?st DonBotGw2ApiKey) = None" by (simp add: content_def)
  with store show ?thesis by blast
qed

end
