(* ===== verification/Configuration.thy ===== *)
theory Configuration
  imports Settings_Store Secret_Store
begin

text \<open>
  The configuration service (\<open>rust/src/application/configuration_service.rs\<close>): the owner of the
  settings and of the secrets, which publishes a snapshot with a revision.

  The two stores are trait objects: records of functions over a world. An absent secret store is a
  service without that record, with the error of its initialization in the snapshot.
\<close>

section \<open>Data\<close>

record 'w settings_port =
  port_load :: "'w \<Rightarrow> (settings_store_error, settings_load_result) result \<times> 'w"
  port_save :: "settings \<Rightarrow> 'w \<Rightarrow> (settings_store_error, unit) result \<times> 'w"

record 'w secret_port =
  port_mode :: secret_protection_mode
  port_load_secret :: "secret_id \<Rightarrow> 'w \<Rightarrow> (secret_store_error, string) result \<times> 'w"
  port_store_secret :: "secret_id \<Rightarrow> string \<Rightarrow> 'w \<Rightarrow> (secret_store_error, unit) result \<times> 'w"
  port_erase_secret :: "secret_id \<Rightarrow> 'w \<Rightarrow> (secret_store_error, unit) result \<times> 'w"

datatype storage_state = StorageAvailable | StorageUnsupported | StorageFailed

record storage_snapshot =
  storage_state :: storage_state
  storage_mode :: "secret_protection_mode option"
  storage_error :: "secret_store_error_code option"
  storage_system_error :: "u32 option"

record configuration_snapshot =
  snap_settings :: settings
  snap_source :: settings_load_source
  snap_recovery :: "settings_read_issue option"
  snap_storage :: storage_snapshot
  snap_revision :: u64
  snap_shutting_down :: bool

datatype configuration_error =
  SettingsLoadError settings_store_error
| SettingsSaveError settings_store_error
| SecretStorageUnavailable secret_store_error
| SecretLoadError secret_store_error
| SecretSaveError secret_store_error
| SecretEraseError secret_store_error
| ConfigurationStopping "secret_id option"
| ConfigurationRevisionExhausted

record 'w configuration =
  settings_port :: "'w settings_port"
  secrets_port :: "'w secret_port option"
  snap :: configuration_snapshot

section \<open>Operations\<close>

definition check_settings :: "settings \<Rightarrow> (settings_store_error, unit) result" where
  "check_settings s = (let errors = validate s in if errors = [] then Ok () else Err (SettingsInvalidValues errors))"

definition storage_of :: "(secret_store_error, 'w secret_port) result \<Rightarrow> storage_snapshot" where
  "storage_of secrets =
     (case secrets of
        Ok p \<Rightarrow> \<lparr>storage_state = StorageAvailable, storage_mode = Some (port_mode p), storage_error = None,
          storage_system_error = None\<rparr>
      | Err e \<Rightarrow> \<lparr>storage_state =
            (if secret_code e = SecretProtection UnsupportedEnvironment then StorageUnsupported else StorageFailed),
          storage_mode = None, storage_error = Some (secret_code e), storage_system_error = system_error e\<rparr>)"

definition new_configuration ::
  "'w settings_port \<Rightarrow> (secret_store_error, 'w secret_port) result \<Rightarrow> 'w \<Rightarrow>
     (configuration_error, 'w configuration) result \<times> 'w" where
  "new_configuration ps secrets w =
     (case port_load ps w of
        (l, w2) \<Rightarrow>
          (and_then (map_err SettingsLoadError l) (\<lambda>r.
           and_then (map_err SettingsLoadError (check_settings (loaded r))) (\<lambda>_.
             Ok \<lparr>settings_port = ps,
               secrets_port = (case secrets of Ok p \<Rightarrow> Some p | Err _ \<Rightarrow> None),
               snap = \<lparr>snap_settings = loaded r, snap_source = load_source r,
                 snap_recovery = load_recovery r, snap_storage = storage_of secrets,
                 snap_revision = 1, snap_shutting_down = False\<rparr>\<rparr>)), w2))"

definition config_running :: "secret_id option \<Rightarrow> 'w configuration \<Rightarrow> (configuration_error, unit) result" where
  "config_running i c = require (\<not> snap_shutting_down (snap c)) (ConfigurationStopping i)"

text \<open>The final revision is reserved for the shutdown.\<close>

definition next_revision :: "u64 \<Rightarrow> u64 option" where
  "next_revision r = (case checked_succ r of Some n \<Rightarrow> if n < - 1 then Some n else None | None \<Rightarrow> None)"

definition save_configuration ::
  "settings \<Rightarrow> 'w configuration \<Rightarrow> 'w \<Rightarrow> (configuration_error, unit) result \<times> 'w configuration \<times> 'w" where
  "save_configuration s c w =
     (case and_then (config_running None c) (\<lambda>_.
           and_then (ok_or ConfigurationRevisionExhausted (next_revision (snap_revision (snap c)))) (\<lambda>r.
           and_then (map_err SettingsSaveError (check_settings s)) (\<lambda>_. Ok r))) of
        Err e \<Rightarrow> (Err e, c, w)
      | Ok r \<Rightarrow>
          (case port_save (settings_port c) s w of
             (Err e, w2) \<Rightarrow> (Err (SettingsSaveError e), c, w2)
           | (Ok _, w2) \<Rightarrow>
               (Ok (), c\<lparr>snap := (snap c)\<lparr>snap_settings := s, snap_source := Primary,
                  snap_recovery := None, snap_revision := r\<rparr>\<rparr>, w2)))"

text \<open>The expectation that an absent store has an explicit error holds by \<open>config_inv\<close>.\<close>

definition storage_unavailable :: "secret_id \<Rightarrow> 'w configuration \<Rightarrow> configuration_error" where
  "storage_unavailable i c =
     SecretStorageUnavailable \<lparr>error_id = Some i, secret_code = the (storage_error (snap_storage (snap c))),
       system_error = storage_system_error (snap_storage (snap c))\<rparr>"

definition request_error :: "secret_id \<Rightarrow> secret_store_error \<Rightarrow> secret_store_error" where
  "request_error i e = e\<lparr>error_id := Some i\<rparr>"

definition with_secrets ::
  "secret_id \<Rightarrow> (secret_store_error \<Rightarrow> configuration_error) \<Rightarrow>
     ('w secret_port \<Rightarrow> 'w \<Rightarrow> (secret_store_error, 'a) result \<times> 'w) \<Rightarrow> 'w configuration \<Rightarrow> 'w \<Rightarrow>
     (configuration_error, 'a) result \<times> 'w" where
  "with_secrets i failure f c w =
     (case config_running (Some i) c of
        Err e \<Rightarrow> (Err e, w)
      | Ok _ \<Rightarrow>
          (case secrets_port c of
             None \<Rightarrow> (Err (storage_unavailable i c), w)
           | Some p \<Rightarrow>
               (case f p w of (r, w2) \<Rightarrow> (map_err (\<lambda>e. failure (request_error i e)) r, w2))))"

definition config_load_secret ::
  "secret_id \<Rightarrow> 'w configuration \<Rightarrow> 'w \<Rightarrow> (configuration_error, string) result \<times> 'w" where
  "config_load_secret i = with_secrets i SecretLoadError (\<lambda>p. port_load_secret p i)"

definition config_store_secret ::
  "secret_id \<Rightarrow> string \<Rightarrow> 'w configuration \<Rightarrow> 'w \<Rightarrow> (configuration_error, unit) result \<times> 'w" where
  "config_store_secret i v = with_secrets i SecretSaveError (\<lambda>p. port_store_secret p i v)"

definition config_erase_secret ::
  "secret_id \<Rightarrow> 'w configuration \<Rightarrow> 'w \<Rightarrow> (configuration_error, unit) result \<times> 'w" where
  "config_erase_secret i = with_secrets i SecretEraseError (\<lambda>p. port_erase_secret p i)"

definition shutdown_configuration :: "'w configuration \<Rightarrow> 'w configuration" where
  "shutdown_configuration c =
     (if snap_shutting_down (snap c) then c
      else c\<lparr>snap := (snap c)\<lparr>snap_shutting_down := True, snap_revision := snap_revision (snap c) + 1\<rparr>\<rparr>)"

section \<open>The service as a machine\<close>

datatype config_op =
  SaveOp settings | LoadSecretOp secret_id | StoreSecretOp secret_id string | EraseSecretOp secret_id | ShutdownOp

fun config_step :: "'w configuration \<times> 'w \<Rightarrow> config_op \<Rightarrow> 'w configuration \<times> 'w" where
  "config_step (c, w) (SaveOp s) = snd (save_configuration s c w)"
| "config_step (c, w) (LoadSecretOp i) = (c, snd (config_load_secret i c w))"
| "config_step (c, w) (StoreSecretOp i v) = (c, snd (config_store_secret i v c w))"
| "config_step (c, w) (EraseSecretOp i) = (c, snd (config_erase_secret i c w))"
| "config_step (c, w) ShutdownOp = (shutdown_configuration c, w)"

definition config_inv :: "'w configuration \<Rightarrow> bool" where
  "config_inv c \<longleftrightarrow> validate (snap_settings (snap c)) = [] \<and> 1 \<le> snap_revision (snap c) \<and>
     (\<not> snap_shutting_down (snap c) \<longrightarrow> snap_revision (snap c) < - 1) \<and>
     (secrets_port c = None \<longrightarrow> storage_error (snap_storage (snap c)) \<noteq> None)"

text \<open>A change of the snapshot shows in its revision, and nothing happens after the shutdown.\<close>

definition config_evolves :: "'w configuration \<times> 'w \<Rightarrow> 'w configuration \<times> 'w \<Rightarrow> bool" where
  "config_evolves x y \<longleftrightarrow>
     snap_revision (snap (fst x)) \<le> snap_revision (snap (fst y)) \<and>
     (snap (fst x) \<noteq> snap (fst y) \<longrightarrow> snap_revision (snap (fst x)) < snap_revision (snap (fst y))) \<and>
     (snap_shutting_down (snap (fst x)) \<longrightarrow> y = x)"

lemma check_settings_Ok [simp]: "check_settings s = Ok u \<longleftrightarrow> validate s = []"
  by (simp add: check_settings_def Let_def)

lemma next_revision_Some: "next_revision r = Some n \<Longrightarrow> r < n \<and> n < - 1 \<and> 1 \<le> n"
proof -
  assume n: "next_revision r = Some n"
  then have "r < n" "n < - 1"
    using checked_succ_less [of r n] by (auto simp: next_revision_def split: option.splits if_splits)
  moreover from this have "unat r < unat n" by (simp add: word_less_nat_alt)
  ultimately show ?thesis by (simp add: word_le_nat_alt)
qed

lemma succ_less_max:
  assumes "(r :: u64) < - 1"
  shows "r < r + 1 \<and> 1 \<le> r + 1"
proof -
  have "checked_succ r = Some (r + 1)" using assms by (auto simp: checked_succ_def)
  from checked_succ_Some [OF this] show ?thesis by (simp add: word_less_nat_alt word_le_nat_alt)
qed

lemma one_less_max: "(1 :: u64) < - 1"
  by code_simp

lemma new_configuration_inv: "new_configuration ps secrets w = (Ok c, w2) \<Longrightarrow> config_inv c"
  by (auto simp: one_less_max new_configuration_def config_inv_def storage_of_def split: prod.splits sum.splits)

lemma save_configuration_cases:
  assumes "save_configuration s c w = (r, c2, w2)"
  obtains e where "r = Err e" and "c2 = c" and "snap_shutting_down (snap c) \<Longrightarrow> w2 = w"
    | n where "r = Ok ()" and "\<not> snap_shutting_down (snap c)" and "validate s = []"
      and "next_revision (snap_revision (snap c)) = Some n"
      and "c2 = c\<lparr>snap := (snap c)\<lparr>snap_settings := s, snap_source := Primary, snap_recovery := None,
        snap_revision := n\<rparr>\<rparr>"
proof (cases "and_then (config_running None c) (\<lambda>_.
           and_then (ok_or ConfigurationRevisionExhausted (next_revision (snap_revision (snap c)))) (\<lambda>r.
           and_then (map_err SettingsSaveError (check_settings s)) (\<lambda>_. Ok r)))")
  case (Inl e)
  then show ?thesis using assms by (intro that(1)) (auto simp: save_configuration_def)
next
  case (Inr n)
  then have n: "\<not> snap_shutting_down (snap c)" "next_revision (snap_revision (snap c)) = Some n" "validate s = []"
    by (auto simp: config_running_def)
  then have "check_settings s = Ok ()" by simp
  obtain q w3 where "port_save (settings_port c) s w = (q, w3)" by fastforce
  then show ?thesis
    using assms Inr n \<open>check_settings s = Ok ()\<close> by (cases q) (auto simp: save_configuration_def intro: that)
qed

lemma shutdown_configuration_step:
  "config_inv c \<Longrightarrow> config_inv (shutdown_configuration c) \<and>
     config_evolves (c, w) (shutdown_configuration c, w)"
  using succ_less_max [of "snap_revision (snap c)"]
  by (auto simp: shutdown_configuration_def config_inv_def config_evolves_def)

lemma with_secrets_stopped: "snap_shutting_down (snap c) \<Longrightarrow> snd (with_secrets i failure f c w) = w"
  by (simp add: with_secrets_def config_running_def require_def)

lemma config_step_sound:
  assumes "config_inv (fst x)"
  shows "config_inv (fst (config_step x c)) \<and> config_evolves x (config_step x c)"
proof (cases x)
  case (Pair s w)
  show ?thesis
  proof (cases c)
    case (SaveOp v)
    obtain r s2 w2 where "save_configuration v s w = (r, s2, w2)" by (rule prod_cases3)
    then show ?thesis
      using assms Pair SaveOp
      by (auto elim!: save_configuration_cases simp: config_inv_def config_evolves_def dest: next_revision_Some)
  next
    case ShutdownOp
    then show ?thesis using assms Pair shutdown_configuration_step [of s w] by simp
  qed (use assms Pair in \<open>auto simp: config_evolves_def config_load_secret_def config_store_secret_def
        config_erase_secret_def with_secrets_stopped\<close>)
qed

interpretation service: evolving_machine config_step "\<lambda>x. config_inv (fst x)" config_evolves
  by unfold_locales (auto simp: config_step_sound, auto simp: config_evolves_def)

section \<open>Properties\<close>

text \<open>
  C31: A configuration service never publishes invalid settings, and every change of its snapshot is
  visible: along any sequence of saves, secret operations and shutdowns after its creation, the
  settings in force pass validation, the revision only grows and grows whenever the snapshot changed
  in between, a revision is always left for the shutdown, and after the shutdown nothing changes any
  more, neither the snapshot nor the stores. A missing secret store always has its error to report.
\<close>

theorem configuration_changes_are_visible:
  assumes "new_configuration ps secrets w0 = (Ok c, w)" and "m \<le> n"
  shows "config_inv (fst (foldl config_step (c, w) (take n ops))) \<and>
     config_evolves (foldl config_step (c, w) (take m ops)) (foldl config_step (c, w) (take n ops))"
  using service.run_inv [of "(c, w)" "take n ops"] service.prefix_evolves [of "(c, w)" m n ops]
    new_configuration_inv [OF assms(1)] assms(2)
  by simp

text \<open>Settings in memory only, and no secret store: one save and the shutdown.\<close>

theorem configuration_changes_are_visible_witness:
  "\<exists>c w. new_configuration \<lparr>port_load = (\<lambda>w. (Ok \<lparr>loaded = w, load_source = Defaults, load_recovery = None\<rparr>, w)),
       port_save = (\<lambda>s w. (Ok (), s))\<rparr>
       (Err \<lparr>error_id = None, secret_code = SecretConfiguration, system_error = None\<rparr>)
       (new_settings ''logs'') = (Ok c, w) \<and>
     config_inv (fst (foldl config_step (c, w) (take 2 [SaveOp (new_settings ''other''), ShutdownOp])))"
proof -
  let ?p = "\<lparr>port_load = (\<lambda>w. (Ok \<lparr>loaded = w, load_source = Defaults, load_recovery = None\<rparr>, w)),
       port_save = (\<lambda>s w. (Ok (), s))\<rparr>"
  let ?e = "\<lparr>error_id = None, secret_code = SecretConfiguration, system_error = None\<rparr>"
  have "validate (new_settings ''logs'') = []"
    by (simp add: fresh_settings_are_valid byte_def)
  then obtain c w where n: "new_configuration ?p (Err ?e) (new_settings ''logs'') = (Ok c, w)"
    by (auto simp: new_configuration_def)
  from configuration_changes_are_visible [OF n order_refl] n show ?thesis by blast
qed

end
