(* ===== verification/Twitch_Session.thy ===== *)
theory Twitch_Session
  imports Secret_Store History
begin

text \<open>
  The saved Twitch session (\<open>rust/src/application/twitch_session.rs\<close>): the tokens with the identity
  they belong to, and the binary record that the secret store keeps.
\<close>

section \<open>Data\<close>

definition twitch_chat_scope :: string where
  "twitch_chat_scope = ''user:write:chat''"

definition max_twitch_token_bytes :: nat where
  "max_twitch_token_bytes = 8 * 1024"

definition max_twitch_session_bytes :: nat where
  "max_twitch_session_bytes = max_secret_bytes"

definition session_magic :: string where
  "session_magic = ''MNYTWSN1''"

definition session_header_bytes :: nat where
  "session_header_bytes = 40"

definition max_unix_seconds :: nat where
  "max_unix_seconds = 253402300799"

record twitch_credentials =
  access_token :: string
  refresh_token :: string
  access_expires_at :: system_time

record twitch_session =
  credentials :: twitch_credentials
  session_user_id :: string
  session_login :: string
  session_scopes :: "string list"

datatype twitch_session_error = InvalidSession | SessionTooLarge | UnsupportedVersion | CorruptSession

definition valid_twitch_token :: "string \<Rightarrow> bool" where
  "valid_twitch_token t \<longleftrightarrow> t \<noteq> [] \<and> length t \<le> max_twitch_token_bytes \<and>
     list_all (\<lambda>c. 33 \<le> byte c \<and> byte c \<le> 126) t"

definition valid_twitch_user_id :: "string \<Rightarrow> bool" where
  "valid_twitch_user_id v \<longleftrightarrow> v \<noteq> [] \<and> length v \<le> 20 \<and> hd v \<noteq> CHR ''0'' \<and> list_all is_digit v \<and>
     (case parse_unsigned (2 ^ 64 - 1) v of Some n \<Rightarrow> n > 0 | None \<Rightarrow> False)"

definition valid_twitch_login :: "string \<Rightarrow> bool" where
  "valid_twitch_login v \<longleftrightarrow> v \<noteq> [] \<and> length v \<le> 64 \<and>
     list_all (\<lambda>c. is_lower c \<or> is_digit c \<or> c = CHR ''_'') v"

section \<open>The record\<close>

definition u64_bytes :: "u64 \<Rightarrow> string" where
  "u64_bytes n = to_string (le_bytes 8 (unat n))"

text \<open>The bytes that the encoder fills in, field by field.\<close>

definition session_bytes :: "nat \<Rightarrow> string \<Rightarrow> string \<Rightarrow> string \<Rightarrow> string \<Rightarrow> string" where
  "session_bytes seconds a r u l =
     session_magic @ u32_bytes 1 @ u64_bytes (of_nat seconds) @
     u32_bytes (of_nat (length a)) @ u32_bytes (of_nat (length r)) @ u32_bytes (of_nat (length u)) @
     u32_bytes (of_nat (length l)) @ u32_bytes 1 @ a @ r @ u @ l @
     u32_bytes (of_nat (length twitch_chat_scope)) @ twitch_chat_scope"

definition encode_twitch_session :: "twitch_session \<Rightarrow> (twitch_session_error, string) result" where
  "encode_twitch_session s =
     (let c = credentials s; t = access_expires_at c; seconds = nat (t div 1000000000) in
      if t < 0 then Err InvalidSession
      else if \<not> (1 \<le> seconds \<and> seconds \<le> max_unix_seconds) \<or> \<not> valid_twitch_token (access_token c) \<or>
        \<not> valid_twitch_token (refresh_token c) \<or> \<not> valid_twitch_user_id (session_user_id s) \<or>
        \<not> valid_twitch_login (session_login s) \<or> length (session_scopes s) \<noteq> 1 \<or>
        session_scopes s ! 0 \<noteq> twitch_chat_scope
      then Err InvalidSession
      else if max_twitch_session_bytes < session_header_bytes +
        (length (access_token c) + length (refresh_token c) + length (session_user_id s) +
         length (session_login s)) + 4 + length twitch_chat_scope
      then Err SessionTooLarge
      else Ok (session_bytes seconds (access_token c) (refresh_token c) (session_user_id s) (session_login s)))"

text \<open>The loop that splits the fields off the payload.\<close>

fun split_fields :: "nat list \<Rightarrow> string \<Rightarrow> (string list \<times> string) option" where
  "split_fields [] rest = Some ([], rest)"
| "split_fields (n # ns) rest =
     (if length rest < n then None
      else case split_fields ns (drop n rest) of
        None \<Rightarrow> None | Some (fs, r) \<Rightarrow> Some (take n rest # fs, r))"

definition decode_twitch_session :: "time_range \<Rightarrow> string \<Rightarrow> (twitch_session_error, twitch_session) result"
where
  "decode_twitch_session P b =
     (if b = [] \<or> max_twitch_session_bytes < length b then Err SessionTooLarge
      else if length b < 12 \<or> take 8 b \<noteq> session_magic then Err CorruptSession
      else if slice 8 4 b \<noteq> u32_bytes 1 then Err UnsupportedVersion
      else if length b < session_header_bytes then Err CorruptSession
      else let seconds = sint (le_word (of_string (slice 12 8 b)) :: u64) in
        if seconds \<le> 0 \<or> int max_unix_seconds < seconds \<or> slice 36 4 b \<noteq> u32_bytes 1 then Err CorruptSession
        else case split_fields (map (\<lambda>i. unat (number_at b (20 + i * 4))) [0, 1, 2, 3])
                (drop session_header_bytes b) of
          Some ([a, r, u, l], rest) \<Rightarrow>
            if length rest \<noteq> 4 + length twitch_chat_scope \<or>
              take 4 rest \<noteq> u32_bytes (of_nat (length twitch_chat_scope)) \<or> drop 4 rest \<noteq> twitch_chat_scope \<or>
              \<not> valid_twitch_token a \<or> \<not> valid_twitch_token r
            then Err CorruptSession
            else if \<not> utf8_valid (of_string u) \<or> \<not> utf8_valid (of_string l) then Err CorruptSession
            else if \<not> valid_twitch_user_id u \<or> \<not> valid_twitch_login l then Err CorruptSession
            else if \<not> representable P (seconds * 1000000000) then Err CorruptSession
            else Ok \<lparr>credentials = \<lparr>access_token = a, refresh_token = r,
                   access_expires_at = seconds * 1000000000\<rparr>,
                 session_user_id = u, session_login = l, session_scopes = [twitch_chat_scope]\<rparr>
        | _ \<Rightarrow> Err CorruptSession)"

section \<open>Lemmas\<close>

lemma split_fields_Some:
  "split_fields ns s = Some (fs, r) \<longleftrightarrow> s = concat fs @ r \<and> map length fs = ns"
proof (induction ns arbitrary: s fs)
  case (Cons n ns)
  show ?case
  proof (cases fs)
    case Nil
    then show ?thesis by (auto split: option.splits)
  next
    case (Cons f fs')
    have "s = f @ concat fs' @ r \<and> length f = n \<longleftrightarrow> n \<le> length s \<and> take n s = f \<and> drop n s = concat fs' @ r"
      by (auto simp: append_eq_conv_conj) (metis append_take_drop_id)
    then show ?thesis using Cons.IH [of "drop n s" fs'] Cons by (auto split: option.splits)
  qed
qed auto

lemma length_scope [simp]: "length twitch_chat_scope = 15"
  by (simp add: twitch_chat_scope_def)

lemma length_session_magic [simp]: "length session_magic = 8"
  by (simp add: session_magic_def)

lemma length_u64_bytes [simp]: "length (u64_bytes n) = 8"
  by (simp add: u64_bytes_def to_string_def)

lemma length_session_bytes: "length (session_bytes n a r u l) = 59 + length a + length r + length u + length l"
  by (simp add: session_bytes_def)

lemma le_word_u64 [simp]: "(le_word (of_string (u64_bytes n)) :: u64) = n"
  by (simp add: u64_bytes_def)

lemma number_bytes64:
  assumes "length s = 8"
  shows "(le_word (of_string s) :: u64) = n \<longleftrightarrow> s = u64_bytes n"
proof
  assume n: "le_word (of_string s) = n"
  have len: "length (of_string s) = 8" using assms by (simp add: of_string_def)
  then have "le_nat (of_string s) < 2 ^ 64" using le_nat_bound [of "of_string s"] by simp
  then have "unat n = le_nat (of_string s)" by (simp add: n [symmetric] le_word_def unat_of_nat)
  then have "le_bytes 8 (unat n) = of_string s" using le_bytes_le_nat [of "of_string s"] len by simp
  then show "s = u64_bytes n" by (simp add: u64_bytes_def)
qed simp

lemma sint_seconds: "n \<le> max_unix_seconds \<Longrightarrow> sint (of_nat n :: u64) = int n"
  by (simp add: max_unix_seconds_def signed_of_nat signed_take_bit_int_eq_self)

lemma seconds_word:
  assumes "sint (w :: u64) = int n"
  shows "w = of_nat n"
proof -
  have "w = of_int (sint w)" by simp
  then show ?thesis unfolding assms by simp
qed

lemma user_id_utf8: "valid_twitch_user_id u \<Longrightarrow> utf8_valid (of_string u)"
  by (intro utf8_valid_ascii)
    (auto simp: valid_twitch_user_id_def of_string_def list_all_iff is_digit_def byte_def unat_of_nat)

lemma login_utf8: "valid_twitch_login l \<Longrightarrow> utf8_valid (of_string l)"
  by (intro utf8_valid_ascii)
    (auto simp: valid_twitch_login_def of_string_def list_all_iff is_digit_def is_lower_def byte_def unat_of_nat)

text \<open>Where the encoder puts each part.\<close>

lemma session_parts:
  assumes "b = session_bytes n a r u l"
  shows "take 8 b = session_magic" "slice 8 4 b = u32_bytes 1" "slice 12 8 b = u64_bytes (of_nat n)"
    "slice 20 4 b = u32_bytes (of_nat (length a))" "slice 24 4 b = u32_bytes (of_nat (length r))"
    "slice 28 4 b = u32_bytes (of_nat (length u))" "slice 32 4 b = u32_bytes (of_nat (length l))"
    "slice 36 4 b = u32_bytes 1"
    "drop 40 b = concat [a, r, u, l] @ u32_bytes (of_nat (length twitch_chat_scope)) @ twitch_chat_scope"
  by (simp_all add: assms session_bytes_def slice_def)

lemma session_split:
  assumes "40 \<le> length b"
  shows "b = take 8 b @ slice 8 4 b @ slice 12 8 b @ slice 20 4 b @ slice 24 4 b @ slice 28 4 b @ slice 32 4 b @
     slice 36 4 b @ drop 40 b"
  using append_take_drop_id [of 8 b] drop_slice [of 8 b 4] drop_slice [of 12 b 8] drop_slice [of 20 b 4]
    drop_slice [of 24 b 4] drop_slice [of 28 b 4] drop_slice [of 32 b 4] drop_slice [of 36 b 4] by simp

lemma number_at_word: "slice p 4 b = u32_bytes n \<Longrightarrow> number_at b p = n"
  using number_bytes [of "u32_bytes n" n] by (simp add: number_at_def)

lemma number_at_slice: "p + 4 \<le> length b \<Longrightarrow> slice p 4 b = u32_bytes (number_at b p)"
  using number_bytes [of "slice p 4 b" "number_at b p"] by (simp add: number_at_def length_slice)

text \<open>The times of the record are whole seconds.\<close>

definition whole_seconds :: "twitch_session \<Rightarrow> twitch_session" where
  "whole_seconds s = s\<lparr>credentials := (credentials s)\<lparr>access_expires_at :=
     access_expires_at (credentials s) div 1000000000 * 1000000000\<rparr>\<rparr>"

definition session_ok :: "twitch_session \<Rightarrow> bool" where
  "session_ok s \<longleftrightarrow>
     1000000000 \<le> access_expires_at (credentials s) \<and>
     access_expires_at (credentials s) div 1000000000 \<le> int max_unix_seconds \<and>
     valid_twitch_token (access_token (credentials s)) \<and> valid_twitch_token (refresh_token (credentials s)) \<and>
     valid_twitch_user_id (session_user_id s) \<and> valid_twitch_login (session_login s) \<and>
     session_scopes s = [twitch_chat_scope] \<and>
     length (access_token (credentials s)) + length (refresh_token (credentials s)) +
       length (session_user_id s) + length (session_login s) + 59 \<le> max_twitch_session_bytes"

lemma if_Err_Ok: "(if c then Err e else r) = Ok y \<longleftrightarrow> \<not> c \<and> r = Ok y"
  by simp

lemma encode_session_iff:
  "encode_twitch_session s = Ok b \<longleftrightarrow>
     session_ok s \<and> b = session_bytes (nat (access_expires_at (credentials s) div 1000000000))
       (access_token (credentials s)) (refresh_token (credentials s)) (session_user_id s) (session_login s)"
proof -
  have scopes: "length (session_scopes s) = 1 \<and> session_scopes s ! 0 = twitch_chat_scope \<longleftrightarrow>
      session_scopes s = [twitch_chat_scope]"
    by (cases "session_scopes s") auto
  have time: "\<not> t < 0 \<and> 1 \<le> nat (t div 1000000000) \<and> nat (t div 1000000000) \<le> k \<longleftrightarrow>
      1000000000 \<le> t \<and> t div 1000000000 \<le> int k" for t :: int and k
    by (auto simp: le_nat_iff nat_le_iff)
  have size: "session_header_bytes + (x + y + z + v) + 4 + length twitch_chat_scope = x + y + z + v + 59" for x y z v
    by (simp add: session_header_bytes_def)
  show ?thesis
    unfolding encode_twitch_session_def session_ok_def Let_def if_Err_Ok size not_less de_Morgan_disj not_not
      scopes [symmetric] sum.inject
    using time [of "access_expires_at (credentials s)" max_unix_seconds] by (metis not_less)
qed

lemma whole_seconds_iff:
  "whole_seconds s = s \<longleftrightarrow> access_expires_at (credentials s) div 1000000000 * 1000000000 = access_expires_at (credentials s)"
  by (cases s; cases "credentials s") (auto simp: whole_seconds_def)

text \<open>What the decoder accepts is exactly what the encoder writes for it.\<close>

lemma decode_session_bytes:
  assumes ok: "session_ok s" and enc: "encode_twitch_session s = Ok b"
    and time: "representable P (access_expires_at (credentials s) div 1000000000 * 1000000000)"
  shows "decode_twitch_session P b = Ok (whole_seconds s)"
proof -
  let ?c = "credentials s"
  let ?n = "nat (access_expires_at ?c div 1000000000)"
  have b: "b = session_bytes ?n (access_token ?c) (refresh_token ?c) (session_user_id s) (session_login s)"
    using enc by (simp add: encode_session_iff)
  note parts = session_parts [OF b]
  have len: "length b \<le> max_twitch_session_bytes" "40 \<le> length b"
    using ok by (auto simp: b length_session_bytes session_ok_def)
  have n: "1 \<le> ?n" "?n \<le> max_unix_seconds" "int ?n = access_expires_at ?c div 1000000000"
    using ok by (auto simp: session_ok_def le_nat_iff)
  have secs: "sint (le_word (of_string (slice 12 8 b)) :: u64) = int ?n"
    using sint_seconds [OF n(2)] by (simp add: parts)
  have small: "length x < 2 ^ 32" if "x \<in> {access_token ?c, refresh_token ?c, session_user_id s, session_login s}" for x
    using that ok by (auto simp: session_ok_def valid_twitch_token_def valid_twitch_user_id_def valid_twitch_login_def
        max_twitch_token_bytes_def)
  have nums: "number_at b 20 = of_nat (length (access_token ?c))" "number_at b 24 = of_nat (length (refresh_token ?c))"
    "number_at b 28 = of_nat (length (session_user_id s))" "number_at b 32 = of_nat (length (session_login s))"
    by (simp_all add: number_at_word parts)
  have "map (\<lambda>i. unat (number_at b (20 + i * 4))) [0, 1, 2, 3] =
      map length [access_token ?c, refresh_token ?c, session_user_id s, session_login s]"
    using small by (simp add: nums unat_of_nat)
  then have "split_fields (map (\<lambda>i. unat (number_at b (20 + i * 4))) [0, 1, 2, 3]) (drop 40 b) =
      Some ([access_token ?c, refresh_token ?c, session_user_id s, session_login s],
        u32_bytes (of_nat (length twitch_chat_scope)) @ twitch_chat_scope)"
    unfolding split_fields_Some using parts(9) by simp
  moreover have "\<not> int ?n \<le> 0" "\<not> int max_unix_seconds < int ?n" "b \<noteq> []" "\<not> length b < 12"
    "\<not> max_twitch_session_bytes < length b" "\<not> length b < 40" using n(1,2) len by auto
  moreover have "representable P (int ?n * 1000000000)" using time n(3) by simp
  moreover have "utf8_valid (of_string (session_user_id s))" "utf8_valid (of_string (session_login s))"
    using ok user_id_utf8 login_utf8 by (auto simp: session_ok_def)
  ultimately show ?thesis
    using ok n(3) unfolding session_ok_def
    by (simp add: decode_twitch_session_def secs parts(1,2,8) session_header_bytes_def whole_seconds_def)
qed

lemma four_fieldsE:
  assumes "(case x of Some ([a, r, u, l], rest) \<Rightarrow> f a r u l rest | _ \<Rightarrow> Err e) = Ok y"
  obtains a r u l rest where "x = Some ([a, r, u, l], rest)" and "f a r u l rest = Ok y"
  using assms by (auto split: option.splits list.splits prod.splits)

lemma decode_session_Ok:
  assumes "decode_twitch_session P b = Ok s"
  shows "encode_twitch_session s = Ok b \<and> whole_seconds s = s \<and>
     representable P (access_expires_at (credentials s))"
proof -
  define w where "w = (le_word (of_string (slice 12 8 b)) :: u64)"
  from assms obtain a r u l rest where
    len: "length b \<le> max_twitch_session_bytes" "40 \<le> length b"
    and magic: "take 8 b = session_magic" and version: "slice 8 4 b = u32_bytes 1"
    and secs: "0 < sint w" "sint w \<le> int max_unix_seconds" and one: "slice 36 4 b = u32_bytes 1"
    and fs: "split_fields (map (\<lambda>i. unat (number_at b (20 + i * 4))) [0, 1, 2, 3]) (drop 40 b) = Some ([a, r, u, l], rest)"
    and rest: "take 4 rest = u32_bytes (of_nat (length twitch_chat_scope))" "drop 4 rest = twitch_chat_scope"
    and valid: "valid_twitch_token a" "valid_twitch_token r" "valid_twitch_user_id u" "valid_twitch_login l"
    and rep: "representable P (sint w * 1000000000)"
    and s: "s = \<lparr>credentials = \<lparr>access_token = a, refresh_token = r, access_expires_at = sint w * 1000000000\<rparr>,
                 session_user_id = u, session_login = l, session_scopes = [twitch_chat_scope]\<rparr>"
    unfolding decode_twitch_session_def Let_def w_def [symmetric] session_header_bytes_def if_Err_Ok
      de_Morgan_disj not_not not_less not_le sum.inject
    by (elim conjE four_fieldsE, unfold if_Err_Ok de_Morgan_disj not_not sum.inject, elim conjE)
      (rule that, (assumption | rule sym, assumption)+)
  obtain n where n: "sint w = int n" using secs(1) by (metis nonneg_int_cases less_imp_le)
  have tail: "rest = u32_bytes (of_nat (length twitch_chat_scope)) @ twitch_chat_scope"
    using rest by (metis append_take_drop_id)
  have drop: "drop 40 b = a @ r @ u @ l @ rest"
    and lens: "unat (number_at b 20) = length a" "unat (number_at b 24) = length r"
      "unat (number_at b 28) = length u" "unat (number_at b 32) = length l"
    using fs unfolding split_fields_Some by auto
  have "slice 20 4 b = u32_bytes (of_nat (length a))" "slice 24 4 b = u32_bytes (of_nat (length r))"
    "slice 28 4 b = u32_bytes (of_nat (length u))" "slice 32 4 b = u32_bytes (of_nat (length l))"
    using number_at_slice [of 20 b] number_at_slice [of 24 b] number_at_slice [of 28 b] number_at_slice [of 32 b] len
    by (simp_all flip: lens)
  moreover have "slice 12 8 b = u64_bytes (of_nat n)"
    using number_bytes64 [of "slice 12 8 b" w] seconds_word [OF n] len by (simp add: w_def length_slice)
  ultimately have b: "b = session_bytes n a r u l"
    using session_split [OF len(2)] by (simp add: magic version one drop tail session_bytes_def)
  have "session_ok s"
    using len secs valid by (auto simp: s session_ok_def n b length_session_bytes)
  then show ?thesis
    using rep by (simp add: encode_session_iff s n b whole_seconds_def)
qed

section \<open>Properties\<close>

text \<open>
  The record of a Twitch session is canonical: a byte sequence decodes to a session exactly when it
  is the record that encoding this session gives, the expiry of the session is a whole second and the
  platform can represent it. So a saved session comes back with the same tokens, identity and scope
  (its expiry cut to the second), and nothing but a record of a valid session is ever accepted.
\<close>

theorem session_record_is_canonical:
  "decode_twitch_session P b = Ok s \<longleftrightarrow>
     encode_twitch_session s = Ok b \<and> whole_seconds s = s \<and> representable P (access_expires_at (credentials s))"
proof
  assume r: "encode_twitch_session s = Ok b \<and> whole_seconds s = s \<and> representable P (access_expires_at (credentials s))"
  then have "access_expires_at (credentials s) div 1000000000 * 1000000000 = access_expires_at (credentials s)"
    by (simp add: whole_seconds_iff)
  then show "decode_twitch_session P b = Ok s"
    using r decode_session_bytes [of s b P] by (simp add: encode_session_iff)
qed (rule decode_session_Ok)

end
