(* ===== verification/Twitch_Owner.thy ===== *)
theory Twitch_Owner
  imports Configuration Twitch_Session Ports
begin

text \<open>
  The owner of the Twitch session (\<open>rust/src/application/twitch_session_owner.rs\<close>): at most one active
  session, handed out exclusively as a numbered transaction whenever it is being changed, and saved
  through the configuration service.

  Every operation is one section under the lock of the state, so it is one step of the model. The lock
  cannot be poisoned: no operation panics while it holds the lock (\<open>owner_inv\<close> excludes the overflow of
  the counters, and the panics of the configuration call are caught). A caught panic there is the same
  failure as an error of the store.
\<close>

section \<open>Data\<close>

record twitch_delivery_session =
  lease_token :: string
  lease_user_id :: string
  lease_revision :: u64

datatype delivery_session_code = LeaseNotConnected | LeaseRetry | LeaseReconnect | LeaseFailed | LeaseCancelled

record delivery_session_error =
  lease_code :: delivery_session_code
  lease_retry_after :: "duration option"

fun lease_detail :: "delivery_session_code \<Rightarrow> string" where
  "lease_detail LeaseNotConnected = ''No Twitch session is connected''"
| "lease_detail LeaseRetry = ''The Twitch session is being updated''"
| "lease_detail LeaseReconnect = ''Reconnect Twitch to continue''"
| "lease_detail LeaseFailed = ''The Twitch session could not be updated''"
| "lease_detail LeaseCancelled = ''Twitch session access was cancelled''"

record session_transaction =
  transaction_id :: u64
  transaction_session :: twitch_session

record owner_snapshot =
  snapshot_user_id :: string
  snapshot_login :: string
  snapshot_expires_at :: system_time
  snapshot_revision :: u64

datatype connection_state = Disconnected | Updating | Connected owner_snapshot | ConnectionStopping

datatype owner_error =
  OwnerBusy | OwnerNotConnected | OwnerLoadFailed | OwnerDecodeFailed | OwnerEncodeFailed | OwnerStoreFailed
| OwnerEraseFailed | StaleTransaction | IdentityMismatch | OwnerStopping | OwnerRevisionExhausted | OwnerInternal

fun owner_error_detail :: "owner_error \<Rightarrow> string" where
  "owner_error_detail OwnerBusy = ''The Twitch session is already being updated''"
| "owner_error_detail OwnerNotConnected = ''No Twitch session is connected''"
| "owner_error_detail OwnerLoadFailed = ''The saved Twitch session could not be loaded''"
| "owner_error_detail OwnerDecodeFailed = ''The saved Twitch session is invalid''"
| "owner_error_detail OwnerEncodeFailed = ''The Twitch session could not be encoded safely''"
| "owner_error_detail OwnerStoreFailed = ''The Twitch session could not be saved''"
| "owner_error_detail OwnerEraseFailed = ''The saved Twitch session could not be removed''"
| "owner_error_detail StaleTransaction = ''A stale Twitch session transaction was ignored''"
| "owner_error_detail IdentityMismatch = ''The Twitch session changed broadcaster identity''"
| "owner_error_detail OwnerStopping = ''Twitch session ownership is shutting down''"
| "owner_error_detail OwnerRevisionExhausted = ''Twitch session ownership cannot accept more changes''"
| "owner_error_detail OwnerInternal = ''The Twitch session could not be updated''"

record pending_change =
  pending_id :: u64
  pending_user :: "string option"
  restorable :: bool

record session_state =
  active :: "twitch_session option"
  pending_session :: "pending_change option"
  revision :: u64
  next_transaction :: u64
  stopping_session :: bool

record 'w owner =
  owned :: session_state
  owner_conf :: "'w configuration"
  conf_poisoned :: bool
  owner_world :: 'w

section \<open>The state\<close>

definition owner_idle :: "session_state \<Rightarrow> (owner_error, unit) result" where
  "owner_idle s =
     (if stopping_session s then Err OwnerStopping
      else if pending_session s \<noteq> None then Err OwnerBusy
      else if next_transaction s = - 1 \<or> revision s = - 1 then Err OwnerRevisionExhausted
      else Ok ())"

definition start_transaction ::
  "twitch_session \<Rightarrow> bool \<Rightarrow> session_state \<Rightarrow> session_transaction \<times> session_state" where
  "start_transaction v b s =
     (\<lparr>transaction_id = next_transaction s, transaction_session = v\<rparr>,
      s\<lparr>next_transaction := next_transaction s + 1,
        pending_session := Some \<lparr>pending_id = next_transaction s, pending_user = Some (session_user_id v),
          restorable = b\<rparr>\<rparr>)"

definition check_transaction :: "u64 \<Rightarrow> session_state \<Rightarrow> (owner_error, pending_change) result" where
  "check_transaction i s =
     (if stopping_session s then Err OwnerStopping
      else case pending_session s of
        Some p \<Rightarrow> if pending_id p = i then Ok p else Err StaleTransaction
      | None \<Rightarrow> Err StaleTransaction)"

definition check_identity :: "u64 \<Rightarrow> twitch_session \<Rightarrow> session_state \<Rightarrow> (owner_error, unit) result" where
  "check_identity i v s =
     and_then (check_transaction i s) (\<lambda>p.
       case pending_user p of
         Some u \<Rightarrow> if u \<noteq> session_user_id v then Err IdentityMismatch else Ok ()
       | None \<Rightarrow> Ok ())"

definition owner_snapshot_of :: "twitch_session \<Rightarrow> u64 \<Rightarrow> owner_snapshot" where
  "owner_snapshot_of v r =
     \<lparr>snapshot_user_id = session_user_id v, snapshot_login = session_login v,
      snapshot_expires_at = access_expires_at (credentials v), snapshot_revision = r\<rparr>"

definition lease_of :: "twitch_session \<Rightarrow> u64 \<Rightarrow> twitch_delivery_session" where
  "lease_of v r = \<lparr>lease_token = access_token (credentials v), lease_user_id = session_user_id v, lease_revision = r\<rparr>"

section \<open>The configuration\<close>

definition with_configuration ::
  "owner_error \<Rightarrow> ('w configuration \<Rightarrow> 'w \<Rightarrow> (configuration_error, 'a) result \<times> 'w) \<Rightarrow> 'w owner \<Rightarrow>
     (owner_error, 'a) result \<times> 'w owner" where
  "with_configuration failure f x =
     (if conf_poisoned x then (Err failure, x)
      else if snap_shutting_down (snap (owner_conf x)) then (Err OwnerStopping, x)
      else case f (owner_conf x) (owner_world x) of
        (r, w) \<Rightarrow> (map_err (\<lambda>_. failure) r, x\<lparr>owner_world := w\<rparr>))"

definition persist_session :: "twitch_session \<Rightarrow> 'w owner \<Rightarrow> (owner_error, unit) result \<times> 'w owner" where
  "persist_session v x =
     (case encode_twitch_session v of
        Err _ \<Rightarrow> (Err OwnerEncodeFailed, x)
      | Ok b \<Rightarrow> with_configuration OwnerStoreFailed (config_store_secret TwitchOAuthSession b) x)"

definition erase_session :: "'w owner \<Rightarrow> (owner_error, unit) result \<times> 'w owner" where
  "erase_session = with_configuration OwnerEraseFailed (config_erase_secret TwitchOAuthSession)"

text \<open>A record that is not there is no failure.\<close>

definition load_saved :: "'w configuration \<Rightarrow> 'w \<Rightarrow> (configuration_error, string option) result \<times> 'w" where
  "load_saved c w =
     (case config_load_secret TwitchOAuthSession c w of
        (Ok v, w2) \<Rightarrow> (Ok (Some v), w2)
      | (Err e, w2) \<Rightarrow>
          ((case e of
              SecretLoadError f \<Rightarrow> if secret_code f = SecretNotFound then Ok None else Err e
            | _ \<Rightarrow> Err e), w2))"

section \<open>Operations\<close>

definition new_owner :: "'w configuration \<Rightarrow> 'w \<Rightarrow> 'w owner" where
  "new_owner c w =
     \<lparr>owned = \<lparr>active = None, pending_session = None, revision = 0, next_transaction = 1,
        stopping_session = False\<rparr>,
      owner_conf = c, conf_poisoned = False, owner_world = w\<rparr>"

definition vacant :: "session_state \<Rightarrow> (owner_error, unit) result" where
  "vacant s = and_then (owner_idle s) (\<lambda>_. require (active s = None) OwnerBusy)"

definition checkout_saved ::
  "time_range \<Rightarrow> 'w owner \<Rightarrow> (owner_error, session_transaction option) result \<times> 'w owner" where
  "checkout_saved P x =
     (case vacant (owned x) of
        Err e \<Rightarrow> (Err e, x)
      | Ok _ \<Rightarrow>
          (case with_configuration OwnerLoadFailed load_saved x of
             (Err e, x2) \<Rightarrow> (Err e, x2)
           | (Ok None, x2) \<Rightarrow> (Ok None, x2)
           | (Ok (Some b), x2) \<Rightarrow>
               (case decode_twitch_session P b of
                  Err _ \<Rightarrow> (Err OwnerDecodeFailed, x2)
                | Ok v \<Rightarrow>
                    (case start_transaction v False (owned x2) of
                       (t, s) \<Rightarrow> (Ok (Some t), x2\<lparr>owned := s\<rparr>)))))"

definition begin_new ::
  "twitch_session \<Rightarrow> 'w owner \<Rightarrow> (owner_error, session_transaction) result \<times> 'w owner" where
  "begin_new v x =
     (case vacant (owned x) of
        Err e \<Rightarrow> (Err e, x)
      | Ok _ \<Rightarrow> (case start_transaction v False (owned x) of (t, s) \<Rightarrow> (Ok t, x\<lparr>owned := s\<rparr>)))"

definition reserve_new :: "'w owner \<Rightarrow> (owner_error, u64) result \<times> 'w owner" where
  "reserve_new x =
     (let s = owned x in
      case vacant s of
        Err e \<Rightarrow> (Err e, x)
      | Ok _ \<Rightarrow> (Ok (next_transaction s), x\<lparr>owned := s\<lparr>next_transaction := next_transaction s + 1,
            pending_session := Some \<lparr>pending_id = next_transaction s, pending_user = None,
              restorable = False\<rparr>\<rparr>\<rparr>))"

definition checkout_active :: "'w owner \<Rightarrow> (owner_error, session_transaction) result \<times> 'w owner" where
  "checkout_active x =
     (case owner_idle (owned x) of
        Err e \<Rightarrow> (Err e, x)
      | Ok _ \<Rightarrow>
          (case active (owned x) of
             None \<Rightarrow> (Err OwnerNotConnected, x)
           | Some v \<Rightarrow>
               (case start_transaction v True ((owned x)\<lparr>active := None\<rparr>) of
                  (t, s) \<Rightarrow> (Ok t, x\<lparr>owned := s\<rparr>))))"

definition persist_pending ::
  "u64 \<Rightarrow> twitch_session \<Rightarrow> 'w owner \<Rightarrow> (owner_error, unit) result \<times> 'w owner" where
  "persist_pending i v x =
     (case and_then (check_identity i v (owned x)) (\<lambda>_.
           and_then (check_transaction i (owned x)) (\<lambda>p.
             if pending_user p = None then Err IdentityMismatch else Ok p)) of
        Err e \<Rightarrow> (Err e, x)
      | Ok p \<Rightarrow> persist_session v (x\<lparr>owned := (owned x)\<lparr>pending_session := Some (p\<lparr>restorable := False\<rparr>)\<rparr>\<rparr>))"

definition commit_session ::
  "u64 \<Rightarrow> twitch_session \<Rightarrow> 'w owner \<Rightarrow> (owner_error, owner_snapshot) result \<times> 'w owner" where
  "commit_session i v x =
     (case check_identity i v (owned x) of
        Err e \<Rightarrow> (Err e, x)
      | Ok _ \<Rightarrow>
          (case persist_session v x of
             (Err e, x2) \<Rightarrow> (Err e, x2)
           | (Ok _, x2) \<Rightarrow>
               (let r = revision (owned x2) + 1 in
                (Ok (owner_snapshot_of v r),
                 x2\<lparr>owned := (owned x2)\<lparr>active := Some v, pending_session := None, revision := r\<rparr>\<rparr>))))"

definition restore_session :: "u64 \<Rightarrow> twitch_session \<Rightarrow> 'w owner \<Rightarrow> (owner_error, unit) result \<times> 'w owner" where
  "restore_session i v x =
     (case and_then (check_identity i v (owned x)) (\<lambda>_.
           and_then (check_transaction i (owned x)) (\<lambda>p.
           and_then (require (restorable p) StaleTransaction) (\<lambda>_.
             map_err (\<lambda>_. OwnerEncodeFailed) (encode_twitch_session v)))) of
        Err e \<Rightarrow> (Err e, x)
      | Ok _ \<Rightarrow> (Ok (), x\<lparr>owned := (owned x)\<lparr>active := Some v, pending_session := None\<rparr>\<rparr>))"

definition discard_session :: "u64 \<Rightarrow> bool \<Rightarrow> 'w owner \<Rightarrow> (owner_error, unit) result \<times> 'w owner" where
  "discard_session i erase x =
     (case check_transaction i (owned x) of
        Err e \<Rightarrow> (Err e, x)
      | Ok _ \<Rightarrow>
          (let x2 = x\<lparr>owned := (owned x)\<lparr>active := None, pending_session := None\<rparr>\<rparr> in
           if erase then erase_session x2 else (Ok (), x2)))"

definition erase_saved :: "'w owner \<Rightarrow> (owner_error, unit) result \<times> 'w owner" where
  "erase_saved x =
     (if stopping_session (owned x) then (Err OwnerStopping, x)
      else if pending_session (owned x) \<noteq> None then (Err OwnerBusy, x)
      else erase_session (x\<lparr>owned := (owned x)\<lparr>active := None\<rparr>\<rparr>))"

definition session_snapshot :: "'w owner \<Rightarrow> owner_snapshot option" where
  "session_snapshot x =
     (let s = owned x in
      if pending_session s \<noteq> None \<or> stopping_session s then None
      else map_option (\<lambda>v. owner_snapshot_of v (revision s)) (active s))"

definition connection_state :: "'w owner \<Rightarrow> connection_state" where
  "connection_state x =
     (let s = owned x in
      if stopping_session s then ConnectionStopping
      else if pending_session s \<noteq> None then Updating
      else case active s of Some v \<Rightarrow> Connected (owner_snapshot_of v (revision s)) | None \<Rightarrow> Disconnected)"

definition shutdown_owner :: "'w owner \<Rightarrow> 'w owner" where
  "shutdown_owner x = x\<lparr>owned := (owned x)\<lparr>active := None, pending_session := None, stopping_session := True\<rparr>\<rparr>"

definition owner_stopped :: "'w owner \<Rightarrow> bool" where
  "owner_stopped x = stopping_session (owned x)"

subsection \<open>Errors of a delivery\<close>

definition delivery_error :: "delivery_session_code \<Rightarrow> delivery_session_error" where
  "delivery_error c = \<lparr>lease_code = c, lease_retry_after = None\<rparr>"

fun lease_error :: "owner_error \<Rightarrow> delivery_session_error" where
  "lease_error OwnerBusy = delivery_error LeaseRetry"
| "lease_error StaleTransaction = delivery_error LeaseRetry"
| "lease_error OwnerNotConnected = delivery_error LeaseNotConnected"
| "lease_error OwnerStopping = delivery_error LeaseCancelled"
| "lease_error IdentityMismatch = delivery_error LeaseReconnect"
| "lease_error _ = delivery_error LeaseFailed"

text \<open>The first section of a recovery: it takes the rejected session out, or answers at once.\<close>

datatype recovery_start = Answered "(delivery_session_error, twitch_delivery_session) result"
  | Started session_transaction

definition start_recovery ::
  "twitch_delivery_session \<Rightarrow> 'w owner \<Rightarrow> recovery_start \<times> 'w owner" where
  "start_recovery rejected x =
     (let s = owned x; reconnect = Answered (Err (delivery_error LeaseReconnect)) in
      case owner_idle s of
        Err e \<Rightarrow> (Answered (Err (lease_error e)), x)
      | Ok _ \<Rightarrow>
          (case active s of
             None \<Rightarrow> (Answered (Err (delivery_error LeaseNotConnected)), x)
           | Some v \<Rightarrow>
               if lease_revision rejected = 0 \<or> revision s < lease_revision rejected \<or>
                  lease_user_id rejected \<noteq> session_user_id v
               then (reconnect, x)
               else if lease_revision rejected < revision s then (Answered (Ok (lease_of v (revision s))), x)
               else if lease_token rejected \<noteq> access_token (credentials v) then (reconnect, x)
               else (case start_transaction v True (s\<lparr>active := None\<rparr>) of
                       (t, s2) \<Rightarrow> (Started t, x\<lparr>owned := s2\<rparr>))))"

section \<open>The owner as a machine\<close>

text \<open>
  The operations of all threads, interleaved at the sections under the lock. Between them the
  configuration and the world may change.
\<close>

datatype 'w owner_op =
  CheckoutSaved | BeginNew twitch_session | ReserveNew | CheckoutActive
| PersistPending u64 twitch_session | CommitSession u64 twitch_session | RestoreSession u64 twitch_session
| DiscardSession u64 bool | EraseSaved | StartRecovery twitch_delivery_session | ShutdownOwner
| Configure config_op | Outside 'w | PoisonConfiguration

fun owner_step :: "time_range \<Rightarrow> 'w owner \<Rightarrow> 'w owner_op \<Rightarrow> 'w owner" where
  "owner_step P x CheckoutSaved = snd (checkout_saved P x)"
| "owner_step P x (BeginNew v) = snd (begin_new v x)"
| "owner_step P x ReserveNew = snd (reserve_new x)"
| "owner_step P x CheckoutActive = snd (checkout_active x)"
| "owner_step P x (PersistPending i v) = snd (persist_pending i v x)"
| "owner_step P x (CommitSession i v) = snd (commit_session i v x)"
| "owner_step P x (RestoreSession i v) = snd (restore_session i v x)"
| "owner_step P x (DiscardSession i b) = snd (discard_session i b x)"
| "owner_step P x EraseSaved = snd (erase_saved x)"
| "owner_step P x (StartRecovery r) = snd (start_recovery r x)"
| "owner_step P x ShutdownOwner = shutdown_owner x"
| "owner_step P x (Configure c) =
     (case config_step (owner_conf x, owner_world x) c of
        (d, w) \<Rightarrow> x\<lparr>owner_conf := d, owner_world := w\<rparr>)"
| "owner_step P x (Outside w) = x\<lparr>owner_world := w\<rparr>"
| "owner_step P x PoisonConfiguration = x\<lparr>conf_poisoned := True\<rparr>"

definition session_inv :: "session_state \<Rightarrow> bool" where
  "session_inv s \<longleftrightarrow>
     (active s \<noteq> None \<longrightarrow> pending_session s = None) \<and>
     (stopping_session s \<longrightarrow> active s = None \<and> pending_session s = None) \<and>
     (\<forall>v. active s = Some v \<longrightarrow> is_ok (encode_twitch_session v) \<and> 1 \<le> revision s) \<and>
     (\<forall>p. pending_session s = Some p \<longrightarrow>
        pending_id p < next_transaction s \<and> revision s < - 1 \<and> 
        (restorable p \<longrightarrow> pending_user p \<noteq> None \<and> 1 \<le> revision s))"

text \<open>The user whose session is connected, or can be restored.\<close>

definition holder :: "session_state \<Rightarrow> string option" where
  "holder s =
     (case active s of
        Some v \<Rightarrow> Some (session_user_id v)
      | None \<Rightarrow> (case pending_session s of
          Some p \<Rightarrow> if restorable p then pending_user p else None
        | None \<Rightarrow> None))"

definition session_evolves :: "session_state \<Rightarrow> session_state \<Rightarrow> bool" where
  "session_evolves s t \<longleftrightarrow>
     revision s \<le> revision t \<and> next_transaction s \<le> next_transaction t \<and>
     (stopping_session s \<longrightarrow> stopping_session t) \<and>
     (\<forall>q. pending_session t = Some q \<longrightarrow> next_transaction s \<le> pending_id q \<or>
        (\<exists>p. pending_session s = Some p \<and> pending_id p = pending_id q \<and> pending_user p = pending_user q \<and>
           (restorable q \<longrightarrow> restorable p))) \<and>
     (revision s = revision t \<longrightarrow> holder t = None \<or> holder t = holder s)"

lemma session_evolves_refl [simp]: "session_evolves s s"
  by (auto simp: session_evolves_def)

lemma session_evolves_trans: "session_evolves s t \<Longrightarrow> session_evolves t u \<Longrightarrow> session_evolves s u"
proof -
  assume a: "session_evolves s t" and b: "session_evolves t u"
  have "next_transaction s \<le> pending_id r \<or>
      (\<exists>p. pending_session s = Some p \<and> pending_id p = pending_id r \<and> pending_user p = pending_user r \<and>
         (restorable r \<longrightarrow> restorable p))" if r: "pending_session u = Some r" for r
  proof (cases "next_transaction t \<le> pending_id r")
    case True
    then show ?thesis using a by (auto simp: session_evolves_def)
  next
    case False
    then obtain q where "pending_session t = Some q" "pending_id q = pending_id r" "pending_user q = pending_user r"
      "restorable r \<longrightarrow> restorable q" using b r unfolding session_evolves_def by blast
    then show ?thesis using a unfolding session_evolves_def by metis
  qed
  moreover have "holder u = None \<or> holder u = holder s" if "revision s = revision u"
    using a b that unfolding session_evolves_def by (metis order.antisym)
  ultimately show ?thesis using a b unfolding session_evolves_def by auto
qed

text \<open>What the operations do to the state, in one rule each.\<close>

lemma owner_idle_Ok: "owner_idle s = Ok u \<longleftrightarrow>
    \<not> stopping_session s \<and> pending_session s = None \<and> next_transaction s \<noteq> - 1 \<and> revision s \<noteq> - 1"
  by (simp add: owner_idle_def)

lemma check_transaction_Ok: "check_transaction i s = Ok p \<longleftrightarrow>
    \<not> stopping_session s \<and> pending_session s = Some p \<and> pending_id p = i"
  by (auto simp: check_transaction_def split: option.splits)

lemma check_identity_Ok: "check_identity i v s = Ok u \<longleftrightarrow>
    \<not> stopping_session s \<and> (\<exists>p. pending_session s = Some p \<and> pending_id p = i \<and>
      (pending_user p = None \<or> pending_user p = Some (session_user_id v)))"
proof -
  have "(case us of Some u \<Rightarrow> if u \<noteq> session_user_id v then Err IdentityMismatch else Ok () | None \<Rightarrow> Ok ()) = Ok w \<longleftrightarrow>
      us = None \<or> us = Some (session_user_id v)" for us w
    by (cases us) auto
  then show ?thesis by (auto simp: check_identity_def check_transaction_Ok)
qed

lemma owned_with_configuration [simp]: "owned (snd (with_configuration f g x)) = owned x"
  by (simp add: with_configuration_def split: prod.split)

lemma owned_persist [simp]: "owned (snd (persist_session v x)) = owned x"
  by (simp add: persist_session_def split: sum.split)

lemma persist_Ok: "persist_session v x = (Ok u, y) \<Longrightarrow> is_ok (encode_twitch_session v) \<and> owned y = owned x"
  using owned_persist [of v x] by (auto simp: persist_session_def split: sum.splits)

lemma owned_erase [simp]: "owned (snd (erase_session x)) = owned x"
  by (simp add: erase_session_def)

lemma succ_below_max: "(n :: u64) \<noteq> - 1 \<Longrightarrow> n < n + 1 \<and> 1 \<le> n + 1"
  using succ_less_max [of n] by (simp add: word_order.not_eq_extremum)

definition sound_step :: "session_state \<Rightarrow> session_state \<Rightarrow> bool" where
  "sound_step s t \<longleftrightarrow> session_inv t \<and> session_evolves s t"

lemma sound_refl: "session_inv s \<Longrightarrow> sound_step s s"
  by (simp add: sound_step_def)

text \<open>The five ways in which the state changes.\<close>

lemma sound_open:
  assumes "session_inv s" and "owner_idle s = Ok u" and "b \<longrightarrow> active s = Some v"
    and "us \<noteq> None \<longrightarrow> us = Some (session_user_id v)" and "b \<longrightarrow> us \<noteq> None"
  shows "sound_step s (s\<lparr>active := None, next_transaction := next_transaction s + 1,
    pending_session := Some \<lparr>pending_id = next_transaction s, pending_user = us, restorable = b\<rparr>\<rparr>)"
  using assms succ_below_max [of "next_transaction s"]
  by (auto simp: owner_idle_Ok sound_step_def session_inv_def session_evolves_def holder_def
      word_order.not_eq_extremum less_imp_le)

lemma sound_close:
  assumes "session_inv s"
  shows "sound_step s (s\<lparr>active := None, pending_session := None\<rparr>)"
    and "sound_step s (s\<lparr>active := None, pending_session := None, stopping_session := True\<rparr>)"
  using assms by (auto simp: sound_step_def session_inv_def session_evolves_def holder_def)

lemma sound_pin:
  assumes "session_inv s" and "pending_session s = Some p"
  shows "sound_step s (s\<lparr>pending_session := Some (p\<lparr>restorable := False\<rparr>)\<rparr>)"
  using assms by (auto simp: sound_step_def session_inv_def session_evolves_def holder_def)

lemma sound_commit:
  assumes "session_inv s" and "pending_session s = Some p" and "\<not> stopping_session s" and "is_ok (encode_twitch_session v)"
  shows "sound_step s (s\<lparr>active := Some v, pending_session := None, revision := revision s + 1\<rparr>)"
  using assms succ_below_max [of "revision s"]
  by (auto simp: sound_step_def session_inv_def session_evolves_def less_imp_le)

lemma sound_restore:
  assumes "session_inv s" and "pending_session s = Some p" and "\<not> stopping_session s" and "is_ok (encode_twitch_session v)"
    and "restorable p" and "pending_user p = None \<or> pending_user p = Some (session_user_id v)"
  shows "sound_step s (s\<lparr>active := Some v, pending_session := None\<rparr>)"
  using assms by (auto simp: sound_step_def session_inv_def session_evolves_def holder_def)

text \<open>Every operation is one of them.\<close>

lemma vacant_Ok: "vacant s = Ok u \<longleftrightarrow> owner_idle s = Ok () \<and> active s = None"
  by (simp add: vacant_def)

lemma active_idle: "active s = None \<Longrightarrow> s\<lparr>active := None\<rparr> = s"
  by (cases s) simp

lemma checkout_saved_state:
  "owned (snd (checkout_saved P x)) = owned x \<or>
   (\<exists>v. vacant (owned x) = Ok () \<and> owned (snd (checkout_saved P x)) = snd (start_transaction v False (owned x)))"
proof (cases "vacant (owned x)")
  case (Inr u)
  obtain r x2 where w: "with_configuration OwnerLoadFailed load_saved x = (r, x2)" by fastforce
  then have "owned x2 = owned x" using owned_with_configuration [of OwnerLoadFailed load_saved x] by simp
  then show ?thesis
    using Inr w by (auto simp: checkout_saved_def case_prod_beta split: sum.split option.split)
qed (simp add: checkout_saved_def)

lemma persist_pending_state:
  "owned (snd (persist_pending i v x)) = owned x \<or>
   (\<exists>p. pending_session (owned x) = Some p \<and> pending_id p = i \<and>
      owned (snd (persist_pending i v x)) = (owned x)\<lparr>pending_session := Some (p\<lparr>restorable := False\<rparr>)\<rparr>)"
  by (auto simp: persist_pending_def check_transaction_Ok split: sum.split if_splits)

lemma commit_Err:
  assumes "commit_session i v x = (Err e, y)"
  shows "owned y = owned x"
proof -
  obtain r z where p: "persist_session v x = (r, z)" by fastforce
  then have "owned z = owned x" using owned_persist [of v x] by simp
  then show ?thesis
    using assms p by (cases r) (auto simp: commit_session_def Let_def split: sum.splits)
qed

lemma commit_Ok:
  assumes "commit_session i v x = (Ok s, y)"
  shows "check_identity i v (owned x) = Ok () \<and> is_ok (encode_twitch_session v) \<and>
    s = owner_snapshot_of v (revision (owned x) + 1) \<and>
    owned y = (owned x)\<lparr>active := Some v, pending_session := None, revision := revision (owned x) + 1\<rparr>"
proof -
  obtain u where u: "check_identity i v (owned x) = Ok u"
    using assms by (cases "check_identity i v (owned x)") (auto simp: commit_session_def)
  obtain r z where p: "persist_session v x = (r, z)" by fastforce
  then obtain k where r: "r = Ok k" using assms u by (cases r) (auto simp: commit_session_def)
  have "is_ok (encode_twitch_session v)" "owned z = owned x" using persist_Ok [of v x k z] p r by auto
  then show ?thesis using assms u p r by (auto simp: commit_session_def Let_def)
qed

lemma commit_state:
  "owned (snd (commit_session i v x)) = owned x \<or>
   check_identity i v (owned x) = Ok () \<and> is_ok (encode_twitch_session v) \<and>
   owned (snd (commit_session i v x)) =
     (owned x)\<lparr>active := Some v, pending_session := None, revision := revision (owned x) + 1\<rparr>"
proof -
  obtain r y where c: "commit_session i v x = (r, y)" by fastforce
  show ?thesis
  proof (cases r)
    case (Inl e)
    then show ?thesis using commit_Err [of i v x e y] c by simp
  next
    case (Inr k)
    then show ?thesis using commit_Ok [of i v x k y] c by simp
  qed
qed

lemma start_recovery_cases:
  "(\<exists>r. start_recovery l x = (Answered r, x)) \<or>
   (\<exists>v. active (owned x) = Some v \<and> owner_idle (owned x) = Ok () \<and>
      lease_revision l = revision (owned x) \<and> lease_user_id l = session_user_id v \<and>
      lease_token l = access_token (credentials v) \<and>
      start_recovery l x =
        (Started (fst (start_transaction v True ((owned x)\<lparr>active := None\<rparr>))),
         x\<lparr>owned := snd (start_transaction v True ((owned x)\<lparr>active := None\<rparr>))\<rparr>))"
  by (auto simp: start_recovery_def Let_def start_transaction_def split: sum.split option.split)

lemma open_transaction:
  assumes "session_inv s" and "owner_idle s = Ok ()" and "b \<longrightarrow> active s = Some v"
  shows "sound_step s (snd (start_transaction v b (s\<lparr>active := None\<rparr>)))"
  using sound_open [OF assms, of "Some (session_user_id v)"] by (simp add: start_transaction_def)

lemma open_vacant:
  "session_inv s \<Longrightarrow> vacant s = Ok () \<Longrightarrow> sound_step s (snd (start_transaction v False s))"
  using open_transaction [of s False v] active_idle [of s] by (simp add: vacant_Ok)

lemma open_reserved:
  assumes "session_inv s" and "vacant s = Ok ()"
  shows "sound_step s (s\<lparr>next_transaction := next_transaction s + 1,
    pending_session := Some \<lparr>pending_id = next_transaction s, pending_user = None, restorable = False\<rparr>\<rparr>)"
proof -
  have "s\<lparr>active := None\<rparr> = s" using assms(2) by (simp add: vacant_Ok active_idle)
  moreover have "sound_step s (s\<lparr>active := None, next_transaction := next_transaction s + 1,
      pending_session := Some \<lparr>pending_id = next_transaction s, pending_user = None, restorable = False\<rparr>\<rparr>)"
    using assms by (intro sound_open) (auto simp: vacant_Ok)
  ultimately show ?thesis by metis
qed

lemma owner_step_sound:
  assumes inv: "session_inv (owned x)"
  shows "sound_step (owned x) (owned (owner_step P x op))"
proof -
  note refl = sound_refl [OF inv]
  show ?thesis
  proof (cases op)
    case CheckoutSaved
    then show ?thesis
      using checkout_saved_state [of P x] refl open_vacant [OF inv] by auto
  next
    case (BeginNew v)
    then show ?thesis
      using refl open_vacant [OF inv, of v]
      by (cases "vacant (owned x)") (auto simp: begin_new_def case_prod_beta)
  next
    case ReserveNew
    then show ?thesis
      using refl open_reserved [OF inv]
      by (cases "vacant (owned x)") (simp_all add: reserve_new_def Let_def)
  next
    case CheckoutActive
    then show ?thesis
      using refl open_transaction [OF inv, of True]
      by (cases "owner_idle (owned x)") (auto simp: checkout_active_def case_prod_beta split: option.split)
  next
    case (PersistPending i v)
    then show ?thesis
      using refl sound_pin [OF inv]
      by (auto simp: persist_pending_def check_identity_Ok check_transaction_Ok split: sum.split)
  next
    case (CommitSession i v)
    then show ?thesis
      using commit_state [of i v x] refl sound_commit [OF inv] by (auto simp: check_identity_Ok)
  next
    case (RestoreSession i v)
    then show ?thesis
      using refl sound_restore [OF inv]
      by (auto simp: restore_session_def check_identity_Ok check_transaction_Ok is_ok_iff split: sum.split)
  next
    case (DiscardSession i b)
    then show ?thesis
      using refl sound_close [OF inv] by (auto simp: discard_session_def Let_def split: sum.split)
  next
    case EraseSaved
    have "sound_step (owned x) ((owned x)\<lparr>active := None\<rparr>)" if "pending_session (owned x) = None"
      using sound_close(1) [OF inv] that by (cases "owned x") simp
    then show ?thesis using EraseSaved refl by (simp add: erase_saved_def)
  next
    case (StartRecovery l)
    then show ?thesis
      using start_recovery_cases [of l x] refl open_transaction [OF inv, of True] by auto
  next
    case ShutdownOwner
    then show ?thesis using sound_close(2) [OF inv] by (simp add: shutdown_owner_def)
  qed (use refl in \<open>auto split: prod.split\<close>)
qed

interpretation owner: evolving_machine "owner_step P" "\<lambda>x. session_inv (owned x)"
    "\<lambda>x y. session_evolves (owned x) (owned y)"
  by unfold_locales (use owner_step_sound in \<open>auto simp: sound_step_def intro: session_evolves_trans\<close>)

lemma new_owner_inv [simp]: "session_inv (owned (new_owner c w))"
  by (simp add: new_owner_def session_inv_def)

section \<open>Properties\<close>

text \<open>
  C16: The Twitch session has at most one holder at any time. Along any interleaving of the operations
  of all threads from the start of the owner: an active session and a pending transaction never exist
  together, a stopping owner has neither, every active session can be encoded, the pending
  transaction's number was never handed out before (numbers only grow, and neither counter overflows),
  and between two points with the same revision no session appears and its user never changes, so a
  session only comes into being by a commit, which raises the revision.
\<close>

theorem session_has_one_holder:
  fixes P :: time_range and ops :: "'w owner_op list"
  shows "session_inv (owned (foldl (owner_step P) (new_owner c w) ops)) \<and>
   session_evolves (owned (foldl (owner_step P) (new_owner c w) ops))
     (owned (foldl (owner_step P) (new_owner c w) (ops @ next_ops)))"
proof -
  let ?x = "foldl (owner_step P) (new_owner c w) ops"
  have x: "session_inv (owned ?x)" by (rule owner.run_inv) simp
  then have "session_evolves (owned ?x) (owned (foldl (owner_step P) ?x next_ops))" by (rule owner.run_evolves)
  with x show ?thesis by simp
qed

end
