(* ===== verification/Http.thy ===== *)
theory Http
  imports Settings
begin

text \<open>
  The HTTP values and the checks of a request before it is sent (\<open>rust/src/application/http.rs\<close>). The
  client and the body sources are trait objects: a body is a value of any type, with its declared length
  as a function that may panic (\<open>None\<close>).
\<close>

section \<open>Limits and values\<close>

definition max_http_url_bytes :: nat where "max_http_url_bytes = 4096"
definition max_http_header_count :: nat where "max_http_header_count = 64"
definition max_http_header_name_bytes :: nat where "max_http_header_name_bytes = 128"
definition max_http_header_value_bytes :: nat where "max_http_header_value_bytes = 8192"
definition max_http_request_header_bytes :: nat where "max_http_request_header_bytes = 32 * 1024"
definition max_http_request_body_bytes :: u64 where "max_http_request_body_bytes = 512 * 1024 * 1024"
definition max_http_response_header_bytes :: nat where "max_http_response_header_bytes = 64 * 1024"
definition max_http_response_body_bytes :: nat where "max_http_response_body_bytes = 16 * 1024 * 1024"

datatype http_method = HttpGet | HttpPost | HttpPut | HttpPatch | HttpDelete

fun method_name :: "http_method \<Rightarrow> string" where
  "method_name HttpGet = ''GET''"
| "method_name HttpPost = ''POST''"
| "method_name HttpPut = ''PUT''"
| "method_name HttpPatch = ''PATCH''"
| "method_name HttpDelete = ''DELETE''"

datatype header_sensitivity = PublicHeader | SensitiveHeader

record http_header =
  header_name :: string
  header_value :: string
  sensitivity :: header_sensitivity

definition is_sensitive_http_header_name :: "string \<Rightarrow> bool" where
  "is_sensitive_http_header_name name =
     list_ex (eq_ignore_case name)
       [''Authorization'', ''Proxy-Authorization'', ''Cookie'', ''Set-Cookie'', ''X-Api-Key'', ''X-Gw2-Api-Key'']"

definition response_header :: "string \<Rightarrow> string \<Rightarrow> http_header" where
  "response_header n v = \<lparr>header_name = n, header_value = v,
     sensitivity = (if is_sensitive_http_header_name n then SensitiveHeader else PublicHeader)\<rparr>"

definition public_header :: "string \<Rightarrow> string \<Rightarrow> http_header" where
  "public_header n v = \<lparr>header_name = n, header_value = v, sensitivity = PublicHeader\<rparr>"

definition sensitive_header :: "string \<Rightarrow> string \<Rightarrow> http_header" where
  "sensitive_header n v = \<lparr>header_name = n, header_value = v, sensitivity = SensitiveHeader\<rparr>"

definition redacted_value :: "http_header \<Rightarrow> string" where
  "redacted_value h =
     (if sensitivity h = SensitiveHeader \<or> is_sensitive_http_header_name (header_name h) then ''[REDACTED]''
      else if utf8_valid (of_string (header_value h)) then header_value h else ''[INVALID]'')"

definition is_http_token_byte :: "char \<Rightarrow> bool" where
  "is_http_token_byte c \<longleftrightarrow> is_alnum c \<or> byte c \<in> {33, 35, 36, 37, 38, 39, 42, 43, 45, 46, 94, 95, 96, 124, 126}"

datatype http_body_error_code =
  BodyCancelled | SourceUnavailable | SourceChanged | BodyReadError | BodyPanicked

record http_body_error =
  body_code :: http_body_error_code
  body_system_error :: "u32 option"

definition body_error :: "http_body_error_code \<Rightarrow> http_body_error" where
  "body_error c = \<lparr>body_code = c, body_system_error = None\<rparr>"

text \<open>Durations in nanoseconds.\<close>

record http_timeouts =
  connect_timeout :: nat
  operation_timeout :: nat
  stalled_transfer :: nat

definition default_timeouts :: http_timeouts where
  "default_timeouts = \<lparr>connect_timeout = 10 * 10 ^ 9, operation_timeout = 120 * 10 ^ 9, stalled_transfer = 30 * 10 ^ 9\<rparr>"

record http_response_limits =
  max_header_bytes :: nat
  max_body_bytes :: nat

definition default_response_limits :: http_response_limits where
  "default_response_limits = \<lparr>max_header_bytes = max_http_response_header_bytes, max_body_bytes = 1024 * 1024\<rparr>"

record 'b http_request =
  http_method :: http_method
  http_url :: string
  http_headers :: "http_header list"
  http_body :: "'b option"
  http_timeouts :: http_timeouts
  http_response_limits :: http_response_limits

definition new_http_request :: "http_method \<Rightarrow> string \<Rightarrow> 'b http_request" where
  "new_http_request m u = \<lparr>http_method = m, http_url = u, http_headers = [], http_body = None,
     http_timeouts = default_timeouts, http_response_limits = default_response_limits\<rparr>"

record http_response =
  status_code :: u16
  response_headers :: "http_header list"
  response_body :: string

datatype http_error_code =
  HttpInvalidRequest | BodyReadFailed | HttpCancelled | HttpTimeout | NameResolutionFailed | ConnectionFailed
| TlsFailed | HttpSendFailed | ReceiveFailed | ResponseTooLarge | ProtocolError | HttpUnsupportedEnvironment
| InitializationFailed | HttpInternal

record http_error =
  http_code :: http_error_code
  transport_code :: "int option"
  http_body_code :: "http_body_error_code option"
  http_system_error :: "u32 option"

definition http_error_of :: "http_error_code \<Rightarrow> http_error" where
  "http_error_of c = \<lparr>http_code = c, transport_code = None, http_body_code = None, http_system_error = None\<rparr>"

datatype transport_policy = HttpsOnly | PlaintextLoopbackForTests

section \<open>The checks\<close>

text \<open>\<open>split_once\<close> at a string, and \<open>split\<close> at a character with \<open>next\<close>.\<close>

fun split_once_at :: "string \<Rightarrow> string \<Rightarrow> (string \<times> string) option" where
  "split_once_at p [] = (if p = [] then Some ([], []) else None)"
| "split_once_at p (c # cs) =
     (if take (length p) (c # cs) = p then Some ([], drop (length p) (c # cs))
      else map_option (\<lambda>(a, b). (c # a, b)) (split_once_at p cs))"

definition valid_label :: "string \<Rightarrow> bool" where
  "valid_label l \<longleftrightarrow> l \<noteq> [] \<and> length l \<le> 63 \<and> hd l \<noteq> CHR ''-'' \<and> last l \<noteq> CHR ''-'' \<and>
     list_all (\<lambda>c. is_alnum c \<or> c = CHR ''-'') l"

definition strip_final_dot :: "string \<Rightarrow> string" where
  "strip_final_dot h = (if h \<noteq> [] \<and> last h = CHR ''.'' then butlast h else h)"

text \<open>The host and what follows it, which starts with a colon when it is a port.\<close>

definition split_authority :: "string \<Rightarrow> (http_error, string \<times> string) result" where
  "split_authority authority =
     (let invalid = Err (http_error_of HttpInvalidRequest) in
      if authority \<noteq> [] \<and> hd authority = CHR ''[''
      then (case split_once (CHR '']'') authority of
              None \<Rightarrow> invalid
            | Some (before, after) \<Rightarrow>
                if is_ipv6 (tl before) then Ok (before @ '']'', after) else invalid)
      else
        (let (host, port) = (case split_once (CHR '':'') authority of
               None \<Rightarrow> (authority, []) | Some (h, p) \<Rightarrow> (h, CHR '':'' # p));
             name = strip_final_dot host in
         if name = [] \<or> 253 < length host \<or> \<not> list_all valid_label (split_at_sep (CHR ''.'') name)
         then invalid else Ok (host, port)))"

definition url_byte :: "char \<Rightarrow> bool" where
  "url_byte c \<longleftrightarrow> 33 \<le> byte c \<and> byte c \<le> 126 \<and> c \<noteq> CHR ''#'' \<and> c \<noteq> CHR 0x5C \<and> c \<noteq> CHR 0x22"

definition validate_http_url :: "string \<Rightarrow> transport_policy \<Rightarrow> (http_error, unit) result" where
  "validate_http_url url policy =
     (let invalid = http_error_of HttpInvalidRequest in
      if url = [] \<or> max_http_url_bytes < length url \<or> \<not> list_all url_byte url then Err invalid
      else and_then (ok_or invalid (split_once_at ''://'' url)) (\<lambda>(scheme, rest).
        let authority = takeWhile (\<lambda>c. c \<noteq> CHR ''/'' \<and> c \<noteq> CHR ''?'') rest in
        if authority = [] \<or> CHR ''@'' \<in> set authority then Err invalid
        else and_then (split_authority authority) (\<lambda>(host, port).
          and_then (if port = [] then Ok ()
                    else and_then (ok_or invalid (strip_prefix '':'' port)) (\<lambda>digits.
                      require (valid_port digits) invalid)) (\<lambda>_.
            if eq_ignore_case scheme ''https'' then Ok ()
            else if eq_ignore_case scheme ''http'' \<and> policy = PlaintextLoopbackForTests \<and>
              (eq_ignore_case host ''localhost'' \<or> host = ''127.0.0.1'' \<or> host = ''[::1]'')
            then Ok () else Err invalid))))"

definition reserved_header :: "string \<Rightarrow> bool" where
  "reserved_header name =
     list_ex (eq_ignore_case name)
       [''Host'', ''Content-Length'', ''Transfer-Encoding'', ''Connection'', ''Expect'']"

definition valid_header :: "http_header \<Rightarrow> bool" where
  "valid_header h \<longleftrightarrow>
     header_name h \<noteq> [] \<and> length (header_name h) \<le> max_http_header_name_bytes \<and>
     list_all is_http_token_byte (header_name h) \<and> length (header_value h) \<le> max_http_header_value_bytes \<and>
     list_all (\<lambda>c. byte c = 9 \<or> (32 \<le> byte c \<and> byte c \<le> 126)) (header_value h) \<and>
     \<not> reserved_header (header_name h) \<and>
     (is_sensitive_http_header_name (header_name h) \<longrightarrow> sensitivity h = SensitiveHeader)"

fun validate_headers :: "nat \<Rightarrow> http_header list \<Rightarrow> (http_error, unit) result" where
  "validate_headers used [] = Ok ()"
| "validate_headers used (h # hs) =
     (let size = length (header_name h) + length (header_value h) + 4 in
      if \<not> valid_header h then Err (http_error_of HttpInvalidRequest)
      else if max_http_request_header_bytes - used < size then Err (http_error_of HttpInvalidRequest)
      else validate_headers (used + size) hs)"

definition validate_http_request ::
  "('b \<Rightarrow> u64 option) \<Rightarrow> 'b http_request \<Rightarrow> transport_policy \<Rightarrow> (http_error, unit) result" where
  "validate_http_request content_length r policy =
     (let invalid = http_error_of HttpInvalidRequest; t = http_timeouts r; l = http_response_limits r in
      and_then (validate_http_url (http_url r) policy) (\<lambda>_.
      and_then (require (length (http_headers r) \<le> max_http_header_count) invalid) (\<lambda>_.
      and_then (validate_headers 0 (http_headers r)) (\<lambda>_.
      and_then (case http_body r of
           None \<Rightarrow> Ok ()
         | Some b \<Rightarrow> (case content_length b of
             None \<Rightarrow> Err (http_error_of HttpInternal)
           | Some n \<Rightarrow> require (http_method r \<noteq> HttpGet \<and> 1 \<le> n \<and> n \<le> max_http_request_body_bytes) invalid)) (\<lambda>_.
        require (10 ^ 6 \<le> connect_timeout t \<and> connect_timeout t \<le> 60 * 10 ^ 9 \<and>
          10 ^ 6 \<le> operation_timeout t \<and> operation_timeout t \<le> 900 * 10 ^ 9 \<and>
          10 ^ 9 \<le> stalled_transfer t \<and> stalled_transfer t \<le> 900 * 10 ^ 9 \<and>
          1 \<le> max_header_bytes l \<and> max_header_bytes l \<le> max_http_response_header_bytes \<and>
          1 \<le> max_body_bytes l \<and> max_body_bytes l \<le> max_http_response_body_bytes) invalid)))))"

section \<open>Lemmas\<close>

lemma split_once_at_Some: "split_once_at p s = Some (a, b) \<Longrightarrow> s = a @ p @ b"
proof (induction p s arbitrary: a rule: split_once_at.induct)
  case (2 p c cs)
  show ?case
  proof (cases "take (length p) (c # cs) = p")
    case True
    then have "a = []" "b = drop (length p) (c # cs)" using "2.prems" by simp_all
    then show ?thesis using True by (metis append_Nil append_take_drop_id)
  qed (use 2 in auto)
qed (auto split: if_splits)

lemma validate_headers_bound:
  "validate_headers used hs = Ok u \<Longrightarrow> used \<le> max_http_request_header_bytes \<Longrightarrow>
     list_all valid_header hs \<and>
     used + (\<Sum>h \<leftarrow> hs. length (header_name h) + length (header_value h) + 4) \<le> max_http_request_header_bytes"
  by (induction used hs rule: validate_headers.induct) (auto simp: Let_def not_less le_diff_conv2 add_ac split: if_splits)

lemma authority_prefix:
  "\<exists>path. rest = takeWhile P rest @ path \<and> (path \<noteq> [] \<longrightarrow> \<not> P (hd path))"
  by (intro exI [of _ "dropWhile P rest"]) (auto simp: hd_dropWhile)

lemma validate_http_url_Ok:
  assumes "validate_http_url url policy = Ok u"
  obtains scheme authority path where "url = scheme @ ''://'' @ authority @ path"
    and "list_all url_byte url" and "length url \<le> max_http_url_bytes"
    and "authority \<noteq> []" and "CHR ''@'' \<notin> set authority"
    and "path = [] \<or> hd path = CHR ''/'' \<or> hd path = CHR ''?''"
    and "eq_ignore_case scheme ''https'' \<or> policy = PlaintextLoopbackForTests"
proof -
  let ?P = "\<lambda>c. c \<noteq> CHR ''/'' \<and> c \<noteq> CHR ''?''"
  from assms obtain scheme rest where s: "split_once_at ''://'' url = Some (scheme, rest)"
    and "list_all url_byte url" "length url \<le> max_http_url_bytes"
    and a: "takeWhile ?P rest \<noteq> []" "CHR ''@'' \<notin> set (takeWhile ?P rest)"
    and p: "eq_ignore_case scheme ''https'' \<or> policy = PlaintextLoopbackForTests"
    by (auto simp: validate_http_url_def Let_def split: if_splits prod.splits)
  moreover from authority_prefix [of rest ?P] obtain path where r: "rest = takeWhile ?P rest @ path"
    "path \<noteq> [] \<longrightarrow> \<not> ?P (hd path)" by blast
  moreover have "url = scheme @ ''://'' @ takeWhile ?P rest @ path"
    using split_once_at_Some [OF s] r(1) by simp
  ultimately show ?thesis using that [of scheme "takeWhile ?P rest" path] by blast
qed

lemma token_byte_range: "is_http_token_byte c \<Longrightarrow> 33 \<le> byte c \<and> byte c \<le> 126"
  by (auto simp: is_http_token_byte_def is_alnum_def is_digit_def is_lower_def is_upper_def)

lemma valid_header_safe:
  assumes "valid_header h"
  shows "(\<forall>c \<in> set (header_name h @ header_value h). byte c \<noteq> 10 \<and> byte c \<noteq> 13)"
    and "\<not> reserved_header (header_name h)"
    and "is_sensitive_http_header_name (header_name h) \<Longrightarrow> sensitivity h = SensitiveHeader"
proof -
  have "33 \<le> byte c" if "c \<in> set (header_name h)" for c
    using assms that token_byte_range by (auto simp: valid_header_def list_all_iff)
  moreover have "byte c = 9 \<or> 32 \<le> byte c" if "c \<in> set (header_value h)" for c
    using that assms by (auto simp: valid_header_def list_all_iff)
  ultimately show "\<forall>c \<in> set (header_name h @ header_value h). byte c \<noteq> 10 \<and> byte c \<noteq> 13" by fastforce
qed (use assms in \<open>auto simp: valid_header_def\<close>)

section \<open>Properties\<close>

text \<open>
  C24: A request that passes the checks can be sent safely. Its address consists of printable ASCII
  without a fragment, a backslash or a quote, and outside the tests it is an \<open>https\<close> address whose
  authority is not empty and carries no credentials. No header name or value contains a line break, so
  no header can introduce another one; the framing headers stay with the client, and every header with a
  sensitive name carries the mark of a sensitive one. The headers and the declared body stay within
  the fixed bounds, and so do the limits on the headers and the body of the response and the three
  timeouts, none of which is zero; a GET request has no body.
\<close>

theorem checked_request_is_safe:
  assumes "validate_http_request content_length r policy = Ok u"
  shows "list_all url_byte (http_url r) \<and> length (http_url r) \<le> max_http_url_bytes \<and>
    (\<exists>scheme authority path. http_url r = scheme @ ''://'' @ authority @ path \<and> authority \<noteq> [] \<and>
       CHR ''@'' \<notin> set authority \<and> (path = [] \<or> hd path = CHR ''/'' \<or> hd path = CHR ''?'') \<and>
       (policy = HttpsOnly \<longrightarrow> eq_ignore_case scheme ''https'')) \<and>
    (\<forall>h \<in> set (http_headers r).
       (\<forall>c \<in> set (header_name h @ header_value h). byte c \<noteq> 10 \<and> byte c \<noteq> 13) \<and>
       \<not> reserved_header (header_name h) \<and>
       (is_sensitive_http_header_name (header_name h) \<longrightarrow> sensitivity h = SensitiveHeader)) \<and>
    length (http_headers r) \<le> max_http_header_count \<and>
    (\<Sum>h \<leftarrow> http_headers r. length (header_name h) + length (header_value h) + 4) \<le> max_http_request_header_bytes \<and>
    (\<forall>b. http_body r = Some b \<longrightarrow> http_method r \<noteq> HttpGet \<and>
       (\<exists>n. content_length b = Some n \<and> 1 \<le> n \<and> n \<le> max_http_request_body_bytes)) \<and>
    (let l = http_response_limits r; t = http_timeouts r in
      1 \<le> max_header_bytes l \<and> max_header_bytes l \<le> max_http_response_header_bytes \<and>
      1 \<le> max_body_bytes l \<and> max_body_bytes l \<le> max_http_response_body_bytes \<and>
      10 ^ 6 \<le> connect_timeout t \<and> connect_timeout t \<le> 60 * 10 ^ 9 \<and>
      10 ^ 6 \<le> operation_timeout t \<and> operation_timeout t \<le> 900 * 10 ^ 9 \<and>
      10 ^ 9 \<le> stalled_transfer t \<and> stalled_transfer t \<le> 900 * 10 ^ 9)"
proof -
  have url: "validate_http_url (http_url r) policy = Ok ()"
    and hs: "length (http_headers r) \<le> max_http_header_count" "validate_headers 0 (http_headers r) = Ok ()"
    and rest: "\<forall>b. http_body r = Some b \<longrightarrow> http_method r \<noteq> HttpGet \<and>
       (\<exists>n. content_length b = Some n \<and> 1 \<le> n \<and> n \<le> max_http_request_body_bytes)"
      "let l = http_response_limits r; t = http_timeouts r in
      1 \<le> max_header_bytes l \<and> max_header_bytes l \<le> max_http_response_header_bytes \<and>
      1 \<le> max_body_bytes l \<and> max_body_bytes l \<le> max_http_response_body_bytes \<and>
      10 ^ 6 \<le> connect_timeout t \<and> connect_timeout t \<le> 60 * 10 ^ 9 \<and>
      10 ^ 6 \<le> operation_timeout t \<and> operation_timeout t \<le> 900 * 10 ^ 9 \<and>
      10 ^ 9 \<le> stalled_transfer t \<and> stalled_transfer t \<le> 900 * 10 ^ 9"
    using assms by (auto simp: validate_http_request_def Let_def split: option.splits)
  note heads = validate_headers_bound [OF hs(2), simplified]
  have h: "(\<forall>c \<in> set (header_name h @ header_value h). byte c \<noteq> 10 \<and> byte c \<noteq> 13) \<and>
       \<not> reserved_header (header_name h) \<and>
       (is_sensitive_http_header_name (header_name h) \<longrightarrow> sensitivity h = SensitiveHeader)"
    if "h \<in> set (http_headers r)" for h
  proof -
    have "valid_header h" using that heads by (simp add: list_all_iff)
    then show ?thesis by (intro conjI impI valid_header_safe)
  qed
  obtain scheme authority path where "http_url r = scheme @ ''://'' @ authority @ path" "authority \<noteq> []"
    "CHR ''@'' \<notin> set authority" "path = [] \<or> hd path = CHR ''/'' \<or> hd path = CHR ''?''"
    "policy = HttpsOnly \<longrightarrow> eq_ignore_case scheme ''https''"
    "list_all url_byte (http_url r)" "length (http_url r) \<le> max_http_url_bytes"
    using url by (rule validate_http_url_Ok) auto
  then show ?thesis using h hs(1) heads rest by blast
qed

lemmas request_evals = validate_http_request_def validate_http_url_def url_byte_def split_authority_def
  strip_final_dot_def valid_label_def valid_header_def is_http_token_byte_def byte_class_defs reserved_header_def
  is_sensitive_http_header_name_def eq_ignore_case_def sensitive_header_def public_header_def new_http_request_def
  default_timeouts_def default_response_limits_def max_http_header_name_bytes_def max_http_header_value_bytes_def
  max_http_request_header_bytes_def max_http_url_bytes_def max_http_header_count_def max_http_request_body_bytes_def
  max_http_response_header_bytes_def max_http_response_body_bytes_def

text \<open>A POST request with a key and a body of five bytes.\<close>

theorem checked_request_is_safe_witness:
  "let r = (new_http_request HttpPost ''https://d.c/u?x=1'' :: nat http_request)
       \<lparr>http_headers := [sensitive_header ''X-Api-Key'' ''abc'', public_header ''Accept'' ''*/*''], http_body := Some 5\<rparr> in
   validate_http_request (\<lambda>b. Some (of_nat b)) r HttpsOnly = Ok () \<and>
   list_all url_byte (http_url r) \<and> \<not> reserved_header ''X-Api-Key''"
proof -
  let ?r = "(new_http_request HttpPost ''https://d.c/u?x=1'' :: nat http_request)
       \<lparr>http_headers := [sensitive_header ''X-Api-Key'' ''abc'', public_header ''Accept'' ''*/*''], http_body := Some 5\<rparr>"
  have ok: "validate_http_request (\<lambda>b. Some (of_nat b)) ?r HttpsOnly = Ok ()"
    by (simp add: request_evals Let_def ok_or_def require_def)
  from checked_request_is_safe [OF this]
  have "list_all url_byte (http_url ?r)" "\<forall>h \<in> set (http_headers ?r). \<not> reserved_header (header_name h)" by blast+
  moreover from this have "\<not> reserved_header ''X-Api-Key''" by (simp add: sensitive_header_def)
  ultimately show ?thesis using ok unfolding Let_def by blast
qed

end
