(* ===== verification/Calls.thy ===== *)
theory Calls
  imports Prelude
begin

text \<open>
  Sequences of calls that may panic: a step takes the state to a value, or to \<open>None\<close> when it panicked,
  and the new state. \<open>satisfies\<close> is the rule by which a client shows what such a sequence keeps and gives.
\<close>

type_synonym ('s, 'a) step = "'s \<Rightarrow> 'a option \<times> 's"

definition andthen :: "('s \<Rightarrow> 'a option \<times> 's) \<Rightarrow> ('a \<Rightarrow> 's \<Rightarrow> 'b option \<times> 's) \<Rightarrow> 's \<Rightarrow> 'b option \<times> 's" where
  "andthen f g s = (case f s of (None, t) \<Rightarrow> (None, t) | (Some v, t) \<Rightarrow> g v t)"

definition give :: "'a \<Rightarrow> ('s, 'a) step" where
  "give v s = (Some v, s)"

text \<open>A call that does not panic, and the question mark operator on a value and on a step.\<close>

definition ask :: "('s \<Rightarrow> 'a \<times> 's) \<Rightarrow> ('s, 'a) step" where
  "ask f s = (case f s of (v, t) \<Rightarrow> (Some v, t))"

definition unless_err :: "('e, 'a) result \<Rightarrow> ('a \<Rightarrow> ('s, ('e, 'b) result) step) \<Rightarrow> ('s, ('e, 'b) result) step" where
  "unless_err r g = (case r of Err e \<Rightarrow> give (Err e) | Ok v \<Rightarrow> g v)"

definition try_then ::
  "('s, ('e, 'a) result) step \<Rightarrow> ('a \<Rightarrow> ('s, ('e, 'b) result) step) \<Rightarrow> ('s, ('e, 'b) result) step" where
  "try_then f g = andthen f (\<lambda>r. unless_err r g)"

text \<open>\<open>catch_unwind\<close> with a value for the panic.\<close>

definition panic_as :: "'a \<Rightarrow> ('s, 'a) step \<Rightarrow> 's \<Rightarrow> 'a \<times> 's" where
  "panic_as v f s = (case f s of (None, t) \<Rightarrow> (v, t) | (Some x, t) \<Rightarrow> (x, t))"

section \<open>Reasoning\<close>

text \<open>The step keeps \<open>J\<close>, also when it panics, and gives values in \<open>Q\<close>.\<close>

definition satisfies :: "('s \<Rightarrow> bool) \<Rightarrow> ('a \<Rightarrow> bool) \<Rightarrow> ('s, 'a) step \<Rightarrow> bool" where
  "satisfies J Q f \<longleftrightarrow> (\<forall>s r t. f s = (r, t) \<longrightarrow> J s \<longrightarrow> J t \<and> (\<forall>v. r = Some v \<longrightarrow> Q v))"

lemma satisfies_andthen:
  "satisfies J R f \<Longrightarrow> (\<And>v. R v \<Longrightarrow> satisfies J Q (g v)) \<Longrightarrow> satisfies J Q (andthen f g)"
  unfolding satisfies_def andthen_def by (fastforce split: prod.splits option.splits)

lemma satisfies_give: "Q v \<Longrightarrow> satisfies J Q (give v)"
  by (simp add: satisfies_def give_def)

lemma satisfies_ask: "(\<And>s v t. f s = (v, t) \<Longrightarrow> J s \<Longrightarrow> J t) \<Longrightarrow> satisfies J (\<lambda>_. True) (ask f)"
  by (auto simp: satisfies_def ask_def split: prod.splits)

lemma satisfies_unless_err:
  "(\<And>e. r = Err e \<Longrightarrow> Q (Err e)) \<Longrightarrow> (\<And>v. r = Ok v \<Longrightarrow> satisfies J Q (g v)) \<Longrightarrow> satisfies J Q (unless_err r g)"
  by (cases r) (auto simp: unless_err_def intro: satisfies_give)

lemma satisfies_try_then:
  "satisfies J R f \<Longrightarrow> (\<And>e. R (Err e) \<Longrightarrow> Q (Err e)) \<Longrightarrow> (\<And>v. R (Ok v) \<Longrightarrow> satisfies J Q (g v)) \<Longrightarrow>
     satisfies J Q (try_then f g)"
  unfolding try_then_def by (rule satisfies_andthen, assumption, rule satisfies_unless_err) auto

lemma satisfies_weaken: "satisfies J R f \<Longrightarrow> (\<And>v. R v \<Longrightarrow> Q v) \<Longrightarrow> satisfies J Q f"
  unfolding satisfies_def by blast

lemma satisfies_if: "(b \<Longrightarrow> satisfies J Q f) \<Longrightarrow> (\<not> b \<Longrightarrow> satisfies J Q g) \<Longrightarrow> satisfies J Q (if b then f else g)"
  by simp

lemma panic_as_satisfies:
  "satisfies J Q f \<Longrightarrow> panic_as d f s = (v, t) \<Longrightarrow> J s \<Longrightarrow> Q d \<Longrightarrow> J t \<and> Q v"
  unfolding satisfies_def panic_as_def by (fastforce split: prod.splits option.splits)

end
