(* ===== verification/Twitch_Recovery.thy ===== *)
theory Twitch_Recovery
  imports Twitch_Owner Http Calls
begin

text \<open>
  Delivery access to the Twitch session (\<open>rust/src/application/twitch_session_owner/recovery.rs\<close>, with the
  values of \<open>rust/src/application/twitch.rs\<close>): leasing the active session, and recovering from a rejected
  token by validating it again or by rotating it.

  A recovery releases the lock between its sections. The calls of the Twitch service and of the clock
  are trait objects, a record of functions over the world; such a call may panic (\<open>None\<close>). Before each
  section the other threads run any list of their own operations, which the environment chooses.
\<close>

section \<open>Values\<close>

record twitch_token_grant =
  grant_access :: string
  grant_refresh :: string
  grant_expires_in :: duration
  grant_scopes :: "string list"

record twitch_identity =
  identity_user_id :: string
  identity_login :: string
  identity_expires_in :: duration
  identity_scopes :: "string list"

datatype twitch_operation =
  TwitchStart | TwitchPoll | TwitchValidate | TwitchRefresh | TwitchRevoke | TwitchSendChat

datatype twitch_disposition = DisposeRetry | DisposeReconnect | DisposeFailed | DisposeCancelled

datatype twitch_error_code =
  InvalidClientId | Unconfigured | InvalidInput | BodyFailed | TransportFailed | HttpStatusFailed
| InvalidResponse | TwitchInternal | TwitchCancelled

record twitch_error =
  failed_operation :: twitch_operation
  twitch_code :: twitch_error_code
  disposition :: twitch_disposition
  twitch_retry_after :: "duration option"
  twitch_http_error :: "http_error_code option"
  twitch_http_status :: "u16 option"

definition twitch_failed :: "twitch_operation \<Rightarrow> twitch_error_code \<Rightarrow> twitch_error" where
  "twitch_failed p c =
     \<lparr>failed_operation = p, twitch_code = c, disposition = DisposeFailed, twitch_retry_after = None,
      twitch_http_error = None, twitch_http_status = None\<rparr>"

fun disposition_detail :: "twitch_disposition \<Rightarrow> string" where
  "disposition_detail DisposeRetry = ''Twitch is temporarily unavailable''"
| "disposition_detail DisposeReconnect = ''Reconnect Twitch to continue''"
| "disposition_detail DisposeFailed = ''The Twitch request could not be completed''"
| "disposition_detail DisposeCancelled = ''The Twitch request was cancelled''"

definition valid_twitch_client_id :: "string \<Rightarrow> bool" where
  "valid_twitch_client_id v \<longleftrightarrow> v \<noteq> [] \<and> length v \<le> 128 \<and> list_all (\<lambda>c. is_lower c \<or> is_digit c) v"

fun disposition_code :: "twitch_disposition \<Rightarrow> delivery_session_code" where
  "disposition_code DisposeRetry = LeaseRetry"
| "disposition_code DisposeReconnect = LeaseReconnect"
| "disposition_code DisposeFailed = LeaseFailed"
| "disposition_code DisposeCancelled = LeaseCancelled"

definition request_failed :: "twitch_error \<Rightarrow> delivery_session_error" where
  "request_failed e =
     \<lparr>lease_code = disposition_code (disposition e),
      lease_retry_after = (case twitch_retry_after e of
        Some d \<Rightarrow> if d \<noteq> 0 \<and> d \<le> 86400 * 1000000000 then Some d else None | None \<Rightarrow> None)\<rparr>"

section \<open>The environment\<close>

record 'w twitch_env =
  validate_access_token :: "string \<Rightarrow> 'w \<Rightarrow> (twitch_error, twitch_identity) result option \<times> 'w"
  refresh_access_token :: "string \<Rightarrow> 'w \<Rightarrow> (twitch_error, twitch_token_grant) result option \<times> 'w"
  twitch_now :: "'w \<Rightarrow> system_time option \<times> 'w"
  stop_requested :: "'w \<Rightarrow> bool"
  meanwhile :: "'w owner \<Rightarrow> 'w owner_op list"
  platform_times :: time_range

type_synonym 'a leased = "(delivery_session_error, 'a) result"

text \<open>The other threads act, then this one.\<close>

definition interleave :: "'w twitch_env \<Rightarrow> 'w owner \<Rightarrow> 'w owner" where
  "interleave E x = foldl (owner_step (platform_times E)) x (meanwhile E x)"

definition call_twitch :: "('w \<Rightarrow> 'a option \<times> 'w) \<Rightarrow> 'w owner \<Rightarrow> 'a option \<times> 'w owner" where
  "call_twitch f x = (case f (owner_world x) of (r, w) \<Rightarrow> (r, x\<lparr>owner_world := w\<rparr>))"

section \<open>Operations\<close>

definition acquire :: "'w twitch_env \<Rightarrow> 'w owner \<Rightarrow> twitch_delivery_session leased \<times> 'w owner" where
  "acquire E x0 =
     (if stop_requested E (owner_world x0) then (Err (delivery_error LeaseCancelled), x0)
      else let x = interleave E x0; s = owned x in
        ((if stopping_session s then Err (delivery_error LeaseCancelled)
          else if pending_session s \<noteq> None then Err (delivery_error LeaseRetry)
          else case active s of
            None \<Rightarrow> Err (delivery_error LeaseNotConnected)
          | Some v \<Rightarrow> Ok (lease_of v (revision s))), x))"

definition check_recovery :: "'w twitch_env \<Rightarrow> u64 \<Rightarrow> 'w owner \<Rightarrow> unit leased option \<times> 'w owner" where
  "check_recovery E i x0 =
     (if stop_requested E (owner_world x0) then (Some (Err (delivery_error LeaseCancelled)), x0)
      else let x = interleave E x0 in
        (Some (case check_transaction i (owned x) of Ok _ \<Rightarrow> Ok () | Err e \<Rightarrow> Err (lease_error e)), x))"

definition expiry :: "'w twitch_env \<Rightarrow> duration \<Rightarrow> 'w owner \<Rightarrow> system_time leased option \<times> 'w owner" where
  "expiry E d x =
     (if d = 0 \<or> 604800 * 1000000000 < d then (Some (Err (delivery_error LeaseReconnect)), x)
      else andthen (call_twitch (twitch_now E)) (\<lambda>t y.
        (Some (if representable (platform_times E) (t + int d) then Ok (t + int d)
               else Err (delivery_error LeaseReconnect)), y)) x)"

definition apply_identity ::
  "'w twitch_env \<Rightarrow> twitch_session \<Rightarrow> twitch_identity \<Rightarrow> 'w owner \<Rightarrow> twitch_session leased option \<times> 'w owner" where
  "apply_identity E v d x =
     (if identity_user_id d \<noteq> session_user_id v then (Some (Err (delivery_error LeaseReconnect)), x)
      else andthen (expiry E (identity_expires_in d)) (\<lambda>r y.
        (Some (and_then r (\<lambda>t.
           let v2 = v\<lparr>credentials := (credentials v)\<lparr>access_expires_at := t\<rparr>,
             session_login := identity_login d, session_scopes := identity_scopes d\<rparr> in
           map_err (\<lambda>_. delivery_error LeaseReconnect) (and_then (encode_twitch_session v2) (\<lambda>_. Ok v2)))), y)) x)"

definition end_failed_recovery ::
  "'w twitch_env \<Rightarrow> session_transaction \<Rightarrow> delivery_session_error \<Rightarrow> bool \<Rightarrow> bool \<Rightarrow> 'w owner \<Rightarrow>
     twitch_delivery_session leased option \<times> 'w owner" where
  "end_failed_recovery E t e restore erase x0 =
     (let x = interleave E x0 in
      case (if restore then restore_session (transaction_id t) (transaction_session t) x
            else discard_session (transaction_id t) erase x) of
        (Err closed, y) \<Rightarrow> (Some (Err (lease_error closed)), y)
      | (Ok _, y) \<Rightarrow> (Some (Err e), y))"

definition finish_recovery ::
  "'w twitch_env \<Rightarrow> session_transaction \<Rightarrow> 'w owner \<Rightarrow> twitch_delivery_session leased option \<times> 'w owner" where
  "finish_recovery E t x =
     (case commit_session (transaction_id t) (transaction_session t) (interleave E x) of
        (Err e, y) \<Rightarrow> (Some (Err (lease_error e)), snd (discard_session (transaction_id t) False (interleave E y)))
      | (Ok _, y) \<Rightarrow> (case acquire E y of (r, z) \<Rightarrow> (Some r, z)))"

text \<open>The check between two steps: a failure ends the recovery.\<close>

definition guard_recovery ::
  "'w twitch_env \<Rightarrow> session_transaction \<Rightarrow> bool \<Rightarrow>
     ('w owner \<Rightarrow> twitch_delivery_session leased option \<times> 'w owner) \<Rightarrow> 'w owner \<Rightarrow>
     twitch_delivery_session leased option \<times> 'w owner" where
  "guard_recovery E t restore k =
     andthen (check_recovery E (transaction_id t)) (\<lambda>r.
       case r of Err e \<Rightarrow> end_failed_recovery E t e restore (\<not> restore) | Ok _ \<Rightarrow> k)"

text \<open>The end of both paths: the identity that the service confirmed.\<close>

definition adopt_identity ::
  "'w twitch_env \<Rightarrow> session_transaction \<Rightarrow> twitch_identity \<Rightarrow> 'w owner \<Rightarrow>
     twitch_delivery_session leased option \<times> 'w owner" where
  "adopt_identity E t d =
     andthen (apply_identity E (transaction_session t) d) (\<lambda>r.
       case r of
         Err e \<Rightarrow> end_failed_recovery E t e False True
       | Ok v \<Rightarrow> finish_recovery E (t\<lparr>transaction_session := v\<rparr>))"

text \<open>
  After a granted refresh the service may have invalidated the old token, so from here on nothing
  restores the old session. The new tokens are saved before they are used.
\<close>

definition confirm_grant ::
  "'w twitch_env \<Rightarrow> session_transaction \<Rightarrow> 'w owner \<Rightarrow> twitch_delivery_session leased option \<times> 'w owner" where
  "confirm_grant E t x =
     (case persist_pending (transaction_id t) (transaction_session t) (interleave E x) of
        (Err e, y) \<Rightarrow> end_failed_recovery E t (lease_error e) False False y
      | (Ok _, y) \<Rightarrow>
          guard_recovery E t False
            (andthen (call_twitch (validate_access_token E (access_token (credentials (transaction_session t)))))
               (\<lambda>replacement. guard_recovery E t False
                  (case replacement of
                     Err e \<Rightarrow> end_failed_recovery E t (request_failed e) False True
                   | Ok d \<Rightarrow> adopt_identity E t d))) y)"

definition granted_transaction ::
  "session_transaction \<Rightarrow> twitch_token_grant \<Rightarrow> system_time \<Rightarrow> session_transaction" where
  "granted_transaction t g exp =
     t\<lparr>transaction_session := (transaction_session t)\<lparr>
       credentials := \<lparr>access_token = grant_access g, refresh_token = grant_refresh g, access_expires_at = exp\<rparr>,
       session_scopes := grant_scopes g\<rparr>\<rparr>"

definition adopt_grant ::
  "'w twitch_env \<Rightarrow> session_transaction \<Rightarrow> twitch_token_grant \<Rightarrow> 'w owner \<Rightarrow>
     twitch_delivery_session leased option \<times> 'w owner" where
  "adopt_grant E t g =
     guard_recovery E t False
       (andthen (expiry E (grant_expires_in g)) (\<lambda>r.
          case r of
            Err e \<Rightarrow> end_failed_recovery E t e False True
          | Ok exp \<Rightarrow> confirm_grant E (granted_transaction t g exp)))"

definition restorable_failure :: "twitch_disposition \<Rightarrow> bool" where
  "restorable_failure d \<longleftrightarrow> d = DisposeRetry \<or> d = DisposeCancelled"

definition rotate_session ::
  "'w twitch_env \<Rightarrow> session_transaction \<Rightarrow> 'w owner \<Rightarrow> twitch_delivery_session leased option \<times> 'w owner" where
  "rotate_session E t =
     guard_recovery E t True
       (andthen (call_twitch (refresh_access_token E (refresh_token (credentials (transaction_session t)))))
          (\<lambda>refreshed. case refreshed of
             Err e \<Rightarrow> (let restore = restorable_failure (disposition e) in
               end_failed_recovery E t (request_failed e) restore (\<not> restore))
           | Ok g \<Rightarrow> adopt_grant E t g))"

definition recover_current ::
  "'w twitch_env \<Rightarrow> session_transaction \<Rightarrow> 'w owner \<Rightarrow> twitch_delivery_session leased option \<times> 'w owner" where
  "recover_current E t =
     guard_recovery E t True
       (andthen (call_twitch (validate_access_token E (access_token (credentials (transaction_session t)))))
          (\<lambda>validated. guard_recovery E t True
             (case validated of
                Ok d \<Rightarrow> adopt_identity E t d
              | Err e \<Rightarrow>
                  if disposition e \<noteq> DisposeReconnect
                  then end_failed_recovery E t (request_failed e) (restorable_failure (disposition e)) False
                  else rotate_session E t)))"

definition recover ::
  "'w twitch_env \<Rightarrow> twitch_delivery_session \<Rightarrow> 'w owner \<Rightarrow> twitch_delivery_session leased \<times> 'w owner" where
  "recover E rejected x0 =
     (if stop_requested E (owner_world x0) then (Err (delivery_error LeaseCancelled), x0)
      else case start_recovery rejected (interleave E x0) of
        (Answered r, x) \<Rightarrow> (r, x)
      | (Started t, x) \<Rightarrow>
          (case recover_current E t x of
             (Some r, y) \<Rightarrow> (r, y)
           | (None, y) \<Rightarrow>
               (Err (delivery_error LeaseFailed),
                snd (discard_session (transaction_id t) False (interleave E y)))))"

section \<open>Reasoning about a recovery\<close>

text \<open>A step from \<open>P\<close> ends in \<open>Q\<close> with its value, or in \<open>R\<close> when it panics.\<close>

definition runs :: "('s \<Rightarrow> bool) \<Rightarrow> ('s \<Rightarrow> 'a option \<times> 's) \<Rightarrow> ('a \<Rightarrow> 's \<Rightarrow> bool) \<Rightarrow> ('s \<Rightarrow> bool) \<Rightarrow> bool" where
  "runs P f Q R \<longleftrightarrow> (\<forall>x. P x \<longrightarrow> (case f x of (None, y) \<Rightarrow> R y | (Some v, y) \<Rightarrow> Q v y))"

lemma runs_andthen:
  "runs P f M R \<Longrightarrow> (\<And>v. runs (M v) (g v) Q R) \<Longrightarrow> runs P (andthen f g) Q R"
  unfolding runs_def andthen_def by (fastforce split: prod.splits option.splits)

lemma runs_weaken: "runs P f Q R \<Longrightarrow> (\<And>x. P' x \<Longrightarrow> P x) \<Longrightarrow> (\<And>v y. Q v y \<Longrightarrow> Q' v y) \<Longrightarrow>
     (\<And>y. R y \<Longrightarrow> R' y) \<Longrightarrow> runs P' f Q' R'"
  unfolding runs_def by (fastforce split: prod.splits option.splits)

lemma runsD: "runs P f Q R \<Longrightarrow> P x \<Longrightarrow> f x = (r, y) \<Longrightarrow> (case r of None \<Rightarrow> R y | Some v \<Rightarrow> Q v y)"
  unfolding runs_def by (metis (no_types, lifting) case_prod_conv option.case_eq_if)

text \<open>The transaction that an operation is about.\<close>

fun op_transaction :: "'w owner_op \<Rightarrow> u64 option" where
  "op_transaction (PersistPending i _) = Some i"
| "op_transaction (CommitSession i _) = Some i"
| "op_transaction (RestoreSession i _) = Some i"
| "op_transaction (DiscardSession i _) = Some i"
| "op_transaction _ = None"

definition spares :: "'w twitch_env \<Rightarrow> u64 \<Rightarrow> bool" where
  "spares E i \<longleftrightarrow> (\<forall>x. \<forall>op \<in> set (meanwhile E x). op_transaction op \<noteq> Some i)"

text \<open>
  What holds during a recovery with transaction \<open>i\<close> of user \<open>u\<close> from revision \<open>r\<close>: if the
  transaction is still pending, it is for this user, and can be restored if \<open>b\<close>. Afterwards it is not
  pending any more.
\<close>

definition holds :: "u64 \<Rightarrow> string \<Rightarrow> u64 \<Rightarrow> bool \<Rightarrow> 'w owner \<Rightarrow> bool" where
  "holds i u r b x \<longleftrightarrow> session_inv (owned x) \<and> i < next_transaction (owned x) \<and> r \<le> revision (owned x) \<and>
     (\<forall>p. pending_session (owned x) = Some p \<and> pending_id p = i \<longrightarrow>
        pending_user p = Some u \<and> (b \<longrightarrow> restorable p))"

definition released :: "u64 \<Rightarrow> u64 \<Rightarrow> 'w owner \<Rightarrow> bool" where
  "released i r x \<longleftrightarrow> session_inv (owned x) \<and> i < next_transaction (owned x) \<and> r \<le> revision (owned x) \<and>
     (\<forall>p. pending_session (owned x) = Some p \<longrightarrow> pending_id p \<noteq> i)"

definition answered :: "u64 \<Rightarrow> u64 \<Rightarrow> twitch_delivery_session leased \<Rightarrow> 'w owner \<Rightarrow> bool" where
  "answered i r v x \<longleftrightarrow> released i r x \<and> (\<forall>l. v = Ok l \<longrightarrow> r < lease_revision l)"

lemma holds_weaken: "holds i u r b x \<Longrightarrow> holds i u r False x"
  by (auto simp: holds_def)

lemma holds_world [simp]:
  "holds i u r b (x\<lparr>owner_world := w\<rparr>) = holds i u r b x" "released i r (x\<lparr>owner_world := w\<rparr>) = released i r x"
  by (simp_all add: holds_def released_def)

lemma pending_after_start:
  "pending_session (snd (start_transaction v b s)) = Some q \<Longrightarrow> pending_id q = next_transaction s"
  by (auto simp: start_transaction_def)

lemma pending_after_step:
  assumes "pending_session (owned (owner_step P x op)) = Some q" and "op_transaction op \<noteq> Some (pending_id q)"
    and "pending_id q < next_transaction (owned x)" and "session_inv (owned x)"
  shows "pending_session (owned x) = Some q"
proof (cases op)
  case CheckoutSaved
  then show ?thesis
    using checkout_saved_state [of P x] assms pending_after_start [of _ False "owned x" q] by auto
next
  case (BeginNew v)
  then show ?thesis
    using assms pending_after_start [of v False "owned x" q]
    by (cases "vacant (owned x)") (auto simp: begin_new_def case_prod_beta)
next
  case ReserveNew
  then show ?thesis using assms by (cases "vacant (owned x)") (auto simp: reserve_new_def Let_def)
next
  case CheckoutActive
  then show ?thesis
    using assms pending_after_start [of _ True "(owned x)\<lparr>active := None\<rparr>" q]
    by (cases "owner_idle (owned x)") (auto simp: checkout_active_def case_prod_beta split: option.splits)
next
  case (PersistPending i v)
  then show ?thesis
    using assms by (auto simp: persist_pending_def check_transaction_Ok split: sum.splits if_splits)
next
  case (CommitSession i v)
  then show ?thesis using commit_state [of i v x] assms by auto
next
  case (StartRecovery l)
  then show ?thesis
    using start_recovery_cases [of l x] assms pending_after_start [of _ True "(owned x)\<lparr>active := None\<rparr>" q] by auto
qed (use assms in \<open>auto simp: restore_session_def discard_session_def erase_saved_def shutdown_owner_def Let_def
      split: sum.splits if_splits prod.splits\<close>)

lemma sound_mono:
  "sound_step s t \<Longrightarrow> session_inv t \<and> next_transaction s \<le> next_transaction t \<and> revision s \<le> revision t"
  by (simp add: sound_step_def session_evolves_def)

lemma step_keeps:
  assumes "op_transaction op \<noteq> Some i"
  shows "holds i u r b x \<Longrightarrow> holds i u r b (owner_step P x op)"
    and "released i r x \<Longrightarrow> released i r (owner_step P x op)"
proof -
  let ?y = "owned (owner_step P x op)"
  have mono: "session_inv ?y \<and> i < next_transaction ?y \<and> r \<le> revision ?y"
    if "session_inv (owned x)" "i < next_transaction (owned x)" "r \<le> revision (owned x)"
    using sound_mono [OF owner_step_sound [OF that(1), of P op]] that by auto
  have same: "pending_session (owned x) = Some q" if "pending_session ?y = Some q" "pending_id q = i"
      "session_inv (owned x)" "i < next_transaction (owned x)" for q
    using pending_after_step [OF that(1)] that assms by simp
  show "holds i u r b x \<Longrightarrow> holds i u r b (owner_step P x op)"
    using mono same unfolding holds_def by blast
  show "released i r x \<Longrightarrow> released i r (owner_step P x op)"
    using mono same unfolding released_def by blast
qed

lemma interleave_keeps:
  assumes "spares E i"
  shows "holds i u r b x \<Longrightarrow> holds i u r b (interleave E x)"
    and "released i r x \<Longrightarrow> released i r (interleave E x)"
proof -
  have ops: "\<forall>op \<in> set (meanwhile E x). op_transaction op \<noteq> Some i" using assms by (simp add: spares_def)
  have "holds i u r b y \<Longrightarrow> holds i u r b (foldl (owner_step P) y ops)"
    "released i r y \<Longrightarrow> released i r (foldl (owner_step P) y ops)"
    if "\<forall>op \<in> set ops. op_transaction op \<noteq> Some i" for P y and ops :: "'a owner_op list"
    using that by (induction ops arbitrary: y) (auto intro: step_keeps)
  then show "holds i u r b x \<Longrightarrow> holds i u r b (interleave E x)" "released i r x \<Longrightarrow> released i r (interleave E x)"
    using ops by (auto simp: interleave_def)
qed

subsection \<open>The operations of a recovery\<close>

lemma runs_check_recovery:
  "spares E i \<Longrightarrow> runs (holds i u r b) (check_recovery E i) (\<lambda>_. holds i u r b) R"
  by (auto simp: runs_def check_recovery_def Let_def interleave_keeps)

text \<open>The calls of the service and the clock change the world only.\<close>

definition any_world :: "('w owner \<Rightarrow> bool) \<Rightarrow> bool" where
  "any_world P \<longleftrightarrow> (\<forall>x w. P x \<longrightarrow> P (x\<lparr>owner_world := w\<rparr>))"

lemma any_world_holds [simp]: "any_world (holds i u r b)"
  by (simp add: any_world_def)

lemma runs_call: "any_world P \<Longrightarrow> runs P (call_twitch f) (\<lambda>_. P) P"
  by (auto simp: runs_def call_twitch_def any_world_def split: prod.split option.split)

lemma runs_expiry:
  assumes "any_world P"
  shows "runs P (expiry E d) (\<lambda>_. P) P"
proof (cases "d = 0 \<or> 604800 * 1000000000 < d")
  case False
  have "runs P (andthen (call_twitch (twitch_now E)) (\<lambda>t y.
        (Some (if representable (platform_times E) (t + int d) then Ok (t + int d)
               else Err (delivery_error LeaseReconnect)), y))) (\<lambda>_. P) P"
    by (rule runs_andthen [OF runs_call [OF assms]]) (simp add: runs_def)
  moreover have "expiry E d = andthen (call_twitch (twitch_now E)) (\<lambda>t y.
        (Some (if representable (platform_times E) (t + int d) then Ok (t + int d)
               else Err (delivery_error LeaseReconnect)), y))"
    using False by (intro ext) (simp add: expiry_def)
  ultimately show ?thesis by simp
qed (auto simp: runs_def expiry_def)

lemma runs_apply_identity:
  assumes "any_world P"
  shows "runs P (apply_identity E v d)
     (\<lambda>res y. P y \<and> (\<forall>v2. res = Ok v2 \<longrightarrow> session_user_id v2 = session_user_id v \<and>
        refresh_token (credentials v2) = refresh_token (credentials v))) P"
proof (cases "identity_user_id d = session_user_id v")
  case True
  then have "apply_identity E v d = andthen (expiry E (identity_expires_in d)) (\<lambda>r y.
        (Some (and_then r (\<lambda>t.
           let v2 = v\<lparr>credentials := (credentials v)\<lparr>access_expires_at := t\<rparr>,
             session_login := identity_login d, session_scopes := identity_scopes d\<rparr> in
           map_err (\<lambda>_. delivery_error LeaseReconnect) (and_then (encode_twitch_session v2) (\<lambda>_. Ok v2)))), y))"
    by (intro ext) (simp add: apply_identity_def)
  moreover have "runs P \<dots>
     (\<lambda>res y. P y \<and> (\<forall>v2. res = Ok v2 \<longrightarrow> session_user_id v2 = session_user_id v \<and>
        refresh_token (credentials v2) = refresh_token (credentials v))) P"
    by (rule runs_andthen [OF runs_expiry [OF assms]]) (auto simp: runs_def Let_def)
  ultimately show ?thesis by simp
qed (auto simp: runs_def apply_identity_def)

text \<open>During the recovery a panic leaves the transaction at least not restorable.\<close>

lemma runs_panic: "runs P f Q (holds i u r b) \<Longrightarrow> runs P f Q (holds i u r False)"
  by (erule runs_weaken) (auto intro: holds_weaken)

lemmas runs_calls = runs_panic [OF runs_call [OF any_world_holds]] runs_panic [OF runs_expiry [OF any_world_holds]]
  runs_panic [OF runs_apply_identity [OF any_world_holds]]

lemma released_idle: "holds i u r b x \<Longrightarrow> check_transaction i (owned x) = Err e \<Longrightarrow> released i r x"
  by (auto simp: holds_def released_def session_inv_def check_transaction_def split: if_splits option.splits)

lemma discard_releases:
  assumes "holds i u r b x"
  shows "released i r (snd (discard_session i erase x))"
proof (cases "check_transaction i (owned x)")
  case (Inl e)
  then show ?thesis using released_idle [OF assms] by (simp add: discard_session_def)
next
  case (Inr p)
  then show ?thesis
    using assms sound_mono [OF sound_close(1), of "owned x"]
    by (auto simp: discard_session_def Let_def released_def holds_def)
qed

lemma restore_releases:
  assumes h: "holds i u r True x" and "session_user_id v = u" and enc: "is_ok (encode_twitch_session v)"
  shows "released i r (snd (restore_session i v x))"
proof (cases "check_transaction i (owned x)")
  case (Inl e)
  then show ?thesis using released_idle [OF h] by (simp add: restore_session_def check_identity_def)
next
  case (Inr p)
  then have p: "pending_session (owned x) = Some p" "\<not> stopping_session (owned x)" "pending_id p = i"
    "pending_user p = Some u" "restorable p"
    using h by (auto simp: check_transaction_Ok holds_def)
  obtain bytes where "encode_twitch_session v = Ok bytes" using enc by (auto simp: is_ok_iff)
  then have "owned (snd (restore_session i v x)) = (owned x)\<lparr>active := Some v, pending_session := None\<rparr>"
    using Inr p assms(2) by (simp add: restore_session_def check_identity_def require_def)
  moreover have "sound_step (owned x) ((owned x)\<lparr>active := Some v, pending_session := None\<rparr>)"
    using p h assms by (intro sound_restore) (auto simp: holds_def)
  ultimately show ?thesis
    using h sound_mono [of "owned x" "(owned x)\<lparr>active := Some v, pending_session := None\<rparr>"]
    by (auto simp: released_def holds_def)
qed

lemma runs_end_failed:
  fixes E :: "'w twitch_env"
  assumes "spares E (transaction_id t)" and "session_user_id (transaction_session t) = u"
    and "b \<longrightarrow> is_ok (encode_twitch_session (transaction_session t))"
  shows "runs (holds (transaction_id t) u r b) (end_failed_recovery E t e b erase) (answered (transaction_id t) r) R"
  unfolding runs_def
proof (intro allI impI)
  fix x :: "'w owner"
  assume "holds (transaction_id t) u r b x"
  then have h: "holds (transaction_id t) u r b (interleave E x)" by (rule interleave_keeps(1) [OF assms(1)])
  define act where "act = (if b then restore_session (transaction_id t) (transaction_session t) (interleave E x)
    else discard_session (transaction_id t) erase (interleave E x))"
  have "released (transaction_id t) r (snd act)"
    using h assms restore_releases discard_releases by (cases b) (simp_all add: act_def)
  then show "case end_failed_recovery E t e b erase x of (None, y) \<Rightarrow> R y | (Some v, y) \<Rightarrow> answered (transaction_id t) r v y"
    unfolding end_failed_recovery_def Let_def act_def [symmetric]
    by (cases act rule: prod.exhaust; cases "fst act") (auto simp: answered_def)
qed

lemma runs_end_failed': "spares E (transaction_id t) \<Longrightarrow> session_user_id (transaction_session t) = u \<Longrightarrow>
    b \<longrightarrow> is_ok (encode_twitch_session (transaction_session t)) \<Longrightarrow> c \<longrightarrow> b \<Longrightarrow>
    runs (holds (transaction_id t) u r b) (end_failed_recovery E t e c erase) (answered (transaction_id t) r) R"
  by (rule runs_weaken [OF runs_end_failed [of E t u c r e erase R]]) (auto simp: holds_def)

lemma runs_finish:
  fixes E :: "'w twitch_env"
  assumes "spares E (transaction_id t)"
  shows "runs (holds (transaction_id t) u r b) (finish_recovery E t) (answered (transaction_id t) r) R"
  unfolding runs_def
proof (intro allI impI)
  fix x :: "'w owner"
  let ?i = "transaction_id t"
  assume "holds ?i u r b x"
  then have h: "holds ?i u r b (interleave E x)" by (rule interleave_keeps(1) [OF assms(1)])
  obtain res y where c: "commit_session ?i (transaction_session t) (interleave E x) = (res, y)" by fastforce
  show "case finish_recovery E t x of (None, y) \<Rightarrow> R y | (Some v, y) \<Rightarrow> answered ?i r v y"
  proof (cases res)
    case (Inl e)
    then have "owned y = owned (interleave E x)" using commit_Err [of ?i "transaction_session t" "interleave E x" e y] c by simp
    then have "holds ?i u r b y" using h unfolding holds_def by simp
    then have "holds ?i u r b (interleave E y)" by (rule interleave_keeps(1) [OF assms])
    from discard_releases [OF this] show ?thesis
      using c Inl by (simp add: finish_recovery_def answered_def)
  next
    case (Inr s)
    let ?s = "owned (interleave E x)"
    have y: "owned y = ?s\<lparr>active := Some (transaction_session t), pending_session := None, revision := revision ?s + 1\<rparr>"
      and chk: "check_identity ?i (transaction_session t) ?s = Ok ()" "is_ok (encode_twitch_session (transaction_session t))"
      using commit_Ok [of ?i "transaction_session t" "interleave E x" s y] c Inr by auto
    obtain p where p: "pending_session ?s = Some p" "\<not> stopping_session ?s" using chk by (auto simp: check_identity_Ok)
    have "sound_step ?s (owned y)"
      unfolding y by (rule sound_commit [OF _ p chk(2)]) (use h in \<open>simp add: holds_def\<close>)
    moreover have "revision ?s < revision (owned y)"
      using y h chk succ_below_max [of "revision ?s"]
      by (auto simp: holds_def session_inv_def check_identity_Ok word_order.not_eq_extremum)
    ultimately have "released ?i (revision (owned y)) y" and more: "r < revision (owned y)"
      using h y by (auto simp: released_def holds_def sound_step_def session_evolves_def less_imp_le)
    then have z: "released ?i (revision (owned y)) (interleave E y)" by (intro interleave_keeps(2) [OF assms])
    obtain a w where a: "acquire E y = (a, w)" by fastforce
    then have "released ?i r w" "\<forall>l. a = Ok l \<longrightarrow> r < lease_revision l"
      using \<open>released ?i (revision (owned y)) y\<close> z more
      by (auto simp: acquire_def Let_def released_def lease_of_def split: if_splits option.splits)
    then show ?thesis using c Inr a by (simp add: finish_recovery_def answered_def)
  qed
qed

lemma runs_guard:
  assumes "spares E (transaction_id t)" and "session_user_id (transaction_session t) = u"
    and "c \<longrightarrow> is_ok (encode_twitch_session (transaction_session t))"
    and "runs (holds (transaction_id t) u r c) k (answered (transaction_id t) r) (holds (transaction_id t) u r False)"
  shows "runs (holds (transaction_id t) u r c) (guard_recovery E t c k) (answered (transaction_id t) r)
     (holds (transaction_id t) u r False)"
  unfolding guard_recovery_def
  using assms by (intro runs_andthen [OF runs_check_recovery]) (auto intro: runs_end_failed split: sum.split)

lemma runs_adopt_identity:
  assumes "spares E (transaction_id t)" and "session_user_id (transaction_session t) = u"
  shows "runs (holds (transaction_id t) u r b) (adopt_identity E t d) (answered (transaction_id t) r)
     (holds (transaction_id t) u r False)"
  unfolding adopt_identity_def
proof (rule runs_andthen [OF runs_calls(3)])
  fix res
  show "runs (\<lambda>y. holds (transaction_id t) u r b y \<and> (\<forall>v2. res = Ok v2 \<longrightarrow>
        session_user_id v2 = session_user_id (transaction_session t) \<and>
        refresh_token (credentials v2) = refresh_token (credentials (transaction_session t))))
      (case res of Inl e \<Rightarrow> end_failed_recovery E t e False True
       | Inr v \<Rightarrow> finish_recovery E (t\<lparr>transaction_session := v\<rparr>))
      (answered (transaction_id t) r) (holds (transaction_id t) u r False)"
  proof (cases res)
    case (Inl e)
    have "runs (holds (transaction_id t) u r False) (end_failed_recovery E t e False True) (answered (transaction_id t) r)
      (holds (transaction_id t) u r False)" using assms by (intro runs_end_failed) auto
    then show ?thesis using Inl by (auto intro: runs_weaken holds_weaken)
  next
    case (Inr v)
    have "runs (holds (transaction_id t) u r b) (finish_recovery E (t\<lparr>transaction_session := v\<rparr>))
      (answered (transaction_id t) r) (holds (transaction_id t) u r False)"
      using runs_finish [of E "t\<lparr>transaction_session := v\<rparr>" u r b] assms by simp
    then show ?thesis using Inr by (auto intro: runs_weaken)
  qed
qed

lemma runs_confirm_grant:
  fixes E :: "'w twitch_env"
  assumes E: "spares E (transaction_id t)" and u: "session_user_id (transaction_session t) = u"
  shows "runs (holds (transaction_id t) u r False) (confirm_grant E t) (answered (transaction_id t) r)
     (holds (transaction_id t) u r False)"
  unfolding runs_def
proof (intro allI impI)
  fix x :: "'w owner"
  let ?i = "transaction_id t"
  assume "holds ?i u r False x"
  then have h: "holds ?i u r False (interleave E x)" by (rule interleave_keeps(1) [OF E])
  obtain res y where p: "persist_pending ?i (transaction_session t) (interleave E x) = (res, y)" by fastforce
  have y: "holds ?i u r False y"
  proof (cases "owned y = owned (interleave E x)")
    case False
    then obtain p where q: "pending_session (owned (interleave E x)) = Some p" "pending_id p = ?i"
      "owned y = (owned (interleave E x))\<lparr>pending_session := Some (p\<lparr>restorable := False\<rparr>)\<rparr>"
      using p persist_pending_state [of ?i "transaction_session t" "interleave E x"] by auto
    then show ?thesis
      using h sound_mono [OF sound_pin [OF _ q(1)]] unfolding holds_def q(3) by auto
  qed (use h in \<open>simp add: holds_def\<close>)
  have a: "runs (holds ?i u r False) (end_failed_recovery E t e False False) (answered ?i r) (holds ?i u r False)" for e
    using E u by (intro runs_end_failed) auto
  have k: "runs (holds ?i u r False)
      (case replacement of Err e \<Rightarrow> end_failed_recovery E t (request_failed e) False True | Ok d \<Rightarrow> adopt_identity E t d)
      (answered ?i r) (holds ?i u r False)" for replacement
    using E u by (cases replacement) (auto intro: runs_end_failed runs_adopt_identity)
  have "runs (holds ?i u r False)
      (guard_recovery E t False
        (andthen (call_twitch (validate_access_token E (access_token (credentials (transaction_session t)))))
           (\<lambda>replacement. guard_recovery E t False
              (case replacement of Err e \<Rightarrow> end_failed_recovery E t (request_failed e) False True
               | Ok d \<Rightarrow> adopt_identity E t d)))) (answered ?i r) (holds ?i u r False)"
    by (intro runs_guard runs_andthen [OF runs_calls(1)] E u k) simp_all
  with a y p show "case confirm_grant E t x of (None, y) \<Rightarrow> holds ?i u r False y | (Some v, y) \<Rightarrow> answered ?i r v y"
    unfolding confirm_grant_def p by (cases res) (auto simp: runs_def)
qed

lemma granted_transaction_simps [simp]:
  "transaction_id (granted_transaction t g e) = transaction_id t"
  "session_user_id (transaction_session (granted_transaction t g e)) = session_user_id (transaction_session t)"
  "refresh_token (credentials (transaction_session (granted_transaction t g e))) = grant_refresh g"
  by (simp_all add: granted_transaction_def)

lemma runs_adopt_grant:
  assumes E: "spares E (transaction_id t)" and u: "session_user_id (transaction_session t) = u"
  shows "runs (holds (transaction_id t) u r False) (adopt_grant E t g) (answered (transaction_id t) r)
     (holds (transaction_id t) u r False)"
proof -
  have k: "runs (holds (transaction_id t) u r False)
      (case res of Err e \<Rightarrow> end_failed_recovery E t e False True
       | Ok exp \<Rightarrow> confirm_grant E (granted_transaction t g exp))
      (answered (transaction_id t) r) (holds (transaction_id t) u r False)" for res
  proof (cases res)
    case (Inr exp)
    then show ?thesis using runs_confirm_grant [of E "granted_transaction t g exp" u r] E u by simp
  qed (use E u in \<open>auto intro: runs_end_failed\<close>)
  show ?thesis
    unfolding adopt_grant_def by (intro runs_guard runs_andthen [OF runs_calls(2)] E u k) simp_all
qed

lemma runs_False: "runs (holds i u r False) f Q R \<Longrightarrow> runs (holds i u r b) f Q R"
  by (erule runs_weaken) (auto intro: holds_weaken)

lemma runs_rotate:
  assumes E: "spares E (transaction_id t)" and u: "session_user_id (transaction_session t) = u"
    and enc: "is_ok (encode_twitch_session (transaction_session t))"
  shows "runs (holds (transaction_id t) u r True) (rotate_session E t) (answered (transaction_id t) r)
     (holds (transaction_id t) u r False)"
proof -
  have k: "runs (holds (transaction_id t) u r True)
      (case res of
         Err e \<Rightarrow> (let restore = restorable_failure (disposition e) in
           end_failed_recovery E t (request_failed e) restore (\<not> restore))
       | Ok g \<Rightarrow> adopt_grant E t g)
      (answered (transaction_id t) r) (holds (transaction_id t) u r False)" for res
    using E u enc by (cases res) (auto simp: Let_def intro: runs_end_failed' runs_False runs_adopt_grant)
  show ?thesis
    unfolding rotate_session_def by (intro runs_guard runs_andthen [OF runs_calls(1)] E u k) (simp add: enc)
qed

lemma runs_recover_current:
  assumes E: "spares E (transaction_id t)" and u: "session_user_id (transaction_session t) = u"
    and enc: "is_ok (encode_twitch_session (transaction_session t))"
  shows "runs (holds (transaction_id t) u r True) (recover_current E t) (answered (transaction_id t) r)
     (holds (transaction_id t) u r False)"
proof -
  have k: "runs (holds (transaction_id t) u r True)
      (case res of
         Ok d \<Rightarrow> adopt_identity E t d
       | Err e \<Rightarrow>
           if disposition e \<noteq> DisposeReconnect
           then end_failed_recovery E t (request_failed e) (restorable_failure (disposition e)) False
           else rotate_session E t)
      (answered (transaction_id t) r) (holds (transaction_id t) u r False)" for res
    using E u enc by (cases res) (auto intro: runs_end_failed' runs_False runs_adopt_identity runs_rotate)
  show ?thesis
    unfolding recover_current_def
    by (intro runs_guard runs_andthen [OF runs_calls(1)] E u k) (simp_all add: enc)
qed

section \<open>The old token\<close>

definition brings :: "'w owner_op \<Rightarrow> twitch_session \<Rightarrow> bool" where
  "brings op v \<longleftrightarrow> (\<exists>i. op = CommitSession i v \<or> op = RestoreSession i v)"

definition without :: "string \<Rightarrow> 'w owner \<Rightarrow> bool" where
  "without old x \<longleftrightarrow> (\<forall>v. active (owned x) = Some v \<longrightarrow> refresh_token (credentials v) \<noteq> old)"

lemma active_after_step:
  assumes "active (owned (owner_step P x op)) = Some v"
  shows "active (owned x) = Some v \<or> brings op v"
proof (cases op)
  case CheckoutSaved
  then show ?thesis using assms checkout_saved_state [of P x] by (auto simp: start_transaction_def)
next
  case (CommitSession i w)
  then show ?thesis using assms commit_state [of i w x] by (auto simp: brings_def)
next
  case (PersistPending i w)
  then show ?thesis using assms persist_pending_state [of i w x] by auto
next
  case (StartRecovery l)
  then show ?thesis using assms start_recovery_cases [of l x] by (auto simp: start_transaction_def)
qed (use assms in \<open>auto simp: brings_def begin_new_def reserve_new_def checkout_active_def restore_session_def
      discard_session_def erase_saved_def shutdown_owner_def start_transaction_def Let_def
      split: sum.splits if_splits option.splits prod.splits\<close>)

lemma interleave_without:
  assumes "\<forall>x. \<forall>op \<in> set (meanwhile E x). \<forall>v. brings op v \<longrightarrow> refresh_token (credentials v) \<noteq> old"
    and "without old x"
  shows "without old (interleave E x)"
proof -
  have step: "without old (owner_step P y op)"
    if "\<forall>v. brings op v \<longrightarrow> refresh_token (credentials v) \<noteq> old" "without old y" for P op and y :: "'a owner"
    unfolding without_def
  proof (intro allI impI)
    fix v
    assume "active (owned (owner_step P y op)) = Some v"
    from active_after_step [OF this] show "refresh_token (credentials v) \<noteq> old"
      using that unfolding without_def by blast
  qed
  have "without old (foldl (owner_step P) y ops)"
    if "\<forall>op \<in> set ops. \<forall>v. brings op v \<longrightarrow> refresh_token (credentials v) \<noteq> old" "without old y" for P y and ops :: "'a owner_op list"
    using that by (induction ops arbitrary: y) (simp_all add: step)
  then show ?thesis using assms unfolding interleave_def by blast
qed

lemma without_owned: "owned y = owned x \<Longrightarrow> without old y = without old x"
  by (simp add: without_def)

lemma without_step: "without old x \<Longrightarrow> (\<And>v. brings op v \<Longrightarrow> refresh_token (credentials v) \<noteq> old) \<Longrightarrow>
    without old (owner_step P x op)"
  using active_after_step [of P x op] unfolding without_def by blast

text \<open>An environment in which no other thread brings a session with the old token.\<close>

definition forgets :: "'w twitch_env \<Rightarrow> string \<Rightarrow> bool" where
  "forgets E old \<longleftrightarrow>
     (\<forall>x. \<forall>op \<in> set (meanwhile E x). \<forall>v. brings op v \<longrightarrow> refresh_token (credentials v) \<noteq> old)"

lemma interleave_forgets: "forgets E old \<Longrightarrow> without old x \<Longrightarrow> without old (interleave E x)"
  by (rule interleave_without) (simp_all add: forgets_def)

lemma any_world_without [simp]: "any_world (without old)"
  by (simp add: any_world_def without_def)

lemma without_check: "forgets E old \<Longrightarrow> runs (without old) (check_recovery E i) (\<lambda>_. without old) (without old)"
  by (auto simp: runs_def check_recovery_def Let_def interleave_forgets)

lemma without_discard: "without old x \<Longrightarrow> without old (snd (discard_session i b x))"
  using without_step [of old x "DiscardSession i b"] by (simp add: brings_def)

lemma without_end_failed:
  fixes E :: "'w twitch_env"
  assumes "forgets E old"
  shows "runs (without old) (end_failed_recovery E t e False erase) (\<lambda>_. without old) (without old)"
  unfolding runs_def
proof (intro allI impI)
  fix x :: "'w owner"
  assume "without old x"
  then have d: "without old (snd (discard_session (transaction_id t) erase (interleave E x)))"
    by (intro without_discard interleave_forgets [OF assms])
  then show "case end_failed_recovery E t e False erase x of (None, y) \<Rightarrow> without old y | (Some v, y) \<Rightarrow> without old y"
    by (cases "discard_session (transaction_id t) erase (interleave E x)" rule: prod.exhaust;
        cases "fst (discard_session (transaction_id t) erase (interleave E x))")
      (auto simp: end_failed_recovery_def)
qed

lemma without_acquire: "forgets E old \<Longrightarrow> without old x \<Longrightarrow> without old (snd (acquire E x))"
  by (auto simp: acquire_def Let_def interleave_forgets)

lemma without_finish:
  fixes E :: "'w twitch_env"
  assumes E: "forgets E old" and t: "refresh_token (credentials (transaction_session t)) \<noteq> old"
  shows "runs (without old) (finish_recovery E t) (\<lambda>_. without old) (without old)"
  unfolding runs_def
proof (intro allI impI)
  fix x :: "'w owner"
  assume "without old x"
  then have i: "without old (interleave E x)" by (rule interleave_forgets [OF E])
  obtain res y where c: "commit_session (transaction_id t) (transaction_session t) (interleave E x) = (res, y)" by fastforce
  have "without old (owner_step P (interleave E x) (CommitSession (transaction_id t) (transaction_session t)))" for P
    using i t by (intro without_step) (auto simp: brings_def)
  then have y: "without old y" by (simp add: c)
  then have "without old (snd (discard_session (transaction_id t) False (interleave E y)))" "without old (snd (acquire E y))"
    using E by (auto intro: without_discard interleave_forgets without_acquire)
  then show "case finish_recovery E t x of (None, y) \<Rightarrow> without old y | (Some v, y) \<Rightarrow> without old y"
    by (cases res; cases "acquire E y") (auto simp: finish_recovery_def c)
qed

lemma without_guard:
  assumes "forgets E old" and "runs (without old) k (\<lambda>_. without old) (without old)"
  shows "runs (without old) (guard_recovery E t False k) (\<lambda>_. without old) (without old)"
  unfolding guard_recovery_def
  using assms by (intro runs_andthen [OF without_check]) (auto intro: without_end_failed split: sum.split)

lemma without_adopt_identity:
  assumes E: "forgets E old" and t: "refresh_token (credentials (transaction_session t)) \<noteq> old"
  shows "runs (without old) (adopt_identity E t d) (\<lambda>_. without old) (without old)"
  unfolding adopt_identity_def
proof (rule runs_andthen [OF runs_apply_identity [OF any_world_without]])
  fix res
  show "runs (\<lambda>y. without old y \<and> (\<forall>v2. res = Ok v2 \<longrightarrow>
        session_user_id v2 = session_user_id (transaction_session t) \<and>
        refresh_token (credentials v2) = refresh_token (credentials (transaction_session t))))
      (case res of Inl e \<Rightarrow> end_failed_recovery E t e False True
       | Inr v \<Rightarrow> finish_recovery E (t\<lparr>transaction_session := v\<rparr>)) (\<lambda>_. without old) (without old)"
  proof (cases res)
    case (Inl e)
    have "runs (without old) (end_failed_recovery E t e False True) (\<lambda>_. without old) (without old)"
      by (rule without_end_failed [OF E])
    then show ?thesis using Inl by (auto intro: runs_weaken)
  next
    case (Inr v)
    show ?thesis
    proof (cases "refresh_token (credentials v) = refresh_token (credentials (transaction_session t))")
      case True
      then have "runs (without old) (finish_recovery E (t\<lparr>transaction_session := v\<rparr>)) (\<lambda>_. without old) (without old)"
        using t by (intro without_finish [OF E]) simp
      then show ?thesis using Inr by (auto intro: runs_weaken)
    qed (simp add: Inr runs_def)
  qed
qed

lemma without_confirm_grant:
  fixes E :: "'w twitch_env"
  assumes E: "forgets E old" and t: "refresh_token (credentials (transaction_session t)) \<noteq> old"
  shows "runs (without old) (confirm_grant E t) (\<lambda>_. without old) (without old)"
  unfolding runs_def
proof (intro allI impI)
  fix x :: "'w owner"
  assume "without old x"
  then have i: "without old (interleave E x)" by (rule interleave_forgets [OF E])
  obtain res y where p: "persist_pending (transaction_id t) (transaction_session t) (interleave E x) = (res, y)" by fastforce
  have "without old (owner_step P (interleave E x) (PersistPending (transaction_id t) (transaction_session t)))" for P
    using i by (intro without_step) (auto simp: brings_def)
  then have y: "without old y" by (simp add: p)
  have k: "runs (without old)
      (case r of Err e \<Rightarrow> end_failed_recovery E t (request_failed e) False True | Ok d \<Rightarrow> adopt_identity E t d)
      (\<lambda>_. without old) (without old)" for r
    using E t by (cases r) (auto intro: without_end_failed without_adopt_identity)
  have "runs (without old)
      (guard_recovery E t False
        (andthen (call_twitch (validate_access_token E (access_token (credentials (transaction_session t)))))
           (\<lambda>r. guard_recovery E t False
              (case r of Err e \<Rightarrow> end_failed_recovery E t (request_failed e) False True
               | Ok d \<Rightarrow> adopt_identity E t d)))) (\<lambda>_. without old) (without old)"
    by (intro without_guard runs_andthen [OF runs_call [OF any_world_without]] E k)
  with y without_end_failed [OF E]
  show "case confirm_grant E t x of (None, y) \<Rightarrow> without old y | (Some v, y) \<Rightarrow> without old y"
    unfolding confirm_grant_def p by (cases res) (auto simp: runs_def)
qed

lemma runs_adopt_grant_without:
  assumes E: "forgets E old" and g: "grant_refresh g \<noteq> old"
  shows "runs (without old) (adopt_grant E t g) (\<lambda>_. without old) (without old)"
proof -
  have k: "runs (without old)
      (case res of Err e \<Rightarrow> end_failed_recovery E t e False True
       | Ok exp \<Rightarrow> confirm_grant E (granted_transaction t g exp))
      (\<lambda>_. without old) (without old)" for res
    using E g by (cases res) (auto intro: without_end_failed without_confirm_grant)
  show ?thesis
    unfolding adopt_grant_def by (intro without_guard runs_andthen [OF runs_expiry [OF any_world_without]] E k)
qed

lemma started_holds:
  assumes "session_inv (owned x)" and "start_recovery l x = (Started t, y)"
  shows "holds (transaction_id t) (session_user_id (transaction_session t)) (lease_revision l) True y"
    and "is_ok (encode_twitch_session (transaction_session t))"
proof -
  from start_recovery_cases [of l x] assms(2) obtain v where
    v: "active (owned x) = Some v" "owner_idle (owned x) = Ok ()" "lease_revision l = revision (owned x)"
    and t: "t = fst (start_transaction v True ((owned x)\<lparr>active := None\<rparr>))"
    and y: "y = x\<lparr>owned := snd (start_transaction v True ((owned x)\<lparr>active := None\<rparr>))\<rparr>"
    by auto
  have "sound_step (owned x) (owned y)"
    using open_transaction [OF assms(1) v(2), of True v] v by (simp add: y)
  then have "session_inv (owned y)" by (simp add: sound_step_def)
  moreover have "next_transaction (owned x) < next_transaction (owned x) + 1"
    using v(2) succ_below_max [of "next_transaction (owned x)"] by (simp add: owner_idle_Ok)
  ultimately show "holds (transaction_id t) (session_user_id (transaction_session t)) (lease_revision l) True y"
    by (simp add: holds_def t y start_transaction_def v(3))
  show "is_ok (encode_twitch_session (transaction_session t))"
    using assms(1) v(1) by (simp add: t start_transaction_def session_inv_def)
qed

lemma interleave_inv: "session_inv (owned x) \<Longrightarrow> session_inv (owned (interleave E x))"
  unfolding interleave_def by (rule owner.run_inv)

section \<open>Properties\<close>

text \<open>
  C14: A recovery always gives its transaction back. When it has taken the active session out and the
  other threads do not use the number of its transaction, then however the service answers, whatever
  the other threads do between its steps, whether the stop is requested, the configuration fails or a
  call panics, its transaction is no longer pending when it returns, so the session is not stuck in the
  state \<open>Updating\<close>; the invariant of the owner holds; and a lease that it returns is newer than the
  rejected one, so the caller does not get the same rejected token again.
\<close>

theorem recovery_ends_its_transaction:
  assumes "session_inv (owned x0)" and "\<not> stop_requested E (owner_world x0)"
    and "start_recovery rejected (interleave E x0) = (Started t, x1)" and "spares E (transaction_id t)"
    and "recover E rejected x0 = (r, x)"
  shows "session_inv (owned x) \<and> (\<forall>p. pending_session (owned x) = Some p \<longrightarrow> pending_id p \<noteq> transaction_id t) \<and>
    lease_revision rejected \<le> revision (owned x) \<and> (\<forall>l. r = Ok l \<longrightarrow> lease_revision rejected < lease_revision l)"
proof -
  let ?i = "transaction_id t"
  note h = started_holds [OF interleave_inv [OF assms(1)] assms(3)]
  obtain res y where c: "recover_current E t x1 = (res, y)" by fastforce
  note run = runsD [OF runs_recover_current [OF assms(4) refl h(2)] h(1) c]
  have "answered ?i (lease_revision rejected) r x"
  proof (cases res)
    case None
    then have "holds ?i (session_user_id (transaction_session t)) (lease_revision rejected) False y" using run by simp
    from discard_releases [OF interleave_keeps(1) [OF assms(4) this]] show ?thesis
      using assms(2,3,5) c None by (auto simp: recover_def answered_def)
  next
    case (Some v)
    then show ?thesis using run assms(2,3,5) c by (simp add: recover_def)
  qed
  then show ?thesis by (auto simp: answered_def released_def)
qed

text \<open>
  C15: After a granted rotation the old session never comes back. Once the service has granted new
  tokens, the end of the recovery, however it goes (errors, a stop request, a failed save, panics), never
  puts a session with the old refresh token back as the active one, as long as the other threads do not
  bring it themselves. The service may have invalidated that token, so it must not be used again.
\<close>

theorem rotated_token_stays_out:
  assumes "\<And>v. active (owned x) = Some v \<Longrightarrow> refresh_token (credentials v) \<noteq> old"
    and "grant_refresh g \<noteq> old"
    and "\<And>y op i v. op \<in> set (meanwhile E y) \<Longrightarrow> op = CommitSession i v \<or> op = RestoreSession i v \<Longrightarrow>
      refresh_token (credentials v) \<noteq> old"
  shows "\<forall>w. active (owned (snd (adopt_grant E t g x))) = Some w \<longrightarrow> refresh_token (credentials w) \<noteq> old"
proof -
  have "forgets E old" using assms(3) unfolding forgets_def brings_def by blast
  moreover have "without old x" using assms(1) by (simp add: without_def)
  ultimately have "without old (snd (adopt_grant E t g x))"
    using runs_adopt_grant_without [of E old g t] assms(2)
    by (cases "adopt_grant E t g x" rule: prod.exhaust; cases "fst (adopt_grant E t g x)") (auto simp: runs_def)
  then show ?thesis by (simp add: without_def)
qed

text \<open>A concrete service: the first token is rejected, and a refresh grants the second one.\<close>

definition sample_session :: "string \<Rightarrow> string \<Rightarrow> int \<Rightarrow> twitch_session" where
  "sample_session a r n =
     \<lparr>credentials = \<lparr>access_token = a, refresh_token = r, access_expires_at = n * 1000000000\<rparr>,
      session_user_id = ''42'', session_login = ''manny'', session_scopes = [twitch_chat_scope]\<rparr>"

definition sample_env :: "string twitch_env" where
  "sample_env =
     \<lparr>validate_access_token = (\<lambda>t w.
        (Some (if t = ''a1'' then Err \<lparr>failed_operation = TwitchValidate, twitch_code = HttpStatusFailed,
                 disposition = DisposeReconnect, twitch_retry_after = None, twitch_http_error = None,
                 twitch_http_status = Some 401\<rparr>
               else Ok \<lparr>identity_user_id = ''42'', identity_login = ''manny'', identity_expires_in = 3600 * 1000000000,
                 identity_scopes = [twitch_chat_scope]\<rparr>), w)),
      refresh_access_token = (\<lambda>t w.
        (Some (Ok \<lparr>grant_access = ''a2'', grant_refresh = ''r2'', grant_expires_in = 3600 * 1000000000,
           grant_scopes = [twitch_chat_scope]\<rparr>), w)),
      twitch_now = (\<lambda>w. (Some (1700000000 * 1000000000), w)),
      stop_requested = (\<lambda>w. False), meanwhile = (\<lambda>x. []),
      platform_times = \<lparr>earliest = 0, latest = 10 ^ 21\<rparr>\<rparr>"

definition sample_owner :: "string owner" where
  "sample_owner =
     \<lparr>owned = \<lparr>active = Some (sample_session ''a1'' ''r1'' 1700000000), pending_session = None, revision = 1,
        next_transaction = 2, stopping_session = False\<rparr>,
      owner_conf = \<lparr>settings_port = \<lparr>port_load = (\<lambda>w. (Err (SettingsInvalidValues []), w)),
          port_save = (\<lambda>s w. (Ok (), w))\<rparr>,
        secrets_port = Some \<lparr>port_mode = NativeUserScoped,
          port_load_secret = (\<lambda>i w. (Ok w, w)), port_store_secret = (\<lambda>i v w. (Ok (), v)),
          port_erase_secret = (\<lambda>i w. (Ok (), ''''))\<rparr>,
        snap = \<lparr>snap_settings = new_settings ''logs'', snap_source = Defaults, snap_recovery = None,
          snap_storage = \<lparr>storage_state = StorageAvailable, storage_mode = None, storage_error = None,
            storage_system_error = None\<rparr>, snap_revision = 1, snap_shutting_down = False\<rparr>\<rparr>,
      conf_poisoned = False, owner_world = ''''\<rparr>"

lemma sample_session_ok: "a \<in> {''a1'', ''a2''} \<Longrightarrow> r \<in> {''r1'', ''r2''} \<Longrightarrow> n \<in> {1700000000, 1700003600} \<Longrightarrow>
    session_ok (sample_session a r n)"
  by (auto simp: session_ok_def sample_session_def valid_twitch_token_def valid_twitch_user_id_def
      valid_twitch_login_def max_twitch_token_bytes_def max_unix_seconds_def max_twitch_session_bytes_def
      max_secret_bytes_def parse_unsigned_def parse_digits_def dec_value_def byte_class_defs)

lemma sample_encodes:
  assumes "a \<in> {''a1'', ''a2''}" and "r \<in> {''r1'', ''r2''}" and "n \<in> {1700000000, 1700003600}"
  obtains b where "encode_twitch_session (sample_session a r n) = Ok b"
  using sample_session_ok [OF assms] that by (simp add: encode_session_iff)

lemma sample_owner_inv: "session_inv (owned sample_owner)"
  by (rule sample_encodes [of "''a1''" "''r1''" 1700000000])
    (simp_all add: sample_owner_def session_inv_def)

abbreviation sample_lease :: twitch_delivery_session where
  "sample_lease \<equiv> \<lparr>lease_token = ''a1'', lease_user_id = ''42'', lease_revision = 1\<rparr>"

lemmas sample_evals = sample_env_def sample_owner_def interleave_def start_recovery_def owner_idle_def
  start_transaction_def Let_def recover_def recover_current_def rotate_session_def adopt_grant_def
  confirm_grant_def guard_recovery_def andthen_def check_recovery_def check_transaction_def call_twitch_def
  expiry_def representable_def granted_transaction_def persist_pending_def check_identity_def
  persist_session_def with_configuration_def config_store_secret_def with_secrets_def config_running_def
  adopt_identity_def apply_identity_def finish_recovery_def commit_session_def acquire_def lease_of_def
  restorable_failure_def require_def

lemma sample_recovery:
  "start_recovery sample_lease (interleave sample_env sample_owner) =
     (Started \<lparr>transaction_id = 2, transaction_session = sample_session ''a1'' ''r1'' 1700000000\<rparr>,
      sample_owner\<lparr>owned := \<lparr>active = None, pending_session = Some \<lparr>pending_id = 2, pending_user = Some ''42'',
        restorable = True\<rparr>, revision = 1, next_transaction = 3, stopping_session = False\<rparr>\<rparr>)"
  by (simp add: sample_evals sample_session_def)

text \<open>Here the rotation succeeds: the caller gets the new token, and the new session is active.\<close>

lemma sample_result:
  "fst (recover sample_env sample_lease sample_owner) =
     Ok \<lparr>lease_token = ''a2'', lease_user_id = ''42'', lease_revision = 2\<rparr>"
proof -
  obtain b where "encode_twitch_session (sample_session ''a2'' ''r2'' 1700003600) = Ok b"
    by (rule sample_encodes [of "''a2''" "''r2''" 1700003600]) simp_all
  then show ?thesis by (simp add: sample_evals sample_session_def)
qed

theorem recovery_ends_its_transaction_witness:
  "fst (recover sample_env sample_lease sample_owner) =
     Ok \<lparr>lease_token = ''a2'', lease_user_id = ''42'', lease_revision = 2\<rparr> \<and>
   session_inv (owned (snd (recover sample_env sample_lease sample_owner))) \<and>
   1 \<le> revision (owned (snd (recover sample_env sample_lease sample_owner)))"
proof -
  have "\<not> stop_requested sample_env (owner_world sample_owner)" "spares sample_env 2"
    by (simp_all add: sample_env_def spares_def)
  then have "session_inv (owned (snd (recover sample_env sample_lease sample_owner)))"
    "lease_revision sample_lease \<le> revision (owned (snd (recover sample_env sample_lease sample_owner)))"
    using recovery_ends_its_transaction [OF sample_owner_inv _ sample_recovery, of
      "fst (recover sample_env sample_lease sample_owner)" "snd (recover sample_env sample_lease sample_owner)"]
    by auto
  then show ?thesis using sample_result by simp
qed

theorem rotated_token_stays_out_witness:
  "let x = sample_owner\<lparr>owned := \<lparr>active = None, pending_session = Some \<lparr>pending_id = 2, pending_user = Some ''42'',
        restorable = True\<rparr>, revision = 1, next_transaction = 3, stopping_session = False\<rparr>\<rparr>;
       t = \<lparr>transaction_id = 2, transaction_session = sample_session ''a1'' ''r1'' 1700000000\<rparr>;
       g = \<lparr>grant_access = ''a2'', grant_refresh = ''r2'', grant_expires_in = 3600 * 1000000000,
         grant_scopes = [twitch_chat_scope]\<rparr> in
   \<exists>w. active (owned (snd (adopt_grant sample_env t g x))) = Some w \<and> refresh_token (credentials w) \<noteq> ''r1''"
proof -
  let ?x = "sample_owner\<lparr>owned := \<lparr>active = None, pending_session = Some \<lparr>pending_id = 2, pending_user = Some ''42'',
        restorable = True\<rparr>, revision = 1, next_transaction = 3, stopping_session = False\<rparr>\<rparr>"
  let ?t = "\<lparr>transaction_id = 2, transaction_session = sample_session ''a1'' ''r1'' 1700000000\<rparr> :: session_transaction"
  let ?g = "\<lparr>grant_access = ''a2'', grant_refresh = ''r2'', grant_expires_in = 3600 * 1000000000,
         grant_scopes = [twitch_chat_scope]\<rparr>"
  obtain b where "encode_twitch_session (sample_session ''a2'' ''r2'' 1700003600) = Ok b"
    by (rule sample_encodes [of "''a2''" "''r2''" 1700003600]) simp_all
  then have "active (owned (snd (adopt_grant sample_env ?t ?g ?x))) = Some (sample_session ''a2'' ''r2'' 1700003600)"
    by (simp add: sample_evals sample_session_def)
  moreover from this have "refresh_token (credentials (sample_session ''a2'' ''r2'' 1700003600)) \<noteq> ''r1''"
    using rotated_token_stays_out [of ?x "''r1''" ?g sample_env ?t] by (simp add: sample_env_def)
  ultimately show ?thesis by (simp add: Let_def)
qed

end
