(* ===== verification/Http_Response.thy ===== *)
theory Http_Response
  imports Http
begin

text \<open>
  The collector of a response (\<open>rust/src/http/response.rs\<close>): the backend hands over complete header lines
  and arbitrary pieces of the body; nothing of a failed response gets out.

  \<open>stop k\<close> is the answer of the \<open>k\<close>-th check of the stop token within one call. The body is reserved
  once, before its first byte, so it has no capacity exactly while it is empty; \<open>reserve\<close> says whether an
  allocation of this size succeeds.
\<close>

section \<open>Model\<close>

record response_collector =
  collect_limits :: http_response_limits
  header_bytes :: nat
  collect_headers :: "http_header list"
  collect_body :: string
  collect_status :: "nat option"
  headers_ended :: bool
  collect_failure :: "http_error option"

type_synonym 'a collected = "(http_error, 'a) result \<times> response_collector"

definition new_collector :: "http_response_limits \<Rightarrow> (http_error, response_collector) result" where
  "new_collector l =
     (if \<not> (1 \<le> max_header_bytes l \<and> max_header_bytes l \<le> max_http_response_header_bytes) \<or>
        \<not> (1 \<le> max_body_bytes l \<and> max_body_bytes l \<le> max_http_response_body_bytes)
      then Err (http_error_of HttpInvalidRequest)
      else Ok \<lparr>collect_limits = l, header_bytes = 0, collect_headers = [], collect_body = [],
        collect_status = None, headers_ended = False, collect_failure = None\<rparr>)"

definition fail_collector :: "http_error_code \<Rightarrow> response_collector \<Rightarrow> 'a collected" where
  "fail_collector code c =
     (let e = (case collect_failure c of Some e \<Rightarrow> e | None \<Rightarrow> http_error_of code) in
      (Err e, c\<lparr>collect_failure := Some e, collect_headers := [], collect_body := []\<rparr>))"

definition check_collector :: "bool \<Rightarrow> response_collector \<Rightarrow> unit collected" where
  "check_collector stop c =
     (case collect_failure c of
        Some e \<Rightarrow> (Err e, c)
      | None \<Rightarrow> if stop then fail_collector HttpCancelled c else (Ok (), c))"

definition strip_last :: "char \<Rightarrow> string \<Rightarrow> string option" where
  "strip_last x s = (if s \<noteq> [] \<and> last s = x then Some (butlast s) else None)"

definition header_line_of :: "string \<Rightarrow> string option" where
  "header_line_of s =
     map_option (\<lambda>l. case strip_last (CHR 0x0D) l of Some l2 \<Rightarrow> l2 | None \<Rightarrow> l) (strip_last (CHR 0x0A) s)"

definition is_ascii_whitespace :: "char \<Rightarrow> bool" where
  "is_ascii_whitespace c \<longleftrightarrow> byte c \<in> {9, 10, 12, 13, 32}"

definition trim_ascii :: "string \<Rightarrow> string" where
  "trim_ascii s = rev (dropWhile is_ascii_whitespace (rev (dropWhile is_ascii_whitespace s)))"

text \<open>The status of a status line.\<close>

definition parse_status :: "string \<Rightarrow> nat option" where
  "parse_status line =
     (case split_once (CHR '' '') line of
        None \<Rightarrow> None
      | Some (version, rest) \<Rightarrow>
          if version \<notin> {''HTTP/1.0'', ''HTTP/1.1'', ''HTTP/2'', ''HTTP/3''} \<or> length rest < 3 \<or>
            \<not> list_all is_digit (take 3 rest) \<or> (3 < length rest \<and> rest ! 3 \<noteq> CHR '' '')
          then None
          else let status = dec_value (take 3 rest) in
            if \<not> (100 \<le> status \<and> status \<le> 599) \<or> status = 101 then None else Some status)"

definition collect_header :: "(nat \<Rightarrow> bool) \<Rightarrow> string \<Rightarrow> response_collector \<Rightarrow> unit collected" where
  "collect_header stop bs c0 =
     (case check_collector (stop 0) c0 of
        (Err e, c) \<Rightarrow> (Err e, c)
      | (Ok _, c) \<Rightarrow>
          if max_header_bytes (collect_limits c) - header_bytes c < length bs then fail_collector ResponseTooLarge c
          else
            (let c1 = c\<lparr>header_bytes := header_bytes c + length bs\<rparr>; bad = fail_collector ProtocolError c1 in
             case header_line_of bs of
               None \<Rightarrow> bad
             | Some line \<Rightarrow>
                 if \<not> list_all (\<lambda>x. byte x = 9 \<or> 32 \<le> byte x \<and> byte x \<noteq> 127) line then bad
                 else if take 5 line = ''HTTP/'' then
                   (if (case collect_status c1 of Some s \<Rightarrow> 200 \<le> s \<or> \<not> headers_ended c1 | None \<Rightarrow> False) then bad
                    else case parse_status line of
                      None \<Rightarrow> bad
                    | Some s \<Rightarrow> (Ok (), c1\<lparr>collect_status := Some s, headers_ended := False, collect_headers := []\<rparr>))
                 else
                   (case collect_status c1 of
                      None \<Rightarrow> bad
                    | Some s \<Rightarrow>
                        if line = [] then (Ok (), c1\<lparr>headers_ended := True\<rparr>)
                        else if headers_ended c1 \<and> s < 200 then bad
                        else
                          (case split_once (CHR '':'') line of
                             None \<Rightarrow> bad
                           | Some (name, val) \<Rightarrow>
                               if name = [] \<or> \<not> list_all is_http_token_byte name then bad
                               else if \<not> utf8_valid (of_string name) then (Err (http_error_of HttpInternal), c1)
                               else check_collector (stop 1)
                                 (c1\<lparr>collect_headers := collect_headers c1 @ [response_header name (trim_ascii val)]\<rparr>)))))"

definition collect_body_chunk ::
  "(nat \<Rightarrow> bool) \<Rightarrow> (nat \<Rightarrow> bool) \<Rightarrow> string \<Rightarrow> response_collector \<Rightarrow> unit collected" where
  "collect_body_chunk reserve stop bs c0 =
     (case check_collector (stop 0) c0 of
        (Err e, c) \<Rightarrow> (Err e, c)
      | (Ok _, c) \<Rightarrow>
          if \<not> headers_ended c \<or> (case collect_status c of Some s \<Rightarrow> s < 200 | None \<Rightarrow> True)
          then fail_collector ProtocolError c
          else if max_body_bytes (collect_limits c) - length (collect_body c) < length bs
          then fail_collector ResponseTooLarge c
          else if bs \<noteq> [] \<and> collect_body c = [] \<and> \<not> reserve (max_body_bytes (collect_limits c))
          then fail_collector HttpInternal c
          else check_collector (stop 1) (c\<lparr>collect_body := collect_body c @ bs\<rparr>))"

definition finish_collector ::
  "(nat \<Rightarrow> bool) \<Rightarrow> nat \<Rightarrow> response_collector \<Rightarrow> (http_error, http_response) result" where
  "finish_collector stop code c0 =
     (case check_collector (stop 0) c0 of
        (Err e, c) \<Rightarrow> Err e
      | (Ok _, c) \<Rightarrow>
          if \<not> headers_ended c \<or> code < 200 \<or> collect_status c \<noteq> Some code
          then fst (fail_collector ProtocolError c)
          else Ok \<lparr>status_code = of_nat code, response_headers = collect_headers c, response_body = collect_body c\<rparr>)"

section \<open>Runs of the collector\<close>

datatype collect_op = HeaderLine string "nat \<Rightarrow> bool" | BodyChunk string "nat \<Rightarrow> bool"

fun collect_result :: "(nat \<Rightarrow> bool) \<Rightarrow> response_collector \<Rightarrow> collect_op \<Rightarrow> unit collected" where
  "collect_result reserve c (HeaderLine s stop) = collect_header stop s c"
| "collect_result reserve c (BodyChunk s stop) = collect_body_chunk reserve stop s c"

definition collect_step :: "(nat \<Rightarrow> bool) \<Rightarrow> response_collector \<Rightarrow> collect_op \<Rightarrow> response_collector" where
  "collect_step reserve c op = snd (collect_result reserve c op)"

fun op_header :: "collect_op \<Rightarrow> string" where
  "op_header (HeaderLine s _) = s"
| "op_header (BodyChunk s _) = ''''"

fun op_body :: "collect_op \<Rightarrow> string" where
  "op_body (HeaderLine s _) = ''''"
| "op_body (BodyChunk s _) = s"

definition collector_inv :: "response_collector \<Rightarrow> bool" where
  "collector_inv c \<longleftrightarrow>
     header_bytes c \<le> max_header_bytes (collect_limits c) \<and> length (collect_body c) \<le> max_body_bytes (collect_limits c) \<and>
     (collect_failure c \<noteq> None \<longrightarrow> collect_headers c = [] \<and> collect_body c = []) \<and>
     (\<forall>s. collect_status c = Some s \<longrightarrow> 100 \<le> s \<and> s \<le> 599) \<and>
     (\<forall>h \<in> set (collect_headers c). list_all is_http_token_byte (header_name h) \<and> header_name h \<noteq> [] \<and>
        (is_sensitive_http_header_name (header_name h) \<longrightarrow> sensitivity h = SensitiveHeader))"

text \<open>
  One step either fails for good, or takes its bytes in. The limits never change.
\<close>

definition collects :: "response_collector \<Rightarrow> collect_op \<Rightarrow> unit collected \<Rightarrow> bool" where
  "collects c op rc \<longleftrightarrow>
     (case rc of
        (Err e, d) \<Rightarrow> collect_failure d = Some e \<and> (\<forall>f. collect_failure c = Some f \<longrightarrow> f = e)
      | (Ok _, d) \<Rightarrow> collect_failure c = None \<and> collect_failure d = None \<and>
          collect_body d = collect_body c @ op_body op \<and> header_bytes d = header_bytes c + length (op_header op)) \<and>
     collector_inv (snd rc) \<and> collect_limits (snd rc) = collect_limits c"

lemma token_utf8:
  assumes "list_all is_http_token_byte n"
  shows "utf8_valid (of_string n)"
proof -
  have "byte c < 128" if "c \<in> set n" for c
    using that assms token_byte_range [of c] by (auto simp: list_all_iff)
  then show ?thesis
    by (intro utf8_valid_ascii) (auto simp: of_string_def list_all_iff byte_def unat_of_nat word_less_nat_alt)
qed

lemma parse_status_range: "parse_status l = Some s \<Longrightarrow> 100 \<le> s \<and> s \<le> 599 \<and> s \<noteq> 101"
  by (auto simp: parse_status_def Let_def split: option.splits prod.splits if_splits)

lemma fail_collects:
  assumes "collector_inv c" and "collect_failure c = None" and "collect_limits d = collect_limits c"
    and "header_bytes d \<le> max_header_bytes (collect_limits c)" and "collect_failure d = None" and "collect_status d = collect_status c"
  shows "collects c op (fail_collector code d)"
  using assms by (auto simp: fail_collector_def collects_def collector_inv_def Let_def)

lemma check_collects:
  assumes "collector_inv d" and "collect_failure c = None" and "collect_failure d = None"
    and "collect_limits d = collect_limits c" and "collect_body d = collect_body c @ op_body op"
    and "header_bytes d = header_bytes c + length (op_header op)"
  shows "collects c op (check_collector stop d)"
  using assms by (auto simp: check_collector_def fail_collector_def collects_def collector_inv_def Let_def)

lemma check_first:
  assumes "collector_inv c"
  obtains (failed) e d where "check_collector stop c = (Err e, d)" and "collects c op (Err e, d)"
    | (running) "check_collector stop c = (Ok (), c)" and "collect_failure c = None"
proof (cases "collect_failure c")
  case None
  show ?thesis
  proof (cases stop)
    case True
    then show ?thesis
      using None assms
      by (intro failed [of "http_error_of HttpCancelled" "snd (check_collector stop c)"])
        (auto simp: check_collector_def fail_collector_def collects_def collector_inv_def Let_def)
  qed (use None running in \<open>simp add: check_collector_def\<close>)
next
  case (Some e)
  then show ?thesis
    using assms by (intro failed [of e c]) (simp_all add: check_collector_def collects_def)
qed

lemma collect_header_collects:
  assumes inv: "collector_inv c"
  shows "collects c (HeaderLine s stop) (collect_header stop s c)"
proof -
  let ?op = "HeaderLine s stop"
  show ?thesis
  proof (rule check_first [OF inv, of "stop 0" ?op])
    assume 2: "check_collector (stop 0) c = (Ok (), c)" "collect_failure c = None"
    show ?thesis
    proof (cases "max_header_bytes (collect_limits c) - header_bytes c < length s")
      case True
      then show ?thesis
        using 2 inv by (auto simp: collect_header_def intro!: fail_collects simp: collector_inv_def)
    next
      case room: False
      define c1 where "c1 = c\<lparr>header_bytes := header_bytes c + length s\<rparr>"
      have c1: "collector_inv c1" "collect_failure c1 = None" "collect_limits c1 = collect_limits c"
        "collect_body c1 = collect_body c" "header_bytes c1 = header_bytes c + length s"
        using inv room 2 by (auto simp: c1_def collector_inv_def)
      have bad: "collects c ?op (fail_collector ProtocolError c1)"
        using inv 2 c1 by (intro fail_collects) (auto simp: collector_inv_def c1_def)
      have good: "collects c ?op (Ok (), d)" if "collector_inv d" "collect_failure d = None"
          "collect_limits d = collect_limits c" "collect_body d = collect_body c" "header_bytes d = header_bytes c + length s" for d
        using that 2 by (simp add: collects_def)
      have status: "collects c ?op (Ok (), c1\<lparr>collect_status := Some n, headers_ended := False, collect_headers := []\<rparr>)"
        if "parse_status line = Some n" for line n
        using c1 parse_status_range [OF that] by (intro good) (auto simp: collector_inv_def)
      have ended: "collects c ?op (Ok (), c1\<lparr>headers_ended := True\<rparr>)"
        using c1 by (intro good) (auto simp: collector_inv_def)
      have head: "collects c ?op (check_collector (stop 1)
          (c1\<lparr>collect_headers := collect_headers c1 @ [response_header name v]\<rparr>))"
        if "list_all is_http_token_byte name" "name \<noteq> []" for name v
        using c1 2 that by (intro check_collects) (auto simp: collector_inv_def response_header_def)
      show ?thesis
        using 2 room bad status ended head token_utf8
        by (auto simp: collect_header_def Let_def c1_def [symmetric] split: option.split prod.split)
    qed
  qed (simp add: collect_header_def)
qed

lemma collect_body_collects:
  assumes inv: "collector_inv c"
  shows "collects c (BodyChunk s stop) (collect_body_chunk reserve stop s c)"
proof -
  let ?op = "BodyChunk s stop"
  show ?thesis
  proof (rule check_first [OF inv, of "stop 0" ?op])
    assume 2: "check_collector (stop 0) c = (Ok (), c)" "collect_failure c = None"
    have bad: "collects c ?op (fail_collector code c)" for code
      using inv 2 by (intro fail_collects) (auto simp: collector_inv_def)
    have "collects c ?op (check_collector (stop 1) (c\<lparr>collect_body := collect_body c @ s\<rparr>))"
      if "\<not> max_body_bytes (collect_limits c) - length (collect_body c) < length s"
      using inv 2 that by (intro check_collects) (auto simp: collector_inv_def)
    then show ?thesis using 2 bad by (auto simp: collect_body_chunk_def)
  qed (simp add: collect_body_chunk_def)
qed

lemma collect_step_collects:
  "collector_inv c \<Longrightarrow> collects c op (collect_result reserve c op)"
  by (cases op) (simp_all add: collect_header_collects collect_body_collects)

interpretation collector: machine "collect_step reserve" collector_inv
  using collect_step_collects by unfold_locales (simp add: collects_def collect_step_def split: prod.splits)

lemma new_collector_Ok:
  "new_collector l = Ok c \<Longrightarrow> collector_inv c \<and> collect_failure c = None \<and> collect_body c = [] \<and>
     header_bytes c = 0 \<and> collect_limits c = l \<and> collect_headers c = [] \<and> collect_status c = None \<and> \<not> headers_ended c"
  by (auto simp: new_collector_def collector_inv_def split: if_splits)

lemma run_collects:
  assumes "collector_inv c" and "collect_failure (foldl (collect_step reserve) c ops) = None"
  shows "collect_failure c = None \<and> collect_body (foldl (collect_step reserve) c ops) = collect_body c @ concat (map op_body ops) \<and>
    header_bytes (foldl (collect_step reserve) c ops) = header_bytes c + length (concat (map op_header ops)) \<and>
    collect_limits (foldl (collect_step reserve) c ops) = collect_limits c \<and>
    (\<forall>k < length ops. is_ok (fst (collect_result reserve (foldl (collect_step reserve) c (take k ops)) (ops ! k))))"
  using assms
proof (induction ops arbitrary: c)
  case (Cons op ops)
  let ?d = "collect_step reserve c op"
  obtain r d where r: "collect_result reserve c op = (r, d)" by fastforce
  then have d: "?d = d" by (simp add: collect_step_def)
  have c: "collects c op (r, d)" using collect_step_collects [OF Cons.prems(1), of op reserve] r by simp
  then have inv: "collector_inv ?d" by (simp add: collects_def d)
  have IH: "collect_failure ?d = None" "collect_body (foldl (collect_step reserve) ?d ops) = collect_body ?d @ concat (map op_body ops)"
    "header_bytes (foldl (collect_step reserve) ?d ops) = header_bytes ?d + length (concat (map op_header ops))"
    "collect_limits (foldl (collect_step reserve) ?d ops) = collect_limits ?d"
    "\<forall>k < length ops. is_ok (fst (collect_result reserve (foldl (collect_step reserve) ?d (take k ops)) (ops ! k)))"
    using Cons.IH [OF inv] Cons.prems(2) by auto
  from IH(1) c d obtain u where u: "r = Ok u" by (cases r) (auto simp: collects_def)
  then have "collect_failure c = None" "collect_body d = collect_body c @ op_body op"
    "header_bytes d = header_bytes c + length (op_header op)" "collect_limits d = collect_limits c"
    using c by (simp_all add: collects_def)
  moreover have "is_ok (fst (collect_result reserve (foldl (collect_step reserve) c (take k (op # ops))) ((op # ops) ! k)))"
    if "k < length (op # ops)" for k
    using that IH(5) r u by (cases k) auto
  ultimately show ?case using IH d by simp
qed simp

section \<open>Properties\<close>

text \<open>
  C23: A response is collected completely or not at all. If the collector hands out a response after any
  sequence of header lines and body pieces, then no call before failed or was cancelled, the body is
  exactly the concatenation of the pieces in their order, the status is final and is the one the caller
  expects, every header has a non-empty token as its name and is marked if it is sensitive, and both the
  bytes of all header lines (interim responses included) and the body are within the limits.
\<close>

theorem response_is_complete_or_refused:
  assumes "new_collector l = Ok c0"
    and "finish_collector stop code (foldl (collect_step reserve) c0 ops) = Ok resp"
  shows "response_body resp = concat (map op_body ops) \<and>
    (\<forall>k < length ops. is_ok (fst (collect_result reserve (foldl (collect_step reserve) c0 (take k ops)) (ops ! k)))) \<and>
    status_code resp = of_nat code \<and> 200 \<le> code \<and> code \<le> 599 \<and>
    (\<forall>h \<in> set (response_headers resp). header_name h \<noteq> [] \<and> list_all is_http_token_byte (header_name h) \<and>
       (is_sensitive_http_header_name (header_name h) \<longrightarrow> sensitivity h = SensitiveHeader)) \<and>
    length (concat (map op_header ops)) \<le> max_header_bytes l \<and> length (response_body resp) \<le> max_body_bytes l"
proof -
  let ?c = "foldl (collect_step reserve) c0 ops"
  note new = new_collector_Ok [OF assms(1)]
  have inv: "collector_inv ?c" using new by (auto intro: collector.run_inv)
  have ok: "collect_failure ?c = None" "collect_status ?c = Some code" "200 \<le> code"
    and resp: "resp = \<lparr>status_code = of_nat code, response_headers = collect_headers ?c, response_body = collect_body ?c\<rparr>"
    using assms(2) by (auto simp: finish_collector_def check_collector_def fail_collector_def Let_def split: option.splits if_splits)
  from run_collects [OF _ ok(1)] new show ?thesis
    using inv ok(2,3) by (auto simp: resp collector_inv_def)
qed

section \<open>Writing a response\<close>

definition crlf :: string where
  "crlf = [CHR 0x0D, CHR 0x0A]"

definition digit_char :: "nat \<Rightarrow> char" where
  "digit_char d = char_of (48 + d)"

definition status_digits :: "nat \<Rightarrow> string" where
  "status_digits s = map digit_char [s div 100, s div 10 mod 10, s mod 10]"

definition status_line :: "nat \<Rightarrow> string \<Rightarrow> string" where
  "status_line s reason = ''HTTP/1.1 '' @ status_digits s @ '' '' @ reason @ crlf"

definition field_line :: "string \<times> string \<Rightarrow> string" where
  "field_line f = fst f @ '': '' @ snd f @ crlf"

text \<open>A block: the status, the reason and the fields; and its lines with the empty one at the end.\<close>

type_synonym block = "nat \<times> string \<times> (string \<times> string) list"

definition block_lines :: "block \<Rightarrow> string list" where
  "block_lines b = (case b of (s, reason, fs) \<Rightarrow> status_line s reason # map field_line fs @ [crlf])"

definition response_ops :: "block list \<Rightarrow> block \<Rightarrow> string list \<Rightarrow> collect_op list" where
  "response_ops interims final chunks =
     map (\<lambda>l. HeaderLine l (\<lambda>_. False)) (concat (map block_lines interims) @ block_lines final) @
     map (\<lambda>s. BodyChunk s (\<lambda>_. False)) chunks"

definition line_byte :: "char \<Rightarrow> bool" where
  "line_byte x \<longleftrightarrow> byte x = 9 \<or> (32 \<le> byte x \<and> byte x \<noteq> 127)"

definition wf_field :: "string \<times> string \<Rightarrow> bool" where
  "wf_field f \<longleftrightarrow> fst f \<noteq> [] \<and> list_all is_http_token_byte (fst f) \<and> list_all line_byte (snd f) \<and>
     (snd f \<noteq> [] \<longrightarrow> \<not> is_ascii_whitespace (hd (snd f)) \<and> \<not> is_ascii_whitespace (last (snd f)))"

definition wf_block :: "block \<Rightarrow> bool" where
  "wf_block b = (case b of (s, reason, fs) \<Rightarrow> 100 \<le> s \<and> s \<le> 599 \<and> s \<noteq> 101 \<and> list_all line_byte reason \<and>
     list_all wf_field fs)"

lemma line_byte_alt: "(\<lambda>x. byte x = 9 \<or> 32 \<le> byte x \<and> byte x \<noteq> 127) = line_byte"
  by (auto simp: line_byte_def)

lemma line_byte_not_cr: "line_byte x \<Longrightarrow> x \<noteq> CHR 0x0D \<and> x \<noteq> CHR 0x0A"
  by (auto simp: line_byte_def byte_def)

lemma header_line_crlf: "list_all line_byte l \<Longrightarrow> header_line_of (l @ crlf) = Some l"
  by (cases l rule: rev_cases) (auto simp: header_line_of_def strip_last_def crlf_def butlast_append)

lemma byte_digit_char: "d < 10 \<Longrightarrow> byte (digit_char d) = 48 + d"
  by (simp add: digit_char_def byte_def)

lemma three_digits:
  "a < 10 \<Longrightarrow> b < 10 \<Longrightarrow> c < 10 \<Longrightarrow> dec_value [digit_char a, digit_char b, digit_char c] = 10 * (10 * a + b) + c \<and>
     list_all is_digit [digit_char a, digit_char b, digit_char c]"
  by (simp add: dec_value_def byte_digit_char is_digit_def)

lemma status_digits_value:
  assumes "s \<le> 999"
  shows "list_all is_digit (status_digits s) \<and> dec_value (status_digits s) = s \<and> length (status_digits s) = 3"
proof -
  have d: "s div 100 < 10" "s div 10 mod 10 < 10" "s mod 10 < 10" using assms by auto
  have "10 * (10 * (s div 100) + s div 10 mod 10) + s mod 10 = s"
  proof -
    have "s div 10 div 10 = s div 100" by (simp add: div_mult2_eq [symmetric])
    then show ?thesis using div_mult_mod_eq [of s 10] div_mult_mod_eq [of "s div 10" 10] by (metis mult.commute)
  qed
  with three_digits [OF d] show ?thesis unfolding status_digits_def list.map by (metis length_Cons list.size(3) numeral_3_eq_3)
qed

lemma status_line_parses:
  assumes "100 \<le> s" and "s \<le> 599" and "s \<noteq> 101"
  shows "parse_status (''HTTP/1.1 '' @ status_digits s @ '' '' @ reason) = Some s"
proof -
  have d: "list_all is_digit (status_digits s)" "dec_value (status_digits s) = s" "length (status_digits s) = 3"
    using status_digits_value [of s] assms by auto
  then show ?thesis using assms by (simp add: parse_status_def Let_def nth_append)
qed

lemma status_line_bytes: "list_all line_byte reason \<Longrightarrow> s \<le> 599 \<Longrightarrow>
    list_all line_byte (''HTTP/1.1 '' @ status_digits s @ '' '' @ reason)"
  using status_digits_value [of s] by (auto simp: list_all_iff line_byte_def is_digit_def byte_def)

lemma trim_clean:
  assumes "v \<noteq> [] \<longrightarrow> \<not> is_ascii_whitespace (hd v) \<and> \<not> is_ascii_whitespace (last v)"
  shows "trim_ascii ('' '' @ v) = v"
proof -
  have "dropWhile is_ascii_whitespace v = v" "dropWhile is_ascii_whitespace (rev v) = rev v"
    using assms by (auto simp: dropWhile_eq_self_iff hd_rev)
  then show ?thesis by (simp add: trim_ascii_def is_ascii_whitespace_def byte_def)
qed

lemma not_http_line:
  assumes "list_all is_http_token_byte n"
  shows "take 5 (n @ CHR '':'' # r) \<noteq> ''HTTP/''"
proof
  assume t: "take 5 (n @ CHR '':'' # r) = ''HTTP/''"
  have slash: "\<not> is_http_token_byte (CHR ''/'')"
    by (simp add: is_http_token_byte_def byte_class_defs)
  have k: "(n @ CHR '':'' # r) ! k = ''HTTP/'' ! k" if "k < 5" for k
    using that t by (metis nth_take)
  show False
  proof (cases "length n < 5")
    case True
    then have "''HTTP/'' ! length n = CHR '':''" using k [of "length n"] by simp
    moreover have "length n = 0 \<or> length n = 1 \<or> length n = 2 \<or> length n = 3 \<or> length n = 4" using True by presburger
    ultimately show False by auto
  next
    case False
    then have "n ! 4 = CHR ''/''" "4 < length n" using k [of 4] by (auto simp: nth_append)
    then show False using assms slash by (metis list_all_length)
  qed
qed

abbreviation calm :: "nat \<Rightarrow> bool" where "calm \<equiv> (\<lambda>_. False)"

text \<open>The three kinds of lines.\<close>

lemma collect_status_line:
  assumes "collect_failure c = None" and "wf_block (s, reason, fs)"
    and "length (status_line s reason) \<le> max_header_bytes (collect_limits c) - header_bytes c"
    and "case collect_status c of Some k \<Rightarrow> k < 200 \<and> headers_ended c | None \<Rightarrow> True"
  shows "collect_header calm (status_line s reason) c =
     (Ok (), c\<lparr>header_bytes := header_bytes c + length (status_line s reason), collect_status := Some s,
        headers_ended := False, collect_headers := []\<rparr>)"
proof -
  let ?l = "''HTTP/1.1 '' @ status_digits s @ '' '' @ reason"
  have w: "100 \<le> s" "s \<le> 599" "s \<noteq> 101" "list_all line_byte reason" using assms(2) by (simp_all add: wf_block_def)
  have "header_line_of (status_line s reason) = Some ?l"
    using header_line_crlf [OF status_line_bytes [OF w(4,2)]] by (simp add: status_line_def)
  then show ?thesis
    using assms status_line_bytes [OF w(4,2)] status_line_parses [OF w(1-3), of reason]
    by (auto simp: collect_header_def check_collector_def Let_def line_byte_alt not_less split: option.splits)
qed

lemma collect_field_line:
  assumes "collect_failure c = None" and "wf_field f" and "collect_status c = Some s" and "\<not> headers_ended c"
    and "length (field_line f) \<le> max_header_bytes (collect_limits c) - header_bytes c"
  shows "collect_header calm (field_line f) c =
     (Ok (), c\<lparr>header_bytes := header_bytes c + length (field_line f),
        collect_headers := collect_headers c @ [response_header (fst f) (snd f)]\<rparr>)"
proof -
  let ?l = "fst f @ '': '' @ snd f"
  have w: "fst f \<noteq> []" "list_all is_http_token_byte (fst f)" "list_all line_byte (snd f)"
    "snd f \<noteq> [] \<longrightarrow> \<not> is_ascii_whitespace (hd (snd f)) \<and> \<not> is_ascii_whitespace (last (snd f))"
    using assms(2) by (simp_all add: wf_field_def)
  have "line_byte x" if "x \<in> set (fst f)" for x
    using that w(2) token_byte_range [of x] by (auto simp: line_byte_def list_all_iff)
  then have bytes: "list_all line_byte ?l" using w(3) by (auto simp: list_all_iff line_byte_def byte_def)
  have "\<not> is_http_token_byte (CHR '':'')" by (simp add: is_http_token_byte_def byte_class_defs)
  then have split: "split_once (CHR '':'') ?l = Some (fst f, '' '' @ snd f)"
    using w(2) by (auto simp: split_once_Some list_all_iff)
  have "header_line_of (field_line f) = Some ?l" using header_line_crlf [OF bytes] by (simp add: field_line_def)
  then show ?thesis
    using assms w bytes split not_http_line [OF w(2), of "'' '' @ snd f"] trim_clean [OF w(4)] token_utf8 [OF w(2)]
    by (simp add: collect_header_def check_collector_def Let_def line_byte_alt)
qed

lemma collect_blank:
  assumes "collect_failure c = None" and "collect_status c = Some s"
    and "length crlf \<le> max_header_bytes (collect_limits c) - header_bytes c"
  shows "collect_header calm crlf c = (Ok (), c\<lparr>header_bytes := header_bytes c + length crlf, headers_ended := True\<rparr>)"
  using assms header_line_crlf [of "[]"]
  by (simp add: collect_header_def check_collector_def Let_def)

lemma collect_step_simps:
  "collect_step reserve c (HeaderLine s stop) = snd (collect_header stop s c)"
  "collect_step reserve c (BodyChunk s stop) = snd (collect_body_chunk reserve stop s c)"
  by (simp_all add: collect_step_def)

text \<open>What a block leaves behind.\<close>

definition after_block :: "block \<Rightarrow> response_collector \<Rightarrow> response_collector" where
  "after_block b c = (case b of (s, reason, fs) \<Rightarrow>
     c\<lparr>header_bytes := header_bytes c + length (concat (block_lines b)), collect_status := Some s,
       headers_ended := True, collect_headers := map (\<lambda>f. response_header (fst f) (snd f)) fs\<rparr>)"

abbreviation feed :: "(nat \<Rightarrow> bool) \<Rightarrow> response_collector \<Rightarrow> string list \<Rightarrow> response_collector" where
  "feed reserve c ls \<equiv> foldl (collect_step reserve) c (map (\<lambda>l. HeaderLine l calm) ls)"

lemma feed_fields:
  assumes "collect_failure c = None" and "list_all wf_field fs" and "collect_status c = Some s" and "\<not> headers_ended c"
    and "header_bytes c + length (concat (map field_line fs)) \<le> max_header_bytes (collect_limits c)"
  shows "feed reserve c (map field_line fs) =
     c\<lparr>header_bytes := header_bytes c + length (concat (map field_line fs)),
       collect_headers := collect_headers c @ map (\<lambda>f. response_header (fst f) (snd f)) fs\<rparr>"
  using assms
proof (induction fs arbitrary: c)
  case (Cons f fs)
  let ?d = "c\<lparr>header_bytes := header_bytes c + length (field_line f),
        collect_headers := collect_headers c @ [response_header (fst f) (snd f)]\<rparr>"
  have "collect_header calm (field_line f) c = (Ok (), ?d)"
    using Cons.prems by (intro collect_field_line) auto
  moreover have "feed reserve ?d (map field_line fs) =
     ?d\<lparr>header_bytes := header_bytes ?d + length (concat (map field_line fs)),
       collect_headers := collect_headers ?d @ map (\<lambda>f. response_header (fst f) (snd f)) fs\<rparr>"
    using Cons.prems by (intro Cons.IH) auto
  ultimately show ?case by (simp add: collect_step_simps add.assoc)
qed simp

lemma feed_block:
  assumes "collect_failure c = None" and "wf_block b"
    and "case collect_status c of Some k \<Rightarrow> k < 200 \<and> headers_ended c | None \<Rightarrow> True"
    and "header_bytes c + length (concat (block_lines b)) \<le> max_header_bytes (collect_limits c)"
  shows "feed reserve c (block_lines b) = after_block b c"
proof -
  obtain s reason fs where b: "b = (s, reason, fs)" by (cases b)
  let ?d = "c\<lparr>header_bytes := header_bytes c + length (status_line s reason), collect_status := Some s,
        headers_ended := False, collect_headers := []\<rparr>"
  let ?e = "?d\<lparr>header_bytes := header_bytes ?d + length (concat (map field_line fs)),
       collect_headers := collect_headers ?d @ map (\<lambda>f. response_header (fst f) (snd f)) fs\<rparr>"
  have size: "header_bytes c + (length (status_line s reason) + (length (concat (map field_line fs)) + length crlf))
      \<le> max_header_bytes (collect_limits c)"
    using assms(4) by (simp add: b block_lines_def)
  have 1: "collect_header calm (status_line s reason) c = (Ok (), ?d)"
    using assms size by (intro collect_status_line [of c s reason fs]) (auto simp: b)
  have 2: "feed reserve ?d (map field_line fs) = ?e"
    using assms size by (intro feed_fields) (auto simp: b wf_block_def)
  have 3: "collect_header calm crlf ?e = (Ok (), ?e\<lparr>header_bytes := header_bytes ?e + length crlf, headers_ended := True\<rparr>)"
    using assms size by (intro collect_blank [of ?e s]) auto
  show ?thesis
    using 1 2 3 by (simp add: b block_lines_def after_block_def collect_step_simps add.assoc)
qed

lemma feed_interims:
  assumes "collect_failure c = None" and "\<forall>b \<in> set bs. wf_block b \<and> fst b < 200"
    and "case collect_status c of Some k \<Rightarrow> k < 200 \<and> headers_ended c | None \<Rightarrow> True"
    and "header_bytes c + length (concat (concat (map block_lines bs))) \<le> max_header_bytes (collect_limits c)"
  obtains d where "feed reserve c (concat (map block_lines bs)) = d"
    and "collect_failure d = None" and "collect_body d = collect_body c" and "collect_limits d = collect_limits c"
    and "header_bytes d = header_bytes c + length (concat (concat (map block_lines bs)))"
    and "case collect_status d of Some k \<Rightarrow> k < 200 \<and> headers_ended d | None \<Rightarrow> True"
  using assms
proof (induction bs arbitrary: c thesis)
  case (Cons b bs)
  have f: "feed reserve c (block_lines b) = after_block b c"
    using Cons.prems by (intro feed_block) auto
  obtain s reason fs where b: "b = (s, reason, fs)" by (cases b)
  show ?case
  proof (rule Cons.IH [of "after_block b c"])
    fix d
    assume d: "feed reserve (after_block b c) (concat (map block_lines bs)) = d"
      "collect_failure d = None" "collect_body d = collect_body (after_block b c)"
      "collect_limits d = collect_limits (after_block b c)"
      "header_bytes d = header_bytes (after_block b c) + length (concat (concat (map block_lines bs)))"
      "case collect_status d of Some k \<Rightarrow> k < 200 \<and> headers_ended d | None \<Rightarrow> True"
    show thesis
      by (rule Cons.prems(1) [of d]) (use d f in \<open>simp_all add: b after_block_def\<close>)
  qed (use Cons.prems in \<open>auto simp: b after_block_def\<close>)
qed simp

lemma feed_body:
  assumes "collect_failure c = None" and "headers_ended c" and "collect_status c = Some s" and "200 \<le> s"
    and "length (collect_body c) + length (concat chunks) \<le> max_body_bytes (collect_limits c)"
    and "reserve (max_body_bytes (collect_limits c))"
  shows "foldl (collect_step reserve) c (map (\<lambda>s. BodyChunk s calm) chunks) = c\<lparr>collect_body := collect_body c @ concat chunks\<rparr>"
  using assms
proof (induction chunks arbitrary: c)
  case (Cons x xs)
  have "collect_body_chunk reserve calm x c = (Ok (), c\<lparr>collect_body := collect_body c @ x\<rparr>)"
    using Cons.prems by (auto simp: collect_body_chunk_def check_collector_def)
  then show ?case using Cons.prems Cons.IH [of "c\<lparr>collect_body := collect_body c @ x\<rparr>"] by (simp add: collect_step_simps)
qed simp

text \<open>
  A well-formed response is collected as it was written. The collector that receives any number of
  interim responses, the lines of the final one and its body in arbitrary pieces hands out the final
  status, the fields of the final response in their order (those of the interim ones are gone), and the
  whole body, as long as the lines and the body fit the limits and nothing stops it.
\<close>

theorem written_response_is_collected:
  assumes "new_collector l = Ok c0"
    and "\<forall>b \<in> set interims. wf_block b \<and> fst b < 200" and "wf_block (s, reason, fs)" and "200 \<le> s"
    and "length (concat (concat (map block_lines interims) @ block_lines (s, reason, fs))) \<le> max_header_bytes l"
    and "length (concat chunks) \<le> max_body_bytes l" and "reserve (max_body_bytes l)"
  shows "finish_collector calm s (foldl (collect_step reserve) c0 (response_ops interims (s, reason, fs) chunks)) =
     Ok \<lparr>status_code = of_nat s, response_headers = map (\<lambda>f. response_header (fst f) (snd f)) fs,
       response_body = concat chunks\<rparr>"
proof -
  note new = new_collector_Ok [OF assms(1)]
  obtain d where d: "feed reserve c0 (concat (map block_lines interims)) = d" "collect_failure d = None"
    "collect_body d = []" "collect_limits d = l" "header_bytes d = length (concat (concat (map block_lines interims)))"
    "case collect_status d of Some k \<Rightarrow> k < 200 \<and> headers_ended d | None \<Rightarrow> True"
    by (rule feed_interims [of c0 interims reserve]) (use new assms(2,5) in auto)
  have "feed reserve d (block_lines (s, reason, fs)) = after_block (s, reason, fs) d"
    using d assms(3,5) by (intro feed_block) auto
  moreover have "foldl (collect_step reserve) (after_block (s, reason, fs) d) (map (\<lambda>s. BodyChunk s calm) chunks) =
      (after_block (s, reason, fs) d)\<lparr>collect_body := concat chunks\<rparr>"
    using feed_body [of "after_block (s, reason, fs) d" s chunks reserve] d assms(4,6,7) by (simp add: after_block_def)
  ultimately show ?thesis
    using d assms(4) by (simp add: response_ops_def finish_collector_def check_collector_def after_block_def)
qed

text \<open>An interim response, then a final one with a cookie and a body in two pieces.\<close>

theorem written_response_is_collected_witness:
  "\<exists>c. new_collector default_response_limits = Ok c \<and>
     finish_collector calm 200 (foldl (collect_step (\<lambda>_. True)) c
       (response_ops [(100, ''Continue'', [])] (200, ''OK'', [(''Set-Cookie'', ''x'')]) [''ab'', ''c''])) =
     Ok \<lparr>status_code = 200, response_headers = [sensitive_header ''Set-Cookie'' ''x''], response_body = ''abc''\<rparr>"
proof -
  obtain c where c: "new_collector default_response_limits = Ok c"
    by (simp add: new_collector_def default_response_limits_def max_http_response_header_bytes_def
        max_http_response_body_bytes_def)
  have wf: "wf_block (100, ''Continue'', [])" "wf_block (200, ''OK'', [(''Set-Cookie'', ''x'')])"
    by (simp_all add: wf_block_def wf_field_def line_byte_def is_ascii_whitespace_def is_http_token_byte_def byte_class_defs)
  have size: "length (concat (concat (map block_lines [(100, ''Continue'', [])]) @
      block_lines (200, ''OK'', [(''Set-Cookie'', ''x'')]))) \<le> max_header_bytes default_response_limits"
    by (simp add: block_lines_def status_line_def status_digits_def field_line_def crlf_def default_response_limits_def
        max_http_response_header_bytes_def)
  have "response_header ''Set-Cookie'' ''x'' = sensitive_header ''Set-Cookie'' ''x''"
    by (simp add: response_header_def sensitive_header_def is_sensitive_http_header_name_def eq_ignore_case_def)
  then show ?thesis
    using c wf size
      written_response_is_collected [OF c, of "[(100, ''Continue'', [])]" 200 "''OK''" "[(''Set-Cookie'', ''x'')]"
        "[''ab'', ''c'']" "\<lambda>_. True"]
    by (simp add: default_response_limits_def)
qed

text \<open>The last pieces decide: a response whose calls all succeed.\<close>

theorem response_is_complete_or_refused_witness:
  "\<exists>c resp. new_collector default_response_limits = Ok c \<and>
     finish_collector calm 204 (foldl (collect_step (\<lambda>_. True)) c
       [HeaderLine (''HTTP/2 204'' @ crlf) calm, HeaderLine crlf calm]) = Ok resp \<and>
     response_body resp = '''' \<and> status_code resp = 204"
proof -
  let ?ops = "[HeaderLine (''HTTP/2 204'' @ crlf) calm, HeaderLine crlf calm]"
  obtain c where c: "new_collector default_response_limits = Ok c" and
    def: "c = \<lparr>collect_limits = default_response_limits, header_bytes = 0, collect_headers = [], collect_body = [],
        collect_status = None, headers_ended = False, collect_failure = None\<rparr>"
    by (simp add: new_collector_def default_response_limits_def max_http_response_header_bytes_def
        max_http_response_body_bytes_def)
  have "finish_collector calm 204 (foldl (collect_step (\<lambda>_. True)) c ?ops) =
      Ok \<lparr>status_code = 204, response_headers = [], response_body = ''''\<rparr>"
    by (simp add: def collect_step_simps collect_header_def check_collector_def header_line_of_def strip_last_def
        crlf_def parse_status_def finish_collector_def Let_def default_response_limits_def
        max_http_response_header_bytes_def dec_value_def byte_class_defs)
  from this response_is_complete_or_refused [OF c this] c show ?thesis by auto
qed

end
