(* ===== verification/Http_Body.thy ===== *)
theory Http_Body
  imports Http
begin

text \<open>
  The sources of a request body (\<open>rust/src/http/body_sources.rs\<close>): bytes in memory, a log file whose
  identity is checked, and the wrapper that holds any source to its declared length.

  A source is a trait object: its state \<open>'s\<close> with a reader. A read into a buffer of \<open>n\<close> bytes answers
  with an error or the bytes it put there; a source that misbehaves may claim more than \<open>n\<close>. The
  answer \<open>None\<close> is a panic. The stop token is part of a world \<open>'w\<close>: \<open>poll\<close> reads it.
\<close>

type_synonym body_read = "(http_body_error, string) result"
type_synonym ('s, 'w) reader = "nat \<Rightarrow> 's \<Rightarrow> 'w \<Rightarrow> body_read option \<times> 's \<times> 'w"
type_synonym 'w stop_poll = "'w \<Rightarrow> bool \<times> 'w"

section \<open>Bytes in memory\<close>

record memory_body =
  memory_bytes :: string
  memory_offset :: nat

definition new_memory_body :: "string \<Rightarrow> (http_body_error, memory_body) result" where
  "new_memory_body bs =
     (if unat max_http_request_body_bytes < length bs then Err (body_error BodyReadError)
      else Ok \<lparr>memory_bytes = bs, memory_offset = 0\<rparr>)"

definition memory_length :: "memory_body \<Rightarrow> u64" where
  "memory_length m = of_nat (length (memory_bytes m))"

definition memory_read :: "'w stop_poll \<Rightarrow> (memory_body, 'w) reader" where
  "memory_read poll n m w =
     (case poll w of
        (True, w2) \<Rightarrow> (Some (Err (body_error BodyCancelled)), m, w2)
      | (False, w2) \<Rightarrow>
          (let count = min n (length (memory_bytes m) - memory_offset m) in
           (Some (Ok (take count (drop (memory_offset m) (memory_bytes m)))),
            m\<lparr>memory_offset := memory_offset m + count\<rparr>, w2)))"

section \<open>The exact length\<close>

record 's exact_body =
  exact_source :: 's
  exact_length :: u64
  exact_remaining :: u64
  eof_checked :: bool
  exact_failure :: "http_body_error option"

definition new_exact_body :: "('s \<Rightarrow> u64 option) \<Rightarrow> 's \<Rightarrow> (http_body_error, 's exact_body) result" where
  "new_exact_body content_length s =
     (case content_length s of
        None \<Rightarrow> Err (body_error BodyPanicked)
      | Some l \<Rightarrow>
          if max_http_request_body_bytes < l then Err (body_error BodyReadError)
          else Ok \<lparr>exact_source = s, exact_length = l, exact_remaining = l, eof_checked = False, exact_failure = None\<rparr>)"

definition exact_complete :: "'s exact_body \<Rightarrow> bool" where
  "exact_complete e \<longleftrightarrow> eof_checked e \<and> exact_failure e = None"

text \<open>The bytes are in: at the end of the length the source must report its end before they count.\<close>

definition exact_settle :: "'w stop_poll \<Rightarrow> ('s, 'w) reader \<Rightarrow> string \<Rightarrow> 's exact_body \<Rightarrow> 'w \<Rightarrow>
    body_read option \<times> 's exact_body \<times> 'w" where
  "exact_settle poll source bs e w =
     (let cancelled = Some (Err (body_error BodyCancelled)) in
      case poll w of
        (True, w2) \<Rightarrow> (cancelled, e, w2)
      | (False, w2) \<Rightarrow>
          if exact_remaining e = 0
          then (case source 1 (exact_source e) w2 of
                  (None, s, w3) \<Rightarrow> (None, e\<lparr>exact_source := s\<rparr>, w3)
                | (Some (Err x), s, w3) \<Rightarrow> (Some (Err x), e\<lparr>exact_source := s\<rparr>, w3)
                | (Some (Ok extra), s, w3) \<Rightarrow>
                    if extra \<noteq> [] then (Some (Err (body_error BodyReadError)), e\<lparr>exact_source := s\<rparr>, w3)
                    else (case poll w3 of (b, w4) \<Rightarrow>
                      (if b then cancelled else Some (Ok bs), e\<lparr>exact_source := s, eof_checked := True\<rparr>, w4)))
          else (case poll w2 of (b, w3) \<Rightarrow> (if b then cancelled else Some (Ok bs), e, w3)))"

definition exact_read_inner :: "'w stop_poll \<Rightarrow> ('s, 'w) reader \<Rightarrow> ('s exact_body, 'w) reader" where
  "exact_read_inner poll source n e w =
     (case poll w of
        (True, w2) \<Rightarrow> (Some (Err (body_error BodyCancelled)), e, w2)
      | (False, w2) \<Rightarrow>
          if n = 0 \<or> eof_checked e then (Some (Ok []), e, w2)
          else
            (let capacity = min (unat (exact_remaining e)) n in
             if capacity = 0 then exact_settle poll source [] e w2
             else (case source capacity (exact_source e) w2 of
                 (None, s, w3) \<Rightarrow> (None, e\<lparr>exact_source := s\<rparr>, w3)
               | (Some (Err x), s, w3) \<Rightarrow> (Some (Err x), e\<lparr>exact_source := s\<rparr>, w3)
               | (Some (Ok bs), s, w3) \<Rightarrow>
                   if bs = [] \<or> capacity < length bs
                   then (Some (Err (body_error BodyReadError)), e\<lparr>exact_source := s\<rparr>, w3)
                   else exact_settle poll source bs
                     (e\<lparr>exact_source := s, exact_remaining := exact_remaining e - of_nat (length bs)\<rparr>) w3)))"

text \<open>The first failure stays; a panic of the source is a failure.\<close>

definition exact_read :: "'w stop_poll \<Rightarrow> ('s, 'w) reader \<Rightarrow> nat \<Rightarrow> 's exact_body \<Rightarrow> 'w \<Rightarrow>
    body_read \<times> 's exact_body \<times> 'w" where
  "exact_read poll source n e w =
     (case exact_failure e of
        Some x \<Rightarrow> (Err x, e, w)
      | None \<Rightarrow>
          (case exact_read_inner poll source n e w of
             (r, e2, w2) \<Rightarrow>
               (case (case r of None \<Rightarrow> Err (body_error BodyPanicked) | Some q \<Rightarrow> q) of
                  Err x \<Rightarrow> (Err x, e2\<lparr>exact_failure := Some x\<rparr>, w2)
                | Ok bs \<Rightarrow> (Ok bs, e2, w2))))"

section \<open>A log file\<close>

text \<open>
  What the file system tells of a path or of an open file (\<open>None\<close> when the call fails), and a read that
  is interrupted a number of times before it ends.
\<close>

record file_facts =
  is_symlink :: bool
  is_reparse_point :: bool
  is_regular :: bool
  facts_size :: u64
  facts_modified :: "system_time option"

datatype raw_read = RawError | RawBytes string

record ('h, 'w) disk =
  disk_link :: "path \<Rightarrow> 'w \<Rightarrow> file_facts option \<times> 'w"
  disk_open :: "path \<Rightarrow> 'w \<Rightarrow> 'h option \<times> 'w"
  disk_stat :: "'h \<Rightarrow> 'w \<Rightarrow> file_facts option \<times> 'w"
  disk_real :: "path \<Rightarrow> 'w \<Rightarrow> path option \<times> 'w"
  disk_read :: "nat \<Rightarrow> 'h \<Rightarrow> 'w \<Rightarrow> nat \<times> raw_read \<times> 'h \<times> 'w"

record 'h file_body =
  file_handle :: 'h
  body_file :: log_file_identity
  body_offset :: u64
  body_failure :: "http_body_error option"

definition verify_facts :: "log_file_identity \<Rightarrow> file_facts \<Rightarrow> (http_body_error, unit) result" where
  "verify_facts f m =
     (if \<not> is_regular m then Err (body_error SourceUnavailable)
      else case facts_modified m of
        None \<Rightarrow> Err (body_error SourceUnavailable)
      | Some t \<Rightarrow> require (facts_size m = file_size f \<and> t = last_write_time f) (body_error SourceChanged))"

definition verify_path :: "('h, 'w) disk \<Rightarrow> log_file_identity \<Rightarrow> 'w \<Rightarrow> (http_body_error, unit) result \<times> 'w" where
  "verify_path D f w =
     (let unavailable = body_error SourceUnavailable in
      case disk_link D (canonical_path f) w of
        (None, w2) \<Rightarrow> (Err unavailable, w2)
      | (Some m, w2) \<Rightarrow>
          if is_symlink m \<or> is_reparse_point m then (Err unavailable, w2)
          else (case verify_facts f m of
              Err e \<Rightarrow> (Err e, w2)
            | Ok _ \<Rightarrow>
                (case disk_real D (canonical_path f) w2 of
                   (None, w3) \<Rightarrow> (Err unavailable, w3)
                 | (Some p, w3) \<Rightarrow> (require (same_file (f\<lparr>canonical_path := p\<rparr>) f) (body_error SourceChanged), w3))))"

definition verify_handle :: "('h, 'w) disk \<Rightarrow> log_file_identity \<Rightarrow> 'h \<Rightarrow> 'w \<Rightarrow> (http_body_error, unit) result \<times> 'w" where
  "verify_handle D f h w =
     (case disk_stat D h w of
        (m, w2) \<Rightarrow> (and_then (ok_or (body_error SourceUnavailable) m) (verify_facts f), w2))"

definition verify_final :: "('h, 'w) disk \<Rightarrow> 'h file_body \<Rightarrow> 'w \<Rightarrow> (http_body_error, unit) result \<times> 'w" where
  "verify_final D b w =
     (case verify_handle D (body_file b) (file_handle b) w of
        (Err e, w2) \<Rightarrow> (Err e, w2)
      | (Ok _, w2) \<Rightarrow> verify_path D (body_file b) w2)"

definition new_file_body :: "('h, 'w) disk \<Rightarrow> log_file_identity \<Rightarrow> 'w \<Rightarrow> (http_body_error, 'h file_body) result \<times> 'w" where
  "new_file_body D f w =
     (if max_http_request_body_bytes < file_size f then (Err (body_error BodyReadError), w)
      else case verify_path D f w of
        (Err e, w2) \<Rightarrow> (Err e, w2)
      | (Ok _, w2) \<Rightarrow>
          (case disk_open D (canonical_path f) w2 of
             (None, w3) \<Rightarrow> (Err (body_error SourceUnavailable), w3)
           | (Some h, w3) \<Rightarrow>
               (case verify_handle D f h w3 of
                  (r, w4) \<Rightarrow> (and_then r (\<lambda>_. Ok \<lparr>file_handle = h, body_file = f, body_offset = 0, body_failure = None\<rparr>), w4))))"

text \<open>After each interruption the stop token is read.\<close>

fun interrupted :: "'w stop_poll \<Rightarrow> nat \<Rightarrow> 'w \<Rightarrow> bool \<times> 'w" where
  "interrupted poll 0 w = (False, w)"
| "interrupted poll (Suc k) w = (case poll w of (True, w2) \<Rightarrow> (True, w2) | (False, w2) \<Rightarrow> interrupted poll k w2)"

definition file_read_inner :: "'w stop_poll \<Rightarrow> ('h, 'w) disk \<Rightarrow> nat \<Rightarrow> 'h file_body \<Rightarrow> 'w \<Rightarrow>
    body_read \<times> 'h file_body \<times> 'w" where
  "file_read_inner poll D n b w =
     (let cancelled = Err (body_error BodyCancelled); size = file_size (body_file b) in
      case poll w of
        (True, w2) \<Rightarrow> (cancelled, b, w2)
      | (False, w2) \<Rightarrow>
          if n = 0 then (Ok [], b, w2)
          else
            (let count = min (unat (size - body_offset b)) n in
             if count = 0
             then (case verify_final D b w2 of (r, w3) \<Rightarrow> (and_then r (\<lambda>_. Ok []), b, w3))
             else (case disk_read D count (file_handle b) w2 of (k, raw, h, w3) \<Rightarrow>
                 (case interrupted poll k w3 of
                    (True, w4) \<Rightarrow> (cancelled, b\<lparr>file_handle := h\<rparr>, w4)
                  | (False, w4) \<Rightarrow>
                      (case raw of
                         RawError \<Rightarrow> (Err (body_error BodyReadError), b\<lparr>file_handle := h\<rparr>, w4)
                       | RawBytes bs \<Rightarrow>
                           if bs = [] then (Err (body_error SourceChanged), b\<lparr>file_handle := h\<rparr>, w4)
                           else
                             (let b2 = b\<lparr>file_handle := h, body_offset := body_offset b + of_nat (length bs)\<rparr> in
                              if body_offset b2 < size then (Ok bs, b2, w4)
                              else (case verify_final D b2 w4 of
                                  (Err e, w5) \<Rightarrow> (Err e, b2, w5)
                                | (Ok _, w5) \<Rightarrow> (case poll w5 of (c, w6) \<Rightarrow> (if c then cancelled else Ok bs, b2, w6)))))))))"

definition file_read :: "'w stop_poll \<Rightarrow> ('h, 'w) disk \<Rightarrow> nat \<Rightarrow> 'h file_body \<Rightarrow> 'w \<Rightarrow>
    body_read \<times> 'h file_body \<times> 'w" where
  "file_read poll D n b w =
     (case body_failure b of
        Some e \<Rightarrow> (Err e, b, w)
      | None \<Rightarrow>
          (case file_read_inner poll D n b w of
             (Err e, b2, w2) \<Rightarrow> (Err e, b2\<lparr>body_failure := Some e\<rparr>, w2)
           | (Ok bs, b2, w2) \<Rightarrow> (Ok bs, b2, w2)))"

section \<open>The declared length is delivered exactly\<close>

text \<open>The bytes that a sequence of reads of the given sizes hands out.\<close>

fun exact_reads :: "'w stop_poll \<Rightarrow> ('s, 'w) reader \<Rightarrow> nat list \<Rightarrow> 's exact_body \<Rightarrow> 'w \<Rightarrow>
    string \<times> 's exact_body \<times> 'w" where
  "exact_reads poll source [] e w = ([], e, w)"
| "exact_reads poll source (n # ns) e w =
     (case exact_read poll source n e w of
        (r, e2, w2) \<Rightarrow>
          (case exact_reads poll source ns e2 w2 of
             (bs, e3, w3) \<Rightarrow> ((case r of Ok b \<Rightarrow> b | Err _ \<Rightarrow> []) @ bs, e3, w3)))"

text \<open>How far a body of \<open>l\<close> bytes is, after it handed out \<open>d\<close> bytes.\<close>

definition exact_inv :: "nat \<Rightarrow> 's exact_body \<Rightarrow> bool" where
  "exact_inv d e \<longleftrightarrow>
     (let l = unat (exact_length e) in
      (eof_checked e \<longrightarrow> exact_remaining e = 0) \<and> d \<le> l \<and> (d = l \<and> 0 < l \<longrightarrow> eof_checked e) \<and>
      (exact_failure e = None \<longrightarrow> d + unat (exact_remaining e) = l))"

lemma exact_settle_effect:
  assumes "exact_settle poll source bs e w = (r, e2, w2)"
  shows "exact_length e2 = exact_length e \<and> exact_remaining e2 = exact_remaining e \<and> exact_failure e2 = exact_failure e \<and>
    (eof_checked e \<longrightarrow> eof_checked e2) \<and> (eof_checked e2 \<longrightarrow> eof_checked e \<or> exact_remaining e = 0) \<and>
    (\<forall>q. r = Some (Ok q) \<longrightarrow> q = bs \<and> (exact_remaining e = 0 \<longrightarrow> eof_checked e2))"
  using assms
  by (auto simp: exact_settle_def Let_def split: prod.splits bool.splits option.splits sum.splits if_splits)

lemma min_zero: "min a n = 0 \<longleftrightarrow> a = 0 \<or> n = (0 :: nat)"
  by (auto simp: min_def)

lemma exact_inner_effect:
  assumes "exact_read_inner poll source n e w = (r, e2, w2)" and "exact_inv d e" and "exact_failure e = None"
  shows "exact_length e2 = exact_length e \<and> exact_failure e2 = None \<and> (eof_checked e \<longrightarrow> eof_checked e2) \<and>
    (eof_checked e2 \<longrightarrow> exact_remaining e2 = 0) \<and>
    (\<forall>q. r = Some (Ok q) \<longrightarrow> exact_inv (d + length q) e2)"
proof -
  consider (stopped) "e2 = e" "r = Some (Err (body_error BodyCancelled))"
    | (idle) "e2 = e" "r = Some (Ok [])"
    | (failed) s where "e2 = e\<lparr>exact_source := s\<rparr>" "\<forall>q. r \<noteq> Some (Ok q)"
    | (ended) v where "exact_remaining e = 0" "exact_settle poll source [] e v = (r, e2, w2)"
    | (taken) bs s v where "bs \<noteq> []" "length bs \<le> unat (exact_remaining e)" "\<not> eof_checked e"
        "exact_settle poll source bs
           (e\<lparr>exact_source := s, exact_remaining := exact_remaining e - of_nat (length bs)\<rparr>) v = (r, e2, w2)"
    using assms(1)
    by (auto simp: exact_read_inner_def Let_def unat_eq_0 min_zero split: prod.splits bool.splits option.splits sum.splits if_splits)
  then show ?thesis
  proof cases
    case failed
    then show ?thesis using assms(2,3) by (simp add: exact_inv_def Let_def)
  next
    case ended
    then show ?thesis
      using exact_settle_effect [OF ended(2)] assms(2,3) by (auto simp: exact_inv_def Let_def)
  next
    case taken
    let ?e = "e\<lparr>exact_source := s, exact_remaining := exact_remaining e - of_nat (length bs)\<rparr>"
    have "unat (exact_remaining e) < 2 ^ 64" using unsigned_less [of "exact_remaining e"] by simp
    then have small: "length bs < 2 ^ 64" using taken(2) by linarith
    have left: "unat (exact_remaining e - of_nat (length bs)) = unat (exact_remaining e) - length bs"
      using taken(2) small by (simp add: unat_sub word_le_nat_alt unat_of_nat)
    have e2: "exact_length e2 = exact_length e" "exact_remaining e2 = exact_remaining ?e" "exact_failure e2 = None"
      "eof_checked e2 \<longrightarrow> exact_remaining ?e = 0" "\<forall>q. r = Some (Ok q) \<longrightarrow> q = bs \<and> (exact_remaining ?e = 0 \<longrightarrow> eof_checked e2)"
      using exact_settle_effect [OF taken(4)] taken(3) assms(3) by auto
    have inv: "d + unat (exact_remaining e) = unat (exact_length e)" using assms(2,3) by (simp add: exact_inv_def Let_def)
    have "exact_inv (d + length q) e2" if "r = Some (Ok q)" for q
    proof -
      have q: "q = bs" "exact_remaining ?e = 0 \<longrightarrow> eof_checked e2" using e2(5) that by auto
      have "d + length bs + unat (exact_remaining e2) = unat (exact_length e2)"
        using inv left taken(2) e2(1,2) by simp
      moreover have "eof_checked e2" if "d + length bs = unat (exact_length e2)"
      proof -
        have "unat (exact_remaining e2) = 0" using calculation that by linarith
        then have "exact_remaining ?e = 0" using e2(2) by (simp only: unat_eq_0)
        then show ?thesis using q(2) by blast
      qed
      ultimately show ?thesis using e2 q(1) unfolding exact_inv_def Let_def by auto
    qed
    then show ?thesis using e2 taken(3) by simp
  qed (use assms in \<open>auto simp: exact_inv_def Let_def\<close>)
qed

lemma exact_read_effect:
  assumes "exact_read poll source n e w = (r, e2, w2)" and "exact_inv d e"
  shows "exact_length e2 = exact_length e \<and> exact_inv (d + length (case r of Ok b \<Rightarrow> b | Err _ \<Rightarrow> [])) e2 \<and>
    (exact_failure e \<noteq> None \<longrightarrow> exact_failure e2 \<noteq> None)"
proof (cases "exact_failure e")
  case None
  obtain q e3 w3 where i: "exact_read_inner poll source n e w = (q, e3, w3)" by (rule prod_cases3)
  note eff = exact_inner_effect [OF i assms(2) None]
  show ?thesis
  proof (cases "case q of None \<Rightarrow> Err (body_error BodyPanicked) | Some a \<Rightarrow> a")
    case (Inl x)
    then have "e2 = e3\<lparr>exact_failure := Some x\<rparr>" "r = Err x" using assms(1) None i by (auto simp: exact_read_def)
    then show ?thesis using eff assms(2) None by (auto simp: exact_inv_def Let_def)
  next
    case (Inr b)
    then have "q = Some (Ok b)" by (auto split: option.splits)
    moreover from Inr have "e2 = e3" "r = Ok b" using assms(1) None i by (auto simp: exact_read_def)
    ultimately show ?thesis using eff None by simp
  qed
qed (use assms in \<open>auto simp: exact_read_def\<close>)

lemma exact_reads_effect:
  assumes "exact_reads poll source ns e w = (bs, e2, w2)" and "exact_inv d e"
  shows "exact_length e2 = exact_length e \<and> exact_inv (d + length bs) e2"
  using assms
proof (induction ns arbitrary: e w d bs e2 w2)
  case (Cons n ns)
  obtain r e3 w3 where r: "exact_read poll source n e w = (r, e3, w3)" by (rule prod_cases3)
  obtain cs e4 w4 where c: "exact_reads poll source ns e3 w3 = (cs, e4, w4)" by (rule prod_cases3)
  note one = exact_read_effect [OF r Cons.prems(2)]
  from Cons.IH [OF c] one have "exact_length e4 = exact_length e \<and>
      exact_inv (d + length (case r of Ok b \<Rightarrow> b | Err _ \<Rightarrow> []) + length cs) e4" by auto
  moreover have "bs = (case r of Ok b \<Rightarrow> b | Err _ \<Rightarrow> []) @ cs" "e4 = e2" using Cons.prems(1) r c by auto
  ultimately show ?case by (simp add: add.assoc)
qed simp

section \<open>Properties\<close>

text \<open>
  C21: A request body delivers exactly the length that it declared, or it is not complete. Whatever the
  wrapped source does (too few bytes, too many, a claim beyond the buffer, an error, a panic, a length
  that changes) and however it is read, the wrapper never hands out more than the declared length; it
  counts as complete only when it handed out exactly that many bytes; and it hands out the last of them
  only after the source has reported its end.
\<close>

theorem body_delivers_its_length:
  assumes "new_exact_body content_length s = Ok e0" and "exact_reads poll source ns e0 w0 = (bs, e, w)"
  shows "content_length s = Some (exact_length e) \<and> exact_length e \<le> max_http_request_body_bytes \<and>
    length bs \<le> unat (exact_length e) \<and>
    (exact_complete e \<longrightarrow> length bs = unat (exact_length e)) \<and>
    (length bs = unat (exact_length e) \<and> bs \<noteq> [] \<longrightarrow> eof_checked e)"
proof -
  have new: "exact_inv 0 e0" "content_length s = Some (exact_length e0)" "exact_length e0 \<le> max_http_request_body_bytes"
    using assms(1) by (auto simp: new_exact_body_def exact_inv_def not_less Let_def split: option.splits if_splits)
  from exact_reads_effect [OF assms(2) new(1)] have "exact_length e = exact_length e0" "exact_inv (length bs) e" by auto
  then show ?thesis using new by (auto simp: exact_complete_def exact_inv_def Let_def)
qed

text \<open>A source that declares three bytes and has two is not complete; one that has three is.\<close>

theorem body_delivers_its_length_witness:
  "let poll = (\<lambda>w :: unit. (False, w)); src = memory_read poll;
       e = \<lparr>exact_source = \<lparr>memory_bytes = ''abc'', memory_offset = 0\<rparr>, exact_length = 3, exact_remaining = 3,
         eof_checked = False, exact_failure = None\<rparr>;
       f = e\<lparr>exact_length := 4, exact_remaining := 4\<rparr> in
   fst (exact_reads poll src [2, 2] e ()) = ''abc'' \<and> eof_checked (fst (snd (exact_reads poll src [2, 2] e ()))) \<and>
   fst (exact_reads poll src [2, 2, 2] f ()) = ''abc'' \<and>
   \<not> exact_complete (fst (snd (exact_reads poll src [2, 2, 2] f ())))"
proof -
  let ?poll = "\<lambda>w :: unit. (False, w)" and ?s = "\<lparr>memory_bytes = ''abc'', memory_offset = 0\<rparr>"
  let ?e = "\<lparr>exact_source = ?s, exact_length = 3, exact_remaining = 3, eof_checked = False, exact_failure = None\<rparr>"
  let ?f = "?e\<lparr>exact_length := 4, exact_remaining := 4\<rparr>"
  have e: "new_exact_body (\<lambda>_. Some 3) ?s = Ok ?e" and f: "new_exact_body (\<lambda>_. Some 4) ?s = Ok ?f"
    by (simp_all add: new_exact_body_def max_http_request_body_bytes_def)
  obtain bs e2 w where r: "exact_reads ?poll (memory_read ?poll) [2, 2] ?e () = (bs, e2, w)" by (rule prod_cases3)
  have bs: "bs = ''abc''" "exact_length e2 = 3"
    using r by (auto simp: exact_read_def exact_read_inner_def exact_settle_def memory_read_def Let_def)
  obtain cs f2 v where q: "exact_reads ?poll (memory_read ?poll) [2, 2, 2] ?f () = (cs, f2, v)" by (rule prod_cases3)
  have cs: "cs = ''abc''" "exact_length f2 = 4"
    using q by (auto simp: exact_read_def exact_read_inner_def exact_settle_def memory_read_def Let_def)
  have "eof_checked e2" using body_delivers_its_length [OF e r] bs by simp
  moreover have "\<not> exact_complete f2" using body_delivers_its_length [OF f q] cs by auto
  ultimately show ?thesis unfolding Let_def r q using bs(1) cs(1) by simp
qed

section \<open>Sources that keep their promise\<close>

text \<open>
  The contract of a source that nobody stops: a read into a buffer that is not empty hands out the next
  part of its content, and something as long as anything is left.
\<close>

locale quiet_source =
  fixes reader :: "('s, 'w) reader" and content :: "'s \<Rightarrow> string" and good :: "'s \<Rightarrow> bool"
  assumes read_next: "good s \<Longrightarrow> 0 < n \<Longrightarrow>
    \<exists>k s2 w2. reader n s w = (Some (Ok (take k (content s))), s2, w2) \<and> good s2 \<and>
      content s2 = drop k (content s) \<and> k \<le> n \<and> (content s \<noteq> [] \<longrightarrow> 0 < k)"

text \<open>The client reads with a list of buffer sizes.\<close>

fun drain :: "('s, 'w) reader \<Rightarrow> nat list \<Rightarrow> 's \<Rightarrow> 'w \<Rightarrow> body_read option \<times> 's \<times> 'w" where
  "drain reader [] s w = (Some (Ok []), s, w)"
| "drain reader (n # ns) s w =
     (case reader n s w of
        (Some (Ok bs), s2, w2) \<Rightarrow>
          (case drain reader ns s2 w2 of
             (Some (Ok cs), s3, w3) \<Rightarrow> (Some (Ok (bs @ cs)), s3, w3)
           | other \<Rightarrow> other)
      | other \<Rightarrow> other)"

context quiet_source
begin

lemma drain_prefix:
  assumes "good s" and "\<forall>n \<in> set ns. 0 < n"
  shows "\<exists>k s2 w2. drain reader ns s w = (Some (Ok (take k (content s))), s2, w2) \<and> good s2 \<and>
    content s2 = drop k (content s) \<and> (length ns \<le> k \<or> length (content s) \<le> k)"
  using assms
proof (induction ns arbitrary: s w)
  case Nil
  show ?case by (rule exI [of _ 0]) (use Nil in auto)
next
  case (Cons n ns)
  obtain k s2 w2 where r: "reader n s w = (Some (Ok (take k (content s))), s2, w2)" "good s2"
    "content s2 = drop k (content s)" "content s \<noteq> [] \<longrightarrow> 0 < k"
    using read_next [of s n w] Cons.prems by auto
  have "\<exists>k s3 w3. drain reader ns s2 w2 = (Some (Ok (take k (content s2))), s3, w3) \<and> good s3 \<and>
      content s3 = drop k (content s2) \<and> (length ns \<le> k \<or> length (content s2) \<le> k)"
    by (rule Cons.IH [OF r(2)]) (use Cons.prems in simp)
  then obtain j s3 w3 where d: "drain reader ns s2 w2 = (Some (Ok (take j (content s2))), s3, w3)" "good s3"
    "content s3 = drop j (content s2)" "length ns \<le> j \<or> length (content s2) \<le> j"
    by blast
  have "drain reader (n # ns) s w = (Some (Ok (take (k + j) (content s))), s3, w3)"
    using r(1,3) d(1) by (simp add: take_add)
  moreover have "content s3 = drop (k + j) (content s)" using d(3) r(3) by (simp add: add.commute)
  moreover have "length (n # ns) \<le> k + j \<or> length (content s) \<le> k + j"
    using d(4) r(3,4) by (cases "content s = []") auto
  ultimately show ?case using d(2) by blast
qed

text \<open>Enough reads hand out everything.\<close>

lemma drain_all:
  assumes "good s" and "\<forall>n \<in> set ns. 0 < n" and "length (content s) \<le> length ns"
  shows "fst (drain reader ns s w) = Some (Ok (content s))"
proof -
  obtain k s2 w2 where "drain reader ns s w = (Some (Ok (take k (content s))), s2, w2)"
    "length ns \<le> k \<or> length (content s) \<le> k"
    using drain_prefix [OF assms(1,2)] by blast
  then show ?thesis using assms(3) by auto
qed

end

definition memory_content :: "memory_body \<Rightarrow> string" where
  "memory_content m = drop (memory_offset m) (memory_bytes m)"

definition exact_reader :: "'w stop_poll \<Rightarrow> ('s, 'w) reader \<Rightarrow> ('s exact_body, 'w) reader" where
  "exact_reader poll source n e w = (case exact_read poll source n e w of (r, e2, w2) \<Rightarrow> (Some r, e2, w2))"

definition never :: "'w stop_poll" where
  "never w = (False, w)"

interpretation memory: quiet_source "memory_read never" memory_content "\<lambda>_. True"
proof unfold_locales
  fix m n and w :: 'a
  assume "0 < (n :: nat)"
  then show "\<exists>k s2 w2. memory_read never n m w = (Some (Ok (take k (memory_content m))), s2, w2) \<and> True \<and>
      memory_content s2 = drop k (memory_content m) \<and> k \<le> n \<and> (memory_content m \<noteq> [] \<longrightarrow> 0 < k)"
    by (intro exI [of _ "min n (length (memory_bytes m) - memory_offset m)"])
      (auto simp: memory_read_def memory_content_def never_def Let_def add.commute)
qed

text \<open>The wrapper around such a source is such a source, if the declared length is the true one.\<close>

definition exact_good :: "('s \<Rightarrow> string) \<Rightarrow> ('s \<Rightarrow> bool) \<Rightarrow> 's exact_body \<Rightarrow> bool" where
  "exact_good content good e \<longleftrightarrow> exact_failure e = None \<and> good (exact_source e) \<and>
     unat (exact_remaining e) = length (content (exact_source e)) \<and> (eof_checked e \<longrightarrow> exact_remaining e = 0)"

context quiet_source
begin

lemma exact_settle_quiet:
  assumes "good (exact_source e)" and "unat (exact_remaining e) = length (content (exact_source e))"
    and "exact_failure e = None" and "\<not> eof_checked e"
  shows "\<exists>e2 w2. exact_settle never reader bs e w = (Some (Ok bs), e2, w2) \<and> exact_good content good e2 \<and>
    content (exact_source e2) = content (exact_source e)"
proof (cases "exact_remaining e = 0")
  case True
  then have nil: "content (exact_source e) = []" using assms(2) by simp
  obtain k s2 w2 where "reader 1 (exact_source e) w = (Some (Ok (take k (content (exact_source e)))), s2, w2)"
    "good s2" "content s2 = drop k (content (exact_source e))"
    using read_next [OF assms(1), of 1 w] by auto
  then show ?thesis using True nil assms by (simp add: exact_settle_def never_def exact_good_def)
next
  case False
  then show ?thesis using assms by (simp add: exact_settle_def never_def exact_good_def)
qed

lemma exact_read_next:
  assumes good: "exact_good content good e" and n: "0 < n"
  shows "\<exists>k e2 w2. exact_reader never reader n e w = (Some (Ok (take k (content (exact_source e)))), e2, w2) \<and>
    exact_good content good e2 \<and> content (exact_source e2) = drop k (content (exact_source e)) \<and> k \<le> n \<and>
    (content (exact_source e) \<noteq> [] \<longrightarrow> 0 < k)"
proof -
  let ?c = "content (exact_source e)"
  have e: "exact_failure e = None" "good (exact_source e)" "unat (exact_remaining e) = length ?c"
    using good by (simp_all add: exact_good_def)
  show ?thesis
  proof (cases "eof_checked e")
    case True
    then have "?c = []" using good by (auto simp: exact_good_def)
    then show ?thesis using True e good n
      by (intro exI [of _ 0]) (simp add: exact_reader_def exact_read_def exact_read_inner_def never_def)
  next
    case live: False
    show ?thesis
    proof (cases "?c = []")
      case True
      obtain e2 w2 where "exact_settle never reader [] e w = (Some (Ok []), e2, w2)" "exact_good content good e2"
        "content (exact_source e2) = ?c"
        using exact_settle_quiet [OF e(2,3,1) live, of "[]" w] by blast
      then show ?thesis
        using True e live n
        by (intro exI [of _ 0]) (simp add: exact_reader_def exact_read_def exact_read_inner_def never_def)
    next
      case False
      let ?m = "min (length ?c) n"
      have m: "0 < ?m" using False n by simp
      obtain k s2 w2 where r: "reader ?m (exact_source e) w = (Some (Ok (take k ?c)), s2, w2)" "good s2"
        "content s2 = drop k ?c" "k \<le> ?m" "0 < k"
        using read_next [OF e(2) m, of w] False by auto
      define f where "f = e\<lparr>exact_source := s2, exact_remaining := exact_remaining e - of_nat (length (take k ?c))\<rparr>"
      have len: "length (take k ?c) = k" using r(4) by simp
      have "unat (exact_remaining e) < 2 ^ 64" using unsigned_less [of "exact_remaining e"] by simp
      then have k: "k < 2 ^ 64" using r(4) e(3) by linarith
      then have "of_nat k \<le> exact_remaining e" using r(4) e(3) by (simp add: word_le_nat_alt unat_of_nat)
      moreover note k
      ultimately have "unat (exact_remaining f) = length (content (exact_source f))"
        using e(3) r(3) len by (simp add: f_def unat_sub unat_of_nat)
      moreover have "exact_failure f = None" "good (exact_source f)" "\<not> eof_checked f"
        using e live r(2) by (simp_all add: f_def)
      ultimately obtain g v where g: "exact_settle never reader (take k ?c) f w2 = (Some (Ok (take k ?c)), g, v)"
        "exact_good content good g" "content (exact_source g) = content (exact_source f)"
        using exact_settle_quiet [of f "take k ?c" w2] by blast
      have f: "e\<lparr>exact_source := s2, exact_remaining := exact_remaining e - of_nat k\<rparr> = f"
        unfolding f_def len by (rule refl)
      have "exact_reader never reader n e w = (Some (Ok (take k ?c)), g, v)"
        using e live n False r(1,5) leD [OF r(4)] g(1) m len
        by (simp add: exact_reader_def exact_read_def exact_read_inner_def never_def [of w] Let_def f)
      moreover have "content (exact_source g) = drop k ?c" using g(3) r(3) by (simp add: f_def)
      ultimately show ?thesis using g(2) r(4,5) by auto
    qed
  qed
qed

lemma wrapped: "quiet_source (exact_reader never reader) (\<lambda>e. content (exact_source e)) (exact_good content good)"
  by unfold_locales (rule exact_read_next)

end

interpretation exact_memory: quiet_source "exact_reader never (memory_read never)"
    "\<lambda>e. memory_content (exact_source e)" "exact_good memory_content (\<lambda>_. True)"
  by (rule memory.wrapped)

section \<open>The log file\<close>

text \<open>A look at the open file and at its path finds the log of this identity.\<close>

definition still_identified :: "('h, 'w) disk \<Rightarrow> log_file_identity \<Rightarrow> 'h \<Rightarrow> 'w \<Rightarrow> bool" where
  "still_identified D f h w \<longleftrightarrow>
     (\<exists>m w2 m2 w3 p w4.
        disk_stat D h w = (Some m, w2) \<and> is_regular m \<and> facts_size m = file_size f \<and>
          facts_modified m = Some (last_write_time f) \<and>
        disk_link D (canonical_path f) w2 = (Some m2, w3) \<and> is_regular m2 \<and> \<not> is_symlink m2 \<and> \<not> is_reparse_point m2 \<and>
          facts_size m2 = file_size f \<and> facts_modified m2 = Some (last_write_time f) \<and>
        disk_real D (canonical_path f) w3 = (Some p, w4) \<and> same_file (f\<lparr>canonical_path := p\<rparr>) f)"

lemma verify_facts_Ok: "verify_facts f m = Ok u \<longleftrightarrow>
    is_regular m \<and> facts_size m = file_size f \<and> facts_modified m = Some (last_write_time f)"
  by (auto simp: verify_facts_def split: option.split)

lemma verify_path_Ok: "verify_path D f w = (Ok u, v) \<Longrightarrow>
    \<exists>m w2 p. disk_link D (canonical_path f) w = (Some m, w2) \<and> is_regular m \<and> \<not> is_symlink m \<and> \<not> is_reparse_point m \<and>
      facts_size m = file_size f \<and> facts_modified m = Some (last_write_time f) \<and>
      disk_real D (canonical_path f) w2 = (Some p, v) \<and> same_file (f\<lparr>canonical_path := p\<rparr>) f"
  by (auto simp: verify_path_def Let_def verify_facts_Ok split: prod.splits option.splits if_splits sum.splits)

lemma verify_final_Ok:
  assumes "verify_final D b w = (Ok u, v)"
  shows "still_identified D (body_file b) (file_handle b) w"
proof -
  obtain m w2 where s: "disk_stat D (file_handle b) w = (Some m, w2)" "verify_facts (body_file b) m = Ok ()"
    and p: "verify_path D (body_file b) w2 = (Ok u, v)"
    using assms by (auto simp: verify_final_def verify_handle_def split: prod.splits sum.splits)
  show ?thesis using s verify_path_Ok [OF p] unfolding still_identified_def verify_facts_Ok by blast
qed

lemma file_inner_last:
  assumes "file_read_inner poll D n b w = (Ok bs, b2, w2)" and "bs \<noteq> []"
    and "\<not> body_offset b2 < file_size (body_file b)"
  shows "body_file b2 = body_file b \<and> (\<exists>v. still_identified D (body_file b) (file_handle b2) v)"
proof -
  let ?size = "file_size (body_file b)" and ?count = "min (unat (file_size (body_file b) - body_offset b)) n"
  obtain x where p: "poll w = (False, x)" and "n \<noteq> 0" and count: "?count \<noteq> 0"
    using assms(1,2) by (auto simp: file_read_inner_def Let_def split: prod.splits bool.splits if_splits)
  obtain k raw h x2 where r: "disk_read D ?count (file_handle b) x = (k, raw, h, x2)" by (rule prod_cases4)
  obtain s x3 where i: "interrupted poll k x2 = (s, x3)" by fastforce
  obtain cs where "\<not> s" "raw = RawBytes cs" "cs \<noteq> []"
    using assms(1) p \<open>n \<noteq> 0\<close> count r i
    by (cases s; cases raw) (auto simp: file_read_inner_def Let_def split: if_splits)
  define c where "c = b\<lparr>file_handle := h, body_offset := body_offset b + of_nat (length cs)\<rparr>"
  have step: "file_read_inner poll D n b w =
      (if body_offset c < ?size then (Ok cs, c, x3)
       else (case verify_final D c x3 of
           (Err e, w5) \<Rightarrow> (Err e, c, w5)
         | (Ok _, w5) \<Rightarrow> (case poll w5 of (a, w6) \<Rightarrow> (if a then Err (body_error BodyCancelled) else Ok cs, c, w6))))"
    using p \<open>n \<noteq> 0\<close> count r i \<open>\<not> s\<close> \<open>raw = RawBytes cs\<close> \<open>cs \<noteq> []\<close>
    by (simp add: file_read_inner_def Let_def c_def min_zero split: prod.split sum.split)
  then have "b2 = c" using assms(1) by (auto split: if_splits prod.splits sum.splits)
  then have "\<not> body_offset c < ?size" using assms(3) by simp
  then obtain u w5 where v: "verify_final D c x3 = (Ok u, w5)"
    using step assms(1) by (auto split: prod.splits sum.splits)
  show ?thesis
    using verify_final_Ok [OF v] \<open>b2 = c\<close> by (auto simp: c_def)
qed

text \<open>
  The last bytes of a log file are handed out only after a check. When a read of the file reaches
  the declared size, then the open file and the path have just been examined: both are regular files of
  the declared size and time, and the path leads to itself without a link. So a log that changed or was
  replaced while it was read never makes a complete body.
\<close>

theorem last_bytes_follow_the_check:
  assumes "file_read poll D n b w = (Ok bs, b2, w2)" and "bs \<noteq> []"
    and "file_size (body_file b) \<le> body_offset b2"
  shows "body_file b2 = body_file b \<and> (\<exists>v. still_identified D (body_file b) (file_handle b2) v)"
proof -
  obtain r c v where i: "file_read_inner poll D n b w = (r, c, v)" by (rule prod_cases3)
  then have "r = Ok bs" "c = b2" "v = w2"
    using assms(1) by (auto simp: file_read_def split: option.splits sum.splits)
  then show ?thesis using file_inner_last [of poll D n b w bs b2 w2] i assms(2,3) by simp
qed

definition sample_file :: log_file_identity where
  "sample_file = \<lparr>canonical_path = [RootDir, Normal ''a.zevtc''], file_size = 2, last_write_time = 7\<rparr>"

definition sample_disk :: "(unit, nat) disk" where
  "sample_disk =
     (let m = \<lparr>is_symlink = False, is_reparse_point = False, is_regular = True, facts_size = 2, facts_modified = Some 7\<rparr> in
      \<lparr>disk_link = (\<lambda>p w. (Some m, w)), disk_open = (\<lambda>p w. (Some (), w)), disk_stat = (\<lambda>h w. (Some m, w)),
       disk_real = (\<lambda>p w. (Some p, w)), disk_read = (\<lambda>n h w. (1, RawBytes (take n ''ab''), h, w))\<rparr>)"

theorem last_bytes_follow_the_check_witness:
  "\<exists>b. new_file_body sample_disk sample_file 0 = (Ok b, 0) \<and>
     fst (file_read never sample_disk 8 b 0) = Ok ''ab'' \<and> (\<exists>v. still_identified sample_disk sample_file () v)"
proof -
  let ?b = "\<lparr>file_handle = (), body_file = sample_file, body_offset = 0, body_failure = None\<rparr>"
  have b: "new_file_body sample_disk sample_file 0 = (Ok ?b, 0)"
    by (simp add: new_file_body_def verify_path_def verify_facts_def verify_handle_def sample_disk_def sample_file_def
        Let_def max_http_request_body_bytes_def same_file_def require_def ok_or_def)
  have r: "file_read never sample_disk 8 ?b 0 = (Ok ''ab'', ?b\<lparr>body_offset := 2\<rparr>, 0)"
    by (simp add: file_read_def file_read_inner_def never_def verify_final_def verify_path_def verify_facts_def
        verify_handle_def sample_disk_def sample_file_def Let_def same_file_def require_def ok_or_def)
  show ?thesis
    using b r last_bytes_follow_the_check [OF r] by (simp add: sample_file_def)
qed

end
