(* ===== verification/Multipart.thy ===== *)
theory Multipart
  imports Http_Body
begin

text \<open>
  Multipart form data (\<open>rust/src/http/multipart.rs\<close>): the checks of the parts, the segments between and
  around them, and the body that reads one segment after the other.

  A segment is either text of the encoder in memory or a part's own source (a trait object with its
  state \<open>'s\<close>); both are held to their declared length.
\<close>

section \<open>Data\<close>

definition max_multipart_boundary_bytes :: nat where "max_multipart_boundary_bytes = 70"
definition max_multipart_parts :: nat where "max_multipart_parts = 16"

datatype multipart_error =
  EmptyParts | TooManyParts | InvalidBoundary | InvalidPartName | InvalidFilename | InvalidContentType
| BodyTooLarge | BoundaryGenerationFailed | InvalidBody

record 's multipart_part =
  part_name :: string
  part_filename :: "string option"
  part_content_type :: "string option"
  part_body :: 's

datatype 's segment_source = TextSource memory_body | PartSource 's

record 's multipart_body =
  segments :: "'s segment_source exact_body list"
  multipart_length :: u64
  multipart_failure :: "http_body_error option"

section \<open>Reading\<close>

fun segment_read :: "'w stop_poll \<Rightarrow> ('s, 'w) reader \<Rightarrow> ('s segment_source, 'w) reader" where
  "segment_read poll source n (TextSource m) w =
     (case memory_read poll n m w of (r, m2, w2) \<Rightarrow> (r, TextSource m2, w2))"
| "segment_read poll source n (PartSource s) w =
     (case source n s w of (r, s2, w2) \<Rightarrow> (r, PartSource s2, w2))"

fun segment_length :: "('s \<Rightarrow> u64 option) \<Rightarrow> 's segment_source \<Rightarrow> u64 option" where
  "segment_length content_length (TextSource m) = Some (memory_length m)"
| "segment_length content_length (PartSource s) = content_length s"

text \<open>The loop over the segments: an empty answer drops the first one.\<close>

fun read_segments :: "'w stop_poll \<Rightarrow> ('s, 'w) reader \<Rightarrow> nat \<Rightarrow> 's segment_source exact_body list \<Rightarrow> 'w \<Rightarrow>
    body_read \<times> 's segment_source exact_body list \<times> 'w" where
  "read_segments poll source n [] w = (Ok [], [], w)"
| "read_segments poll source n (e # es) w =
     (case exact_read poll (segment_read poll source) n e w of
        (Err x, e2, w2) \<Rightarrow> (Err x, [], w2)
      | (Ok bs, e2, w2) \<Rightarrow> if bs = [] then read_segments poll source n es w2 else (Ok bs, e2 # es, w2))"

definition multipart_read :: "'w stop_poll \<Rightarrow> ('s, 'w) reader \<Rightarrow> nat \<Rightarrow> 's multipart_body \<Rightarrow> 'w \<Rightarrow>
    body_read \<times> 's multipart_body \<times> 'w" where
  "multipart_read poll source n m w =
     (case multipart_failure m of
        Some x \<Rightarrow> (Err x, m, w)
      | None \<Rightarrow>
          (case poll w of
             (True, w2) \<Rightarrow>
               (let e = body_error BodyCancelled in
                (Err e, m\<lparr>multipart_failure := Some e, segments := []\<rparr>, w2))
           | (False, w2) \<Rightarrow>
               if n = 0 then (Ok [], m, w2)
               else (case read_segments poll source n (segments m) w2 of
                   (Err x, es, w3) \<Rightarrow> (Err x, m\<lparr>multipart_failure := Some x, segments := []\<rparr>, w3)
                 | (Ok bs, es, w3) \<Rightarrow> (Ok bs, m\<lparr>segments := es\<rparr>, w3))))"

section \<open>Building\<close>

definition validate_count :: "nat \<Rightarrow> (multipart_error, unit) result" where
  "validate_count n =
     (if n = 0 then Err EmptyParts else if max_multipart_parts < n then Err TooManyParts else Ok ())"

definition simple_byte :: "char \<Rightarrow> bool" where
  "simple_byte c \<longleftrightarrow> is_alnum c \<or> c = CHR ''_'' \<or> c = CHR ''-''"

definition valid_media_type :: "string \<Rightarrow> bool" where
  "valid_media_type v \<longleftrightarrow> length v \<le> 255 \<and>
     (case split_once (CHR ''/'') v of
        None \<Rightarrow> False
      | Some (kind, subtype) \<Rightarrow> kind \<noteq> [] \<and> subtype \<noteq> [] \<and> list_all is_http_token_byte kind \<and>
          list_all is_http_token_byte subtype)"

definition validate_part :: "'s multipart_part \<Rightarrow> (multipart_error, unit) result" where
  "validate_part p =
     (if part_name p = [] \<or> 64 < length (part_name p) \<or> \<not> list_all simple_byte (part_name p)
      then Err InvalidPartName
      else if (case part_filename p of None \<Rightarrow> False
        | Some f \<Rightarrow> f = [] \<or> 255 < length f \<or> \<not> list_all (\<lambda>c. simple_byte c \<or> c = CHR ''.'') f)
      then Err InvalidFilename
      else case part_content_type p of
        Some t \<Rightarrow> if valid_media_type t then Ok () else Err InvalidContentType
      | None \<Rightarrow> Ok ())"

text \<open>The line break and the quote, and the text before the body of a part.\<close>

definition line_break :: string where "line_break = [CHR 0x0D, CHR 0x0A]"
definition quoted :: "string \<Rightarrow> string" where "quoted s = [CHR 0x22] @ s @ [CHR 0x22]"

definition part_prefix :: "string \<Rightarrow> bool \<Rightarrow> 's multipart_part \<Rightarrow> string" where
  "part_prefix boundary first p =
     (if first then [] else line_break) @ ''--'' @ boundary @ line_break @
     ''Content-Disposition: form-data; name='' @ quoted (part_name p) @
     (case part_filename p of Some f \<Rightarrow> ''; filename='' @ quoted f | None \<Rightarrow> []) @ line_break @
     (case part_content_type p of Some t \<Rightarrow> ''Content-Type: '' @ t @ line_break | None \<Rightarrow> []) @ line_break"

definition memory_segment ::
  "('s \<Rightarrow> u64 option) \<Rightarrow> string \<Rightarrow> (multipart_error, 's segment_source exact_body) result" where
  "memory_segment content_length v =
     and_then (map_err (\<lambda>_. BodyTooLarge) (new_memory_body v)) (\<lambda>m.
       map_err (\<lambda>_. InvalidBody) (new_exact_body (segment_length content_length) (TextSource m)))"

type_synonym 's segment_list = "'s segment_source exact_body list \<times> u64"

definition append_segment ::
  "'s segment_source exact_body \<Rightarrow> 's segment_list \<Rightarrow> (multipart_error, 's segment_list) result" where
  "append_segment e acc = (case acc of (es, used) \<Rightarrow>
     (if max_http_request_body_bytes - used < exact_length e then Err BodyTooLarge
      else Ok (es @ [e], used + exact_length e)))"

fun add_parts ::
  "('s \<Rightarrow> u64 option) \<Rightarrow> string \<Rightarrow> bool \<Rightarrow> 's multipart_part list \<Rightarrow> 's segment_list \<Rightarrow>
     (multipart_error, 's segment_list) result" where
  "add_parts content_length boundary first [] acc = Ok acc"
| "add_parts content_length boundary first (p # ps) acc =
     and_then (validate_part p) (\<lambda>_.
     and_then (map_err (\<lambda>e. if body_code e = BodyPanicked then InvalidBody else BodyTooLarge)
         (new_exact_body (segment_length content_length) (PartSource (part_body p)))) (\<lambda>body.
     and_then (memory_segment content_length (part_prefix boundary first p)) (\<lambda>prefix.
     and_then (append_segment prefix acc) (\<lambda>acc1.
     and_then (append_segment body acc1) (\<lambda>acc2.
       add_parts content_length boundary False ps acc2)))))"

definition closing_text :: "string \<Rightarrow> string" where
  "closing_text boundary = line_break @ ''--'' @ boundary @ ''--'' @ line_break"

definition with_boundary ::
  "('s \<Rightarrow> u64 option) \<Rightarrow> 's multipart_part list \<Rightarrow> string \<Rightarrow> (multipart_error, string \<times> 's multipart_body) result" where
  "with_boundary content_length form_parts boundary =
     and_then (validate_count (length form_parts)) (\<lambda>_.
     if boundary = [] \<or> max_multipart_boundary_bytes < length boundary \<or> \<not> list_all is_http_token_byte boundary
     then Err InvalidBoundary
     else
       and_then (add_parts content_length boundary True form_parts ([], 0)) (\<lambda>acc.
       and_then (memory_segment content_length (closing_text boundary)) (\<lambda>end_text.
       and_then (append_segment end_text acc) (\<lambda>(es, used).
         Ok (''multipart/form-data; boundary='' @ boundary,
             \<lparr>segments = es, multipart_length = used, multipart_failure = None\<rparr>)))))"

definition hex_digits :: string where "hex_digits = ''0123456789abcdef''"

definition generated_boundary :: "u8 list \<Rightarrow> string" where
  "generated_boundary bs =
     ''------------------------manny-'' @
     concat (map (\<lambda>b. [hex_digits ! (unat b div 16), hex_digits ! (unat b mod 16)]) bs)"

text \<open>
  The random source fills 16 bytes, or fails or panics (\<open>None\<close>).
\<close>

definition new_multipart ::
  "('s \<Rightarrow> u64 option) \<Rightarrow> (nat \<Rightarrow> u8 list option) \<Rightarrow> 's multipart_part list \<Rightarrow>
     (multipart_error, string \<times> 's multipart_body) result" where
  "new_multipart content_length random form_parts =
     and_then (validate_count (length form_parts)) (\<lambda>_.
     and_then (ok_or BoundaryGenerationFailed (random 16)) (\<lambda>bs.
       with_boundary content_length form_parts (generated_boundary bs)))"

section \<open>What the body contains\<close>

text \<open>
  The form as a text, part by part. \<open>source\<close> is the reader of the parts' own bodies and \<open>content\<close> what
  they still hold.
\<close>

fun form_text :: "string \<Rightarrow> bool \<Rightarrow> ('s multipart_part \<times> string) list \<Rightarrow> string" where
  "form_text boundary first [] = closing_text boundary"
| "form_text boundary first ((p, c) # ps) = part_prefix boundary first p @ c @ form_text boundary False ps"

fun segment_content :: "('s \<Rightarrow> string) \<Rightarrow> 's segment_source \<Rightarrow> string" where
  "segment_content content (TextSource m) = memory_content m"
| "segment_content content (PartSource s) = content s"

fun segment_good :: "('s \<Rightarrow> bool) \<Rightarrow> 's segment_source \<Rightarrow> bool" where
  "segment_good good (TextSource m) = True"
| "segment_good good (PartSource s) = good s"

abbreviation exact_segment_good :: "('s \<Rightarrow> string) \<Rightarrow> ('s \<Rightarrow> bool) \<Rightarrow> 's segment_source exact_body \<Rightarrow> bool" where
  "exact_segment_good content good \<equiv> exact_good (segment_content content) (segment_good good)"

definition body_content :: "('s \<Rightarrow> string) \<Rightarrow> 's multipart_body \<Rightarrow> string" where
  "body_content content m = concat (map (\<lambda>e. segment_content content (exact_source e)) (segments m))"

definition body_good :: "('s \<Rightarrow> string) \<Rightarrow> ('s \<Rightarrow> bool) \<Rightarrow> 's multipart_body \<Rightarrow> bool" where
  "body_good content good m \<longleftrightarrow> multipart_failure m = None \<and> list_all (exact_segment_good content good) (segments m)"

definition multipart_reader :: "'w stop_poll \<Rightarrow> ('s, 'w) reader \<Rightarrow> ('s multipart_body, 'w) reader" where
  "multipart_reader poll source n m w = (case multipart_read poll source n m w of (r, m2, w2) \<Rightarrow> (Some r, m2, w2))"

context quiet_source
begin

lemma segment_quiet: "quiet_source (segment_read never reader) (segment_content content) (segment_good good)"
proof unfold_locales
  fix s n and w :: 'w
  assume g: "segment_good good s" and n: "0 < (n :: nat)"
  show "\<exists>k s2 w2. segment_read never reader n s w = (Some (Ok (take k (segment_content content s))), s2, w2) \<and>
      segment_good good s2 \<and> segment_content content s2 = drop k (segment_content content s) \<and> k \<le> n \<and>
      (segment_content content s \<noteq> [] \<longrightarrow> 0 < k)"
  proof (cases s)
    case (TextSource m)
    obtain k m2 w2 where "memory_read never n m w = (Some (Ok (take k (memory_content m))), m2, w2)"
      "memory_content m2 = drop k (memory_content m)" "k \<le> n" "memory_content m \<noteq> [] \<longrightarrow> 0 < k"
      using memory.read_next [OF TrueI n, of m w] by blast
    then show ?thesis using TextSource by (intro exI [of _ k]) simp
  next
    case (PartSource t)
    then obtain k t2 w2 where "reader n t w = (Some (Ok (take k (content t))), t2, w2)" "good t2"
      "content t2 = drop k (content t)" "k \<le> n" "content t \<noteq> [] \<longrightarrow> 0 < k"
      using read_next [of t n w] g n by auto
    then show ?thesis using PartSource by (intro exI [of _ k]) simp
  qed
qed

lemma exact_segment_quiet:
  "quiet_source (exact_reader never (segment_read never reader)) (\<lambda>e. segment_content content (exact_source e))
     (exact_segment_good content good)"
  by (rule quiet_source.wrapped [OF segment_quiet])

lemma read_segments_next:
  assumes "list_all (exact_segment_good content good) es" and "0 < n"
  shows "\<exists>k es2 w2. read_segments never reader n es w =
      (Ok (take k (concat (map (\<lambda>e. segment_content content (exact_source e)) es))), es2, w2) \<and>
    list_all (exact_segment_good content good) es2 \<and>
    concat (map (\<lambda>e. segment_content content (exact_source e)) es2) =
      drop k (concat (map (\<lambda>e. segment_content content (exact_source e)) es)) \<and> k \<le> n \<and>
    (concat (map (\<lambda>e. segment_content content (exact_source e)) es) \<noteq> [] \<longrightarrow> 0 < k)"
  using assms(1)
proof (induction es arbitrary: w)
  case (Cons e es)
  let ?c = "segment_content content (exact_source e)"
  let ?rest = "concat (map (\<lambda>e. segment_content content (exact_source e)) es)"
  have ge: "exact_segment_good content good e" "list_all (exact_segment_good content good) es" using Cons.prems by auto
  obtain k e2 w2 where "exact_reader never (segment_read never reader) n e w = (Some (Ok (take k ?c)), e2, w2)"
    and g2: "exact_segment_good content good e2" "segment_content content (exact_source e2) = drop k ?c"
    and k: "k \<le> n" "?c \<noteq> [] \<longrightarrow> 0 < k"
    using quiet_source.read_next [OF exact_segment_quiet ge(1) assms(2), of w] by blast
  then have r: "exact_read never (segment_read never reader) n e w = (Ok (take k ?c), e2, w2)"
    by (auto simp: exact_reader_def split: prod.splits)
  show ?case
  proof (cases "?c = []")
    case True
    then have "read_segments never reader n (e # es) w = read_segments never reader n es w2" using r by simp
    then show ?thesis using Cons.IH [OF ge(2), of w2] True by simp
  next
    case False
    then have "take k ?c \<noteq> []" using k by simp
    then have "read_segments never reader n (e # es) w = (Ok (take k ?c), e2 # es, w2)" using r by simp
    moreover have "take (min k (length ?c)) (?c @ ?rest) = take k ?c"
      "drop (min k (length ?c)) (?c @ ?rest) = drop k ?c @ ?rest"
      by (simp_all add: min_def)
    ultimately show ?thesis
      using False k g2 ge(2) by (intro exI [of _ "min k (length ?c)"] exI [of _ "e2 # es"] exI [of _ w2]) simp
  qed
qed (auto intro: exI [of _ 0])

lemma multipart_read_next:
  assumes "body_good content good m" and "0 < n"
  shows "\<exists>k m2 w2. multipart_reader never reader n m w = (Some (Ok (take k (body_content content m))), m2, w2) \<and>
    body_good content good m2 \<and> body_content content m2 = drop k (body_content content m) \<and> k \<le> n \<and>
    (body_content content m \<noteq> [] \<longrightarrow> 0 < k)"
proof -
  have "list_all (exact_segment_good content good) (segments m)" using assms(1) by (simp add: body_good_def)
  from read_segments_next [OF this assms(2), of w] obtain k es2 w2 where
    r: "read_segments never reader n (segments m) w = (Ok (take k (body_content content m)), es2, w2)"
    and e: "list_all (exact_segment_good content good) es2"
      "concat (map (\<lambda>e. segment_content content (exact_source e)) es2) = drop k (body_content content m)"
      "k \<le> n" "body_content content m \<noteq> [] \<longrightarrow> 0 < k"
    unfolding body_content_def by blast
  have "multipart_reader never reader n m w = (Some (Ok (take k (body_content content m))), m\<lparr>segments := es2\<rparr>, w2)"
    using r assms by (simp add: multipart_reader_def multipart_read_def never_def body_good_def)
  then show ?thesis using e assms(1) by (auto simp: body_good_def body_content_def)
qed

lemma multipart_quiet:
  "quiet_source (multipart_reader never reader) (body_content content) (body_good content good)"
  by unfold_locales (rule multipart_read_next)

end

section \<open>Building delivers the form\<close>

text \<open>The segments built so far: their total length, and what they contain.\<close>

definition built :: "('s \<Rightarrow> string) \<Rightarrow> ('s \<Rightarrow> bool) \<Rightarrow> string \<Rightarrow> 's segment_list \<Rightarrow> bool" where
  "built content good front acc \<longleftrightarrow>
     list_all (exact_segment_good content good) (fst acc) \<and>
     concat (map (\<lambda>e. segment_content content (exact_source e)) (fst acc)) = front \<and>
     unat (snd acc) = length front \<and> snd acc \<le> max_http_request_body_bytes"

lemma unat_max_body: "unat max_http_request_body_bytes = 536870912"
  by (simp add: max_http_request_body_bytes_def)

lemma memory_segment_Ok:
  assumes "memory_segment content_length v = Ok e"
  shows "exact_segment_good content good e \<and> segment_content content (exact_source e) = v \<and> unat (exact_length e) = length v"
proof -
  have "length v \<le> unat max_http_request_body_bytes"
    using assms by (auto simp: memory_segment_def new_memory_body_def split: if_splits)
  then have "length v < 2 ^ 64" by (simp add: unat_max_body)
  then have "unat (of_nat (length v) :: u64) = length v" by (simp add: unat_of_nat)
  then show ?thesis
    using assms by (auto simp: memory_segment_def new_memory_body_def new_exact_body_def exact_good_def
        memory_length_def memory_content_def split: if_splits)
qed

lemma append_segment_Ok:
  assumes "append_segment e acc = Ok acc2" and "built content good front acc"
    and "exact_segment_good content good e" and "segment_content content (exact_source e) = v"
    and "unat (exact_length e) = length v"
  shows "built content good (front @ v) acc2"
proof -
  obtain es used where acc: "acc = (es, used)" by (cases acc)
  have acc2: "acc2 = (es @ [e], used + exact_length e)" and le: "exact_length e \<le> max_http_request_body_bytes - used"
    using assms(1) by (auto simp: append_segment_def acc split: if_splits)
  have "used \<le> max_http_request_body_bytes" using assms(2) by (simp add: built_def acc)
  then have sum: "unat used + unat (exact_length e) \<le> unat max_http_request_body_bytes"
    using le by (simp add: word_le_nat_alt unat_sub)
  then have "unat used + unat (exact_length e) < 2 ^ 64"
    by (simp add: unat_max_body)
  then have "unat (used + exact_length e) = unat used + unat (exact_length e)"
    by (simp add: unat_word_ariths)
  then show ?thesis
    using assms sum by (simp add: built_def acc acc2 word_le_nat_alt)
qed

lemma add_parts_Ok:
  assumes "add_parts content_length boundary first ps acc = Ok acc2" and "built content good front acc"
    and "\<forall>p \<in> set ps. good (part_body p) \<and> content_length (part_body p) = Some (of_nat (length (content (part_body p)))) \<and>
      length (content (part_body p)) < 2 ^ 64"
  shows "\<exists>mid. form_text boundary first (map (\<lambda>p. (p, content (part_body p))) ps) = mid @ closing_text boundary \<and>
    built content good (front @ mid) acc2 \<and> list_all (\<lambda>p. validate_part p = Ok ()) ps"
  using assms
proof (induction ps arbitrary: first acc front)
  case (Cons p ps)
  let ?c = "content (part_body p)"
  obtain body pre acc1 acc3 where v: "validate_part p = Ok ()"
    and b: "new_exact_body (segment_length content_length) (PartSource (part_body p)) = Ok body"
    and t: "memory_segment content_length (part_prefix boundary first p) = Ok pre"
    and a: "append_segment pre acc = Ok acc1" "append_segment body acc1 = Ok acc3"
    and rest: "add_parts content_length boundary False ps acc3 = Ok acc2"
    using Cons.prems(1) by auto
  have len: "unat (of_nat (length ?c) :: u64) = length ?c" using Cons.prems(3) by (simp add: unat_of_nat)
  have body: "exact_segment_good content good body" "segment_content content (exact_source body) = ?c"
    "unat (exact_length body) = length ?c"
    using b Cons.prems(3) len by (auto simp: new_exact_body_def exact_good_def split: if_splits)
  have "built content good (front @ part_prefix boundary first p) acc1"
    using append_segment_Ok [OF a(1) Cons.prems(2)] memory_segment_Ok [OF t] by blast
  from append_segment_Ok [OF a(2) this body] have "built content good (front @ part_prefix boundary first p @ ?c) acc3"
    by simp
  from Cons.IH [OF rest this] Cons.prems(3) obtain mid where
    "form_text boundary False (map (\<lambda>p. (p, content (part_body p))) ps) = mid @ closing_text boundary"
    "built content good ((front @ part_prefix boundary first p @ ?c) @ mid) acc2"
    "list_all (\<lambda>p. validate_part p = Ok ()) ps" by auto
  then show ?case using v by (intro exI [of _ "part_prefix boundary first p @ ?c @ mid"]) simp
qed (auto simp: built_def)

lemma with_boundary_Ok:
  assumes "with_boundary content_length ps boundary = Ok (t, m)"
    and "\<forall>p \<in> set ps. good (part_body p) \<and> content_length (part_body p) = Some (of_nat (length (content (part_body p)))) \<and>
      length (content (part_body p)) < 2 ^ 64"
  shows "body_good content good m \<and>
    body_content content m = form_text boundary True (map (\<lambda>p. (p, content (part_body p))) ps) \<and>
    unat (multipart_length m) = length (body_content content m) \<and> multipart_length m \<le> max_http_request_body_bytes \<and>
    t = ''multipart/form-data; boundary='' @ boundary \<and> list_all (\<lambda>p. validate_part p = Ok ()) ps"
proof -
  obtain acc fin acc2 where p: "add_parts content_length boundary True ps ([], 0) = Ok acc"
    and f: "memory_segment content_length (closing_text boundary) = Ok fin" "append_segment fin acc = Ok acc2"
    and m: "t = ''multipart/form-data; boundary='' @ boundary"
      "m = \<lparr>segments = fst acc2, multipart_length = snd acc2, multipart_failure = None\<rparr>"
    using assms(1) by (auto simp: with_boundary_def split: if_splits prod.splits)
  have "built content good [] ([], 0)" by (simp add: built_def)
  from add_parts_Ok [OF p this assms(2)] obtain mid where
    front: "form_text boundary True (map (\<lambda>p. (p, content (part_body p))) ps) = mid @ closing_text boundary"
    and b: "built content good mid acc" and v: "list_all (\<lambda>p. validate_part p = Ok ()) ps" by auto
  have "built content good (mid @ closing_text boundary) acc2"
    using append_segment_Ok [OF f(2) b] memory_segment_Ok [OF f(1)] by blast
  then show ?thesis using front v m by (simp add: built_def body_good_def body_content_def)
qed

lemma valid_part_name:
  assumes "validate_part p = Ok u" and "c \<in> set (part_name p) \<or> (\<exists>f. part_filename p = Some f \<and> c \<in> set f)"
  shows "c \<notin> {CHR 0x0D, CHR 0x0A, CHR 0x22}"
proof -
  have "simple_byte c \<or> c = CHR ''.''"
    using assms by (auto simp: validate_part_def list_all_iff split: if_splits option.splits)
  then show ?thesis by (auto simp: simple_byte_def byte_class_defs)
qed

section \<open>Properties\<close>

text \<open>
  C22: A multipart body is the form it was built from. If the body of the parts is accepted, every part
  delivers its content and nobody stops it, then reading with buffers of any positive sizes, often
  enough, yields exactly the text of the form (for each part its delimiter, its header lines and its
  content, then the closing delimiter), no name or file name breaks out of its quotes or its line, and the length declared for the request is the length of that
  text and within the limit.
\<close>

theorem multipart_body_is_the_form:
  assumes "quiet_source source content good"
    and "with_boundary content_length ps boundary = Ok (t, m)"
    and "\<forall>p \<in> set ps. good (part_body p) \<and> content_length (part_body p) = Some (of_nat (length (content (part_body p)))) \<and>
      length (content (part_body p)) < 2 ^ 64"
    and "\<forall>n \<in> set ns. 0 < n" and "unat (multipart_length m) \<le> length ns"
  shows "fst (drain (multipart_reader never source) ns m w) =
      Some (Ok (form_text boundary True (map (\<lambda>p. (p, content (part_body p))) ps))) \<and>
    unat (multipart_length m) = length (form_text boundary True (map (\<lambda>p. (p, content (part_body p))) ps)) \<and>
    multipart_length m \<le> max_http_request_body_bytes \<and>
    (\<forall>p \<in> set ps. \<forall>c. c \<in> set (part_name p) \<or> (\<exists>f. part_filename p = Some f \<and> c \<in> set f) \<longrightarrow>
       c \<notin> {CHR 0x0D, CHR 0x0A, CHR 0x22})"
proof -
  note m = with_boundary_Ok [where good = good, OF assms(2,3)]
  have "fst (drain (multipart_reader never source) ns m w) = Some (Ok (body_content content m))"
    by (rule quiet_source.drain_all [OF quiet_source.multipart_quiet [OF assms(1)]])
      (use m assms(4,5) in auto)
  moreover have "\<forall>p \<in> set ps. \<forall>c. c \<in> set (part_name p) \<or> (\<exists>f. part_filename p = Some f \<and> c \<in> set f) \<longrightarrow>
       c \<notin> {CHR 0x0D, CHR 0x0A, CHR 0x22}"
    using m valid_part_name unfolding list_all_iff by blast
  ultimately show ?thesis using m by simp
qed

text \<open>A form with one file of three bytes.\<close>

theorem multipart_body_is_the_form_witness:
  "let p = \<lparr>part_name = ''file'', part_filename = Some ''a.zevtc'', part_content_type = None,
         part_body = \<lparr>memory_bytes = ''abc'', memory_offset = 0\<rparr>\<rparr> in
   \<exists>t m. with_boundary (\<lambda>b. Some (memory_length b)) [p] ''x'' = Ok (t, m) \<and>
     fst (drain (multipart_reader never (memory_read never)) (replicate 200 8) m ()) =
       Some (Ok (part_prefix ''x'' True p @ ''abc'' @ closing_text ''x''))"
proof -
  let ?p = "\<lparr>part_name = ''file'', part_filename = Some ''a.zevtc'', part_content_type = None,
         part_body = \<lparr>memory_bytes = ''abc'', memory_offset = 0\<rparr>\<rparr>"
  have parts: "\<forall>q \<in> set [?p]. True \<and> Some (memory_length (part_body q)) = Some (of_nat (length (memory_content (part_body q)))) \<and>
      length (memory_content (part_body q)) < 2 ^ 64"
    by (simp add: memory_length_def memory_content_def)
  obtain t m where b: "with_boundary (\<lambda>b. Some (memory_length b)) [?p] ''x'' = Ok (t, m)"
    by (simp add: with_boundary_def validate_count_def max_multipart_parts_def max_multipart_boundary_bytes_def
        is_http_token_byte_def validate_part_def simple_byte_def byte_class_defs memory_segment_def new_memory_body_def
        new_exact_body_def max_http_request_body_bytes_def memory_length_def append_segment_def part_prefix_def
        closing_text_def quoted_def line_break_def)
  have size: "unat (multipart_length m) \<le> length (replicate 200 (8 :: nat))"
    using with_boundary_Ok [where good = "\<lambda>_. True" and content = memory_content, OF b parts]
    by (simp add: part_prefix_def quoted_def line_break_def closing_text_def memory_content_def)
  have "fst (drain (multipart_reader never (memory_read never)) (replicate 200 8) m ()) =
      Some (Ok (form_text ''x'' True (map (\<lambda>q. (q, memory_content (part_body q))) [?p])))"
    using multipart_body_is_the_form [OF memory.quiet_source_axioms b parts, of "replicate 200 8" "()"] size by simp
  then show ?thesis using b by (simp add: Let_def memory_content_def)
qed

end
