(* ===== verification/Coordinator_Receipts.thy ===== *)
theory Coordinator_Receipts
  imports Coordinator_Evolution
begin

text \<open>
  Receipts through the life of the coordinator: a destination that may still be tried has no receipt.
  Every operation of the coordinator keeps this, and so does restoring a history in which it holds; the
  histories that the coordinator itself hands out are such histories.
\<close>

section \<open>Records without an early receipt\<close>

definition no_receipt :: "provider \<Rightarrow> upload_job_record \<Rightarrow> bool" where
  "no_receipt p r =
     (case p of
        DpsReport \<Rightarrow> True
      | Wingman \<Rightarrow> wingman_receipt r = None
      | DonBot \<Rightarrow> donbot_receipt r = None
      | Twitch \<Rightarrow> twitch_receipt r = None)"

text \<open>
  The states from which a destination may come to be tried again without an explicit delivery, which
  would clear its receipt. A failed chat message may keep the receipt of a dropped one, because its
  manual retry clears it.
\<close>

definition may_be_tried :: "provider \<Rightarrow> provider_state \<Rightarrow> bool" where
  "may_be_tried p s \<longleftrightarrow> is_busy s \<or> s = Skipped \<or> (s = Failed \<and> p \<noteq> Twitch)"

definition unreceipted :: "upload_job_record \<Rightarrow> bool" where
  "unreceipted r \<longleftrightarrow> (\<forall>p. may_be_tried p (state (providers r p)) \<longrightarrow> no_receipt p r)"

text \<open>The same, but for one destination.\<close>

definition unreceipted_but :: "provider \<Rightarrow> upload_job_record \<Rightarrow> bool" where
  "unreceipted_but q r \<longleftrightarrow> (\<forall>p. p \<noteq> q \<longrightarrow> may_be_tried p (state (providers r p)) \<longrightarrow> no_receipt p r)"

text \<open>A change keeps this when each destination that may be tried either lost its receipt or was so before.\<close>

lemma unreceipted_change:
  assumes "unreceipted r"
    and "\<And>q. may_be_tried q (state (providers r' q)) \<Longrightarrow>
      no_receipt q r' \<or> may_be_tried q (state (providers r q)) \<and> (no_receipt q r \<longrightarrow> no_receipt q r')"
  shows "unreceipted r'"
  using assms unfolding unreceipted_def by blast

lemma unreceipted_frame:
  "providers r' = providers r \<Longrightarrow> (\<And>q. no_receipt q r' = no_receipt q r) \<Longrightarrow> unreceipted r' = unreceipted r"
  by (simp add: unreceipted_def)

section \<open>Operations on a job\<close>

lemma unreceipted_transition:
  assumes "transition p nxt d j = Ok j'" and "unreceipted (snapshot j)" and "p \<noteq> Twitch \<or> nxt \<noteq> Waiting"
  shows "unreceipted (snapshot j')"
  unfolding unreceipted_def
proof (intro allI impI)
  fix q
  assume tried: "may_be_tried q (state (providers (snapshot j') q))"
  have same: "no_receipt q (snapshot j') = no_receipt q (snapshot j)"
    and st: "state (providers (snapshot j') r) = (if r = p then nxt else state (providers (snapshot j) r))" for r
    using transition_frame [OF assms(1)] transition_status [OF assms(1)]
    by (auto simp: no_receipt_def provider_status_def split: provider.splits)
  have "may_be_tried q (state (providers (snapshot j) q))"
  proof (cases "q = p")
    case True
    have "allows (state (providers (snapshot j) p)) nxt"
      using transition_allowed [OF assms(1)] by (simp add: provider_status_def)
    then show ?thesis using tried st [of p] True assms(3)
      by (cases "state (providers (snapshot j) p)"; cases nxt) (auto simp: may_be_tried_def)
  qed (use tried st [of q] in simp)
  then show "no_receipt q (snapshot j')" using assms(2) same by (simp add: unreceipted_def)
qed

text \<open>What follows the record of a receipt: the end of the attempt.\<close>

lemma unreceipted_end:
  assumes "transition p nxt d j = Ok j'" and "unreceipted_but p (snapshot j)"
    and "nxt = Succeeded \<or> (nxt = Failed \<and> p = Twitch)"
  shows "unreceipted (snapshot j')"
  unfolding unreceipted_def
proof (intro allI impI)
  fix q
  assume tried: "may_be_tried q (state (providers (snapshot j') q))"
  have same: "no_receipt q (snapshot j') = no_receipt q (snapshot j)"
    and st: "state (providers (snapshot j') r) = (if r = p then nxt else state (providers (snapshot j) r))" for r
    using transition_frame [OF assms(1)] transition_status [OF assms(1)]
    by (auto simp: no_receipt_def provider_status_def split: provider.splits)
  have "q \<noteq> p" using tried st [of p] assms(3) by (auto simp: may_be_tried_def)
  then show "no_receipt q (snapshot j')" using tried same st [of q] assms(2) by (simp add: unreceipted_but_def)
qed

lemma recorded_receipt:
  "record_wingman_upload r1 j = Ok j' \<Longrightarrow> providers (snapshot j') = providers (snapshot j) \<and>
     (\<forall>q. q \<noteq> Wingman \<longrightarrow> no_receipt q (snapshot j') = no_receipt q (snapshot j))"
  "record_donbot_upload r2 j = Ok j' \<Longrightarrow> providers (snapshot j') = providers (snapshot j) \<and>
     (\<forall>q. q \<noteq> DonBot \<longrightarrow> no_receipt q (snapshot j') = no_receipt q (snapshot j))"
  "record_twitch_delivery r3 j = Ok j' \<Longrightarrow> providers (snapshot j') = providers (snapshot j) \<and>
     (\<forall>q. q \<noteq> Twitch \<longrightarrow> no_receipt q (snapshot j') = no_receipt q (snapshot j))"
  by (auto simp: record_wingman_upload_def record_donbot_upload_def record_twitch_delivery_def no_receipt_def
      split: if_splits provider.splits)

lemma record_leaves_unreceipted:
  "record_wingman_upload r1 j = Ok j' \<Longrightarrow> unreceipted (snapshot j) \<Longrightarrow> unreceipted_but Wingman (snapshot j')"
  "record_donbot_upload r2 j = Ok j' \<Longrightarrow> unreceipted (snapshot j) \<Longrightarrow> unreceipted_but DonBot (snapshot j')"
  "record_twitch_delivery r3 j = Ok j' \<Longrightarrow> unreceipted (snapshot j) \<Longrightarrow> unreceipted_but Twitch (snapshot j')"
  by (drule recorded_receipt; simp add: unreceipted_def unreceipted_but_def)+

lemma unreceipted_weaken: "unreceipted r \<Longrightarrow> unreceipted_but p r"
  by (simp add: unreceipted_def unreceipted_but_def)

lemma unreceipted_metadata:
  "set_encounter_metadata m j = Ok j' \<Longrightarrow> unreceipted (snapshot j) \<Longrightarrow> unreceipted (snapshot j')"
  by (erule unreceipted_change)
     (auto simp: set_encounter_metadata_def no_receipt_def split: if_splits provider.splits)

lemma unreceipted_complete:
  assumes "complete_dps_report r d j = Ok j'" and "unreceipted (snapshot j)"
  shows "unreceipted (snapshot j')"
proof (rule unreceipted_change [OF assms(2)])
  fix q
  assume "may_be_tried q (state (providers (snapshot j') q))"
  then show "no_receipt q (snapshot j') \<or>
      may_be_tried q (state (providers (snapshot j) q)) \<and> (no_receipt q (snapshot j) \<longrightarrow> no_receipt q (snapshot j'))"
    using assms(1) by (cases q) (auto simp: complete_dps_report_def set_status_def no_receipt_def split: if_splits)
qed

lemma unreceipted_rearm:
  assumes "unreceipted (snapshot j)"
  shows "unreceipted (snapshot (rearm_skipped p j))"
proof (rule unreceipted_change [OF assms])
  fix q
  assume "may_be_tried q (state (providers (snapshot (rearm_skipped p j)) q))"
  then show "no_receipt q (snapshot (rearm_skipped p j)) \<or> may_be_tried q (state (providers (snapshot j) q)) \<and>
      (no_receipt q (snapshot j) \<longrightarrow> no_receipt q (snapshot (rearm_skipped p j)))"
    by (cases "q = p"; cases q)
       (auto simp: rearm_skipped_def set_status_def no_receipt_def provider_status_def may_be_tried_def split: if_splits)
qed

lemma unreceipted_explicit:
  assumes "prepare_explicit_delivery p j = Ok j'" and "unreceipted (snapshot j)"
  shows "unreceipted (snapshot j')"
proof (rule unreceipted_change [OF assms(2)])
  fix q
  assume "may_be_tried q (state (providers (snapshot j') q))"
  moreover from assms(1) have j: "snapshot j' = clear_receipt p ((snapshot j)\<lparr>providers :=
      (providers (snapshot j))(p := (provider_status j p)\<lparr>state := Waiting, detail := ''''\<rparr>)\<rparr>)"
    by (auto simp: prepare_explicit_delivery_def Let_def set_status_def split: if_splits)
  ultimately show "no_receipt q (snapshot j') \<or>
      may_be_tried q (state (providers (snapshot j) q)) \<and> (no_receipt q (snapshot j) \<longrightarrow> no_receipt q (snapshot j'))"
    by (cases p; cases q) (simp_all add: clear_receipt_def no_receipt_def)
qed

lemma unreceipted_manual:
  assumes "prepare_manual_retry p j = Ok j'" and "unreceipted (snapshot j)"
  shows "unreceipted (snapshot j')"
proof -
  obtain j1 where t: "transition p Waiting '''' j = Ok j1"
    using assms(1) by (auto simp: prepare_manual_retry_def split: if_split_asm)
  have j: "j' = (if p = Twitch then j1\<lparr>snapshot := (snapshot j1)\<lparr>twitch_receipt := None\<rparr>\<rparr>
       else if p = DpsReport \<and> dps_report_result (snapshot j1) = None
       then fold rearm_skipped [Wingman, DonBot, Twitch] j1 else j1)"
    using assms(1) t
    by (cases "p = Twitch"; cases "p = DpsReport \<and> dps_report_result (snapshot j1) = None")
       (auto simp: prepare_manual_retry_def split: if_split_asm)
  show ?thesis
  proof (cases "p = Twitch")
    case False
    then show ?thesis using j unreceipted_rearm unreceipted_transition [OF t assms(2)] by auto
  next
    case True
    have st: "state (providers (snapshot j1) r) = (if r = Twitch then Waiting else state (providers (snapshot j) r))" for r
      using transition_status [OF t, of r] True by (simp add: provider_status_def)
    show ?thesis
    proof (rule unreceipted_change [OF assms(2)])
      fix q
      assume "may_be_tried q (state (providers (snapshot j') q))"
      then show "no_receipt q (snapshot j') \<or>
          may_be_tried q (state (providers (snapshot j) q)) \<and> (no_receipt q (snapshot j) \<longrightarrow> no_receipt q (snapshot j'))"
        using j True st transition_frame [OF t] by (cases q) (simp_all add: no_receipt_def)
    qed
  qed
qed

lemma unreceipted_retry: "retry_job p e = Ok j \<Longrightarrow> unreceipted (snapshot (job e)) \<Longrightarrow> unreceipted (snapshot j)"
  by (auto simp: retry_job_def rearm_explicit_def split: if_splits
      dest!: unreceipted_transition unreceipted_explicit unreceipted_manual)

lemma unreceipted_reupload: "reupload_job j = Ok j' \<Longrightarrow> unreceipted (snapshot j) \<Longrightarrow> unreceipted (snapshot j')"
  by (auto simp: reupload_job_def dest!: unreceipted_explicit)

lemma unreceipted_new: "new_job i f t sel = Ok j \<Longrightarrow> unreceipted (snapshot j)"
  by (auto simp: new_job_def unreceipted_def no_receipt_def split: if_splits provider.splits)

lemma unreceipted_restored:
  assumes "restore_job i r = Ok j" and "unreceipted r"
  shows "unreceipted (snapshot j)"
proof (rule unreceipted_change [OF assms(2)])
  fix q
  assume "may_be_tried q (state (providers (snapshot j) q))"
  then show "no_receipt q (snapshot j) \<or>
      may_be_tried q (state (providers r q)) \<and> (no_receipt q r \<longrightarrow> no_receipt q (snapshot j))"
    using assms(1) by (cases q)
      (auto simp: restore_job_def restore_status_def no_receipt_def may_be_tried_def split: if_splits)
qed

section \<open>Settling a result\<close>

lemma unreceipted_success:
  assumes "record_success p s d j = Ok j'" and "unreceipted (snapshot j)"
  shows "(if p = DpsReport then unreceipted (snapshot j') else unreceipted_but p (snapshot j'))"
  using assms
  by (cases p; cases s)
     (auto simp: record_success_def unreceipted_weaken split: option.splits
      dest: unreceipted_complete record_leaves_unreceipted)

lemma unreceipted_next_state:
  assumes "next_state env p out j w = (Ok (nxt, j'), w')" and "unreceipted (snapshot j)"
  shows "unreceipted (snapshot j') \<and> nxt \<noteq> Waiting \<or>
     unreceipted_but p (snapshot j') \<and> (nxt = Succeeded \<or> (nxt = Failed \<and> p = Twitch)) \<and> \<not> (p = DpsReport \<and> nxt = Succeeded)"
  using assms
  by (auto simp: next_state_def Let_def split: upload_outcome.splits if_splits prod.splits
      dest!: unreceipted_success dest: record_leaves_unreceipted)

lemma unreceipted_settled:
  assumes "settle_job env p out j w = (Ok (nxt, j'), w')" and "unreceipted (snapshot j)"
  shows "unreceipted (snapshot j')"
proof -
  obtain r w1 where n: "next_state env p out j w = (r, w1)" by fastforce
  with assms obtain nx j1 where r: "r = Ok (nx, j1)" by (cases r) (auto simp: settle_job_def)
  note ns = unreceipted_next_state [OF n [unfolded r] assms(2)]
  show ?thesis
  proof (cases "p = DpsReport \<and> nx = Succeeded")
    case True
    then show ?thesis using assms(1) n r ns by (auto simp: settle_job_def)
  next
    case False
    then obtain d where t: "transition p nx d j1 = Ok j'" using assms(1) n r by (auto simp: settle_job_def split: if_splits)
    from ns show ?thesis
    proof (elim disjE)
      assume "unreceipted (snapshot j1) \<and> nx \<noteq> Waiting"
      then show ?thesis using unreceipted_transition [OF t] by blast
    next
      assume "unreceipted_but p (snapshot j1) \<and> (nx = Succeeded \<or> (nx = Failed \<and> p = Twitch)) \<and> \<not> (p = DpsReport \<and> nx = Succeeded)"
      then show ?thesis using unreceipted_end [OF t] by blast
    qed
  qed
qed

section \<open>Operations of the coordinator\<close>

definition all_unreceipted :: "'w coordinator \<Rightarrow> bool" where
  "all_unreceipted c \<longleftrightarrow> (\<forall>e \<in> set (jobs c). unreceipted (snapshot (job e)))"

lemma kept_same: "set (jobs c') \<subseteq> set (jobs c) \<Longrightarrow> all_unreceipted c \<Longrightarrow> all_unreceipted c'"
  unfolding all_unreceipted_def by blast

lemma kept_world [simp]: "all_unreceipted (c\<lparr>world := w\<rparr>) = all_unreceipted c"
  and kept_cursor [simp]: "all_unreceipted (c\<lparr>result_cursor := k\<rparr>) = all_unreceipted c"
  by (simp_all add: all_unreceipted_def)

lemma kept_trim: "all_unreceipted c \<Longrightarrow> all_unreceipted (trim_to n c)"
  by (rule kept_same) (auto dest: trim_entries_mem)

lemma kept_set_entry:
  assumes "all_unreceipted c" and "i < length (jobs c) \<Longrightarrow> unreceipted (snapshot (job e))"
  shows "all_unreceipted (set_entry i e c)"
proof (cases "i < length (jobs c)")
  case True
  have "set ((jobs c)[i := e]) \<subseteq> insert e (set (jobs c))" by (rule set_update_subset_insert)
  with assms True show ?thesis unfolding all_unreceipted_def set_entry_def by auto
qed (use assms in \<open>simp add: all_unreceipted_def set_entry_def list_update_beyond\<close>)

lemma kept_job: "all_unreceipted c \<Longrightarrow> i < length (jobs c) \<Longrightarrow> unreceipted (snapshot (job (jobs c ! i)))"
  by (simp add: all_unreceipted_def)

lemma kept_set_job:
  assumes "all_unreceipted c" and "unreceipted (snapshot (job (jobs c ! i))) \<Longrightarrow> unreceipted (snapshot j)"
  shows "all_unreceipted (set_job i j c)"
  unfolding set_job_def by (rule kept_set_entry) (use assms kept_job in auto)

lemma kept_transition:
  "all_unreceipted c \<Longrightarrow> transition p nxt d (job (jobs c ! i)) = Ok j \<Longrightarrow> nxt \<noteq> Waiting \<Longrightarrow> all_unreceipted (set_job i j c)"
  by (rule kept_set_job) (auto dest: unreceipted_transition)

lemma kept_fold: "(\<And>x c. all_unreceipted c \<Longrightarrow> all_unreceipted (f x c)) \<Longrightarrow> all_unreceipted c \<Longrightarrow> all_unreceipted (fold f xs c)"
  by (induction xs arbitrary: c) auto

lemma kept_try: "all_unreceipted c \<Longrightarrow> nxt \<noteq> Waiting \<Longrightarrow> all_unreceipted (try_transition i p nxt d c)"
  by (auto simp: try_transition_def split: sum.split intro: kept_transition)

lemma kept_skip_wingman: "all_unreceipted c \<Longrightarrow> all_unreceipted (snd (skip_wingman i c))"
  by (auto simp: skip_wingman_def split: sum.split intro: kept_transition)

lemma kept_settle_dependents: "all_unreceipted c \<Longrightarrow> all_unreceipted (settle_dependents i b c)"
  unfolding settle_dependents_def by (rule kept_fold) (auto simp: settle_dependent_def intro: kept_try)

lemma kept_fail_dispatch: "all_unreceipted c \<Longrightarrow> all_unreceipted (fail_dispatch i p c)"
  by (auto simp: fail_dispatch_def Let_def intro!: kept_settle_dependents kept_try)

lemma kept_dispatch:
  assumes "all_unreceipted c"
  shows "all_unreceipted (snd (dispatch env i p c))"
proof (cases "admit c i p")
  case (Inl e)
  then show ?thesis using assms by (auto simp: dispatch_def intro: kept_skip_wingman kept_fail_dispatch)
next
  case (Inr j)
  have "all_unreceipted (set_job i j c)" using kept_transition [OF assms admit_Ok(4) [OF Inr]] by simp
  then have w: "all_unreceipted ((set_job i j c)\<lparr>world := w\<rparr>)" for w by simp
  show ?thesis
    using Inr w kept_fail_dispatch [OF w] kept_skip_wingman [OF assms]
    by (auto simp: dispatch_def Let_def split: prod.split sum.split)
qed

lemma kept_dispatch_waiting: "all_unreceipted c \<Longrightarrow> all_unreceipted (snd (dispatch_waiting env i p c))"
  by (simp add: dispatch_waiting_def kept_dispatch)

lemma kept_release: "all_unreceipted c \<Longrightarrow> all_unreceipted (release_dependent env i p c)"
  by (simp add: release_dependent_def kept_dispatch_waiting)

lemma kept_configure: "all_unreceipted c \<Longrightarrow> all_unreceipted (snd (configure_provider env conf c))"
  by (simp add: configure_provider_def Let_def split: prod.split)

lemma kept_append:
  "all_unreceipted c \<Longrightarrow> unreceipted (snapshot (job e)) \<Longrightarrow> all_unreceipted (c\<lparr>jobs := jobs c @ [e], next_id := n\<rparr>)"
  by (auto simp: all_unreceipted_def)

lemma kept_add_pending:
  assumes "all_unreceipted c"
  shows "all_unreceipted (snd (add_pending env f sel c))"
proof -
  have t: "all_unreceipted (trim_to k (c\<lparr>world := w\<rparr>))" for k w using assms by (simp add: kept_trim)
  show ?thesis
    using assms kept_append [OF t]
    by (auto simp: add_pending_def Let_def new_entry_def split: option.split sum.split prod.split dest: unreceipted_new)
qed

lemma kept_set_metadata:
  assumes "all_unreceipted c"
  shows "all_unreceipted (snd (set_metadata env jid m c))"
proof (cases "stopping c \<or> is_err (pending_index c jid)")
  case True
  then show ?thesis using assms by (auto simp: set_metadata_def is_err_def split: sum.splits)
next
  case False
  then obtain i where p: "pending_index c jid = Ok i" by (cases "pending_index c jid") auto
  show ?thesis
  proof (cases "set_encounter_metadata m (job (jobs c ! i))")
    case (Inl e)
    with p assms show ?thesis by (simp add: set_metadata_def)
  next
    case (Inr j)
    define c1 where "c1 = set_entry i ((jobs c ! i)\<lparr>job := j, metadata_pending := False\<rparr>) c"
    obtain sk c2 where sk: "(if st c1 i Wingman = Waiting \<and> is_wvw c1 i
        then skip_wingman i c1 else (Ok (), c1)) = (sk, c2)" by fastforce
    obtain r c3 where r: "(if st c2 i DpsReport = Waiting then dispatch env i DpsReport c2
        else let (wingman, c') = dispatch_waiting env i Wingman c2;
                 (donbot, c'') = dispatch_waiting env i DonBot c'
             in (and_then wingman (\<lambda>_. donbot), c'')) = (r, c3)" by fastforce
    have 1: "all_unreceipted c1"
      unfolding c1_def by (rule kept_set_entry [OF assms]) (use unreceipted_metadata [OF Inr] kept_job [OF assms] in simp)
    have 2: "all_unreceipted c2"
      using sk 1 kept_skip_wingman [OF 1, of i] by (auto split: if_splits)
    have "all_unreceipted c3"
      using r kept_dispatch [OF 2, of env i DpsReport] kept_dispatch_waiting [OF 2, of env i Wingman]
        kept_dispatch_waiting [of "snd (dispatch_waiting env i Wingman c2)" env i DonBot]
      by (auto split: if_splits prod.splits)
    moreover have "snd (set_metadata env jid m c) = (if is_ok sk then trim_to (coord_limit c3) c3 else c2)"
      using False p Inr sk r by (auto simp: set_metadata_def c1_def [symmetric] is_ok_def split: sum.splits)
    ultimately show ?thesis using 2 kept_trim [of c3 "coord_limit c3"] by (cases "is_ok sk") simp_all
  qed
qed

lemma kept_fail_waiting: "all_unreceipted c \<Longrightarrow> all_unreceipted (snd (fail_waiting i b ps c))"
proof (induction ps arbitrary: c)
  case (Cons p ps)
  then show ?case using Cons.IH [OF kept_transition [OF Cons.prems]] by (auto split: sum.split)
qed simp

lemma kept_fail_metadata:
  assumes "all_unreceipted c"
  shows "all_unreceipted (snd (fail_metadata jid b c))"
proof -
  have "all_unreceipted (set_entry i ((jobs c ! i)\<lparr>metadata_pending := False\<rparr>) c)" for i
    by (rule kept_set_entry [OF assms]) (use kept_job [OF assms] in simp)
  then have f: "all_unreceipted (snd (fail_waiting i b ps (set_entry i ((jobs c ! i)\<lparr>metadata_pending := False\<rparr>) c)))" for i ps
    by (rule kept_fail_waiting)
  have "all_unreceipted x \<and> all_unreceipted (trim_to (coord_limit x) x)"
    if "fail_waiting i b ps (set_entry i ((jobs c ! i)\<lparr>metadata_pending := False\<rparr>) c) = (r, x)" for i ps r x
    using f [of i ps] that kept_trim by simp
  then show ?thesis using assms by (auto simp: fail_metadata_def split: sum.split prod.split)
qed

lemma kept_settle_effects: "all_unreceipted c \<Longrightarrow> all_unreceipted (settle_effects env p i nxt c)"
  by (simp add: settle_effects_def kept_settle_dependents kept_fold kept_release del: fold.simps)

lemma kept_apply_result:
  assumes "all_unreceipted c"
  shows "all_unreceipted (snd (apply_result env r c))"
proof -
  have "all_unreceipted (trim_to n (settle_effects env p i nxt (set_job i j (c\<lparr>world := w'\<rparr>))))"
    if "settle_job env p out (job (jobs c ! i)) w = (Ok (nxt, j), w')" for p out i nxt j w w' n
    by (intro kept_trim kept_settle_effects kept_set_job) (use assms unreceipted_settled [OF that] in simp_all)
  then show ?thesis using assms by (auto simp: apply_result_unfold Let_def split: sum.split prod.split)
qed

lemma kept_poll: "poll_provider env c = (r, p, c') \<Longrightarrow> all_unreceipted c \<Longrightarrow> all_unreceipted c'"
  by (auto simp: poll_provider_def Let_def split: if_splits prod.splits)

lemma kept_accept: "accept_result env p r c = (b, c') \<Longrightarrow> all_unreceipted c \<Longrightarrow> all_unreceipted c'"
  using kept_apply_result [of c env r] by (auto simp: accept_result_def Let_def split: if_splits prod.splits)

lemma kept_drain: "all_unreceipted c \<Longrightarrow> all_unreceipted (snd (drain_results env mx c))"
proof -
  assume c: "all_unreceipted c"
  have "all_unreceipted c \<longrightarrow> all_unreceipted c'" if "drain_loop env mx s emp c = (s', c')" for s emp s' c'
    by (rule drain_loop_rule [where P = "\<lambda>_ _ c _ c'. all_unreceipted c \<longrightarrow> all_unreceipted c'", OF _ _ _ _ that])
      (auto dest: kept_poll kept_accept)
  with c show ?thesis
    by (cases "drain_loop env mx empty_summary 0 c") (simp add: drain_results_def)
qed

lemma kept_retry_loop: "all_unreceipted c \<Longrightarrow> all_unreceipted (snd (retry_loop env now mx todo n c))"
  by (induction env now mx todo n c rule: retry_loop.induct) (auto simp: kept_dispatch split: provider_state.split)

lemma kept_retries:
  assumes "all_unreceipted c"
  shows "all_unreceipted (snd (dispatch_due_retries env mx c))"
proof -
  have "all_unreceipted (trim_to k x)" if "retry_loop env now mx todo n (c\<lparr>world := w\<rparr>) = (m, x)" for now todo n w m x k
    using kept_retry_loop [of "c\<lparr>world := w\<rparr>" env now mx todo n] that assms kept_trim by simp
  then show ?thesis using assms by (auto simp: dispatch_due_retries_def Let_def split: prod.split)
qed

lemma kept_entry_dispatch:
  assumes "all_unreceipted c" and "unreceipted (snapshot (job (jobs c ! i))) \<Longrightarrow> unreceipted (snapshot (job e))"
  shows "all_unreceipted (snd (dispatch env i p (set_entry i e c)))"
  by (rule kept_dispatch, rule kept_set_entry) (use assms kept_job in auto)

lemma kept_retry_failed: "all_unreceipted c \<Longrightarrow> all_unreceipted (snd (retry_failed env jid p c))"
  by (auto simp: retry_failed_def Let_def split: sum.split intro!: kept_entry_dispatch dest: unreceipted_retry)

lemma kept_reupload:
  assumes "all_unreceipted c"
  shows "all_unreceipted (snd (reupload env jid c))"
proof -
  define start where "start i j =
    set_entry i ((jobs c ! i)\<lparr>job := j, reupload_flag := True,
      intents := (\<lambda>p. if p \<in> set uploads then Reupload else intents (jobs c ! i) p)\<rparr>) c" for i j
  define skip where "skip i j =
    (if is_wvw (start i j) i then skip_wingman i (start i j) else (Ok (), start i j))" for i j
  have skip: "all_unreceipted (snd (skip i j))" if "reupload_job (job (jobs c ! i)) = Ok j" for i j
  proof -
    have "all_unreceipted (start i j)"
      unfolding start_def
      by (rule kept_set_entry [OF assms]) (use unreceipted_reupload [OF that] kept_job [OF assms] in simp)
    then show ?thesis by (simp add: skip_def kept_skip_wingman)
  qed
  have "snd (reupload env jid c) = c \<or>
    (\<exists>i j. reupload_job (job (jobs c ! i)) = Ok j \<and>
       (snd (reupload env jid c) = snd (skip i j) \<or>
        snd (reupload env jid c) = snd (dispatch env i DpsReport (snd (skip i j)))))"
    unfolding reupload_def Let_def start_def [symmetric] skip_def [symmetric]
    by (auto split: sum.split prod.split) (metis snd_conv)+
  then show ?thesis using skip assms kept_dispatch by metis
qed

lemma kept_rechat: "all_unreceipted c \<Longrightarrow> all_unreceipted (snd (rechat env jid c))"
  by (auto simp: rechat_def Let_def split: sum.split intro!: kept_entry_dispatch dest: unreceipted_explicit)

lemma kept_restore_entries:
  "restore_entries n rs = Ok es \<Longrightarrow> \<forall>r \<in> set rs. unreceipted r \<Longrightarrow> \<forall>e \<in> set es. unreceipted (snapshot (job e))"
proof (induction n rs arbitrary: es rule: restore_entries.induct)
  case (2 n r rs)
  then obtain i j es' where j: "restore_job i r = Ok j" and "restore_entries (n + 1) rs = Ok es'"
    and es: "es = new_entry j False # es'"
    using 2(2) by auto
  then show ?case using 2(1) [of es'] 2(3) unreceipted_restored [OF j] by (simp add: new_entry_def)
qed simp

lemma kept_restore:
  assumes "all_unreceipted c" and "\<forall>r \<in> set rs. unreceipted r"
  shows "all_unreceipted (snd (restore rs c))"
proof -
  have "\<forall>r \<in> set (drop k rs). unreceipted r" for k using assms(2) in_set_dropD by metis
  then show ?thesis
    using assms(1) kept_restore_entries by (fastforce simp: restore_def all_unreceipted_def split: sum.split)
qed

lemma kept_limit: "all_unreceipted c \<Longrightarrow> all_unreceipted (snd (set_history_limit n c))"
proof -
  assume "all_unreceipted c"
  then have "all_unreceipted (c\<lparr>coord_limit := n\<rparr>)" by (simp add: all_unreceipted_def)
  then show ?thesis using \<open>all_unreceipted c\<close> kept_trim by (auto simp: set_history_limit_def split: sum.split)
qed

lemma unreceipted_cancel: "unreceipted (snapshot j) \<Longrightarrow> unreceipted (snapshot (fold cancel_status ps j))"
  by (induction ps arbitrary: j) (auto simp: cancel_status_def split: sum.split dest: unreceipted_transition)

lemma kept_cancel_all:
  assumes "all_unreceipted c"
  shows "all_unreceipted (cancel_all env c)"
proof -
  have "all_unreceipted (c\<lparr>stopping := True, world := w, jobs := map cancel_entry (jobs c)\<rparr>)" for w
    using assms by (simp add: all_unreceipted_def cancel_entry_def unreceipted_cancel del: fold.simps)
  from kept_trim [OF this] show ?thesis using assms by (simp add: cancel_all_def Let_def del: fold.simps)
qed

definition restores_unreceipted :: "coordinator_op \<Rightarrow> bool" where
  "restores_unreceipted x \<longleftrightarrow> (\<forall>rs. x = CoRestore rs \<longrightarrow> list_all unreceipted rs)"

lemma coordinator_step_unreceipted:
  "all_unreceipted c \<Longrightarrow> restores_unreceipted x \<Longrightarrow> all_unreceipted (coordinator_step env c x)"
  by (cases x) (simp_all add: kept_configure kept_add_pending kept_set_metadata kept_fail_metadata kept_apply_result
      kept_drain kept_retries kept_retry_failed kept_reupload kept_rechat kept_restore kept_limit kept_cancel_all
      restores_unreceipted_def list_all_iff)

lemma coordinator_run_unreceipted:
  "all_unreceipted c \<Longrightarrow> list_all restores_unreceipted ops \<Longrightarrow> all_unreceipted (foldl (coordinator_step env) c ops)"
  by (induction ops arbitrary: c) (simp_all add: coordinator_step_unreceipted)

lemma new_coordinator_unreceipted: "new_coordinator w ps limit = Ok c \<Longrightarrow> all_unreceipted c"
  by (auto simp: new_coordinator_def all_unreceipted_def split: if_splits)

text \<open>The history that a coordinator hands out to be saved can be restored under the same condition.\<close>

lemma history_unreceipted: "all_unreceipted c \<Longrightarrow> list_all unreceipted (history c)"
  by (auto simp: all_unreceipted_def history_def list_all_iff)

section \<open>Results that settle\<close>

text \<open>A result for a job of the coordinator that settles is accepted.\<close>

lemma result_settles:
  assumes "ids_ok c" and "\<not> stopping c" and "e \<in> set (jobs c)" and "state_of (job e) p = Active"
    and "result_job_id r = id_of (job e)" and "result_provider r = p"
    and "result_attempt r = attempts (provider_status (job e) p)"
    and "is_ok (fst (settle_job env p (result_outcome r) (job e) (world c)))"
  shows "fst (apply_result env r c) = Ok ()"
proof -
  obtain i where "position (\<lambda>x. id_of (job x) = id_of (job e)) (jobs c) = Some i"
    using assms(3) position_None [of "\<lambda>x. id_of (job x) = id_of (job e)" "jobs c"] by blast
  then have i: "index c (id_of (job e)) = Ok i" by (simp add: index_def ok_or_def)
  then have "jobs c ! i = e" using index_Ok [OF i] ids_ok_unique [OF assms(1)] assms(3) by (metis nth_mem)
  then show ?thesis using assms(2-) i
    by (cases "settle_job env p (result_outcome r) (job e) (world c)") (auto simp: apply_result_def Let_def is_ok_iff)
qed

text \<open>
  Without the condition on the restored history a result can be refused: the manual retry of a failed
  GW2Wingman delivery keeps the receipt that the record came with, and the success of the new attempt is
  then refused as already recorded.
\<close>

definition receipted_record :: upload_job_record where
  "receipted_record = (snapshot sample_job)\<lparr>encounter_metadata := Some sample_metadata,
     dps_report_result := Some Upload_Job.sample_report,
     wingman_receipt := Some \<lparr>wingman_permalink = ''https://gw2wingman.nevermindcreations.de/log/a''\<rparr>,
     providers := (\<lambda>p. \<lparr>state = (if p = Wingman then Failed else Succeeded), attempts = 1, detail = []\<rparr>)\<rparr>"

lemma restored_receipt_refuses_success:
  "let c = foldl (coordinator_step (logged quiet_env)) sample_coordinator
       [CoRestore [receipted_record], CoRetryFailed 1 Wingman];
     r = \<lparr>result_job_id = 1, result_provider = Wingman, result_attempt = 2,
       result_outcome = OutSucceeded (WingmanDone (Some \<lparr>wingman_permalink = ''https://gw2wingman.nevermindcreations.de/log/b''\<rparr>))\<rparr>
   in map (\<lambda>e. state_of (job e) Wingman) (jobs c) = [Active] \<and>
      fst (apply_result (logged quiet_env) r c) = Err (Domain WingmanUploadAlreadyRecorded)"
  by code_simp

end
