(* ===== verification/Provider_Client.thy ===== *)
theory Provider_Client
  imports Calls Multipart Ports
begin

text \<open>
  What the destination clients share: their environment, the wire formats of
  \<open>rust/src/providers/wire.rs\<close>, and the bounded JSON decoding of \<open>rust/src/providers/json.rs\<close>.

  The HTTP client, the random source, the poll clock and the stop token are trait objects or shared flags:
  functions over a world. The JSON parser (\<open>serde_json\<close>) is a parameter that turns a text into a value
  or refuses it, and so is its serializer; how values become the records of the protocol is modelled.
\<close>

section \<open>The environment\<close>

datatype 'h form_part = FilePart "'h file_body" | TextPart memory_body

datatype 'h client_body = FormBody "'h form_part multipart_body" | PlainBody memory_body | LogBody "'h file_body"

fun form_part_length :: "'h form_part \<Rightarrow> u64 option" where
  "form_part_length (FilePart b) = Some (file_size (body_file b))"
| "form_part_length (TextPart m) = Some (memory_length m)"

fun client_body_length :: "'h client_body \<Rightarrow> u64 option" where
  "client_body_length (FormBody m) = Some (multipart_length m)"
| "client_body_length (PlainBody m) = Some (memory_length m)"
| "client_body_length (LogBody b) = Some (file_size (body_file b))"

datatype wire_json =
  JNull | JBool bool | JInt int | JFloat | JString string | JArray "wire_json list" | JObject "(string \<times> wire_json) list"

record ('h, 'w) client_env =
  client_stopped :: "'w stop_poll"
  client_disk :: "('h, 'w) disk"
  client_random :: "'w \<Rightarrow> (nat \<Rightarrow> u8 list option) \<times> 'w"
  client_execute :: "'h client_body http_request \<Rightarrow> 'w \<Rightarrow> (http_error, http_response) result option \<times> 'w"
  client_now :: "'w \<Rightarrow> instant \<times> 'w"
  client_wait :: "duration \<Rightarrow> 'w \<Rightarrow> bool option \<times> 'w"
  client_json :: "string \<Rightarrow> wire_json option"
  client_print :: "wire_json \<Rightarrow> string option"

text \<open>A check of the stop token: the operation ends with \<open>e\<close> once stop is requested.\<close>

definition unless_stopped ::
  "('h, 'w) client_env \<Rightarrow> 'e \<Rightarrow> ('w, ('e, 'a) result) step \<Rightarrow> ('w, ('e, 'a) result) step" where
  "unless_stopped E e k = andthen (ask (client_stopped E)) (\<lambda>b. if b then give (Err e) else k)"

section \<open>Wire formats\<close>

text \<open>The fold of \<open>checked_mul\<close> and \<open>checked_add\<close> over the digits.\<close>

fun checked_digits :: "nat \<Rightarrow> string \<Rightarrow> nat option" where
  "checked_digits n [] = Some n"
| "checked_digits n (c # cs) =
     (if n * 10 < 2 ^ 64 \<and> n * 10 + (byte c - 48) < 2 ^ 64 then checked_digits (n * 10 + (byte c - 48)) cs else None)"

definition retry_after :: "http_response \<Rightarrow> nat option" where
  "retry_after r =
     (case filter (\<lambda>h. eq_ignore_case (header_name h) ''Retry-After'') (response_headers r) of
        [h] \<Rightarrow>
          (let v = header_value h in
           if v = [] \<or> \<not> list_all is_digit v then None
           else case checked_digits 0 v of
             None \<Rightarrow> None
           | Some n \<Rightarrow> if 1 \<le> n \<and> n \<le> 900 then Some n else None)
      | _ \<Rightarrow> None)"

definition report_hosts :: "string list" where
  "report_hosts = [''https://dps.report/'', ''https://b.dps.report/'', ''https://wvw.report/'']"

definition trusted_report_permalink :: "string \<Rightarrow> bool" where
  "trusted_report_permalink v \<longleftrightarrow>
     length v \<le> 2048 \<and>
     list_all (\<lambda>c. 33 \<le> byte c \<and> byte c \<le> 126 \<and>
       \<not> (c = CHR ''@'' \<or> c = CHR ''?'' \<or> c = CHR ''#'' \<or> c = CHR 0x5C \<or> c = CHR 0x22)) v \<and>
     list_ex (\<lambda>p. case strip_prefix p v of None \<Rightarrow> False | Some path \<Rightarrow> path \<noteq> []) report_hosts"

definition unreserved :: "char \<Rightarrow> bool" where
  "unreserved c \<longleftrightarrow> is_alnum c \<or> c \<in> set ''-_.~''"

definition upper_hex :: string where "upper_hex = ''0123456789ABCDEF''"

definition percent_byte :: "char \<Rightarrow> string" where
  "percent_byte c =
     (if unreserved c then [c]
      else [CHR ''%'', upper_hex ! (byte c div 16), upper_hex ! (byte c mod 16)])"

definition percent_encode :: "string \<Rightarrow> string" where
  "percent_encode v = concat (map percent_byte v)"

section \<open>Bounded JSON\<close>

definition hex_value :: "char \<Rightarrow> nat option" where
  "hex_value c =
     (if is_digit c then Some (byte c - 48)
      else if 97 \<le> byte c \<and> byte c \<le> 102 then Some (byte c - 97 + 10)
      else if 65 \<le> byte c \<and> byte c \<le> 70 then Some (byte c - 65 + 10)
      else None)"

definition unicode_unit :: "string \<Rightarrow> nat option" where
  "unicode_unit s =
     (if length s < 4 then None
      else foldl (\<lambda>v c. case v of None \<Rightarrow> None | Some n \<Rightarrow> map_option (\<lambda>d. n * 16 + d) (hex_value c))
        (Some 0) (take 4 s))"

text \<open>
  The scan for escapes without a Unicode scalar: \<open>inside\<close> says whether it is within a string, and the
  text is what is left of the input.
\<close>

function valid_escapes :: "bool \<Rightarrow> string \<Rightarrow> bool" where
  "valid_escapes inside [] = True"
| "valid_escapes inside (c # cs) =
     (if c = CHR 0x22 then valid_escapes (\<not> inside) cs
      else if c = CHR 0x5C \<and> inside
      then (case cs of
          [] \<Rightarrow> True
        | d # ds \<Rightarrow>
            if d = CHR ''u''
            then (case unicode_unit ds of
                None \<Rightarrow> False
              | Some unit \<Rightarrow>
                  (let rest = drop 4 ds in
                   if 0xD800 \<le> unit \<and> unit \<le> 0xDBFF
                   then take 2 rest = [CHR 0x5C, CHR ''u''] \<and>
                     (case unicode_unit (drop 2 rest) of
                        None \<Rightarrow> False
                      | Some low \<Rightarrow> 0xDC00 \<le> low \<and> low \<le> 0xDFFF \<and> valid_escapes inside (drop 6 rest))
                   else if 0xDC00 \<le> unit \<and> unit \<le> 0xDFFF then False
                   else valid_escapes inside rest))
            else valid_escapes inside ds)
      else valid_escapes inside cs)"
  by pat_completeness auto
termination
  by (relation "measure (\<lambda>(_, s). length s)") auto

declare valid_escapes.simps(2) [simp del]

definition valid_unicode_escapes :: "string \<Rightarrow> bool" where
  "valid_unicode_escapes s = valid_escapes False s"

text \<open>The values of a field; a repeated field is an error.\<close>

type_synonym 'a parsed = "(unit, 'a) result"

definition json_field :: "string \<Rightarrow> (string \<times> wire_json) list \<Rightarrow> wire_json option parsed" where
  "json_field k fs =
     (case filter (\<lambda>f. fst f = k) fs of
        [] \<Rightarrow> Ok None
      | [f] \<Rightarrow> Ok (Some (snd f))
      | _ \<Rightarrow> Err ())"

definition required :: "(wire_json \<Rightarrow> 'a parsed) \<Rightarrow> string \<Rightarrow> (string \<times> wire_json) list \<Rightarrow> 'a parsed" where
  "required conv k fs = and_then (json_field k fs) (\<lambda>v. and_then (ok_or () v) conv)"

definition optional :: "(wire_json \<Rightarrow> 'a parsed) \<Rightarrow> string \<Rightarrow> (string \<times> wire_json) list \<Rightarrow> 'a option parsed" where
  "optional conv k fs =
     and_then (json_field k fs) (\<lambda>v. case v of
         None \<Rightarrow> Ok None
       | Some JNull \<Rightarrow> Ok None
       | Some x \<Rightarrow> and_then (conv x) (\<lambda>y. Ok (Some y)))"

fun json_bool :: "wire_json \<Rightarrow> bool parsed" where
  "json_bool (JBool b) = Ok b"
| "json_bool _ = Err ()"

definition json_int :: "int \<Rightarrow> int \<Rightarrow> wire_json \<Rightarrow> int parsed" where
  "json_int lo hi v = (case v of JInt n \<Rightarrow> if lo \<le> n \<and> n \<le> hi then Ok n else Err () | _ \<Rightarrow> Err ())"

fun json_string :: "wire_json \<Rightarrow> string parsed" where
  "json_string (JString s) = Ok s"
| "json_string _ = Err ()"

definition json_text :: "nat \<Rightarrow> wire_json \<Rightarrow> string parsed" where
  "json_text limit v = and_then (json_string v) (\<lambda>s. if limit < length s then Err () else Ok s)"

text \<open>The loop of \<open>List\<close>: it stops at the first bad element, and refuses an element beyond the limit.\<close>

fun json_elements :: "nat \<Rightarrow> (wire_json \<Rightarrow> 'a parsed) \<Rightarrow> wire_json list \<Rightarrow> 'a list parsed" where
  "json_elements n conv [] = Ok []"
| "json_elements 0 conv (v # vs) = Err ()"
| "json_elements (Suc n) conv (v # vs) =
     and_then (conv v) (\<lambda>x. and_then (json_elements n conv vs) (\<lambda>xs. Ok (x # xs)))"

definition json_list :: "nat \<Rightarrow> (wire_json \<Rightarrow> 'a parsed) \<Rightarrow> wire_json \<Rightarrow> 'a list parsed" where
  "json_list limit conv v = (case v of JArray vs \<Rightarrow> json_elements limit conv vs | _ \<Rightarrow> Err ())"

definition json_object :: "((string \<times> wire_json) list \<Rightarrow> 'a parsed) \<Rightarrow> wire_json \<Rightarrow> 'a parsed" where
  "json_object conv v = (case v of JObject fs \<Rightarrow> conv fs | _ \<Rightarrow> Err ())"

definition json_decode ::
  "(string \<Rightarrow> wire_json option) \<Rightarrow> nat \<Rightarrow> ((string \<times> wire_json) list \<Rightarrow> 'a parsed) \<Rightarrow> string \<Rightarrow> 'a parsed" where
  "json_decode parse maximum conv bs =
     (if maximum < length bs then Err ()
      else if \<not> utf8_valid (of_string bs) then Err ()
      else if \<not> valid_unicode_escapes bs then Err ()
      else and_then (ok_or () (parse bs)) (json_object conv))"

section \<open>Requests of the clients\<close>

definition second :: duration where "second = 10 ^ 9"

definition retryable_transport :: "http_error_code \<Rightarrow> bool" where
  "retryable_transport c \<longleftrightarrow>
     c = HttpTimeout \<or> c = NameResolutionFailed \<or> c = ConnectionFailed \<or> c = TlsFailed \<or>
     c = HttpSendFailed \<or> c = ReceiveFailed"

definition retryable_status :: "nat \<Rightarrow> bool" where
  "retryable_status n \<longleftrightarrow> n = 408 \<or> n = 429 \<or> (500 \<le> n \<and> n < 600)"

definition success_status :: "nat \<Rightarrow> bool" where
  "success_status n \<longleftrightarrow> 200 \<le> n \<and> n < 300"

definition status_delay :: "http_response \<Rightarrow> duration" where
  "status_delay r =
     (if unat (status_code r) = 429 then (case retry_after r of None \<Rightarrow> 60 | Some n \<Rightarrow> n) else 30) * second"

definition text_part :: "string \<Rightarrow> memory_body \<Rightarrow> 'h form_part multipart_part" where
  "text_part name m = \<lparr>part_name = name, part_filename = None, part_content_type = Some ''text/plain'', part_body = TextPart m\<rparr>"

definition log_part :: "'h file_body \<Rightarrow> 'h form_part multipart_part" where
  "log_part b = \<lparr>part_name = ''file'', part_filename = Some ''upload.zevtc'',
     part_content_type = Some ''application/octet-stream'', part_body = FilePart b\<rparr>"

section \<open>Lemmas\<close>

lemma retry_after_bound: "retry_after r = Some n \<Longrightarrow> 1 \<le> n \<and> n \<le> 900"
  by (auto simp: retry_after_def Let_def split: list.splits option.splits if_splits)

lemma status_delay_bound: "0 < status_delay r \<and> status_delay r \<le> 900 * second"
  using retry_after_bound [of r] by (auto simp: status_delay_def second_def split: option.splits)

text \<open>Percent encoding loses nothing and leaves only bytes without a meaning of their own.\<close>

fun percent_decode :: "string \<Rightarrow> string" where
  "percent_decode [] = []"
| "percent_decode (c # cs) =
     (if c = CHR ''%''
      then case (map hex_value (take 2 cs)) of
          [Some h, Some l] \<Rightarrow> char_of (16 * h + l) # percent_decode (drop 2 cs)
        | _ \<Rightarrow> c # percent_decode cs
      else c # percent_decode cs)"

lemma upper_hex_value: "n < 16 \<Longrightarrow> hex_value (upper_hex ! n) = Some n"
proof -
  assume "n < 16"
  then have "n \<in> {0, 1, 2, 3, 4, 5, 6, 7, 8, 9, 10, 11, 12, 13, 14, 15}" unfolding insert_iff empty_iff by presburger
  then show ?thesis by (auto simp: upper_hex_def hex_value_def is_digit_def byte_def)
qed

lemma upper_hex_alnum: "n < 16 \<Longrightarrow> is_alnum (upper_hex ! n)"
proof -
  assume "n < 16"
  then have "n \<in> {0, 1, 2, 3, 4, 5, 6, 7, 8, 9, 10, 11, 12, 13, 14, 15}" unfolding insert_iff empty_iff by presburger
  then show ?thesis by (auto simp: upper_hex_def is_alnum_def is_digit_def is_upper_def is_lower_def byte_def)
qed

lemma byte_less: "byte c < 256"
  by (simp add: byte_def)

lemma percent_not_unreserved: "\<not> unreserved (CHR ''%'')"
  by (simp add: unreserved_def byte_class_defs)

lemma percent_decode_encode: "percent_decode (percent_encode v) = v"
proof (induction v)
  case (Cons c v)
  have "char_of (16 * (byte c div 16) + byte c mod 16) = c" by (simp add: byte_def)
  with Cons show ?case
    using byte_less [of c] percent_not_unreserved
    by (auto simp: percent_encode_def percent_byte_def upper_hex_value simp del: mult_div_mod_eq)
qed (simp add: percent_encode_def)

definition query_byte :: "char \<Rightarrow> bool" where
  "query_byte c \<longleftrightarrow> unreserved c \<or> c = CHR ''%''"

lemma percent_encode_query: "list_all query_byte (percent_encode v)"
proof -
  have "list_all query_byte (percent_byte c)" for c
    using byte_less [of c] by (auto simp: percent_byte_def query_byte_def unreserved_def upper_hex_alnum)
  then show ?thesis by (auto simp: percent_encode_def list_all_iff)
qed

lemma query_byte_url: "query_byte c \<Longrightarrow> url_byte c"
  by (auto simp: query_byte_def unreserved_def url_byte_def is_alnum_def is_digit_def is_upper_def is_lower_def byte_def)

end
