(* ===== verification/Client_Log.thy ===== *)
theory Client_Log
  imports Provider_Client
begin

text \<open>
  Watching the requests that leave a destination client: the interface \<open>recording_client\<close> of an
  environment with a list \<open>sent\<close> that grows by the request at every call of the HTTP client, and the facts
  about a form that a request carries.
\<close>

locale recording_client =
  fixes E :: "('h, 'w) client_env"
    and sent :: "'w \<Rightarrow> 'h client_body http_request list"
  assumes sent_execute: "client_execute E q w = (r, w') \<Longrightarrow> sent w' = sent w @ [q]"
    and sent_stopped: "client_stopped E w = (b, w') \<Longrightarrow> sent w' = sent w"
    and sent_random: "client_random E w = (f, w') \<Longrightarrow> sent w' = sent w"
    and sent_now: "client_now E w = (t, w') \<Longrightarrow> sent w' = sent w"
    and sent_wait: "client_wait E d w = (x, w') \<Longrightarrow> sent w' = sent w"
    and sent_link: "disk_link (client_disk E) p w = (m, w') \<Longrightarrow> sent w' = sent w"
    and sent_open: "disk_open (client_disk E) p w = (h, w') \<Longrightarrow> sent w' = sent w"
    and sent_stat: "disk_stat (client_disk E) h' w = (m', w') \<Longrightarrow> sent w' = sent w"
    and sent_real: "disk_real (client_disk E) p w = (p', w') \<Longrightarrow> sent w' = sent w"
begin

abbreviation all_sent :: "('h client_body http_request \<Rightarrow> bool) \<Rightarrow> 'w \<Rightarrow> bool" where
  "all_sent P w \<equiv> list_all P (sent w)"

lemma keeps_execute: "P q \<Longrightarrow> satisfies (all_sent P) (\<lambda>_. True) (client_execute E q)"
  by (auto simp: satisfies_def dest!: sent_execute)

lemma keeps_stopped: "satisfies (all_sent P) (\<lambda>_. True) (ask (client_stopped E))"
  by (rule satisfies_ask) (simp add: sent_stopped)

lemma keeps_random: "satisfies (all_sent P) (\<lambda>_. True) (ask (client_random E))"
  by (rule satisfies_ask) (simp add: sent_random)

lemma keeps_now: "satisfies (all_sent P) (\<lambda>_. True) (ask (client_now E))"
  by (rule satisfies_ask) (simp add: sent_now)

lemma keeps_wait: "satisfies (all_sent P) (\<lambda>_. True) (client_wait E d)"
  by (auto simp: satisfies_def dest!: sent_wait)

lemma keeps_unless_stopped:
  "Q (Err e) \<Longrightarrow> satisfies (all_sent P) Q k \<Longrightarrow> satisfies (all_sent P) Q (unless_stopped E e k)"
  unfolding unless_stopped_def by (rule satisfies_andthen [OF keeps_stopped]) (auto intro: satisfies_give)

lemma sent_verify_path: "verify_path (client_disk E) f w = (r, w') \<Longrightarrow> sent w' = sent w"
  by (auto simp: verify_path_def Let_def split: prod.splits option.splits sum.splits if_splits dest!: sent_link sent_real)

lemma sent_verify_handle: "verify_handle (client_disk E) f h w = (r, w') \<Longrightarrow> sent w' = sent w"
  by (auto simp: verify_handle_def split: prod.splits dest!: sent_stat)

lemma keeps_file: "satisfies (all_sent P) (\<lambda>_. True) (ask (new_file_body (client_disk E) f))"
proof (rule satisfies_ask)
  fix w r w'
  assume "new_file_body (client_disk E) f w = (r, w')" and "all_sent P w"
  then show "all_sent P w'"
    by (auto simp: new_file_body_def split: prod.splits option.splits sum.splits if_splits
        dest!: sent_verify_path sent_verify_handle sent_open)
qed

lemmas keeps = keeps_stopped keeps_random keeps_now keeps_wait keeps_file keeps_execute

end

text \<open>Every environment can be watched: keep the list of requests beside its world.\<close>

definition beside :: "('w \<Rightarrow> 'a \<times> 'w) \<Rightarrow> 'w \<times> 'l \<Rightarrow> 'a \<times> ('w \<times> 'l)" where
  "beside f s = (case f (fst s) of (r, w) \<Rightarrow> (r, (w, snd s)))"

definition logged_disk :: "('h, 'w) disk \<Rightarrow> ('h, 'w \<times> 'l) disk" where
  "logged_disk D = \<lparr>disk_link = (\<lambda>p. beside (disk_link D p)), disk_open = (\<lambda>p. beside (disk_open D p)),
     disk_stat = (\<lambda>h. beside (disk_stat D h)), disk_real = (\<lambda>p. beside (disk_real D p)),
     disk_read = (\<lambda>n h s. case disk_read D n h (fst s) of (k, raw, h', w) \<Rightarrow> (k, raw, h', (w, snd s)))\<rparr>"

definition logged_client ::
  "('h, 'w) client_env \<Rightarrow> ('h, 'w \<times> 'h client_body http_request list) client_env" where
  "logged_client E = \<lparr>
     client_stopped = beside (client_stopped E),
     client_disk = logged_disk (client_disk E),
     client_random = beside (client_random E),
     client_execute = (\<lambda>q s. case client_execute E q (fst s) of (r, w) \<Rightarrow> (r, (w, snd s @ [q]))),
     client_now = beside (client_now E),
     client_wait = (\<lambda>d. beside (client_wait E d)),
     client_json = client_json E, client_print = client_print E\<rparr>"

interpretation logged_client: recording_client "logged_client E" snd for E
  by unfold_locales (auto simp: logged_client_def logged_disk_def beside_def split: prod.splits)

section \<open>A form that a request carries\<close>

lemma form_text_nonempty: "form_text boundary first ps \<noteq> []"
  by (cases ps) (auto simp: closing_text_def part_prefix_def)

text \<open>The declared length of a form lies within the bounds of a request, whatever its parts hold.\<close>

lemma form_within_bounds:
  assumes "new_multipart form_part_length random (ps :: 'h form_part multipart_part list) = Ok (t, m)"
  shows "1 \<le> multipart_length m \<and> multipart_length m \<le> max_http_request_body_bytes \<and>
    (\<exists>boundary. t = ''multipart/form-data; boundary='' @ boundary \<and> length boundary \<le> 70 \<and>
       list_all is_http_token_byte boundary)"
proof -
  obtain bs where w: "with_boundary form_part_length ps (generated_boundary bs) = Ok (t, m)"
    using assms by (auto simp: new_multipart_def)
  let ?content = "\<lambda>s :: 'h form_part. replicate (unat (the (form_part_length s))) CHR ''x''"
  have s: "\<exists>n. form_part_length s = Some n" for s :: "'a form_part" by (cases s) simp_all
  have "\<forall>p \<in> set ps. True \<and>
      form_part_length (part_body p) = Some (of_nat (length (?content (part_body p)))) \<and>
      length (?content (part_body p)) < 2 ^ 64"
  proof
    fix p :: "'h form_part multipart_part"
    from s obtain n where "form_part_length (part_body p) = Some n" by blast
    then show "True \<and> form_part_length (part_body p) = Some (of_nat (length (?content (part_body p)))) \<and>
        length (?content (part_body p)) < 2 ^ 64"
      using unsigned_less [of n, where 'a = nat] by simp
  qed
  from with_boundary_Ok [OF w, of "\<lambda>_. True" ?content, OF this]
  have "unat (multipart_length m) \<noteq> 0" "multipart_length m \<le> max_http_request_body_bytes"
    "t = ''multipart/form-data; boundary='' @ generated_boundary bs"
    using form_text_nonempty by auto
  moreover have "length (generated_boundary bs) \<le> 70 \<and> list_all is_http_token_byte (generated_boundary bs)"
    using w by (auto simp: with_boundary_def max_multipart_boundary_bytes_def split: if_splits)
  ultimately show ?thesis by (auto simp: word_le_nat_alt)
qed

lemma form_header_valid:
  assumes "length boundary \<le> 70" and "list_all is_http_token_byte boundary"
  shows "valid_header (public_header ''Content-Type'' (''multipart/form-data; boundary='' @ boundary)) \<and>
    length (''multipart/form-data; boundary='' @ boundary) \<le> 100"
proof -
  have "list_all (\<lambda>c. byte c = 9 \<or> (32 \<le> byte c \<and> byte c \<le> 126)) boundary"
    using assms(2) by (auto simp: list_all_iff is_http_token_byte_def is_alnum_def is_digit_def is_lower_def is_upper_def)
  moreover have "list_all is_http_token_byte ''Content-Type''"
    by (simp add: is_http_token_byte_def byte_class_defs)
  moreover have "\<not> reserved_header ''Content-Type''" "\<not> is_sensitive_http_header_name ''Content-Type''"
    by (simp_all add: reserved_header_def is_sensitive_http_header_name_def eq_ignore_case_def byte_class_defs)
  ultimately show ?thesis
    using assms(1) by (simp add: valid_header_def public_header_def max_http_header_name_bytes_def
      max_http_header_value_bytes_def byte_def)
qed

text \<open>A header with a fixed name and value is checked by evaluation.\<close>

lemmas header_eval = valid_header_def public_header_def max_http_header_name_bytes_def
  max_http_header_value_bytes_def is_http_token_byte_def byte_class_defs reserved_header_def
  is_sensitive_http_header_name_def eq_ignore_case_def

lemma accept_json_valid: "valid_header (public_header ''Accept'' ''application/json'')"
  by (simp add: header_eval)

text \<open>So is a fixed address.\<close>

lemmas url_eval = validate_http_url_def Let_def max_http_url_bytes_def url_byte_def split_authority_def
  strip_final_dot_def valid_label_def eq_ignore_case_def byte_class_defs ok_or_def

abbreviation sendable :: "'h client_body http_request \<Rightarrow> bool" where
  "sendable q \<equiv> validate_http_request client_body_length q HttpsOnly = Ok ()"

end
