(* ===== verification/Upload_Worker.thy ===== *)
theory Upload_Worker
  imports Worker_Answers Coordinator_Safety
begin

text \<open>
  The upload adapter of a destination on a worker pool (\<open>rust/src/providers/async_upload_worker.rs\<close>). The
  protocol of the destination is the parameter of its task: it returns an outcome or panics (\<open>None\<close>).
\<close>

type_synonym upload_pool = "(upload_request, upload_result) pool"

definition upload_result_of :: "upload_request \<Rightarrow> upload_outcome \<Rightarrow> upload_result" where
  "upload_result_of q x =
     \<lparr>result_job_id = request_job_id q, result_provider = request_provider q,
      result_attempt = request_attempt q, result_outcome = x\<rparr>"

definition process_upload :: "upload_request \<Rightarrow> upload_outcome option \<Rightarrow> upload_result option" where
  "process_upload q returned = map_option (upload_result_of q) returned"

definition upload_failed :: "upload_request \<Rightarrow> upload_result" where
  "upload_failed q = upload_result_of q OutFailed"

record upload_worker =
  worker_provider :: provider
  worker_pool :: upload_pool

definition new_upload_worker ::
  "(nat \<Rightarrow> bool) \<Rightarrow> (nat \<Rightarrow> bool) \<Rightarrow> provider \<Rightarrow> worker_options \<Rightarrow> (worker_error, upload_worker) result" where
  "new_upload_worker alloc starts d opts =
     and_then (new_pool alloc starts opts) (\<lambda>p. Ok \<lparr>worker_provider = d, worker_pool = p\<rparr>)"

definition update_upload_parallelism ::
  "(nat \<Rightarrow> bool) \<Rightarrow> nat \<Rightarrow> upload_worker \<Rightarrow> (worker_error, unit) result \<times> upload_worker" where
  "update_upload_parallelism starts n w =
     (case resize starts n (worker_pool w) of (r, p) \<Rightarrow> (r, w\<lparr>worker_pool := p\<rparr>))"

definition upload_admits :: "provider \<Rightarrow> upload_request \<Rightarrow> bool" where
  "upload_admits d q \<longleftrightarrow> \<not> (request_provider q \<noteq> d \<or> request_attempt q = 0 \<or> canonical_path (request_file q) = [])"

definition queue_provider_error :: "queue_error \<Rightarrow> provider_error" where
  "queue_provider_error e = (case e of Full \<Rightarrow> QueueFull | QueueStopping \<Rightarrow> ProviderStopping)"

definition upload_enqueue ::
  "upload_request \<Rightarrow> upload_worker \<Rightarrow> (provider_error, unit) result \<times> upload_worker" where
  "upload_enqueue q w =
     (if \<not> upload_admits (worker_provider w) q then (Err InvalidRequest, w)
      else case enqueue q (worker_pool w) of
        (r, p) \<Rightarrow> (map_err queue_provider_error r, w\<lparr>worker_pool := p\<rparr>))"

definition upload_take :: "upload_worker \<Rightarrow> (provider_error, upload_result option) result \<times> upload_worker" where
  "upload_take w = (case try_take_result (worker_pool w) of (r, p) \<Rightarrow> (Ok r, w\<lparr>worker_pool := p\<rparr>))"

definition upload_cancel :: "upload_worker \<Rightarrow> upload_worker" where
  "upload_cancel w = w\<lparr>worker_pool := cancel_pending (worker_pool w)\<rparr>"

section \<open>Results answer requests\<close>

definition result_key :: "upload_result \<Rightarrow> job_id \<times> provider \<times> u32" where
  "result_key r = (result_job_id r, result_provider r, result_attempt r)"

interpretation uploads: answering upload_failed process_upload upload_key result_key
proof
  fix q x
  show "result_key (attempt_output upload_failed q (process_upload q x)) = upload_key q"
    by (cases x) (simp_all add: result_key_def upload_key_def attempt_output_def process_upload_def
      upload_failed_def upload_result_of_def)
qed

abbreviation upload_run where
  "upload_run d \<equiv> worker_run (upload_admits d) upload_failed process_upload"

text \<open>The operations of the adapter are steps of such a run.\<close>

lemma upload_enqueue_runs:
  assumes "upload_enqueue q w = (r, w')" and "upload_run (worker_provider w) p tr (worker_pool w)"
    and "upload_admits (worker_provider w) q"
  shows "\<exists>e. (r = Ok () \<longrightarrow> e = Enqueued q) \<and> worker_provider w' = worker_provider w \<and>
     upload_run (worker_provider w) p (tr @ [e]) (worker_pool w')"
proof -
  obtain s p' where e: "enqueue q (worker_pool w) = (s, p')" by (meson surj_pair)
  with assms(1,3) have w: "w' = w\<lparr>worker_pool := p'\<rparr>" "r = map_err queue_provider_error s"
    by (auto simp: upload_enqueue_def)
  show ?thesis
  proof (cases s)
    case (Inr u)
    with e assms(3) have "upload_run (worker_provider w) p (tr @ [Enqueued q]) p'"
      by (intro worker_snoc [OF assms(2)]) (auto simp: pool_step_def worker_event_def intro: owner_step.intros(1))
    with w show ?thesis by auto
  next
    case (Inl x)
    with e assms(3) have "upload_run (worker_provider w) p (tr @ [Refused q x]) p'"
      by (intro worker_snoc [OF assms(2)]) (auto simp: pool_step_def worker_event_def intro: owner_step.intros(2))
    with w Inl show ?thesis by auto
  qed
qed

lemma upload_take_runs:
  assumes "upload_take w = (Ok (Some r), w')" and "upload_run d p tr (worker_pool w)"
  shows "upload_run d p (tr @ [Taken r]) (worker_pool w')"
  using assms(1)
  by (auto simp: upload_take_def split: prod.splits
      intro!: worker_snoc [OF assms(2)] owner_step.intros(3) simp: pool_step_def worker_event_def)

text \<open>
  C28: A destination's worker never invents, mislabels or repeats a result. Every result that the
  coordinator takes from it carries the job, the destination and the attempt of an accepted request that
  is its own, panics of the protocol included; that request is for this destination, has an attempt
  number and names a file; and when the accepted requests are distinct, as the coordinator guarantees,
  so are the results. For every interleaving of the threads with the owner, resizing and shutdown.
\<close>

theorem upload_results_answer_requests:
  assumes "new_upload_worker alloc starts d opts = Ok w" and "upload_run d (worker_pool w) tr p"
  shows "mset (map result_key (taken tr)) \<subseteq># mset (map upload_key (accepted tr)) \<and>
     list_all (\<lambda>q. request_provider q = d \<and> request_attempt q \<noteq> 0 \<and> canonical_path (request_file q) \<noteq> [])
       (accepted tr) \<and>
     (distinct (map upload_key (accepted tr)) \<longrightarrow> distinct (map result_key (taken tr)))"
proof -
  from assms(1) have n: "new_pool alloc starts opts = Ok (worker_pool w)" by (auto simp: new_upload_worker_def)
  from uploads.results_have_requests [OF n assms(2)] uploads.results_distinct [OF n assms(2)]
    worker_run_admits [OF assms(2)]
  show ?thesis by (auto simp: upload_admits_def list_all_iff)
qed

text \<open>One request passes through a worker with a single thread whose protocol panics.\<close>

definition sample_upload_request :: upload_request where
  "sample_upload_request =
     \<lparr>request_job_id = 1, request_provider = DonBot, request_attempt = 1, request_file = sample_file,
      request_metadata = sample_metadata, request_report = None, request_intent = Automatic\<rparr>"

definition sample_upload_pool :: upload_pool where
  "sample_upload_pool = \<lparr>capacity = 8, requests = [], results = [], active = 0, parallelism = 1, stopping = False,
     next_completion = 0, next_publication = 0, threads = [Idle]\<rparr>"

definition sample_upload_trace :: "(upload_request, upload_result) event list" where
  "sample_upload_trace =
     [Enqueued sample_upload_request, Started 0 sample_upload_request,
      Finished 0 (upload_failed sample_upload_request), Published 0 (upload_failed sample_upload_request),
      Taken (upload_failed sample_upload_request)]"

lemma sample_upload_worker:
  "new_upload_worker (\<lambda>_. True) (\<lambda>_. True) DonBot default_worker_options =
     Ok \<lparr>worker_provider = DonBot, worker_pool = sample_upload_pool\<rparr>"
  by (simp add: new_upload_worker_def new_pool_def default_worker_options_def validate_parallelism_def require_def
      max_parallelism_def resize_def empty_pool_def sample_upload_pool_def)

lemma sample_upload_run:
  "upload_run DonBot sample_upload_pool sample_upload_trace
     (sample_upload_pool\<lparr>next_completion := 1, next_publication := 1\<rparr>)"
proof -
  let ?q = sample_upload_request
  let ?r = "upload_failed ?q"
  let ?p1 = "sample_upload_pool\<lparr>requests := [?q]\<rparr>"
  let ?p2 = "sample_upload_pool\<lparr>active := 1, threads := [Processing ?q]\<rparr>"
  let ?p3 = "sample_upload_pool\<lparr>active := 1, next_completion := 1, threads := [Completed 0 ?r]\<rparr>"
  let ?p4 = "sample_upload_pool\<lparr>next_completion := 1, next_publication := 1, results := [?r]\<rparr>"
  let ?p5 = "sample_upload_pool\<lparr>next_completion := 1, next_publication := 1\<rparr>"
  have 1: "owner_step sample_upload_pool (Enqueued ?q) ?p1"
    by (rule owner_step.intros(1)) (simp add: enqueue_def sample_upload_pool_def)
  have 2: "thread_step upload_failed ?p1 (Started 0 ?q) ?p2"
    using thread_step.start [of 0 ?p1 ?q "[]" upload_failed] by (simp add: sample_upload_pool_def set_thread_def)
  have 3: "thread_step upload_failed ?p2 (Finished 0 ?r) ?p3"
    using thread_step.finish [of 0 ?p2 ?q ?r upload_failed ?q None]
    by (simp add: sample_upload_pool_def set_thread_def attempt_output_def)
  have 4: "thread_step upload_failed ?p3 (Published 0 ?r) ?p4"
    using thread_step.publish [of 0 ?p3 0 ?r upload_failed] by (simp add: sample_upload_pool_def set_thread_def)
  have 5: "owner_step ?p4 (Taken ?r) ?p5"
    by (rule owner_step.intros(3)) (simp add: try_take_result_def sample_upload_pool_def)
  have a: "upload_admits DonBot ?q"
    by (simp add: upload_admits_def sample_upload_request_def sample_file_def)
  have f: "worker_event (upload_admits DonBot) upload_failed process_upload ?p2 (Finished 0 ?r)"
    by (auto simp: worker_event_def sample_upload_pool_def attempt_output_def process_upload_def
        intro!: exI [of _ "None :: upload_outcome option"])
  note next_step = worker_snoc [where admits = "upload_admits DonBot" and failed = upload_failed and task = process_upload]
  have "upload_run DonBot sample_upload_pool [Enqueued ?q] ?p1"
    using next_step [OF worker_nil, of sample_upload_pool "Enqueued ?q" ?p1] 1 a by (simp add: pool_step_def worker_event_def)
  from next_step [OF this, of "Started 0 ?q" ?p2]
  have "upload_run DonBot sample_upload_pool [Enqueued ?q, Started 0 ?q] ?p2" using 2 by (simp add: pool_step_def worker_event_def)
  from next_step [OF this _ f, of ?p3]
  have "upload_run DonBot sample_upload_pool [Enqueued ?q, Started 0 ?q, Finished 0 ?r] ?p3" using 3 by (simp add: pool_step_def)
  from next_step [OF this, of "Published 0 ?r" ?p4]
  have "upload_run DonBot sample_upload_pool [Enqueued ?q, Started 0 ?q, Finished 0 ?r, Published 0 ?r] ?p4"
    using 4 by (simp add: pool_step_def worker_event_def)
  from next_step [OF this, of "Taken ?r" ?p5]
  have "upload_run DonBot sample_upload_pool [Enqueued ?q, Started 0 ?q, Finished 0 ?r, Published 0 ?r, Taken ?r] ?p5"
    using 5 by (simp add: pool_step_def worker_event_def)
  then show ?thesis by (simp add: sample_upload_trace_def)
qed

theorem upload_results_answer_requests_witness:
  "mset (map result_key (taken sample_upload_trace)) \<subseteq># mset (map upload_key (accepted sample_upload_trace)) \<and>
     taken sample_upload_trace = [upload_failed sample_upload_request]"
  using upload_results_answer_requests [OF sample_upload_worker, of sample_upload_trace] sample_upload_run
  by (simp add: sample_upload_trace_def taken_def)

end
