(* ===== verification/Recent_Actions.thy ===== *)
theory Recent_Actions
  imports Coordinator_Safety Settings
begin

text \<open>
  The actions on recent logs (\<open>rust/src/application/recent_log_actions.rs\<close>): the bounded command queue
  that any thread may fill, the tick of the application owner that executes commands on the coordinator
  and the launcher of external programs, and the links that may be opened.

  The launcher is a trait object, so it is a parameter over its own state \<open>'l\<close>; a call that panicked
  gives \<open>None\<close>, which the tick catches. The tick holds no lock while a command executes: before each of
  its locked sections the other threads run any list of their own operations (\<open>meanwhile\<close>).
\<close>

section \<open>Values\<close>

datatype external_action_error = InvalidTarget | ExternalLaunchFailed

record 'l launcher =
  open_url :: "string \<Rightarrow> 'l \<Rightarrow> (external_action_error, unit) result call \<times> 'l"
  open_directory :: "path \<Rightarrow> 'l \<Rightarrow> (external_action_error, unit) result call \<times> 'l"

datatype report_target = ReportDpsReport | ReportWingman | ReportDonBot

datatype log_action =
  OpenReport job_id report_target
| OpenDirectory job_id
| RetryProvider job_id provider
| ReuploadLog job_id
| RechatLog job_id
| DismissError

datatype log_action_error =
  InvalidConfiguration | ActionAllocationFailed | ActionQueueFull | UnknownLog | ReportUnavailable
| UnsafeReportUrl | InvalidDirectory | LaunchFailed external_action_error | RetryFailed coordinator_error
| ActionsBusy | ActionsShuttingDown | RevisionExhausted | ActionInternal

fun action_error_detail :: "log_action_error \<Rightarrow> string" where
  "action_error_detail InvalidConfiguration = ''Recent-log actions are configured incorrectly''"
| "action_error_detail ActionAllocationFailed = ''The recent-log command queue could not be created''"
| "action_error_detail ActionQueueFull = ''The recent-log command queue is full''"
| "action_error_detail UnknownLog = ''The selected log is no longer retained''"
| "action_error_detail ReportUnavailable = ''The selected log has no report for this destination''"
| "action_error_detail UnsafeReportUrl = ''The selected report link is invalid''"
| "action_error_detail InvalidDirectory = ''The selected log directory is unavailable''"
| "action_error_detail (LaunchFailed _) = ''The selected report or directory could not be opened''"
| "action_error_detail (RetryFailed _) = ''The selected log action could not be started''"
| "action_error_detail ActionsBusy = ''Recent-log actions are already being processed''"
| "action_error_detail ActionsShuttingDown = ''Recent-log actions are shutting down''"
| "action_error_detail RevisionExhausted = ''Recent-log actions cannot accept more commands''"
| "action_error_detail ActionInternal = ''The recent-log action could not be completed''"

record action_options =
  command_capacity :: nat
  commands_per_tick :: nat

definition default_action_options :: action_options where
  "default_action_options = \<lparr>command_capacity = 32, commands_per_tick = 8\<rparr>"

record actions_report =
  commands_processed :: nat
  action_failures :: nat

section \<open>Links\<close>

definition valid_donbot_fight_id :: "u64 \<Rightarrow> bool" where
  "valid_donbot_fight_id i \<longleftrightarrow> 0 < i \<and> unat i \<le> 2 ^ 63 - 1"

definition valid_external_url :: "string \<Rightarrow> bool" where
  "valid_external_url url \<longleftrightarrow>
     length url \<le> 2048 \<and>
     (case strip_prefix ''https://'' url of None \<Rightarrow> False | Some rest \<Rightarrow> rest \<noteq> []) \<and>
     list_all (\<lambda>c. 33 \<le> byte c \<and> byte c \<le> 126 \<and> \<not> (byte c = 92 \<or> byte c = 34)) url"

definition below_prefix :: "string list \<Rightarrow> string \<Rightarrow> bool" where
  "below_prefix ps url \<longleftrightarrow>
     list_ex (\<lambda>p. case strip_prefix p url of None \<Rightarrow> False | Some rest \<Rightarrow> rest \<noteq> []) ps"

definition checked_link :: "string list \<Rightarrow> string \<Rightarrow> (log_action_error, string) result" where
  "checked_link ps url = (if \<not> valid_external_url url \<or> \<not> below_prefix ps url then Err UnsafeReportUrl else Ok url)"

definition report_prefixes :: "dps_report_result \<Rightarrow> string list" where
  "report_prefixes r =
     (if report_boss_id r = wvw_boss_id
      then [''https://dps.report/'', ''https://b.dps.report/'', ''https://wvw.report/'']
      else [''https://dps.report/'', ''https://b.dps.report/''])"

definition wingman_prefixes :: "string list" where
  "wingman_prefixes = [''https://gw2wingman.nevermindcreations.de/log/'']"

definition donbot_link :: string where
  "donbot_link = ''https://donbot.walmslo.com/logs/''"

definition external_report_url :: "upload_job_snapshot \<Rightarrow> report_target \<Rightarrow> (log_action_error, string) result" where
  "external_report_url s target =
     (let r = snapshot_record s in
      case target of
        ReportDpsReport \<Rightarrow>
          and_then (ok_or ReportUnavailable (dps_report_result r)) (\<lambda>x.
            checked_link (report_prefixes x) (permalink x))
      | ReportWingman \<Rightarrow>
          and_then (ok_or ReportUnavailable (wingman_receipt r)) (\<lambda>x.
            checked_link wingman_prefixes (wingman_permalink x))
      | ReportDonBot \<Rightarrow>
          (case donbot_receipt r of
             None \<Rightarrow> Err ReportUnavailable
           | Some x \<Rightarrow>
               (case fight_log_id x of
                  None \<Rightarrow> Err ReportUnavailable
                | Some i \<Rightarrow>
                    if valid_donbot_fight_id i then Ok (donbot_link @ dec_string (unat i))
                    else Err ReportUnavailable)))"

section \<open>Execution of a command\<close>

text \<open>\<open>Path::parent\<close>: a path that ends in a root or a prefix has none.\<close>

definition path_parent :: "path \<Rightarrow> path option" where
  "path_parent p = (if p = [] then None else case last p of
      PrefixComponent _ \<Rightarrow> None | RootDir \<Rightarrow> None | _ \<Rightarrow> Some (butlast p))"

definition action_error :: "coordinator_error \<Rightarrow> log_action_error" where
  "action_error e = (if e = UnknownJob then UnknownLog else RetryFailed e)"

definition launch_result ::
  "(external_action_error, unit) result call \<Rightarrow> (log_action_error, unit) result call" where
  "launch_result r = map_option (map_err LaunchFailed) r"

definition execute ::
  "'w env \<Rightarrow> 'l launcher \<Rightarrow> log_action \<Rightarrow> 'w coordinator \<Rightarrow> 'l \<Rightarrow>
     (log_action_error, unit) result call \<times> 'w coordinator \<times> 'l" where
  "execute env L a c l =
     (case a of
        DismissError \<Rightarrow> (Some (Ok ()), c, l)
      | OpenReport i target \<Rightarrow>
          (case and_then (map_err (\<lambda>_. UnknownLog) (snapshot_at c i)) (\<lambda>s. external_report_url s target) of
             Err e \<Rightarrow> (Some (Err e), c, l)
           | Ok url \<Rightarrow> (case open_url L url l of (r, l') \<Rightarrow> (launch_result r, c, l')))
      | OpenDirectory i \<Rightarrow>
          (case snapshot_at c i of
             Err _ \<Rightarrow> (Some (Err UnknownLog), c, l)
           | Ok s \<Rightarrow>
               (case path_parent (canonical_path (job_file (snapshot_record s))) of
                  None \<Rightarrow> (Some (Err InvalidDirectory), c, l)
                | Some d \<Rightarrow>
                    if d = [] then (Some (Err InvalidDirectory), c, l)
                    else (case open_directory L d l of (r, l') \<Rightarrow> (launch_result r, c, l'))))
      | RetryProvider i p \<Rightarrow> (case retry_failed env i p c of (r, c') \<Rightarrow> (Some (map_err action_error r), c', l))
      | ReuploadLog i \<Rightarrow> (case reupload env i c of (r, c') \<Rightarrow> (Some (map_err action_error r), c', l))
      | RechatLog i \<Rightarrow> (case rechat env i c of (r, c') \<Rightarrow> (Some (map_err action_error r), c', l)))"

section \<open>The queue\<close>

text \<open>
  What the mutex guards. \<open>accepted_commands\<close> and \<open>executed_commands\<close> are history variables: no operation reads them.
\<close>

record action_queue =
  action_options :: action_options
  commands :: "log_action list"
  last_error :: "log_action_error option"
  pending_commands :: nat
  queue_revision :: u64
  accepting_commands :: bool
  queue_shut :: bool
  ticking :: bool
  accepted_commands :: "log_action list"
  executed_commands :: "log_action list"

record actions_snapshot =
  shown_error :: "log_action_error option"
  shown_pending :: nat
  shown_revision :: u64
  shown_accepting :: bool
  shown_shut :: bool

definition new_actions :: "(nat \<Rightarrow> bool) \<Rightarrow> action_options \<Rightarrow> (log_action_error, action_queue) result" where
  "new_actions alloc opts =
     (if command_capacity opts = 0 \<or> commands_per_tick opts = 0 then Err InvalidConfiguration
      else if \<not> alloc (command_capacity opts) then Err ActionAllocationFailed
      else Ok \<lparr>action_options = opts, commands = [], last_error = None, pending_commands = 0, queue_revision = 1,
        accepting_commands = True, queue_shut = False, ticking = False, accepted_commands = [], executed_commands = []\<rparr>)"

definition actions_snapshot :: "action_queue \<Rightarrow> actions_snapshot" where
  "actions_snapshot q = \<lparr>shown_error = last_error q, shown_pending = pending_commands q,
     shown_revision = queue_revision q, shown_accepting = accepting_commands q, shown_shut = queue_shut q\<rparr>"

definition saturating_succ :: "u64 \<Rightarrow> u64" where
  "saturating_succ n = (case checked_succ n of None \<Rightarrow> n | Some m \<Rightarrow> m)"

definition submit_action :: "log_action \<Rightarrow> action_queue \<Rightarrow> (log_action_error, unit) result \<times> action_queue" where
  "submit_action a q =
     (if queue_shut q then (Err ActionsShuttingDown, q)
      else if - 1 - 1 \<le> queue_revision q then (Err RevisionExhausted, q)
      else if length (commands q) = command_capacity (action_options q)
      then (Err ActionQueueFull, q\<lparr>last_error := Some ActionQueueFull, queue_revision := queue_revision q + 1\<rparr>)
      else (Ok (), q\<lparr>commands := commands q @ [a], pending_commands := length (commands q @ [a]),
        queue_revision := queue_revision q + 1, accepted_commands := accepted_commands q @ [a]\<rparr>))"

definition shutdown_actions :: "action_queue \<Rightarrow> action_queue" where
  "shutdown_actions q =
     (if queue_shut q then q
      else q\<lparr>commands := [], pending_commands := 0, accepting_commands := False, queue_shut := True,
        queue_revision := saturating_succ (queue_revision q)\<rparr>)"

text \<open>What another thread may do between two locked sections; a tick of its own is refused as busy.\<close>

datatype action_op = Submit log_action | ShutdownActions

fun action_op_step :: "action_queue \<Rightarrow> action_op \<Rightarrow> action_queue" where
  "action_op_step q (Submit a) = snd (submit_action a q)"
| "action_op_step q ShutdownActions = shutdown_actions q"

section \<open>The tick\<close>

definition begin_tick :: "action_queue \<Rightarrow> (log_action_error, nat) result \<times> action_queue" where
  "begin_tick q =
     (if queue_shut q then (Err ActionsShuttingDown, q)
      else if ticking q then (Err ActionsBusy, q)
      else (Ok (min (length (commands q)) (commands_per_tick (action_options q))), q\<lparr>ticking := True\<rparr>))"

definition pop_action :: "action_queue \<Rightarrow> log_action option \<times> action_queue" where
  "pop_action q =
     (if queue_shut q then (None, q)
      else case commands q of
        [] \<Rightarrow> (None, q)
      | a # rest \<Rightarrow> (Some a, q\<lparr>commands := rest, pending_commands := length rest,
          queue_revision := saturating_succ (queue_revision q), executed_commands := executed_commands q @ [a]\<rparr>))"

definition store_result :: "(log_action_error, unit) result \<Rightarrow> action_queue \<Rightarrow> action_queue" where
  "store_result r q =
     (if queue_shut q then q
      else q\<lparr>last_error := (case r of Err e \<Rightarrow> Some e | Ok _ \<Rightarrow> None),
        queue_revision := saturating_succ (queue_revision q)\<rparr>)"

record ('w, 'l) action_world =
  action_queue :: action_queue
  uploads_of :: "'w coordinator"
  launcher_state :: 'l

type_synonym ('w, 'l) others = "('w, 'l) action_world \<Rightarrow> action_op list"

definition meanwhile_queue :: "('w, 'l) others \<Rightarrow> ('w, 'l) action_world \<Rightarrow> action_queue" where
  "meanwhile_queue others s = foldl action_op_step (action_queue s) (others s)"

fun tick_loop ::
  "'w env \<Rightarrow> 'l launcher \<Rightarrow> ('w, 'l) others \<Rightarrow> nat \<Rightarrow> actions_report \<Rightarrow> ('w, 'l) action_world \<Rightarrow>
     actions_report \<times> ('w, 'l) action_world" where
  "tick_loop env L others 0 report s = (report, s)"
| "tick_loop env L others (Suc n) report s =
     (case pop_action (meanwhile_queue others s) of
        (None, q) \<Rightarrow> (report, s\<lparr>action_queue := q\<rparr>)
      | (Some a, q) \<Rightarrow>
          (case execute env L a (uploads_of s) (launcher_state s) of
             (r, c, l) \<Rightarrow>
               let result = unwrap_call (Err ActionInternal) r;
                   s1 = s\<lparr>action_queue := q, uploads_of := c, launcher_state := l\<rparr>
               in tick_loop env L others n
                    (report\<lparr>commands_processed := commands_processed report + 1,
                       action_failures := action_failures report + (if is_err result then 1 else 0)\<rparr>)
                    (s1\<lparr>action_queue := store_result result (meanwhile_queue others s1)\<rparr>)))"

definition empty_report :: actions_report where
  "empty_report = \<lparr>commands_processed = 0, action_failures = 0\<rparr>"

definition actions_tick ::
  "'w env \<Rightarrow> 'l launcher \<Rightarrow> ('w, 'l) others \<Rightarrow> ('w, 'l) action_world \<Rightarrow>
     (log_action_error, actions_report) result \<times> ('w, 'l) action_world" where
  "actions_tick env L others s =
     (case begin_tick (action_queue s) of
        (Err e, _) \<Rightarrow> (Err e, s)
      | (Ok budget, q) \<Rightarrow>
          (case tick_loop env L others budget empty_report (s\<lparr>action_queue := q\<rparr>) of
             (report, t) \<Rightarrow>
               (Ok report, t\<lparr>action_queue := (meanwhile_queue others t)\<lparr>ticking := False\<rparr>\<rparr>)))"

section \<open>Links that may be opened\<close>

text \<open>A launcher that keeps the list of what it was asked to open.\<close>

datatype launch = LaunchedUrl string | LaunchedDirectory path

definition recording :: "'l launcher \<Rightarrow> ('l \<times> launch list) launcher" where
  "recording L = \<lparr>
     open_url = (\<lambda>u s. case open_url L u (fst s) of (r, l) \<Rightarrow> (r, (l, snd s @ [LaunchedUrl u]))),
     open_directory = (\<lambda>d s. case open_directory L d (fst s) of (r, l) \<Rightarrow> (r, (l, snd s @ [LaunchedDirectory d])))\<rparr>"

definition allowed_prefixes :: "string list" where
  "allowed_prefixes =
     [''https://dps.report/'', ''https://b.dps.report/'', ''https://wvw.report/'',
      ''https://gw2wingman.nevermindcreations.de/log/'', ''https://donbot.walmslo.com/logs/'']"

fun safe_launch :: "launch \<Rightarrow> bool" where
  "safe_launch (LaunchedUrl u) \<longleftrightarrow> valid_external_url u \<and> below_prefix allowed_prefixes u"
| "safe_launch (LaunchedDirectory d) \<longleftrightarrow> d \<noteq> []"

lemma below_prefix_mono: "set ps \<subseteq> set qs \<Longrightarrow> below_prefix ps u \<Longrightarrow> below_prefix qs u"
  by (auto simp: below_prefix_def list_ex_iff)

lemma checked_link_safe:
  "checked_link ps u = Ok v \<Longrightarrow> set ps \<subseteq> set allowed_prefixes \<Longrightarrow> v = u \<and> safe_launch (LaunchedUrl v)"
  by (auto simp: checked_link_def split: if_splits intro: below_prefix_mono)

lemma known_prefixes:
  "set (report_prefixes r) \<subseteq> set allowed_prefixes" "set wingman_prefixes \<subseteq> set allowed_prefixes"
  "donbot_link \<in> set allowed_prefixes"
  by (simp_all add: report_prefixes_def wingman_prefixes_def allowed_prefixes_def donbot_link_def)

lemma dec_string_digits: "list_all is_digit (dec_string n) \<and> dec_string n \<noteq> []"
proof (induction n rule: dec_string.induct)
  case (1 n)
  have d: "is_digit (char_of (48 + m))" if "m < 10" for m :: nat
    using that by (simp add: is_digit_def byte_def)
  show ?case
    using 1 d [of n] d [of "n mod 10"] by (subst (1 2) dec_string.simps) auto
qed

lemma dec_string_length: "n < 10 ^ k \<Longrightarrow> 0 < k \<Longrightarrow> length (dec_string n) \<le> k"
proof (induction k arbitrary: n)
  case (Suc k)
  show ?case
  proof (cases "n < 10")
    case False
    with Suc.prems have "n div 10 < 10 ^ k" "0 < k" by (auto simp: div_less_iff_less_mult mult.commute intro: gr0I)
    with Suc.IH [of "n div 10"] False show ?thesis by (subst dec_string.simps) simp
  qed (subst dec_string.simps, simp)
qed simp

lemma donbot_link_safe:
  assumes "valid_donbot_fight_id i"
  shows "safe_launch (LaunchedUrl (donbot_link @ dec_string (unat i)))"
proof -
  let ?d = "dec_string (unat i)"
  have d: "list_all is_digit ?d" "?d \<noteq> []" using dec_string_digits by auto
  have "unat i < 2 ^ 64" using unsigned_less [of i, where 'a = nat] by simp
  then have "unat i < 10 ^ 20" by simp
  then have "length ?d \<le> 20" by (rule dec_string_length) simp
  moreover have "list_all (\<lambda>c. 33 \<le> byte c \<and> byte c \<le> 126 \<and> \<not> (byte c = 92 \<or> byte c = 34)) ?d"
    using d(1) by (auto simp: list_all_iff is_digit_def)
  ultimately have "valid_external_url (donbot_link @ ?d)"
    by (simp add: valid_external_url_def donbot_link_def strip_prefix_def byte_def)
  moreover have "below_prefix [donbot_link] (donbot_link @ ?d)"
    using d(2) by (simp add: below_prefix_def strip_prefix_def)
  ultimately show ?thesis using below_prefix_mono [of "[donbot_link]" allowed_prefixes] known_prefixes(3) by simp
qed

lemma report_url_safe: "external_report_url s target = Ok u \<Longrightarrow> safe_launch (LaunchedUrl u)"
  by (auto simp: external_report_url_def Let_def simp del: safe_launch.simps split: report_target.splits option.splits if_splits
      dest: checked_link_safe [OF _ known_prefixes(1)] checked_link_safe [OF _ known_prefixes(2)] intro: donbot_link_safe)

lemma execute_launches:
  "execute env (recording L) a c l = (r, c', l') \<Longrightarrow> \<exists>new. snd l' = snd l @ new \<and> list_all safe_launch new"
  by (cases a) (auto simp: execute_def recording_def split: prod.splits sum.splits option.splits if_splits
      dest!: report_url_safe simp del: safe_launch.simps(1))

lemma tick_loop_launches:
  "tick_loop env (recording L) others n report s = (report', t) \<Longrightarrow>
     \<exists>new. snd (launcher_state t) = snd (launcher_state s) @ new \<and> list_all safe_launch new"
proof (induction n arbitrary: report s)
  case (Suc n)
  obtain o' q where p: "pop_action (meanwhile_queue others s) = (o', q)" by (meson surj_pair)
  show ?case
  proof (cases o')
    case (Some a)
    obtain r c l where e: "execute env (recording L) a (uploads_of s) (launcher_state s) = (r, c, l)" by (meson prod_cases3)
    from execute_launches [OF this] obtain new1 where n1: "snd l = snd (launcher_state s) @ new1" "list_all safe_launch new1" by blast
    from Suc.prems p Some e obtain report1 s1
      where t: "tick_loop env (recording L) others n report1 s1 = (report', t)" and "launcher_state s1 = l"
      by (auto simp: Let_def)
    with Suc.IH [OF t] n1 show ?thesis by auto
  qed (use Suc.prems p in auto)
qed auto

text \<open>
  C26: The program only ever opens links it trusts. Whatever commands are queued, whatever the retained
  jobs hold (reports from the network or from a history file) and whatever the other threads do, a tick
  asks the launcher only for links of at most 2048 bytes, printable and without quote or backslash,
  that go below one of five fixed https addresses, and only for directories with a non-empty path. The
  link of a DonBot log, built from its number, is one of these.
\<close>

theorem launched_targets_are_safe:
  "\<exists>new. snd (launcher_state (snd (actions_tick env (recording L) others s))) = snd (launcher_state s) @ new \<and>
     list_all safe_launch new"
proof -
  obtain r q where b: "begin_tick (action_queue s) = (r, q)" by (meson surj_pair)
  show ?thesis
  proof (cases r)
    case (Inr n)
    obtain rep t where t: "tick_loop env (recording L) others n empty_report (s\<lparr>action_queue := q\<rparr>) = (rep, t)"
      by (meson surj_pair)
    from tick_loop_launches [OF this] show ?thesis by (simp add: actions_tick_def b Inr t)
  qed (simp add: actions_tick_def b)
qed

section \<open>The queue through a run\<close>

definition queue_ok :: "action_queue \<Rightarrow> bool" where
  "queue_ok q \<longleftrightarrow>
     length (commands q) \<le> command_capacity (action_options q) \<and> pending_commands q = length (commands q) \<and>
     accepting_commands q = (\<not> queue_shut q) \<and>
     (if queue_shut q then commands q = [] \<and> prefix (executed_commands q) (accepted_commands q)
      else accepted_commands q = executed_commands q @ commands q)"

definition queue_evolves :: "action_queue \<Rightarrow> action_queue \<Rightarrow> bool" where
  "queue_evolves q q' \<longleftrightarrow>
     action_options q' = action_options q \<and> queue_revision q \<le> queue_revision q' \<and>
     prefix (executed_commands q) (executed_commands q') \<and> prefix (accepted_commands q) (accepted_commands q') \<and>
     (queue_shut q \<longrightarrow> queue_shut q' \<and> executed_commands q' = executed_commands q \<and> accepted_commands q' = accepted_commands q)"

lemma u64_next: "r \<noteq> - 1 \<Longrightarrow> r < r + (1 :: u64)"
  using checked_succ_Some [of r "r + 1"] by (simp add: checked_succ_def word_less_nat_alt)

lemma saturating_succ_le: "r \<le> saturating_succ r"
  using u64_next [of r] by (auto simp: saturating_succ_def checked_succ_def intro: less_imp_le)

lemma revision_room: "\<not> - 1 - 1 \<le> (r :: u64) \<Longrightarrow> r \<le> r + 1"
  using u64_next [of r] by (cases "r = - 1") (auto intro: less_imp_le)

lemma evolves_refl: "queue_evolves q q"
  by (auto simp: queue_evolves_def)

lemma evolves_trans:
  assumes a: "queue_evolves q q'" and b: "queue_evolves q' q''"
  shows "queue_evolves q q''"
proof -
  have "prefix (executed_commands q) (executed_commands q'')"
    by (rule prefix_order.trans [of _ "executed_commands q'"]) (use a b in \<open>simp_all add: queue_evolves_def\<close>)
  moreover have "prefix (accepted_commands q) (accepted_commands q'')"
    by (rule prefix_order.trans [of _ "accepted_commands q'"]) (use a b in \<open>simp_all add: queue_evolves_def\<close>)
  moreover have "queue_revision q \<le> queue_revision q''"
    by (rule order_trans [of _ "queue_revision q'"]) (use a b in \<open>simp_all add: queue_evolves_def\<close>)
  ultimately show ?thesis using a b by (simp add: queue_evolves_def)
qed

lemma op_ok: "queue_ok q \<Longrightarrow> queue_ok (action_op_step q x)"
  by (cases x) (auto simp: queue_ok_def submit_action_def shutdown_actions_def)

lemma op_evolves: "queue_evolves q (action_op_step q x)"
  by (cases x) (auto simp: queue_evolves_def submit_action_def shutdown_actions_def revision_room saturating_succ_le)

lemma op_ticking: "ticking (action_op_step q x) = ticking q \<and> executed_commands (action_op_step q x) = executed_commands q"
  by (cases x) (auto simp: submit_action_def shutdown_actions_def)

interpretation actions: evolving_machine action_op_step queue_ok queue_evolves
  by unfold_locales (auto intro: op_ok op_evolves evolves_refl evolves_trans)

lemma meanwhile_ok: "queue_ok (action_queue s) \<Longrightarrow> queue_ok (meanwhile_queue others s)"
  unfolding meanwhile_queue_def by (rule actions.run_inv)

lemma meanwhile_evolves: "queue_ok (action_queue s) \<Longrightarrow> queue_evolves (action_queue s) (meanwhile_queue others s)"
  unfolding meanwhile_queue_def by (rule actions.run_evolves)

lemma meanwhile_frame:
  "executed_commands (meanwhile_queue others s) = executed_commands (action_queue s) \<and>
     ticking (meanwhile_queue others s) = ticking (action_queue s)"
proof -
  have "executed_commands (foldl action_op_step q xs) = executed_commands q \<and>
      ticking (foldl action_op_step q xs) = ticking q" for q xs
    by (induction xs arbitrary: q) (simp_all add: op_ticking)
  then show ?thesis by (simp add: meanwhile_queue_def)
qed

lemma pop_action_effect:
  assumes "pop_action q = (r, q')" and "queue_ok q"
  shows "queue_ok q' \<and> queue_evolves q q' \<and> ticking q' = ticking q \<and> queue_shut q' = queue_shut q \<and>
     executed_commands q' = executed_commands q @ (case r of None \<Rightarrow> [] | Some a \<Rightarrow> [a]) \<and> (r \<noteq> None \<longrightarrow> \<not> queue_shut q)"
  using assms
  by (cases "queue_shut q"; cases "commands q")
     (auto simp: pop_action_def queue_ok_def queue_evolves_def saturating_succ_le)

lemma store_result_effect:
  assumes "queue_ok q"
  shows "queue_ok (store_result r q) \<and> queue_evolves q (store_result r q) \<and>
     executed_commands (store_result r q) = executed_commands q \<and> ticking (store_result r q) = ticking q"
  using assms by (auto simp: store_result_def queue_ok_def queue_evolves_def saturating_succ_le)

lemma tick_loop_effect:
  assumes "tick_loop env L others n report s = (report', t)" and "queue_ok (action_queue s)"
  shows "queue_ok (action_queue t) \<and> queue_evolves (action_queue s) (action_queue t) \<and>
     ticking (action_queue t) = ticking (action_queue s) \<and>
     (\<exists>fresh. executed_commands (action_queue t) = executed_commands (action_queue s) @ fresh \<and> length fresh \<le> n \<and>
        commands_processed report' = commands_processed report + length fresh \<and>
        action_failures report' \<le> action_failures report + length fresh)"
  using assms
proof (induction n arbitrary: report s)
  case 0
  then show ?case by (auto intro: evolves_refl)
next
  case (Suc n)
  let ?m = "meanwhile_queue others s"
  obtain p q where pop: "pop_action ?m = (p, q)" by (meson surj_pair)
  have m: "queue_ok ?m" "queue_evolves (action_queue s) ?m"
    using Suc.prems(2) by (auto intro: meanwhile_ok meanwhile_evolves)
  note pop_effect = pop_action_effect [OF pop m(1)]
  show ?case
  proof (cases p)
    case None
    with Suc.prems(1) pop pop_effect m(2) show ?thesis by (auto simp: meanwhile_frame intro: evolves_trans)
  next
    case (Some a)
    obtain r c l where e: "execute env L a (uploads_of s) (launcher_state s) = (r, c, l)" by (meson prod_cases3)
    let ?s = "s\<lparr>action_queue := q, uploads_of := c, launcher_state := l\<rparr>"
    let ?q = "store_result (unwrap_call (Err ActionInternal) r) (meanwhile_queue others ?s)"
    from Suc.prems(1) pop Some e obtain report1
      where loop: "tick_loop env L others n report1 (?s\<lparr>action_queue := ?q\<rparr>) = (report', t)"
        and report1: "commands_processed report1 = commands_processed report + 1"
          "action_failures report1 \<le> action_failures report + 1"
      by (auto simp: Let_def)
    have m2: "queue_ok (meanwhile_queue others ?s)" "queue_evolves q (meanwhile_queue others ?s)"
      using pop_effect meanwhile_ok [of ?s] meanwhile_evolves [of ?s] by simp_all
    note stored = store_result_effect [OF m2(1), of "unwrap_call (Err ActionInternal) r"]
    with Suc.IH [OF loop] obtain fresh where t: "queue_ok (action_queue t)" "queue_evolves ?q (action_queue t)"
      "ticking (action_queue t) = ticking ?q" "executed_commands (action_queue t) = executed_commands ?q @ fresh"
      "length fresh \<le> n" "commands_processed report' = commands_processed report1 + length fresh"
      "action_failures report' \<le> action_failures report1 + length fresh" by auto
    have "queue_evolves (action_queue s) (action_queue t)"
      using m(2) pop_effect m2(2) stored t(2) by (blast intro: evolves_trans)
    moreover have "executed_commands (action_queue t) = executed_commands (action_queue s) @ (a # fresh)"
      using t(4) stored pop_effect meanwhile_frame [of others s] meanwhile_frame [of others ?s] Some by simp
    moreover have "ticking (action_queue t) = ticking (action_queue s)"
      using t(3) stored pop_effect meanwhile_frame [of others s] meanwhile_frame [of others ?s] by simp
    ultimately show ?thesis using t report1 by (intro conjI exI [of _ "a # fresh"]) auto
  qed
qed

text \<open>A run of the controller: the owner ticks, the other threads submit and shut down.\<close>

datatype actions_call = OwnerTick | OtherThread action_op

fun actions_step ::
  "'w env \<Rightarrow> 'l launcher \<Rightarrow> ('w, 'l) others \<Rightarrow> ('w, 'l) action_world \<Rightarrow> actions_call \<Rightarrow> ('w, 'l) action_world" where
  "actions_step env L others s OwnerTick = snd (actions_tick env L others s)"
| "actions_step env L others s (OtherThread x) = s\<lparr>action_queue := action_op_step (action_queue s) x\<rparr>"

definition controller_ok :: "('w, 'l) action_world \<Rightarrow> bool" where
  "controller_ok s \<longleftrightarrow> queue_ok (action_queue s) \<and> \<not> ticking (action_queue s)"

definition controller_evolves :: "('w, 'l) action_world \<Rightarrow> ('w, 'l) action_world \<Rightarrow> bool" where
  "controller_evolves s t \<longleftrightarrow> queue_evolves (action_queue s) (action_queue t)"

lemma actions_tick_effect:
  assumes "actions_tick env L others s = (r, t)" and "controller_ok s"
  shows "controller_ok t \<and> controller_evolves s t \<and>
    (case r of
       Err e \<Rightarrow> e = ActionsShuttingDown \<and> queue_shut (action_queue s) \<and> t = s
     | Ok report \<Rightarrow> \<not> queue_shut (action_queue s) \<and>
        (\<exists>fresh. executed_commands (action_queue t) = executed_commands (action_queue s) @ fresh \<and>
           length fresh \<le> commands_per_tick (action_options (action_queue s)) \<and>
           commands_processed report = length fresh \<and> action_failures report \<le> length fresh))"
proof (cases "queue_shut (action_queue s)")
  case True
  with assms show ?thesis by (auto simp: actions_tick_def begin_tick_def controller_evolves_def evolves_refl)
next
  case False
  let ?s = "s\<lparr>action_queue := (action_queue s)\<lparr>ticking := True\<rparr>\<rparr>"
  let ?n = "min (length (commands (action_queue s))) (commands_per_tick (action_options (action_queue s)))"
  have b: "begin_tick (action_queue s) = (Ok ?n, (action_queue s)\<lparr>ticking := True\<rparr>)"
    using False assms(2) by (simp add: begin_tick_def controller_ok_def)
  obtain report u where loop: "tick_loop env L others ?n empty_report ?s = (report, u)" by (meson surj_pair)
  let ?q = "meanwhile_queue others u"
  from assms(1) b loop have rt: "r = Ok report" "t = u\<lparr>action_queue := ?q\<lparr>ticking := False\<rparr>\<rparr>"
    by (auto simp: actions_tick_def)
  have "queue_ok (action_queue ?s)" using assms(2) by (simp add: controller_ok_def queue_ok_def)
  from tick_loop_effect [OF loop this] obtain fresh
    where u: "queue_ok (action_queue u)" "queue_evolves (action_queue ?s) (action_queue u)"
      "executed_commands (action_queue u) = executed_commands (action_queue s) @ fresh" "length fresh \<le> ?n"
      "commands_processed report = length fresh" "action_failures report \<le> length fresh"
    by (auto simp: empty_report_def)
  have q: "queue_ok ?q" "queue_evolves (action_queue u) ?q" using u(1) by (auto intro: meanwhile_ok meanwhile_evolves)
  have "queue_evolves (action_queue s) ((action_queue s)\<lparr>ticking := True\<rparr>)"
    "queue_evolves ?q (?q\<lparr>ticking := False\<rparr>)" by (auto simp: queue_evolves_def)
  with q(2) u(2) have "queue_evolves (action_queue s) (?q\<lparr>ticking := False\<rparr>)"
    by simp (blast intro: evolves_trans)
  moreover have "queue_ok (?q\<lparr>ticking := False\<rparr>)" using q(1) by (simp add: queue_ok_def)
  ultimately show ?thesis
    using rt u meanwhile_frame [of others u] False by (auto simp: controller_ok_def controller_evolves_def)
qed

interpretation controller: evolving_machine "actions_step env L others" controller_ok controller_evolves
  for env :: "'w env" and L :: "'l launcher" and others
proof
  fix s :: "('w, 'l) action_world" and x
  assume s: "controller_ok s"
  obtain r t where t: "actions_tick env L others s = (r, t)" by (meson surj_pair)
  from actions_tick_effect [OF t s] show "controller_ok (actions_step env L others s x)" and "controller_evolves s (actions_step env L others s x)"
    using s by (cases x; auto simp: t controller_ok_def controller_evolves_def op_ok op_evolves op_ticking)+
qed (auto simp: controller_evolves_def evolves_refl intro: evolves_trans)

lemma new_actions_ok: "new_actions alloc opts = Ok q \<Longrightarrow> queue_ok q \<and> \<not> ticking q \<and> action_options q = opts"
  by (auto simp: new_actions_def queue_ok_def split: if_splits)

text \<open>
  C27: Accepted commands are executed in the order of acceptance, none twice and none lost before the
  shutdown. In every run of the controller, with any submissions and shutdowns between any two of its
  locked sections: the queue stays within its capacity; while the controller runs, the accepted commands
  are exactly those executed and then those queued; a tick executes at most its budget and reports that
  number; the shown revision never decreases; and after a shutdown nothing is accepted or executed any
  more.
\<close>

theorem actions_run_in_order:
  assumes "new_actions alloc opts = Ok (action_queue s)"
    and "t = foldl (actions_step env L others) s xs" and "actions_tick env L others t = (r, u)"
  shows "length (commands (action_queue t)) \<le> command_capacity opts \<and>
    (\<not> queue_shut (action_queue t) \<longrightarrow>
       accepted_commands (action_queue t) = executed_commands (action_queue t) @ commands (action_queue t)) \<and>
    prefix (executed_commands (action_queue u)) (accepted_commands (action_queue u)) \<and>
    (\<exists>fresh. executed_commands (action_queue u) = executed_commands (action_queue t) @ fresh \<and>
       length fresh \<le> commands_per_tick opts \<and>
       (case r of Ok report \<Rightarrow> commands_processed report = length fresh | Err e \<Rightarrow> u = t)) \<and>
    queue_revision (action_queue t) \<le> queue_revision (action_queue u) \<and>
    (queue_shut (action_queue t) \<longrightarrow> u = t)"
proof -
  from new_actions_ok [OF assms(1)] have s: "controller_ok s" "action_options (action_queue s) = opts"
    by (auto simp: controller_ok_def)
  have t: "controller_ok t" "controller_evolves s t"
    unfolding assms(2) using s(1) by (auto intro: controller.run_inv controller.run_evolves)
  then have "action_options (action_queue t) = opts" using s(2) by (simp add: controller_evolves_def queue_evolves_def)
  moreover have "queue_ok q \<Longrightarrow> prefix (executed_commands q) (accepted_commands q)" for q
    by (auto simp: queue_ok_def split: if_splits)
  ultimately show ?thesis
    using actions_tick_effect [OF assms(3) t(1)] t(1)
    by (cases r) (auto simp: controller_ok_def queue_ok_def controller_evolves_def queue_evolves_def)
qed

text \<open>Two commands, the second one submitted while the first executes; a budget of one command.\<close>

definition silent_launcher :: "unit launcher" where
  "silent_launcher = \<lparr>open_url = (\<lambda>_ l. (Some (Ok ()), l)), open_directory = (\<lambda>_ l. (Some (Ok ()), l))\<rparr>"

definition sample_actions :: "(unit, unit) action_world" where
  "sample_actions =
     \<lparr>action_queue = \<lparr>action_options = \<lparr>command_capacity = 2, commands_per_tick = 1\<rparr>, commands = [], last_error = None,
        pending_commands = 0, queue_revision = 1, accepting_commands = True, queue_shut = False, ticking = False,
        accepted_commands = [], executed_commands = []\<rparr>,
      uploads_of = \<lparr>world = (), slots = (\<lambda>_. False), jobs = [], coord_limit = 5, next_id = Some 1, restored = False,
        result_cursor = 0, stopping = False\<rparr>, launcher_state = ()\<rparr>"

definition late_submission :: "(unit, unit) others" where
  "late_submission s = (if executed_commands (action_queue s) = [] then [Submit (OpenDirectory 7)] else [])"

lemma sample_actions_new:
  "new_actions (\<lambda>_. True) \<lparr>command_capacity = 2, commands_per_tick = 1\<rparr> = Ok (action_queue sample_actions)"
  by (simp add: new_actions_def sample_actions_def)

theorem actions_run_in_order_witness:
  "\<exists>u report. actions_tick quiet_env silent_launcher late_submission
       (actions_step quiet_env silent_launcher late_submission sample_actions (OtherThread (Submit DismissError))) = (Ok report, u) \<and>
     executed_commands (action_queue u) = [DismissError] \<and> commands (action_queue u) = [OpenDirectory 7] \<and>
     prefix (executed_commands (action_queue u)) (accepted_commands (action_queue u))"
proof -
  let ?t = "actions_step quiet_env silent_launcher late_submission sample_actions (OtherThread (Submit DismissError))"
  obtain r u where u: "actions_tick quiet_env silent_launcher late_submission ?t = (r, u)" by (meson surj_pair)
  have "\<not> (- 1 - 1 :: u64) \<le> 1" "\<not> (- 2 :: u64) \<le> 1"
    "\<not> (- 2 :: u64) \<le> 2" by (simp_all add: word_le_nat_alt)
  then have "(\<exists>report. r = Ok report) \<and> executed_commands (action_queue u) = [DismissError] \<and>
      commands (action_queue u) = [OpenDirectory 7]"
    using u by (auto simp: actions_tick_def begin_tick_def sample_actions_def submit_action_def pop_action_def
        late_submission_def meanwhile_queue_def execute_def store_result_def Let_def split: prod.splits)
  moreover have "?t = foldl (actions_step quiet_env silent_launcher late_submission) sample_actions
      [OtherThread (Submit DismissError)]" by simp
  from actions_run_in_order [OF sample_actions_new this u]
  have "prefix (executed_commands (action_queue u)) (accepted_commands (action_queue u))" by blast
  ultimately show ?thesis using u by blast
qed

end
