(* ===== verification/Dps_Report.thy ===== *)
theory Dps_Report
  imports Client_Log Upload_Worker Recent_Actions Configuration
begin

text \<open>
  The dps.report destination (\<open>rust/src/providers/dps_report/mod.rs\<close>, \<open>response.rs\<close>, \<open>worker.rs\<close>): the
  upload request, the decoding of its answer, and the worker that loads and replaces the user token.
\<close>

section \<open>Values\<close>

definition dps_report_upload_url :: string where
  "dps_report_upload_url = ''https://dps.report/uploadContent?json=1&generator=ei''"

definition dps_report_detailed_wvw_url :: string where
  "dps_report_detailed_wvw_url = ''https://dps.report/uploadContent?json=1&generator=ei&detailedwvw=true''"

definition max_dps_report_token_bytes :: nat where "max_dps_report_token_bytes = 256"
definition max_dps_report_response_bytes :: nat where "max_dps_report_response_bytes = 1024 * 1024"

record dps_options =
  detailed_wvw :: bool

datatype dps_disposition = DpsRetry | DpsFailed | DpsCancelled

datatype dps_error_code =
  DpsInvalidToken | DpsFileUnavailable | DpsMultipartFailed | DpsTransport | DpsHttpStatus
| DpsInvalidResponse | DpsInternal | DpsStopped

record dps_error =
  dps_code :: dps_error_code
  dps_disposition :: dps_disposition
  dps_retry_after :: "duration option"
  dps_http_error :: "http_error_code option"
  dps_http_status :: "u16 option"

definition dps_failed :: "dps_error_code \<Rightarrow> dps_error" where
  "dps_failed c = \<lparr>dps_code = c, dps_disposition = DpsFailed, dps_retry_after = None, dps_http_error = None,
     dps_http_status = None\<rparr>"

definition dps_cancelled :: dps_error where
  "dps_cancelled = (dps_failed DpsStopped)\<lparr>dps_disposition := DpsCancelled\<rparr>"

datatype dps_warning = GeneratedWithWarning | InvalidReturnedToken

record dps_success =
  dps_report :: dps_report_result
  replacement_token :: "string option"
  dps_warning :: "dps_warning option"

definition valid_token :: "string \<Rightarrow> bool" where
  "valid_token s \<longleftrightarrow> length s \<le> max_dps_report_token_bytes \<and> list_all (\<lambda>c. 33 \<le> byte c \<and> byte c \<le> 126) s"

section \<open>The answer\<close>

datatype returned_token = ValidToken string | InvalidToken

record encounter_answer =
  answer_success :: bool
  answer_boss_id :: int
  answer_boss :: string
  answer_is_cm :: "bool option"
  answer_is_legendary_cm :: "bool option"
  answer_emboldened :: "int option"

record dps_answer =
  answer_permalink :: string
  answer_encounter :: encounter_answer
  answer_token :: "returned_token option"
  answer_error :: "bool option"

definition parse_encounter :: "(string \<times> wire_json) list \<Rightarrow> encounter_answer parsed" where
  "parse_encounter fs =
     and_then (required json_bool ''success'' fs) (\<lambda>s.
     and_then (required (json_int 0 65535) ''bossId'' fs) (\<lambda>b.
     and_then (required (json_text 256) ''boss'' fs) (\<lambda>n.
     and_then (optional json_bool ''isCm'' fs) (\<lambda>cm.
     and_then (optional json_bool ''isLegendaryCm'' fs) (\<lambda>lcm.
     and_then (optional (json_int (- (2 ^ 31)) (2 ^ 31 - 1)) ''emboldened'' fs) (\<lambda>e.
       Ok \<lparr>answer_success = s, answer_boss_id = b, answer_boss = n, answer_is_cm = cm,
         answer_is_legendary_cm = lcm, answer_emboldened = e\<rparr>))))))"

definition json_token :: "wire_json \<Rightarrow> returned_token parsed" where
  "json_token v = and_then (json_string v) (\<lambda>s. Ok (if valid_token s then ValidToken s else InvalidToken))"

definition json_warning :: "wire_json \<Rightarrow> bool parsed" where
  "json_warning v = and_then (json_string v) (\<lambda>s. Ok (s \<noteq> []))"

definition parse_answer :: "(string \<times> wire_json) list \<Rightarrow> dps_answer parsed" where
  "parse_answer fs =
     and_then (required (json_text 2048) ''permalink'' fs) (\<lambda>p.
     and_then (required (json_object parse_encounter) ''encounter'' fs) (\<lambda>e.
     and_then (optional json_token ''userToken'' fs) (\<lambda>t.
     and_then (optional json_warning ''error'' fs) (\<lambda>w.
       Ok \<lparr>answer_permalink = p, answer_encounter = e, answer_token = t, answer_error = w\<rparr>))))"

definition valid_permalink :: "string \<Rightarrow> u16 \<Rightarrow> bool" where
  "valid_permalink v boss \<longleftrightarrow>
     trusted_report_permalink v \<and> (strip_prefix ''https://wvw.report/'' v = None \<or> boss = wvw_boss_id)"

definition answer_mode :: "encounter_answer \<Rightarrow> string" where
  "answer_mode e =
     (let emboldened = (case answer_emboldened e of None \<Rightarrow> 0 | Some n \<Rightarrow> n) in
      if answer_is_legendary_cm e = Some True then ''LCM''
      else if answer_is_cm e = Some True then ''CM''
      else if 0 < emboldened then ''Emboldened '' @ dec_string (nat emboldened)
      else [])"

definition answer_report :: "dps_answer \<Rightarrow> dps_report_result" where
  "answer_report a = (let e = answer_encounter a in
     \<lparr>permalink = answer_permalink a, encounter_name = answer_boss e, report_boss_id = word_of_int (answer_boss_id e),
      mode = answer_mode e, success = answer_success e\<rparr>)"

definition decode_dps_report ::
  "(string \<Rightarrow> wire_json option) \<Rightarrow> http_response \<Rightarrow> string option \<Rightarrow> (dps_error, dps_success) result" where
  "decode_dps_report parse r current =
     (let invalid = (dps_failed DpsInvalidResponse)\<lparr>dps_http_status := Some (status_code r)\<rparr> in
      and_then (map_err (\<lambda>_. invalid) (json_decode parse max_dps_report_response_bytes parse_answer (response_body r))) (\<lambda>a.
        let report = answer_report a in
        if encounter_name report = [] \<or> list_ex (\<lambda>c. byte c < 32 \<or> byte c = 127) (encounter_name report) \<or>
          \<not> valid_permalink (permalink report) (report_boss_id report)
        then Err invalid
        else
          (let warning = (if answer_error a = Some True then Some GeneratedWithWarning else None) in
           case answer_token a of
             Some InvalidToken \<Rightarrow>
               Ok \<lparr>dps_report = report, replacement_token = None, dps_warning = Some InvalidReturnedToken\<rparr>
           | Some (ValidToken t) \<Rightarrow>
               Ok \<lparr>dps_report = report,
                 replacement_token = (if t \<noteq> [] \<and> current \<noteq> Some t then Some t else None), dps_warning = warning\<rparr>
           | None \<Rightarrow> Ok \<lparr>dps_report = report, replacement_token = None, dps_warning = warning\<rparr>)))"

section \<open>The upload\<close>

definition dps_transport_error :: "http_error \<Rightarrow> dps_error" where
  "dps_transport_error e =
     (let retry = retryable_transport (http_code e) in
      \<lparr>dps_code = DpsTransport,
       dps_disposition = (if http_code e = HttpCancelled then DpsCancelled else if retry then DpsRetry else DpsFailed),
       dps_retry_after = (if retry then Some (30 * second) else None), dps_http_error = Some (http_code e),
       dps_http_status = None\<rparr>)"

definition dps_status_error :: "http_response \<Rightarrow> dps_error" where
  "dps_status_error r =
     (let retry = retryable_status (unat (status_code r)) in
      \<lparr>dps_code = DpsHttpStatus, dps_disposition = (if retry then DpsRetry else DpsFailed),
       dps_retry_after = (if retry then Some (status_delay r) else None), dps_http_error = None,
       dps_http_status = Some (status_code r)\<rparr>)"

definition dps_parts ::
  "string option \<Rightarrow> 'h file_body \<Rightarrow> (dps_error, 'h form_part multipart_part list) result" where
  "dps_parts token source =
     (case token of
        None \<Rightarrow> Ok [log_part source]
      | Some t \<Rightarrow> and_then (map_err (\<lambda>_. dps_failed DpsInvalidToken) (new_memory_body t)) (\<lambda>m.
          Ok [text_part ''userToken'' m, log_part source]))"

definition dps_request :: "dps_options \<Rightarrow> string \<times> 'h form_part multipart_body \<Rightarrow> 'h client_body http_request" where
  "dps_request opts form =
     (new_http_request HttpPost (if detailed_wvw opts then dps_report_detailed_wvw_url else dps_report_upload_url))
       \<lparr>http_headers := [public_header ''Accept'' ''application/json'', public_header ''Content-Type'' (fst form)],
        http_body := Some (FormBody (snd form)),
        http_timeouts := \<lparr>connect_timeout = 10 * second, operation_timeout = 900 * second, stalled_transfer = 900 * second\<rparr>,
        http_response_limits := \<lparr>max_header_bytes = max_http_response_header_bytes,
          max_body_bytes = max_dps_report_response_bytes\<rparr>\<rparr>"

type_synonym 'a dps_result = "(dps_error, 'a) result"

definition dps_upload_inner ::
  "('h, 'w) client_env \<Rightarrow> log_file_identity \<Rightarrow> string option \<Rightarrow> dps_options \<Rightarrow> ('w, dps_success dps_result) step" where
  "dps_upload_inner E f token opts =
     unless_stopped E dps_cancelled
       (if (case token of None \<Rightarrow> False | Some t \<Rightarrow> t = [] \<or> \<not> valid_token t) then give (Err (dps_failed DpsInvalidToken))
        else if file_size f = 0 then give (Err (dps_failed DpsFileUnavailable))
        else andthen (ask (new_file_body (client_disk E) f)) (\<lambda>opened.
          unless_err (map_err (\<lambda>_. dps_failed DpsFileUnavailable) opened) (\<lambda>source.
          unless_err (dps_parts token source) (\<lambda>form_parts.
          andthen (ask (client_random E)) (\<lambda>random.
          unless_err (map_err (\<lambda>_. dps_failed DpsMultipartFailed) (new_multipart form_part_length random form_parts)) (\<lambda>form.
          unless_stopped E dps_cancelled
            (andthen (client_execute E (dps_request opts form)) (\<lambda>result.
               unless_stopped E dps_cancelled
                 (unless_err (map_err dps_transport_error result) (\<lambda>response.
                    give (if success_status (unat (status_code response))
                          then decode_dps_report (client_json E) response token
                          else Err (dps_status_error response))))))))))))"

definition dps_upload ::
  "('h, 'w) client_env \<Rightarrow> log_file_identity \<Rightarrow> string option \<Rightarrow> dps_options \<Rightarrow> 'w \<Rightarrow> dps_success dps_result \<times> 'w" where
  "dps_upload E f token opts = panic_as (Err (dps_failed DpsInternal)) (dps_upload_inner E f token opts)"

section \<open>The worker\<close>

record captured_upload =
  captured_request :: upload_request
  captured_options :: dps_options

text \<open>The secret store behind its mutex: locking fails when a holder has panicked.\<close>

record 'w shared_secrets =
  secrets_lock :: "'w \<Rightarrow> bool \<times> 'w"
  secrets_behind :: "'w secret_port"

definition load_token :: "'w shared_secrets option \<Rightarrow> ('w, (upload_outcome, string option) result) step" where
  "load_token S =
     (case S of
        None \<Rightarrow> give (Ok None)
      | Some x \<Rightarrow> andthen (ask (secrets_lock x)) (\<lambda>locked.
          if \<not> locked then give (Err OutFailed)
          else andthen (ask (port_load_secret (secrets_behind x) DpsReportUserToken)) (\<lambda>r. give
            (case r of
               Ok t \<Rightarrow> Ok (Some t)
             | Err e \<Rightarrow> if secret_code e = SecretNotFound then Ok None else Err OutFailed))))"

fun warning_notice :: "dps_warning \<Rightarrow> upload_notice" where
  "warning_notice GeneratedWithWarning = ProviderWarning"
| "warning_notice InvalidReturnedToken = InvalidReturnedCredential"

definition dps_done :: "dps_success \<Rightarrow> upload_notice option \<Rightarrow> upload_outcome" where
  "dps_done s notice =
     (case notice of
        None \<Rightarrow> OutSucceeded (DpsReportDone (dps_report s))
      | Some n \<Rightarrow> OutSucceededWithNotice (DpsReportDone (dps_report s)) n)"

definition store_replacement ::
  "('h, 'w) client_env \<Rightarrow> 'w shared_secrets option \<Rightarrow> dps_success \<Rightarrow> ('w, upload_outcome) step" where
  "store_replacement E S s =
     (let notice = map_option warning_notice (dps_warning s) in
      case replacement_token s of
        None \<Rightarrow> give (dps_done s notice)
      | Some t \<Rightarrow>
          (case S of
             None \<Rightarrow> give (dps_done s (Some CredentialStorageUnavailable))
           | Some x \<Rightarrow> andthen (ask (secrets_lock x)) (\<lambda>locked.
               if \<not> locked then give OutFailed
               else andthen (ask (client_stopped E)) (\<lambda>b.
                 if b then give OutCancelled
                 else andthen (ask (port_store_secret (secrets_behind x) DpsReportUserToken t)) (\<lambda>r.
                   give (if is_err r then OutFailed else dps_done s notice))))))"

definition bounded_delay :: "duration option \<Rightarrow> duration" where
  "bounded_delay d = (case d of None \<Rightarrow> 30 * second | Some n \<Rightarrow> if n \<noteq> 0 \<and> n \<le> 86400 * second then n else 30 * second)"

definition dps_error_outcome :: "dps_error \<Rightarrow> upload_outcome" where
  "dps_error_outcome e =
     (case dps_disposition e of
        DpsCancelled \<Rightarrow> OutCancelled
      | DpsFailed \<Rightarrow> OutFailed
      | DpsRetry \<Rightarrow> OutRetryAfter (bounded_delay (dps_retry_after e)))"

definition dps_process ::
  "('h, 'w) client_env \<Rightarrow> 'w shared_secrets option \<Rightarrow> captured_upload \<Rightarrow> ('w, upload_outcome) step" where
  "dps_process E S q =
     (let checked = (\<lambda>k. andthen (ask (client_stopped E)) (\<lambda>b. if b then give OutCancelled else k)) in
      checked (andthen (load_token S) (\<lambda>loaded.
        case loaded of
          Err x \<Rightarrow> give x
        | Ok token \<Rightarrow> checked (andthen (ask (dps_upload E (request_file (captured_request q)) token (captured_options q)))
            (\<lambda>result. checked (case result of
               Ok s \<Rightarrow> store_replacement E S s
             | Err e \<Rightarrow> give (dps_error_outcome e)))))))"

definition dps_result_of :: "captured_upload \<Rightarrow> upload_outcome \<Rightarrow> upload_result" where
  "dps_result_of q x =
     \<lparr>result_job_id = request_job_id (captured_request q), result_provider = DpsReport,
      result_attempt = request_attempt (captured_request q), result_outcome = x\<rparr>"

definition dps_worker_failed :: "captured_upload \<Rightarrow> upload_result" where
  "dps_worker_failed q = dps_result_of q OutFailed"

record dps_worker =
  dps_pool :: "(captured_upload, upload_result) pool"
  dps_worker_options :: dps_options

definition new_dps_worker ::
  "(nat \<Rightarrow> bool) \<Rightarrow> (nat \<Rightarrow> bool) \<Rightarrow> worker_options \<Rightarrow> dps_options \<Rightarrow> (worker_error, dps_worker) result" where
  "new_dps_worker alloc starts w opts =
     and_then (new_pool alloc starts w) (\<lambda>p. Ok \<lparr>dps_pool = p, dps_worker_options = opts\<rparr>)"

definition worker_configuration_error :: "worker_error \<Rightarrow> provider_configuration_error" where
  "worker_configuration_error e = (case e of
      InvalidCapacity \<Rightarrow> ConfigInvalid | InvalidParallelism \<Rightarrow> ConfigInvalid
    | AllocationFailed \<Rightarrow> ConfigResourceLimit | ThreadStartFailed \<Rightarrow> ConfigResourceLimit
    | WorkerStopping \<Rightarrow> ConfigStopping)"

definition dps_configure ::
  "(nat \<Rightarrow> bool) \<Rightarrow> provider_configuration \<Rightarrow> dps_worker \<Rightarrow> (provider_configuration_error, unit) result \<times> dps_worker" where
  "dps_configure starts conf w =
     (case policy conf of
        DpsReportPolicy detailed \<Rightarrow>
          (case resize starts (provider_configuration.parallelism conf) (dps_pool w) of
             (Err e, p) \<Rightarrow> (Err (worker_configuration_error e), w\<lparr>dps_pool := p\<rparr>)
           | (Ok _, p) \<Rightarrow> (Ok (), w\<lparr>dps_pool := p, dps_worker_options := \<lparr>detailed_wvw = detailed\<rparr>\<rparr>))
      | _ \<Rightarrow> (Err ConfigInvalid, w))"

definition dps_admits :: "upload_request \<Rightarrow> bool" where
  "dps_admits q \<longleftrightarrow> \<not> (request_provider q \<noteq> DpsReport \<or> request_attempt q = 0 \<or> canonical_path (request_file q) = [] \<or>
     request_report q \<noteq> None)"

definition dps_enqueue :: "upload_request \<Rightarrow> dps_worker \<Rightarrow> (provider_error, unit) result \<times> dps_worker" where
  "dps_enqueue q w =
     (if \<not> dps_admits q then (Err InvalidRequest, w)
      else case enqueue \<lparr>captured_request = q, captured_options = dps_worker_options w\<rparr> (dps_pool w) of
        (r, p) \<Rightarrow> (map_err queue_provider_error r, w\<lparr>dps_pool := p\<rparr>))"

definition dps_take :: "dps_worker \<Rightarrow> (provider_error, upload_result option) result \<times> dps_worker" where
  "dps_take w = (case try_take_result (dps_pool w) of (r, p) \<Rightarrow> (Ok r, w\<lparr>dps_pool := p\<rparr>))"

definition dps_cancel :: "dps_worker \<Rightarrow> dps_worker" where
  "dps_cancel w = w\<lparr>dps_pool := cancel_pending (dps_pool w)\<rparr>"

interpretation dps_uploads: answering dps_worker_failed "\<lambda>q x. map_option (dps_result_of q) x"
    "\<lambda>q. (request_job_id (captured_request q), DpsReport, request_attempt (captured_request q))" result_key
proof
  fix q and x :: "upload_outcome option"
  show "result_key (attempt_output dps_worker_failed q (map_option (dps_result_of q) x)) =
      (request_job_id (captured_request q), DpsReport, request_attempt (captured_request q))"
    by (cases x) (simp_all add: result_key_def attempt_output_def dps_worker_failed_def dps_result_of_def)
qed

section \<open>What is sent\<close>

lemma dps_urls_valid:
  "validate_http_url dps_report_upload_url HttpsOnly = Ok ()"
  "validate_http_url dps_report_detailed_wvw_url HttpsOnly = Ok ()"
  by (simp_all add: dps_report_upload_url_def dps_report_detailed_wvw_url_def url_eval)

lemma dps_request_sendable:
  assumes "new_multipart form_part_length random ps = Ok form"
  shows "sendable (dps_request opts form)"
proof -
  obtain t m where form: "form = (t, m)" by (cases form)
  from form_within_bounds [OF assms [unfolded form]] obtain boundary
    where m: "1 \<le> multipart_length m" "multipart_length m \<le> max_http_request_body_bytes"
      and t: "t = ''multipart/form-data; boundary='' @ boundary" "length boundary \<le> 70" "list_all is_http_token_byte boundary"
    by blast
  have "validate_headers 0 [public_header ''Accept'' ''application/json'', public_header ''Content-Type'' t] = Ok ()"
    using accept_json_valid form_header_valid [OF t(2,3)] t(2)
    by (simp add: Let_def t(1) public_header_def max_http_request_header_bytes_def)
  then show ?thesis
    using m by (simp add: form validate_http_request_def Let_def dps_request_def new_http_request_def dps_urls_valid
        max_http_header_count_def second_def max_dps_report_response_bytes_def max_http_response_header_bytes_def
        max_http_response_body_bytes_def)
qed

context recording_client
begin

lemma dps_upload_inner_sends: "satisfies (all_sent sendable) (\<lambda>_. True) (dps_upload_inner E f token opts)"
  unfolding dps_upload_inner_def
  by (intro keeps_unless_stopped satisfies_if satisfies_give satisfies_andthen [OF keeps_file]
      satisfies_andthen [OF keeps_random] satisfies_andthen [OF keeps_execute] satisfies_unless_err TrueI)
     (auto intro: dps_request_sendable)

end

text \<open>
  Every request that the dps.report client sends passes the checks of the HTTP client: for any log
  file, token, options, random source and file system, the address is one of the two fixed \<open>https\<close>
  addresses, the headers are well-formed, and the declared length, the time limits and the response
  limits lie within the bounds. No upload is refused by the program's own transport.
\<close>

theorem dps_requests_are_sendable:
  "list_all (\<lambda>q. validate_http_request client_body_length q HttpsOnly = Ok ())
     (snd (snd (dps_upload (logged_client E) f token opts (w, []))))"
proof -
  obtain r w' where u: "dps_upload (logged_client E) f token opts (w, []) = (r, w')" by (meson surj_pair)
  from panic_as_satisfies [OF logged_client.dps_upload_inner_sends u [unfolded dps_upload_def]]
  show ?thesis using u by simp
qed

section \<open>What is accepted\<close>

lemma below_prefix_iff: "below_prefix ps v \<longleftrightarrow> (\<exists>p \<in> set ps. \<exists>path. path \<noteq> [] \<and> v = p @ path)"
  by (auto simp: below_prefix_def list_ex_iff split: option.splits)

lemma trusted_iff:
  "trusted_report_permalink v \<longleftrightarrow> length v \<le> 2048 \<and> list_all (\<lambda>c. 33 \<le> byte c \<and> byte c \<le> 126 \<and>
     \<not> (c = CHR ''@'' \<or> c = CHR ''?'' \<or> c = CHR ''#'' \<or> c = CHR 0x5C \<or> c = CHR 0x22)) v \<and> below_prefix report_hosts v"
  by (simp add: trusted_report_permalink_def below_prefix_def)

lemma trusted_printable: "trusted_report_permalink v \<Longrightarrow> list_all (\<lambda>c. 33 \<le> byte c \<and> byte c \<le> 126) v"
  unfolding trusted_iff by (auto simp: list_all_iff)

lemma hosts_https: "\<forall>p \<in> set report_hosts. take 8 p = ''https://''"
  by (simp add: report_hosts_def)

lemma trusted_external:
  assumes "trusted_report_permalink v"
  shows "valid_external_url v \<and> v \<noteq> []"
proof -
  from assms obtain p path where p: "p \<in> set report_hosts" "v = p @ path" "path \<noteq> []"
    unfolding trusted_iff below_prefix_iff by blast
  have "v = ''https://'' @ (drop 8 p @ path)"
    using p(1,2) hosts_https by (metis append.assoc append_take_drop_id)
  then have rest: "strip_prefix ''https://'' v = Some (drop 8 p @ path)" by (simp only: strip_prefix_Some)
  have plain: "list_all (\<lambda>c. 33 \<le> byte c \<and> byte c \<le> 126 \<and> \<not> (byte c = 92 \<or> byte c = 34)) v"
  proof -
    have e: "byte (CHR 0x5C) = 92" "byte (CHR 0x22) = 34" by (simp_all add: byte_def)
    have inj: "byte c = byte d \<Longrightarrow> c = d" for c d by (simp add: byte_def)
    have q: "c = CHR 0x5C" if "byte c = 92" for c by (rule inj) (simp add: e that)
    have r: "c = CHR 0x22" if "byte c = 34" for c by (rule inj) (simp add: e that)
    show ?thesis unfolding list_all_iff
    proof
      fix c assume c: "c \<in> set v"
      have "\<forall>c \<in> set v. 33 \<le> byte c \<and> byte c \<le> 126 \<and>
          \<not> (c = CHR ''@'' \<or> c = CHR ''?'' \<or> c = CHR ''#'' \<or> c = CHR 0x5C \<or> c = CHR 0x22)"
        using assms unfolding trusted_iff list_all_iff by (elim conjE)
      with c have "33 \<le> byte c \<and> byte c \<le> 126 \<and> c \<noteq> CHR 0x5C \<and> c \<noteq> CHR 0x22" by blast
      then show "33 \<le> byte c \<and> byte c \<le> 126 \<and> \<not> (byte c = 92 \<or> byte c = 34)" using q [of c] r [of c] by blast
    qed
  qed
  have "length v \<le> 2048" using assms unfolding trusted_iff by blast
  moreover have "(case strip_prefix ''https://'' v of None \<Rightarrow> False | Some rest \<Rightarrow> rest \<noteq> [])"
    unfolding rest using p(3) by simp
  moreover have "v \<noteq> []" using p(2,3) by simp
  ultimately show ?thesis using plain unfolding valid_external_url_def by blast
qed

lemma valid_permalink_below:
  assumes "valid_permalink v b"
  shows "below_prefix (if b = wvw_boss_id
      then [''https://dps.report/'', ''https://b.dps.report/'', ''https://wvw.report/'']
      else [''https://dps.report/'', ''https://b.dps.report/'']) v"
proof -
  from assms obtain p path where p: "p \<in> set report_hosts" "v = p @ path" "path \<noteq> []"
    unfolding valid_permalink_def trusted_iff below_prefix_iff by blast
  moreover have "p \<noteq> ''https://wvw.report/''" if "b \<noteq> wvw_boss_id"
  proof
    assume "p = ''https://wvw.report/''"
    then have "strip_prefix ''https://wvw.report/'' v = Some path" unfolding strip_prefix_Some using p(2) by blast
    then show False using assms that by (simp add: valid_permalink_def del: strip_prefix_Some)
  qed
  ultimately show ?thesis unfolding below_prefix_iff report_hosts_def by auto
qed

lemma answer_mode_plain: "\<not> list_ex is_control (answer_mode e)"
proof -
  have "\<not> list_ex is_control (dec_string n)" for n
    using dec_string_digits [of n] by (auto simp: list_ex_iff list_all_iff is_control_def is_digit_def)
  then show ?thesis by (simp add: answer_mode_def Let_def byte_class_defs)
qed

lemma decoded_report:
  assumes "decode_dps_report parse r current = Ok s"
  shows "\<exists>a. dps_report s = answer_report a \<and> encounter_name (dps_report s) \<noteq> [] \<and>
    \<not> list_ex is_control (encounter_name (dps_report s)) \<and>
    valid_permalink (permalink (dps_report s)) (report_boss_id (dps_report s)) \<and>
    (\<forall>t. replacement_token s = Some t \<longrightarrow> t \<noteq> [] \<and> current \<noteq> Some t \<and> answer_token a = Some (ValidToken t)) \<and>
    json_decode parse max_dps_report_response_bytes parse_answer (response_body r) = Ok a"
proof -
  from assms obtain a where d: "json_decode parse max_dps_report_response_bytes parse_answer (response_body r) = Ok a"
    and k: "decode_dps_report parse r current = Ok s" unfolding decode_dps_report_def Let_def by (auto simp del: if_split_asm)
  let ?p = "answer_report a"
  have ok: "encounter_name ?p \<noteq> [] \<and> \<not> list_ex (\<lambda>c. byte c < 32 \<or> byte c = 127) (encounter_name ?p) \<and>
      valid_permalink (permalink ?p) (report_boss_id ?p)"
    using k d by (simp add: decode_dps_report_def Let_def split: if_split_asm)
  moreover have "dps_report s = ?p \<and>
      (\<forall>t. replacement_token s = Some t \<longrightarrow> t \<noteq> [] \<and> current \<noteq> Some t \<and> answer_token a = Some (ValidToken t))"
  proof (cases "answer_token a")
    case (Some x)
    with k d ok show ?thesis by (cases x) (auto simp: decode_dps_report_def Let_def split: if_splits)
  qed (use k d ok in \<open>auto simp: decode_dps_report_def Let_def\<close>)
  moreover have "is_control = (\<lambda>c. byte c < 32 \<or> byte c = 127)" by (simp add: fun_eq_iff is_control_def)
  ultimately show ?thesis using d by (intro exI [of _ a]) simp
qed

lemma optional_Some:
  assumes "optional conv k fs = Ok (Some y)"
  shows "\<exists>v. conv v = Ok y"
proof -
  from assms obtain r where r: "(case r of None \<Rightarrow> Ok None | Some JNull \<Rightarrow> Ok None
      | Some x \<Rightarrow> and_then (conv x) (\<lambda>y. Ok (Some y))) = Ok (Some y)"
    unfolding optional_def and_then_Ok_iff by blast
  show ?thesis
  proof (cases r)
    case (Some v)
    with r show ?thesis by (cases v) auto
  qed (use r in simp)
qed

lemma decoded_token:
  assumes "json_decode parse n parse_answer b = Ok a" and "answer_token a = Some (ValidToken t)"
  shows "valid_token t"
proof -
  from assms(1) obtain x where "json_object parse_answer x = Ok a"
    unfolding json_decode_def by (auto split: if_split_asm)
  then obtain fs where "parse_answer fs = Ok a" by (cases x) (simp_all add: json_object_def)
  then have "optional json_token ''userToken'' fs = Ok (Some (ValidToken t))"
    using assms(2) unfolding parse_answer_def and_then_Ok_iff by auto
  from optional_Some [OF this] obtain v where "json_token v = Ok (ValidToken t)" by blast
  then show ?thesis by (auto simp: json_token_def split: if_split_asm)
qed

text \<open>
  C17: Whatever the service answers, a report that the client accepts can be used everywhere else in
  the program: it may be recorded as the result of the job, its link may be opened and passes the
  check of trusted report links that the imports of GW2Wingman and DonBot and the Twitch worker
  begin with, and every field of a chat template renders without a control character. (GW2Wingman also
  limits the length of the encoded link, which is not claimed here.) A token that the answer carries
  replaces the stored one only if it differs and is itself one that the next upload accepts.
\<close>

theorem accepted_report_is_usable:
  assumes "decode_dps_report parse r current = Ok s"
  shows "(state_of j DpsReport = Active \<longrightarrow> is_ok (complete_dps_report (dps_report s) d j)) \<and>
    (dps_report_result (snapshot_record v) = Some (dps_report s) \<longrightarrow>
       external_report_url v ReportDpsReport = Ok (permalink (dps_report s))) \<and>
    trusted_report_permalink (permalink (dps_report s)) \<and>
    \<not> list_ex is_control (part_text (dps_report s) (Field x)) \<and>
    (\<forall>t. replacement_token s = Some t \<longrightarrow> current \<noteq> Some t \<and> t \<noteq> [] \<and> valid_token t)"
proof -
  from decoded_report [OF assms] obtain a where a: "dps_report s = answer_report a" "encounter_name (dps_report s) \<noteq> []"
    "\<not> list_ex is_control (encounter_name (dps_report s))"
    "valid_permalink (permalink (dps_report s)) (report_boss_id (dps_report s))"
    and t: "\<forall>t. replacement_token s = Some t \<longrightarrow> t \<noteq> [] \<and> current \<noteq> Some t \<and> answer_token a = Some (ValidToken t)"
    and d: "json_decode parse max_dps_report_response_bytes parse_answer (response_body r) = Ok a" by blast
  have trusted: "trusted_report_permalink (permalink (dps_report s))" using a(4) by (simp add: valid_permalink_def)
  note link = trusted_external [OF trusted]
  have "\<not> list_ex is_control (permalink (dps_report s))"
    using trusted_printable [OF trusted] by (auto simp: list_ex_iff list_all_iff is_control_def)
  moreover have "\<not> list_ex is_control (mode (dps_report s))" using answer_mode_plain by (simp add: a(1) answer_report_def Let_def)
  moreover have "\<not> list_ex is_control (dec_string n)" for n
    using dec_string_digits [of n] by (auto simp: list_ex_iff list_all_iff is_control_def is_digit_def)
  moreover have "\<not> list_ex is_control ''Success''" "\<not> list_ex is_control ''Failure''"
    by (simp_all add: byte_class_defs)
  ultimately have plain: "\<not> list_ex is_control (part_text (dps_report s) (Field x))"
    using a(3) by (cases x) simp_all
  have "external_report_url v ReportDpsReport = Ok (permalink (dps_report s))"
    if "dps_report_result (snapshot_record v) = Some (dps_report s)"
    using that link valid_permalink_below [OF a(4)]
    by (simp add: external_report_url_def Let_def checked_link_def report_prefixes_def)
  moreover have "is_ok (complete_dps_report (dps_report s) d j)" if "state_of j DpsReport = Active"
    using that link by (simp add: complete_dps_report_def require_active_def require_def)
  moreover have "\<forall>t. replacement_token s = Some t \<longrightarrow> current \<noteq> Some t \<and> t \<noteq> [] \<and> valid_token t"
    using t decoded_token [OF d] by blast
  ultimately show ?thesis using trusted plain by blast
qed

section \<open>Outcomes\<close>

lemma bounded_delay_bound: "0 < bounded_delay x \<and> bounded_delay x \<le> 86400 * second"
  by (auto simp: bounded_delay_def second_def split: option.splits)

text \<open>The outcomes that a dps.report attempt may have.\<close>

definition dps_outcome_ok :: "upload_outcome \<Rightarrow> bool" where
  "dps_outcome_ok x = (case x of
      OutSucceeded (DpsReportDone r) \<Rightarrow> permalink r \<noteq> []
    | OutSucceededWithNotice (DpsReportDone r) _ \<Rightarrow> permalink r \<noteq> []
    | OutRetryAfter d \<Rightarrow> 0 < d \<and> d \<le> 86400 * second
    | OutFailed \<Rightarrow> True | OutCancelled \<Rightarrow> True | _ \<Rightarrow> False)"

lemma dps_decoded_permalink:
  "decode_dps_report parse r current = Ok s \<Longrightarrow> permalink (dps_report s) \<noteq> []"
  using decoded_report [of parse r current s] trusted_external by (auto simp: valid_permalink_def)

abbreviation any :: "'w \<Rightarrow> bool" where "any \<equiv> (\<lambda>_. True)"

lemma any_ask: "satisfies any any (ask f)"
  by (rule satisfies_ask) simp

lemma any_call: "satisfies any any f"
  by (simp add: satisfies_def)

lemma dps_upload_gives: "satisfies any (\<lambda>r. \<forall>s. r = Ok s \<longrightarrow> permalink (dps_report s) \<noteq> []) (dps_upload_inner E f token opts)"
  unfolding dps_upload_inner_def unless_stopped_def
  by (intro satisfies_andthen [OF any_ask] satisfies_andthen [OF any_call [of "client_execute E _"]] satisfies_if satisfies_give
      satisfies_unless_err) (auto split: if_splits dest: dps_decoded_permalink)

lemma dps_upload_result: "dps_upload E f token opts w = (Ok s, w') \<Longrightarrow> permalink (dps_report s) \<noteq> []"
  using panic_as_satisfies [OF dps_upload_gives, of "Err (dps_failed DpsInternal)" E f token opts w "Ok s" w']
  by (simp add: dps_upload_def)

lemma dps_done_ok: "permalink (dps_report s) \<noteq> [] \<Longrightarrow> dps_outcome_ok (dps_done s n)"
  by (simp add: dps_outcome_ok_def dps_done_def split: option.splits)

lemma store_replacement_gives:
  "permalink (dps_report s) \<noteq> [] \<Longrightarrow> satisfies any dps_outcome_ok (store_replacement E S s)"
  unfolding store_replacement_def Let_def
  by (cases "replacement_token s"; cases S)
     (auto intro!: satisfies_give satisfies_andthen [OF any_ask] dps_done_ok, simp_all add: dps_outcome_ok_def)

lemma load_token_gives: "satisfies any (\<lambda>r. \<forall>x. r = Err x \<longrightarrow> dps_outcome_ok x) (load_token S)"
  unfolding load_token_def
  by (cases S) (auto intro!: satisfies_give satisfies_andthen [OF any_ask] simp: dps_outcome_ok_def split: sum.splits if_splits)

lemma ask_upload_gives:
  "satisfies any (\<lambda>r. \<forall>s. r = Ok s \<longrightarrow> permalink (dps_report s) \<noteq> []) (ask (dps_upload E f token opts))"
  by (auto simp: satisfies_def ask_def dest: dps_upload_result split: prod.splits)

lemma dps_error_ok: "dps_outcome_ok (dps_error_outcome e)"
  using bounded_delay_bound by (simp add: dps_outcome_ok_def dps_error_outcome_def split: dps_disposition.splits)

lemma dps_process_gives: "satisfies any dps_outcome_ok (dps_process E S q)"
proof -
  have c: "dps_outcome_ok OutCancelled" by (simp add: dps_outcome_ok_def)
  show ?thesis
    unfolding dps_process_def Let_def
    by (rule satisfies_andthen [OF any_ask], rule satisfies_if, rule satisfies_give, rule c,
        rule satisfies_andthen [OF load_token_gives])
       (auto intro!: satisfies_give satisfies_andthen [OF any_ask] satisfies_andthen [OF ask_upload_gives] c
         store_replacement_gives dps_error_ok split: sum.splits)
qed

section \<open>Samples\<close>

definition sample_answer :: "(string \<times> wire_json) list" where
  "sample_answer =
     [(''permalink'', JString ''https://dps.report/abcd''), (''userToken'', JString ''token''),
      (''encounter'', JObject [(''success'', JBool True), (''bossId'', JInt 17), (''boss'', JString ''Deimos''),
        (''isCm'', JBool True), (''emboldened'', JNull)])]"

definition sample_response :: http_response where
  "sample_response = \<lparr>status_code = 200, response_headers = [], response_body = ''{}''\<rparr>"

definition sample_success :: dps_success where
  "sample_success =
     \<lparr>dps_report = \<lparr>permalink = ''https://dps.report/abcd'', encounter_name = ''Deimos'', report_boss_id = 17,
        mode = ''CM'', success = True\<rparr>,
      replacement_token = Some ''token'', dps_warning = None\<rparr>"

lemma sample_parse: "parse_answer sample_answer =
    Ok \<lparr>answer_permalink = ''https://dps.report/abcd'',
      answer_encounter = \<lparr>answer_success = True, answer_boss_id = 17, answer_boss = ''Deimos'', answer_is_cm = Some True,
        answer_is_legendary_cm = None, answer_emboldened = None\<rparr>,
      answer_token = Some (ValidToken ''token''), answer_error = None\<rparr>"
  by (simp add: sample_answer_def parse_answer_def parse_encounter_def required_def optional_def json_field_def
      json_text_def json_int_def json_object_def json_token_def valid_token_def max_dps_report_token_bytes_def byte_def ok_or_def)

lemma sample_decode: "decode_dps_report (\<lambda>_. Some (JObject sample_answer)) sample_response None = Ok sample_success"
proof -
  have "utf8_valid (of_string ''{}'')" by (rule utf8_valid_ascii) (simp add: of_string_def)
  then have "json_decode (\<lambda>_. Some (JObject sample_answer)) max_dps_report_response_bytes parse_answer ''{}'' =
      parse_answer sample_answer"
    by (simp add: json_decode_def json_object_def max_dps_report_response_bytes_def valid_unicode_escapes_def
        valid_escapes.simps(2) ok_or_def)
  moreover have "valid_permalink ''https://dps.report/abcd'' 17"
    by (simp add: valid_permalink_def trusted_report_permalink_def report_hosts_def strip_prefix_def byte_def del: strip_prefix_Some)
  ultimately show ?thesis
    by (simp add: decode_dps_report_def Let_def sample_parse sample_response_def sample_success_def answer_report_def
        answer_mode_def byte_def)
qed

theorem accepted_report_is_usable_witness:
  "trusted_report_permalink (permalink (dps_report sample_success)) \<and> valid_token ''token''"
  using accepted_report_is_usable [OF sample_decode, of undefined undefined undefined undefined]
  by (simp add: sample_success_def)

definition sample_client :: "(unit, nat) client_env" where
  "sample_client =
     \<lparr>client_stopped = never, client_disk = sample_disk, client_random = (\<lambda>w. (\<lambda>_. None, w)),
      client_execute = (\<lambda>_ w. (Some (Err (http_error_of HttpTimeout)), w)), client_now = (\<lambda>w. (w, w)),
      client_wait = (\<lambda>_ w. (Some False, w)), client_json = (\<lambda>_. None),
      client_print = (\<lambda>_. None)\<rparr>"

definition sample_captured :: captured_upload where
  "sample_captured =
     \<lparr>captured_request = sample_upload_request\<lparr>request_provider := DpsReport, request_file := Http_Body.sample_file\<rparr>,
      captured_options = \<lparr>detailed_wvw = False\<rparr>\<rparr>"

lemma sample_file_body:
  "new_file_body sample_disk Http_Body.sample_file w =
     (Ok \<lparr>file_handle = (), body_file = Http_Body.sample_file, body_offset = 0, body_failure = None\<rparr>, w)"
  by (simp add: new_file_body_def verify_path_def verify_facts_def verify_handle_def sample_disk_def Http_Body.sample_file_def
      Let_def max_http_request_body_bytes_def same_file_def require_def ok_or_def)

text \<open>The random source fails after the file was opened.\<close>

lemma sample_process: "dps_process sample_client None sample_captured 0 = (Some OutFailed, 0)"
proof -
  have r: "new_multipart form_part_length (\<lambda>_. None)
      [log_part \<lparr>file_handle = (), body_file = Http_Body.sample_file, body_offset = 0, body_failure = None\<rparr>] =
      Err BoundaryGenerationFailed"
    by (simp add: new_multipart_def validate_count_def max_multipart_parts_def ok_or_def)
  have "dps_upload_inner sample_client Http_Body.sample_file None \<lparr>detailed_wvw = False\<rparr> 0 =
      (Some (Err (dps_failed DpsMultipartFailed)), 0)"
    by (simp add: dps_upload_inner_def unless_stopped_def andthen_def ask_def give_def sample_client_def never_def
        sample_file_body unless_err_def dps_parts_def r) (simp add: Http_Body.sample_file_def)
  then have u: "dps_upload sample_client Http_Body.sample_file None \<lparr>detailed_wvw = False\<rparr> 0 =
      (Err (dps_failed DpsMultipartFailed), 0)" by (simp add: dps_upload_def panic_as_def)
  have n: "client_stopped sample_client w = (False, w)" for w by (simp add: sample_client_def never_def)
  show ?thesis
    by (simp add: dps_process_def Let_def andthen_def ask_def give_def load_token_def n sample_captured_def u)
       (simp add: dps_error_outcome_def dps_failed_def give_def)
qed

definition active_job :: "provider \<Rightarrow> upload_job" where
  "active_job p = set_status p \<lparr>state = Active, attempts = 1, detail = []\<rparr> sample_job"

lemma active_job_state: "state_of (active_job p) p = Active"
  by (simp add: active_job_def)

end
