(* ===== verification/Wingman.thy ===== *)
theory Wingman
  imports Dps_Report
begin

text \<open>
  The GW2Wingman destination (\<open>rust/src/providers/wingman/mod.rs\<close>, \<open>response.rs\<close>, \<open>worker.rs\<close>): the
  upload with its ticket and its search for the link, the import of a dps.report link, and the worker.

  The two polling loops end when the clock reaches their deadline. Here they take fuel, and
  \<open>OutOfFuel\<close> is told apart from every result; the last section shows how much fuel is enough.
\<close>

section \<open>Values\<close>

definition wingman_upload_url :: string where "wingman_upload_url = ''https://evtc.bel.st/evtc''"
definition wingman_ticket_url :: string where "wingman_ticket_url = ''https://evtc.bel.st/status/''"
definition wingman_check_upload_url :: string where
  "wingman_check_upload_url = ''https://gw2wingman.nevermindcreations.de/checkUploadSuccessfulWithLog''"
definition wingman_log_url :: string where
  "wingman_log_url = ''https://gw2wingman.nevermindcreations.de/log/''"
definition wingman_import_url :: string where
  "wingman_import_url = ''https://gw2wingman.nevermindcreations.de/api/importLogQueued?link=''"
definition wingman_check_import_url :: string where
  "wingman_check_import_url = ''https://gw2wingman.nevermindcreations.de/api/checkLogQueuedOrDB?link=''"
definition max_wingman_response_bytes :: nat where "max_wingman_response_bytes = 64 * 1024"

datatype wingman_disposition = WingmanRetry | WingmanFailed | WingmanCancelled

datatype wingman_error_code =
  WingmanInvalidConfiguration | WingmanInvalidInput | WingmanFileUnavailable | WingmanMultipartFailed
| WingmanTransport | WingmanHttpStatus | WingmanInvalidResponse | WingmanDeclined | WingmanTicketFailed
| WingmanInternal | WingmanStopped

record wingman_error =
  wingman_code :: wingman_error_code
  wingman_disposition :: wingman_disposition
  wingman_retry_after :: "duration option"
  wingman_http_error :: "http_error_code option"
  wingman_http_status :: "u16 option"

definition wingman_failed :: "wingman_error_code \<Rightarrow> wingman_error" where
  "wingman_failed c = \<lparr>wingman_code = c, wingman_disposition = WingmanFailed, wingman_retry_after = None,
     wingman_http_error = None, wingman_http_status = None\<rparr>"

definition wingman_cancelled :: wingman_error where
  "wingman_cancelled = (wingman_failed WingmanStopped)\<lparr>wingman_disposition := WingmanCancelled\<rparr>"

type_synonym 'a wingman_result = "(wingman_error, 'a) result"

record wingman_success =
  duplicate :: bool
  found_link :: "string option"

record wingman_polling =
  ticket_interval :: duration
  check_interval :: duration
  ticket_timeout :: duration
  check_timeout :: duration

definition default_polling :: wingman_polling where
  "default_polling = \<lparr>ticket_interval = 3 * second, check_interval = 5 * second, ticket_timeout = 1800 * second,
     check_timeout = 300 * second\<rparr>"

record wingman_client =
  upload_url :: string
  polling :: wingman_polling

definition new_wingman_client :: wingman_client where
  "new_wingman_client = \<lparr>upload_url = wingman_upload_url, polling = default_polling\<rparr>"

definition wingman_with_options :: "string \<Rightarrow> wingman_polling \<Rightarrow> wingman_client wingman_result" where
  "wingman_with_options url p =
     (if 2048 < length url \<or> CHR ''@'' \<in> set url \<or> is_err (validate_http_url url HttpsOnly) \<or>
         ticket_interval p = 0 \<or> check_interval p = 0 \<or> 1800 * second < ticket_interval p \<or>
         300 * second < check_interval p \<or> 1800 * second < ticket_timeout p \<or> 300 * second < check_timeout p
      then Err (wingman_failed WingmanInvalidConfiguration)
      else Ok \<lparr>upload_url = url, polling = p\<rparr>)"

section \<open>Answers\<close>

definition wingman_transport_error :: "http_error \<Rightarrow> wingman_error" where
  "wingman_transport_error e =
     (let retry = retryable_transport (http_code e) in
      \<lparr>wingman_code = WingmanTransport,
       wingman_disposition =
         (if http_code e = HttpCancelled then WingmanCancelled else if retry then WingmanRetry else WingmanFailed),
       wingman_retry_after = (if retry then Some (30 * second) else None), wingman_http_error = Some (http_code e),
       wingman_http_status = None\<rparr>)"

definition wingman_require_success :: "http_response \<Rightarrow> unit wingman_result" where
  "wingman_require_success r =
     (if success_status (unat (status_code r)) then Ok ()
      else let retry = retryable_status (unat (status_code r)) in
        Err \<lparr>wingman_code = WingmanHttpStatus, wingman_disposition = (if retry then WingmanRetry else WingmanFailed),
          wingman_retry_after = (if retry then Some (status_delay r) else None), wingman_http_error = None,
          wingman_http_status = Some (status_code r)\<rparr>)"

definition wingman_decode ::
  "('h, 'w) client_env \<Rightarrow> ((string \<times> wire_json) list \<Rightarrow> 'a parsed) \<Rightarrow> http_response \<Rightarrow> 'a wingman_result" where
  "wingman_decode E conv r =
     map_err (\<lambda>_. (wingman_failed WingmanInvalidResponse)\<lparr>wingman_http_status := Some (status_code r)\<rparr>)
       (json_decode (client_json E) max_wingman_response_bytes conv (response_body r))"

definition safe_slug :: "string \<Rightarrow> bool" where
  "safe_slug v \<longleftrightarrow> v \<noteq> [] \<and> length v \<le> 512 \<and> list_all (\<lambda>c. is_alnum c \<or> c = CHR ''-'' \<or> c = CHR ''_'') v"

definition parse_accepted :: "(string \<times> wire_json) list \<Rightarrow> (bool \<times> int option) parsed" where
  "parse_accepted fs =
     and_then (required json_bool ''result'' fs) (\<lambda>r.
     and_then (optional (json_int 0 (2 ^ 64 - 1)) ''ticket'' fs) (\<lambda>t. Ok (r, t)))"

definition parse_ticket :: "(string \<times> wire_json) list \<Rightarrow> string parsed" where
  "parse_ticket fs = required (json_text 32) ''state'' fs"

definition parse_found :: "(string \<times> wire_json) list \<Rightarrow> (bool \<times> string option option) parsed" where
  "parse_found fs =
     and_then (required json_bool ''success'' fs) (\<lambda>s.
     and_then (optional (json_object (optional (json_text 512) ''html'')) ''log'' fs) (\<lambda>l. Ok (s, l)))"

definition parse_queued :: "(string \<times> wire_json) list \<Rightarrow> int parsed" where
  "parse_queued fs = required (json_int (- (2 ^ 31)) (2 ^ 31 - 1)) ''success'' fs"

definition parse_checked :: "(string \<times> wire_json) list \<Rightarrow> (bool \<times> bool \<times> string) parsed" where
  "parse_checked fs =
     and_then (required json_bool ''inQueue'' fs) (\<lambda>q.
     and_then (required json_bool ''inDB'' fs) (\<lambda>d.
     and_then (required (json_text 2048) ''targetURL'' fs) (\<lambda>u. Ok (q, d, u))))"

section \<open>Requests and waiting\<close>

definition json_request :: "http_method \<Rightarrow> string \<Rightarrow> 'h client_body http_request" where
  "json_request m url =
     (new_http_request m url)\<lparr>http_headers := [public_header ''Accept'' ''application/json''],
        http_timeouts := \<lparr>connect_timeout = 10 * second, operation_timeout = 60 * second, stalled_transfer = 30 * second\<rparr>,
        http_response_limits := \<lparr>max_header_bytes = max_http_response_header_bytes,
          max_body_bytes = max_wingman_response_bytes\<rparr>\<rparr>"

definition wingman_execute ::
  "('h, 'w) client_env \<Rightarrow> 'h client_body http_request \<Rightarrow> ('w, http_response wingman_result) step" where
  "wingman_execute E q =
     unless_stopped E wingman_cancelled
       (andthen (client_execute E q) (\<lambda>r. unless_stopped E wingman_cancelled (give (map_err wingman_transport_error r))))"

definition wingman_deadline :: "('h, 'w) client_env \<Rightarrow> duration \<Rightarrow> ('w, instant wingman_result) step" where
  "wingman_deadline E d =
     andthen (ask (client_now E)) (\<lambda>t. give (ok_or (wingman_failed WingmanInternal) (instant_checked_add t d)))"

definition wingman_wait :: "('h, 'w) client_env \<Rightarrow> instant \<Rightarrow> duration \<Rightarrow> ('w, bool wingman_result) step" where
  "wingman_wait E deadline interval =
     unless_stopped E wingman_cancelled
       (andthen (ask (client_now E)) (\<lambda>t.
          if deadline - t = 0 then give (Ok False)
          else andthen (client_wait E (min interval (deadline - t))) (\<lambda>interrupted.
            if interrupted then give (Err wingman_cancelled)
            else unless_stopped E wingman_cancelled
              (andthen (ask (client_now E)) (\<lambda>u. give (Ok (u < deadline)))))))"

definition poll_request ::
  "('h, 'w) client_env \<Rightarrow> http_method \<Rightarrow> string \<Rightarrow> instant \<Rightarrow> ('w, 'h client_body http_request option) step" where
  "poll_request E m url deadline =
     andthen (ask (client_now E)) (\<lambda>t.
       let remaining = deadline - t; q = json_request m url in
       give (if remaining < 10 ^ 6 then None
             else Some (q\<lparr>http_timeouts := (http_timeouts q)
               \<lparr>operation_timeout := min (operation_timeout (http_timeouts q)) remaining\<rparr>\<rparr>)))"

section \<open>The polling loops\<close>

datatype 'a looped = OutOfFuel | Done 'a

definition ticket_done :: "('h, 'w) client_env \<Rightarrow> http_response \<Rightarrow> bool wingman_result" where
  "ticket_done E r =
     (if unat (status_code r) = 404 then Ok True
      else and_then (wingman_require_success r) (\<lambda>_.
           and_then (wingman_decode E parse_ticket r) (\<lambda>s.
             if s = ''uploaded'' \<or> s = ''skipped'' then Ok True
             else if s = ''queued'' \<or> s = ''processing'' \<or> s = ''deferred'' then Ok False
             else if s = ''failed'' then Err (wingman_failed WingmanTicketFailed)
             else Err (wingman_failed WingmanInvalidResponse))))"

fun poll_ticket ::
  "('h, 'w) client_env \<Rightarrow> duration \<Rightarrow> instant \<Rightarrow> nat \<Rightarrow> nat \<Rightarrow> ('w, unit wingman_result looped) step" where
  "poll_ticket E interval deadline ticket 0 = give OutOfFuel"
| "poll_ticket E interval deadline ticket (Suc n) =
     andthen (wingman_wait E deadline interval) (\<lambda>waited.
       case waited of
         Err e \<Rightarrow> give (Done (Err e))
       | Ok False \<Rightarrow> give (Done (Ok ()))
       | Ok True \<Rightarrow>
           andthen (poll_request E HttpGet (wingman_ticket_url @ dec_string ticket) deadline) (\<lambda>q.
             case q of
               None \<Rightarrow> give (Done (Ok ()))
             | Some q \<Rightarrow> andthen (wingman_execute E q) (\<lambda>reply.
                 case and_then reply (ticket_done E) of
                   Err e \<Rightarrow> give (Done (Err e))
                 | Ok True \<Rightarrow> give (Done (Ok ()))
                 | Ok False \<Rightarrow> poll_ticket E interval deadline ticket n)))"

definition search_text :: "log_file_identity \<Rightarrow> encounter_metadata \<Rightarrow> string" where
  "search_text f m =
     ''file='' @ percent_encode (filter (\<lambda>c. c \<noteq> CHR ''.'') (pov_account m) @ ''_upload.zevtc'') @
     ''&filesize='' @ dec_string (unat (file_size f)) @ ''&bossID='' @ dec_string (unat (boss_id m)) @
     ''&account='' @ percent_encode (pov_account m)"

definition search_request ::
  "log_file_identity \<Rightarrow> encounter_metadata \<Rightarrow> 'h client_body http_request \<Rightarrow> 'h client_body http_request wingman_result" where
  "search_request f m q =
     and_then (map_err (\<lambda>_. wingman_failed WingmanMultipartFailed) (new_memory_body (search_text f m))) (\<lambda>b.
       Ok (q\<lparr>http_headers := http_headers q @ [public_header ''Content-Type'' ''application/x-www-form-urlencoded''],
         http_body := Some (PlainBody b)\<rparr>))"

text \<open>The link in the answer, or \<open>None\<close> while the log is not there yet.\<close>

definition searched_link :: "('h, 'w) client_env \<Rightarrow> http_response \<Rightarrow> string option wingman_result" where
  "searched_link E r =
     and_then (wingman_require_success r) (\<lambda>_.
     and_then (wingman_decode E parse_found r) (\<lambda>(success, l).
       if \<not> success then Ok None
       else case l of
         Some (Some slug) \<Rightarrow>
           if safe_slug slug then Ok (Some (wingman_log_url @ slug)) else Err (wingman_failed WingmanInvalidResponse)
       | _ \<Rightarrow> Err (wingman_failed WingmanInvalidResponse)))"

definition search_over :: "('h, 'w) client_env \<Rightarrow> ('w, string option wingman_result looped) step" where
  "search_over E = andthen (unless_stopped E wingman_cancelled (give (Ok None))) (\<lambda>r. give (Done r))"

fun find_permalink ::
  "('h, 'w) client_env \<Rightarrow> duration \<Rightarrow> log_file_identity \<Rightarrow> encounter_metadata \<Rightarrow> instant \<Rightarrow> nat \<Rightarrow>
     ('w, string option wingman_result looped) step" where
  "find_permalink E interval f m deadline 0 = give OutOfFuel"
| "find_permalink E interval f m deadline (Suc n) =
     andthen (ask (client_now E)) (\<lambda>t.
       if \<not> t < deadline then search_over E
       else andthen (poll_request E HttpPost wingman_check_upload_url deadline) (\<lambda>q.
         case q of
           None \<Rightarrow> search_over E
         | Some q \<Rightarrow>
             (case search_request f m q of
                Err e \<Rightarrow> give (Done (Err e))
              | Ok q2 \<Rightarrow> andthen (wingman_execute E q2) (\<lambda>reply.
                  case and_then reply (searched_link E) of
                    Err e \<Rightarrow> give (Done (Err e))
                  | Ok (Some link) \<Rightarrow> give (Done (Ok (Some link)))
                  | Ok None \<Rightarrow> andthen (wingman_wait E deadline interval) (\<lambda>waited.
                      case waited of
                        Err e \<Rightarrow> give (Done (Err e))
                      | Ok False \<Rightarrow> search_over E
                      | Ok True \<Rightarrow> find_permalink E interval f m deadline n)))))"

section \<open>Upload and import\<close>

text \<open>The question mark operator on a loop.\<close>

definition loop_then ::
  "('w, 'a wingman_result looped) step \<Rightarrow> ('a \<Rightarrow> ('w, 'b wingman_result looped) step) \<Rightarrow> ('w, 'b wingman_result looped) step" where
  "loop_then f g = andthen f (\<lambda>r. case r of
      OutOfFuel \<Rightarrow> give OutOfFuel | Done (Err e) \<Rightarrow> give (Done (Err e)) | Done (Ok v) \<Rightarrow> g v)"

definition no_loop :: "('w, 'a) step \<Rightarrow> ('w, 'a looped) step" where
  "no_loop f = andthen f (\<lambda>r. give (Done r))"

definition wingman_input_ok :: "log_file_identity \<Rightarrow> encounter_metadata \<Rightarrow> bool" where
  "wingman_input_ok f m \<longleftrightarrow> \<not> (file_size f = 0 \<or> boss_id m = 0 \<or> boss_id m = wvw_boss_id \<or> pov_account m = [] \<or>
     256 < length (pov_account m) \<or> list_ex (\<lambda>c. byte c < 32 \<or> byte c = 127) (pov_account m))"

fun wingman_texts :: "(string \<times> string) list \<Rightarrow> 'h form_part multipart_part list wingman_result" where
  "wingman_texts [] = Ok []"
| "wingman_texts ((name, v) # rest) =
     and_then (map_err (\<lambda>_. wingman_failed WingmanMultipartFailed) (new_memory_body v)) (\<lambda>b.
     and_then (wingman_texts rest) (\<lambda>ps. Ok (text_part name b # ps)))"

definition wingman_parts ::
  "log_file_identity \<Rightarrow> encounter_metadata \<Rightarrow> 'h file_body \<Rightarrow> 'h form_part multipart_part list wingman_result" where
  "wingman_parts f m source =
     and_then (wingman_texts [(''account'', pov_account m), (''filesize'', dec_string (unat (file_size f))),
       (''triggerID'', dec_string (unat (boss_id m)))]) (\<lambda>ps. Ok (ps @ [log_part source]))"

definition wingman_upload_request :: "string \<Rightarrow> string \<times> 'h form_part multipart_body \<Rightarrow> 'h client_body http_request" where
  "wingman_upload_request url form =
     (let q = json_request HttpPost url in
      q\<lparr>http_headers := http_headers q @ [public_header ''Content-Type'' (fst form)],
        http_body := Some (FormBody (snd form)),
        http_timeouts := (http_timeouts q)\<lparr>operation_timeout := 900 * second, stalled_transfer := 900 * second\<rparr>\<rparr>)"

text \<open>The first answer: the log was there before, it is done without a link, or a ticket is to be polled.\<close>

datatype upload_answer = AlreadyUploaded | UploadedWithoutLink | Ticket nat

definition upload_answer :: "('h, 'w) client_env \<Rightarrow> http_response \<Rightarrow> upload_answer wingman_result" where
  "upload_answer E r =
     (if unat (status_code r) = 409 then Ok AlreadyUploaded
      else and_then (wingman_require_success r) (\<lambda>_.
           and_then (wingman_decode E parse_accepted r) (\<lambda>(accepted, ticket).
             if \<not> accepted then Err (wingman_failed WingmanDeclined)
             else case ticket of
               None \<Rightarrow> Ok UploadedWithoutLink
             | Some n \<Rightarrow> if n = 0 then Err (wingman_failed WingmanInvalidResponse) else Ok (Ticket (nat n)))))"

definition wingman_upload_inner ::
  "('h, 'w) client_env \<Rightarrow> wingman_client \<Rightarrow> nat \<Rightarrow> log_file_identity \<Rightarrow> encounter_metadata \<Rightarrow>
     ('w, wingman_success wingman_result looped) step" where
  "wingman_upload_inner E C fuel f m =
     (let p = polling C;
          search = (\<lambda>already. loop_then (no_loop (wingman_deadline E (check_timeout p))) (\<lambda>deadline.
            loop_then (find_permalink E (check_interval p) f m deadline fuel) (\<lambda>link.
              give (Done (Ok \<lparr>duplicate = already, found_link = link\<rparr>)))))
      in loop_then (no_loop (unless_stopped E wingman_cancelled
           (if \<not> wingman_input_ok f m then give (Err (wingman_failed WingmanInvalidInput))
            else andthen (ask (new_file_body (client_disk E) f)) (\<lambda>opened.
              unless_err (map_err (\<lambda>_. wingman_failed WingmanFileUnavailable) opened) (\<lambda>source.
              unless_err (wingman_parts f m source) (\<lambda>form_parts.
              andthen (ask (client_random E)) (\<lambda>random.
              unless_err (map_err (\<lambda>_. wingman_failed WingmanMultipartFailed)
                  (new_multipart form_part_length random form_parts)) (\<lambda>form.
                try_then (wingman_execute E (wingman_upload_request (upload_url C) form))
                  (\<lambda>reply. give (upload_answer E reply))))))))))
         (\<lambda>answer. case answer of
            AlreadyUploaded \<Rightarrow> search True
          | UploadedWithoutLink \<Rightarrow> give (Done (Ok \<lparr>duplicate = False, found_link = None\<rparr>))
          | Ticket n \<Rightarrow>
              loop_then (no_loop (wingman_deadline E (ticket_timeout p))) (\<lambda>deadline.
              loop_then (poll_ticket E (ticket_interval p) deadline n fuel) (\<lambda>_. search False))))"

definition import_answer :: "('h, 'w) client_env \<Rightarrow> int \<Rightarrow> http_response \<Rightarrow> wingman_success wingman_result" where
  "import_answer E queued r =
     and_then (wingman_require_success r) (\<lambda>_.
     and_then (wingman_decode E parse_checked r) (\<lambda>(in_queue, in_db, url).
       if \<not> (queued = 1 \<or> in_queue \<or> in_db) \<or>
          \<not> (case strip_prefix wingman_log_url url of None \<Rightarrow> False | Some slug \<Rightarrow> safe_slug slug)
       then Err (wingman_failed WingmanInvalidResponse)
       else Ok \<lparr>duplicate = in_db, found_link = Some url\<rparr>))"

definition queued_answer :: "('h, 'w) client_env \<Rightarrow> http_response \<Rightarrow> int wingman_result" where
  "queued_answer E r =
     and_then (wingman_require_success r) (\<lambda>_.
     and_then (wingman_decode E parse_queued r) (\<lambda>n.
       if n = 0 \<or> n = 1 then Ok n else Err (wingman_failed WingmanInvalidResponse)))"

definition wingman_import_inner ::
  "('h, 'w) client_env \<Rightarrow> string \<Rightarrow> ('w, wingman_success wingman_result) step" where
  "wingman_import_inner E link =
     unless_stopped E wingman_cancelled
       (if \<not> trusted_report_permalink link then give (Err (wingman_failed WingmanInvalidInput))
        else let encoded = percent_encode link in
          if max_http_url_bytes < length encoded + max (length wingman_import_url) (length wingman_check_import_url)
          then give (Err (wingman_failed WingmanInvalidInput))
          else try_then (wingman_execute E (json_request HttpPost (wingman_import_url @ encoded))) (\<lambda>r1.
               unless_err (queued_answer E r1) (\<lambda>queued.
               try_then (wingman_execute E (json_request HttpGet (wingman_check_import_url @ encoded))) (\<lambda>r2.
                 give (import_answer E queued r2)))))"

definition wingman_upload ::
  "('h, 'w) client_env \<Rightarrow> wingman_client \<Rightarrow> nat \<Rightarrow> log_file_identity \<Rightarrow> encounter_metadata \<Rightarrow> 'w \<Rightarrow>
     wingman_success wingman_result looped \<times> 'w" where
  "wingman_upload E C fuel f m = panic_as (Done (Err (wingman_failed WingmanInternal))) (wingman_upload_inner E C fuel f m)"

definition wingman_import ::
  "('h, 'w) client_env \<Rightarrow> string \<Rightarrow> 'w \<Rightarrow> wingman_success wingman_result \<times> 'w" where
  "wingman_import E link = panic_as (Err (wingman_failed WingmanInternal)) (wingman_import_inner E link)"

section \<open>The worker\<close>

definition wingman_error_outcome :: "wingman_error \<Rightarrow> upload_outcome" where
  "wingman_error_outcome e =
     (case wingman_disposition e of
        WingmanCancelled \<Rightarrow> OutCancelled
      | WingmanFailed \<Rightarrow> OutFailed
      | WingmanRetry \<Rightarrow> OutRetryAfter (bounded_delay (wingman_retry_after e)))"

definition wingman_outcome :: "bool \<Rightarrow> wingman_success wingman_result \<Rightarrow> upload_outcome" where
  "wingman_outcome imported r =
     (case r of
        Ok s \<Rightarrow>
          (let x = WingmanDone (map_option (\<lambda>l. \<lparr>wingman_permalink = l\<rparr>) (found_link s)) in
           if duplicate s then OutSucceededWithNotice x AlreadyPresent
           else if imported then OutSucceededWithNotice x NoticeQueued
           else OutSucceeded x)
      | Err e \<Rightarrow> wingman_error_outcome e)"

definition wingman_process ::
  "('h, 'w) client_env \<Rightarrow> wingman_client \<Rightarrow> nat \<Rightarrow> upload_request \<Rightarrow> ('w, upload_outcome looped) step" where
  "wingman_process E C fuel q =
     andthen (ask (client_stopped E)) (\<lambda>b.
       if b then give (Done OutCancelled)
       else andthen (ask (\<lambda>w. case request_report q of
                Some report \<Rightarrow> (case wingman_import E (permalink report) w of (r, w') \<Rightarrow> (Done r, w'))
              | None \<Rightarrow> wingman_upload E C fuel (request_file q) (request_metadata q) w)) (\<lambda>result.
         andthen (ask (client_stopped E)) (\<lambda>c.
           if c then give (Done OutCancelled)
           else give (case result of OutOfFuel \<Rightarrow> OutOfFuel
             | Done r \<Rightarrow> Done (wingman_outcome (request_report q \<noteq> None) r)))))"

definition wingman_configure ::
  "(nat \<Rightarrow> bool) \<Rightarrow> provider_configuration \<Rightarrow> upload_worker \<Rightarrow>
     (provider_configuration_error, unit) result \<times> upload_worker" where
  "wingman_configure starts conf w =
     (if policy conf \<noteq> WingmanPolicy then (Err ConfigInvalid, w)
      else case update_upload_parallelism starts (provider_configuration.parallelism conf) w of
        (r, w') \<Rightarrow> (map_err worker_configuration_error r, w'))"

definition wingman_enqueue :: "upload_request \<Rightarrow> upload_worker \<Rightarrow> (provider_error, unit) result \<times> upload_worker" where
  "wingman_enqueue q w =
     (if boss_id (request_metadata q) = wvw_boss_id then (Err InvalidRequest, w) else upload_enqueue q w)"

section \<open>What is sent\<close>

lemma digits_url: "list_all is_digit s \<Longrightarrow> list_all url_byte s"
  by (auto simp: list_all_iff is_digit_def url_byte_def byte_def)

lemma ticket_url_valid: "n < 2 ^ 64 \<Longrightarrow> validate_http_url (wingman_ticket_url @ dec_string n) HttpsOnly = Ok ()"
proof -
  assume "n < 2 ^ 64"
  then have "n < 10 ^ 20" by simp
  then have "length (dec_string n) \<le> 20" by (rule dec_string_length) simp
  moreover have "list_all url_byte (dec_string n)" using dec_string_digits digits_url by blast
  ultimately show ?thesis by (simp add: wingman_ticket_url_def url_eval)
qed

lemma encoded_url: "list_all url_byte (percent_encode v)"
  using percent_encode_query [of v] query_byte_url by (auto simp: list_all_iff)

lemma import_urls_valid:
  assumes "\<not> max_http_url_bytes < length (percent_encode v) + max (length wingman_import_url) (length wingman_check_import_url)"
  shows "validate_http_url (wingman_import_url @ percent_encode v) HttpsOnly = Ok ()"
    and "validate_http_url (wingman_check_import_url @ percent_encode v) HttpsOnly = Ok ()"
proof -
  have u: "list_all url_byte (percent_encode v)" by (rule encoded_url)
  have l: "length (wingman_import_url @ percent_encode v) \<le> 4096" "length (wingman_check_import_url @ percent_encode v) \<le> 4096"
    using assms by (simp_all add: max_http_url_bytes_def)
  from u l show "validate_http_url (wingman_import_url @ percent_encode v) HttpsOnly = Ok ()"
    by (simp add: wingman_import_url_def url_eval)
  from u l show "validate_http_url (wingman_check_import_url @ percent_encode v) HttpsOnly = Ok ()"
    by (simp add: wingman_check_import_url_def url_eval)
qed

lemma check_upload_url_valid: "validate_http_url wingman_check_upload_url HttpsOnly = Ok ()"
  by (simp add: wingman_check_upload_url_def url_eval)

lemma upload_url_valid: "validate_http_url wingman_upload_url HttpsOnly = Ok ()"
  by (simp add: wingman_upload_url_def url_eval)

text \<open>A polling request: only its operation time limit differs from a plain one.\<close>

definition polled :: "http_method \<Rightarrow> string \<Rightarrow> 'h client_body http_request \<Rightarrow> bool" where
  "polled m url q \<longleftrightarrow> (\<exists>n \<ge> 10 ^ 6. n \<le> 60 * second \<and>
     q = (json_request m url)\<lparr>http_timeouts := (http_timeouts (json_request m url :: 'h client_body http_request))\<lparr>operation_timeout := n\<rparr>\<rparr>)"

lemmas limit_eval = max_http_header_count_def second_def max_wingman_response_bytes_def max_http_response_header_bytes_def
  max_http_response_body_bytes_def max_http_request_header_bytes_def

lemma polled_sendable:
  assumes "polled m url q" and "validate_http_url url HttpsOnly = Ok ()"
  shows "sendable q"
  using assms accept_json_valid
  by (auto simp: polled_def validate_http_request_def json_request_def new_http_request_def Let_def limit_eval public_header_def)

lemma json_request_sendable: "validate_http_url url HttpsOnly = Ok () \<Longrightarrow> sendable (json_request m url)"
  using accept_json_valid
  by (simp add: validate_http_request_def json_request_def new_http_request_def Let_def limit_eval public_header_def)

lemma form_type_valid: "valid_header (public_header ''Content-Type'' ''application/x-www-form-urlencoded'')"
  by (simp add: header_eval)

lemma search_request_sendable:
  assumes "polled HttpPost url q" and "validate_http_url url HttpsOnly = Ok ()" and "search_request f m q = Ok q2"
  shows "sendable q2"
proof -
  from assms(3) obtain b where b: "new_memory_body (search_text f m) = Ok b"
    and q2: "q2 = q\<lparr>http_headers := http_headers q @ [public_header ''Content-Type'' ''application/x-www-form-urlencoded''],
      http_body := Some (PlainBody b)\<rparr>"
    by (auto simp: search_request_def)
  have "search_text f m \<noteq> []" by (simp add: search_text_def)
  then have "0 < length (search_text f m)" by simp
  moreover have le: "length (search_text f m) \<le> unat max_http_request_body_bytes" and mb: "memory_bytes b = search_text f m"
    using b by (auto simp: new_memory_body_def split: if_splits)
  moreover have "unat (of_nat (length (search_text f m)) :: u64) = length (search_text f m)"
    using le by (simp add: unat_of_nat unat_max_body)
  ultimately have "1 \<le> memory_length b \<and> memory_length b \<le> max_http_request_body_bytes"
    by (simp add: memory_length_def word_le_nat_alt Suc_le_eq)
  then show ?thesis
    using assms(1,2) accept_json_valid form_type_valid
    by (auto simp: q2 polled_def validate_http_request_def json_request_def new_http_request_def Let_def limit_eval public_header_def)
qed

lemma upload_request_sendable:
  assumes "new_multipart form_part_length random ps = Ok form" and "validate_http_url url HttpsOnly = Ok ()"
  shows "sendable (wingman_upload_request url form)"
proof -
  obtain t m where form: "form = (t, m)" by (cases form)
  from form_within_bounds [OF assms(1) [unfolded form]] obtain boundary
    where m: "1 \<le> multipart_length m" "multipart_length m \<le> max_http_request_body_bytes"
      and t: "t = ''multipart/form-data; boundary='' @ boundary" "length boundary \<le> 70" "list_all is_http_token_byte boundary"
    by blast
  have "validate_headers 0 [public_header ''Accept'' ''application/json'', public_header ''Content-Type'' t] = Ok ()"
    using accept_json_valid form_header_valid [OF t(2,3)] t(2)
    by (simp add: Let_def t(1) public_header_def max_http_request_header_bytes_def)
  then show ?thesis
    using m assms(2) by (simp add: form validate_http_request_def Let_def wingman_upload_request_def json_request_def
        new_http_request_def limit_eval)
qed

lemma upload_answer_ticket: "upload_answer E r = Ok (Ticket n) \<Longrightarrow> n < 2 ^ 64"
proof -
  assume "upload_answer E r = Ok (Ticket n)"
  then obtain a x where d: "wingman_decode E parse_accepted r = Ok (a, Some x)" and n: "n = nat x"
    by (auto simp: upload_answer_def split: if_splits option.splits)
  from d obtain fs where "parse_accepted fs = Ok (a, Some x)"
    unfolding wingman_decode_def json_decode_def map_err_Ok_iff
    by (auto simp: json_object_def split: if_splits wire_json.splits) (metis wire_json.exhaust)
  then have "optional (json_int 0 (2 ^ 64 - 1)) ''ticket'' fs = Ok (Some x)" by (auto simp: parse_accepted_def)
  from optional_Some [OF this] obtain v where "json_int 0 (2 ^ 64 - 1) v = Ok x" by blast
  then have "0 \<le> x \<and> x \<le> 2 ^ 64 - 1" by (auto simp: json_int_def split: wire_json.splits if_splits)
  then show "n < 2 ^ 64" using n by (simp add: nat_less_iff)
qed

context recording_client
begin

lemma wingman_execute_sends: "sendable q \<Longrightarrow> satisfies (all_sent sendable) (\<lambda>_. True) (wingman_execute E q)"
  unfolding wingman_execute_def
  by (intro keeps_unless_stopped satisfies_andthen [OF keeps_execute] satisfies_give TrueI)

lemma wingman_wait_sends: "satisfies (all_sent P) (\<lambda>_. True) (wingman_wait E deadline interval)"
  unfolding wingman_wait_def
  by (intro keeps_unless_stopped satisfies_andthen [OF keeps_now] satisfies_andthen [OF keeps_wait] satisfies_if
      satisfies_give TrueI)

lemma wingman_deadline_sends: "satisfies (all_sent P) (\<lambda>_. True) (wingman_deadline E d)"
  unfolding wingman_deadline_def by (intro satisfies_andthen [OF keeps_now] satisfies_give TrueI)

lemma poll_request_sends:
  "satisfies (all_sent P) (\<lambda>r. \<forall>q. r = Some q \<longrightarrow> polled m url q) (poll_request E m url deadline)"
  unfolding poll_request_def Let_def
  by (rule satisfies_andthen [OF keeps_now], rule satisfies_give)
     (auto simp: polled_def json_request_def second_def split: if_splits
        intro!: exI [of _ "min (60 * second) (deadline - _)"])

lemma search_over_sends: "satisfies (all_sent P) (\<lambda>_. True) (search_over E)"
  unfolding search_over_def
  by (intro satisfies_andthen [OF keeps_unless_stopped [where Q = "\<lambda>_. True"]] satisfies_give TrueI)

lemma loop_then_sends_if:
  "satisfies J Q f \<Longrightarrow> (\<And>v. Q (Done (Ok v)) \<Longrightarrow> satisfies J (\<lambda>_. True) (g v)) \<Longrightarrow>
     satisfies J (\<lambda>_. True) (loop_then f g)"
  unfolding loop_then_def
  by (rule satisfies_andthen, assumption) (auto intro: satisfies_give split: looped.splits sum.splits)

lemma loop_then_sends:
  "satisfies J (\<lambda>_. True) f \<Longrightarrow> (\<And>v. satisfies J (\<lambda>_. True) (g v)) \<Longrightarrow> satisfies J (\<lambda>_. True) (loop_then f g)"
  by (rule loop_then_sends_if)

lemma poll_ticket_sends:
  "ticket < 2 ^ 64 \<Longrightarrow> satisfies (all_sent sendable) (\<lambda>_. True) (poll_ticket E interval deadline ticket n)"
proof (induction n)
  case (Suc n)
  note url = ticket_url_valid [OF Suc.prems]
  show ?case
    unfolding poll_ticket.simps
  proof (rule satisfies_andthen [OF wingman_wait_sends])
    fix waited
    show "satisfies (all_sent sendable) (\<lambda>_. True)
        (case waited of Err e \<Rightarrow> give (Done (Err e)) | Ok False \<Rightarrow> give (Done (Ok ()))
         | Ok True \<Rightarrow> andthen (poll_request E HttpGet (wingman_ticket_url @ dec_string ticket) deadline) (\<lambda>q.
             case q of None \<Rightarrow> give (Done (Ok ()))
             | Some q \<Rightarrow> andthen (wingman_execute E q) (\<lambda>reply.
                 case and_then reply (ticket_done E) of Err e \<Rightarrow> give (Done (Err e))
                 | Ok True \<Rightarrow> give (Done (Ok ())) | Ok False \<Rightarrow> poll_ticket E interval deadline ticket n)))"
      using Suc.IH [OF Suc.prems]
      by (auto intro!: satisfies_give satisfies_andthen [OF poll_request_sends] satisfies_andthen [OF wingman_execute_sends]
          polled_sendable [OF _ url] split: sum.splits bool.splits option.splits)
  qed
qed (simp add: satisfies_give)

lemma find_permalink_sends:
  "satisfies (all_sent sendable) (\<lambda>_. True) (find_permalink E interval f m deadline n)"
proof (induction n)
  case (Suc n)
  show ?case
    unfolding find_permalink.simps
    by (auto intro!: satisfies_give satisfies_andthen [OF keeps_now] satisfies_andthen [OF poll_request_sends]
        satisfies_andthen [OF wingman_execute_sends] satisfies_andthen [OF wingman_wait_sends] search_over_sends Suc.IH
        search_request_sendable [OF _ check_upload_url_valid] split: sum.splits bool.splits option.splits)
qed (simp add: satisfies_give)

lemma wingman_import_sends: "satisfies (all_sent sendable) (\<lambda>_. True) (wingman_import_inner E link)"
  unfolding wingman_import_inner_def Let_def try_then_def
  by (intro keeps_unless_stopped satisfies_if satisfies_give satisfies_andthen [OF wingman_execute_sends]
      satisfies_unless_err json_request_sendable import_urls_valid TrueI)

lemma wingman_upload_sends:
  assumes "validate_http_url (upload_url C) HttpsOnly = Ok ()"
  shows "satisfies (all_sent sendable) (\<lambda>_. True) (wingman_upload_inner E C fuel f m)"
proof -
  have search: "satisfies (all_sent sendable) (\<lambda>_. True)
      (loop_then (no_loop (wingman_deadline E d)) (\<lambda>deadline.
         loop_then (find_permalink E i f m deadline fuel) (\<lambda>link. give (Done (Ok \<lparr>duplicate = b, found_link = link\<rparr>)))))" for d i b
    unfolding no_loop_def
    by (intro loop_then_sends satisfies_andthen [OF wingman_deadline_sends] satisfies_give find_permalink_sends TrueI)
  have first: "satisfies (all_sent sendable) (\<lambda>r. \<forall>n. r = Ok (Ticket n) \<longrightarrow> n < 2 ^ 64)
      (unless_stopped E wingman_cancelled
           (if \<not> wingman_input_ok f m then give (Err (wingman_failed WingmanInvalidInput))
            else andthen (ask (new_file_body (client_disk E) f)) (\<lambda>opened.
              unless_err (map_err (\<lambda>_. wingman_failed WingmanFileUnavailable) opened) (\<lambda>source.
              unless_err (wingman_parts f m source) (\<lambda>form_parts.
              andthen (ask (client_random E)) (\<lambda>random.
              unless_err (map_err (\<lambda>_. wingman_failed WingmanMultipartFailed)
                  (new_multipart form_part_length random form_parts)) (\<lambda>form.
                try_then (wingman_execute E (wingman_upload_request (upload_url C) form))
                  (\<lambda>reply. give (upload_answer E reply)))))))))"
    unfolding try_then_def
    by (intro keeps_unless_stopped satisfies_if satisfies_give satisfies_andthen [OF keeps_file]
        satisfies_andthen [OF keeps_random] satisfies_andthen [OF wingman_execute_sends] satisfies_unless_err)
       (auto intro: upload_request_sendable assms dest: upload_answer_ticket)
  show ?thesis
    unfolding wingman_upload_inner_def Let_def no_loop_def [of "unless_stopped E wingman_cancelled (if _ then _ else _)"]
    by (rule loop_then_sends_if [where Q = "\<lambda>r. \<forall>n. r = Done (Ok (Ticket n)) \<longrightarrow> n < 2 ^ 64"],
        unfold no_loop_def, rule satisfies_andthen [OF first], rule satisfies_give)
       (auto intro!: satisfies_give search [unfolded no_loop_def] loop_then_sends poll_ticket_sends
         satisfies_andthen [OF wingman_deadline_sends] split: upload_answer.splits)
qed

end

text \<open>
  A client built by \<open>with_options\<close>, or the default one, sends only requests that pass the checks of the
  HTTP client: uploads, imports, ticket polls and searches, the last ones with the rest of the time as
  their limit.
\<close>

lemma wingman_client_url:
  "C = new_wingman_client \<or> wingman_with_options url p = Ok C \<Longrightarrow> validate_http_url (upload_url C) HttpsOnly = Ok ()"
  by (auto simp: new_wingman_client_def upload_url_valid wingman_with_options_def is_err_def is_ok_iff split: if_splits)

lemma wingman_requests_are_sendable:
  assumes "C = new_wingman_client \<or> wingman_with_options url p = Ok C"
  shows "list_all sendable (snd (snd (wingman_upload (logged_client E) C fuel f m (w, []))))"
    and "list_all sendable (snd (snd (wingman_import (logged_client E) link (w, []))))"
proof -
  obtain r w' where u: "wingman_upload (logged_client E) C fuel f m (w, []) = (r, w')" by (meson surj_pair)
  from panic_as_satisfies [OF logged_client.wingman_upload_sends [OF wingman_client_url [OF assms]] u [unfolded wingman_upload_def]]
  show "list_all sendable (snd (snd (wingman_upload (logged_client E) C fuel f m (w, []))))" using u by simp
  obtain r2 w2 where v: "wingman_import (logged_client E) link (w, []) = (r2, w2)" by (meson surj_pair)
  from panic_as_satisfies [OF logged_client.wingman_import_sends v [unfolded wingman_import_def]]
  show "list_all sendable (snd (snd (wingman_import (logged_client E) link (w, []))))" using v by simp
qed

section \<open>Outcomes\<close>

text \<open>A link that may be recorded and opened.\<close>

definition good_link :: "string \<Rightarrow> bool" where
  "good_link l \<longleftrightarrow> (\<exists>slug. safe_slug slug \<and> l = wingman_log_url @ slug)"

lemma slug_plain: "safe_slug v \<Longrightarrow> list_all (\<lambda>c. 33 \<le> byte c \<and> byte c \<le> 126 \<and> \<not> (byte c = 92 \<or> byte c = 34)) v"
  by (auto simp: safe_slug_def list_all_iff is_alnum_def is_digit_def is_lower_def is_upper_def byte_def)

lemma good_link_opens: "good_link l \<Longrightarrow> checked_link wingman_prefixes l = Ok l \<and> l \<noteq> []"
proof -
  assume "good_link l"
  then obtain slug where slug: "safe_slug slug" "l = wingman_log_url @ slug" by (auto simp: good_link_def)
  have "valid_external_url l"
    using slug slug_plain [OF slug(1)]
    by (simp add: valid_external_url_def wingman_log_url_def safe_slug_def strip_prefix_def byte_def del: strip_prefix_Some)
  moreover have "below_prefix wingman_prefixes l"
    using slug unfolding below_prefix_iff wingman_prefixes_def by (auto simp: wingman_log_url_def safe_slug_def)
  moreover have "l \<noteq> []" using slug(2) by (simp add: wingman_log_url_def)
  ultimately show ?thesis by (simp add: checked_link_def)
qed

definition wingman_success_ok :: "wingman_success wingman_result \<Rightarrow> bool" where
  "wingman_success_ok r \<longleftrightarrow> (\<forall>s l. r = Ok s \<longrightarrow> found_link s = Some l \<longrightarrow> good_link l)"

lemma searched_link_good: "searched_link E r = Ok (Some l) \<Longrightarrow> good_link l"
  by (auto simp: searched_link_def good_link_def split: if_splits option.splits)

lemma import_answer_good: "import_answer E n r = Ok s \<Longrightarrow> found_link s = Some l \<Longrightarrow> good_link l"
  by (auto simp: import_answer_def good_link_def split: if_splits option.splits)

lemma find_permalink_gives:
  "satisfies any (\<lambda>r. \<forall>l. r = Done (Ok (Some l)) \<longrightarrow> good_link l) (find_permalink E interval f m deadline n)"
proof (induction n)
  case (Suc n)
  have over: "satisfies any (\<lambda>r. \<forall>l. r = Done (Ok (Some l)) \<longrightarrow> good_link l) (search_over E)"
    unfolding search_over_def unless_stopped_def
    by (rule satisfies_andthen [where R = "\<lambda>r. \<forall>l. r \<noteq> Ok (Some l)"], rule satisfies_andthen [OF any_ask])
       (auto intro: satisfies_give)
  show ?case
    unfolding find_permalink.simps
    by (auto intro!: satisfies_give satisfies_andthen [OF any_ask] satisfies_andthen [OF any_call] over Suc.IH
        split: sum.splits bool.splits option.splits) (blast intro: searched_link_good)
qed (simp add: satisfies_give)

lemma loop_then_gives:
  assumes "satisfies any Q f" and "\<And>e. R (Done (Err e))" and "R OutOfFuel" and "\<And>v. Q (Done (Ok v)) \<Longrightarrow> satisfies any R (g v)"
  shows "satisfies any R (loop_then f g)"
  unfolding loop_then_def
  by (rule satisfies_andthen [OF assms(1)]) (auto intro: satisfies_give assms split: looped.splits sum.splits)

definition looped_ok :: "wingman_success wingman_result looped \<Rightarrow> bool" where
  "looped_ok x = (case x of OutOfFuel \<Rightarrow> True | Done r \<Rightarrow> wingman_success_ok r)"

lemma wingman_upload_gives: "satisfies any looped_ok (wingman_upload_inner E C fuel f m)"
proof -
  have e: "looped_ok (Done (Err e))" "looped_ok OutOfFuel" "looped_ok (Done (Ok \<lparr>duplicate = b, found_link = None\<rparr>))" for e b
    by (simp_all add: looped_ok_def wingman_success_ok_def)
  have search: "satisfies any looped_ok
      (loop_then (no_loop (wingman_deadline E d)) (\<lambda>deadline.
         loop_then (find_permalink E i f m deadline fuel) (\<lambda>link. give (Done (Ok \<lparr>duplicate = b, found_link = link\<rparr>)))))" for d i b
    by (rule loop_then_gives [OF any_call e(1,2)], rule loop_then_gives [OF find_permalink_gives e(1,2)])
       (auto intro!: satisfies_give simp: looped_ok_def wingman_success_ok_def)
  show ?thesis
    unfolding wingman_upload_inner_def Let_def
    by (rule loop_then_gives [OF any_call e(1,2)])
       (auto intro!: search satisfies_give e loop_then_gives [OF any_call e(1,2)] split: upload_answer.splits)
qed

lemma wingman_import_gives: "satisfies any wingman_success_ok (wingman_import_inner E link)"
  unfolding wingman_import_inner_def Let_def try_then_def unless_stopped_def
  by (auto intro!: satisfies_give satisfies_andthen [OF any_ask] satisfies_andthen [OF any_call] satisfies_if satisfies_unless_err
      simp: wingman_success_ok_def dest: import_answer_good)

definition wingman_outcome_ok :: "upload_outcome \<Rightarrow> bool" where
  "wingman_outcome_ok x = (case x of
      OutSucceeded (WingmanDone r) \<Rightarrow> pred_option (\<lambda>l. good_link (wingman_permalink l)) r
    | OutSucceededWithNotice (WingmanDone r) _ \<Rightarrow> pred_option (\<lambda>l. good_link (wingman_permalink l)) r
    | OutRetryAfter d \<Rightarrow> 0 < d \<and> d \<le> 86400 * second
    | OutFailed \<Rightarrow> True | OutCancelled \<Rightarrow> True | _ \<Rightarrow> False)"

lemma wingman_outcome_gives: "wingman_success_ok r \<Longrightarrow> wingman_outcome_ok (wingman_outcome b r)"
  using bounded_delay_bound
  by (auto simp: wingman_outcome_ok_def wingman_outcome_def wingman_success_ok_def wingman_error_outcome_def Let_def
      option.pred_set split: sum.splits wingman_disposition.splits)

lemma wingman_process_gives:
  "satisfies any (\<lambda>r. \<forall>x. r = Done x \<longrightarrow> wingman_outcome_ok x) (wingman_process E C fuel q)"
proof -
  have imported: "wingman_import E l w = (r, w') \<Longrightarrow> wingman_success_ok r" for l w r w'
    using panic_as_satisfies [OF wingman_import_gives, of "Err (wingman_failed WingmanInternal)" E l w r w']
    by (simp add: wingman_import_def wingman_success_ok_def)
  have uploaded: "wingman_upload E C fuel f m w = (r, w') \<Longrightarrow> looped_ok r" for f m w r w'
    using panic_as_satisfies [OF wingman_upload_gives, of "Done (Err (wingman_failed WingmanInternal))" E C fuel f m w r w']
    by (simp add: wingman_upload_def looped_ok_def wingman_success_ok_def)
  have "satisfies any looped_ok (ask (\<lambda>w. case request_report q of
                Some report \<Rightarrow> (case wingman_import E (permalink report) w of (r, w') \<Rightarrow> (Done r, w'))
              | None \<Rightarrow> wingman_upload E C fuel (request_file q) (request_metadata q) w))"
    using imported uploaded by (auto simp: satisfies_def ask_def looped_ok_def split: prod.splits option.splits)
  note attempt = this
  have c: "wingman_outcome_ok OutCancelled" by (simp add: wingman_outcome_ok_def)
  show ?thesis
    unfolding wingman_process_def
    by (rule satisfies_andthen [OF any_ask], rule satisfies_if, rule satisfies_give, simp add: c,
        rule satisfies_andthen [OF attempt], rule satisfies_andthen [OF any_ask], rule satisfies_if,
        rule satisfies_give, simp add: c, rule satisfies_give)
       (auto simp: looped_ok_def intro!: wingman_outcome_gives split: looped.splits)
qed

section \<open>Polling ends\<close>

text \<open>
  The laws of the poll clock: it never runs backwards, whatever is called, and a wait that was not
  interrupted has lasted as long as was asked.
\<close>

locale steady_client =
  fixes E :: "('h, 'w) client_env"
    and time :: "'w \<Rightarrow> nat"
  assumes now_reads: "client_now E w = (t, w') \<Longrightarrow> time w \<le> time w' \<and> t = time w'"
    and wait_lasts: "client_wait E d w = (Some False, w') \<Longrightarrow> time w + d \<le> time w'"
    and stopped_later: "client_stopped E w = (b, w') \<Longrightarrow> time w \<le> time w'"
    and execute_later: "client_execute E q w = (r, w') \<Longrightarrow> time w \<le> time w'"
begin

text \<open>A wait that lets the loop go on has lasted a whole interval, and the deadline is still ahead.\<close>

lemma wait_goes_on:
  assumes "wingman_wait E deadline interval w = (Some (Ok True), w')"
  shows "time w + interval \<le> time w' \<and> time w' < deadline"
proof -
  from assms obtain w1 t w2 w3 w4 u where 1: "client_stopped E w = (False, w1)" and 2: "client_now E w1 = (t, w2)"
    and "t < deadline" and 3: "client_wait E (min interval (deadline - t)) w2 = (Some False, w3)"
    and 4: "client_stopped E w3 = (False, w4)" and 5: "client_now E w4 = (u, w')" and u: "u < deadline"
    by (auto simp: wingman_wait_def unless_stopped_def andthen_def ask_def give_def split: prod.splits option.splits if_splits)
  have "time w \<le> t" "t + min interval (deadline - t) \<le> u" "u = time w'"
    using stopped_later [OF 1] now_reads [OF 2] wait_lasts [OF 3] stopped_later [OF 4] now_reads [OF 5] by auto
  with u show ?thesis by (auto simp: min_def split: if_splits)
qed

lemma poll_request_later: "poll_request E m url deadline w = (r, w') \<Longrightarrow> time w \<le> time w'"
  by (auto simp: poll_request_def andthen_def ask_def give_def Let_def split: prod.splits dest!: now_reads)

lemma wingman_execute_later: "wingman_execute E q w = (r, w') \<Longrightarrow> time w \<le> time w'"
  by (auto simp: wingman_execute_def unless_stopped_def andthen_def ask_def give_def
      split: prod.splits option.splits if_splits dest!: stopped_later execute_later)

lemma poll_ticket_ends:
  "deadline \<le> time w + n * interval \<Longrightarrow> fst (poll_ticket E interval deadline ticket (Suc n) w) \<noteq> Some OutOfFuel"
proof (induction n arbitrary: w)
  case (0 w)
  then have "\<not> (wingman_wait E deadline interval w = (Some (Ok True), w'))" for w'
    using wait_goes_on [of deadline interval w w'] by auto
  then show ?case
    by (cases "wingman_wait E deadline interval w")
       (auto simp: andthen_def give_def split: option.splits sum.splits bool.splits)
next
  case (Suc n w)
  have "fst (poll_ticket E interval deadline ticket (Suc n) w2) \<noteq> Some OutOfFuel"
    if "wingman_wait E deadline interval w = (Some (Ok True), w1)" and "time w1 \<le> time w2" for w1 w2
    using wait_goes_on [OF that(1)] that(2) Suc.prems by (intro Suc.IH) simp
  then show ?case
    unfolding poll_ticket.simps(2) [of E interval deadline ticket "Suc n"]
    by (auto simp: andthen_def give_def split: prod.splits option.splits sum.splits bool.splits simp del: poll_ticket.simps
        dest!: poll_request_later wingman_execute_later)
qed

lemma search_over_ends: "fst (search_over E w) \<noteq> Some OutOfFuel"
  by (auto simp: search_over_def unless_stopped_def andthen_def ask_def give_def split: prod.splits option.splits if_splits)

lemma find_permalink_ends:
  "deadline \<le> time w + n * interval \<Longrightarrow> fst (find_permalink E interval f m deadline (Suc n) w) \<noteq> Some OutOfFuel"
proof (induction n arbitrary: w)
  case (0 w)
  then have "\<not> t < deadline" if "client_now E w = (t, w')" for t w'
    using now_reads [OF that] by auto
  then show ?case using search_over_ends by (auto simp: andthen_def ask_def split: prod.splits)
next
  case (Suc n w)
  have later: "fst (find_permalink E interval f m deadline (Suc n) w3) \<noteq> Some OutOfFuel"
    if "time w \<le> time w2" "wingman_wait E deadline interval w2 = (Some (Ok True), w3)" for w2 w3
    using wait_goes_on [OF that(2)] that(1) Suc.prems by (intro Suc.IH) simp
  note unfold = find_permalink.simps(2) [of E interval f m deadline "Suc n"]
  obtain t w1 where 1: "client_now E w = (t, w1)" by (meson surj_pair)
  obtain q w2 where 2: "poll_request E HttpPost wingman_check_upload_url deadline w1 = (q, w2)" by (meson surj_pair)
  have t2: "time w \<le> time w2" using now_reads [OF 1] poll_request_later [OF 2] by simp
  show ?case
  proof (cases "t < deadline \<and> (\<exists>x y. q = Some (Some x) \<and> search_request f m x = Ok y)")
    case False
    with 1 2 show ?thesis
      unfolding unfold using search_over_ends
      by (cases "t < deadline"; cases q; cases "the q"; cases "search_request f m (the (the q))")
         (auto simp: andthen_def ask_def give_def)
  next
    case True
    then obtain x y where xy: "t < deadline" "q = Some (Some x)" "search_request f m x = Ok y" by blast
    obtain reply w3 where 3: "wingman_execute E y w2 = (reply, w3)" by (meson surj_pair)
    obtain waited w4 where 4: "wingman_wait E deadline interval w3 = (waited, w4)" by (meson surj_pair)
    have t3: "time w \<le> time w3" using t2 wingman_execute_later [OF 3] by simp
    note here = unfold andthen_def ask_def 1 2 3 xy prod.case option.case if_True not_True_eq_False if_False sum.case
    show ?thesis
    proof (cases reply)
      case (Some r)
      show ?thesis
      proof (cases "and_then r (searched_link E)")
        case (Inr l)
        show ?thesis
        proof (cases l)
          case None
          show ?thesis
          proof (cases "waited = Some (Ok True)")
            case True
            with later [OF t3] 4 have "fst (find_permalink E interval f m deadline (Suc n) w4) \<noteq> Some OutOfFuel" by blast
            with 4 True show ?thesis by (simp add: here Some Inr None del: find_permalink.simps)
          next
            case False
            then show ?thesis using 4 search_over_ends
              by (cases waited; cases "the waited")
                 (auto simp: here Some Inr None give_def split: bool.splits simp del: find_permalink.simps)
          qed
        qed (simp add: here Some Inr give_def del: find_permalink.simps)
      qed (simp add: here Some give_def del: find_permalink.simps)
    qed (simp add: here del: find_permalink.simps)
  qed
qed

lemma enough_fuel:
  assumes "0 < interval" and "timeout div interval + 2 \<le> fuel"
  obtains n where "fuel = Suc n" and "timeout \<le> n * interval"
proof -
  have "timeout = timeout div interval * interval + timeout mod interval" by simp
  also have "\<dots> \<le> timeout div interval * interval + interval"
    using mod_less_divisor [OF assms(1), of timeout] by (intro add_left_mono) simp
  also have "\<dots> = (timeout div interval + 1) * interval" by simp
  also have "\<dots> \<le> (fuel - 1) * interval" using assms(2) by (intro mult_le_mono1) simp
  finally have "timeout \<le> (fuel - 1) * interval" .
  with assms(2) that [of "fuel - 1"] show ?thesis by simp
qed

lemma loop_then_ends:
  "fst (f w) \<noteq> Some OutOfFuel \<Longrightarrow> (\<And>v w'. f w = (Some (Done (Ok v)), w') \<Longrightarrow> fst (g v w') \<noteq> Some OutOfFuel) \<Longrightarrow>
     fst (loop_then f g w) \<noteq> Some OutOfFuel"
  by (cases "f w") (auto simp: loop_then_def andthen_def give_def split: option.splits looped.splits sum.splits)

lemma no_loop_ends: "fst (no_loop f w) \<noteq> Some OutOfFuel"
  by (cases "f w") (auto simp: no_loop_def andthen_def give_def split: option.splits)

lemma deadline_reads:
  "no_loop (wingman_deadline E d) w = (Some (Done (Ok t)), w') \<Longrightarrow> t = time w' + d"
  by (auto simp: no_loop_def wingman_deadline_def andthen_def ask_def give_def instant_checked_add_def
      split: prod.splits option.splits if_splits dest!: now_reads)

lemma wingman_upload_ends:
  assumes "0 < ticket_interval (polling C)" and "0 < check_interval (polling C)"
    and "ticket_timeout (polling C) div ticket_interval (polling C) + 2 \<le> fuel"
    and "check_timeout (polling C) div check_interval (polling C) + 2 \<le> fuel"
  shows "fst (wingman_upload_inner E C fuel f m w) \<noteq> Some OutOfFuel"
proof -
  have search: "fst (loop_then (no_loop (wingman_deadline E (check_timeout (polling C)))) (\<lambda>deadline.
         loop_then (find_permalink E (check_interval (polling C)) f m deadline fuel)
           (\<lambda>link. give (Done (Ok \<lparr>duplicate = b, found_link = link\<rparr>)))) v) \<noteq> Some OutOfFuel" for b v
  proof (intro loop_then_ends no_loop_ends)
    fix t v'
    assume "no_loop (wingman_deadline E (check_timeout (polling C))) v = (Some (Done (Ok t)), v')"
    then have "t = time v' + check_timeout (polling C)" by (rule deadline_reads)
    moreover from enough_fuel [OF assms(2,4)] obtain n
      where "fuel = Suc n" "check_timeout (polling C) \<le> n * check_interval (polling C)" by blast
    ultimately show "fst (find_permalink E (check_interval (polling C)) f m t fuel v') \<noteq> Some OutOfFuel"
      using find_permalink_ends [of t v' n "check_interval (polling C)" f m] by simp
  qed (simp add: give_def)
  have poll: "fst (loop_then (no_loop (wingman_deadline E (ticket_timeout (polling C)))) (\<lambda>deadline.
         loop_then (poll_ticket E (ticket_interval (polling C)) deadline k fuel) (\<lambda>_.
           loop_then (no_loop (wingman_deadline E (check_timeout (polling C)))) (\<lambda>deadline.
             loop_then (find_permalink E (check_interval (polling C)) f m deadline fuel)
               (\<lambda>link. give (Done (Ok \<lparr>duplicate = False, found_link = link\<rparr>)))))) v) \<noteq> Some OutOfFuel" for k v
  proof (rule loop_then_ends [OF no_loop_ends], rule loop_then_ends)
    fix t v'
    assume "no_loop (wingman_deadline E (ticket_timeout (polling C))) v = (Some (Done (Ok t)), v')"
    then have "t = time v' + ticket_timeout (polling C)" by (rule deadline_reads)
    moreover from enough_fuel [OF assms(1,3)] obtain n
      where "fuel = Suc n" "ticket_timeout (polling C) \<le> n * ticket_interval (polling C)" by blast
    ultimately show "fst (poll_ticket E (ticket_interval (polling C)) t k fuel v') \<noteq> Some OutOfFuel"
      using poll_ticket_ends [of t v' n "ticket_interval (polling C)" k] by simp
  qed (rule search)
  show ?thesis
    unfolding wingman_upload_inner_def Let_def
  proof (intro loop_then_ends no_loop_ends)
    fix x v
    show "fst ((case x of AlreadyUploaded \<Rightarrow> loop_then (no_loop (wingman_deadline E (check_timeout (polling C)))) (\<lambda>deadline.
            loop_then (find_permalink E (check_interval (polling C)) f m deadline fuel)
              (\<lambda>link. give (Done (Ok \<lparr>duplicate = True, found_link = link\<rparr>))))
        | UploadedWithoutLink \<Rightarrow> give (Done (Ok \<lparr>duplicate = False, found_link = None\<rparr>))
        | Ticket n \<Rightarrow> loop_then (no_loop (wingman_deadline E (ticket_timeout (polling C)))) (\<lambda>deadline.
            loop_then (poll_ticket E (ticket_interval (polling C)) deadline n fuel) (\<lambda>_.
              loop_then (no_loop (wingman_deadline E (check_timeout (polling C)))) (\<lambda>deadline.
                loop_then (find_permalink E (check_interval (polling C)) f m deadline fuel)
                  (\<lambda>link. give (Done (Ok \<lparr>duplicate = False, found_link = link\<rparr>))))))) v) \<noteq> Some OutOfFuel"
      using search poll by (cases x) (simp_all add: give_def)
  qed
qed

end

text \<open>
  The slowest progress that the laws allow: a clock that only moves while the client waits, beside any
  environment.
\<close>

definition simulated_client :: "('h, 'w) client_env \<Rightarrow> ('h, 'w \<times> nat) client_env" where
  "simulated_client E = \<lparr>
     client_stopped = beside (client_stopped E),
     client_disk = logged_disk (client_disk E),
     client_random = beside (client_random E),
     client_execute = (\<lambda>q. beside (client_execute E q)),
     client_now = (\<lambda>s. (snd s, s)),
     client_wait = (\<lambda>d s. (Some False, (fst s, snd s + d))),
     client_json = client_json E, client_print = client_print E\<rparr>"

interpretation simulated: steady_client "simulated_client E" snd for E
  by unfold_locales (auto simp: simulated_client_def beside_def split: prod.splits)

text \<open>
  C25: An upload to GW2Wingman always comes to an end. Given a poll clock that does not run backwards
  and waits as long as asked, whatever the service answers, whenever stop is requested and however long
  the log stays queued, the upload returns a result: each loop passes at most once per interval before
  its deadline, so the number of intervals in its time limit plus two bounds its iterations (602 and 62
  with the default limits).
\<close>

theorem wingman_upload_returns:
  assumes "steady_client E time" and "0 < ticket_interval (polling C)" and "0 < check_interval (polling C)"
    and "ticket_timeout (polling C) div ticket_interval (polling C) + 2 \<le> fuel"
    and "check_timeout (polling C) div check_interval (polling C) + 2 \<le> fuel"
  shows "\<exists>r w'. wingman_upload E C fuel f m w = (Done r, w')"
proof -
  obtain x w' where i: "wingman_upload_inner E C fuel f m w = (x, w')" by (meson surj_pair)
  with steady_client.wingman_upload_ends [OF assms, of f m w] have "x \<noteq> Some OutOfFuel" by simp
  then show ?thesis
    using i by (cases x; cases "the x") (auto simp: wingman_upload_def panic_as_def)
qed

theorem wingman_upload_returns_witness:
  "\<exists>r w'. wingman_upload (simulated_client sample_client) new_wingman_client 602 Http_Body.sample_file sample_metadata (0, 0) = (Done r, w')"
  by (rule wingman_upload_returns [OF simulated.steady_client_axioms])
     (simp_all add: new_wingman_client_def default_polling_def second_def)

end
