(* ===== verification/Donbot_Client.thy ===== *)
theory Donbot_Client
  imports Client_Log Recent_Actions
begin

text \<open>
  The DonBot client (\<open>rust/src/providers/donbot/mod.rs\<close>, \<open>upload.rs\<close>, \<open>upload_response.rs\<close>) with the
  checks of \<open>rust/src/application/donbot.rs\<close>: a resumable upload that creates a resource, sends the log
  to it and reads the progress events; the import of a report; and the delivery of an aggregate.
\<close>

section \<open>Values\<close>

definition max_donbot_api_key_bytes :: nat where "max_donbot_api_key_bytes = 512"
definition max_donbot_aggregate_fights :: u16 where "max_donbot_aggregate_fights = 100"

datatype donbot_disposition = DonbotRetry | DonbotFailed | DonbotCancelled

datatype donbot_error_code =
  DonbotInvalidBase | DonbotInvalidKey | DonbotInvalidInput | DonbotBodyFailed | DonbotFileUnavailable
| DonbotInvalidLocation | DonbotUnconfirmedUpload | DonbotProcessingFailed | DonbotUnconfirmedDelivery
| DonbotTransport | DonbotHttpStatus | DonbotInvalidResponse | DonbotInternal | DonbotStopped

record donbot_error =
  donbot_code :: donbot_error_code
  donbot_disposition :: donbot_disposition
  donbot_retry_after :: "duration option"
  donbot_http_error :: "http_error_code option"
  donbot_http_status :: "u16 option"

definition donbot_failed :: "donbot_error_code \<Rightarrow> donbot_error" where
  "donbot_failed c = \<lparr>donbot_code = c, donbot_disposition = DonbotFailed, donbot_retry_after = None,
     donbot_http_error = None, donbot_http_status = None\<rparr>"

definition donbot_cancelled :: donbot_error where
  "donbot_cancelled = (donbot_failed DonbotStopped)\<lparr>donbot_disposition := DonbotCancelled\<rparr>"

type_synonym 'a donbot_result = "(donbot_error, 'a) result"

record donbot_options =
  donbot_base :: string
  donbot_guild :: string
  donbot_route :: donbot_delivery_route

record donbot_success =
  done_upload_id :: "u64 option"
  done_fight_id :: "u64 option"
  done_delivery :: discord_delivery_receipt

record aggregate_success =
  aggregate_fights :: nat
  aggregate_delivery :: discord_delivery_receipt

definition no_delivery :: discord_delivery_receipt where
  "no_delivery = \<lparr>outcome = NotRequested, sent = 0, skipped = 0, failed = 0, ambiguous = 0\<rparr>"

definition valid_donbot_api_key :: "string \<Rightarrow> bool" where
  "valid_donbot_api_key k \<longleftrightarrow>
     k \<noteq> [] \<and> length k \<le> max_donbot_api_key_bytes \<and> list_all (\<lambda>c. is_alnum c \<or> c = CHR ''-'') k"

definition trim_slashes :: "string \<Rightarrow> string" where
  "trim_slashes v = rev (dropWhile (\<lambda>c. c = CHR ''/'') (rev v))"

definition normalize_donbot_api_base :: "string \<Rightarrow> string option" where
  "normalize_donbot_api_base v =
     (if 2048 < length v \<or> \<not> list_all (\<lambda>c. 33 \<le> byte c \<and> byte c \<le> 126) v \<or>
        contains_any [CHR ''@'', CHR ''?'', CHR ''#'', CHR 0x5C, CHR 0x22] v \<or> is_err (validate_http_url v HttpsOnly)
      then None
      else case strip_prefix ''https://'' v of
        None \<Rightarrow> None
      | Some rest \<Rightarrow>
          (case (case split_once (CHR ''/'') rest of None \<Rightarrow> (rest, '''') | Some p \<Rightarrow> p) of (authority, path) \<Rightarrow>
             if (authority \<noteq> [] \<and> last authority = CHR ''.'') \<or>
               list_ex (\<lambda>part. part = ''.'' \<or> part = ''..'') (split_at_sep (CHR ''/'') path)
             then None else Some (trim_slashes v)))"

section \<open>Errors\<close>

definition donbot_transport_error :: "http_error \<Rightarrow> donbot_error" where
  "donbot_transport_error e =
     (let retry = retryable_transport (http_code e) in
      \<lparr>donbot_code = DonbotTransport,
       donbot_disposition =
         (if http_code e = HttpCancelled then DonbotCancelled else if retry then DonbotRetry else DonbotFailed),
       donbot_retry_after = (if retry then Some (30 * second) else None), donbot_http_error = Some (http_code e),
       donbot_http_status = None\<rparr>)"

definition donbot_status_error :: "http_response \<Rightarrow> donbot_error" where
  "donbot_status_error r =
     (let retry = retryable_status (unat (status_code r)) in
      \<lparr>donbot_code = DonbotHttpStatus, donbot_disposition = (if retry then DonbotRetry else DonbotFailed),
       donbot_retry_after = (if retry then Some (status_delay r) else None), donbot_http_error = None,
       donbot_http_status = Some (status_code r)\<rparr>)"

definition donbot_invalid :: "u16 \<Rightarrow> donbot_error" where
  "donbot_invalid status = (donbot_failed DonbotInvalidResponse)\<lparr>donbot_http_status := Some status\<rparr>"

text \<open>A failure after bytes of the log have left is never retried.\<close>

definition unconfirmed :: "donbot_error \<Rightarrow> donbot_error" where
  "unconfirmed e =
     (if donbot_disposition e \<noteq> DonbotCancelled
      then e\<lparr>donbot_disposition := DonbotFailed, donbot_retry_after := None, donbot_code := DonbotUnconfirmedUpload\<rparr>
      else e)"

section \<open>Wire formats\<close>

definition base64_table :: string where
  "base64_table = ''ABCDEFGHIJKLMNOPQRSTUVWXYZabcdefghijklmnopqrstuvwxyz0123456789+/''"

text \<open>The shifts and masks of one chunk of at most three bytes, as divisions and remainders.\<close>

definition base64_chunk :: "string \<Rightarrow> string" where
  "base64_chunk chunk =
     (let a = byte (chunk ! 0);
          b = (if 1 < length chunk then byte (chunk ! 1) else 0);
          c = (if 2 < length chunk then byte (chunk ! 2) else 0)
      in [base64_table ! (a div 4), base64_table ! ((a mod 4) * 16 + b div 16),
          if 1 < length chunk then base64_table ! ((b mod 16) * 4 + c div 64) else CHR ''='',
          if 2 < length chunk then base64_table ! (c mod 64) else CHR ''=''])"

function base64 :: "string \<Rightarrow> string" where
  "base64 v = (if v = [] then [] else base64_chunk (take 3 v) @ base64 (drop 3 v))"
  by auto
termination
  by (relation "measure length") auto

declare base64.simps [simp del]

text \<open>The mode and the channel of a delivery, as a JSON object and in the upload metadata.\<close>

definition delivery_wire :: "donbot_delivery_route \<Rightarrow> (string \<times> string option) option" where
  "delivery_wire route =
     (case route of
        NoDelivery \<Rightarrow> None
      | GuildDefaults \<Rightarrow> Some (''guild_defaults'', None)
      | ChannelOverride c \<Rightarrow> Some (''channel_override'', Some c))"

definition delivery_json :: "string \<times> string option \<Rightarrow> wire_json" where
  "delivery_json d =
     JObject ((''mode'', JString (fst d)) # (case snd d of None \<Rightarrow> [] | Some c \<Rightarrow> [(''channelId'', JString c)]))"

definition import_body :: "string \<Rightarrow> donbot_options \<Rightarrow> wire_json" where
  "import_body link opts =
     JObject ([(''url'', JString link), (''guildId'', JString (donbot_guild opts))] @
       (case delivery_wire (donbot_route opts) of None \<Rightarrow> [] | Some d \<Rightarrow> [(''discordDelivery'', delivery_json d)]))"

definition aggregate_body :: "u64 list \<Rightarrow> donbot_options \<Rightarrow> wire_json" where
  "aggregate_body ids opts =
     JObject [(''guildId'', JString (donbot_guild opts)),
       (''fightLogIds'', JArray (map (\<lambda>i. JString (dec_string (unat i))) ids)),
       (''discordDelivery'', (case delivery_wire (donbot_route opts) of None \<Rightarrow> JNull | Some d \<Rightarrow> delivery_json d))]"

definition upload_metadata :: "donbot_options \<Rightarrow> string" where
  "upload_metadata opts =
     ''filename dXBsb2FkLnpldnRj,guildid '' @ base64 (donbot_guild opts) @ '',wingman ZmFsc2U='' @
     (case delivery_wire (donbot_route opts) of
        None \<Rightarrow> []
      | Some (m, channel) \<Rightarrow> '',discorddelivery '' @ base64 m @
          (case channel of None \<Rightarrow> [] | Some c \<Rightarrow> '',discordchannelid '' @ base64 c))"

text \<open>A header that must not be repeated.\<close>

definition reply_header :: "http_response \<Rightarrow> string \<Rightarrow> string option donbot_result" where
  "reply_header r name =
     (case filter (\<lambda>h. eq_ignore_case (header_name h) name) (response_headers r) of
        [] \<Rightarrow> Ok None
      | [h] \<Rightarrow> Ok (Some (header_value h))
      | _ \<Rightarrow> Err (donbot_invalid (status_code r)))"

definition decimal_id :: "string \<Rightarrow> (unit, u64) result" where
  "decimal_id bs =
     (if \<not> utf8_valid (of_string bs) \<or> \<not> canonical_discord_id bs then Err ()
      else ok_or () (map_option of_nat (parse_unsigned (2 ^ 64 - 1) bs)))"

text \<open>The location of the created resource, kept below the address it was created at.\<close>

definition resource_id :: "string \<Rightarrow> bool" where
  "resource_id v \<longleftrightarrow> v \<noteq> [] \<and> length v \<le> 256 \<and> list_all (\<lambda>c. is_alnum c \<or> c = CHR ''-'' \<or> c = CHR ''_'') v"

definition resolve_location :: "string \<Rightarrow> string \<Rightarrow> string option" where
  "resolve_location create location =
     (case split_once (CHR ''/'') (drop 8 create) of
        None \<Rightarrow> None
      | Some (host, path) \<Rightarrow>
          (let origin = take 8 create @ host;
               relative_prefix = CHR ''/'' # path @ ''/'';
               found = (case strip_prefix ''https://'' location of
                   Some rest \<Rightarrow>
                     (case split_once (CHR ''/'') rest of
                        None \<Rightarrow> None
                      | Some (h, p) \<Rightarrow>
                          if \<not> eq_ignore_case (''https://'' @ h) origin then None
                          else strip_prefix relative_prefix (CHR ''/'' # p))
                 | None \<Rightarrow>
                     if location \<noteq> [] \<and> hd location = CHR ''/'' then strip_prefix relative_prefix location
                     else Some location)
           in case found of
                None \<Rightarrow> None
              | Some i \<Rightarrow> if \<not> resource_id i then None else Some (create @ ''/'' @ i)))"

section \<open>Answers\<close>

definition positive_id :: "u64 \<Rightarrow> bool" where
  "positive_id v \<longleftrightarrow> 0 < v \<and> v \<le> 2 ^ 63 - 1"

definition donbot_decode ::
  "('h, 'w) client_env \<Rightarrow> ((string \<times> wire_json) list \<Rightarrow> 'a parsed) \<Rightarrow> http_response \<Rightarrow> 'a donbot_result" where
  "donbot_decode E conv r =
     map_err (\<lambda>_. donbot_invalid (status_code r)) (json_decode (client_json E) (64 * 1024) conv (response_body r))"

definition json_u16 :: "wire_json \<Rightarrow> u16 parsed" where
  "json_u16 v = and_then (json_int 0 (2 ^ 16 - 1) v) (\<lambda>n. Ok (of_int n))"

definition json_u64 :: "wire_json \<Rightarrow> u64 parsed" where
  "json_u64 v = and_then (json_int 0 (2 ^ 64 - 1) v) (\<lambda>n. Ok (of_int n))"

record delivery_answer =
  answer_requested :: bool
  answer_outcome :: string
  answer_sent :: u16
  answer_skipped :: u16
  answer_failed :: u16
  answer_ambiguous :: u16

definition parse_delivery :: "(string \<times> wire_json) list \<Rightarrow> delivery_answer parsed" where
  "parse_delivery fs =
     and_then (required json_bool ''requested'' fs) (\<lambda>r.
     and_then (required (json_text 32) ''outcome'' fs) (\<lambda>x.
     and_then (required json_u16 ''sent'' fs) (\<lambda>a.
     and_then (required json_u16 ''skipped'' fs) (\<lambda>b.
     and_then (required json_u16 ''failed'' fs) (\<lambda>c.
     and_then (required json_u16 ''ambiguous'' fs) (\<lambda>d.
       Ok \<lparr>answer_requested = r, answer_outcome = x, answer_sent = a, answer_skipped = b, answer_failed = c,
         answer_ambiguous = d\<rparr>))))))"

text \<open>The receipt of an answer: its counts must fit its outcome, and the outcome what was requested.\<close>

definition delivery_receipt :: "bool \<Rightarrow> u16 \<Rightarrow> delivery_answer \<Rightarrow> discord_delivery_receipt option" where
  "delivery_receipt requested maximum d =
     (let receipt = (\<lambda>x. \<lparr>outcome = x, sent = answer_sent d, skipped = answer_skipped d, failed = answer_failed d,
            ambiguous = answer_ambiguous d\<rparr>);
          n = populated (receipt NotRequested);
          name = answer_outcome d
      in if answer_requested d \<noteq> requested then None
         else if unat maximum < discord_total (receipt NotRequested) then None
         else if name = ''not_requested'' \<and> \<not> requested \<and> n = 0 then Some (receipt NotRequested)
         else if name = ''sent'' \<and> requested \<and> 0 < answer_sent d \<and> n = 1 then Some (receipt DiscordSent)
         else if name = ''partial'' \<and> requested \<and> 2 \<le> n then Some (receipt Partial)
         else if name = ''skipped'' \<and> requested \<and> 0 < answer_skipped d \<and> n = 1 then Some (receipt DiscordSkipped)
         else if name = ''failed'' \<and> requested \<and> 0 < answer_failed d \<and> n = 1 then Some (receipt DiscordFailed)
         else if name = ''ambiguous'' \<and> requested \<and> 0 < answer_ambiguous d \<and> n = 1 then Some (receipt DiscordAmbiguous)
         else None)"

definition upload_delivery :: "delivery_answer option \<Rightarrow> bool \<Rightarrow> u16 \<Rightarrow> discord_delivery_receipt donbot_result" where
  "upload_delivery v requested status =
     (case v of
        Some d \<Rightarrow> ok_or (donbot_invalid status) (delivery_receipt requested 4 d)
      | None \<Rightarrow> if \<not> requested then Ok no_delivery else Err (donbot_failed DonbotUnconfirmedDelivery))"

record donbot_import =
  import_upload_id :: u64
  import_fight_id :: "u64 option"
  import_status :: string
  import_accepted :: "bool option"
  import_delivery :: "delivery_answer option"

definition parse_import :: "(string \<times> wire_json) list \<Rightarrow> donbot_import parsed" where
  "parse_import fs =
     and_then (required json_u64 ''uploadId'' fs) (\<lambda>i.
     and_then (optional json_u64 ''fightLogId'' fs) (\<lambda>f.
     and_then (required (json_text 16) ''status'' fs) (\<lambda>s.
     and_then (required json_bool ''duplicate'' fs) (\<lambda>_.
     and_then (optional json_bool ''discordDeliveryAccepted'' fs) (\<lambda>a.
     and_then (optional (json_object parse_delivery) ''discordDelivery'' fs) (\<lambda>d.
       Ok \<lparr>import_upload_id = i, import_fight_id = f, import_status = s, import_accepted = a, import_delivery = d\<rparr>))))))"

definition parse_aggregate :: "(string \<times> wire_json) list \<Rightarrow> (nat \<times> delivery_answer) parsed" where
  "parse_aggregate fs =
     and_then (required (json_int 0 (2 ^ 64 - 1)) ''fightLogCount'' fs) (\<lambda>n.
     and_then (required (json_object parse_delivery) ''discordDelivery'' fs) (\<lambda>d. Ok (nat n, d)))"

definition parse_progress :: "(string \<times> wire_json) list \<Rightarrow> (string \<times> u64 option \<times> delivery_answer option) parsed" where
  "parse_progress fs =
     and_then (required (json_text 256) ''stage'' fs) (\<lambda>s.
     and_then (optional json_u64 ''fightLogId'' fs) (\<lambda>f.
     and_then (optional (json_object parse_delivery) ''discordDelivery'' fs) (\<lambda>d. Ok (s, f, d))))"

record completed =
  completed_fight :: "u64 option"
  completed_delivery :: discord_delivery_receipt

definition nothing_completed :: completed where
  "nothing_completed = \<lparr>completed_fight = None, completed_delivery = no_delivery\<rparr>"

text \<open>The data of a line of an event stream.\<close>

definition event_data :: "string \<Rightarrow> string option" where
  "event_data line =
     (let line = (if line \<noteq> [] \<and> last line = CHR 0x0D then butlast line else line)
      in map_option (\<lambda>d. case strip_prefix '' '' d of None \<Rightarrow> d | Some r \<Rightarrow> r) (strip_prefix ''data:'' line))"

definition progress_event ::
  "u16 \<Rightarrow> bool \<Rightarrow> completed \<Rightarrow> string \<times> u64 option \<times> delivery_answer option \<Rightarrow> (completed \<times> bool) donbot_result" where
  "progress_event status requested c event =
     (case event of (stage, fight, d) \<Rightarrow>
        and_then (case fight of
           Some i \<Rightarrow> if \<not> positive_id i then Err (donbot_invalid status) else Ok (c\<lparr>completed_fight := Some i\<rparr>)
         | None \<Rightarrow> Ok c) (\<lambda>c2.
        if stage = ''failed'' then Err (donbot_failed DonbotProcessingFailed)
        else if stage = ''complete''
        then and_then (upload_delivery d requested status) (\<lambda>r. Ok (c2\<lparr>completed_delivery := r\<rparr>, True))
        else if d \<noteq> None then Err (donbot_invalid status)
        else Ok (c2, False)))"

fun progress_lines ::
  "('h, 'w) client_env \<Rightarrow> u16 \<Rightarrow> bool \<Rightarrow> completed \<Rightarrow> bool \<Rightarrow> string list \<Rightarrow> (completed \<times> bool) donbot_result" where
  "progress_lines E status requested c complete [] = Ok (c, complete)"
| "progress_lines E status requested c complete (line # lines) =
     (case event_data line of
        None \<Rightarrow> progress_lines E status requested c complete lines
      | Some d \<Rightarrow>
          and_then (map_err (\<lambda>_. donbot_invalid status) (json_decode (client_json E) (256 * 1024) parse_progress d)) (\<lambda>event.
          and_then (progress_event status requested c event) (\<lambda>(c2, complete2).
            progress_lines E status requested c2 complete2 lines)))"

definition progress :: "('h, 'w) client_env \<Rightarrow> bool \<Rightarrow> http_response \<Rightarrow> completed donbot_result" where
  "progress E requested r =
     (if 256 * 1024 < length (response_body r) \<or> \<not> utf8_valid (of_string (response_body r))
      then Err (donbot_invalid (status_code r))
      else and_then (progress_lines E (status_code r) requested nothing_completed False
             (split_at_sep (CHR 0x0A) (response_body r))) (\<lambda>(c, complete).
        if \<not> complete then Err (donbot_invalid (status_code r)) else Ok c))"

section \<open>Requests\<close>

definition donbot_request :: "http_method \<Rightarrow> string \<Rightarrow> string \<Rightarrow> 'h client_body http_request" where
  "donbot_request m url key =
     (new_http_request m url)
       \<lparr>http_headers := [public_header ''Accept'' ''application/json'', sensitive_header ''X-GW2-API-Key'' key],
        http_timeouts := \<lparr>connect_timeout = 10 * second, operation_timeout = 900 * second, stalled_transfer = 900 * second\<rparr>,
        http_response_limits := \<lparr>max_header_bytes = max_http_response_header_bytes, max_body_bytes = 64 * 1024\<rparr>\<rparr>"

definition donbot_json_request ::
  "('h, 'w) client_env \<Rightarrow> string \<Rightarrow> string \<Rightarrow> wire_json \<Rightarrow> 'h client_body http_request donbot_result" where
  "donbot_json_request E url key body =
     (let q = donbot_request HttpPost url key in
      and_then (ok_or (donbot_failed DonbotBodyFailed) (client_print E body)) (\<lambda>bytes.
      and_then (map_err (\<lambda>_. donbot_failed DonbotBodyFailed) (new_memory_body bytes)) (\<lambda>b.
        Ok (q\<lparr>http_headers := http_headers q @ [public_header ''Content-Type'' ''application/json''],
             http_body := Some (PlainBody b)\<rparr>))))"

definition create_request :: "string \<Rightarrow> log_file_identity \<Rightarrow> donbot_options \<Rightarrow> string \<Rightarrow> 'h client_body http_request" where
  "create_request url f opts key =
     (let q = donbot_request HttpPost url key in
      q\<lparr>http_headers := http_headers q @
         [public_header ''Tus-Resumable'' ''1.0.0'', public_header ''Upload-Length'' (dec_string (unat (file_size f))),
          public_header ''Upload-Metadata'' (upload_metadata opts)]\<rparr>)"

definition send_request :: "string \<Rightarrow> string \<Rightarrow> 'h file_body \<Rightarrow> 'h client_body http_request" where
  "send_request url key b =
     (let q = donbot_request HttpPatch url key in
      q\<lparr>http_headers := http_headers q @
         [public_header ''Tus-Resumable'' ''1.0.0'', public_header ''Upload-Offset'' ''0'',
          public_header ''Content-Type'' ''application/offset+octet-stream''],
        http_body := Some (LogBody b)\<rparr>)"

definition stream_request :: "string \<Rightarrow> u64 \<Rightarrow> string \<Rightarrow> 'h client_body http_request" where
  "stream_request base i key =
     (let q = donbot_request HttpGet (base @ ''/api/upload/stream/'' @ dec_string (unat i)) key in
      q\<lparr>http_headers := filter (\<lambda>h. header_name h \<noteq> ''Accept'') (http_headers q) @
          [public_header ''Accept'' ''text/event-stream''],
        http_response_limits := (http_response_limits q)\<lparr>max_body_bytes := 256 * 1024\<rparr>\<rparr>)"

section \<open>Operations\<close>

definition checked_options :: "donbot_options \<Rightarrow> string \<Rightarrow> string donbot_result" where
  "checked_options opts key =
     and_then (ok_or (donbot_failed DonbotInvalidBase) (normalize_donbot_api_base (donbot_base opts))) (\<lambda>base.
       if \<not> canonical_discord_id (donbot_guild opts) \<or> \<not> delivery_is_valid (donbot_route opts)
       then Err (donbot_failed DonbotInvalidInput)
       else if \<not> valid_donbot_api_key key then Err (donbot_failed DonbotInvalidKey)
       else Ok base)"

definition donbot_validate :: "('h, 'w) client_env \<Rightarrow> donbot_options \<Rightarrow> string \<Rightarrow> ('w, string donbot_result) step" where
  "donbot_validate E opts key = unless_stopped E donbot_cancelled (give (checked_options opts key))"

definition donbot_execute ::
  "('h, 'w) client_env \<Rightarrow> 'h client_body http_request \<Rightarrow> ('w, http_response donbot_result) step" where
  "donbot_execute E q =
     unless_stopped E donbot_cancelled (andthen (client_execute E q) (\<lambda>result.
       unless_stopped E donbot_cancelled (give (map_err donbot_transport_error result))))"

definition created_upload :: "string \<Rightarrow> donbot_options \<Rightarrow> http_response \<Rightarrow> (string \<times> u64 option) donbot_result" where
  "created_upload create opts r =
     (let invalid = donbot_invalid 201 in
      if status_code r \<noteq> 201 then Err (donbot_status_error r)
      else and_then (reply_header r ''Tus-Resumable'') (\<lambda>tus.
        if tus \<noteq> Some ''1.0.0'' then Err invalid
        else and_then (reply_header r ''Location'') (\<lambda>location.
        and_then (ok_or invalid location) (\<lambda>location.
        if \<not> utf8_valid (of_string location) then Err invalid
        else and_then (ok_or (donbot_failed DonbotInvalidLocation) (resolve_location create location)) (\<lambda>url.
        and_then (reply_header r ''X-Log-Upload-Id'') (\<lambda>h.
        and_then (case h of None \<Rightarrow> Ok None | Some v \<Rightarrow> map_err (\<lambda>_. invalid) (and_then (decimal_id v) (\<lambda>i. Ok (Some i)))) (\<lambda>i.
          if \<not> delivery_requested (donbot_route opts) then Ok (url, i)
          else if i = None then Err (donbot_failed DonbotUnconfirmedDelivery)
          else and_then (reply_header r ''X-DonBot-Discord-Delivery'') (\<lambda>d.
            if d \<noteq> Some ''accepted'' then Err (donbot_failed DonbotUnconfirmedDelivery) else Ok (url, i)))))))))"

definition sent_upload :: "log_file_identity \<Rightarrow> http_response donbot_result \<Rightarrow> unit donbot_result" where
  "sent_upload f result =
     map_err unconfirmed (and_then result (\<lambda>r.
       if status_code r \<noteq> 204 then Err (donbot_status_error r)
       else and_then (reply_header r ''Tus-Resumable'') (\<lambda>tus.
         and_then (reply_header r ''Upload-Offset'') (\<lambda>h.
           let offset = (case h of None \<Rightarrow> None | Some v \<Rightarrow> (case decimal_id v of Err _ \<Rightarrow> None | Ok i \<Rightarrow> Some i)) in
           if tus \<noteq> Some ''1.0.0'' \<or> offset \<noteq> Some (file_size f) then Err (donbot_invalid 204) else Ok ()))))"

definition processed :: "('h, 'w) client_env \<Rightarrow> bool \<Rightarrow> http_response donbot_result \<Rightarrow> completed donbot_result" where
  "processed E requested result =
     (let other = (if requested
            then Err \<lparr>donbot_code = DonbotUnconfirmedDelivery, donbot_disposition = DonbotFailed, donbot_retry_after = None,
                   donbot_http_error = (case result of Err e \<Rightarrow> donbot_http_error e | Ok _ \<Rightarrow> None),
                   donbot_http_status = (case result of Err _ \<Rightarrow> None | Ok r \<Rightarrow> Some (status_code r))\<rparr>
            else Ok nothing_completed)
      in case result of
           Ok r \<Rightarrow> if status_code r = 200 then progress E requested r else other
         | Err e \<Rightarrow> if donbot_disposition e = DonbotCancelled then Err e else other)"

definition wait_for_processing ::
  "('h, 'w) client_env \<Rightarrow> string \<Rightarrow> u64 \<Rightarrow> string \<Rightarrow> bool \<Rightarrow> ('w, completed donbot_result) step" where
  "wait_for_processing E base i key requested =
     andthen (donbot_execute E (stream_request base i key)) (\<lambda>result. give (processed E requested result))"

definition donbot_upload_inner ::
  "('h, 'w) client_env \<Rightarrow> log_file_identity \<Rightarrow> donbot_options \<Rightarrow> string \<Rightarrow> ('w, donbot_success donbot_result) step" where
  "donbot_upload_inner E f opts key =
     try_then (donbot_validate E opts key) (\<lambda>base.
       if file_size f = 0 \<or> max_http_request_body_bytes < file_size f then give (Err (donbot_failed DonbotInvalidInput))
       else let create = base @ ''/api/upload/tus'' in
         try_then (donbot_execute E (create_request create f opts key)) (\<lambda>created.
         unless_err (created_upload create opts created) (\<lambda>(url, i).
         unless_stopped E donbot_cancelled
           (andthen (ask (new_file_body (client_disk E) f)) (\<lambda>opened.
            unless_err (map_err (\<lambda>_. donbot_failed DonbotFileUnavailable) opened) (\<lambda>b.
            andthen (donbot_execute E (send_request url key b)) (\<lambda>patched.
            unless_err (sent_upload f patched) (\<lambda>_.
            try_then (case i of
                None \<Rightarrow> give (Ok nothing_completed)
              | Some n \<Rightarrow> wait_for_processing E base n key (delivery_requested (donbot_route opts))) (\<lambda>c.
              give (Ok \<lparr>done_upload_id = i, done_fight_id = completed_fight c, done_delivery = completed_delivery c\<rparr>))))))))))"

definition import_valid :: "donbot_import \<Rightarrow> bool" where
  "import_valid p \<longleftrightarrow>
     \<not> (\<not> positive_id (import_upload_id p) \<or>
        (case import_fight_id p of None \<Rightarrow> False | Some i \<Rightarrow> \<not> positive_id i) \<or>
        \<not> (import_status p = ''pending'' \<or> import_status p = ''complete'') \<or>
        (import_status p = ''complete'') \<noteq> (import_fight_id p \<noteq> None))"

definition imported :: "('h, 'w) client_env \<Rightarrow> http_response \<Rightarrow> donbot_import donbot_result" where
  "imported E r =
     (if \<not> (status_code r = 200 \<or> status_code r = 202) then Err (donbot_status_error r)
      else and_then (donbot_decode E parse_import r) (\<lambda>p.
        if \<not> import_valid p then Err (donbot_invalid (status_code r)) else Ok p))"

definition import_completed ::
  "('h, 'w) client_env \<Rightarrow> string \<Rightarrow> string \<Rightarrow> bool \<Rightarrow> u16 \<Rightarrow> donbot_import \<Rightarrow> ('w, completed donbot_result) step" where
  "import_completed E base key requested status p =
     (if requested \<and> import_accepted p \<noteq> Some True then give (Err (donbot_failed DonbotUnconfirmedDelivery))
      else if import_status p = ''complete''
      then give (and_then (upload_delivery (import_delivery p) requested status) (\<lambda>d.
             Ok \<lparr>completed_fight = import_fight_id p, completed_delivery = d\<rparr>))
      else unless_err (case import_delivery p of
             None \<Rightarrow> Ok ()
           | Some d \<Rightarrow> and_then (upload_delivery (Some d) requested status) (\<lambda>_. Ok ())) (\<lambda>_.
        wait_for_processing E base (import_upload_id p) key requested))"

definition donbot_import_inner ::
  "('h, 'w) client_env \<Rightarrow> string \<Rightarrow> donbot_options \<Rightarrow> string \<Rightarrow> ('w, donbot_success donbot_result) step" where
  "donbot_import_inner E link opts key =
     try_then (donbot_validate E opts key) (\<lambda>base.
       if \<not> trusted_report_permalink link then give (Err (donbot_failed DonbotInvalidInput))
       else unless_err (donbot_json_request E (base @ ''/api/upload/gw2/url'') key (import_body link opts)) (\<lambda>q.
         try_then (donbot_execute E q) (\<lambda>r.
         unless_err (imported E r) (\<lambda>p.
         try_then (import_completed E base key (delivery_requested (donbot_route opts)) (status_code r) p) (\<lambda>c.
           give (Ok \<lparr>done_upload_id = Some (import_upload_id p), done_fight_id = completed_fight c,
             done_delivery = completed_delivery c\<rparr>))))))"

definition aggregate_answer :: "('h, 'w) client_env \<Rightarrow> u64 list \<Rightarrow> http_response \<Rightarrow> aggregate_success donbot_result" where
  "aggregate_answer E ids r =
     (if status_code r \<noteq> 200 then Err (donbot_status_error r)
      else and_then (donbot_decode E parse_aggregate r) (\<lambda>(n, d).
        if n \<noteq> length ids then Err (donbot_invalid (status_code r))
        else and_then (ok_or (donbot_invalid (status_code r)) (delivery_receipt True max_donbot_aggregate_fights d)) (\<lambda>x.
          Ok \<lparr>aggregate_fights = length ids, aggregate_delivery = x\<rparr>)))"

definition donbot_aggregate_inner ::
  "('h, 'w) client_env \<Rightarrow> u64 list \<Rightarrow> donbot_options \<Rightarrow> string \<Rightarrow> ('w, aggregate_success donbot_result) step" where
  "donbot_aggregate_inner E ids opts key =
     try_then (donbot_validate E opts key) (\<lambda>base.
       if \<not> delivery_requested (donbot_route opts) \<or> \<not> (2 \<le> length ids \<and> length ids \<le> unat max_donbot_aggregate_fights) \<or>
         \<not> list_all positive_id ids \<or> \<not> distinct ids
       then give (Err (donbot_failed DonbotInvalidInput))
       else unless_err (donbot_json_request E (base @ ''/api/upload/gw2/aggregate'') key (aggregate_body ids opts)) (\<lambda>q.
         try_then (donbot_execute E q) (\<lambda>r. give (aggregate_answer E ids r))))"

definition donbot_upload where
  "donbot_upload E f opts key = panic_as (Err (donbot_failed DonbotInternal)) (donbot_upload_inner E f opts key)"

definition donbot_import_link where
  "donbot_import_link E link opts key = panic_as (Err (donbot_failed DonbotInternal)) (donbot_import_inner E link opts key)"

definition donbot_aggregate where
  "donbot_aggregate E ids opts key = panic_as (Err (donbot_failed DonbotInternal)) (donbot_aggregate_inner E ids opts key)"

section \<open>Base64\<close>

fun base64_value :: "char \<Rightarrow> nat option" where
  "base64_value c =
     (let n = byte c in
      if is_upper c then Some (n - 65)
      else if is_lower c then Some (n - 71)
      else if is_digit c then Some (n + 4)
      else if n = 43 then Some 62
      else if n = 47 then Some 63 else None)"

lemma base64_table_value: "n < 64 \<Longrightarrow> base64_value (base64_table ! n) = Some n"
proof -
  have "list_all (\<lambda>n. base64_value (base64_table ! n) = Some n) [0..<64]"
    by (simp add: base64_table_def byte_class_defs upt_rec)
  then show "n < 64 \<Longrightarrow> base64_value (base64_table ! n) = Some n" by (simp add: list_all_iff)
qed

lemma base64_plain: "n < 64 \<Longrightarrow> base64_table ! n \<noteq> CHR ''=''"
  using base64_table_value [of n] by (cases "base64_table ! n = CHR ''=''") (simp_all add: byte_class_defs)

text \<open>What a decoder reads.\<close>

fun base64_decode :: "string \<Rightarrow> string" where
  "base64_decode (a # b # c # d # rest) =
     (let x = the (base64_value a); y = the (base64_value b); z = the (base64_value c); w = the (base64_value d) in
      if c = CHR ''='' then [char_of (x * 4 + y div 16)]
      else if d = CHR ''='' then [char_of (x * 4 + y div 16), char_of ((y mod 16) * 16 + z div 4)]
      else char_of (x * 4 + y div 16) # char_of ((y mod 16) * 16 + z div 4) # char_of ((z mod 4) * 64 + w) #
        base64_decode rest)"
| "base64_decode _ = []"

lemma decode_quads:
  assumes "p < 64" and "q < 64"
  shows "base64_decode [base64_table ! p, base64_table ! q, CHR ''='', x] = [char_of (p * 4 + q div 16)]"
    and "r < 64 \<Longrightarrow> base64_decode [base64_table ! p, base64_table ! q, base64_table ! r, CHR ''=''] =
      [char_of (p * 4 + q div 16), char_of ((q mod 16) * 16 + r div 4)]"
    and "r < 64 \<Longrightarrow> s < 64 \<Longrightarrow>
      base64_decode (base64_table ! p # base64_table ! q # base64_table ! r # base64_table ! s # rest) =
      char_of (p * 4 + q div 16) # char_of ((q mod 16) * 16 + r div 4) # char_of ((r mod 4) * 64 + s) # base64_decode rest"
  using assms by (simp_all add: Let_def base64_table_value base64_plain del: base64_value.simps)

lemma joined: "r < n \<Longrightarrow> (q * n + r) div n = (q :: nat)" "r < n \<Longrightarrow> (q * n + r) mod n = r"
  by simp_all

lemma sextets:
  fixes a b c :: nat
  assumes "a < 256" and "b < 256"
  shows "a div 4 < 64" and "(a mod 4) * 16 + b div 16 < 64" and "a mod 64 < 64"
    and "a div 4 * 4 + ((a mod 4) * 16 + b div 16) div 16 = a"
    and "((a mod 4) * 16 + b div 16) mod 16 = b div 16"
proof -
  have b: "b div 16 < 16" using assms(2) by simp
  show "a div 4 < 64" "a mod 64 < 64" using assms(1) by simp_all
  show "(a mod 4) * 16 + b div 16 < 64" using b mod_less_divisor [of 4 a] by linarith
  show "a div 4 * 4 + ((a mod 4) * 16 + b div 16) div 16 = a" using joined(1) [OF b] by simp
  show "((a mod 4) * 16 + b div 16) mod 16 = b div 16" using joined(2) [OF b] .
qed

lemma low_sextets:
  fixes b c :: nat
  assumes "c < 256"
  shows "(b mod 16) * 4 + c div 64 < 64" and "((b mod 16) * 4 + c div 64) div 4 = b mod 16"
    and "((b mod 16) * 4 + c div 64) mod 4 * 64 + c mod 64 = c"
proof -
  have c: "c div 64 < 4" using assms by simp
  show "(b mod 16) * 4 + c div 64 < 64" using c mod_less_divisor [of 16 b] by linarith
  show "((b mod 16) * 4 + c div 64) div 4 = b mod 16" using joined(1) [OF c] .
  show "((b mod 16) * 4 + c div 64) mod 4 * 64 + c mod 64 = c" using joined(2) [OF c] by simp
qed

lemma base64_unfold:
  "base64 [] = []"
  "base64 [a] = base64_chunk [a]"
  "base64 [a, b] = base64_chunk [a, b]"
  "base64 (a # b # c # r) = base64_chunk [a, b, c] @ base64 r"
  by (simp_all add: base64.simps [of "[]"] base64.simps [of "[a]"] base64.simps [of "[a, b]"] base64.simps [of "a # b # c # r"])

lemma decode_chunks:
  "base64_decode (base64_chunk [a]) = [a]"
  "base64_decode (base64_chunk [a, b]) = [a, b]"
  "base64_decode (base64_chunk [a, b, c] @ rest) = a # b # c # base64_decode rest"
proof -
  have char: "char_of (byte c) = c" for c by (simp add: byte_def)
  have less: "byte c < 256" for c by (simp add: byte_def)
  have zero: "(0 :: nat) < 256" by simp
  note one = sextets [OF less [of a] zero]
  note ab = sextets [OF less [of a] less [of b]]
  note b0 = low_sextets [OF zero, of "byte b"]
  note bc = low_sextets [OF less [of c], of "byte b"]
  show "base64_decode (base64_chunk [a]) = [a]"
    using decode_quads(1) [OF one(1,2), of "CHR ''=''"] one(4) by (simp add: base64_chunk_def Let_def char del: base64_decode.simps)
  show "base64_decode (base64_chunk [a, b]) = [a, b]"
    using decode_quads(2) [OF ab(1,2) b0(1)] unfolding ab(4,5) b0(2) by (simp add: base64_chunk_def Let_def char del: base64_decode.simps)
  show "base64_decode (base64_chunk [a, b, c] @ rest) = a # b # c # base64_decode rest"
    using decode_quads(3) [OF ab(1,2) bc(1) sextets(3) [OF less [of c] zero], of rest] unfolding ab(4,5) bc(2,3)
    by (simp add: base64_chunk_def Let_def char del: base64_decode.simps)
qed

lemma base64_decode_encode: "base64_decode (base64 v) = v"
proof (induction v rule: base64.induct)
  case (1 v)
  consider "v = []" | a where "v = [a]" | a b where "v = [a, b]" | a b c r where "v = a # b # c # r"
    by (metis list.exhaust)
  then show ?case
    by cases (use 1 in \<open>simp_all add: base64_unfold decode_chunks del: base64_decode.simps(1)\<close>)
qed

lemma base64_bytes: "list_all (\<lambda>c. 33 \<le> byte c \<and> byte c \<le> 126) (base64 v) \<and> length (base64 v) = (length v + 2) div 3 * 4"
proof (induction v rule: base64.induct)
  case (1 v)
  have t: "33 \<le> byte (base64_table ! n) \<and> byte (base64_table ! n) \<le> 126" if "n < 64" for n
    using base64_table_value [OF that]
    by (auto simp: Let_def is_upper_def is_lower_def is_digit_def split: if_splits)
  have less: "byte c < 256" for c by (simp add: byte_def)
  have e: "33 \<le> byte CHR ''='' \<and> byte CHR ''='' \<le> 126" by (simp add: byte_def)
  have zero: "(0 :: nat) < 256" by simp
  consider "v = []" | a where "v = [a]" | a b where "v = [a, b]" | a b c r where "v = a # b # c # r"
    by (metis list.exhaust)
  then show ?case
  proof cases
    case (2 a)
    then show ?thesis using sextets [OF less [of a] zero] t e by (simp add: base64_unfold base64_chunk_def Let_def)
  next
    case (3 a b)
    then show ?thesis using sextets [OF less [of a] less [of b]] low_sextets(1) [OF zero, of "byte b"] t e
      by (simp add: base64_unfold base64_chunk_def Let_def)
  next
    case (4 a b c r)
    then have "(length v + 2) div 3 = Suc ((length r + 2) div 3)" by simp
    then show ?thesis using 1 4 sextets [OF less [of a] less [of b]] low_sextets(1) [OF less [of c], of "byte b"]
        sextets(3) [OF less [of c] zero] t
      by (simp add: base64_unfold base64_chunk_def Let_def)
  qed (simp add: base64_unfold)
qed

section \<open>The service's address\<close>

definition authority_of :: "string \<Rightarrow> string" where
  "authority_of rest = takeWhile (\<lambda>c. c \<noteq> CHR ''/'' \<and> c \<noteq> CHR ''?'') rest"

definition authority_checked :: "string \<Rightarrow> (http_error, unit) result" where
  "authority_checked au =
     (if au = [] \<or> CHR ''@'' \<in> set au then Err (http_error_of HttpInvalidRequest)
      else and_then (split_authority au) (\<lambda>(host, port).
        and_then (if port = [] then Ok ()
                  else and_then (ok_or (http_error_of HttpInvalidRequest) (strip_prefix '':'' port)) (\<lambda>digits.
                    require (valid_port digits) (http_error_of HttpInvalidRequest))) (\<lambda>_. Ok ())))"

text \<open>Whether an \<open>https\<close> address is accepted depends on its authority, its bytes and its length only.\<close>

lemma https_valid:
  "validate_http_url (''https://'' @ a) HttpsOnly =
     (if 4088 < length a \<or> \<not> list_all url_byte a then Err (http_error_of HttpInvalidRequest)
      else authority_checked (authority_of a))"
proof -
  have "list_all url_byte ''https://''" by (simp add: url_byte_def byte_def)
  moreover have "split_once_at ''://'' (''https://'' @ a) = Some (''https'', a)" by simp
  ultimately show ?thesis
    by (simp add: validate_http_url_def authority_checked_def authority_of_def Let_def max_http_url_bytes_def ok_or_def)
qed

lemma authority_of_slash: "authority_of (a @ CHR ''/'' # b) = authority_of a"
  by (induction a) (auto simp: authority_of_def)

lemma trim_slashes_split: "\<exists>n. v = trim_slashes v @ replicate n (CHR ''/'')"
proof -
  let ?P = "\<lambda>c. c = CHR ''/''"
  have "takeWhile ?P (rev v) = replicate (length (takeWhile ?P (rev v))) (CHR ''/'')"
    by (rule replicate_eqI) (auto dest: set_takeWhileD)
  then have "rev (takeWhile ?P (rev v)) = replicate (length (takeWhile ?P (rev v))) (CHR ''/'')"
    by (metis rev_replicate)
  moreover have "rev (takeWhile ?P (rev v) @ dropWhile ?P (rev v)) = v" by (simp only: takeWhile_dropWhile_id rev_rev_ident)
  ultimately have "v = trim_slashes v @ replicate (length (takeWhile ?P (rev v))) (CHR ''/'')"
    by (simp only: trim_slashes_def rev_append)
  then show ?thesis by blast
qed

lemma trim_keeps_start: "last a \<noteq> CHR ''/'' \<Longrightarrow> a \<noteq> [] \<Longrightarrow> \<exists>rest. trim_slashes (a @ b) = a @ rest"
proof -
  assume a: "last a \<noteq> CHR ''/''" "a \<noteq> []"
  then have "dropWhile (\<lambda>c. c = CHR ''/'') (rev a) = rev a" by (cases a rule: rev_cases) simp_all
  then show ?thesis by (auto simp: trim_slashes_def dropWhile_append)
qed

lemma normalized_base:
  assumes "normalize_donbot_api_base v = Some base"
  obtains rest where "base = ''https://'' @ rest" and "length rest \<le> 2040" and "list_all url_byte rest"
    and "\<And>path. list_all url_byte path \<Longrightarrow> length path \<le> 2000 \<Longrightarrow>
      validate_http_url (base @ CHR ''/'' # path) HttpsOnly = Ok ()"
    and "CHR ''?'' \<notin> set base"
proof -
  from assms have v: "validate_http_url v HttpsOnly = Ok ()" "length v \<le> 2048" "base = trim_slashes v"
    and q: "CHR ''?'' \<notin> set v" and "strip_prefix ''https://'' v \<noteq> None"
    by (auto simp: normalize_donbot_api_base_def is_err_def is_ok_iff contains_any_def list_ex_iff
        simp del: strip_prefix_Some split: if_splits option.splits prod.splits)
  then obtain a where a: "v = ''https://'' @ a" by auto
  have checked: "authority_checked (authority_of a) = Ok ()" and bytes: "list_all url_byte a"
    using v(1) by (simp_all only: a https_valid split: if_splits) simp_all
  from checked have "authority_of a \<noteq> []" unfolding authority_checked_def by (simp split: if_splits)
  then obtain c as where "a = c # as" and c: "c \<noteq> CHR ''/''"
    by (cases a) (auto simp: authority_of_def split: if_splits)
  then have "\<exists>rest. trim_slashes ((''https://'' @ [c]) @ as) = (''https://'' @ [c]) @ rest"
    by (intro trim_keeps_start) simp_all
  then obtain rest where rest: "base = ''https://'' @ rest" using v(3) a \<open>a = c # as\<close> by auto
  from trim_slashes_split [of v] obtain n where "v = base @ replicate n (CHR ''/'')" using v(3) by auto
  then have n: "a = rest @ replicate n (CHR ''/'')" using a rest by simp
  have same: "authority_of (rest @ CHR ''/'' # path) = authority_of a" for path
    unfolding n authority_of_slash by (cases n) (simp_all add: authority_of_slash)
  have l: "length rest \<le> 2040" and r: "list_all url_byte rest" using v(2) n a bytes by simp_all
  show thesis
  proof (rule that [OF rest l r])
    show "CHR ''?'' \<notin> set base" using q n a rest by simp
    fix path :: string assume "list_all url_byte path" "length path \<le> 2000"
    then have "list_all url_byte (rest @ CHR ''/'' # path)" "length (rest @ CHR ''/'' # path) \<le> 4088"
      using r l by (simp_all add: url_byte_def byte_def)
    then have "validate_http_url (''https://'' @ rest @ CHR ''/'' # path) HttpsOnly = Ok ()"
      unfolding https_valid using same [of path] checked by (simp del: append.simps)
    then show "validate_http_url (base @ CHR ''/'' # path) HttpsOnly = Ok ()" unfolding rest append_assoc .
  qed
qed

section \<open>What is sent\<close>

text \<open>A request to the service at \<open>base\<close> that passes the checks of the HTTP client.\<close>

definition to_service :: "string \<Rightarrow> 'h client_body http_request \<Rightarrow> bool" where
  "to_service base q \<longleftrightarrow> sendable q \<and> (\<exists>path. http_url q = base @ ''/api/upload/'' @ path)"

lemma few_headers_valid:
  "list_all valid_header hs \<Longrightarrow> used + (\<Sum>h \<leftarrow> hs. length (header_name h) + length (header_value h) + 4) \<le> max_http_request_header_bytes \<Longrightarrow>
     validate_headers used hs = Ok ()"
  by (induction used hs rule: validate_headers.induct) (auto simp: Let_def)

lemma key_header:
  assumes "valid_donbot_api_key key"
  shows "valid_header (sensitive_header ''X-GW2-API-Key'' key)" and "length key \<le> 512"
proof -
  have "list_all (\<lambda>c. byte c = 9 \<or> (32 \<le> byte c \<and> byte c \<le> 126)) key"
    using assms by (auto simp: valid_donbot_api_key_def list_all_iff byte_class_defs)
  then show "valid_header (sensitive_header ''X-GW2-API-Key'' key)" "length key \<le> 512"
    using assms by (simp_all add: header_eval sensitive_header_def valid_donbot_api_key_def max_donbot_api_key_bytes_def)
qed

lemma json_type_valid: "valid_header (public_header ''Content-Type'' ''application/json'')"
  by (simp add: header_eval)

lemma tus_headers_valid:
  "valid_header (public_header ''Tus-Resumable'' ''1.0.0'')"
  "valid_header (public_header ''Upload-Offset'' ''0'')"
  "valid_header (public_header ''Content-Type'' ''application/offset+octet-stream'')"
  "valid_header (public_header ''Accept'' ''text/event-stream'')"
  by (simp_all add: header_eval)

lemma value_header_valid:
  assumes "list_all (\<lambda>c. 32 \<le> byte c \<and> byte c \<le> 126) v" and "length v \<le> 8192"
  shows "valid_header (public_header ''Upload-Length'' v)" and "valid_header (public_header ''Upload-Metadata'' v)"
proof -
  have "list_all (\<lambda>c. byte c = 9 \<or> (32 \<le> byte c \<and> byte c \<le> 126)) v" using assms(1) by (auto simp: list_all_iff)
  then show "valid_header (public_header ''Upload-Length'' v)" "valid_header (public_header ''Upload-Metadata'' v)"
    using assms(2) by (simp_all add: header_eval)
qed

lemma dec_string_word: "length (dec_string (unat (n :: u64))) \<le> 20 \<and> list_all is_digit (dec_string (unat n))"
proof -
  have "unat n < 2 ^ 64" using unsigned_less [of n, where 'a = nat] by simp
  then have "unat n < 10 ^ 20" by simp
  then show ?thesis using dec_string_length [of "unat n" 20] dec_string_digits by simp
qed

lemma metadata_text:
  assumes "canonical_discord_id (donbot_guild opts)" and "delivery_is_valid (donbot_route opts)"
  shows "list_all (\<lambda>c. 32 \<le> byte c \<and> byte c \<le> 126) (upload_metadata opts) \<and> length (upload_metadata opts) \<le> 300"
proof -
  have b: "list_all (\<lambda>c. 32 \<le> byte c \<and> byte c \<le> 126) (base64 v)" for v
    using base64_bytes [of v] by (auto simp: list_all_iff)
  have l: "length v \<le> 19 \<Longrightarrow> length (base64 v) \<le> 28" for v using base64_bytes [of v] by simp
  have id: "canonical_discord_id v \<Longrightarrow> length v \<le> 19" for v by (simp add: canonical_discord_id_def)
  have lits: "list_all (\<lambda>c. 32 \<le> byte c \<and> byte c \<le> 126) ''filename dXBsb2FkLnpldnRj,guildid ''"
    "list_all (\<lambda>c. 32 \<le> byte c \<and> byte c \<le> 126) '',wingman ZmFsc2U=''"
    "list_all (\<lambda>c. 32 \<le> byte c \<and> byte c \<le> 126) '',discorddelivery ''"
    "list_all (\<lambda>c. 32 \<le> byte c \<and> byte c \<le> 126) '',discordchannelid ''"
    by (simp_all add: byte_def)
  have g: "length (base64 (donbot_guild opts)) \<le> 28" using assms(1) id l by blast
  show ?thesis
  proof (cases "donbot_route opts")
    case NoDelivery
    then show ?thesis using b lits g by (simp add: upload_metadata_def delivery_wire_def)
  next
    case GuildDefaults
    then show ?thesis using b lits g l [of "''guild_defaults''"] by (simp add: upload_metadata_def delivery_wire_def)
  next
    case (ChannelOverride c)
    then have "length (base64 c) \<le> 28" using assms(2) id l by (simp add: delivery_is_valid_def)
    then show ?thesis using ChannelOverride b lits g l [of "''channel_override''"]
      by (simp add: upload_metadata_def delivery_wire_def)
  qed
qed

lemmas request_limits = max_http_header_count_def second_def max_http_response_header_bytes_def
  max_http_response_body_bytes_def max_http_request_header_bytes_def

lemma donbot_sendable:
  assumes "valid_donbot_api_key key" and "validate_http_url url HttpsOnly = Ok ()"
    and "http_headers q = public_header ''Accept'' ''application/json'' # sensitive_header ''X-GW2-API-Key'' key # hs"
    and "list_all valid_header hs" and "length hs \<le> 3"
    and "(\<Sum>h \<leftarrow> hs. length (header_name h) + length (header_value h) + 4) \<le> 1000"
    and "case http_body q of None \<Rightarrow> True | Some b \<Rightarrow> m \<noteq> HttpGet \<and>
      (\<exists>n. client_body_length b = Some n \<and> 1 \<le> n \<and> n \<le> max_http_request_body_bytes)"
    and "q = (donbot_request m url key)\<lparr>http_headers := http_headers q, http_body := http_body q\<rparr>"
  shows "sendable q"
proof -
  have "validate_headers 0 (http_headers q) = Ok ()"
    using assms(4,6) key_header [OF assms(1)] accept_json_valid unfolding assms(3)
    by (intro few_headers_valid) (simp_all add: public_header_def sensitive_header_def max_http_request_header_bytes_def)
  moreover have "length (http_headers q) \<le> max_http_header_count" using assms(3,5) by (simp add: max_http_header_count_def)
  moreover have "http_method q = m" "http_url q = url"
    "http_timeouts q = \<lparr>connect_timeout = 10 * second, operation_timeout = 900 * second, stalled_transfer = 900 * second\<rparr>"
    "http_response_limits q = \<lparr>max_header_bytes = max_http_response_header_bytes, max_body_bytes = 64 * 1024\<rparr>"
    by (subst assms(8), simp add: donbot_request_def new_http_request_def)+
  ultimately show ?thesis
    using assms(2,7) by (auto simp: validate_http_request_def Let_def request_limits split: option.splits)
qed

lemma resolve_location_below:
  "resolve_location create location = Some url \<Longrightarrow> \<exists>i. resource_id i \<and> url = create @ ''/'' @ i"
  by (auto simp: resolve_location_def Let_def split: option.splits if_splits prod.splits)

lemma created_upload_below:
  "created_upload create opts r = Ok (url, i) \<Longrightarrow> \<exists>i. resource_id i \<and> url = create @ ''/'' @ i"
  by (auto simp: created_upload_def Let_def split: if_splits dest!: resolve_location_below)

text \<open>A path below the base that consists of bytes of an address.\<close>

lemma service_path:
  assumes "normalize_donbot_api_base v = Some base" and "list_all url_byte path" and "length path \<le> 500"
  shows "validate_http_url (base @ ''/api/upload/'' @ path) HttpsOnly = Ok ()"
proof -
  from assms(1) obtain rest where "\<And>path. list_all url_byte path \<Longrightarrow> length path \<le> 2000 \<Longrightarrow>
      validate_http_url (base @ CHR ''/'' # path) HttpsOnly = Ok ()" by (rule normalized_base) blast
  from this [of "''api/upload/'' @ path"] show ?thesis using assms(2,3) by (simp add: url_byte_def byte_def)
qed

lemma checked_options_Ok:
  "checked_options opts key = Ok base \<longleftrightarrow>
     normalize_donbot_api_base (donbot_base opts) = Some base \<and> canonical_discord_id (donbot_guild opts) \<and>
     delivery_is_valid (donbot_route opts) \<and> valid_donbot_api_key key"
  by (auto simp: checked_options_def split: if_splits)

lemma create_request_sent:
  assumes "checked_options opts key = Ok base"
  shows "to_service base (create_request (base @ ''/api/upload/tus'') f opts key :: 'h client_body http_request)"
proof -
  let ?q = "create_request (base @ ''/api/upload/tus'') f opts key :: 'h client_body http_request"
  note ok = assms [unfolded checked_options_Ok]
  have url: "validate_http_url (base @ ''/api/upload/tus'') HttpsOnly = Ok ()"
    using service_path [of "donbot_base opts" base "''tus''"] ok by (simp add: url_byte_def byte_def)
  note m = metadata_text [of opts]
  have d: "list_all (\<lambda>c. 32 \<le> byte c \<and> byte c \<le> 126) (dec_string (unat (file_size f)))"
    using dec_string_word [of "file_size f"] by (auto simp: list_all_iff is_digit_def)
  have hs: "http_headers ?q = public_header ''Accept'' ''application/json'' # sensitive_header ''X-GW2-API-Key'' key #
      [public_header ''Tus-Resumable'' ''1.0.0'', public_header ''Upload-Length'' (dec_string (unat (file_size f))),
       public_header ''Upload-Metadata'' (upload_metadata opts)]"
    by (simp add: create_request_def donbot_request_def Let_def)
  have "sendable ?q"
  proof (rule donbot_sendable [where m = HttpPost, OF _ url hs])
    show "list_all valid_header [public_header ''Tus-Resumable'' ''1.0.0'', public_header ''Upload-Length''
        (dec_string (unat (file_size f))), public_header ''Upload-Metadata'' (upload_metadata opts)]"
      using tus_headers_valid(1) value_header_valid(1) [OF d] value_header_valid(2) m ok dec_string_word [of "file_size f"]
      by simp
  qed (use ok m dec_string_word [of "file_size f"] in \<open>simp_all add: public_header_def create_request_def donbot_request_def
      new_http_request_def Let_def\<close>)
  moreover have "http_url ?q = base @ ''/api/upload/'' @ ''tus''"
    by (simp add: create_request_def donbot_request_def new_http_request_def Let_def)
  ultimately show ?thesis unfolding to_service_def by blast
qed

lemma resource_id_url: "resource_id i \<Longrightarrow> list_all url_byte i \<and> length i \<le> 256"
  by (auto simp: resource_id_def list_all_iff url_byte_def byte_class_defs)

lemma send_request_sent:
  assumes "checked_options opts key = Ok base" and "created_upload (base @ ''/api/upload/tus'') opts r = Ok (url, i)"
    and "body_file b = f" and "\<not> (file_size f = 0 \<or> max_http_request_body_bytes < file_size f)"
  shows "to_service base (send_request url key b)"
proof -
  note ok = assms(1) [unfolded checked_options_Ok]
  from created_upload_below [OF assms(2)] obtain n where n: "resource_id n" "url = base @ ''/api/upload/'' @ (''tus/'' @ n)"
    by auto
  have valid: "validate_http_url url HttpsOnly = Ok ()"
    using service_path [of "donbot_base opts" base "''tus/'' @ n"] ok resource_id_url [OF n(1)]
    by (simp add: n(2) url_byte_def byte_def)
  have hs: "http_headers (send_request url key b) =
      public_header ''Accept'' ''application/json'' # sensitive_header ''X-GW2-API-Key'' key #
      [public_header ''Tus-Resumable'' ''1.0.0'', public_header ''Upload-Offset'' ''0'',
       public_header ''Content-Type'' ''application/offset+octet-stream'']"
    by (simp add: send_request_def donbot_request_def Let_def)
  have "1 \<le> file_size f"
    using assms(4) by (metis word_gt_0 word_le_nat_alt unat_1 unat_gt_0 Suc_leI One_nat_def)
  moreover have "file_size f \<le> max_http_request_body_bytes" using assms(4) by (simp add: not_less)
  ultimately have "sendable (send_request url key b)"
    using ok tus_headers_valid assms(3)
    by (intro donbot_sendable [where m = HttpPatch, OF _ valid hs])
       (simp_all add: public_header_def send_request_def donbot_request_def new_http_request_def Let_def)
  moreover have "http_url (send_request url key b) = base @ ''/api/upload/'' @ (''tus/'' @ n)"
    by (simp add: send_request_def donbot_request_def new_http_request_def Let_def n(2))
  ultimately show ?thesis unfolding to_service_def by blast
qed

lemma stream_request_sent:
  assumes "checked_options opts key = Ok base"
  shows "to_service base (stream_request base i key :: 'h client_body http_request)"
proof -
  let ?q = "stream_request base i key :: 'h client_body http_request"
  note ok = assms [unfolded checked_options_Ok]
  have "list_all url_byte (dec_string (unat i))"
    using dec_string_word [of i] by (auto simp: list_all_iff is_digit_def url_byte_def byte_def)
  then have "validate_http_url (base @ ''/api/upload/'' @ (''stream/'' @ dec_string (unat i))) HttpsOnly = Ok ()"
    using service_path [of "donbot_base opts" base "''stream/'' @ dec_string (unat i)"] ok dec_string_word [of i]
    by (simp add: url_byte_def byte_def)
  moreover have "http_headers ?q = [sensitive_header ''X-GW2-API-Key'' key, public_header ''Accept'' ''text/event-stream'']"
    by (simp add: stream_request_def donbot_request_def Let_def public_header_def sensitive_header_def)
  moreover have "validate_headers 0 [sensitive_header ''X-GW2-API-Key'' key, public_header ''Accept'' ''text/event-stream''] = Ok ()"
    using key_header [of key] tus_headers_valid(4) ok
    by (intro few_headers_valid) (simp_all add: public_header_def sensitive_header_def max_http_request_header_bytes_def)
  ultimately have "sendable ?q" and "http_url ?q = base @ ''/api/upload/'' @ (''stream/'' @ dec_string (unat i))"
    by (simp_all add: validate_http_request_def Let_def request_limits stream_request_def donbot_request_def new_http_request_def)
  then show ?thesis unfolding to_service_def by blast
qed

lemma json_request_sent:
  fixes E :: "('h, 'w) client_env"
  assumes "checked_options opts key = Ok base" and "donbot_json_request E (base @ ''/api/upload/'' @ path) key body = Ok q"
    and "list_all url_byte path" and "length path \<le> 100" and "\<And>v. client_print E v \<noteq> Some []"
  shows "to_service base q"
proof -
  note ok = assms(1) [unfolded checked_options_Ok]
  let ?url = "base @ ''/api/upload/'' @ path"
  from assms(2) obtain bytes b where b: "client_print E body = Some bytes" "new_memory_body bytes = Ok b"
    and q: "q = (donbot_request HttpPost ?url key)\<lparr>http_headers := http_headers (donbot_request HttpPost ?url key
        :: 'h client_body http_request) @ [public_header ''Content-Type'' ''application/json''], http_body := Some (PlainBody b)\<rparr>"
    by (auto simp: donbot_json_request_def Let_def)
  have "bytes \<noteq> []" using b(1) assms(5) by auto
  moreover have "length bytes \<le> unat max_http_request_body_bytes" and mb: "memory_bytes b = bytes"
    using b(2) by (auto simp: new_memory_body_def split: if_splits)
  ultimately have len: "1 \<le> memory_length b \<and> memory_length b \<le> max_http_request_body_bytes"
    by (simp add: memory_length_def word_le_nat_alt unat_of_nat unat_max_body Suc_le_eq)
  have url: "validate_http_url ?url HttpsOnly = Ok ()"
    using service_path [of "donbot_base opts" base path] ok assms(3,4) by simp
  have hs: "http_headers q = public_header ''Accept'' ''application/json'' # sensitive_header ''X-GW2-API-Key'' key #
      [public_header ''Content-Type'' ''application/json'']"
    by (simp add: q donbot_request_def)
  have "sendable q"
    using ok json_type_valid len
    by (intro donbot_sendable [where m = HttpPost, OF _ url hs])
       (simp_all add: public_header_def q donbot_request_def new_http_request_def)
  moreover have "http_url q = ?url" by (simp add: q donbot_request_def new_http_request_def)
  ultimately show ?thesis unfolding to_service_def by blast
qed

lemma new_file_body_file: "new_file_body D f w = (Ok b, w') \<Longrightarrow> body_file b = f"
  by (auto simp: new_file_body_def split: prod.splits option.splits sum.splits if_splits)

text \<open>A request of a client with these options: it goes to the normalized base, which the key is meant for.\<close>

definition donbot_request_ok :: "donbot_options \<Rightarrow> 'h client_body http_request \<Rightarrow> bool" where
  "donbot_request_ok opts q \<longleftrightarrow> (\<exists>base. normalize_donbot_api_base (donbot_base opts) = Some base \<and> to_service base q)"

lemma donbot_request_okI: "checked_options opts key = Ok base \<Longrightarrow> to_service base q \<Longrightarrow> donbot_request_ok opts q"
  by (auto simp: donbot_request_ok_def checked_options_Ok)

context recording_client
begin

lemma keeps_opened: "satisfies (all_sent P) (\<lambda>r. \<forall>b. r = Ok b \<longrightarrow> body_file b = f) (ask (new_file_body (client_disk E) f))"
  using keeps_file [of P f] new_file_body_file unfolding satisfies_def ask_def by (fastforce split: prod.splits)

lemma donbot_execute_sends: "P q \<Longrightarrow> satisfies (all_sent P) (\<lambda>_. True) (donbot_execute E q)"
  unfolding donbot_execute_def
  by (intro keeps_unless_stopped satisfies_andthen [OF keeps_execute] satisfies_give TrueI)

lemma donbot_validate_sends:
  "satisfies (all_sent P) (\<lambda>r. \<forall>base. r = Ok base \<longrightarrow> checked_options opts key = Ok base) (donbot_validate E opts key)"
  unfolding donbot_validate_def by (rule keeps_unless_stopped) (auto intro: satisfies_give)

lemma wait_for_processing_sends:
  "checked_options opts key = Ok base \<Longrightarrow>
     satisfies (all_sent (donbot_request_ok opts)) (\<lambda>_. True) (wait_for_processing E base i key requested)"
  unfolding wait_for_processing_def
  by (intro satisfies_andthen [OF donbot_execute_sends] satisfies_give TrueI donbot_request_okI [OF _ stream_request_sent])

lemma donbot_upload_sends: "satisfies (all_sent (donbot_request_ok opts)) (\<lambda>_. True) (donbot_upload_inner E f opts key)"
  unfolding donbot_upload_inner_def Let_def
proof (rule satisfies_try_then [OF donbot_validate_sends], simp, rule satisfies_if, rule satisfies_give, simp)
  fix base
  assume base: "\<forall>b. Ok base = Ok b \<longrightarrow> checked_options opts key = Ok b"
    and size: "\<not> (file_size f = 0 \<or> max_http_request_body_bytes < file_size f)"
  from base have c: "checked_options opts key = Ok base" by simp
  show "satisfies (all_sent (donbot_request_ok opts)) (\<lambda>_. True)
      (try_then (donbot_execute E (create_request (base @ ''/api/upload/tus'') f opts key)) (\<lambda>created.
       unless_err (created_upload (base @ ''/api/upload/tus'') opts created) (\<lambda>(url, i).
       unless_stopped E donbot_cancelled
         (andthen (ask (new_file_body (client_disk E) f)) (\<lambda>opened.
          unless_err (map_err (\<lambda>_. donbot_failed DonbotFileUnavailable) opened) (\<lambda>b.
          andthen (donbot_execute E (send_request url key b)) (\<lambda>patched.
          unless_err (sent_upload f patched) (\<lambda>_.
          try_then (case i of None \<Rightarrow> give (Ok nothing_completed)
            | Some n \<Rightarrow> wait_for_processing E base n key (delivery_requested (donbot_route opts))) (\<lambda>c.
            give (Ok \<lparr>done_upload_id = i, done_fight_id = completed_fight c, done_delivery = completed_delivery c\<rparr>))))))))))"
  proof (rule satisfies_try_then [OF donbot_execute_sends], rule donbot_request_okI [OF c create_request_sent [OF c]], simp,
      rule satisfies_unless_err, simp, clarify)
    fix created url i
    assume made: "created_upload (base @ ''/api/upload/tus'') opts created = Ok (url, i)"
    have send: "donbot_request_ok opts (send_request url key b)" if "body_file b = f" for b
      by (rule donbot_request_okI [OF c send_request_sent [OF c made that size]])
    show "satisfies (all_sent (donbot_request_ok opts)) (\<lambda>_. True)
       (unless_stopped E donbot_cancelled
         (andthen (ask (new_file_body (client_disk E) f)) (\<lambda>opened.
          unless_err (map_err (\<lambda>_. donbot_failed DonbotFileUnavailable) opened) (\<lambda>b.
          andthen (donbot_execute E (send_request url key b)) (\<lambda>patched.
          unless_err (sent_upload f patched) (\<lambda>_.
          try_then (case i of None \<Rightarrow> give (Ok nothing_completed)
            | Some n \<Rightarrow> wait_for_processing E base n key (delivery_requested (donbot_route opts))) (\<lambda>c.
            give (Ok \<lparr>done_upload_id = i, done_fight_id = completed_fight c, done_delivery = completed_delivery c\<rparr>))))))))"
      using c
      by (auto intro!: keeps_unless_stopped satisfies_andthen [OF keeps_opened] satisfies_unless_err
          satisfies_andthen [OF donbot_execute_sends] send satisfies_try_then [where R = "\<lambda>_. True"] satisfies_give
          wait_for_processing_sends split: option.splits)
  qed
qed

lemma import_completed_sends:
  "checked_options opts key = Ok base \<Longrightarrow>
     satisfies (all_sent (donbot_request_ok opts)) (\<lambda>_. True) (import_completed E base key requested status p)"
  unfolding import_completed_def
  by (intro satisfies_if satisfies_give satisfies_unless_err wait_for_processing_sends TrueI) assumption

lemma donbot_import_sends:
  assumes "\<And>v. client_print E v \<noteq> Some []"
  shows "satisfies (all_sent (donbot_request_ok opts)) (\<lambda>_. True) (donbot_import_inner E link opts key)"
proof -
  have sent: "donbot_request_ok opts q" if "checked_options opts key = Ok base"
      "donbot_json_request E (base @ ''/api/upload/gw2/url'') key body = Ok q" for base body q
    using that(2) json_request_sent [OF that(1), of E "''gw2/url''" body q] assms
    by (intro donbot_request_okI [OF that(1)]) (simp add: url_byte_def byte_def)
  show ?thesis
    unfolding donbot_import_inner_def
    by (auto intro!: satisfies_try_then [OF donbot_validate_sends] satisfies_if satisfies_give satisfies_unless_err
        satisfies_try_then [OF donbot_execute_sends] sent satisfies_try_then [OF import_completed_sends])
qed

lemma donbot_aggregate_sends:
  assumes "\<And>v. client_print E v \<noteq> Some []"
  shows "satisfies (all_sent (donbot_request_ok opts)) (\<lambda>_. True) (donbot_aggregate_inner E ids opts key)"
proof -
  have sent: "donbot_request_ok opts q" if "checked_options opts key = Ok base"
      "donbot_json_request E (base @ ''/api/upload/gw2/aggregate'') key body = Ok q" for base body q
    using that(2) json_request_sent [OF that(1), of E "''gw2/aggregate''" body q] assms
    by (intro donbot_request_okI [OF that(1)]) (simp add: url_byte_def byte_def)
  show ?thesis
    unfolding donbot_aggregate_inner_def
    by (auto intro!: satisfies_try_then [OF donbot_validate_sends] satisfies_if satisfies_give satisfies_unless_err
        satisfies_try_then [OF donbot_execute_sends] sent)
qed

end

end
