(* ===== verification/Donbot_Worker.thy ===== *)
theory Donbot_Worker
  imports Donbot_Client Dps_Report
begin

text \<open>
  The DonBot destination (\<open>rust/src/providers/donbot/upload_worker.rs\<close>): the worker that loads the key,
  uploads the log or imports its report, and checks the result before it becomes a receipt.
\<close>

section \<open>The attempt\<close>

definition load_key :: "'w shared_secrets option \<Rightarrow> ('w, (upload_failure, string) result) step" where
  "load_key S =
     (case S of
        None \<Rightarrow> give (Err DonBotKeyMissing)
      | Some x \<Rightarrow> andthen (ask (secrets_lock x)) (\<lambda>locked.
          if \<not> locked then give (Err CredentialLoadFailed)
          else andthen (ask (port_load_secret (secrets_behind x) DonBotGw2ApiKey)) (\<lambda>r. give
            (map_err (\<lambda>e. if secret_code e = SecretNotFound then DonBotKeyMissing else CredentialLoadFailed) r))))"

definition normalize_options :: "donbot_options \<Rightarrow> donbot_options option" where
  "normalize_options opts =
     (if \<not> delivery_is_valid (donbot_route opts) \<or>
        (if donbot_guild opts = [] then delivery_requested (donbot_route opts)
         else \<not> canonical_discord_id (donbot_guild opts))
      then None
      else map_option (\<lambda>base. opts\<lparr>donbot_base := base\<rparr>) (normalize_donbot_api_base (donbot_base opts)))"

datatype donbot_worker_error = DonbotConfiguration | DonbotWorker worker_error

record captured_donbot =
  donbot_captured :: upload_request
  donbot_captured_options :: donbot_options

definition donbot_error_outcome :: "donbot_error \<Rightarrow> upload_outcome" where
  "donbot_error_outcome e =
     (case donbot_disposition e of
        DonbotCancelled \<Rightarrow> OutCancelled
      | DonbotRetry \<Rightarrow> OutRetryAfter (bounded_delay (donbot_retry_after e))
      | DonbotFailed \<Rightarrow>
          (case donbot_code e of
             DonbotUnconfirmedUpload \<Rightarrow> OutFailedWithNotice UnconfirmedUpload
           | DonbotUnconfirmedDelivery \<Rightarrow> OutFailedWithNotice UnconfirmedDelivery
           | DonbotInvalidKey \<Rightarrow> OutFailedWithNotice DonBotKeyMissing
           | _ \<Rightarrow> OutFailed))"

definition donbot_success_valid :: "donbot_options \<Rightarrow> donbot_success \<Rightarrow> bool" where
  "donbot_success_valid opts s \<longleftrightarrow>
     \<not> ((case done_upload_id s of None \<Rightarrow> False | Some i \<Rightarrow> \<not> positive_id i) \<or>
        (case done_fight_id s of None \<Rightarrow> False | Some i \<Rightarrow> \<not> positive_id i) \<or>
        \<not> is_valid_with_limit (done_delivery s) 4 \<or>
        delivery_requested (donbot_route opts) \<noteq> (outcome (done_delivery s) \<noteq> NotRequested))"

definition donbot_notice :: "bool \<Rightarrow> donbot_success \<Rightarrow> upload_notice option" where
  "donbot_notice from_report s =
     (case outcome (done_delivery s) of
        DiscordSent \<Rightarrow> Some NoticeDiscordSent
      | Partial \<Rightarrow> Some NoticeDiscordPartial
      | DiscordSkipped \<Rightarrow> Some NoticeDiscordSkipped
      | DiscordFailed \<Rightarrow> Some NoticeDiscordFailed
      | DiscordAmbiguous \<Rightarrow> Some NoticeDiscordAmbiguous
      | NotRequested \<Rightarrow> if from_report \<and> done_fight_id s = None then Some NoticeQueued else None)"

definition donbot_outcome :: "captured_donbot \<Rightarrow> donbot_success donbot_result \<Rightarrow> upload_outcome" where
  "donbot_outcome q result =
     (case result of
        Err e \<Rightarrow> donbot_error_outcome e
      | Ok s \<Rightarrow>
          if \<not> donbot_success_valid (donbot_captured_options q) s then OutFailed
          else let receipt = \<lparr>upload_id = done_upload_id s, fight_log_id = done_fight_id s,
                 discord_delivery = done_delivery s, guild_id = Some (donbot_guild (donbot_captured_options q))\<rparr>;
               done = DonBotDone (Some receipt)
          in case donbot_notice (request_report (donbot_captured q) \<noteq> None) s of
               Some n \<Rightarrow> OutSucceededWithNotice done n
             | None \<Rightarrow> OutSucceeded done)"

definition donbot_process ::
  "('h, 'w) client_env \<Rightarrow> 'w shared_secrets option \<Rightarrow> captured_donbot \<Rightarrow> ('w, upload_outcome) step" where
  "donbot_process E S q =
     (let checked = (\<lambda>k. andthen (ask (client_stopped E)) (\<lambda>b. if b then give OutCancelled else k));
          opts = donbot_captured_options q
      in checked (andthen (load_key S) (\<lambda>loaded.
           case loaded of
             Err reason \<Rightarrow> give (OutFailedWithNotice reason)
           | Ok key \<Rightarrow> checked
               (andthen (ask (case request_report (donbot_captured q) of
                    Some report \<Rightarrow> donbot_import_link E (permalink report) opts key
                  | None \<Rightarrow> donbot_upload E (request_file (donbot_captured q)) opts key)) (\<lambda>result.
                checked (give (donbot_outcome q result)))))))"

section \<open>The worker\<close>

definition donbot_result_of :: "captured_donbot \<Rightarrow> upload_outcome \<Rightarrow> upload_result" where
  "donbot_result_of q x =
     \<lparr>result_job_id = request_job_id (donbot_captured q), result_provider = DonBot,
      result_attempt = request_attempt (donbot_captured q), result_outcome = x\<rparr>"

definition donbot_worker_failed :: "captured_donbot \<Rightarrow> upload_result" where
  "donbot_worker_failed q = donbot_result_of q OutFailed"

record donbot_worker =
  donbot_pool :: "(captured_donbot, upload_result) pool"
  donbot_config :: donbot_options

definition new_donbot_worker ::
  "(nat \<Rightarrow> bool) \<Rightarrow> (nat \<Rightarrow> bool) \<Rightarrow> donbot_options \<Rightarrow> worker_options \<Rightarrow> (donbot_worker_error, donbot_worker) result" where
  "new_donbot_worker alloc starts opts w =
     and_then (ok_or DonbotConfiguration (normalize_options opts)) (\<lambda>opts.
     and_then (map_err DonbotWorker (new_pool alloc starts w)) (\<lambda>p.
       Ok \<lparr>donbot_pool = p, donbot_config = opts\<rparr>))"

definition update_donbot_config ::
  "donbot_options \<Rightarrow> donbot_worker \<Rightarrow> (donbot_worker_error, unit) result \<times> donbot_worker" where
  "update_donbot_config opts w =
     (case normalize_options opts of None \<Rightarrow> (Err DonbotConfiguration, w) | Some o2 \<Rightarrow> (Ok (), w\<lparr>donbot_config := o2\<rparr>))"

definition donbot_configure ::
  "(nat \<Rightarrow> bool) \<Rightarrow> provider_configuration \<Rightarrow> donbot_worker \<Rightarrow> (provider_configuration_error, unit) result \<times> donbot_worker" where
  "donbot_configure starts conf w =
     (case policy conf of
        DonBotPolicy base guild route \<Rightarrow>
          (case normalize_options \<lparr>donbot_base = base, donbot_guild = guild, donbot_route = route\<rparr> of
             None \<Rightarrow> (Err ConfigInvalid, w)
           | Some opts \<Rightarrow>
               (case resize starts (provider_configuration.parallelism conf) (donbot_pool w) of
                  (Err e, p) \<Rightarrow> (Err (worker_configuration_error e), w\<lparr>donbot_pool := p\<rparr>)
                | (Ok _, p) \<Rightarrow> (Ok (), w\<lparr>donbot_pool := p, donbot_config := opts\<rparr>)))
      | _ \<Rightarrow> (Err ConfigInvalid, w))"

definition donbot_admits :: "donbot_worker \<Rightarrow> upload_request \<Rightarrow> bool" where
  "donbot_admits w q \<longleftrightarrow>
     \<not> (request_provider q \<noteq> DonBot \<or> request_attempt q = 0 \<or> canonical_path (request_file q) = [] \<or>
        donbot_guild (donbot_config w) = [] \<or> request_intent q = Rechat)"

definition captured_for :: "donbot_worker \<Rightarrow> upload_request \<Rightarrow> captured_donbot" where
  "captured_for w q =
     \<lparr>donbot_captured = q,
      donbot_captured_options =
        (if is_user_initiated (request_intent q) then (donbot_config w)\<lparr>donbot_route := NoDelivery\<rparr> else donbot_config w)\<rparr>"

definition donbot_enqueue :: "upload_request \<Rightarrow> donbot_worker \<Rightarrow> (provider_error, unit) result \<times> donbot_worker" where
  "donbot_enqueue q w =
     (if \<not> donbot_admits w q then (Err InvalidRequest, w)
      else case enqueue (captured_for w q) (donbot_pool w) of
        (r, p) \<Rightarrow> (map_err queue_provider_error r, w\<lparr>donbot_pool := p\<rparr>))"

definition donbot_take :: "donbot_worker \<Rightarrow> (provider_error, upload_result option) result \<times> donbot_worker" where
  "donbot_take w = (case try_take_result (donbot_pool w) of (r, p) \<Rightarrow> (Ok r, w\<lparr>donbot_pool := p\<rparr>))"

definition donbot_cancel :: "donbot_worker \<Rightarrow> donbot_worker" where
  "donbot_cancel w = w\<lparr>donbot_pool := cancel_pending (donbot_pool w)\<rparr>"

interpretation donbot_uploads: answering donbot_worker_failed "\<lambda>q x. map_option (donbot_result_of q) x"
    "\<lambda>q. (request_job_id (donbot_captured q), DonBot, request_attempt (donbot_captured q))" result_key
proof
  fix q and x :: "upload_outcome option"
  show "result_key (attempt_output donbot_worker_failed q (map_option (donbot_result_of q) x)) =
      (request_job_id (donbot_captured q), DonBot, request_attempt (donbot_captured q))"
    by (cases x) (simp_all add: result_key_def attempt_output_def donbot_worker_failed_def donbot_result_of_def)
qed

section \<open>What is sent\<close>

text \<open>
  C10: The DonBot key and the log only go to the configured service. For any log, report, list of fights,
  options and key, and whatever the network, the file system and the service answer (the location of the
  created upload included), every request of an upload, an import or an aggregate delivery has an
  address below the normalized base of the options, and passes the checks of the HTTP client. The JSON
  serializer is assumed to write at least one byte.
\<close>

theorem donbot_key_stays_with_service:
  assumes "\<And>v. client_print E v \<noteq> Some []"
  shows "list_all (donbot_request_ok opts) (snd (snd (donbot_upload (logged_client E) f opts key (w, [])))) \<and>
    list_all (donbot_request_ok opts) (snd (snd (donbot_import_link (logged_client E) link opts key (w, [])))) \<and>
    list_all (donbot_request_ok opts) (snd (snd (donbot_aggregate (logged_client E) ids opts key (w, []))))"
proof -
  have p: "\<And>v. client_print (logged_client E) v \<noteq> Some []" using assms by (simp add: logged_client_def)
  have lift: "list_all P (snd (snd (panic_as d g (w, []))))"
    if "satisfies (\<lambda>s. list_all P (snd s)) (\<lambda>_. True) g" for P d and g :: "('b \<times> 'a client_body http_request list, 'c) step"
  proof -
    obtain r s where g: "panic_as d g (w, []) = (r, s)" by (meson surj_pair)
    from panic_as_satisfies [OF that g] show ?thesis by (simp add: g)
  qed
  have lift2: "list_all P (snd (snd (panic_as d g (w, []))))"
    if "satisfies (\<lambda>s. list_all P (snd s)) (\<lambda>_. True) g" for P d and g :: "('b \<times> 'a client_body http_request list, 'd) step"
  proof -
    obtain r s where g: "panic_as d g (w, []) = (r, s)" by (meson surj_pair)
    from panic_as_satisfies [OF that g] show ?thesis by (simp add: g)
  qed
  show ?thesis
    unfolding donbot_upload_def donbot_import_link_def donbot_aggregate_def
    by (intro conjI lift lift2 logged_client.donbot_upload_sends logged_client.donbot_import_sends [OF p]
        logged_client.donbot_aggregate_sends [OF p])
qed

theorem donbot_key_stays_with_service_witness:
  "list_all (donbot_request_ok \<lparr>donbot_base = ''https://a.b/'', donbot_guild = ''1'', donbot_route = NoDelivery\<rparr>)
     (snd (snd (donbot_upload (logged_client sample_client) Http_Body.sample_file
       \<lparr>donbot_base = ''https://a.b/'', donbot_guild = ''1'', donbot_route = NoDelivery\<rparr> ''k'' (0, []))))"
  by (rule donbot_key_stays_with_service [THEN conjunct1]) (simp add: sample_client_def)

section \<open>Outcomes\<close>

definition donbot_success_ok :: "donbot_options \<Rightarrow> donbot_success donbot_result \<Rightarrow> bool" where
  "donbot_success_ok opts r \<longleftrightarrow> is_ok r \<longrightarrow> canonical_discord_id (donbot_guild opts)"

lemma donbot_validate_gives:
  "satisfies any (\<lambda>r. is_ok r \<longrightarrow> canonical_discord_id (donbot_guild opts)) (donbot_validate E opts key)"
  unfolding donbot_validate_def unless_stopped_def
  by (rule satisfies_andthen [OF any_ask]) (auto intro!: satisfies_give simp: is_ok_iff checked_options_Ok)

text \<open>What follows the validation does not matter for it.\<close>

lemma validated_gives:
  "satisfies any (donbot_success_ok opts) (try_then (donbot_validate E opts key) g)"
proof -
  have e: "donbot_success_ok opts (Err e)" for e by (simp add: donbot_success_ok_def)
  have c: "canonical_discord_id (donbot_guild opts) \<Longrightarrow> satisfies any (donbot_success_ok opts) (g b)" for b
    by (simp add: satisfies_def donbot_success_ok_def)
  show ?thesis by (rule satisfies_try_then [OF donbot_validate_gives]) (simp_all add: e c)
qed

lemma donbot_calls_give:
  "donbot_upload E f opts key w = (r, w') \<Longrightarrow> donbot_success_ok opts r"
  "donbot_import_link E link opts key w = (r, w') \<Longrightarrow> donbot_success_ok opts r"
proof -
  have e: "donbot_success_ok opts (Err e)" for e by (simp add: donbot_success_ok_def)
  show "donbot_upload E f opts key w = (r, w') \<Longrightarrow> donbot_success_ok opts r"
    unfolding donbot_upload_def donbot_upload_inner_def by (drule panic_as_satisfies [OF validated_gives _ TrueI e]) simp
  show "donbot_import_link E link opts key w = (r, w') \<Longrightarrow> donbot_success_ok opts r"
    unfolding donbot_import_link_def donbot_import_inner_def by (drule panic_as_satisfies [OF validated_gives _ TrueI e]) simp
qed

definition donbot_outcome_ok :: "upload_outcome \<Rightarrow> bool" where
  "donbot_outcome_ok x = (case x of
      OutSucceeded (DonBotDone r) \<Rightarrow> pred_option donbot_is_valid r
    | OutSucceededWithNotice (DonBotDone r) _ \<Rightarrow> pred_option donbot_is_valid r
    | OutRetryAfter d \<Rightarrow> 0 < d \<and> d \<le> 86400 * second
    | OutFailed \<Rightarrow> True | OutFailedWithNotice _ \<Rightarrow> True | OutCancelled \<Rightarrow> True | _ \<Rightarrow> False)"

lemma donbot_error_ok: "donbot_outcome_ok (donbot_error_outcome e)"
  using bounded_delay_bound
  by (simp add: donbot_outcome_ok_def donbot_error_outcome_def split: donbot_disposition.splits donbot_error_code.splits)

lemma positive_id_unat: "positive_id i \<Longrightarrow> i \<noteq> 0 \<and> unat i \<le> 2 ^ 63 - 1"
  by (auto simp: positive_id_def word_le_nat_alt)

lemma donbot_outcome_gives:
  assumes "donbot_success_ok (donbot_captured_options q) r"
  shows "donbot_outcome_ok (donbot_outcome q r)"
proof (cases r)
  case (Inl e)
  then show ?thesis using donbot_error_ok by (simp add: donbot_outcome_def)
next
  case (Inr s)
  then have g: "canonical_discord_id (donbot_guild (donbot_captured_options q))" using assms by (simp add: donbot_success_ok_def)
  show ?thesis
  proof (cases "donbot_success_valid (donbot_captured_options q) s")
    case True
    then have "donbot_is_valid \<lparr>upload_id = done_upload_id s, fight_log_id = done_fight_id s,
        discord_delivery = done_delivery s, guild_id = Some (donbot_guild (donbot_captured_options q))\<rparr>"
      using g positive_id_unat
      by (auto simp: donbot_is_valid_def discord_is_valid_def donbot_success_valid_def positive_id_def split: option.splits)
    then show ?thesis using Inr True
      by (auto simp: donbot_outcome_def donbot_outcome_ok_def Let_def split: option.splits)
  qed (simp add: Inr donbot_outcome_def donbot_outcome_ok_def)
qed

lemma load_key_gives: "satisfies any (\<lambda>_. True) (load_key S)"
  by (simp add: satisfies_def)

lemma donbot_process_gives: "satisfies any donbot_outcome_ok (donbot_process E S q)"
proof -
  have c: "donbot_outcome_ok OutCancelled" "donbot_outcome_ok (OutFailedWithNotice n)" for n by (simp_all add: donbot_outcome_ok_def)
  have attempt: "satisfies any (donbot_success_ok (donbot_captured_options q))
      (ask (case request_report (donbot_captured q) of
            Some report \<Rightarrow> donbot_import_link E (permalink report) (donbot_captured_options q) key
          | None \<Rightarrow> donbot_upload E (request_file (donbot_captured q)) (donbot_captured_options q) key))" for key
    by (auto simp: satisfies_def ask_def dest: donbot_calls_give split: prod.splits option.splits)
  show ?thesis
    unfolding donbot_process_def Let_def
    by (rule satisfies_andthen [OF any_ask], rule satisfies_if, rule satisfies_give, rule c(1),
        rule satisfies_andthen [OF load_key_gives])
       (auto intro!: satisfies_give satisfies_andthen [OF any_ask] satisfies_andthen [OF attempt] c donbot_outcome_gives
         split: sum.splits)
qed

end
