(* ===== verification/Twitch_Chat.thy ===== *)
theory Twitch_Chat
  imports Twitch_Recovery Dps_Report
begin

text \<open>
  Posting to Twitch chat (\<open>rust/src/providers/twitch/chat_delivery.rs\<close>, \<open>chat_worker.rs\<close>): one delivery
  with a recovery of the session, the ledger of what was posted, and the worker of the destination. The
  API client and the access to the session are trait objects: functions over a world that may panic.
\<close>

section \<open>One delivery\<close>

record 'w chat_env =
  chat_stopped :: "'w stop_poll"
  chat_acquire :: "'w \<Rightarrow> twitch_delivery_session leased option \<times> 'w"
  chat_recover :: "twitch_delivery_session \<Rightarrow> 'w \<Rightarrow> twitch_delivery_session leased option \<times> 'w"
  chat_post :: "string \<Rightarrow> string \<Rightarrow> string \<Rightarrow> 'w \<Rightarrow> (twitch_error, twitch_delivery_receipt) result option \<times> 'w"

definition valid_lease :: "twitch_delivery_session \<Rightarrow> bool" where
  "valid_lease l \<longleftrightarrow> lease_revision l \<noteq> 0 \<and> valid_twitch_user_id (lease_user_id l) \<and> valid_twitch_token (lease_token l)"

definition retry_delay :: "duration option \<Rightarrow> duration" where
  "retry_delay d = (case d of None \<Rightarrow> 30 * second | Some n \<Rightarrow> if n \<noteq> 0 \<and> n \<le> 86400 * second then n else 30 * second)"

definition session_failure :: "delivery_session_error \<Rightarrow> twitch_chat_result" where
  "session_failure e =
     (case lease_code e of
        LeaseRetry \<Rightarrow> ChatRetryAfter (retry_delay (lease_retry_after e))
      | LeaseCancelled \<Rightarrow> ChatCancelled
      | LeaseNotConnected \<Rightarrow> ChatFailed NotConnected
      | LeaseReconnect \<Rightarrow> ChatFailed ReconnectRequired
      | LeaseFailed \<Rightarrow> ChatFailed SessionFailed)"

definition send_failure :: "twitch_error \<Rightarrow> twitch_chat_result" where
  "send_failure e =
     (let safe_connection = twitch_code e = TransportFailed \<and>
            twitch_http_error e \<in> {Some NameResolutionFailed, Some ConnectionFailed, Some TlsFailed};
          rate_limited = twitch_code e = HttpStatusFailed \<and> twitch_http_status e = Some 429
      in if disposition e = DisposeRetry \<and> (safe_connection \<or> rate_limited)
         then ChatRetryAfter (retry_delay (twitch_retry_after e))
         else if twitch_code e = HttpStatusFailed \<and>
           (case twitch_http_status e of None \<Rightarrow> False | Some s \<Rightarrow> 400 \<le> s \<and> s < 500 \<and> s \<noteq> 408)
         then ChatFailed SendFailed
         else ChatAmbiguous)"

definition unauthorized :: "twitch_error \<Rightarrow> bool" where
  "unauthorized e \<longleftrightarrow> twitch_code e = HttpStatusFailed \<and> twitch_http_status e = Some 401"

definition chat_message_ok :: "string \<Rightarrow> bool" where
  "chat_message_ok m \<longleftrightarrow> \<not> (m = [] \<or> 2000 < length m \<or> 500 < char_count m \<or> list_ex is_control m)"

text \<open>The loop over the attempts; the panic after the last one would be the \<open>unreachable!\<close> of the code.\<close>

fun send_attempts ::
  "'w chat_env \<Rightarrow> string \<Rightarrow> string \<Rightarrow> u64 \<Rightarrow> nat \<Rightarrow> twitch_delivery_session \<Rightarrow> ('w, twitch_chat_result) step" where
  "send_attempts E message broadcaster since 0 lease = (\<lambda>w. (None, w))"
| "send_attempts E message broadcaster since (Suc n) lease =
     andthen (ask (chat_stopped E)) (\<lambda>before.
       if before then give ChatCancelled
       else andthen (ask (chat_post E (lease_user_id lease) message (lease_token lease))) (\<lambda>posted.
         andthen (ask (chat_stopped E)) (\<lambda>after.
           if after then give ChatAmbiguous
           else case posted of
             None \<Rightarrow> give ChatAmbiguous
           | Some (Ok receipt) \<Rightarrow> give
               (if \<not> twitch_is_valid receipt then ChatAmbiguous
                else if delivery_status receipt = TwitchSent then ChatSent receipt else ChatDropped receipt)
           | Some (Err e) \<Rightarrow>
               if \<not> unauthorized e then give (send_failure e)
               else if n = 0 then give (ChatFailed ReconnectRequired)
               else andthen (ask (chat_recover E lease)) (\<lambda>recovered. case recovered of
                   None \<Rightarrow> give (ChatFailed SessionFailed)
                 | Some (Err x) \<Rightarrow> give (session_failure x)
                 | Some (Ok l) \<Rightarrow>
                     if \<not> valid_lease l \<or> lease_user_id l \<noteq> broadcaster \<or> lease_revision l < since
                     then give (ChatFailed ReconnectRequired)
                     else send_attempts E message broadcaster since n l))))"

definition chat_send :: "'w chat_env \<Rightarrow> string \<Rightarrow> ('w, twitch_chat_result) step" where
  "chat_send E message =
     andthen (ask (chat_stopped E)) (\<lambda>stopped.
       if stopped then give ChatCancelled
       else if \<not> chat_message_ok message then give (ChatFailed InvalidMessage)
       else andthen (ask (chat_acquire E)) (\<lambda>acquired. case acquired of
           None \<Rightarrow> give (ChatFailed SessionFailed)
         | Some (Err x) \<Rightarrow> give (session_failure x)
         | Some (Ok lease) \<Rightarrow>
             if \<not> valid_lease lease then give (ChatFailed SessionFailed)
             else send_attempts E message (lease_user_id lease) (lease_revision lease) 2 lease))"

section \<open>The ledger\<close>

type_synonym chat_key = "job_id \<times> string"

datatype chat_entry = EntrySent twitch_delivery_receipt | EntryAmbiguous

record ledger =
  settled_posts :: "(chat_key \<times> chat_entry) list"
  active_posts :: "chat_key set"

definition new_ledger :: ledger where
  "new_ledger = \<lparr>settled_posts = [], active_posts = {}\<rparr>"

fun entry_outcome :: "chat_entry \<Rightarrow> upload_outcome" where
  "entry_outcome (EntrySent r) = OutSucceeded (TwitchDone r)"
| "entry_outcome EntryAmbiguous = OutAmbiguous"

text \<open>The outcome that a key already has, or \<open>None\<close> when the caller may post.\<close>

definition claim_post :: "chat_key \<Rightarrow> bool \<Rightarrow> ledger \<Rightarrow> upload_outcome option \<times> ledger" where
  "claim_post k manual L =
     (if k \<in> active_posts L then (Some (OutRetryAfter (30 * second)), L)
      else case (if manual then None else map_of (settled_posts L) k) of
        Some entry \<Rightarrow> (Some (entry_outcome entry), L)
      | None \<Rightarrow> (None, L\<lparr>active_posts := insert k (active_posts L)\<rparr>))"

fun entry_of :: "twitch_chat_result \<Rightarrow> chat_entry option" where
  "entry_of (ChatSent r) = Some (EntrySent r)"
| "entry_of ChatAmbiguous = Some EntryAmbiguous"
| "entry_of _ = None"

definition max_settled_posts :: nat where "max_settled_posts = 256"

text \<open>An old entry is replaced where it stands; a new one may push out the oldest.\<close>

definition settle_post :: "chat_key \<Rightarrow> chat_entry \<Rightarrow> (chat_key \<times> chat_entry) list \<Rightarrow> (chat_key \<times> chat_entry) list" where
  "settle_post k entry posts =
     (if k \<in> fst ` set posts then AList.update k entry posts
      else (if length posts = max_settled_posts then tl posts else posts) @ [(k, entry)])"

definition finish_post :: "chat_key \<Rightarrow> twitch_chat_result \<Rightarrow> ledger \<Rightarrow> ledger" where
  "finish_post k result L =
     (let L = L\<lparr>active_posts := active_posts L - {k}\<rparr> in
      case entry_of result of
        None \<Rightarrow> L
      | Some entry \<Rightarrow> L\<lparr>settled_posts := settle_post k entry (settled_posts L)\<rparr>)"

section \<open>The worker\<close>

record chat_config =
  message_template :: string
  post_success :: bool
  post_failure :: bool

datatype chat_worker_error = ChatConfiguration | ChatWorker worker_error

record captured_chat =
  chat_captured :: upload_request
  captured_config :: chat_config
  captured_template :: message_template
  captured_key :: chat_key

text \<open>
  The ledger is shared by the threads: \<open>others\<close> is what they do to it while this one posts. The flag says
  whether the request still holds its claim.
\<close>

datatype ledger_op = ClaimPost chat_key bool | FinishPost chat_key twitch_chat_result

fun ledger_step :: "ledger \<Rightarrow> ledger_op \<Rightarrow> ledger" where
  "ledger_step L (ClaimPost k manual) = snd (claim_post k manual L)"
| "ledger_step L (FinishPost k r) = finish_post k r L"

record 'w chat_world =
  chat_ledger :: ledger
  claimed :: bool
  chat_rest :: 'w

definition in_rest :: "('w \<Rightarrow> 'a \<times> 'w) \<Rightarrow> 'w chat_world \<Rightarrow> 'a \<times> 'w chat_world" where
  "in_rest f s = (case f (chat_rest s) of (x, w) \<Rightarrow> (x, s\<lparr>chat_rest := w\<rparr>))"

definition claim_in :: "chat_key \<Rightarrow> bool \<Rightarrow> 'w chat_world \<Rightarrow> upload_outcome option \<times> 'w chat_world" where
  "claim_in k manual s =
     (case claim_post k manual (chat_ledger s) of (r, L) \<Rightarrow> (r, s\<lparr>chat_ledger := L, claimed := (r = None)\<rparr>))"

definition finish_in :: "chat_key \<Rightarrow> twitch_chat_result \<Rightarrow> 'w chat_world \<Rightarrow> unit \<times> 'w chat_world" where
  "finish_in k r s = ((), s\<lparr>chat_ledger := finish_post k r (chat_ledger s), claimed := False\<rparr>)"

definition post_message ::
  "'w chat_env \<Rightarrow> ('w \<Rightarrow> ledger_op list) \<Rightarrow> string \<Rightarrow> ('w chat_world, twitch_chat_result) step" where
  "post_message E others message s =
     (case chat_send E message (chat_rest s) of (r, w) \<Rightarrow>
        (r, s\<lparr>chat_rest := w, chat_ledger := foldl ledger_step (chat_ledger s) (others w)\<rparr>))"

definition chat_process ::
  "'w chat_env \<Rightarrow> (nat \<Rightarrow> bool) \<Rightarrow> ('w \<Rightarrow> ledger_op list) \<Rightarrow> captured_chat \<Rightarrow> ('w chat_world, upload_outcome) step" where
  "chat_process E alloc others q =
     andthen (ask (in_rest (chat_stopped E))) (\<lambda>stopped.
       if stopped then give OutCancelled
       else case request_report (chat_captured q) of
         None \<Rightarrow> (\<lambda>s. (None, s))
       | Some report \<Rightarrow>
           if (success report \<and> \<not> post_success (captured_config q)) \<or>
             (\<not> success report \<and> \<not> post_failure (captured_config q))
           then give OutSkipped
           else case render alloc report (captured_template q) of
             Err _ \<Rightarrow> give (OutFailedWithNotice (TwitchFailure InvalidMessage))
           | Ok message \<Rightarrow>
               andthen (ask (claim_in (captured_key q) (is_user_initiated (request_intent (chat_captured q))))) (\<lambda>previous.
                 case previous of
                   Some x \<Rightarrow> give x
                 | None \<Rightarrow> andthen (post_message E others message) (\<lambda>delivery.
                     andthen (ask (finish_in (captured_key q) delivery)) (\<lambda>_. give (into_upload_outcome delivery)))))"

definition chat_failed :: "captured_chat \<Rightarrow> 'w chat_world \<Rightarrow> upload_outcome \<times> 'w chat_world" where
  "chat_failed q s =
     (if claimed s
      then (OutAmbiguous, s\<lparr>chat_ledger := finish_post (captured_key q) ChatAmbiguous (chat_ledger s)\<rparr>)
      else (OutFailed, s))"

text \<open>What the pool does with a request: a panic of the processor is caught and answered by \<open>failed\<close>.\<close>

definition chat_attempt ::
  "'w chat_env \<Rightarrow> (nat \<Rightarrow> bool) \<Rightarrow> ('w \<Rightarrow> ledger_op list) \<Rightarrow> captured_chat \<Rightarrow> 'w chat_world \<Rightarrow> upload_outcome \<times> 'w chat_world" where
  "chat_attempt E alloc others q s =
     (case chat_process E alloc others q (s\<lparr>claimed := False\<rparr>) of
        (Some x, t) \<Rightarrow> (x, t)
      | (None, t) \<Rightarrow> chat_failed q t)"

definition chat_result_of :: "captured_chat \<Rightarrow> upload_outcome \<Rightarrow> upload_result" where
  "chat_result_of q x =
     \<lparr>result_job_id = request_job_id (chat_captured q), result_provider = Twitch,
      result_attempt = request_attempt (chat_captured q), result_outcome = x\<rparr>"

record chat_worker =
  chat_pool :: "(captured_chat, upload_result) pool"
  worker_config :: chat_config
  worker_template :: message_template

definition new_chat_worker ::
  "(nat \<Rightarrow> bool) \<Rightarrow> (nat \<Rightarrow> bool) \<Rightarrow> chat_config \<Rightarrow> worker_options \<Rightarrow> (chat_worker_error, chat_worker) result" where
  "new_chat_worker alloc starts conf opts =
     and_then (map_err (\<lambda>_. ChatConfiguration) (parse_template (message_template conf))) (\<lambda>t.
     and_then (map_err ChatWorker (new_pool alloc starts opts)) (\<lambda>p.
       Ok \<lparr>chat_pool = p, worker_config = conf, worker_template = t\<rparr>))"

definition update_chat_config :: "chat_config \<Rightarrow> chat_worker \<Rightarrow> (chat_worker_error, unit) result \<times> chat_worker" where
  "update_chat_config conf w =
     (case parse_template (message_template conf) of
        Err _ \<Rightarrow> (Err ChatConfiguration, w)
      | Ok t \<Rightarrow> (Ok (), w\<lparr>worker_config := conf, worker_template := t\<rparr>))"

definition chat_configure ::
  "(nat \<Rightarrow> bool) \<Rightarrow> provider_configuration \<Rightarrow> chat_worker \<Rightarrow> (provider_configuration_error, unit) result \<times> chat_worker" where
  "chat_configure starts conf w =
     (case policy conf of
        TwitchPolicy template on_success on_failure \<Rightarrow>
          (case parse_template template of
             Err _ \<Rightarrow> (Err ConfigInvalid, w)
           | Ok t \<Rightarrow>
               (case resize starts (provider_configuration.parallelism conf) (chat_pool w) of
                  (Err e, p) \<Rightarrow> (Err (worker_configuration_error e), w\<lparr>chat_pool := p\<rparr>)
                | (Ok _, p) \<Rightarrow>
                    (Ok (), w\<lparr>chat_pool := p, worker_template := t,
                       worker_config := \<lparr>message_template = template, post_success = on_success, post_failure = on_failure\<rparr>\<rparr>)))
      | _ \<Rightarrow> (Err ConfigInvalid, w))"

definition chat_enqueue :: "upload_request \<Rightarrow> chat_worker \<Rightarrow> (provider_error, unit) result \<times> chat_worker" where
  "chat_enqueue q w =
     (if request_provider q \<noteq> Twitch \<or> request_attempt q = 0 \<or> canonical_path (request_file q) = [] then (Err InvalidRequest, w)
      else case request_report q of
        None \<Rightarrow> (Err InvalidRequest, w)
      | Some report \<Rightarrow>
          if \<not> trusted_report_permalink (permalink report) then (Err InvalidRequest, w)
          else case enqueue \<lparr>chat_captured = q, captured_config = worker_config w, captured_template = worker_template w,
                 captured_key = (request_job_id q, permalink report)\<rparr> (chat_pool w) of
            (r, p) \<Rightarrow> (map_err queue_provider_error r, w\<lparr>chat_pool := p\<rparr>))"

definition chat_take :: "chat_worker \<Rightarrow> (provider_error, upload_result option) result \<times> chat_worker" where
  "chat_take w = (case try_take_result (chat_pool w) of (r, p) \<Rightarrow> (Ok r, w\<lparr>chat_pool := p\<rparr>))"

definition chat_cancel :: "chat_worker \<Rightarrow> chat_worker" where
  "chat_cancel w = w\<lparr>chat_pool := cancel_pending (chat_pool w)\<rparr>"

text \<open>The results of a thread, whether its attempt returned or panicked, carry the key of the request.\<close>

interpretation chat_uploads: answering "\<lambda>q. chat_result_of q OutFailed" "\<lambda>q x. Some (chat_result_of q x)"
    "\<lambda>q. (request_job_id (chat_captured q), Twitch, request_attempt (chat_captured q))" result_key
  by unfold_locales (simp add: result_key_def attempt_output_def chat_result_of_def)

section \<open>What a delivery returns\<close>

lemma retry_delay_bound: "0 < retry_delay d \<and> retry_delay d \<le> 86400 * second"
  by (auto simp: retry_delay_def second_def split: option.splits)

definition chat_result_ok :: "twitch_chat_result \<Rightarrow> bool" where
  "chat_result_ok r =
     (case r of
        ChatSent x \<Rightarrow> twitch_is_valid x \<and> delivery_status x = TwitchSent
      | ChatDropped x \<Rightarrow> twitch_is_valid x \<and> delivery_status x \<noteq> TwitchSent
      | ChatRetryAfter d \<Rightarrow> 0 < d \<and> d \<le> 86400 * second
      | _ \<Rightarrow> True)"

lemma failures_ok: "chat_result_ok (session_failure e)" "chat_result_ok (send_failure x)"
  using retry_delay_bound
  by (auto simp: chat_result_ok_def session_failure_def send_failure_def Let_def split: delivery_session_code.splits)

text \<open>\<open>returns\<close>: the step does not panic, and its value is in \<open>Q\<close>.\<close>

definition returns :: "('a \<Rightarrow> bool) \<Rightarrow> ('s, 'a) step \<Rightarrow> bool" where
  "returns Q f \<longleftrightarrow> (\<forall>s. \<exists>v t. f s = (Some v, t) \<and> Q v)"

lemma returns_give: "Q v \<Longrightarrow> returns Q (give v)"
  by (simp add: returns_def give_def)

lemma returns_andthen: "returns (\<lambda>_. True) f \<Longrightarrow> (\<And>v. returns Q (g v)) \<Longrightarrow> returns Q (andthen f g)"
  unfolding returns_def andthen_def by (metis (no_types, lifting) old.prod.case option.simps(5))

lemma returns_ask: "returns (\<lambda>_. True) (ask f)"
  by (auto simp: returns_def ask_def split: prod.splits)

lemma send_attempts_returns: "0 < n \<Longrightarrow> returns chat_result_ok (send_attempts E message broadcaster since n lease)"
proof (induction n arbitrary: lease broadcaster)
  case (Suc n)
  have ok: "chat_result_ok ChatCancelled" "chat_result_ok ChatAmbiguous" "chat_result_ok (ChatFailed x)" for x
    by (simp_all add: chat_result_ok_def)
  have receipt: "twitch_is_valid r \<Longrightarrow> delivery_status r = TwitchSent \<Longrightarrow> chat_result_ok (ChatSent r)"
    "twitch_is_valid r \<Longrightarrow> delivery_status r \<noteq> TwitchSent \<Longrightarrow> chat_result_ok (ChatDropped r)" for r
    by (simp_all add: chat_result_ok_def)
  show ?case
    unfolding send_attempts.simps
    by (rule returns_andthen [OF returns_ask])
       (auto intro!: returns_give returns_andthen [OF returns_ask] ok receipt failures_ok Suc.IH split: option.splits sum.splits)
qed simp

lemma chat_send_returns: "returns chat_result_ok (chat_send E message)"
proof -
  have ok: "chat_result_ok ChatCancelled" "chat_result_ok (ChatFailed x)" for x by (simp_all add: chat_result_ok_def)
  show ?thesis
    unfolding chat_send_def
    by (auto intro!: returns_andthen [OF returns_ask] returns_give ok failures_ok send_attempts_returns split: option.splits sum.splits)
qed

section \<open>The posts of a delivery\<close>

type_synonym chat_post = "string \<times> string \<times> string \<times> (twitch_error, twitch_delivery_receipt) result option"

text \<open>All posts carry the message for one broadcaster, and every post but the last was refused as unauthorized.\<close>

definition refused :: "chat_post \<Rightarrow> bool" where
  "refused p \<longleftrightarrow> (\<exists>e. snd (snd (snd p)) = Some (Err e) \<and> unauthorized e)"

definition one_delivery :: "nat \<Rightarrow> string \<Rightarrow> string \<Rightarrow> chat_post list \<Rightarrow> bool" where
  "one_delivery n u m ps \<longleftrightarrow>
     length ps \<le> n \<and> list_all refused (butlast ps) \<and> list_all (\<lambda>p. fst p = u \<and> fst (snd p) = m) ps"

lemma one_delivery_Nil: "one_delivery n u m []"
  by (simp add: one_delivery_def)

lemma one_delivery_Cons:
  "refused (u, m, t, r) \<Longrightarrow> one_delivery n u m ps \<Longrightarrow> one_delivery (Suc n) u m ((u, m, t, r) # ps)"
  by (auto simp: one_delivery_def)

lemma one_delivery_single: "one_delivery (Suc n) u m [(u, m, t, r)]"
  by (simp add: one_delivery_def)

locale recording_chat =
  fixes E :: "'w chat_env"
    and posts :: "'w \<Rightarrow> chat_post list"
  assumes post_logged: "chat_post E u m t w = (r, w') \<Longrightarrow> posts w' = posts w @ [(u, m, t, r)]"
    and stopped_quiet: "chat_stopped E w = (b, w') \<Longrightarrow> posts w' = posts w"
    and acquire_quiet: "chat_acquire E w = (a, w') \<Longrightarrow> posts w' = posts w"
    and recover_quiet: "chat_recover E l w = (a, w') \<Longrightarrow> posts w' = posts w"
begin

lemma send_attempts_posts:
  "send_attempts E message u since n lease w = (r, w') \<Longrightarrow> lease_user_id lease = u \<Longrightarrow>
     \<exists>ps. posts w' = posts w @ ps \<and> one_delivery n u message ps"
proof (induction n arbitrary: lease w)
  case 0
  then show ?case using one_delivery_Nil by auto
next
  case (Suc n)
  obtain b w1 where 1: "chat_stopped E w = (b, w1)" by (meson surj_pair)
  obtain x w2 where 2: "chat_post E u message (lease_token lease) w1 = (x, w2)" by (meson surj_pair)
  obtain b2 w3 where 3: "chat_stopped E w2 = (b2, w3)" by (meson surj_pair)
  obtain y w4 where 4: "chat_recover E lease w3 = (y, w4)" by (meson surj_pair)
  have p1: "posts w1 = posts w" and p3: "posts w3 = posts w @ [(u, message, lease_token lease, x)]"
    and p4: "posts w4 = posts w3"
    using stopped_quiet [OF 1] post_logged [OF 2] stopped_quiet [OF 3] recover_quiet [OF 4] by simp_all
  note one = one_delivery_single [of n u message "lease_token lease" x]
  show ?case
  proof (cases "w' = w1 \<or> w' = w3 \<or> w' = w4")
    case True
    then show ?thesis using p1 p3 p4 one one_delivery_Nil [of "Suc n" u message] by auto
  next
    case False
    then obtain e l where "x = Some (Err e)" "unauthorized e" "lease_user_id l = u"
      and rest: "send_attempts E message u since n l w4 = (r, w')"
      using Suc.prems by (auto simp: andthen_def ask_def give_def 1 2 3 4 split: if_splits option.splits sum.splits)
    then have "refused (u, message, lease_token lease, x)" by (simp add: refused_def)
    moreover from Suc.IH [OF rest \<open>lease_user_id l = u\<close>] obtain ps
      where "posts w' = posts w4 @ ps" "one_delivery n u message ps" by blast
    ultimately show ?thesis using p3 p4 one_delivery_Cons by auto
  qed
qed

lemma chat_send_posts:
  assumes "chat_send E message w = (r, w')"
  shows "\<exists>u ps. posts w' = posts w @ ps \<and> one_delivery 2 u message ps \<and> (ps \<noteq> [] \<longrightarrow> chat_message_ok message)"
proof -
  obtain b w1 where 1: "chat_stopped E w = (b, w1)" by (meson surj_pair)
  obtain x w2 where 2: "chat_acquire E w1 = (x, w2)" by (meson surj_pair)
  have p: "posts w1 = posts w" "posts w2 = posts w" using stopped_quiet [OF 1] acquire_quiet [OF 2] by simp_all
  show ?thesis
  proof (cases "w' = w1 \<or> w' = w2")
    case True
    then show ?thesis using p one_delivery_Nil [of 2 undefined message] by auto
  next
    case False
    then obtain l where "send_attempts E message (lease_user_id l) (lease_revision l) 2 l w2 = (r, w')" and ok: "chat_message_ok message"
      using assms by (auto simp: chat_send_def andthen_def ask_def give_def 1 2 simp del: send_attempts.simps
          split: if_splits option.splits sum.splits)
    from send_attempts_posts [OF this(1) refl] obtain ps
      where "posts w' = posts w2 @ ps" "one_delivery 2 (lease_user_id l) message ps" by blast
    with p ok show ?thesis by auto
  qed
qed

end

text \<open>Every environment can be watched: keep the list of posts beside its world.\<close>

definition logged_chat :: "'w chat_env \<Rightarrow> ('w \<times> chat_post list) chat_env" where
  "logged_chat E = \<lparr>
     chat_stopped = beside (chat_stopped E),
     chat_acquire = beside (chat_acquire E),
     chat_recover = (\<lambda>l. beside (chat_recover E l)),
     chat_post = (\<lambda>u m t s. case chat_post E u m t (fst s) of (r, w) \<Rightarrow> (r, (w, snd s @ [(u, m, t, r)])))\<rparr>"

interpretation logged_chat: recording_chat "logged_chat E" snd for E
  by unfold_locales (auto simp: logged_chat_def beside_def split: prod.splits)

section \<open>The ledger over time\<close>

text \<open>
  What the threads of the worker do to the ledger: a claim, with its answer, and the end of a delivery by
  a thread whose claim was granted and has not ended.
\<close>

datatype ledger_event = Claimed chat_key bool "upload_outcome option" | Ended chat_key twitch_chat_result

definition grants :: "chat_key \<Rightarrow> ledger_event list \<Rightarrow> nat" where
  "grants k es = length (filter (\<lambda>e. \<exists>m. e = Claimed k m None) es)"

definition endings :: "chat_key \<Rightarrow> ledger_event list \<Rightarrow> nat" where
  "endings k es = length (filter (\<lambda>e. \<exists>r. e = Ended k r) es)"

inductive ledger_run :: "ledger_event list \<Rightarrow> ledger \<Rightarrow> bool" where
  ledger_start: "ledger_run [] new_ledger"
| ledger_claim: "ledger_run es L \<Longrightarrow> claim_post k manual L = (r, L') \<Longrightarrow> ledger_run (es @ [Claimed k manual r]) L'"
| ledger_end: "ledger_run es L \<Longrightarrow> endings k es < grants k es \<Longrightarrow> ledger_run (es @ [Ended k r]) (finish_post k r L)"

text \<open>
  The last delivery for a key that was sent or may have been sent, and the keys that have one: a
  specification over the events alone.
\<close>

definition may_be_out :: "twitch_chat_result \<Rightarrow> bool" where
  "may_be_out r \<longleftrightarrow> r = ChatAmbiguous \<or> (\<exists>receipt. r = ChatSent receipt)"

definition last_delivery :: "chat_key \<Rightarrow> ledger_event list \<Rightarrow> twitch_chat_result option" where
  "last_delivery k es =
     foldl (\<lambda>a e. case e of Ended k2 r \<Rightarrow> if k2 = k \<and> may_be_out r then Some r else a | _ \<Rightarrow> a) None es"

definition delivered_keys :: "ledger_event list \<Rightarrow> chat_key set" where
  "delivered_keys es = {k. last_delivery k es \<noteq> None}"

lemma last_delivery_simps [simp]:
  "last_delivery k [] = None"
  "last_delivery k (es @ [Claimed k2 m r]) = last_delivery k es"
  "last_delivery k (es @ [Ended k2 x]) = (if k2 = k \<and> may_be_out x then Some x else last_delivery k es)"
  by (simp_all add: last_delivery_def)

lemma entry_of_out: "entry_of r \<noteq> None \<longleftrightarrow> may_be_out r"
  by (cases r) (simp_all add: may_be_out_def)

lemma entry_of_outcome: "entry_of r = Some x \<Longrightarrow> entry_outcome x = into_upload_outcome r"
  by (cases r) auto

lemma grants_snoc [simp]:
  "grants k (es @ [Claimed k2 m r]) = grants k es + (if k2 = k \<and> r = None then 1 else 0)"
  "grants k (es @ [Ended k2 x]) = grants k es"
  "endings k (es @ [Claimed k2 m r]) = endings k es"
  "endings k (es @ [Ended k2 x]) = endings k es + (if k2 = k then 1 else 0)"
  by (simp_all add: grants_def endings_def)

lemma delivered_snoc [simp]:
  "delivered_keys (es @ [Claimed k m r]) = delivered_keys es"
  "delivered_keys (es @ [Ended k x]) = (if entry_of x \<noteq> None then insert k (delivered_keys es) else delivered_keys es)"
  using entry_of_out [of x] by (auto simp: delivered_keys_def)

definition post_keys :: "ledger \<Rightarrow> chat_key set" where
  "post_keys L = fst ` set (settled_posts L)"

text \<open>
  Each key has at most one delivery under way; the ledger knows the delivered keys or is full of others,
  and what it knows of a key is its last delivery.
\<close>

definition ledger_inv :: "ledger_event list \<Rightarrow> ledger \<Rightarrow> bool" where
  "ledger_inv es L \<longleftrightarrow>
     (\<forall>k. grants k es = endings k es + (if k \<in> active_posts L then 1 else 0)) \<and>
     distinct (map fst (settled_posts L)) \<and> length (settled_posts L) \<le> max_settled_posts \<and>
     post_keys L \<subseteq> delivered_keys es \<and>
     (post_keys L = delivered_keys es \<or> length (settled_posts L) = max_settled_posts) \<and>
     (\<forall>k x. map_of (settled_posts L) k = Some x \<longrightarrow> map_option into_upload_outcome (last_delivery k es) = Some (entry_outcome x))"

lemma settle_post_keys:
  assumes "distinct (map fst ps)" and "length ps \<le> max_settled_posts"
  shows "distinct (map fst (settle_post k entry ps))" and "length (settle_post k entry ps) \<le> max_settled_posts"
    and "fst ` set (settle_post k entry ps) \<subseteq> insert k (fst ` set ps)"
    and "k \<in> fst ` set (settle_post k entry ps)"
    and "fst ` set (settle_post k entry ps) = insert k (fst ` set ps) \<or> length (settle_post k entry ps) = max_settled_posts"
    and "length (settle_post k entry ps) \<ge> length ps"
proof -
  have t: "distinct (map fst (tl ps))" "fst ` set (tl ps) \<subseteq> fst ` set ps"
    using assms(1) by (cases ps; auto)+
  show "distinct (map fst (settle_post k entry ps))"
    using assms t by (auto simp: settle_post_def distinct_update)
  show "length (settle_post k entry ps) \<le> max_settled_posts"
    using assms(2) by (auto simp: settle_post_def length_update_eq max_settled_posts_def)
  show "fst ` set (settle_post k entry ps) \<subseteq> insert k (fst ` set ps)"
    using t(2) by (auto simp: settle_post_def dom_update)
  show "k \<in> fst ` set (settle_post k entry ps)"
    by (auto simp: settle_post_def dom_update)
  show "fst ` set (settle_post k entry ps) = insert k (fst ` set ps) \<or> length (settle_post k entry ps) = max_settled_posts"
    by (auto simp: settle_post_def dom_update max_settled_posts_def)
  show "length (settle_post k entry ps) \<ge> length ps"
    by (auto simp: settle_post_def length_update_eq)
qed

lemma settle_post_finds:
  assumes "distinct (map fst ps)" and "map_of (settle_post k entry ps) j = Some x"
  shows "if j = k then x = entry else map_of ps j = Some x"
proof -
  have t: "map_of (tl ps) j = Some x \<Longrightarrow> map_of ps j = Some x"
    using assms(1) by (cases ps) (auto dest: map_of_SomeD split: if_splits simp: rev_image_eqI)
  show ?thesis
  proof (cases "k \<in> fst ` set ps")
    case True
    then show ?thesis using assms(2) by (auto simp: settle_post_def update_conv split: if_splits)
  next
    case False
    have "map_of (tl ps) k = None" "map_of ps k = None"
      using False by (cases ps; auto simp: map_of_eq_None_iff)+
    then show ?thesis using False assms(2) t
      by (auto simp: settle_post_def map_add_Some_iff split: if_splits)
  qed
qed

lemma ledger_run_inv: "ledger_run es L \<Longrightarrow> ledger_inv es L"
proof (induction rule: ledger_run.induct)
  case ledger_start
  then show ?case by (auto simp: ledger_inv_def new_ledger_def grants_def endings_def post_keys_def delivered_keys_def max_settled_posts_def)
next
  case (ledger_claim es L k manual r L')
  from ledger_claim(2) consider "L' = L" "r \<noteq> None"
    | "r = None" "k \<notin> active_posts L" "L' = L\<lparr>active_posts := insert k (active_posts L)\<rparr>"
    unfolding claim_post_def by (cases "k \<in> active_posts L"; cases "if manual then None else map_of (settled_posts L) k") auto
  then show ?case
  proof cases
    case 1
    then show ?thesis using ledger_claim.IH by (simp add: ledger_inv_def)
  next
    case 2
    then show ?thesis using ledger_claim.IH by (simp add: ledger_inv_def post_keys_def) (use 2(2) in blast)
  qed
next
  case (ledger_end es L k r)
  have g: "grants j es = endings j es + (if j \<in> active_posts L then 1 else 0)" for j
    using ledger_end.IH unfolding ledger_inv_def by blast
  then have active: "k \<in> active_posts L" using ledger_end.hyps(2) g [of k] by (simp split: if_splits)
  have old: "distinct (map fst (settled_posts L))" "length (settled_posts L) \<le> max_settled_posts"
    and keys: "post_keys L \<subseteq> delivered_keys es" "post_keys L = delivered_keys es \<or> length (settled_posts L) = max_settled_posts"
    using ledger_end.IH by (auto simp: ledger_inv_def)
  have counts: "grants j (es @ [Ended k r]) = endings j (es @ [Ended k r]) + (if j \<in> active_posts (finish_post k r L) then 1 else 0)" for j
    using g [of j] active by (auto simp: finish_post_def Let_def split: option.splits)
  have known: "map_option into_upload_outcome (last_delivery j es) = Some (entry_outcome x)"
    if "map_of (settled_posts L) j = Some x" for j x
    using that ledger_end.IH unfolding ledger_inv_def by blast
  show ?case
  proof (cases "entry_of r")
    case None
    moreover have "\<not> may_be_out r" using None entry_of_out [of r] by simp
    ultimately show ?thesis using old keys counts known
      unfolding ledger_inv_def by (simp add: finish_post_def post_keys_def)
  next
    case (Some x)
    then have s: "settled_posts (finish_post k r L) = settle_post k x (settled_posts L)"
      by (simp add: finish_post_def Let_def)
    note n = settle_post_keys [OF old, of k x]
    have "length (settle_post k x (settled_posts L)) = max_settled_posts" if "length (settled_posts L) = max_settled_posts"
      using n(2,6) that by simp
    then have "post_keys (finish_post k r L) = insert k (delivered_keys es) \<or>
        length (settled_posts (finish_post k r L)) = max_settled_posts"
      using n(5) keys(2) unfolding s post_keys_def by blast
    moreover have "post_keys (finish_post k r L) \<subseteq> insert k (delivered_keys es)"
      using n(3) keys(1) unfolding s post_keys_def by blast
    moreover have "map_option into_upload_outcome (last_delivery j (es @ [Ended k r])) = Some (entry_outcome y)"
      if "map_of (settled_posts (finish_post k r L)) j = Some y" for j y
      using settle_post_finds [OF old(1) that [unfolded s]] known [of j y] entry_of_outcome [OF Some] entry_of_out [of r] Some
      by (auto split: if_splits)
    ultimately show ?thesis using counts n(1,2) Some unfolding ledger_inv_def s by simp
  qed
qed

lemma delivered_key_remembered:
  assumes "ledger_run es L" and "k \<in> delivered_keys es" and "card (delivered_keys es - {k}) < max_settled_posts"
  shows "\<exists>entry. map_of (settled_posts L) k = Some entry"
proof (rule ccontr)
  assume "\<not> (\<exists>entry. map_of (settled_posts L) k = Some entry)"
  then have k: "k \<notin> post_keys L" by (auto simp: post_keys_def map_of_eq_None_iff)
  note inv = ledger_run_inv [OF assms(1), unfolded ledger_inv_def]
  then have "length (settled_posts L) = max_settled_posts" using k assms(2) by auto
  then have "card (post_keys L) = max_settled_posts"
    using inv by (metis distinct_card length_map list.set_map post_keys_def)
  moreover have "finite (delivered_keys es)"
  proof (induction es rule: rev_induct)
    case (snoc e es)
    then show ?case by (cases e) simp_all
  qed (simp add: delivered_keys_def)
  then have "card (post_keys L) \<le> card (delivered_keys es - {k})"
    using inv k by (intro card_mono) auto
  ultimately show False using assms(3) by simp
qed

section \<open>What an attempt does\<close>

text \<open>
  C11: A chat message is posted at most once per attempt. Whatever Twitch, the session owner and the
  other threads do, an attempt makes at most two posts, all with the same message for the same
  broadcaster, and the second only after Twitch refused the first as unauthorized; a message is
  posted only if it is valid, and only under a claim that the ledger granted: while no other thread
  posts for the same job and report, and, unless the user asked for it, while the ledger knows of no
  earlier delivery that was sent or may have been.
\<close>

theorem attempt_posts_at_most_once:
  "case chat_attempt (logged_chat E) alloc others q s of (x, t) \<Rightarrow>
     \<exists>u m ps. snd (chat_rest t) = snd (chat_rest s) @ ps \<and> one_delivery 2 u m ps \<and>
       (ps = [] \<or> chat_message_ok m \<and> captured_key q \<notin> active_posts (chat_ledger s) \<and>
         (is_user_initiated (request_intent (chat_captured q)) \<or> map_of (settled_posts (chat_ledger s)) (captured_key q) = None))"
proof -
  let ?E = "logged_chat E" and ?s = "s\<lparr>claimed := False\<rparr>"
  obtain b w1 where 1: "chat_stopped ?E (chat_rest s) = (b, w1)" by (meson surj_pair)
  have w1: "snd w1 = snd (chat_rest s)" using logged_chat.stopped_quiet [OF 1] .
  let ?manual = "is_user_initiated (request_intent (chat_captured q))"
  obtain r t where p: "chat_process ?E alloc others q ?s = (r, t)" by (meson surj_pair)
  have "\<exists>u m ps. snd (chat_rest t) = snd (chat_rest s) @ ps \<and> one_delivery 2 u m ps \<and>
      (ps = [] \<or> chat_message_ok m \<and> fst (claim_post (captured_key q) ?manual (chat_ledger s)) = None)"
  proof (cases "snd (chat_rest t) = snd (chat_rest s)")
    case True
    then show ?thesis using one_delivery_Nil by fastforce
  next
    case False
    obtain y s2 where c: "claim_in (captured_key q) ?manual (s\<lparr>claimed := False, chat_rest := w1\<rparr>) = (y, s2)" by (meson surj_pair)
    have c2: "chat_rest s2 = w1" "y = fst (claim_post (captured_key q) ?manual (chat_ledger s))"
      using c by (auto simp: claim_in_def split: prod.splits)
    from False p w1 c c2 obtain message z s3 where y: "y = None" and m: "post_message ?E others message s2 = (z, s3)"
      and t: "snd (chat_rest t) = snd (chat_rest s3)"
      by (auto simp: chat_process_def andthen_def ask_def give_def in_rest_def 1 finish_in_def
          split: option.splits if_splits sum.splits prod.splits)
    obtain z2 w3 where m2: "chat_send ?E message (chat_rest s2) = (z2, w3)" by (meson surj_pair)
    have "chat_rest s3 = w3" using m by (auto simp: post_message_def m2)
    with logged_chat.chat_send_posts [OF m2] t w1 c2 y show ?thesis by auto
  qed
  then obtain u m ps where ps: "snd (chat_rest t) = snd (chat_rest s) @ ps" "one_delivery 2 u m ps"
    "ps = [] \<or> chat_message_ok m \<and> fst (claim_post (captured_key q) ?manual (chat_ledger s)) = None" by blast
  have rest: "snd (chat_rest (snd (chat_attempt ?E alloc others q s))) = snd (chat_rest t)"
    by (auto simp: chat_attempt_def p chat_failed_def split: option.splits)
  have free: "fst (claim_post k manual L) = None \<Longrightarrow> k \<notin> active_posts L \<and> (manual \<or> map_of (settled_posts L) k = None)" for k manual L
    by (auto simp: claim_post_def split: if_splits option.splits)
  obtain x t2 where a: "chat_attempt ?E alloc others q s = (x, t2)" by (meson surj_pair)
  show ?thesis
    unfolding a prod.case using ps rest [unfolded a] free [of "captured_key q" ?manual "chat_ledger s"]
    by (intro exI [of _ u] exI [of _ m] exI [of _ ps]) auto
qed

text \<open>
  C3: The Twitch ledger prevents repeated posts across attempts and threads. After every interleaving of
  claims and endings, at most one delivery per job and report is under way, and while it is, every
  other claim is told to wait. Once a delivery was sent, or may have been sent, an automatic claim
  for the same job and report is not granted: it is answered with the outcome of the last such delivery, unless
  256 other jobs or reports have had one since the start, which is what the ledger can hold. And a claim
  is granted when there was no such delivery and none is under way.
\<close>

theorem no_automatic_repost:
  assumes "ledger_run es L"
  shows "(grants k es = endings k es \<or> grants k es = Suc (endings k es)) \<and>
    (grants k es = Suc (endings k es) \<longrightarrow> claim_post k manual L = (Some (OutRetryAfter (30 * second)), L)) \<and>
    (\<forall>r. last_delivery k es = Some r \<and> grants k es = endings k es \<and>
       card {j. j \<noteq> k \<and> last_delivery j es \<noteq> None} < 256 \<longrightarrow>
       claim_post k False L = (Some (into_upload_outcome r), L)) \<and>
    (last_delivery k es = None \<and> grants k es = endings k es \<longrightarrow> fst (claim_post k manual L) = None)"
proof (intro conjI allI impI)
  note inv = ledger_run_inv [OF assms, unfolded ledger_inv_def]
  have g: "grants k es = endings k es + (if k \<in> active_posts L then 1 else 0)" using inv by blast
  have known: "map_of (settled_posts L) k = Some x \<Longrightarrow> map_option into_upload_outcome (last_delivery k es) = Some (entry_outcome x)" for x
    using inv by blast
  show "grants k es = endings k es \<or> grants k es = Suc (endings k es)" using g by simp
  show "claim_post k manual L = (Some (OutRetryAfter (30 * second)), L)" if "grants k es = Suc (endings k es)"
    using g that by (simp add: claim_post_def split: if_splits)
  show "fst (claim_post k manual L) = None" if "last_delivery k es = None \<and> grants k es = endings k es"
    using g that known by (cases "map_of (settled_posts L) k") (auto simp: claim_post_def split: if_splits)
  fix r
  assume r: "last_delivery k es = Some r \<and> grants k es = endings k es \<and> card {j. j \<noteq> k \<and> last_delivery j es \<noteq> None} < 256"
  have "delivered_keys es - {k} = {j. j \<noteq> k \<and> last_delivery j es \<noteq> None}" by (auto simp: delivered_keys_def)
  with r obtain x where "map_of (settled_posts L) k = Some x"
    using delivered_key_remembered [OF assms, of k] by (auto simp: delivered_keys_def max_settled_posts_def)
  then show "claim_post k False L = (Some (into_upload_outcome r), L)"
    using g r known by (auto simp: claim_post_def split: if_splits)
qed

theorem no_automatic_repost_witness:
  "claim_post (1, ''l'') False \<lparr>settled_posts = [((1, ''l''), EntryAmbiguous)], active_posts = {}\<rparr> =
     (Some OutAmbiguous, \<lparr>settled_posts = [((1, ''l''), EntryAmbiguous)], active_posts = {}\<rparr>)"
proof -
  let ?k = "(1, ''l'') :: chat_key"
  let ?L1 = "\<lparr>settled_posts = [], active_posts = {?k}\<rparr>" and ?L2 = "\<lparr>settled_posts = [(?k, EntryAmbiguous)], active_posts = {}\<rparr>"
  let ?es = "[Claimed ?k False None, Ended ?k ChatAmbiguous]"
  have "ledger_run ([] @ [Claimed ?k False None]) ?L1"
    by (rule ledger_claim [OF ledger_start]) (simp add: claim_post_def new_ledger_def)
  then have 1: "ledger_run [Claimed ?k False None] ?L1" by simp
  have "finish_post ?k ChatAmbiguous ?L1 = ?L2" by (simp add: finish_post_def settle_post_def max_settled_posts_def)
  with ledger_end [OF 1, of ?k ChatAmbiguous] have 2: "ledger_run ?es ?L2"
    by (simp add: grants_def endings_def ex_bool_eq)
  have d: "last_delivery j ?es = (if j = ?k then Some ChatAmbiguous else None)" for j
    by (simp add: last_delivery_def may_be_out_def)
  have "{j. j \<noteq> ?k \<and> last_delivery j ?es \<noteq> None} = {}" unfolding d by auto
  then have "last_delivery ?k ?es = Some ChatAmbiguous \<and> grants ?k ?es = endings ?k ?es \<and>
      card {j. j \<noteq> ?k \<and> last_delivery j ?es \<noteq> None} < 256"
    unfolding d by (simp add: grants_def endings_def ex_bool_eq)
  with no_automatic_repost [OF 2, of ?k] have "claim_post ?k False ?L2 = (Some (into_upload_outcome ChatAmbiguous), ?L2)" by blast
  then show ?thesis by simp
qed

section \<open>Outcomes\<close>

definition ledger_valid :: "ledger \<Rightarrow> bool" where
  "ledger_valid L \<longleftrightarrow> list_all (\<lambda>(k, e). case e of EntrySent r \<Rightarrow> twitch_is_valid r \<and> delivery_status r = TwitchSent | EntryAmbiguous \<Rightarrow> True)
     (settled_posts L)"

definition chat_outcome_ok :: "upload_outcome \<Rightarrow> bool" where
  "chat_outcome_ok x =
     (case x of
        OutSucceeded (TwitchDone r) \<Rightarrow> twitch_is_valid r \<and> delivery_status r = TwitchSent
      | OutTwitchDropped r \<Rightarrow> twitch_is_valid r \<and> delivery_status r \<noteq> TwitchSent
      | OutRetryAfter d \<Rightarrow> 0 < d \<and> d \<le> 86400 * second
      | OutSkipped \<Rightarrow> True | OutFailed \<Rightarrow> True | OutFailedWithNotice _ \<Rightarrow> True | OutAmbiguous \<Rightarrow> True | OutCancelled \<Rightarrow> True
      | _ \<Rightarrow> False)"

lemma delivered_outcome_ok: "chat_result_ok r \<Longrightarrow> chat_outcome_ok (into_upload_outcome r)"
  by (cases r) (simp_all add: chat_result_ok_def chat_outcome_ok_def)

lemma claimed_outcome_ok: "ledger_valid L \<Longrightarrow> fst (claim_post k manual L) = Some x \<Longrightarrow> chat_outcome_ok x"
proof -
  assume L: "ledger_valid L" and c: "fst (claim_post k manual L) = Some x"
  have "chat_outcome_ok (entry_outcome entry)" if "map_of (settled_posts L) k = Some entry" for entry
    using L map_of_SomeD [OF that] by (cases entry) (auto simp: ledger_valid_def chat_outcome_ok_def list_all_iff)
  moreover have "chat_outcome_ok (OutRetryAfter (30 * second))" by (simp add: chat_outcome_ok_def second_def)
  ultimately show ?thesis using c by (auto simp: claim_post_def split: if_splits option.splits)
qed

lemma chat_attempt_outcome:
  assumes "ledger_valid (chat_ledger s)"
  shows "chat_outcome_ok (fst (chat_attempt E alloc others q s))"
proof -
  obtain r t where p: "chat_process E alloc others q (s\<lparr>claimed := False\<rparr>) = (r, t)" by (meson surj_pair)
  have const: "chat_outcome_ok OutCancelled" "chat_outcome_ok OutSkipped" "chat_outcome_ok OutFailed"
    "chat_outcome_ok OutAmbiguous" "chat_outcome_ok (OutFailedWithNotice f)" for f by (simp_all add: chat_outcome_ok_def)
  have send: "\<exists>v w'. chat_send E m w = (Some v, w') \<and> chat_result_ok v" for m w
    using chat_send_returns [of E m] unfolding returns_def by blast
  have "chat_outcome_ok x" if "r = Some x" for x
  proof (cases "\<exists>s2. fst (claim_post (captured_key q) (is_user_initiated (request_intent (chat_captured q))) (chat_ledger s)) = Some x")
    case True
    then show ?thesis using claimed_outcome_ok [OF assms] by blast
  next
    case False
    with p that const show ?thesis
      by (auto simp: chat_process_def andthen_def ask_def give_def in_rest_def claim_in_def finish_in_def post_message_def
          split: option.splits if_splits sum.splits prod.splits)
         (metis send delivered_outcome_ok option.inject prod.inject)+
  qed
  then show ?thesis using p const by (auto simp: chat_attempt_def chat_failed_def split: option.splits)
qed

text \<open>Between its claim and its ending an attempt leaves the ledger to the other threads.\<close>

lemma chat_attempt_ledger:
  "chat_ledger (snd (chat_attempt E alloc others q s)) = chat_ledger s \<or>
     (\<exists>w v. let manual = is_user_initiated (request_intent (chat_captured q)) in
        fst (claim_post (captured_key q) manual (chat_ledger s)) = None \<and>
        chat_ledger (snd (chat_attempt E alloc others q s)) =
          finish_post (captured_key q) v (foldl ledger_step (snd (claim_post (captured_key q) manual (chat_ledger s))) (others w)))"
proof -
  let ?k = "captured_key q" and ?manual = "is_user_initiated (request_intent (chat_captured q))"
  have same: "fst (claim_post k m L) \<noteq> None \<Longrightarrow> snd (claim_post k m L) = L" for k m L
    by (cases "k \<in> active_posts L"; cases "if m then None else map_of (settled_posts L) k") (simp_all add: claim_post_def)
  have send: "\<exists>v w'. chat_send E m w = (Some v, w')" for m w
    using chat_send_returns [of E m] unfolding returns_def by blast
  obtain b w1 where 1: "chat_stopped E (chat_rest s) = (b, w1)" by (meson surj_pair)
  obtain y L1 where 2: "claim_post ?k ?manual (chat_ledger s) = (y, L1)" by (meson surj_pair)
  show ?thesis
  proof (cases y)
    case (Some x)
    then have "L1 = chat_ledger s" using same [of ?k ?manual "chat_ledger s"] 2 by simp
    then show ?thesis using Some 2
      by (auto simp: chat_attempt_def chat_process_def andthen_def ask_def give_def in_rest_def claim_in_def 1 chat_failed_def
          split: option.splits sum.splits)
  next
    case None
    have "chat_ledger (snd (chat_attempt E alloc others q s)) = chat_ledger s \<or>
        (\<exists>w v. chat_ledger (snd (chat_attempt E alloc others q s)) = finish_post ?k v (foldl ledger_step L1 (others w)))"
    proof (cases "\<exists>report message. request_report (chat_captured q) = Some report \<and>
        \<not> ((success report \<and> \<not> post_success (captured_config q)) \<or> (\<not> success report \<and> \<not> post_failure (captured_config q))) \<and>
        render alloc report (captured_template q) = Ok message")
      case False
      then show ?thesis
        by (auto simp: chat_attempt_def chat_process_def andthen_def ask_def give_def in_rest_def 1 chat_failed_def
            split: option.splits sum.splits)
    next
      case True
      then obtain report message where m: "request_report (chat_captured q) = Some report"
        "\<not> ((success report \<and> \<not> post_success (captured_config q)) \<or> (\<not> success report \<and> \<not> post_failure (captured_config q)))"
        "render alloc report (captured_template q) = Ok message" by blast
      obtain v w2 where "chat_send E message w1 = (Some v, w2)" using send by blast
      then show ?thesis using m None 2
        by (auto simp: chat_attempt_def chat_process_def andthen_def ask_def give_def in_rest_def claim_in_def finish_in_def
            post_message_def 1)
    qed
    then show ?thesis using None 2 by simp
  qed
qed

text \<open>The entries of a ledger whose deliveries ended with results of \<open>send\<close> are valid.\<close>

lemma ledger_run_valid:
  "ledger_run es L \<Longrightarrow> \<forall>k r. Ended k r \<in> set es \<longrightarrow> chat_result_ok r \<Longrightarrow> ledger_valid L"
proof (induction rule: ledger_run.induct)
  case ledger_start
  then show ?case by (simp add: ledger_valid_def new_ledger_def)
next
  case (ledger_claim es L k manual r L')
  then have "settled_posts L' = settled_posts L" by (auto simp: claim_post_def split: if_splits option.splits)
  with ledger_claim show ?case by (simp add: ledger_valid_def)
next
  case (ledger_end es L k r)
  have "Ended k r \<in> set (es @ [Ended k r])" by simp
  with ledger_end.prems have r: "chat_result_ok r" by blast
  have L: "ledger_valid L" by (rule ledger_end.IH) (use ledger_end.prems in \<open>simp; blast\<close>)
  show ?case
  proof (cases "entry_of r")
    case None
    then show ?thesis using L by (simp add: ledger_valid_def finish_post_def Let_def)
  next
    case (Some x)
    have x: "case x of EntrySent r \<Rightarrow> twitch_is_valid r \<and> delivery_status r = TwitchSent | EntryAmbiguous \<Rightarrow> True"
      using Some r by (cases r) (auto simp: chat_result_ok_def)
    have "set (AList.update k x ps) \<subseteq> insert (k, x) (set ps)" "set (tl ps) \<subseteq> set ps" for ps
      by (induction ps) auto
    note sub = this
    have "set (settle_post k x (settled_posts L)) \<subseteq> insert (k, x) (set (settled_posts L))"
      unfolding settle_post_def using sub [of "settled_posts L"] by auto
    then show ?thesis using L x Some
      by (fastforce simp: ledger_valid_def finish_post_def Let_def list_all_iff)
  qed
qed

end
