(* ===== verification/Destinations.thy ===== *)
theory Destinations
  imports Coordinator_Receipts Wingman Donbot_Worker Twitch_Chat
begin

text \<open>
  The four destinations together: the outcomes of their attempts as the coordinator settles them. Each
  destination interprets \<open>destination_contract\<close>, what a job relies on when an attempt ends.
\<close>

section \<open>The contract\<close>

locale destination_contract =
  fixes d :: provider
    and outcome_ok :: "upload_outcome \<Rightarrow> bool"
  assumes success_settles:
      "outcome_ok (OutSucceeded x) \<Longrightarrow> state_of j d = Active \<Longrightarrow> no_receipt d (snapshot j) \<Longrightarrow>
         \<exists>k. record_success d x n j = Ok k \<and> (d = DpsReport \<or> is_ok (transition d Succeeded m k))"
    and notice_settles: "outcome_ok (OutSucceededWithNotice x notice) \<Longrightarrow> outcome_ok (OutSucceeded x)"
    and drop_settles:
      "outcome_ok (OutTwitchDropped r) \<Longrightarrow> d = Twitch \<and> delivery_status r \<noteq> TwitchSent \<and> twitch_is_valid r"
    and delay_bounded: "outcome_ok (OutRetryAfter t) \<Longrightarrow> 0 < t \<and> t \<le> 86400 * second"
begin

lemma ends_active: "state_of j d = Active \<Longrightarrow> s \<in> {Skipped, Failed, Cancelled, RetryScheduled t} \<Longrightarrow> is_ok (transition d s n j)"
  by (auto simp: transition_def provider_status_def Let_def)

lemma outcome_settles:
  assumes "outcome_ok x" and active: "state_of j d = Active" and "no_receipt d (snapshot j)"
    and time: "now + max_retry_delay < 2 ^ 64 * 10 ^ 9" "env_steady_now env v = (now, v')"
  shows "is_ok (fst (settle_job env d x j v))"
proof -
  have ends: "is_ok (fst (settle_job env d x j v))"
    if "next_state env d x j v = (Ok (s, k), v2)" "state_of k d = Active" "s \<in> {Skipped, Failed, Cancelled, RetryScheduled t}" for s k v2 t
    using that ends_active [OF that(2,3)] by (auto simp: settle_job_def is_ok_iff)
  have settled_by: "is_ok (fst (settle_job env d x j v))"
    if "next_state env d x j v = (Ok (s, k), v2)" "state_of k d = Active" "s \<in> {Skipped, Failed, Cancelled}" for s k v2
    using that ends by blast
  have settled: "is_ok (fst (settle_job env d x j v))"
    if "next_state env d x j v = (and_then (record_success d y n j) (\<lambda>k. Ok (Succeeded, k)), v)" "outcome_ok (OutSucceeded y)" for y n
    using success_settles [OF that(2) active assms(3), of n] that(1)
    by (fastforce simp: settle_job_def is_ok_iff)
  show ?thesis
  proof (cases x)
    case (OutSucceeded y)
    then show ?thesis using settled [of y] assms(1) by (simp add: next_state_def)
  next
    case (OutSucceededWithNotice y m)
    then show ?thesis using settled [of y] notice_settles assms(1) by (simp add: next_state_def)
  next
    case (OutRetryAfter t)
    then have "0 < t" "t \<le> max_retry_delay" "t \<le> 86400 * second"
      using delay_bounded assms(1) by (auto simp: max_retry_delay_def second_def)
    then have "next_state env d x j v = (Ok (RetryScheduled (now + t), j), v')"
      using time OutRetryAfter by (simp add: next_state_def instant_checked_add_def ok_or_def)
    then show ?thesis using active by (intro ends [of _ _ _ "now + t"]) auto
  next
    case (OutTwitchDropped r)
    with drop_settles assms(1) have r: "d = Twitch" "delivery_status r \<noteq> TwitchSent" "twitch_is_valid r" by auto
    let ?k = "j\<lparr>snapshot := (snapshot j)\<lparr>twitch_receipt := Some r\<rparr>\<rparr>"
    have "next_state env d x j v = (Ok (Failed, ?k), v)"
      using r active assms(3) OutTwitchDropped
      by (simp add: next_state_def record_twitch_delivery_def require_active_def require_def no_receipt_def)
    then show ?thesis using active by (intro ends [of _ ?k]) (auto simp: provider_status_def)
  qed (use settled_by [of _ j v] active in \<open>auto simp: next_state_def\<close>)
qed

end

interpretation dps_contract: destination_contract DpsReport dps_outcome_ok
proof
  fix x j n m
  assume "dps_outcome_ok (OutSucceeded x)" "state_of j DpsReport = Active"
  then show "\<exists>k. record_success DpsReport x n j = Ok k \<and> (DpsReport = DpsReport \<or> is_ok (transition DpsReport Succeeded m k))"
    by (cases x) (auto simp: dps_outcome_ok_def record_success_def complete_dps_report_def require_active_def require_def)
qed (auto simp: dps_outcome_ok_def split: upload_success.splits)

lemma recorded_succeeds: "state_of j d = Active \<Longrightarrow> d \<noteq> DpsReport \<Longrightarrow> d \<noteq> Twitch \<Longrightarrow> is_ok (transition d Succeeded m j)"
  by (auto simp: transition_def provider_status_def Let_def)

interpretation wingman_contract: destination_contract Wingman wingman_outcome_ok
proof
  fix x j n m
  assume x: "wingman_outcome_ok (OutSucceeded x)" and j: "state_of j Wingman = Active" "no_receipt Wingman (snapshot j)"
  then obtain r where r: "x = WingmanDone r" "pred_option (\<lambda>l. good_link (wingman_permalink l)) r"
    by (cases x) (auto simp: wingman_outcome_ok_def)
  show "\<exists>k. record_success Wingman x n j = Ok k \<and> (Wingman = DpsReport \<or> is_ok (transition Wingman Succeeded m k))"
  proof (cases r)
    case None
    then show ?thesis using r(1) j recorded_succeeds by (simp add: record_success_def)
  next
    case (Some l)
    let ?k = "j\<lparr>snapshot := (snapshot j)\<lparr>wingman_receipt := Some l\<rparr>\<rparr>"
    have "wingman_permalink l \<noteq> []" using r(2) Some good_link_opens by auto
    then have "record_success Wingman x n j = Ok ?k"
      using r(1) Some j by (simp add: record_success_def record_wingman_upload_def require_active_def require_def no_receipt_def)
    moreover have "state_of ?k Wingman = Active" using j by (simp add: provider_status_def)
    ultimately show ?thesis using recorded_succeeds by blast
  qed
qed (auto simp: wingman_outcome_ok_def split: upload_success.splits)

interpretation donbot_contract: destination_contract DonBot donbot_outcome_ok
proof
  fix x j n m
  assume x: "donbot_outcome_ok (OutSucceeded x)" and j: "state_of j DonBot = Active" "no_receipt DonBot (snapshot j)"
  then obtain r where r: "x = DonBotDone r" "pred_option donbot_is_valid r"
    by (cases x) (auto simp: donbot_outcome_ok_def)
  show "\<exists>k. record_success DonBot x n j = Ok k \<and> (DonBot = DpsReport \<or> is_ok (transition DonBot Succeeded m k))"
  proof (cases r)
    case None
    then show ?thesis using r(1) j recorded_succeeds by (simp add: record_success_def)
  next
    case (Some l)
    let ?k = "j\<lparr>snapshot := (snapshot j)\<lparr>donbot_receipt := Some l\<rparr>\<rparr>"
    have "record_success DonBot x n j = Ok ?k"
      using r Some j by (simp add: record_success_def record_donbot_upload_def require_active_def require_def no_receipt_def)
    moreover have "state_of ?k DonBot = Active" using j by (simp add: provider_status_def)
    ultimately show ?thesis using recorded_succeeds by blast
  qed
qed (auto simp: donbot_outcome_ok_def split: upload_success.splits)

interpretation twitch_contract: destination_contract Twitch chat_outcome_ok
proof
  fix x j n m
  assume x: "chat_outcome_ok (OutSucceeded x)" and j: "state_of j Twitch = Active" "no_receipt Twitch (snapshot j)"
  then obtain r where r: "x = TwitchDone r" "twitch_is_valid r" "delivery_status r = TwitchSent"
    by (cases x) (auto simp: chat_outcome_ok_def)
  let ?k = "j\<lparr>snapshot := (snapshot j)\<lparr>twitch_receipt := Some r\<rparr>\<rparr>"
  have "record_success Twitch x n j = Ok ?k"
    using r j by (simp add: record_success_def record_twitch_delivery_def require_active_def require_def no_receipt_def)
  moreover have "is_ok (transition Twitch Succeeded m ?k)"
    using j r by (auto simp: transition_def provider_status_def Let_def some_and_def)
  ultimately show "\<exists>k. record_success Twitch x n j = Ok k \<and> (Twitch = DpsReport \<or> is_ok (transition Twitch Succeeded m k))" by blast
qed (auto simp: chat_outcome_ok_def split: upload_success.splits)

section \<open>Every outcome settles\<close>

text \<open>
  The ledger of a chat worker in use: the claims and ends of its threads, each end with the result of a
  \<open>chat_send\<close> or, for a thread that panicked, with an ambiguous one.
\<close>

definition worker_ledger :: "'w chat_env \<Rightarrow> ledger \<Rightarrow> bool" where
  "worker_ledger T L \<longleftrightarrow>
     (\<exists>es. ledger_run es L \<and>
        (\<forall>k r. Ended k r \<in> set es \<longrightarrow> r = ChatAmbiguous \<or> (\<exists>m w w'. chat_send T m w = (Some r, w'))))"

lemma worker_ledger_valid: "worker_ledger T L \<Longrightarrow> ledger_valid L"
proof -
  assume "worker_ledger T L"
  then obtain es where run: "ledger_run es L"
    and r: "\<And>k r. Ended k r \<in> set es \<Longrightarrow> r = ChatAmbiguous \<or> (\<exists>m w w'. chat_send T m w = (Some r, w'))"
    unfolding worker_ledger_def by blast
  have "chat_result_ok r" if "chat_send T m w = (Some r, w')" for m w w' r
    using chat_send_returns [of T m] that unfolding returns_def by (metis option.inject prod.inject)
  moreover have "chat_result_ok ChatAmbiguous" by (simp add: chat_result_ok_def)
  ultimately show ?thesis using ledger_run_valid [OF run] r by blast
qed

text \<open>The outcome of a destination's attempt is one that its contract covers.\<close>

lemma outcomes_settle:
  assumes "(p = DpsReport \<and> dps_process E S q1 w = (Some x, w')) \<or>
      (p = Wingman \<and> wingman_process E C fuel q2 w = (Some (Done x), w')) \<or>
      (p = DonBot \<and> donbot_process E S q3 w = (Some x, w')) \<or>
      (p = Twitch \<and> worker_ledger T (chat_ledger s) \<and> fst (chat_attempt T alloc others q4 s) = x)"
    and "state_of j p = Active" and "no_receipt p (snapshot j)"
    and "now + max_retry_delay < 2 ^ 64 * 10 ^ 9" and "env_steady_now env v = (now, v')"
  shows "is_ok (fst (settle_job env p x j v))"
  using assms(1)
proof (elim disjE conjE)
  assume p: "p = DpsReport" and "dps_process E S q1 w = (Some x, w')"
  then have "dps_outcome_ok x" using dps_process_gives [of E S q1] unfolding satisfies_def by blast
  from dps_contract.outcome_settles [OF this] show ?thesis using assms(2-5) p by simp
next
  assume p: "p = Wingman" and "wingman_process E C fuel q2 w = (Some (Done x), w')"
  then have "wingman_outcome_ok x" using wingman_process_gives [of E C fuel q2] unfolding satisfies_def by blast
  from wingman_contract.outcome_settles [OF this] show ?thesis using assms(2-5) p by simp
next
  assume p: "p = DonBot" and "donbot_process E S q3 w = (Some x, w')"
  then have "donbot_outcome_ok x" using donbot_process_gives [of E S q3] unfolding satisfies_def by blast
  from donbot_contract.outcome_settles [OF this] show ?thesis using assms(2-5) p by simp
next
  assume p: "p = Twitch" and "worker_ledger T (chat_ledger s)" "fst (chat_attempt T alloc others q4 s) = x"
  then have "chat_outcome_ok x" using chat_attempt_outcome worker_ledger_valid by blast
  from twitch_contract.outcome_settles [OF this] show ?thesis using assms(2-5) p by simp
qed

text \<open>
  C5: The coordinator accepts every outcome that an attempt at a destination has, so no upload stays
  active because its result was refused. Whatever the network, the file system, the clocks and the
  secret store do, an outcome of dps.report, GW2Wingman, DonBot or Twitch chat, reported for the current
  attempt of an active upload to a running coordinator, is applied: a report, a link or a receipt is
  complete enough to be recorded and none is recorded yet, a retry delay lies within the accepted range,
  and the remaining outcomes are transitions that an active upload allows. The coordinator is any that
  the operations reach from a new one, on these conditions: in a history that was restored, no failed,
  skipped, waiting or active GW2Wingman or DonBot delivery has a receipt and no skipped, waiting or active
  chat message has one (every history that such a coordinator saves is of this kind, but the code does
  not check it); the monotonic clock, at the time of the result, is more than the longest retry delay
  before its end (2^64 seconds); and the ledger of the chat worker is the product of its own threads.
  An attempt is a processing that ends; the pool answers one that panics, for chat within the attempt.
\<close>

theorem destination_outcomes_settle:
  assumes "(p = DpsReport \<and> dps_process E S q1 w = (Some x, w')) \<or>
      (p = Wingman \<and> wingman_process E C fuel q2 w = (Some (Done x), w')) \<or>
      (p = DonBot \<and> donbot_process E S q3 w = (Some x, w')) \<or>
      (p = Twitch \<and> worker_ledger T (chat_ledger s) \<and> fst (chat_attempt T alloc others q4 s) = x)"
    and "new_coordinator (v0, []) ps limit = Ok c0" and "list_all restores_unreceipted ops"
    and "c = foldl (coordinator_step (logged env)) c0 ops" and "\<not> coordinator.stopping c"
    and "e \<in> set (jobs c)" and "state_of (job e) p = Active"
    and "result_job_id r = id_of (job e)" and "result_provider r = p"
    and "result_attempt r = attempts (provider_status (job e) p)" and "result_outcome r = x"
    and "fst (env_steady_now (logged env) (world c)) + max_retry_delay < 2 ^ 64 * 10 ^ 9"
  shows "fst (apply_result (logged env) r c) = Ok ()"
proof -
  have "all_unreceipted c"
    unfolding assms(4) by (rule coordinator_run_unreceipted [OF new_coordinator_unreceipted [OF assms(2)] assms(3)])
  then have "no_receipt p (snapshot (job e))"
    using assms(6,7) by (auto simp: all_unreceipted_def unreceipted_def may_be_tried_def provider_status_def)
  then have "is_ok (fst (settle_job (logged env) p x (job e) (world c)))"
    using outcomes_settle [OF assms(1,7) _ assms(12)] by (metis prod.collapse)
  moreover have "ids_ok c"
    using reachable_ok [OF assms(2), of env ops] assms(4) by (simp add: coord_ok_def coord_inv_def)
  ultimately show ?thesis using result_settles assms(5-11) by blast
qed

lemma sample_active:
  "let c = foldl (coordinator_step (logged quiet_env)) sample_coordinator (take 2 sample_co_ops) in
     \<not> coordinator.stopping c \<and> map (\<lambda>e. (id_of (job e), state_of (job e) DpsReport, attempts (provider_status (job e) DpsReport))) (jobs c)
       = [(1, Active, 1)] \<and> fst (env_steady_now (logged quiet_env) (world c)) = 5"
  by code_simp

theorem destination_outcomes_settle_witness:
  "fst (dps_process sample_client None sample_captured 0) = Some OutFailed \<and>
   fst (apply_result (logged quiet_env)
       \<lparr>result_job_id = 1, result_provider = DpsReport, result_attempt = 1, result_outcome = OutFailed\<rparr>
       (foldl (coordinator_step (logged quiet_env)) sample_coordinator (take 2 sample_co_ops))) = Ok ()"
proof -
  define c where "c = foldl (coordinator_step (logged quiet_env)) sample_coordinator (take 2 sample_co_ops)"
  have c: "\<not> coordinator.stopping c" "fst (env_steady_now (logged quiet_env) (world c)) = 5"
      "map (\<lambda>e. (id_of (job e), state_of (job e) DpsReport, attempts (provider_status (job e) DpsReport))) (jobs c) = [(1, Active, 1)]"
    using sample_active unfolding Let_def c_def by blast+
  then obtain e where e: "e \<in> set (jobs c)" "id_of (job e) = 1" "state_of (job e) DpsReport = Active"
      "attempts (provider_status (job e) DpsReport) = 1" by (cases "jobs c") auto
  have ops: "list_all restores_unreceipted (take 2 sample_co_ops)" by (simp add: sample_co_ops_def restores_unreceipted_def)
  have n: "fst (env_steady_now (logged quiet_env) (world c)) + max_retry_delay < 2 ^ 64 * 10 ^ 9"
    using c(2) by (simp add: max_retry_delay_def)
  from destination_outcomes_settle [OF disjI1 [OF conjI [OF refl sample_process]] sample_new_coordinator ops c_def
      c(1) e(1,3) _ _ _ _ n, of "\<lparr>result_job_id = 1, result_provider = DpsReport, result_attempt = 1, result_outcome = OutFailed\<rparr>"] e
  show ?thesis unfolding c_def by (simp add: sample_process)
qed

end
