(* ===== verification/Spec2Isabelle.thy ===== *)
theory Spec2Isabelle
  imports Pump Coordinator_Evolution Zevtc Parser_Worker History_Store Configuration Twitch_Recovery
    Http_Response Multipart Destinations
begin

text \<open>
  A verification of the core of GW2 Manny Uploader, a Guild Wars 2 addon that watches a directory of
  ArcDPS logs, parses each new log and delivers it to dps.report, GW2Wingman, DonBot and Twitch chat.
  The model is translated from the Rust sources under \<open>rust/src\<close>.

  How the parts interact. The pump (\<open>application_pump.rs\<close>) polls a candidate source and shows every file to
  the discovery (\<open>log_discovery.rs\<close>), which reports a file once it has been seen unchanged a number of
  times in a row. The pump submits it to the ingestion (\<open>log_ingestion.rs\<close>), which creates a job in the
  upload coordinator (\<open>upload_coordinator.rs\<close>) and asks the metadata parser for the encounter. The parser
  (\<open>metadata_parser_worker.rs\<close>) runs on a worker pool (\<open>workers.rs\<close>) and reads the archive
  (\<open>zevtc_archive.rs\<close>) and the log in it (\<open>metadata_decoder.rs\<close>). With the metadata the coordinator sends
  requests to the destination adapters, first dps.report, and from its report to those that depend on
  it; the Twitch message is rendered from a template (\<open>twitch_template.rs\<close>). Results come back through the
  pump. The settings (\<open>settings.rs\<close>) configure all of it.

  Persistence. What survives a game session goes through one port of files (\<open>storage.rs\<close>), implemented by
  atomic replacement (\<open>file_store.rs\<close>): the upload history (\<open>history_store.rs\<close>, \<open>history_json.rs\<close>,
  \<open>history_wire.rs\<close>), the settings with a backup (\<open>settings_store.rs\<close>, \<open>settings_json.rs\<close>) and the
  encrypted secrets (\<open>secret_store.rs\<close>). The configuration service (\<open>configuration_service.rs\<close>) owns the
  settings and the secrets and publishes a snapshot with a revision.

  The network. The destinations exchange HTTP requests (\<open>http.rs\<close>), whose bodies stream a log file or a
  multipart form (\<open>body_sources.rs\<close>, \<open>multipart.rs\<close>) and whose responses are collected within limits
  (\<open>response.rs\<close>). The Twitch session (\<open>twitch_session_owner.rs\<close>) is leased to deliveries, renewed when
  a token is rejected, and saved as a secret (\<open>twitch_session.rs\<close>). Each destination is a worker on a
  pool: it runs its exchange (\<open>providers/dps_report\<close>, \<open>wingman\<close>, \<open>donbot\<close>, \<open>twitch\<close>) and answers with
  an outcome that the coordinator settles. The user's actions on a listed log pass through a bounded
  queue (\<open>recent_log_actions.rs\<close>).

  Theories, and what they model:
  \<^item> \<open>Prelude\<close>: results, machine integers, strings as UTF-8 byte sequences, the decimal parsers of the
    standard library, and the interfaces \<open>machine\<close> and \<open>evolving_machine\<close> that lift one-step facts to
    runs.
  \<^item> \<open>Receipts\<close>: \<open>domain/receipts.rs\<close>.
  \<^item> \<open>Upload_Job\<close>: \<open>domain/upload_job.rs\<close>: one job with its four providers. The invariant \<open>job_inv\<close> and
    the order \<open>job_evolves\<close> interpret \<open>evolving_machine\<close>.
  \<^item> \<open>Discovery\<close>: \<open>domain/log_discovery.rs\<close>. The invariant, what a report needs, and the window of
    accepted files. Failing allocations are a parameter.
  \<^item> \<open>Ports\<close>: \<open>application/ports.rs\<close>, \<open>twitch_chat.rs\<close>, \<open>provider_configuration.rs\<close> and the delivery route of
    \<open>donbot.rs\<close>. The adapters, the parser and the clocks are trait objects, so they are a record of
    functions over a world; a call returns \<open>None\<close> when it panics. The locale \<open>recording_env\<close> says what
    a client may rely on to watch the requests; every environment with a log interprets it.
  \<^item> \<open>Coordinator\<close>: \<open>application/upload_coordinator.rs\<close>, one definition per method.
    \<open>Coordinator_Safety\<close>: its invariant over all operations and environments, the uniqueness and form
    of requests, that nothing waits in vain, trimming. \<open>Coordinator_Evolution\<close>: results are accepted once,
    shutdown is final, draining is bounded, a report starts what waits for it. \<open>Coordinator_Receipts\<close>:
    a destination that may still be tried has no receipt.
  \<^item> \<open>Ingestion\<close>: \<open>application/log_ingestion.rs\<close>. \<open>Pump\<close>: \<open>application/application_pump.rs\<close> and
    the data of \<open>log_candidates.rs\<close>, with the candidate source as a parameter.
  \<^item> \<open>Bytes\<close>: little-endian integers, slices and iterators of the standard library, UTF-8 validity.
    \<open>Evtc\<close>: \<open>evtc/metadata_decoder.rs\<close>, with an encoder for its round trip. \<open>Zevtc\<close>:
    \<open>evtc/zevtc_archive.rs\<close>, with a writer for its round trip, bounds and selection. The
    Deflate decoder, the CRC, the file system and the allocator are parameters; the stop flag is a
    function of the number of checks before.
  \<^item> \<open>Template\<close>: \<open>domain/twitch_template.rs\<close>. \<open>Settings\<close>: \<open>domain/settings.rs\<close>, with the IPv6
    parser of the standard library.
  \<^item> \<open>Workers\<close>: \<open>workers.rs\<close> as a step relation of the threads and the owner under the mutex.
    \<open>Parser_Worker\<close>: \<open>evtc/metadata_parser_worker.rs\<close>.
  \<^item> \<open>Paths\<close>: the Windows path parser of the standard library and \<open>validate_storage_path\<close>. \<open>File_Store\<close>:
    the locale \<open>atomic_files\<close> is the contract of the port \<open>FileStore\<close>; \<open>filesystem/file_store.rs\<close> over a
    file system with failing calls interprets it, and the stores below are verified inside it.
  \<^item> \<open>Bounded_Output\<close>: the bounded writers of the documents. \<open>History\<close>: \<open>config/history_json.rs\<close> and
    \<open>history_wire.rs\<close>. \<open>History_Store\<close>: \<open>config/history_store.rs\<close>, its merge against a specification.
    \<open>Settings_Store\<close>: \<open>config/settings_json.rs\<close> and \<open>settings_store.rs\<close>. \<open>Secret_Store\<close>:
    \<open>config/secret_store.rs\<close> and \<open>application/secrets.rs\<close>. The JSON library, the checksum and the
    encryption are parameters.
  \<^item> \<open>Configuration\<close>: \<open>application/configuration_service.rs\<close> over two ports of functions, an
    \<open>evolving_machine\<close>.
  \<^item> \<open>Twitch_Session\<close>: \<open>application/twitch_session.rs\<close>, the binary record. \<open>Twitch_Owner\<close>:
    \<open>application/twitch_session_owner.rs\<close>, one step per section under its lock. \<open>Twitch_Recovery\<close>:
    \<open>twitch_session_owner/recovery.rs\<close>; between its sections the other threads run any operations that
    the environment chooses, and any call may panic.
  \<^item> \<open>Http\<close>: \<open>application/http.rs\<close>. \<open>Http_Response\<close>: \<open>http/response.rs\<close>, with a writer for its
    round trip. \<open>Http_Body\<close>: \<open>http/body_sources.rs\<close>; the locale \<open>quiet_source\<close> is the contract of a
    body source, which the sources in memory, the wrapper of exact length and the multipart body keep.
    \<open>Multipart\<close>: \<open>http/multipart.rs\<close>.
  \<^item> \<open>Calls\<close>: steps that may panic, with the rules that the exchanges are verified with.
    \<open>Worker_Answers\<close>: the locale \<open>answering\<close>, what a destination's processing owes to its pool.
    \<open>Upload_Worker\<close>: \<open>providers/async_upload_worker.rs\<close>. \<open>Provider_Client\<close>: \<open>providers/json.rs\<close> and
    \<open>wire.rs\<close>, and the record of the functions that an exchange calls. \<open>Client_Log\<close>: the same environment
    with a log of the requests; the locale \<open>recording_client\<close> says what it keeps.
  \<^item> \<open>Recent_Actions\<close>: \<open>application/recent_log_actions.rs\<close>, the queue shared with its clients and the
    controller; between two commands the clients run any operations.
  \<^item> \<open>Dps_Report\<close>: \<open>providers/dps_report\<close>. \<open>Wingman\<close>: \<open>providers/wingman\<close>, whose polling loops end by
    the clock. \<open>Donbot_Client\<close> and \<open>Donbot_Worker\<close>: \<open>providers/donbot\<close> up to the verification of keys,
    and the checks of \<open>application/donbot.rs\<close>. \<open>Twitch_Chat\<close>: \<open>providers/twitch/chat_delivery.rs\<close> and
    \<open>chat_worker.rs\<close>, with the ledger that prevents repeated posts. \<open>Destinations\<close>: the locale
    \<open>destination_contract\<close>, interpreted by all four: the coordinator accepts every outcome.
  \<^item> This theory: what spans components.

  State. A struct is a record with the source's fields; the four provider slots of a job or an entry
  are functions of the provider. Methods are functions from the state to a result and the next state;
  where the source writes before it returns an error, the written state is returned beside the error.
  An \<open>Instant\<close> and a \<open>Duration\<close> are natural numbers of nanoseconds, a \<open>SystemTime\<close> is a signed one from the Unix
  epoch; job numbers, attempts,
  sizes and tickets are words of their width, with the checked and wrapping operations of the source.

  Bounds and fuel. The only fuel bounds the two polling loops of \<open>Wingman\<close>, which the source ends by a
  deadline. The number of intervals in the limit plus two is enough, 602 and 62 with the default options:
  \<open>wingman_upload_returns\<close> shows it, for a clock that advances as the thread sleeps. The other loops that are not structural (trimming, draining,
  extra fields, template parts, chunks) have measures, so every operation is total; the worker pool,
  whose threads may block, is a relation with progress and termination theorems instead.

  Not modelled. Threads and condition variables below the level of one critical section; that
  processing returns at all in the pool (a step of the environment); the client of the Twitch service and
  the sign-in, the verification of DonBot keys and the aggregate worker, the controllers of the options and
  the user interface; and the addon crate, which binds to the game host and to Windows. The boxed source,
  adapters and parser can therefore do anything in the model that their types allow. The text of JSON
  documents is parsed and printed by a library, so the parser and the printer are parameters.
\<close>

section \<open>Settings that pass validation can be applied\<close>



text \<open>
  The check of the settings is weaker than the one of the DonBot client: this address passes the
  validation, and DonBot's worker refuses it.
\<close>

lemma valid_base_refused_by_donbot:
  "valid_api_base ''https://h.'' \<and> normalize_donbot_api_base ''https://h.'' = None"
  by (simp add: valid_api_base_def valid_authority_def contains_any_def strip_prefix_def
      starts_with_whitespace_def is_control_def byte_def normalize_donbot_api_base_def)



end
